(* ===== verification/Prelude.thy ===== *)
theory Prelude
  imports Main "HOL-Library.Word" "HOL-Library.Signed_Division"
begin

text \<open>
  Shared vocabulary of the development: the machine types of \<^verbatim>\<open>student-distrib/types.h\<close>,
  byte-addressed memory with 32-bit wrap-around addresses, runs of bytes read from and
  written to it, little-endian words, NUL-terminated strings, and the lemmas on them that
  the component theories use through the collections \<open>mem_simps\<close> and \<open>apart_intros\<close>.
\<close>

unbundle bit_operations_syntax

section \<open>Machine types\<close>

type_synonym u8 = "8 word"
type_synonym u16 = "16 word"
type_synonym u32 = "32 word"

text \<open>A memory is the byte contents of the 32-bit address space.\<close>

type_synonym mem = "u32 \<Rightarrow> u8"

named_theorems mem_simps "reading back what was written to memory"
named_theorems apart_intros "regions that do not overlap"

lemma sint_diff_eq_0 [simp]: "sint (a :: u8) - sint b = 0 \<longleftrightarrow> a = b"
  by (auto intro: signed_word_eqI)

lemma uint_diff_eq_0 [simp]: "uint (a :: u8) - uint b = 0 \<longleftrightarrow> a = b"
  by (auto intro: unsigned_word_eqI)

lemma unat_neg1 [simp]: "unat (- 1 :: u32) = 4294967295"
  by (simp add: unsigned_minus_1_eq_mask mask_eq_exp_minus_1)

section \<open>Runs of bytes\<close>

text \<open>The \<open>n\<close> bytes from address \<open>a\<close> on, addresses wrapping at the top.\<close>

definition rd :: "mem \<Rightarrow> u32 \<Rightarrow> nat \<Rightarrow> u8 list" where
  "rd m a n = map (\<lambda>i. m (a + of_nat i)) [0..<n]"

text \<open>The memory after the bytes \<open>bs\<close> are stored from address \<open>a\<close> on.\<close>

definition wr :: "mem \<Rightarrow> u32 \<Rightarrow> u8 list \<Rightarrow> mem" where
  "wr m a bs = (\<lambda>x. let k = unat (x - a) in if k < length bs then bs ! k else m x)"

definition region :: "u32 \<Rightarrow> nat \<Rightarrow> u32 set" where
  "region a n = {x. unat (x - a) < n}"

text \<open>Two regions that share no address, as a test on their end points.\<close>

definition apart :: "u32 \<Rightarrow> nat \<Rightarrow> u32 \<Rightarrow> nat \<Rightarrow> bool" where
  "apart a n b k \<longleftrightarrow> n = 0 \<or> k = 0 \<or> n \<le> unat (b - a) \<and> k \<le> unat (a - b)"

lemma length_rd [simp]: "length (rd m a n) = n"
  by (simp add: rd_def)

lemma rd_0 [simp]: "rd m a 0 = []"
  by (simp add: rd_def)

lemma rd_nth [simp]: "i < n \<Longrightarrow> rd m a n ! i = m (a + of_nat i)"
  by (simp add: rd_def)

lemma rd_Suc: "rd m a (Suc n) = m a # rd m (a + 1) n"
proof (rule nth_equalityI)
  fix i assume "i < length (rd m a (Suc n))"
  then show "rd m a (Suc n) ! i = (m a # rd m (a + 1) n) ! i"
    by (cases i) (simp_all add: add.assoc)
qed simp

lemma rd_add: "rd m a (n + k) = rd m a n @ rd m (a + of_nat n) k"
  by (rule nth_equalityI) (auto simp: nth_append algebra_simps)

lemma take_rd: "take k (rd m a n) = rd m a (min k n)"
  by (rule nth_equalityI) auto

lemma drop_rd: "drop k (rd m a n) = rd m (a + of_nat k) (n - k)"
  by (rule nth_equalityI) (auto simp: algebra_simps)

lemma rd_cong: "(\<And>i. i < n \<Longrightarrow> m (a + of_nat i) = m' (a + of_nat i)) \<Longrightarrow> rd m a n = rd m' a n"
  by (rule nth_equalityI) auto

lemma unat_of_nat_u32: "n < 2 ^ 32 \<Longrightarrow> unat (of_nat n :: u32) = n"
  by (simp add: unat_of_nat)

lemma unat_add_of_nat_sub [simp]: "n < 2 ^ 32 \<Longrightarrow> unat ((a :: u32) + of_nat n - a) = n"
  by (simp add: unat_of_nat_u32)

lemma index_inj: "i < 2 ^ 32 \<Longrightarrow> j < 2 ^ 32 \<Longrightarrow> buf + of_nat i = (buf + of_nat j :: u32) \<longleftrightarrow> i = j"
  by (metis add_left_cancel unat_of_nat_u32)

lemma wr_Nil [simp]: "wr m a [] = m"
  by (simp add: wr_def fun_eq_iff)

lemma wr_in: "i < length bs \<Longrightarrow> length bs \<le> 2 ^ 32 \<Longrightarrow> wr m a bs (a + of_nat i) = bs ! i"
  by (simp add: wr_def Let_def unat_of_nat)

lemma wr_out: "x \<notin> region a (length bs) \<Longrightarrow> wr m a bs x = m x"
  by (simp add: wr_def region_def Let_def)

lemma wr_one: "wr m a [b] = m(a := b)"
  by (auto simp: wr_def fun_eq_iff Let_def unat_eq_zero)

lemma rd_wr_same [mem_simps]: "length bs = n \<Longrightarrow> n \<le> 2 ^ 32 \<Longrightarrow> rd (wr m a bs) a n = bs"
  by (rule nth_equalityI) (auto simp: wr_in)

text \<open>The distance from one address to a later one in the same run.\<close>

lemma unat_diff_shift:
  fixes x a :: u32
  shows "j + unat (x - (a + of_nat j)) < 2 ^ 32
    \<Longrightarrow> unat (x - a) = j + unat (x - (a + of_nat j))"
proof -
  assume h: "j + unat (x - (a + of_nat j)) < 2 ^ 32"
  have "x - a = of_nat (j + unat (x - (a + of_nat j)))"
    by (simp add: algebra_simps)
  then have "unat (x - a) = unat (of_nat (j + unat (x - (a + of_nat j))) :: u32)"
    by simp
  also have "\<dots> = j + unat (x - (a + of_nat j))"
    using h by (rule unat_of_nat_u32)
  finally show ?thesis .
qed

lemma region_sub:
  assumes "j + k \<le> n" "n \<le> 2 ^ 32"
  shows "region (a + of_nat j) k \<subseteq> region a n"
proof
  fix x assume "x \<in> region (a + of_nat j) k"
  then have h: "unat (x - (a + of_nat j)) < k" by (simp add: region_def)
  with assms have "unat (x - a) = j + unat (x - (a + of_nat j))"
    by (intro unat_diff_shift) linarith
  with h assms show "x \<in> region a n" by (simp add: region_def)
qed

lemma in_region [simp]: "i < n \<Longrightarrow> n \<le> 2 ^ 32 \<Longrightarrow> a + of_nat i \<in> region a n"
  by (simp add: region_def unat_of_nat)

lemma region_0 [simp]: "region a 0 = {}"
  by (simp add: region_def)

lemma regionE:
  assumes "x \<in> region a n"
  obtains i where "i < n" "x = a + of_nat i"
proof
  show "unat (x - a) < n" using assms by (simp add: region_def)
  show "x = a + of_nat (unat (x - a))" by simp
qed

section \<open>Regions apart\<close>

lemma unat_u32_lt: "unat (x :: u32) < 4294967296"
  using unsigned_less [of x, where 'a = nat] by simp

lemma unat_u32_sub: "unat ((x :: u32) - y) =
    (if unat y \<le> unat x then unat x - unat y else unat x + 4294967296 - unat y)"
  by (simp add: unat_sub_if')

lemma apart_region: "apart a n b k \<Longrightarrow> region a n \<inter> region b k = {}"
proof (rule ccontr)
  assume h: "apart a n b k" and "region a n \<inter> region b k \<noteq> {}"
  then obtain x where x: "unat (x - a) < n" "unat (x - b) < k"
    by (auto simp: region_def)
  with h have "unat (x - a) < unat (b - a)" "unat (x - b) < unat (a - b)"
    by (auto simp: apart_def)
  then show False
    using unat_u32_lt [of a] unat_u32_lt [of b] unat_u32_lt [of x]
    unfolding unat_u32_sub by (simp split: if_splits)
qed

lemma apart_sym: "apart a n b k \<longleftrightarrow> apart b k a n"
  by (auto simp: apart_def)

lemma apart_below [apart_intros]:
  assumes "unat a + n \<le> unat b" "unat b + k \<le> 2 ^ 32"
  shows "apart a n b k"
  using assms unat_u32_lt [of a] unat_u32_lt [of b]
  unfolding apart_def unat_u32_sub by (simp split: if_splits; linarith)

lemma apart_above [apart_intros]:
  "unat b + k \<le> unat a \<Longrightarrow> unat a + n \<le> 2 ^ 32 \<Longrightarrow> apart a n b k"
  using apart_below [of b k a n] by (simp add: apart_sym)

lemma apart_bound: "apart a n b k \<Longrightarrow> 0 < n \<Longrightarrow> 0 < k \<Longrightarrow> n \<le> 4294967296 \<and> k \<le> 4294967296"
  using unat_u32_lt [of "b - a"] unat_u32_lt [of "a - b"] unfolding apart_def by linarith

lemma rd_wr_region [mem_simps]:
  assumes "region a n \<inter> region b (length bs) = {}" "n \<le> 2 ^ 32"
  shows "rd (wr m b bs) a n = rd m a n"
proof (rule rd_cong)
  fix i assume "i < n"
  with assms(2) have "a + of_nat i \<in> region a n" by (intro in_region) auto
  with assms(1) have "a + of_nat i \<notin> region b (length bs)" by blast
  then show "wr m b bs (a + of_nat i) = m (a + of_nat i)" by (rule wr_out)
qed

lemma rd_wr_apart [mem_simps]:
  assumes "apart a n b (length bs)"
  shows "rd (wr m b bs) a n = rd m a n"
proof (cases "n = 0 \<or> length bs = 0")
  case False
  with apart_bound [OF assms] have "n \<le> 2 ^ 32" by simp
  with apart_region [OF assms] show ?thesis by (rule rd_wr_region)
qed auto

lemma wr_append:
  assumes "length xs + length ys \<le> 2 ^ 32"
  shows "wr m a (xs @ ys) = wr (wr m a xs) (a + of_nat (length xs)) ys"
proof
  fix x
  let ?k = "unat (x - a)" and ?j = "unat (x - (a + of_nat (length xs)))"
  show "wr m a (xs @ ys) x = wr (wr m a xs) (a + of_nat (length xs)) ys x"
  proof (cases "?j < length ys")
    case True
    with assms have "?k = length xs + ?j" by (intro unat_diff_shift) linarith
    with True show ?thesis by (simp add: wr_def Let_def nth_append)
  next
    case False
    have "?k < length xs \<or> length xs + length ys \<le> ?k"
    proof (rule ccontr)
      assume "\<not> ?thesis"
      then have k: "length xs \<le> ?k" "?k < length xs + length ys" by auto
      then have "length xs < 2 ^ 32" using unat_u32_lt [of "x - a"] by simp
      then have "(of_nat (length xs) :: u32) \<le> x - a"
        using k(1) by (simp add: word_le_nat_alt unat_of_nat)
      then have "?j = ?k - length xs"
        using \<open>length xs < 2 ^ 32\<close> by (simp add: diff_diff_eq [symmetric] unat_sub unat_of_nat)
      with False k show False by simp
    qed
    with False show ?thesis by (auto simp: wr_def Let_def nth_append)
  qed
qed

lemma wr_Cons: "length xs < 2 ^ 32 \<Longrightarrow> wr m a (x # xs) = wr (m(a := x)) (a + 1) xs"
  using wr_append [of "[x]" xs m a] by (simp add: wr_one)

lemma wr_two: "wr m a [x, y] = m(a := x, a + 1 := y)"
  using wr_Cons [of "[y]" m a x] by (simp add: wr_one)

lemma wr_snoc: "length xs < 2 ^ 32 \<Longrightarrow> wr m a (xs @ [x]) = (wr m a xs)(a + of_nat (length xs) := x)"
  using wr_append [of xs "[x]" m a] by (simp add: wr_one)

lemma wr_rd_id [simp]: "n \<le> 2 ^ 32 \<Longrightarrow> wr m a (rd m a n) = m"
  by (auto simp: wr_def fun_eq_iff Let_def)

lemma wr_upd_commute: "x \<notin> region a (length bs) \<Longrightarrow> wr (m(x := b)) a bs = (wr m a bs)(x := b)"
  by (auto simp: fun_eq_iff wr_def region_def Let_def)

lemma rd_upd: "a \<notin> region b n \<Longrightarrow> n \<le> 2 ^ 32 \<Longrightarrow> rd (m(a := x)) b n = rd m b n"
  using rd_wr_region [of b n a "[x]" m] by (auto simp: wr_one region_def unat_eq_zero)

lemma wr_wr_same: "length xs = length ys \<Longrightarrow> wr (wr m a xs) a ys = wr m a ys"
  by (auto simp: fun_eq_iff wr_def Let_def)

section \<open>Signed readings\<close>

lemma sint_u32: "sint (v :: u32) =
    (if unat v < 2147483648 then int (unat v) else int (unat v) - 4294967296)"
proof -
  have "uint v = sint v mod 4294967296"
    using uint_word_of_int [of "sint v", where 'a = 32] by simp
  moreover have "- 2147483648 \<le> sint v" "sint v < 2147483648"
    using sint_greater_eq [of v] sint_less [of v] by simp_all
  moreover have "sint v mod 4294967296 = sint v + 4294967296" if "sint v < 0" "- 2147483648 \<le> sint v"
  proof -
    have "sint v mod 4294967296 = (sint v + 4294967296) mod 4294967296" by simp
    also have "\<dots> = sint v + 4294967296" using that by (intro mod_pos_pos_trivial) simp_all
    finally show ?thesis .
  qed
  ultimately show ?thesis
    unfolding unat_eq_nat_uint by (cases "sint v < 0") simp_all
qed

lemma sint_nonneg_unat: "0 \<le> sint (v :: u32) \<Longrightarrow> nat (sint v) = unat v"
  using unat_u32_lt [of v] by (auto simp: sint_u32 split: if_splits)

lemma sint_neg_unat:
  assumes "sint (v :: u32) < 0"
  shows "unat (- v) = nat (- sint v)"
proof -
  have big: "2147483648 \<le> unat v" and "sint v = int (unat v) - 4294967296"
    using assms sint_u32 [of v] by (simp_all split: if_splits)
  then have "nat (- sint v) = 4294967296 - unat v"
    using unat_u32_lt [of v] by linarith
  moreover have "unat (- v) = 4294967296 - unat v"
    using unat_u32_sub [of 0 v] big by simp
  ultimately show ?thesis by simp
qed

section \<open>NUL-terminated strings\<close>

text \<open>Memory holds the bytes \<open>s\<close> at \<open>a\<close>, none of them NUL, and a NUL after them.\<close>

definition cstring :: "mem \<Rightarrow> u32 \<Rightarrow> u8 list \<Rightarrow> bool" where
  "cstring m a s \<longleftrightarrow>
     rd m a (length s) = s \<and> m (a + of_nat (length s)) = 0 \<and> 0 \<notin> set s \<and> length s < 2 ^ 31"

text \<open>The string that the first \<open>n\<close> bytes at \<open>a\<close> hold: up to a NUL or the bound.\<close>

definition cbytes :: "mem \<Rightarrow> u32 \<Rightarrow> nat \<Rightarrow> u8 list" where
  "cbytes m a n = takeWhile (\<lambda>c. c \<noteq> 0) (rd m a n)"

text \<open>A string literal: an object of its own, at address 0.\<close>

definition str :: "string \<Rightarrow> u8 list" where
  "str cs = map of_char cs"

definition lit :: "string \<Rightarrow> mem" where
  "lit cs = wr (\<lambda>_. 0) 0 (str cs)"

lemma cstringD:
  assumes "cstring m a s"
  shows "rd m a (length s) = s" "m (a + of_nat (length s)) = 0" "0 \<notin> set s" "length s < 2 ^ 31"
  using assms by (simp_all add: cstring_def)

lemma cstring_nth:
  assumes "cstring m a s" "i < length s"
  shows "m (a + of_nat i) = s ! i" "m (a + of_nat i) \<noteq> 0"
proof -
  show "m (a + of_nat i) = s ! i" using assms by (metis cstringD(1) rd_nth)
  with assms show "m (a + of_nat i) \<noteq> 0" by (metis cstringD(3) nth_mem)
qed

lemma cstring_Nil: "cstring m a [] \<longleftrightarrow> m a = 0"
  by (simp add: cstring_def)

lemma cstring_Cons: "cstring m a (x # xs) \<longleftrightarrow>
    m a = x \<and> x \<noteq> 0 \<and> length xs + 1 < 2 ^ 31 \<and> cstring m (a + 1) xs"
  by (auto simp: cstring_def rd_Suc add.assoc)

lemma cstring_alt: "cstring m a s \<longleftrightarrow>
    rd m a (length s + 1) = s @ [0] \<and> 0 \<notin> set s \<and> length s < 2 ^ 31"
  unfolding cstring_def rd_add by (auto simp: rd_Suc)

lemma cstring_cong:
  "rd m' a (length s + 1) = rd m a (length s + 1) \<Longrightarrow> cstring m' a s \<longleftrightarrow> cstring m a s"
  unfolding cstring_alt by metis

lemma cstring_wr: "0 \<notin> set s \<Longrightarrow> length s < 2 ^ 31 \<Longrightarrow> cstring (wr m a (s @ [0])) a s"
  unfolding cstring_alt by (simp add: rd_wr_same)

lemma cstring_lit: "0 \<notin> set (str cs) \<Longrightarrow> length cs < 2 ^ 31 \<Longrightarrow> cstring (lit cs) 0 (str cs)"
proof -
  assume h: "0 \<notin> set (str cs)" "length cs < 2 ^ 31"
  have "lit cs = wr (\<lambda>_. 0) 0 (str cs @ [0])"
    by (rule ext) (auto simp: lit_def wr_def nth_append Let_def)
  with h cstring_wr [of "str cs" "\<lambda>_. 0" 0] show ?thesis by (simp add: str_def)
qed

lemma cstring_upd: "cstring m a s \<Longrightarrow> x \<notin> region a (length s + 1) \<Longrightarrow> cstring (m(x := b)) a s"
  by (subst cstring_cong) (auto simp: cstring_def rd_upd)

lemma cstring_wr_apart:
  "cstring m a s \<Longrightarrow> apart a (length s + 1) b (length bs) \<Longrightarrow> cstring (wr m b bs) a s"
  by (subst cstring_cong) (auto simp: rd_wr_apart)

lemma cstring_overwrite:
  assumes "cstring m a s" "length t = length s" "0 \<notin> set t"
  shows "cstring (wr m a t) a t"
proof -
  have len: "length s < 2 ^ 31" using assms(1) by (rule cstringD)
  then have "a + of_nat (length s) \<notin> region a (length t)"
    using assms(2) by (simp add: region_def unat_of_nat_u32)
  then have "wr m a t (a + of_nat (length s)) = 0"
    using cstringD(2) [OF assms(1)] by (simp add: wr_out)
  with assms len show ?thesis by (simp add: cstring_def rd_wr_same)
qed

lemma cbytes_cstring: "cstring m a s \<Longrightarrow> cbytes m a n = take n s"
proof (induction n arbitrary: a s)
  case (Suc n)
  then show ?case
    by (cases s) (auto simp: cbytes_def rd_Suc cstring_Nil cstring_Cons)
qed (simp add: cbytes_def)

lemma cbytes_0 [simp]: "cbytes m a 0 = []"
  by (simp add: cbytes_def)

lemma cbytes_Suc: "cbytes m a (Suc n) = (if m a = 0 then [] else m a # cbytes m (a + 1) n)"
  by (simp add: cbytes_def rd_Suc)

lemma length_cbytes: "length (cbytes m a n) \<le> n"
  unfolding cbytes_def using length_takeWhile_le [of _ "rd m a n"] by simp

section \<open>Little-endian words in memory\<close>

definition ld32 :: "mem \<Rightarrow> u32 \<Rightarrow> u32" where
  "ld32 m a = ucast (m a) + 256 * ucast (m (a + 1)) + 65536 * ucast (m (a + 2))
     + 16777216 * ucast (m (a + 3))"

definition le_bytes :: "u32 \<Rightarrow> u8 list" where
  "le_bytes w = [ucast w, ucast (drop_bit 8 w), ucast (drop_bit 16 w), ucast (drop_bit 24 w)]"

text \<open>Half words, and the stores of both widths.\<close>

definition ld16 :: "mem \<Rightarrow> u32 \<Rightarrow> u16" where
  "ld16 m a = ucast (m a) + 256 * ucast (m (a + 1))"

definition st16 :: "mem \<Rightarrow> u32 \<Rightarrow> u16 \<Rightarrow> mem" where
  "st16 m a v = m(a := ucast v, a + 1 := ucast (drop_bit 8 v))"

definition st32 :: "mem \<Rightarrow> u32 \<Rightarrow> u32 \<Rightarrow> mem" where
  "st32 m a v = wr m a (le_bytes v)"

lemma byte_of_16: "ucast (ucast (v :: u16) :: u8) = take_bit 8 v"
  by (rule bit_word_eqI) (auto simp: bit_simps)

lemma byte_of_32: "ucast (ucast (v :: u32) :: u8) = take_bit 8 v"
  by (rule bit_word_eqI) (auto simp: bit_simps)

lemma ld16_st16 [mem_simps]: "ld16 (st16 m a v) a = v"
proof -
  have "take_bit 8 v + 256 * take_bit 8 (drop_bit 8 v) = v"
  proof -
    have "take_bit 8 (drop_bit 8 v) = drop_bit 8 v" by (rule bit_word_eqI) (auto simp: bit_simps dest: bit_imp_le_length)
    then show ?thesis using bits_ident [of 8 v] by (simp add: push_bit_eq_mult ac_simps)
  qed
  then show ?thesis by (simp add: ld16_def st16_def byte_of_16)
qed

lemma length_le_bytes [simp]: "length (le_bytes v) = 4"
  by (simp add: le_bytes_def)

lemma rd_4: "rd m a 4 = [m a, m (a + 1), m (a + 2), m (a + 3)]"
  by (simp add: rd_def upt_rec)

lemma ld32_le_bytes: "rd m a 4 = le_bytes v \<Longrightarrow> ld32 m a = v"
proof -
  assume "rd m a 4 = le_bytes v"
  then have b: "m a = ucast v" "m (a + 1) = ucast (drop_bit 8 v)" "m (a + 2) = ucast (drop_bit 16 v)" "m (a + 3) = ucast (drop_bit 24 v)"
    by (simp_all add: rd_4 le_bytes_def)
  have "take_bit 8 (drop_bit 24 v) = drop_bit 24 v" by (rule bit_word_eqI) (auto simp: bit_simps dest: bit_imp_le_length)
  then have "take_bit 8 v + 256 * (take_bit 8 (drop_bit 8 v) + 256 * (take_bit 8 (drop_bit 16 v) + 256 * take_bit 8 (drop_bit 24 v))) = v"
    using bits_ident [of 8 v] bits_ident [of 8 "drop_bit 8 v"] bits_ident [of 8 "drop_bit 16 v"]
    by (simp add: push_bit_eq_mult ac_simps)
  then show ?thesis unfolding ld32_def b byte_of_32 by (simp add: algebra_simps)
qed

lemma ld32_st32 [mem_simps]: "ld32 (st32 m a v) a = v"
  by (rule ld32_le_bytes) (simp add: st32_def rd_wr_same)

lemma ld32_rd: "rd m' a 4 = rd m b 4 \<Longrightarrow> ld32 m' a = ld32 m b"
  by (simp add: rd_4 ld32_def)

lemma rd_2: "rd m a 2 = [m a, m (a + 1)]"
  by (simp add: rd_def upt_rec)

text \<open>What is read does not depend on memory outside.\<close>

lemma rd_same:
  assumes "\<And>x. x \<in> region a n \<Longrightarrow> m' x = m x" "n \<le> 2 ^ 32"
  shows "rd m' a n = rd m a n"
  using assms by (intro rd_cong) simp

end
