(* ===== verification/Lib_Mem.thy ===== *)
theory Lib_Mem
  imports Prelude
begin

text \<open>
  The memory routines of \<^verbatim>\<open>student-distrib/lib.c\<close>: \<open>memset\<close>, \<open>memset_word\<close>,
  \<open>memset_dword\<close>, \<open>memcpy\<close> and \<open>memmove\<close>, whose bodies are inline assembly, and the
  byte loops \<open>ece391_memset\<close> and \<open>ece391_memcpy\<close> of \<^verbatim>\<open>fish/fish.c\<close>. Each assembly loop
  is a recursive function over the registers it changes; string instructions move whole
  units (a \<open>movsl\<close> reads its four bytes before it writes them). The C return value of each
  routine is its first argument and is left out. The locale \<open>byte_copy\<close> states what a
  copying routine promises to its callers; \<open>memcpy\<close>, \<open>memmove\<close> and \<open>ece391_memcpy\<close>
  are shown to keep that promise.
\<close>

section \<open>Filling memory\<close>

text \<open>The byte loop at \<open>.memset_bottom\<close>: \<open>edx\<close> times \<open>movb %al, (%edi)\<close>.\<close>

fun memset_bottom :: "nat \<Rightarrow> mem \<Rightarrow> u32 \<Rightarrow> u8 \<Rightarrow> mem" where
  "memset_bottom 0 m edi al = m"
| "memset_bottom (Suc edx) m edi al = memset_bottom edx (m(edi := al)) (edi + 1) al"

text \<open>\<open>rep stosl\<close>: \<open>ecx\<close> stores of \<open>eax\<close>, with the direction flag clear.\<close>

fun rep_stosl :: "nat \<Rightarrow> mem \<Rightarrow> u32 \<Rightarrow> u32 \<Rightarrow> mem \<times> u32" where
  "rep_stosl 0 m edi eax = (m, edi)"
| "rep_stosl (Suc ecx) m edi eax = rep_stosl ecx (wr m edi (le_bytes eax)) (edi + 4) eax"

fun rep_stosw :: "nat \<Rightarrow> mem \<Rightarrow> u32 \<Rightarrow> u16 \<Rightarrow> mem \<times> u32" where
  "rep_stosw 0 m edi ax = (m, edi)"
| "rep_stosw (Suc ecx) m edi ax =
     rep_stosw ecx (wr m edi [ucast ax, ucast (drop_bit 8 ax)]) (edi + 2) ax"

text \<open>The loop at \<open>.memset_top\<close> with the aligned part it jumps to.\<close>

function memset_top :: "mem \<Rightarrow> u32 \<Rightarrow> u32 \<Rightarrow> u32 \<Rightarrow> mem" where
  "memset_top m edi ecx eax =
     (if ecx = 0 then m
      else if edi AND 3 = 0 then
        (let (m', edi') = rep_stosl (unat (drop_bit 2 ecx)) m edi eax
         in memset_bottom (unat (ecx AND 3)) m' edi' (ucast eax))
      else memset_top (m(edi := ucast eax)) (edi + 1) (ecx - 1) eax)"
  by pat_completeness auto
termination
  by (relation "measure (\<lambda>(m, edi, ecx, eax). unat ecx)") (auto simp: measure_unat)

declare memset_top.simps [simp del]

definition memset :: "mem \<Rightarrow> u32 \<Rightarrow> u32 \<Rightarrow> u32 \<Rightarrow> mem" where
  "memset m s c n =
     (let c = c AND 0xFF;
          eax = push_bit 24 c OR push_bit 16 c OR push_bit 8 c OR c
      in memset_top m s n eax)"

definition memset_word :: "mem \<Rightarrow> u32 \<Rightarrow> u32 \<Rightarrow> u32 \<Rightarrow> mem" where
  "memset_word m s c n = fst (rep_stosw (unat n) m s (ucast c))"

definition memset_dword :: "mem \<Rightarrow> u32 \<Rightarrow> u32 \<Rightarrow> u32 \<Rightarrow> mem" where
  "memset_dword m s c n = fst (rep_stosl (unat n) m s c)"

section \<open>Copying memory\<close>

text \<open>
  \<open>ecx\<close> byte moves upwards: the loop at \<open>.memcpy_bottom\<close>, and \<open>rep movsb\<close> with the
  direction flag clear.
\<close>

fun movsb_up :: "nat \<Rightarrow> mem \<Rightarrow> u32 \<Rightarrow> u32 \<Rightarrow> mem" where
  "movsb_up 0 m edi esi = m"
| "movsb_up (Suc ecx) m edi esi = movsb_up ecx (m(edi := m esi)) (edi + 1) (esi + 1)"

text \<open>\<open>rep movsb\<close> with the direction flag set.\<close>

fun movsb_down :: "nat \<Rightarrow> mem \<Rightarrow> u32 \<Rightarrow> u32 \<Rightarrow> mem" where
  "movsb_down 0 m edi esi = m"
| "movsb_down (Suc ecx) m edi esi = movsb_down ecx (m(edi := m esi)) (edi - 1) (esi - 1)"

text \<open>\<open>rep movsl\<close> with the direction flag clear.\<close>

fun rep_movsl :: "nat \<Rightarrow> mem \<Rightarrow> u32 \<Rightarrow> u32 \<Rightarrow> mem \<times> u32 \<times> u32" where
  "rep_movsl 0 m edi esi = (m, edi, esi)"
| "rep_movsl (Suc ecx) m edi esi = rep_movsl ecx (wr m edi (rd m esi 4)) (edi + 4) (esi + 4)"

text \<open>\<open>memcpy\<close>: bytes until \<open>edi\<close> is aligned, then double words, then the rest.\<close>

function memcpy :: "mem \<Rightarrow> u32 \<Rightarrow> u32 \<Rightarrow> u32 \<Rightarrow> mem" where
  "memcpy m dest src n =
     (if n = 0 then m
      else if dest AND 3 = 0 then
        (let (m', edi, esi) = rep_movsl (unat (drop_bit 2 n)) m dest src
         in movsb_up (unat (n AND 3)) m' edi esi)
      else memcpy (m(dest := m src)) (dest + 1) (src + 1) (n - 1))"
  by pat_completeness auto
termination
  by (relation "measure (\<lambda>(m, dest, src, n). unat n)") (auto simp: measure_unat)

declare memcpy.simps [simp del]

text \<open>
  \<open>memmove\<close>: downwards from the last byte when the source lies below the destination. The
  second result is the direction flag on return, which the assembly does not clear again.
\<close>

definition memmove :: "mem \<Rightarrow> u32 \<Rightarrow> u32 \<Rightarrow> u32 \<Rightarrow> mem \<times> bool" where
  "memmove m dest src n =
     (if dest \<le> src then (movsb_up (unat n) m dest src, False)
      else (movsb_down (unat n) m (dest + n - 1) (src + n - 1), True))"

text \<open>The byte loops of the fish program; \<open>n\<close> is a signed count.\<close>

definition ece391_memcpy :: "mem \<Rightarrow> u32 \<Rightarrow> u32 \<Rightarrow> u32 \<Rightarrow> mem" where
  "ece391_memcpy m dest src n =
     fold (\<lambda>i m. m(dest + of_nat i := m (src + of_nat i))) [0..<nat (sint n)] m"

definition ece391_memset :: "mem \<Rightarrow> u32 \<Rightarrow> u8 \<Rightarrow> u32 \<Rightarrow> mem" where
  "ece391_memset m memory c n =
     fold (\<lambda>i m. m(memory + of_nat i := c)) [0..<nat (sint n)] m"

section \<open>What filling does\<close>

lemma of_nat_unat_split:
  "unat (drop_bit 2 (n :: u32)) * 4 + unat (n AND 3) = unat n"
proof -
  have "n AND 3 = take_bit 2 n"
    by (simp add: take_bit_eq_mask mask_eq_exp_minus_1)
  then have "unat (n AND 3) = unat n mod 4"
    by (simp add: take_bit_eq_mod unat_mod)
  moreover have "unat (drop_bit 2 n) = unat n div 4"
    by (simp add: drop_bit_eq_div unat_div)
  ultimately show ?thesis by simp
qed

lemma unat_pred: "(n :: u32) \<noteq> 0 \<Longrightarrow> unat (n - 1) = unat n - 1"
  by (simp add: unat_minus_one)

lemma unat_Suc_pred: "(n :: u32) \<noteq> 0 \<Longrightarrow> unat n = Suc (unat (n - 1))"
  using unat_gt_0 [of n] by (simp add: unat_pred)

lemma memset_bottom_eq: "n \<le> 2 ^ 32 \<Longrightarrow> memset_bottom n m a b = wr m a (replicate n b)"
  by (induction n arbitrary: m a) (auto simp: wr_Cons)

lemma rep_stosl_eq:
  assumes "le_bytes w = replicate 4 b" "n * 4 \<le> 2 ^ 32"
  shows "rep_stosl n m a w = (wr m a (replicate (n * 4) b), a + of_nat (n * 4))"
  using assms(2)
proof (induction n arbitrary: m a)
  case (Suc n)
  then have "wr (wr m a (replicate 4 b)) (a + 4) (replicate (n * 4) b)
      = wr m a (replicate (Suc n * 4) b)"
    using wr_append [of "replicate 4 b" "replicate (n * 4) b" m a]
    by (simp add: replicate_add add.commute)
  with Suc assms(1) show ?case by (simp add: algebra_simps)
qed simp

lemma fill_word:
  fixes c :: u32
  shows "le_bytes (push_bit 24 (c AND 0xFF) OR push_bit 16 (c AND 0xFF)
     OR push_bit 8 (c AND 0xFF) OR (c AND 0xFF)) = replicate 4 (ucast c)"
proof -
  have m: "(0xFF :: u32) = mask 8" by (simp add: mask_eq_exp_minus_1)
  have "replicate 4 (ucast c :: u8) = [ucast c, ucast c, ucast c, ucast c]"
    by (simp add: numeral_eq_Suc)
  then show ?thesis
    unfolding le_bytes_def m
    by (auto intro!: bit_word_eqI simp: bit_simps)
qed

lemma low_byte_fill:
  fixes c :: u32
  shows "ucast (push_bit 24 (c AND 0xFF) OR push_bit 16 (c AND 0xFF)
     OR push_bit 8 (c AND 0xFF) OR (c AND 0xFF)) = (ucast c :: u8)"
  using fill_word [of c] by (simp add: le_bytes_def numeral_eq_Suc)

lemma unat_le_2_32: "unat (n :: u32) \<le> 2 ^ 32"
  using unat_u32_lt [of n] by simp

lemma memset_top_eq:
  assumes w: "le_bytes w = replicate 4 b" and b: "ucast w = b"
  shows "memset_top m a n w = wr m a (replicate (unat n) b)"
  using w b
proof (induction m a n w rule: memset_top.induct)
  case (1 m a n w)
  let ?q = "unat (drop_bit 2 n)" and ?r = "unat (n AND 3)"
  consider "n = 0" | "n \<noteq> 0" "a AND 3 = 0" | "n \<noteq> 0" "a AND 3 \<noteq> 0" by blast
  then show ?case
  proof cases
    case 2
    have n: "?q * 4 + ?r = unat n" by (rule of_nat_unat_split)
    with unat_le_2_32 [of n] have "?q * 4 \<le> 2 ^ 32" "?r \<le> 2 ^ 32"
      and "?q * 4 + ?r \<le> 2 ^ 32" by simp_all
    then have "memset_top m a n w
        = wr (wr m a (replicate (?q * 4) b)) (a + of_nat (?q * 4)) (replicate ?r b)"
      using 2 rep_stosl_eq [OF "1.prems"(1)] memset_bottom_eq "1.prems"(2)
      by (simp add: memset_top.simps [of m a n w])
    also have "\<dots> = wr m a (replicate (?q * 4 + ?r) b)"
      using wr_append [of "replicate (?q * 4) b" "replicate ?r b" m a] \<open>?q * 4 + ?r \<le> 2 ^ 32\<close>
      by (simp only: length_replicate replicate_add)
    finally show ?thesis by (simp only: n)
  next
    case 3
    then have n: "unat n = Suc (unat (n - 1))" by (intro unat_Suc_pred)
    have "memset_top m a n w = wr (m(a := b)) (a + 1) (replicate (unat (n - 1)) b)"
      using "1.IH" [OF 3 "1.prems"] 3 "1.prems"(2)
      by (simp only: memset_top.simps [of m a n w] if_False)
    also have "\<dots> = wr m a (replicate (unat n) b)"
      using unat_u32_lt [of "n - 1"] by (simp add: n wr_Cons)
    finally show ?thesis .
  qed (simp add: memset_top.simps)
qed

lemma memset_eq: "memset m s c n = wr m s (replicate (unat n) (ucast c))"
  unfolding memset_def Let_def by (intro memset_top_eq fill_word low_byte_fill)

lemma fold_upd_range:
  "n \<le> 2 ^ 32 \<Longrightarrow>
   fold (\<lambda>i m. m(a + of_nat i := c)) [0..<n] m = wr m a (replicate n c)"
  by (induction n) (simp_all add: wr_snoc replicate_append_same [symmetric] del: replicate_append_same)

lemma nat_sint_bound: "nat (sint (n :: u32)) \<le> 2 ^ 32"
  using sint_lt [of n] by simp

lemma ece391_memset_eq: "ece391_memset m a c n = wr m a (replicate (nat (sint n)) c)"
  unfolding ece391_memset_def by (rule fold_upd_range) (rule nat_sint_bound)

section \<open>What copying does\<close>

text \<open>Upward copying is right when no byte is overwritten before it is read.\<close>

lemma movsb_up_eq:
  assumes "n \<le> 2 ^ 32" "\<And>j. 0 < j \<Longrightarrow> j < n \<Longrightarrow> s + of_nat j \<notin> region d j"
  shows "movsb_up n m d s = wr m d (rd m s n)"
  using assms
proof (induction n arbitrary: m d s)
  case (Suc n)
  have sub: "region (d + 1) j \<subseteq> region d (Suc j)" if "j < n" for j
    using region_sub [of 1 j "Suc j" d] that Suc.prems(1) by simp
  have "d \<notin> region (s + 1) n"
  proof
    assume "d \<in> region (s + 1) n"
    then obtain i where i: "i < n" "d = s + 1 + of_nat i" by (rule regionE)
    then have "s + of_nat (Suc i) \<in> region d (Suc i)"
      using Suc.prems(1) by (simp add: add.assoc region_def)
    with Suc.prems(2) [of "Suc i"] i show False by simp
  qed
  then have r: "rd (m(d := m s)) (s + 1) n = rd m (s + 1) n"
    using Suc.prems(1) by (intro rd_upd) simp_all
  have "movsb_up n (m(d := m s)) (d + 1) (s + 1)
      = wr (m(d := m s)) (d + 1) (rd (m(d := m s)) (s + 1) n)"
  proof (rule Suc.IH)
    fix j assume "0 < j" "j < n"
    with Suc.prems(2) [of "Suc j"] have "s + of_nat (Suc j) \<notin> region d (Suc j)" by simp
    with sub [OF \<open>j < n\<close>] show "s + 1 + of_nat j \<notin> region (d + 1) j"
      by (auto simp: add.assoc)
  qed (use Suc.prems(1) in simp)
  then show ?case using r Suc.prems(1) by (simp add: rd_Suc wr_Cons)
qed simp

text \<open>Downward copying is right when no byte below is overwritten before it is read.\<close>

lemma movsb_down_eq:
  assumes "n \<le> 2 ^ 32" "\<And>j. j < n \<Longrightarrow> d + of_nat j \<notin> region s j"
  shows "movsb_down n m (d + of_nat n - 1) (s + of_nat n - 1) = wr m d (rd m s n)"
  using assms
proof (induction n arbitrary: m)
  case (Suc n)
  let ?d = "d + of_nat n" and ?s = "s + of_nat n"
  have r: "rd (m(?d := m ?s)) s n = rd m s n"
    using Suc.prems(1,2) by (intro rd_upd) simp_all
  have out: "?d \<notin> region d n"
    using Suc.prems(1) by (simp add: region_def unat_of_nat_u32)
  have "movsb_down n (m(?d := m ?s)) (d + of_nat n - 1) (s + of_nat n - 1)
      = wr (m(?d := m ?s)) d (rd (m(?d := m ?s)) s n)"
    using Suc.prems by (intro Suc.IH) auto
  also have "\<dots> = wr (m(?d := m ?s)) d (rd m s n)"
    by (simp only: r)
  also have "\<dots> = (wr m d (rd m s n))(?d := m ?s)"
    using out by (auto simp: fun_eq_iff wr_def region_def Let_def)
  also have "\<dots> = wr m d (rd m s (Suc n))"
    using Suc.prems(1) rd_add [of m s n 1] by (simp add: wr_snoc rd_Suc)
  finally show ?case by (simp add: algebra_simps)
qed simp

text \<open>Copying in two parts is copying at once, between regions apart.\<close>

lemma copy_split:
  assumes "region d (n + k) \<inter> region s (n + k) = {}" "n + k \<le> 2 ^ 32"
  shows "(let m' = wr m d (rd m s n) in wr m' (d + of_nat n) (rd m' (s + of_nat n) k))
    = wr m d (rd m s (n + k))"
proof -
  have "region (s + of_nat n) k \<subseteq> region s (n + k)"
    and "region d n \<subseteq> region d (n + k)"
    using region_sub [of n k "n + k" s] region_sub [of 0 n "n + k" d] assms(2) by simp_all
  with assms have "rd (wr m d (rd m s n)) (s + of_nat n) k = rd m (s + of_nat n) k"
    by (intro rd_wr_region) auto
  then show ?thesis
    using wr_append [of "rd m s n" "rd m (s + of_nat n) k" m d] assms(2)
    by (simp add: rd_add)
qed

lemma movsb_up_apart:
  assumes "region d n \<inter> region s n = {}" "n \<le> 2 ^ 32"
  shows "movsb_up n m d s = wr m d (rd m s n)"
proof (rule movsb_up_eq [OF assms(2)])
  fix j assume "0 < j" "j < n"
  then have "region d j \<subseteq> region d n" "s + of_nat j \<in> region s n"
    using region_sub [of 0 j n d] assms(2) by simp_all
  with assms(1) show "s + of_nat j \<notin> region d j" by blast
qed

lemma rep_movsl_apart:
  assumes "region d (n * 4) \<inter> region s (n * 4) = {}" "n * 4 \<le> 2 ^ 32"
  shows "rep_movsl n m d s
    = (wr m d (rd m s (n * 4)), d + of_nat (n * 4), s + of_nat (n * 4))"
  using assms
proof (induction n arbitrary: m d s)
  case (Suc n)
  let ?m = "wr m d (rd m s 4)"
  have sub: "region (x + 4) (n * 4) \<subseteq> region x (Suc n * 4)" for x
    using region_sub [of 4 "n * 4" "Suc n * 4" x] Suc.prems(2) by simp
  have "rep_movsl n ?m (d + 4) (s + 4)
      = (wr ?m (d + 4) (rd ?m (s + 4) (n * 4)), d + 4 + of_nat (n * 4), s + 4 + of_nat (n * 4))"
    using sub [of d] sub [of s] Suc.prems by (intro Suc.IH) auto
  moreover have "wr ?m (d + 4) (rd ?m (s + 4) (n * 4)) = wr m d (rd m s (Suc n * 4))"
    using copy_split [of d 4 "n * 4" s m] Suc.prems by (simp add: Let_def add.commute)
  ultimately show ?case by (simp add: algebra_simps)
qed simp

lemma memcpy_region:
  assumes "region d (unat n) \<inter> region s (unat n) = {}"
  shows "memcpy m d s n = wr m d (rd m s (unat n))"
  using assms
proof (induction m d s n rule: memcpy.induct)
  case (1 m d s n)
  let ?q = "unat (drop_bit 2 n)" and ?r = "unat (n AND 3)"
  consider "n = 0" | "n \<noteq> 0" "d AND 3 = 0" | "n \<noteq> 0" "d AND 3 \<noteq> 0" by blast
  then show ?case
  proof cases
    case 2
    have n: "unat n = ?q * 4 + ?r" by (rule of_nat_unat_split [symmetric])
    have le: "?q * 4 + ?r \<le> 2 ^ 32" using unat_le_2_32 [of n] unfolding n .
    have dis: "region d (?q * 4 + ?r) \<inter> region s (?q * 4 + ?r) = {}"
      using "1.prems" unfolding n .
    have sub: "region x (?q * 4) \<subseteq> region x (?q * 4 + ?r)"
      "region (x + of_nat (?q * 4)) ?r \<subseteq> region x (?q * 4 + ?r)" for x
      using region_sub [of 0 "?q * 4" "?q * 4 + ?r" x] region_sub [of "?q * 4" ?r _ x] le
      by simp_all
    let ?m = "wr m d (rd m s (?q * 4))"
    have "rep_movsl ?q m d s = (?m, d + of_nat (?q * 4), s + of_nat (?q * 4))"
      using sub [of d] sub [of s] dis le by (intro rep_movsl_apart) auto
    moreover have "movsb_up ?r ?m (d + of_nat (?q * 4)) (s + of_nat (?q * 4))
        = wr ?m (d + of_nat (?q * 4)) (rd ?m (s + of_nat (?q * 4)) ?r)"
      using sub [of d] sub [of s] dis le by (intro movsb_up_apart) auto
    moreover have "\<dots> = wr m d (rd m s (?q * 4 + ?r))"
      using copy_split [OF dis le, of m] by (simp only: Let_def)
    ultimately have "memcpy m d s n = wr m d (rd m s (?q * 4 + ?r))"
      using 2 by (simp only: memcpy.simps [of m d s n] simp_thms if_True if_False Let_def prod.case)
    then show ?thesis by (simp only: n)
  next
    case 3
    then have n: "unat n = Suc (unat (n - 1))" by (intro unat_Suc_pred)
    let ?k = "unat (n - 1)"
    have le: "1 + ?k \<le> 2 ^ 32" using unat_le_2_32 [of n] by (simp add: n)
    have dis: "region d (1 + ?k) \<inter> region s (1 + ?k) = {}" using "1.prems" by (simp add: n)
    have sub: "region (x + 1) ?k \<subseteq> region x (1 + ?k)" for x
      using region_sub [of 1 ?k "1 + ?k" x] le by simp
    have "memcpy (m(d := m s)) (d + 1) (s + 1) (n - 1)
        = wr (m(d := m s)) (d + 1) (rd (m(d := m s)) (s + 1) ?k)"
      using 3 sub [of d] sub [of s] dis by (intro "1.IH") auto
    also have "\<dots> = wr m d (rd m s (unat n))"
      using copy_split [OF dis le, of m] by (simp add: n Let_def rd_Suc wr_one)
    finally show ?thesis using 3 by (simp add: memcpy.simps [of m d s n])
  qed (simp add: memcpy.simps)
qed

section \<open>The copying interface\<close>

text \<open>
  What a caller may rely on: between regions apart the destination receives the source
  bytes and nothing else changes.
\<close>

locale byte_copy =
  fixes cp :: "mem \<Rightarrow> u32 \<Rightarrow> u32 \<Rightarrow> u32 \<Rightarrow> mem"
    and cnt :: "u32 \<Rightarrow> nat"
  assumes cp_apart: "apart d (cnt n) s (cnt n) \<Longrightarrow> cp m d s n = wr m d (rd m s (cnt n))"
    and cnt_le: "cnt n \<le> 2 ^ 32"
begin

lemma cp_reads_back: "apart d (cnt n) s (cnt n) \<Longrightarrow> rd (cp m d s n) d (cnt n) = rd m s (cnt n)"
  using cnt_le [of n] by (simp add: cp_apart rd_wr_same)

lemma cp_keeps_source: "apart d (cnt n) s (cnt n) \<Longrightarrow> rd (cp m d s n) s (cnt n) = rd m s (cnt n)"
  by (simp add: cp_apart rd_wr_apart apart_sym)

lemma cp_frame: "apart d (cnt n) s (cnt n) \<Longrightarrow> apart a k d (cnt n) \<Longrightarrow> rd (cp m d s n) a k = rd m a k"
  by (simp add: cp_apart rd_wr_apart)

lemma cp_there_and_back:
  assumes "apart d (cnt n) s (cnt n)"
  shows "cp (cp m d s n) s d n = cp m d s n"
proof -
  have "apart s (cnt n) d (cnt n)" using assms by (simp add: apart_sym)
  then have "cp (cp m d s n) s d n = wr (cp m d s n) s (rd (cp m d s n) d (cnt n))"
    by (rule cp_apart)
  also have "rd (cp m d s n) d (cnt n) = rd (cp m d s n) s (cnt n)"
    using assms by (simp only: cp_reads_back cp_keeps_source)
  also have "wr (cp m d s n) s \<dots> = cp m d s n"
    using cnt_le [of n] by simp
  finally show ?thesis .
qed

end

interpretation kcopy: byte_copy memcpy unat
proof
  fix d n s :: u32 and m assume "apart d (unat n) s (unat n)"
  then show "memcpy m d s n = wr m d (rd m s (unat n))"
    by (intro memcpy_region apart_region)
qed (rule unat_le_2_32)

lemma movsb_down_apart:
  assumes "region d n \<inter> region s n = {}" "n \<le> 2 ^ 32"
  shows "movsb_down n m (d + of_nat n - 1) (s + of_nat n - 1) = wr m d (rd m s n)"
proof (rule movsb_down_eq [OF assms(2)])
  fix j assume "j < n"
  then have "region s j \<subseteq> region s n" "d + of_nat j \<in> region d n"
    using region_sub [of 0 j n s] assms(2) by simp_all
  with assms(1) show "d + of_nat j \<notin> region s j" by blast
qed

interpretation kmove: byte_copy "\<lambda>m d s n. fst (memmove m d s n)" unat
proof
  fix d n s :: u32 and m assume "apart d (unat n) s (unat n)"
  then have "region d (unat n) \<inter> region s (unat n) = {}" by (rule apart_region)
  then show "fst (memmove m d s n) = wr m d (rd m s (unat n))"
    using movsb_up_apart [OF _ unat_le_2_32] movsb_down_apart [of d "unat n" s m] unat_le_2_32 [of n]
    by (simp add: memmove_def)
qed (rule unat_le_2_32)

lemma fold_copy_eq:
  assumes "region d n \<inter> region s n = {}" "n \<le> 2 ^ 32"
  shows "fold (\<lambda>i m. m(d + of_nat i := m (s + of_nat i))) [0..<n] m = wr m d (rd m s n)"
  using assms
proof (induction n)
  case (Suc n)
  have "region d n \<subseteq> region d (Suc n)" "region s n \<subseteq> region s (Suc n)"
    using region_sub [of 0 n "Suc n" d] region_sub [of 0 n "Suc n" s] Suc.prems(2) by simp_all
  moreover have "s + of_nat n \<in> region s (Suc n)"
    using Suc.prems(2) by (intro in_region) simp_all
  ultimately have same: "wr m d (rd m s n) (s + of_nat n) = m (s + of_nat n)"
    using Suc.prems(1) by (intro wr_out) auto
  have "region d n \<inter> region s n = {}"
    using \<open>region d n \<subseteq> _\<close> \<open>region s n \<subseteq> _\<close> Suc.prems(1) by blast
  then have IH: "fold (\<lambda>i m. m(d + of_nat i := m (s + of_nat i))) [0..<n] m = wr m d (rd m s n)"
    by (rule Suc.IH) (use Suc.prems(2) in linarith)
  have "fold (\<lambda>i m. m(d + of_nat i := m (s + of_nat i))) [0..<Suc n] m
      = (wr m d (rd m s n))(d + of_nat n := m (s + of_nat n))"
    by (simp only: upt_Suc_append le0 fold_append fold_simps comp_apply IH same)
  also have "\<dots> = wr m d (rd m s (Suc n))"
    using Suc.prems(2) rd_add [of m s n 1] by (simp add: wr_snoc rd_Suc)
  finally show ?case .
qed simp

interpretation ucopy: byte_copy ece391_memcpy "\<lambda>n. nat (sint n)"
proof
  fix d n s :: u32 and m assume "apart d (nat (sint n)) s (nat (sint n))"
  then show "ece391_memcpy m d s n = wr m d (rd m s (nat (sint n)))"
    unfolding ece391_memcpy_def by (intro fold_copy_eq apart_region nat_sint_bound)
qed (rule nat_sint_bound)

section \<open>Properties\<close>

text \<open>\<open>memset\<close>, at any alignment and length, sets exactly the \<open>n\<close> bytes from \<open>s\<close> on
  to the low byte of \<open>c\<close>.\<close>

theorem memset_fills: "memset m s c n = wr m s (replicate (unat n) (ucast c))"
  by (rule memset_eq)

text \<open>C33: between regions apart the double-word copy of \<open>memcpy\<close> is the bytewise copy, at any
  alignment of either pointer and any length, and changes nothing outside the destination.\<close>

theorem memcpy_copies:
  "apart dest (unat n) src (unat n) \<Longrightarrow> memcpy m dest src n = wr m dest (rd m src (unat n))"
  by (rule kcopy.cp_apart)

theorem memcpy_copies_witness:
  "memcpy ((\<lambda>_. 0)(0x100 := 1, 0x101 := 2, 0x102 := 3)) 0x203 0x100 3 0x204 = 2"
proof -
  let ?m = "(\<lambda>_. 0)(0x100 := 1, 0x101 := 2, 0x102 := 3) :: mem"
  have "apart 0x203 (unat (3 :: u32)) 0x100 (unat (3 :: u32))" by (simp add: apart_def)
  from memcpy_copies [OF this, of ?m] show ?thesis
    by (simp add: wr_def Let_def rd_def upt_rec)
qed

text \<open>\<open>memmove\<close> copies correctly even when source and destination overlap, as long as
  neither runs past the end of the address space.\<close>

theorem memmove_overlapping:
  assumes "unat src + unat n \<le> 2 ^ 32" "unat dest + unat n \<le> 2 ^ 32"
  shows "fst (memmove m dest src n) = wr m dest (rd m src (unat n))"
proof (cases "dest \<le> src")
  case True
  have "movsb_up (unat n) m dest src = wr m dest (rd m src (unat n))"
  proof (rule movsb_up_eq [OF unat_le_2_32])
    fix j assume j: "0 < j" "j < unat n"
    then have "unat (src + of_nat j) = unat src + j"
      using assms(1) by (simp add: unat_word_ariths unat_of_nat)
    with True j show "src + of_nat j \<notin> region dest j"
      by (simp add: region_def unat_u32_sub word_le_nat_alt)
  qed
  with True show ?thesis by (simp add: memmove_def)
next
  case False
  have "movsb_down (unat n) m (dest + of_nat (unat n) - 1) (src + of_nat (unat n) - 1)
      = wr m dest (rd m src (unat n))"
  proof (rule movsb_down_eq [OF unat_le_2_32])
    fix j assume j: "j < unat n"
    then have "unat (dest + of_nat j) = unat dest + j"
      using assms(2) by (simp add: unat_word_ariths unat_of_nat)
    with False j show "dest + of_nat j \<notin> region src j"
      by (simp add: region_def unat_u32_sub word_le_nat_alt)
  qed
  with False show ?thesis by (simp add: memmove_def)
qed

theorem memmove_overlapping_witness:
  "fst (memmove ((\<lambda>_. 0)(0x10 := 1, 0x11 := 2, 0x12 := 3)) 0x11 0x10 3) 0x13 = 3"
proof -
  let ?m = "(\<lambda>_. 0)(0x10 := 1, 0x11 := 2, 0x12 := 3) :: mem"
  have "unat (0x10 :: u32) + unat (3 :: u32) \<le> 2 ^ 32"
    and "unat (0x11 :: u32) + unat (3 :: u32) \<le> 2 ^ 32" by simp_all
  from memmove_overlapping [OF this, of ?m] show ?thesis
    by (simp add: wr_def Let_def rd_def upt_rec)
qed

end
