(* ===== verification/Lib_String.thy ===== *)
theory Lib_String
  imports Lib_Mem
begin

text \<open>
  The string routines of \<^verbatim>\<open>student-distrib/lib.c\<close> (\<open>strlen\<close>, \<open>strcpy\<close>, \<open>strncpy\<close>,
  \<open>strncmp\<close>, \<open>strrev\<close>, \<open>itoa\<close>) and those the user programs link,
  \<^verbatim>\<open>syscalls/ece391support.c\<close> (\<^verbatim>\<open>fish/ece391support.c\<close> repeats them). A routine that only
  reads through a pointer takes the memory of the object the pointer points into, so that a
  string literal or a local array is an object of its own. A loop that need not end, or a
  step that has no defined result (a division by 0, an index outside a table), makes the
  result an option: \<open>None\<close> says the call does not return. The locale \<open>c_strings\<close> is the
  contract both libraries meet.
\<close>

section \<open>The kernel's routines\<close>

partial_function (option) strlen_from :: "mem \<Rightarrow> u32 \<Rightarrow> u32 \<Rightarrow> u32 option" where
  "strlen_from m s len = (if m (s + len) \<noteq> 0 then strlen_from m s (len + 1) else Some len)"

definition strlen :: "mem \<Rightarrow> u32 \<Rightarrow> u32 option" where
  "strlen m s = strlen_from m s 0"

partial_function (option) strcpy_from :: "mem \<Rightarrow> u32 \<Rightarrow> u32 \<Rightarrow> u32 \<Rightarrow> mem option" where
  "strcpy_from m dest src i =
     (if m (src + i) \<noteq> 0 then strcpy_from (m(dest + i := m (src + i))) dest src (i + 1)
      else Some (m(dest + i := 0)))"

definition strcpy :: "mem \<Rightarrow> u32 \<Rightarrow> u32 \<Rightarrow> mem option" where
  "strcpy m dest src = strcpy_from m dest src 0"

lemma unat_count_up: "(i :: u32) < n \<Longrightarrow> unat (n - (i + 1)) < unat (n - i)"
proof -
  assume "i < n"
  then have "n - i \<noteq> 0" by simp
  then have "unat (n - i - 1) < unat (n - i)" by (rule measure_unat)
  then show ?thesis by (simp add: diff_diff_eq)
qed

lemma unat_count_Suc: "(i :: u32) < n \<Longrightarrow> unat (n - i) = Suc (unat (n - (i + 1)))"
  using unat_Suc_pred [of "n - i"] by (auto simp: diff_diff_eq)

text \<open>The two loops of \<open>strncpy\<close>: copying, then padding with NUL.\<close>

function strncpy_pad :: "mem \<Rightarrow> u32 \<Rightarrow> u32 \<Rightarrow> u32 \<Rightarrow> mem" where
  "strncpy_pad m dest n i = (if i < n then strncpy_pad (m(dest + i := 0)) dest n (i + 1) else m)"
  by pat_completeness auto
termination
  by (relation "measure (\<lambda>(m, dest, n, i). unat (n - i))") (auto intro: unat_count_up)

declare strncpy_pad.simps [simp del]

function strncpy_from :: "mem \<Rightarrow> u32 \<Rightarrow> u32 \<Rightarrow> u32 \<Rightarrow> u32 \<Rightarrow> mem" where
  "strncpy_from m dest src n i =
     (if m (src + i) \<noteq> 0 \<and> i < n then strncpy_from (m(dest + i := m (src + i))) dest src n (i + 1)
      else strncpy_pad m dest n i)"
  by pat_completeness auto
termination
  by (relation "measure (\<lambda>(m, dest, src, n, i). unat (n - i))") (auto intro: unat_count_up)

declare strncpy_from.simps [simp del]

definition strncpy :: "mem \<Rightarrow> u32 \<Rightarrow> u32 \<Rightarrow> u32 \<Rightarrow> mem" where
  "strncpy m dest src n = strncpy_from m dest src n 0"

text \<open>\<open>strncmp\<close> compares signed characters; \<open>i\<close> is compared with \<open>n\<close> as unsigned.\<close>

function strncmp_from :: "mem \<Rightarrow> u32 \<Rightarrow> mem \<Rightarrow> u32 \<Rightarrow> u32 \<Rightarrow> u32 \<Rightarrow> int" where
  "strncmp_from m1 s1 m2 s2 n i =
     (if i < n then
        if m1 (s1 + i) \<noteq> m2 (s2 + i) \<or> m1 (s1 + i) = 0
        then sint (m1 (s1 + i)) - sint (m2 (s2 + i))
        else strncmp_from m1 s1 m2 s2 n (i + 1)
      else 0)"
  by pat_completeness auto
termination
  by (relation "measure (\<lambda>(m1, s1, m2, s2, n, i). unat (n - i))") (auto intro: unat_count_up)

declare strncmp_from.simps [simp del]

definition strncmp :: "mem \<Rightarrow> u32 \<Rightarrow> mem \<Rightarrow> u32 \<Rightarrow> u32 \<Rightarrow> int" where
  "strncmp m1 s1 m2 s2 n = strncmp_from m1 s1 m2 s2 n 0"

text \<open>The swapping loop of \<open>strrev\<close>, with its signed indices \<open>beg\<close> and \<open>end\<close>.\<close>

function strrev_loop :: "mem \<Rightarrow> u32 \<Rightarrow> int \<Rightarrow> int \<Rightarrow> mem" where
  "strrev_loop m s b e =
     (if b < e then
        (let tmp = m (s + of_int e);
             m1 = m(s + of_int e := m (s + of_int b));
             m2 = m1(s + of_int b := tmp)
         in strrev_loop m2 s (b + 1) (e - 1))
      else m)"
  by pat_completeness auto
termination
  by (relation "measure (\<lambda>(m, s, b, e). nat (e - b))") auto

declare strrev_loop.simps [simp del]

definition strrev :: "mem \<Rightarrow> u32 \<Rightarrow> mem option" where
  "strrev m s = map_option (\<lambda>len. strrev_loop m s 0 (sint (len - 1))) (strlen m s)"

text \<open>The table of \<open>itoa\<close>, with the NUL that ends the literal.\<close>

definition lookup :: "u8 list" where
  "lookup = str ''0123456789ABCDEFGHIJKLMNOPQRSTUVWXYZ'' @ [0]"

text \<open>
  The digit loop of \<open>itoa\<close>: \<open>None\<close> when it divides by 0, leaves the table, or never ends
  (radix 1).
\<close>

partial_function (option) itoa_loop :: "mem \<Rightarrow> u32 \<Rightarrow> u32 \<Rightarrow> u32 \<Rightarrow> (mem \<times> u32) option" where
  "itoa_loop m newbuf newval radix =
     (if newval = 0 then Some (m, newbuf)
      else if radix = 0 \<or> length lookup \<le> unat (newval mod radix) then None
      else itoa_loop (m(newbuf := lookup ! unat (newval mod radix))) (newbuf + 1)
             (newval div radix) radix)"

definition itoa :: "mem \<Rightarrow> u32 \<Rightarrow> u32 \<Rightarrow> u32 \<Rightarrow> mem option" where
  "itoa m value buf radix =
     (if value = 0 then Some (m(buf := 0x30, buf + 1 := 0))
      else case itoa_loop m buf value radix of
        None \<Rightarrow> None
      | Some (m', newbuf) \<Rightarrow> strrev (m'(newbuf := 0)) buf)"

section \<open>The user programs' routines\<close>

partial_function (option) ece391_strlen_from :: "mem \<Rightarrow> u32 \<Rightarrow> u32 \<Rightarrow> u32 option" where
  "ece391_strlen_from m s len =
     (if m s \<noteq> 0 then ece391_strlen_from m (s + 1) (len + 1) else Some len)"

definition ece391_strlen :: "mem \<Rightarrow> u32 \<Rightarrow> u32 option" where
  "ece391_strlen m s = ece391_strlen_from m s 0"

partial_function (option) ece391_strcpy :: "mem \<Rightarrow> u32 \<Rightarrow> u32 \<Rightarrow> mem option" where
  "ece391_strcpy m dst src =
     (let c = m src; m' = m(dst := c)
      in if c \<noteq> 0 then ece391_strcpy m' (dst + 1) (src + 1) else Some m')"

partial_function (option) ece391_strcmp :: "mem \<Rightarrow> u32 \<Rightarrow> mem \<Rightarrow> u32 \<Rightarrow> int option" where
  "ece391_strcmp m1 s1 m2 s2 =
     (if m1 s1 = m2 s2 then
        if m1 s1 = 0 then Some 0 else ece391_strcmp m1 (s1 + 1) m2 (s2 + 1)
      else Some (uint (m1 s1) - uint (m2 s2)))"

text \<open>The loop of \<open>ece391_strncmp\<close>, entered with \<open>n\<close> not 0.\<close>

function ece391_strncmp_loop :: "mem \<Rightarrow> u32 \<Rightarrow> mem \<Rightarrow> u32 \<Rightarrow> u32 \<Rightarrow> int" where
  "ece391_strncmp_loop m1 s1 m2 s2 n =
     (if m1 s1 = m2 s2 then
        if m1 s1 = 0 \<or> n - 1 = 0 then 0
        else ece391_strncmp_loop m1 (s1 + 1) m2 (s2 + 1) (n - 1)
      else uint (m1 s1) - uint (m2 s2))"
  by pat_completeness auto
termination
proof (relation "measure (\<lambda>(m1, s1, m2, s2, n). unat (n - 1))")
  fix m1 m2 :: mem and s1 s2 n :: u32
  assume "\<not> (m1 s1 = 0 \<or> n - 1 = 0)"
  then have "n - 1 \<noteq> 0" by simp
  then have "unat (n - 1 - 1) < unat (n - 1)" by (rule measure_unat)
  then show "((m1, s1 + 1, m2, s2 + 1, n - 1), m1, s1, m2, s2, n)
      \<in> measure (\<lambda>(m1, s1, m2, s2, n). unat (n - 1))" by simp
qed simp

declare ece391_strncmp_loop.simps [simp del]

definition ece391_strncmp :: "mem \<Rightarrow> u32 \<Rightarrow> mem \<Rightarrow> u32 \<Rightarrow> u32 \<Rightarrow> int" where
  "ece391_strncmp m1 s1 m2 s2 n = (if n = 0 then 0 else ece391_strncmp_loop m1 s1 m2 s2 n)"

definition ece391_strrev :: "mem \<Rightarrow> u32 \<Rightarrow> mem option" where
  "ece391_strrev m s =
     map_option
       (\<lambda>len. let e = sint (len - 1) in if e \<le> 0 then m else strrev_loop m s 0 e)
       (ece391_strlen m s)"

definition ece391_itoa :: "mem \<Rightarrow> u32 \<Rightarrow> u32 \<Rightarrow> u32 \<Rightarrow> mem option" where
  "ece391_itoa m value buf radix =
     (if value = 0 then Some (m(buf := 0x30, buf + 1 := 0))
      else case itoa_loop m buf value radix of
        None \<Rightarrow> None
      | Some (m', newbuf) \<Rightarrow> ece391_strrev (m'(newbuf := 0)) buf)"

section \<open>Length and copying\<close>

lemma strlen_from_cstring:
  "cstring m (s + len) xs \<Longrightarrow> strlen_from m s len = Some (len + of_nat (length xs))"
proof (induction xs arbitrary: len)
  case Nil
  then show ?case by (simp add: cstring_Nil strlen_from.simps)
next
  case (Cons x xs)
  then show ?case
    by (subst strlen_from.simps) (auto simp: cstring_Cons algebra_simps)
qed

lemma strlen_cstring: "cstring m s xs \<Longrightarrow> strlen m s = Some (of_nat (length xs))"
  using strlen_from_cstring [of m s 0 xs] by (simp add: strlen_def)

lemma ece391_strlen_from_cstring:
  "cstring m s xs \<Longrightarrow> ece391_strlen_from m s len = Some (len + of_nat (length xs))"
proof (induction xs arbitrary: s len)
  case Nil
  then show ?case by (simp add: cstring_Nil ece391_strlen_from.simps)
next
  case (Cons x xs)
  then show ?case
    by (subst ece391_strlen_from.simps) (auto simp: cstring_Cons algebra_simps)
qed

lemma ece391_strlen_cstring: "cstring m s xs \<Longrightarrow> ece391_strlen m s = Some (of_nat (length xs))"
  by (simp add: ece391_strlen_def ece391_strlen_from_cstring)

text \<open>
  Copying a string: the same shape for both libraries, a store of the bytes that are left
  and then the NUL. The source is read through the memory being written, so source and
  destination have to be apart.
\<close>

lemma strcpy_from_cstring:
  assumes "cstring m (src + i) xs"
    and "region (dest + i) (length xs + 1) \<inter> region (src + i) (length xs + 1) = {}"
  shows "strcpy_from m dest src i = Some (wr m (dest + i) (xs @ [0]))"
  using assms
proof (induction xs arbitrary: m i)
  case Nil
  then show ?case by (simp add: cstring_Nil strcpy_from.simps wr_one fun_eq_iff)
next
  case (Cons x xs)
  let ?m = "m(dest + i := x)"
  have h: "m (src + i) = x" "x \<noteq> 0" "length xs + 2 \<le> 2 ^ 31" "cstring m (src + (i + 1)) xs"
    using Cons.prems(1) by (auto simp: cstring_Cons algebra_simps)
  have sub: "region (p + (i + 1)) (length xs + 1) \<subseteq> region (p + i) (length xs + 2)" for p
    using region_sub [of 1 "length xs + 1" "length xs + 2" "p + i"] h(3)
    by (simp add: add.assoc)
  have "dest + i \<in> region (dest + i) (length xs + 2)" by (simp add: region_def)
  with Cons.prems(2) sub [of src] have "cstring ?m (src + (i + 1)) xs"
    by (intro cstring_upd h) auto
  moreover have "region (dest + (i + 1)) (length xs + 1) \<inter> region (src + (i + 1)) (length xs + 1) = {}"
    using sub [of dest] sub [of src] Cons.prems(2) by auto
  ultimately have "strcpy_from ?m dest src (i + 1) = Some (wr ?m (dest + (i + 1)) (xs @ [0]))"
    by (rule Cons.IH)
  then show ?case
    using h wr_Cons [of "xs @ [0]" m "dest + i" x]
    by (subst strcpy_from.simps) (simp add: add.assoc)
qed

lemma strcpy_cstring:
  assumes "cstring m src xs" "apart dest (length xs + 1) src (length xs + 1)"
  shows "strcpy m dest src = Some (wr m dest (xs @ [0]))"
  using strcpy_from_cstring [of m src 0 xs dest] assms(1) apart_region [OF assms(2)]
  by (simp add: strcpy_def)

text \<open>The two libraries' loops run in step: a pointer advanced, or an index added to it.\<close>

lemma ece391_strcpy_shift:
  assumes "cstring m src xs" "region dest (length xs + 1) \<inter> region src (length xs + 1) = {}"
  shows "ece391_strcpy m dest src = Some (wr m dest (xs @ [0]))"
  using assms
proof (induction xs arbitrary: m src dest)
  case Nil
  then show ?case by (simp add: cstring_Nil ece391_strcpy.simps wr_one fun_eq_iff)
next
  case (Cons x xs)
  let ?m = "m(dest := x)"
  have h: "m src = x" "x \<noteq> 0" "length xs + 2 \<le> 2 ^ 31" "cstring m (src + 1) xs"
    using Cons.prems(1) by (auto simp: cstring_Cons)
  have sub: "region (p + 1) (length xs + 1) \<subseteq> region p (length xs + 2)" for p
    using region_sub [of 1 "length xs + 1" "length xs + 2" p] h(3) by simp
  have "dest \<in> region dest (length xs + 2)" by (simp add: region_def)
  with Cons.prems(2) sub [of src] have "cstring ?m (src + 1) xs"
    by (intro cstring_upd h) auto
  moreover have "region (dest + 1) (length xs + 1) \<inter> region (src + 1) (length xs + 1) = {}"
    using sub [of dest] sub [of src] Cons.prems(2) by auto
  ultimately have "ece391_strcpy ?m (dest + 1) (src + 1) = Some (wr ?m (dest + 1) (xs @ [0]))"
    by (rule Cons.IH)
  then show ?case
    using h wr_Cons [of "xs @ [0]" m dest x]
    by (subst ece391_strcpy.simps) (simp add: Let_def)
qed

section \<open>Bounded comparison\<close>

lemma strncmp_from_zero:
  assumes "i \<le> n"
  shows "strncmp_from m1 s1 m2 s2 n i = 0 \<longleftrightarrow>
    cbytes m1 (s1 + i) (unat (n - i)) = cbytes m2 (s2 + i) (unat (n - i))"
  using assms
proof (induction m1 s1 m2 s2 n i rule: strncmp_from.induct)
  case (1 m1 s1 m2 s2 n i)
  show ?case
  proof (cases "i < n")
    case True
    then have k: "unat (n - i) = Suc (unat (n - (i + 1)))"
      by (rule unat_count_Suc)
    have "i + 1 \<le> n" using True by (metis inc_le)
    show ?thesis
    proof (cases "m1 (s1 + i) \<noteq> m2 (s2 + i) \<or> m1 (s1 + i) = 0")
      case True
      then have "strncmp_from m1 s1 m2 s2 n i = sint (m1 (s1 + i)) - sint (m2 (s2 + i))"
        using \<open>i < n\<close> by (simp add: strncmp_from.simps [of _ _ _ _ _ i])
      then show ?thesis using True by (auto simp only: sint_diff_eq_0 k cbytes_Suc split: if_splits)
    next
      case False
      with "1.IH" [OF \<open>i < n\<close> False \<open>i + 1 \<le> n\<close>] \<open>i < n\<close> show ?thesis
        by (simp add: strncmp_from.simps [of _ _ _ _ _ i] k cbytes_Suc add.assoc)
    qed
  next
    case False
    with "1.prems" have "i = n" by simp
    then show ?thesis by (simp add: strncmp_from.simps cbytes_def)
  qed
qed

lemma strncmp_zero:
  "strncmp m1 s1 m2 s2 n = 0 \<longleftrightarrow> cbytes m1 s1 (unat n) = cbytes m2 s2 (unat n)"
  using strncmp_from_zero [of 0 n m1 s1 m2 s2] by (simp add: strncmp_def)

lemma ece391_strncmp_loop_zero:
  assumes "n \<noteq> 0"
  shows "ece391_strncmp_loop m1 s1 m2 s2 n = 0 \<longleftrightarrow>
    cbytes m1 s1 (unat n) = cbytes m2 s2 (unat n)"
  using assms
proof (induction m1 s1 m2 s2 n rule: ece391_strncmp_loop.induct)
  case (1 m1 s1 m2 s2 n)
  have k: "unat n = Suc (unat (n - 1))" using "1.prems" by (rule unat_Suc_pred)
  consider "m1 s1 \<noteq> m2 s2" | "m1 s1 = m2 s2" "m1 s1 = 0 \<or> n - 1 = 0"
    | "m1 s1 = m2 s2" "\<not> (m1 s1 = 0 \<or> n - 1 = 0)" by blast
  then show ?case
  proof cases
    case 1
    then have "ece391_strncmp_loop m1 s1 m2 s2 n = uint (m1 s1) - uint (m2 s2)"
      by (simp add: ece391_strncmp_loop.simps [of _ _ _ _ n])
    then show ?thesis using 1 by (auto simp only: uint_diff_eq_0 k cbytes_Suc split: if_splits)
  next
    case 2
    then show ?thesis
      by (auto simp: ece391_strncmp_loop.simps [of _ _ _ _ n] k cbytes_Suc)
  next
    case 3
    then have "n - 1 \<noteq> 0" by simp
    with 3 "1.IH" [OF 3(1) 3(2)] show ?thesis
      by (simp add: ece391_strncmp_loop.simps [of _ _ _ _ n] k cbytes_Suc)
  qed
qed

lemma ece391_strncmp_zero:
  "ece391_strncmp m1 s1 m2 s2 n = 0 \<longleftrightarrow> cbytes m1 s1 (unat n) = cbytes m2 s2 (unat n)"
  by (auto simp: ece391_strncmp_def ece391_strncmp_loop_zero cbytes_def)

section \<open>Bounded copying\<close>

lemma strncpy_pad_eq:
  assumes "i \<le> n"
  shows "strncpy_pad m d n i = wr m (d + i) (replicate (unat (n - i)) 0)"
  using assms
proof (induction m d n i rule: strncpy_pad.induct)
  case (1 m d n i)
  show ?case
  proof (cases "i < n")
    case True
    then have k: "unat (n - i) = Suc (unat (n - (i + 1)))"
      by (rule unat_count_Suc)
    have "strncpy_pad (m(d + i := 0)) d n (i + 1)
        = wr (m(d + i := 0)) (d + (i + 1)) (replicate (unat (n - (i + 1))) 0)"
      using True by (intro "1.IH") (simp_all add: inc_le)
    then show ?thesis
      using True wr_Cons [of "replicate (unat (n - (i + 1))) 0" m "d + i" 0]
        unat_u32_lt [of "n - (i + 1)"]
      by (simp add: strncpy_pad.simps [of m d n i] k add.assoc)
  next
    case False
    with "1.prems" show ?thesis by (simp add: strncpy_pad.simps)
  qed
qed

lemma strncpy_from_eq:
  assumes "i \<le> n" "region (d + i) (unat (n - i)) \<inter> region (s + i) (unat (n - i)) = {}"
  shows "strncpy_from m d s n i = wr m (d + i) (cbytes m (s + i) (unat (n - i))
    @ replicate (unat (n - i) - length (cbytes m (s + i) (unat (n - i)))) 0)"
  using assms
proof (induction m d s n i rule: strncpy_from.induct)
  case (1 m d s n i)
  show ?case
  proof (cases "m (s + i) \<noteq> 0 \<and> i < n")
    case True
    let ?k = "unat (n - (i + 1))" and ?m = "m(d + i := m (s + i))"
    have k: "unat (n - i) = Suc ?k"
      using True by (intro unat_count_Suc) simp
    have sub: "region (p + (i + 1)) ?k \<subseteq> region (p + i) (Suc ?k)" for p
      using region_sub [of 1 ?k "Suc ?k" "p + i"] unat_u32_lt [of "n - i"]
      by (simp add: k add.assoc)
    have "d + i \<in> region (d + i) (Suc ?k)" by (simp add: region_def)
    then have "d + i \<notin> region (s + (i + 1)) ?k"
      using sub [of s] "1.prems"(2) by (auto simp: k)
    then have c: "cbytes ?m (s + (i + 1)) ?k = cbytes m (s + (i + 1)) ?k"
      unfolding cbytes_def using unat_u32_lt [of "n - (i + 1)"] by (subst rd_upd) simp_all
    have "strncpy_from ?m d s n (i + 1) = wr ?m (d + (i + 1))
        (cbytes ?m (s + (i + 1)) ?k @ replicate (?k - length (cbytes ?m (s + (i + 1)) ?k)) 0)"
    proof (rule "1.IH" [OF True])
      show "i + 1 \<le> n" using True by (simp add: inc_le)
      show "region (d + (i + 1)) ?k \<inter> region (s + (i + 1)) ?k = {}"
        using sub [of d] sub [of s] "1.prems"(2) by (auto simp: k)
    qed
    then have "strncpy_from m d s n i = wr ?m (d + (i + 1))
        (cbytes m (s + (i + 1)) ?k @ replicate (?k - length (cbytes m (s + (i + 1)) ?k)) 0)"
      using True by (simp only: strncpy_from.simps [of m d s n i] c) simp
    also have "\<dots> = wr m (d + i) (m (s + i) # cbytes m (s + (i + 1)) ?k
        @ replicate (?k - length (cbytes m (s + (i + 1)) ?k)) 0)"
      using unat_u32_lt [of "n - i"] length_cbytes [of m "s + (i + 1)" ?k]
      by (subst wr_Cons) (simp_all add: k add.assoc)
    finally show ?thesis using True by (simp add: k cbytes_Suc add.assoc)
  next
    case False
    then have "cbytes m (s + i) (unat (n - i)) = []"
      using "1.prems"(1) by (cases "unat (n - i)") (auto simp: cbytes_Suc)
    with False "1.prems"(1) show ?thesis
      by (auto simp: strncpy_from.simps [of m d s n i] strncpy_pad_eq)
  qed
qed

section \<open>Reversal and number printing\<close>

lemma strrev_loop_eq:
  assumes "e - b + 1 \<le> 2 ^ 32"
  shows "strrev_loop m s b e
    = wr m (s + of_int b) (rev (rd m (s + of_int b) (nat (e - b + 1))))"
  using assms
proof (induction m s b e rule: strrev_loop.induct)
  case (1 m s b e)
  define a where "a = s + of_int b"
  show ?case
  proof (cases "b < e")
    case True
    define k where "k = nat (e - b - 1)"
    have n: "nat (e - b + 1) = k + 2" "nat (e - 1 - (b + 1) + 1) = k"
      using True by (simp_all add: k_def nat_eq_iff)
    have k: "int k = e - b - 1" and klt: "k + 2 \<le> 2 ^ 32"
      using True "1.prems" by (simp_all add: k_def)
    have "of_int e = (of_int (b + 1 + int k) :: u32)" by (simp add: k)
    then have ea: "s + of_int e = a + of_nat (Suc k)" and ba: "s + of_int (b + 1) = a + 1"
      by (simp_all add: a_def add.assoc)
    define m2 where "m2 = m(a + of_nat (Suc k) := m a, a := m (a + of_nat (Suc k)))"
    have out: "a \<notin> region (a + 1) k" "a + of_nat (Suc k) \<notin> region (a + 1) k"
      using klt by (simp_all add: region_def unat_of_nat_u32)
    have ne: "a + of_nat (Suc k) \<noteq> a"
      using klt unat_of_nat_u32 [of "Suc k"] by fastforce
    have "strrev_loop m s b e = strrev_loop m2 s (b + 1) (e - 1)"
      using True by (simp only: strrev_loop.simps [of m s b e] Let_def m2_def ea a_def if_True)
    also have "\<dots> = wr m2 (a + 1) (rev (rd m2 (a + 1) k))"
      using "1.IH" [OF True refl refl refl] "1.prems"
      unfolding ea a_def [symmetric] m2_def [symmetric] ba n by simp
    also have "rd m2 (a + 1) k = rd m (a + 1) k"
      using out klt by (simp add: m2_def rd_upd)
    also have "m2 = m(a := m (a + of_nat (Suc k)), a + of_nat (Suc k) := m a)"
      unfolding m2_def using ne by (rule fun_upd_twist)
    also have "wr \<dots> (a + 1) (rev (rd m (a + 1) k))
        = wr m a ((m (a + of_nat (Suc k)) # rev (rd m (a + 1) k)) @ [m a])"
      using out(2) klt by (subst wr_snoc, simp, subst wr_Cons, simp, subst wr_upd_commute)
        (simp_all add: add.assoc)
    also have "(m (a + of_nat (Suc k)) # rev (rd m (a + 1) k)) @ [m a] = rev (rd m a (k + 2))"
      using rd_add [of m a "Suc k" 1] by (simp add: rd_Suc)
    finally show ?thesis by (simp only: n a_def)
  next
    case False
    then have "nat (e - b + 1) = 0 \<or> nat (e - b + 1) = 1" by auto
    with False show ?thesis
      by (auto simp: strrev_loop.simps [of m s b e] rd_Suc wr_one)
  qed
qed

lemma sint_length_pred:
  "n < 2 ^ 31 \<Longrightarrow> sint ((of_nat n :: u32) - 1) = int n - 1"
proof (cases n)
  case (Suc k)
  assume "n < 2 ^ 31"
  moreover have "(of_nat n :: u32) - 1 = word_of_int (int k)" by (simp add: Suc)
  ultimately show ?thesis
    using Suc by (simp only: sint_sbintrunc') (simp add: signed_take_bit_int_eq_self)
qed simp

lemma strrev_cstring: "cstring m s xs \<Longrightarrow> strrev m s = Some (wr m s (rev xs))"
  using cstringD [of m s xs]
  by (simp add: strrev_def strlen_cstring sint_length_pred strrev_loop_eq)

lemma ece391_strrev_cstring: "cstring m s xs \<Longrightarrow> ece391_strrev m s = Some (wr m s (rev xs))"
proof -
  assume c: "cstring m s xs"
  have "wr m s (rev xs) = m" if "length xs \<le> 1"
  proof -
    have "rev xs = rd m s (length xs)"
      using that cstringD(1) [OF c] by (cases xs) auto
    then show ?thesis using that by simp
  qed
  with c cstringD [OF c] show ?thesis
    by (simp add: ece391_strrev_def ece391_strlen_cstring sint_length_pred strrev_loop_eq Let_def)
qed

text \<open>The digits of a number, the least significant first, and reading them back.\<close>

fun digits :: "nat \<Rightarrow> nat \<Rightarrow> u8 list" where
  "digits r v = (if r < 2 \<or> v = 0 then [] else lookup ! (v mod r) # digits r (v div r))"

declare digits.simps [simp del]

definition digit_value :: "u8 \<Rightarrow> nat" where
  "digit_value c = (if c < 0x3A then unat c - 48 else unat c - 55)"

definition numeral_value :: "nat \<Rightarrow> u8 list \<Rightarrow> nat" where
  "numeral_value r cs = foldl (\<lambda>acc c. acc * r + digit_value c) 0 cs"

definition numeral_text :: "nat \<Rightarrow> nat \<Rightarrow> u8 list" where
  "numeral_text r v = (if v = 0 then [0x30] else rev (digits r v))"

lemma length_lookup [simp]: "length lookup = 37"
  by (simp add: lookup_def str_def)

lemma lookup_table: "list_all (\<lambda>i. lookup ! i \<noteq> 0 \<and> digit_value (lookup ! i) = i) [0..<36]"
  by code_simp

lemma lookup_digit: "i < 36 \<Longrightarrow> lookup ! i \<noteq> 0" "i < 36 \<Longrightarrow> digit_value (lookup ! i) = i"
  using lookup_table by (simp_all add: list_all_iff)

lemma mod_radix: "2 \<le> r \<Longrightarrow> r \<le> 36 \<Longrightarrow> v mod r < 36" for v r :: nat
  using mod_less_divisor [of r v] by linarith

lemma digits_nonzero: "r \<le> 36 \<Longrightarrow> 0 \<notin> set (digits r v)"
proof (induction r v rule: digits.induct)
  case (1 r v)
  show ?case
  proof (cases "r < 2 \<or> v = 0")
    case False
    then have "lookup ! (v mod r) \<noteq> 0" using "1.prems" by (intro lookup_digit mod_radix) auto
    with False "1" show ?thesis by (simp add: digits.simps [of r v])
  qed (simp add: digits.simps)
qed

lemma digits_length: "v < r ^ k \<Longrightarrow> length (digits r v) \<le> k"
proof (induction k arbitrary: v)
  case (Suc k)
  show ?case
  proof (cases "r < 2 \<or> v = 0")
    case False
    from Suc.prems have "v div r < r ^ k" by (simp add: less_mult_imp_div_less mult.commute)
    with Suc.IH False show ?thesis by (simp add: digits.simps [of r v])
  qed (simp add: digits.simps)
qed (simp add: digits.simps)

lemma digits_short: "v < 2 ^ 32 \<Longrightarrow> length (digits r v) \<le> 32"
proof (cases "r < 2")
  case False
  assume "v < 2 ^ 32"
  also have "(2 :: nat) ^ 32 \<le> r ^ 32" using False by (intro power_mono) simp_all
  finally show ?thesis by (rule digits_length)
qed (simp add: digits.simps)

lemma numeral_value_digits: "2 \<le> r \<Longrightarrow> r \<le> 36 \<Longrightarrow> numeral_value r (rev (digits r v)) = v"
proof (induction r v rule: digits.induct)
  case (1 r v)
  show ?case
  proof (cases "v = 0")
    case False
    have "v mod r < 36" using "1.prems" by (rule mod_radix)
    with False "1" show ?thesis
      by (simp add: digits.simps [of r v] numeral_value_def lookup_digit(2))
  qed (simp add: digits.simps numeral_value_def)
qed

lemma itoa_loop_eq:
  assumes "2 \<le> unat r" "unat r \<le> 36"
  shows "itoa_loop m a v r
    = Some (wr m a (digits (unat r) (unat v)), a + of_nat (length (digits (unat r) (unat v))))"
proof (induction "unat v" arbitrary: m a v rule: less_induct)
  case less
  let ?ds = "digits (unat r) (unat v)"
  show ?case
  proof (cases "v = 0")
    case True
    then show ?thesis by (simp add: itoa_loop.simps digits.simps)
  next
    case False
    let ?q = "digits (unat r) (unat (v div r))" and ?c = "lookup ! unat (v mod r)"
    have pos: "0 < unat v" using False by (simp add: unat_gt_0)
    have mod: "unat (v mod r) < 37" using mod_radix [OF assms, of "unat v"] by (simp add: unat_mod)
    have r: "r \<noteq> 0" using assms(1) by auto
    have "unat (v div r) < unat v" using pos assms(1) by (simp add: unat_div)
    then have IH: "itoa_loop (m(a := ?c)) (a + 1) (v div r) r
        = Some (wr (m(a := ?c)) (a + 1) ?q, a + 1 + of_nat (length ?q))"
      by (rule less.hyps)
    have ds: "?ds = ?c # ?q"
      using False assms(1) pos by (simp add: digits.simps [of "unat r" "unat v"] unat_div unat_mod)
    have "length ?q \<le> 32" using unat_u32_lt [of "v div r"] by (intro digits_short) simp
    then show ?thesis
      using False r mod IH by (subst itoa_loop.simps) (simp add: ds wr_Cons add.assoc)
  qed
qed

lemma itoa_wr:
  assumes "2 \<le> unat r" "unat r \<le> 36"
    and rev: "\<And>m xs. cstring m a xs \<Longrightarrow> rv m a = Some (wr m a (rev xs))"
  shows "(if v = 0 then Some (m(a := 0x30, a + 1 := 0))
      else case itoa_loop m a v r of None \<Rightarrow> None | Some (m', b) \<Rightarrow> rv (m'(b := 0)) a)
    = Some (wr m a (numeral_text (unat r) (unat v) @ [0]))"
proof (cases "v = 0")
  case True
  then show ?thesis by (simp add: numeral_text_def wr_Cons fun_eq_iff)
next
  case False
  let ?ds = "digits (unat r) (unat v)"
  have len: "length ?ds \<le> 32" using unat_u32_lt [of v] by (intro digits_short) simp
  have m': "(wr m a ?ds)(a + of_nat (length ?ds) := 0) = wr m a (?ds @ [0])"
    using len by (simp add: wr_snoc)
  have "cstring (wr m a (?ds @ [0])) a ?ds"
    using len digits_nonzero [OF assms(2)] by (intro cstring_wr) simp_all
  then have "rv (wr m a (?ds @ [0])) a = Some (wr (wr m a (?ds @ [0])) a (rev ?ds))"
    by (rule rev)
  also have "wr (wr m a (?ds @ [0])) a (rev ?ds) = wr m a (rev ?ds @ [0])"
    using len by (auto simp: fun_eq_iff wr_def Let_def nth_append)
  finally show ?thesis
    using False itoa_loop_eq [OF assms(1,2), of m a v] m'
    by (simp add: numeral_text_def unat_eq_zero)
qed

section \<open>The contract of a C string library\<close>

locale c_strings =
  fixes len :: "mem \<Rightarrow> u32 \<Rightarrow> u32 option"
    and copy :: "mem \<Rightarrow> u32 \<Rightarrow> u32 \<Rightarrow> mem option"
    and ncmp :: "mem \<Rightarrow> u32 \<Rightarrow> mem \<Rightarrow> u32 \<Rightarrow> u32 \<Rightarrow> int"
    and rev_in_place :: "mem \<Rightarrow> u32 \<Rightarrow> mem option"
    and print_number :: "mem \<Rightarrow> u32 \<Rightarrow> u32 \<Rightarrow> u32 \<Rightarrow> mem option"
  assumes len_string: "cstring m s xs \<Longrightarrow> len m s = Some (of_nat (length xs))"
    and copy_string: "cstring m s xs \<Longrightarrow> apart d (length xs + 1) s (length xs + 1)
      \<Longrightarrow> copy m d s = Some (wr m d (xs @ [0]))"
    and ncmp_string: "ncmp m1 s1 m2 s2 n = 0 \<longleftrightarrow> cbytes m1 s1 (unat n) = cbytes m2 s2 (unat n)"
    and rev_string: "cstring m s xs \<Longrightarrow> rev_in_place m s = Some (wr m s (rev xs))"
    and print_text: "2 \<le> unat r \<Longrightarrow> unat r \<le> 36
      \<Longrightarrow> print_number m v a r = Some (wr m a (numeral_text (unat r) (unat v) @ [0]))"
begin

lemma copied_string:
  assumes "cstring m s xs" "apart d (length xs + 1) s (length xs + 1)"
  obtains m' where "copy m d s = Some m'" "cstring m' d xs" "len m' d = len m s"
    and "ncmp m' d m s n = 0"
proof
  let ?m = "wr m d (xs @ [0])"
  show "copy m d s = Some ?m" using assms by (rule copy_string)
  show c: "cstring ?m d xs" using assms(1) by (intro cstring_wr) (simp_all add: cstring_def)
  then show "len ?m d = len m s" using assms(1) by (simp add: len_string)
  show "ncmp ?m d m s n = 0"
    using c assms(1) by (simp add: ncmp_string cbytes_cstring)
qed

text \<open>Reversing twice restores the string, and with it the whole memory.\<close>

lemma reversed_twice:
  assumes "cstring m s xs" "rev_in_place m s = Some m'"
  shows "rev_in_place m' s = Some m"
proof -
  have m': "m' = wr m s (rev xs)" using assms by (simp add: rev_string)
  then have "cstring m' s (rev xs)"
    using cstring_overwrite [OF assms(1), of "rev xs"] cstringD(3) [OF assms(1)] by simp
  then have "rev_in_place m' s = Some (wr m' s xs)" by (simp add: rev_string [of m' s "rev xs"])
  also have "wr m' s xs = wr m s (rd m s (length xs))"
    using cstringD(1) [OF assms(1)] by (simp add: m' wr_wr_same)
  also have "\<dots> = m" using cstringD(4) [OF assms(1)] by simp
  finally show ?thesis .
qed

text \<open>A printed number is a string that reads back as the number.\<close>

lemma printed_number:
  assumes "2 \<le> unat r" "unat r \<le> 36"
  obtains m' cs where "print_number m v a r = Some m'" "cstring m' a cs"
    and "numeral_value (unat r) cs = unat v" "length cs \<le> 32"
proof
  let ?t = "numeral_text (unat r) (unat v)"
  show "print_number m v a r = Some (wr m a (?t @ [0]))" using assms by (rule print_text)
  show short: "length ?t \<le> 32"
    using digits_short [of "unat v" "unat r"] unat_u32_lt [of v] by (simp add: numeral_text_def)
  have "0 \<notin> set ?t"
    using digits_nonzero [OF assms(2)] by (simp add: numeral_text_def)
  with short show "cstring (wr m a (?t @ [0])) a ?t" by (simp add: cstring_wr)
  show "numeral_value (unat r) ?t = unat v"
    using numeral_value_digits [OF assms] by (simp add: numeral_text_def)
      (simp add: numeral_value_def digit_value_def)
qed

end

interpretation klib: c_strings strlen strcpy strncmp strrev itoa
proof
  show "2 \<le> unat r \<Longrightarrow> unat r \<le> 36
      \<Longrightarrow> itoa m v a r = Some (wr m a (numeral_text (unat r) (unat v) @ [0]))" for r m v a
    unfolding itoa_def by (rule itoa_wr) (simp_all add: strrev_cstring)
qed (simp_all only: strlen_cstring strcpy_cstring strncmp_zero strrev_cstring)

interpretation ulib: c_strings ece391_strlen ece391_strcpy ece391_strncmp ece391_strrev ece391_itoa
proof
  show "2 \<le> unat r \<Longrightarrow> unat r \<le> 36
      \<Longrightarrow> ece391_itoa m v a r = Some (wr m a (numeral_text (unat r) (unat v) @ [0]))" for r m v a
    unfolding ece391_itoa_def by (rule itoa_wr) (simp_all add: ece391_strrev_cstring)
  show "cstring m s xs \<Longrightarrow> apart d (length xs + 1) s (length xs + 1)
      \<Longrightarrow> ece391_strcpy m d s = Some (wr m d (xs @ [0]))" for m s xs d
    by (intro ece391_strcpy_shift apart_region)
qed (simp_all only: ece391_strlen_cstring ece391_strncmp_zero ece391_strrev_cstring)

section \<open>Properties\<close>

text \<open>Copying a string with \<open>strcpy\<close> to a place apart from it succeeds, and the copy is the
  same string: the same length by \<open>strlen\<close>, equal to the original by \<open>strncmp\<close> over any
  number of characters.\<close>

theorem strcpy_copies:
  assumes "cstring m src xs" "apart dest (length xs + 1) src (length xs + 1)"
  shows "\<exists>m'. strcpy m dest src = Some m' \<and> cstring m' dest xs
    \<and> strlen m' dest = strlen m src \<and> strncmp m' dest m src n = 0"
  using klib.copied_string [OF assms, of n] by blast

theorem strcpy_copies_witness:
  "\<exists>m'. strcpy (wr (\<lambda>_. 0) 0x100 (str ''ls'')) 0x200 0x100 = Some m' \<and> cstring m' 0x200 (str ''ls'')"
proof -
  have "cstring (wr (\<lambda>_. 0) 0x100 (str ''ls'')) 0x100 (str ''ls'')"
    and "apart 0x200 (length (str ''ls'') + 1) 0x100 (length (str ''ls'') + 1)"
    by (simp_all add: cstring_def str_def wr_def Let_def rd_def upt_rec apart_def)
  from strcpy_copies [OF this, of 0] show ?thesis by blast
qed

text \<open>\<open>strncmp\<close> returns 0 exactly when the two buffers hold the same string within the
  first \<open>n\<close> bytes.\<close>

theorem strncmp_decides:
  "strncmp m1 s1 m2 s2 n = 0 \<longleftrightarrow> cbytes m1 s1 (unat n) = cbytes m2 s2 (unat n)"
  by (rule klib.ncmp_string)

text \<open>\<open>strncpy\<close> writes exactly \<open>n\<close> bytes: the source string cut off at \<open>n\<close> characters,
  padded with NUL (and without any NUL when the source has \<open>n\<close> characters or more).\<close>

theorem strncpy_fills:
  assumes "apart dest (unat n) src (unat n)"
  shows "strncpy m dest src n
    = wr m dest (cbytes m src (unat n) @ replicate (unat n - length (cbytes m src (unat n))) 0)"
  using strncpy_from_eq [of 0 n dest src m] apart_region [OF assms] by (simp add: strncpy_def)

theorem strncpy_fills_witness:
  "strncpy (wr (\<lambda>_. 7) 0x100 (str ''ls'' @ [0])) 0x200 0x100 4 0x203 = 0"
proof -
  have "apart 0x200 (unat (4 :: u32)) 0x100 (unat (4 :: u32))" by (simp add: apart_def)
  from strncpy_fills [OF this, of "wr (\<lambda>_. 7) 0x100 (str ''ls'' @ [0])"] show ?thesis
    by (simp add: cbytes_def rd_def upt_rec wr_def Let_def str_def)
qed

text \<open>\<open>itoa\<close> in any radix from 2 to 36 returns, writes at most 32 digits and a NUL, and the
  digits read back in that radix give the value.\<close>

theorem itoa_reads_back:
  assumes "2 \<le> unat radix" "unat radix \<le> 36"
  shows "\<exists>m' cs. itoa m v buf radix = Some m' \<and> cstring m' buf cs
    \<and> length cs \<le> 32 \<and> numeral_value (unat radix) cs = unat v"
  using klib.printed_number [OF assms, of m v buf] by blast

theorem itoa_reads_back_witness:
  "\<exists>m' cs. itoa (\<lambda>_. 0) 255 0x100 16 = Some m' \<and> cstring m' 0x100 cs
    \<and> length cs \<le> 32 \<and> numeral_value 16 cs = 255"
  using itoa_reads_back [of 16 "\<lambda>_. 0" 255 "0x100"] by simp

text \<open>The user library's \<open>ece391_itoa\<close> and \<open>ece391_strlen\<close> give the results of the
  kernel's \<open>itoa\<close> and \<open>strlen\<close>: the same memory for every value and radix from 2 to 36, and
  the length of that numeral.\<close>

theorem ece391_itoa_agrees:
  assumes "2 \<le> unat radix" "unat radix \<le> 36"
  shows "ece391_itoa m v buf radix = itoa m v buf radix
    \<and> (\<forall>m'. itoa m v buf radix = Some m' \<longrightarrow> ece391_strlen m' buf = strlen m' buf)"
proof -
  obtain m' cs where "itoa m v buf radix = Some m'" "cstring m' buf cs"
    by (rule klib.printed_number [OF assms])
  with ulib.print_text [OF assms, of m v buf] klib.print_text [OF assms, of m v buf]
  show ?thesis by (auto simp: klib.len_string ulib.len_string)
qed

theorem ece391_itoa_agrees_witness:
  "ece391_itoa (\<lambda>_. 0) 100 0x100 10 = itoa (\<lambda>_. 0) 100 0x100 10"
  using ece391_itoa_agrees [of 10 "\<lambda>_. 0" 100 "0x100"] by simp

text \<open>\<open>strrev\<close> reverses a string in place, and reversing again restores the whole memory.\<close>

theorem strrev_involution:
  assumes "cstring m s xs"
  shows "\<exists>m'. strrev m s = Some m' \<and> cstring m' s (rev xs) \<and> strrev m' s = Some m"
proof -
  have "strrev m s = Some (wr m s (rev xs))" using assms by (rule klib.rev_string)
  moreover have "cstring (wr m s (rev xs)) s (rev xs)"
    using assms cstringD(3) [OF assms] by (intro cstring_overwrite) simp_all
  ultimately show ?thesis using klib.reversed_twice [OF assms] by blast
qed

theorem strrev_involution_witness:
  "\<exists>m'. strrev (lit ''abc'') 0 = Some m' \<and> cstring m' 0 (str ''cba'')"
proof -
  have "cstring (lit ''abc'') 0 (str ''abc'')"
    by (simp add: cstring_def lit_def str_def wr_def Let_def rd_def upt_rec)
  from strrev_involution [OF this] show ?thesis by (auto simp: str_def)
qed

end
