(* ===== verification/Machine.thy ===== *)
theory Machine
  imports Lib_String
begin

text \<open>
  The machine the kernel runs on, as far as its C code touches it: memory as the current
  address space sees it, the interrupt flag, the page directory register, and the history of
  port writes, newest first. The state records of the components extend this record one
  after the other, so an operation of one component works on the state of every later one
  and leaves the rest (\<open>more\<close>) alone. A port read is answered by the devices, which are not
  part of the program: a parameter \<open>dev\<close> gives the byte a device puts on a port after a
  history of writes.
\<close>

record machine =
  ram :: mem
  out_log :: "(u32 \<times> u8) list"
  int_on :: bool
  cr3 :: u32

type_synonym device = "(u32 \<times> u8) list \<Rightarrow> u32 \<Rightarrow> u8"

text \<open>\<open>outb(data, port)\<close>, \<open>inb(port)\<close>, \<open>cli\<close>, \<open>sti\<close> of \<^verbatim>\<open>lib.h\<close>.\<close>

definition outb :: "u32 \<Rightarrow> u32 \<Rightarrow> 'a machine_scheme \<Rightarrow> 'a machine_scheme" where
  "outb data port s = s\<lparr>out_log := (port, ucast data) # out_log s\<rparr>"

definition inb :: "device \<Rightarrow> u32 \<Rightarrow> 'a machine_scheme \<Rightarrow> u32" where
  "inb dev port s = ucast (dev (out_log s) port)"

definition cli :: "'a machine_scheme \<Rightarrow> 'a machine_scheme" where
  "cli s = s\<lparr>int_on := False\<rparr>"

definition sti :: "'a machine_scheme \<Rightarrow> 'a machine_scheme" where
  "sti s = s\<lparr>int_on := True\<rparr>"

text \<open>\<open>cli_and_save(flags)\<close> and \<open>restore_flags(flags)\<close>; of the saved flags only the
  interrupt flag matters here.\<close>

definition cli_and_save :: "'a machine_scheme \<Rightarrow> bool \<times> 'a machine_scheme" where
  "cli_and_save s = (int_on s, cli s)"

definition restore_flags :: "bool \<Rightarrow> 'a machine_scheme \<Rightarrow> 'a machine_scheme" where
  "restore_flags flags s = s\<lparr>int_on := flags\<rparr>"

lemmas machine_defs = outb_def inb_def cli_def sti_def cli_and_save_def restore_flags_def

text \<open>The last byte written to a port.\<close>

definition last_out :: "u32 \<Rightarrow> (u32 \<times> u8) list \<Rightarrow> u8 option" where
  "last_out port log = map_option snd (find (\<lambda>(p, b). p = port) log)"

lemma last_out_Cons [simp]:
  "last_out p ((q, b) # log) = (if q = p then Some b else last_out p log)"
  by (simp add: last_out_def)

lemma ucast_back [simp]: "ucast (ucast (w :: u8) :: u32) = w"
  by (rule bit_word_eqI) (simp add: bit_simps)

lemma ucast_u8_bits:
  "(ucast (and a b :: u32) :: u8) = and (ucast a) (ucast b)"
  "(ucast (or a b :: u32) :: u8) = or (ucast a) (ucast b)"
  by (rule bit_word_eqI, simp add: bit_simps conj_ac disj_ac)+

section \<open>Busy waiting\<close>

text \<open>
  A loop \<open>while(!done);\<close> on a variable that interrupt handlers change. The handlers that arrive,
  in order, one between two tests of the condition, are a parameter; a handler runs only while
  the interrupt flag is set, with the flag cleared by the gate and restored by \<open>iret\<close>. \<open>None\<close>
  means that the loop is still waiting when the interrupts given are used up.
\<close>

type_synonym 's handler = "'s \<Rightarrow> 's option"

definition deliver :: "'a machine_scheme handler \<Rightarrow> 'a machine_scheme handler" where
  "deliver h s = (if int_on s then map_option sti (h (cli s)) else Some s)"

fun await :: "('a machine_scheme \<Rightarrow> bool) \<Rightarrow> 'a machine_scheme handler list
    \<Rightarrow> 'a machine_scheme handler" where
  "await stop [] s = (if stop s then Some s else None)"
| "await stop (h # hs) s = (if stop s then Some s else Option.bind (deliver h s) (await stop hs))"

lemma await_stop: "await stop hs s = Some t \<Longrightarrow> stop t"
  by (induction hs arbitrary: s) (auto split: if_splits Option.bind_splits)

lemma await_masked: "\<not> int_on s \<Longrightarrow> \<not> stop s \<Longrightarrow> await stop hs s = None"
  by (induction hs) (simp_all add: deliver_def)

end
