(* ===== verification/Screen.thy ===== *)
theory Screen
  imports Machine
begin

text \<open>
  The text console of \<^verbatim>\<open>student-distrib/lib.c\<close>: the cursor variables \<open>screen_x\<close> and
  \<open>screen_y\<close>, the character cells at \<open>VIDEO\<close>, and \<open>clear\<close>, \<open>putc\<close>, \<open>puts\<close>, \<open>printf\<close>,
  \<open>get_char\<close> and \<open>test_interrupts\<close>. C \<open>int\<close>s are unbounded here (their overflow is
  undefined in C); \<open>%\<close> and \<open>/\<close> truncate towards zero, as \<open>smod\<close> and \<open>sdiv\<close> do.
\<close>

section \<open>State and operations\<close>

record lib_state = machine +
  screen_x :: int
  screen_y :: int

definition VIDEO :: u32 where "VIDEO = 0xB8000"
definition NUM_COLS :: int where "NUM_COLS = 80"
definition NUM_ROWS :: int where "NUM_ROWS = 25"
definition ATTRIB :: u8 where "ATTRIB = 7"

definition getx :: "'a lib_state_scheme \<Rightarrow> int" where "getx s = screen_x s"
definition gety :: "'a lib_state_scheme \<Rightarrow> int" where "gety s = screen_y s"

definition setx :: "int \<Rightarrow> 'a lib_state_scheme \<Rightarrow> 'a lib_state_scheme" where
  "setx x s = s\<lparr>screen_x := x\<rparr>"

definition sety :: "int \<Rightarrow> 'a lib_state_scheme \<Rightarrow> 'a lib_state_scheme" where
  "sety y s = s\<lparr>screen_y := y\<rparr>"

definition setxy :: "int \<Rightarrow> int \<Rightarrow> 'a lib_state_scheme \<Rightarrow> 'a lib_state_scheme" where
  "setxy x y s = s\<lparr>screen_x := x, screen_y := y\<rparr>"

text \<open>The address \<open>video_mem + ((NUM_COLS*y + x) << 1)\<close>.\<close>

definition cell :: "int \<Rightarrow> int \<Rightarrow> u32" where
  "cell x y = VIDEO + of_int ((NUM_COLS * y + x) * 2)"

definition get_char :: "int \<Rightarrow> int \<Rightarrow> 'a lib_state_scheme \<Rightarrow> u8" where
  "get_char x y s = ram s (cell x y)"

definition clear :: "'a lib_state_scheme \<Rightarrow> 'a lib_state_scheme" where
  "clear s = s\<lparr>ram := fold (\<lambda>i m. m(VIDEO + of_nat (i * 2) := 0x20,
                                     VIDEO + of_nat (i * 2) + 1 := ATTRIB))
                      [0..<nat (NUM_ROWS * NUM_COLS)] (ram s)\<rparr>"

definition putc :: "u8 \<Rightarrow> 'a lib_state_scheme \<Rightarrow> 'a lib_state_scheme" where
  "putc c s =
     (if c = 0x0A \<or> c = 0x0D then s\<lparr>screen_y := screen_y s + 1, screen_x := 0\<rparr>
      else
        let a = cell (screen_x s) (screen_y s);
            x = (screen_x s + 1) smod NUM_COLS
        in s\<lparr>ram := (ram s)(a := c, a + 1 := ATTRIB), screen_x := x,
             screen_y := (screen_y s + x sdiv NUM_COLS) smod NUM_ROWS\<rparr>)"

text \<open>
  \<open>puts\<close> reads each character after the ones before it are on the screen; \<open>src\<close> picks the
  object the string lies in: \<open>ram\<close>, or a constant memory for a local array.
\<close>

partial_function (option) puts_from ::
  "('a lib_state_scheme \<Rightarrow> mem) \<Rightarrow> u32 \<Rightarrow> u32 \<Rightarrow> 'a lib_state_scheme \<Rightarrow> (u32 \<times> 'a lib_state_scheme) option"
where
  "puts_from src p index s =
     (if src s (p + index) \<noteq> 0 then puts_from src p (index + 1) (putc (src s (p + index)) s)
      else Some (index, s))"

definition puts ::
  "('a lib_state_scheme \<Rightarrow> mem) \<Rightarrow> u32 \<Rightarrow> 'a lib_state_scheme \<Rightarrow> (u32 \<times> 'a lib_state_scheme) option"
where
  "puts src p s = puts_from src p 0 s"

text \<open>Printing a local buffer and dropping the count.\<close>

definition puts_buf :: "mem \<Rightarrow> u32 \<Rightarrow> 'a lib_state_scheme \<Rightarrow> 'a lib_state_scheme option" where
  "puts_buf conv_buf p s = map_option snd (puts (\<lambda>_. conv_buf) p s)"

text \<open>
  The conversions of \<open>printf\<close>. \<open>conv_buf\<close> is the local array with its contents before the
  call; \<open>args\<close> are the words on the stack after the format, and a conversion that finds none
  left has no defined result.
\<close>

definition print_x :: "mem \<Rightarrow> bool \<Rightarrow> u32 \<Rightarrow> 'a lib_state_scheme \<Rightarrow> 'a lib_state_scheme option" where
  "print_x conv_buf alternate v s =
     (if \<not> alternate then Option.bind (itoa conv_buf v 0 16) (\<lambda>b. puts_buf b 0 s)
      else Option.bind (itoa conv_buf v 8 16) (\<lambda>b.
        Option.bind (strlen b 8) (\<lambda>starting_index.
          puts_buf (fold (\<lambda>i m. m(of_nat i := 0x30)) [unat starting_index..<8] b)
            starting_index s)))"

definition print_u :: "mem \<Rightarrow> u32 \<Rightarrow> 'a lib_state_scheme \<Rightarrow> 'a lib_state_scheme option" where
  "print_u conv_buf v s = Option.bind (itoa conv_buf v 0 10) (\<lambda>b. puts_buf b 0 s)"

definition print_d :: "mem \<Rightarrow> u32 \<Rightarrow> 'a lib_state_scheme \<Rightarrow> 'a lib_state_scheme option" where
  "print_d conv_buf v s =
     (if sint v < 0 then Option.bind (itoa (conv_buf(0 := 0x2D)) (- v) 1 10) (\<lambda>b. puts_buf b 0 s)
      else Option.bind (itoa conv_buf v 0 10) (\<lambda>b. puts_buf b 0 s))"

fun with_arg :: "u32 list \<Rightarrow> (u32 \<Rightarrow> 's option) \<Rightarrow> (u32 list \<times> 's) option" where
  "with_arg [] f = None"
| "with_arg (a # args) f = map_option (Pair args) (f a)"

text \<open>One conversion specifier \<open>c\<close>; any other character prints nothing.\<close>

definition convert :: "mem \<Rightarrow> bool \<Rightarrow> u8 \<Rightarrow> u32 list \<Rightarrow> 'a lib_state_scheme
    \<Rightarrow> (u32 list \<times> 'a lib_state_scheme) option" where
  "convert conv_buf alternate c args s =
     (if c = 0x25 then Some (args, putc 0x25 s)
      else if c = 0x78 then with_arg args (\<lambda>v. print_x conv_buf alternate v s)
      else if c = 0x75 then with_arg args (\<lambda>v. print_u conv_buf v s)
      else if c = 0x64 then with_arg args (\<lambda>v. print_d conv_buf v s)
      else if c = 0x63 then with_arg args (\<lambda>v. Some (putc (ucast v) s))
      else if c = 0x73 then with_arg args (\<lambda>v. map_option snd (puts ram v s))
      else Some (args, s))"

text \<open>The \<open>#\<close> flag and the jump back to \<open>format_char_switch\<close>.\<close>

partial_function (option) skip_hash :: "mem \<Rightarrow> u32 \<Rightarrow> bool \<Rightarrow> (u32 \<times> bool) option" where
  "skip_hash fmt buf alternate =
     (if fmt buf = 0x23 then skip_hash fmt (buf + 1) True else Some (buf, alternate))"

partial_function (option) printf_loop ::
  "mem \<Rightarrow> mem \<Rightarrow> u32 \<Rightarrow> u32 list \<Rightarrow> 'a lib_state_scheme \<Rightarrow> (u32 \<times> 'a lib_state_scheme) option"
where
  "printf_loop fmt conv_buf buf args s =
     (if fmt buf = 0 then Some (buf, s)
      else if fmt buf = 0x25 then
        Option.bind (skip_hash fmt (buf + 1) False) (\<lambda>(buf', alternate).
          Option.bind (convert conv_buf alternate (fmt buf') args s) (\<lambda>(args', s').
            printf_loop fmt conv_buf (buf' + 1) args' s'))
      else printf_loop fmt conv_buf (buf + 1) args (putc (fmt buf) s))"

definition printf ::
  "mem \<Rightarrow> mem \<Rightarrow> u32 list \<Rightarrow> 'a lib_state_scheme \<Rightarrow> (u32 \<times> 'a lib_state_scheme) option"
where
  "printf fmt conv_buf args s = printf_loop fmt conv_buf 0 args s"

definition test_interrupts :: "'a lib_state_scheme \<Rightarrow> 'a lib_state_scheme" where
  "test_interrupts s = s\<lparr>ram := fold (\<lambda>i m. m(VIDEO + of_nat (i * 2) := m (VIDEO + of_nat (i * 2)) + 1))
                      [0..<nat (NUM_ROWS * NUM_COLS)] (ram s)\<rparr>"

section \<open>Cells\<close>

lemmas screen_consts = VIDEO_def NUM_COLS_def NUM_ROWS_def ATTRIB_def

text \<open>The 4000 bytes of the 25 rows of 80 cells.\<close>

abbreviation video_region :: "u32 set" where
  "video_region \<equiv> region VIDEO 4000"

abbreviation on_screen :: "int \<Rightarrow> int \<Rightarrow> bool" where
  "on_screen x y \<equiv> 0 \<le> x \<and> x < 80 \<and> 0 \<le> y \<and> y < 25"

text \<open>The number of a cell, row by row.\<close>

definition cell_no :: "int \<Rightarrow> int \<Rightarrow> nat" where
  "cell_no x y = nat (80 * y + x)"

lemma cell_no_less: "on_screen x y \<Longrightarrow> cell_no x y < 2000"
  by (auto simp: cell_no_def nat_less_iff)

lemma cell_no_inj:
  assumes "on_screen x y" "on_screen x' y'" "cell_no x y = cell_no x' y'"
  shows "x = x' \<and> y = y'"
proof -
  have e: "80 * y + x = 80 * y' + x'" using assms unfolding cell_no_def by (simp add: eq_nat_nat_iff)
  have "x = (80 * y + x) mod 80" "y = (80 * y + x) div 80"
    and "x' = (80 * y' + x') mod 80" "y' = (80 * y' + x') div 80"
    using assms by simp_all
  with e show ?thesis by metis
qed

lemma cell_eq: "on_screen x y \<Longrightarrow> cell x y = VIDEO + of_nat (cell_no x y * 2)"
  by (simp add: cell_def cell_no_def screen_consts)

lemma cell_in_video:
  assumes "on_screen x y"
  shows "cell x y \<in> video_region" "cell x y + 1 \<in> video_region"
proof -
  have "VIDEO + of_nat (cell_no x y * 2) \<in> video_region"
    and "VIDEO + of_nat (cell_no x y * 2 + 1) \<in> video_region"
    using cell_no_less [OF assms] by (intro in_region; simp)+
  then show "cell x y \<in> video_region" "cell x y + 1 \<in> video_region"
    using assms by (simp_all add: cell_eq algebra_simps)
qed

lemma of_nat_cell_cong:
  "i < 2000 \<Longrightarrow> j < 2000 \<Longrightarrow> b < 2 \<Longrightarrow>
   VIDEO + of_nat (i * 2) = VIDEO + of_nat (j * 2 + b) \<Longrightarrow> i = j \<and> b = 0"
proof -
  assume h: "i < 2000" "j < 2000" "b < 2" "VIDEO + of_nat (i * 2) = VIDEO + of_nat (j * 2 + b)"
  then have "unat (of_nat (i * 2) :: u32) = unat (of_nat (j * 2 + b) :: u32)"
    by (metis add_left_cancel)
  then have "i * 2 = j * 2 + b" using h(1-3) by (simp add: unat_of_nat_u32 del: of_nat_add of_nat_mult)
  with h(3) show "i = j \<and> b = 0" by arith
qed

lemma cell_other:
  assumes "on_screen x y" "on_screen x' y'" "(x, y) \<noteq> (x', y')"
  shows "cell x' y' \<noteq> cell x y" "cell x' y' \<noteq> cell x y + 1"
proof -
  have ne: "cell_no x' y' \<noteq> cell_no x y" using cell_no_inj [OF assms(1,2)] assms(3) by auto
  have lt: "cell_no x' y' < 2000" "cell_no x y < 2000" using assms by (simp_all only: cell_no_less)
  show "cell x' y' \<noteq> cell x y"
    using of_nat_cell_cong [OF lt, of 0] ne by (auto simp: cell_eq assms)
  have "VIDEO + of_nat (cell_no x' y' * 2) \<noteq> VIDEO + of_nat (cell_no x y * 2 + 1)"
    using of_nat_cell_cong [OF lt, of 1] by auto
  then show "cell x' y' \<noteq> cell x y + 1"
    by (simp add: cell_eq assms algebra_simps)
qed

lemma cell_attr_ne: "cell x y \<noteq> cell x y + 1"
  by simp

section \<open>What the console does\<close>

text \<open>A fold over cells is one write of all of them.\<close>

lemma length_cells [simp]: "length (concat (replicate n [c, d])) = n * 2"
  by (induction n) simp_all

lemma cells_snoc: "concat (replicate (Suc n) [c, d]) = concat (replicate n [c, d]) @ [c, d]"
  by (induction n) simp_all

lemma fold_cells:
  "n * 2 \<le> 2 ^ 32 \<Longrightarrow>
   fold (\<lambda>i m. m(a + of_nat (i * 2) := c, a + of_nat (i * 2) + 1 := d)) [0..<n] m
     = wr m a (concat (replicate n [c, d]))"
proof (induction n)
  case (Suc n)
  let ?m = "wr m a (concat (replicate n [c, d]))"
  have "wr m a (concat (replicate (Suc n) [c, d])) = wr ?m (a + of_nat (n * 2)) [c, d]"
    using Suc.prems wr_append [of "concat (replicate n [c, d])" "[c, d]" m a]
    by (simp only: cells_snoc length_cells) simp
  also have "\<dots> = ?m(a + of_nat (n * 2) := c, a + of_nat (n * 2) + 1 := d)"
    by (rule wr_two)
  also have "?m = fold (\<lambda>i m. m(a + of_nat (i * 2) := c, a + of_nat (i * 2) + 1 := d)) [0..<n] m"
    using Suc.prems by (intro Suc.IH [symmetric]) simp
  finally show ?case
    by (simp only: upt_Suc_append le0 fold_append fold_simps comp_apply)
qed simp

lemma clear_wr: "ram (clear s) = wr (ram s) VIDEO (concat (replicate 2000 [0x20, 7]))"
  using fold_cells [of 2000 VIDEO "0x20" 7 "ram s"]
  by (simp add: clear_def NUM_ROWS_def NUM_COLS_def ATTRIB_def)

lemma nth_cells: "i < n \<Longrightarrow> concat (replicate n [c, d]) ! (i * 2) = c"
proof (induction n arbitrary: i)
  case (Suc n)
  then show ?case by (cases i) simp_all
qed simp

lemma clear_cursor [simp]: "screen_x (clear s) = screen_x s" "screen_y (clear s) = screen_y s"
  by (simp_all add: clear_def)

lemma clear_more [simp]: "lib_state.more (clear s) = lib_state.more s"
  by (simp add: clear_def)

lemma puts_from_cstring:
  "cstring m (p + i) xs \<Longrightarrow>
   puts_from (\<lambda>_. m) p i s = Some (i + of_nat (length xs), fold putc xs s)"
proof (induction xs arbitrary: i s)
  case Nil
  then show ?case by (simp add: cstring_Nil puts_from.simps)
next
  case (Cons x xs)
  then have "cstring m (p + (i + 1)) xs" "m (p + i) = x" "x \<noteq> 0"
    by (simp_all add: cstring_Cons add.assoc)
  with Cons.IH [of "i + 1" "putc x s"] show ?case
    by (subst puts_from.simps) (simp add: algebra_simps)
qed

lemma puts_buf_cstring: "cstring m p xs \<Longrightarrow> puts_buf m p s = Some (fold putc xs s)"
  using puts_from_cstring [of m p 0 xs s] by (simp add: puts_buf_def puts_def)

lemma small_sdiv: "\<bar>k\<bar> < \<bar>l\<bar> \<Longrightarrow> k sdiv l = 0" for k l :: int
  by (simp add: signed_divide_int_def div_pos_pos_trivial)

text \<open>A printable character at an on-screen cursor.\<close>

lemma putc_char:
  assumes "on_screen (screen_x s) (screen_y s)" "c \<noteq> 0x0A" "c \<noteq> 0x0D"
  shows "putc c s = s\<lparr>ram := (ram s)(cell (screen_x s) (screen_y s) := c,
      cell (screen_x s) (screen_y s) + 1 := ATTRIB), screen_x := (screen_x s + 1) mod 80\<rparr>"
proof -
  have x: "(screen_x s + 1) smod 80 = (screen_x s + 1) mod 80"
    using assms(1) by (simp add: smod_mod_positive)
  have "(screen_x s + 1) mod 80 sdiv 80 = 0"
    by (intro small_sdiv) simp
  moreover have "screen_y s smod 25 = screen_y s"
    using assms(1) by (simp add: smod_mod_positive)
  ultimately show ?thesis
    using assms(2,3) by (simp add: putc_def Let_def NUM_COLS_def NUM_ROWS_def x)
qed

lemma putc_more [simp]: "lib_state.more (putc c s) = lib_state.more s"
  by (simp add: putc_def Let_def)

lemma putc_log [simp]: "out_log (putc c s) = out_log s" "int_on (putc c s) = int_on s"
  "cr3 (putc c s) = cr3 s"
  by (simp_all add: putc_def Let_def)

lemma putc_ram_outside:
  assumes "on_screen (screen_x s) (screen_y s)" "a \<notin> video_region"
  shows "ram (putc c s) a = ram s a"
  using assms cell_in_video [OF assms(1)] putc_char [OF assms(1), of c]
  by (cases "c = 0x0A \<or> c = 0x0D") (auto simp: putc_def)

section \<open>What printf prints\<close>

text \<open>The text of a signed number.\<close>

definition int_text :: "int \<Rightarrow> u8 list" where
  "int_text i = (if i < 0 then 0x2D # numeral_text 10 (nat (- i)) else numeral_text 10 (nat i))"

lemma numeral_text_string:
  assumes "r \<le> 36" "v < 2 ^ 32"
  shows "0 \<notin> set (numeral_text r v)" "length (numeral_text r v) \<le> 32"
  using digits_nonzero [OF assms(1)] digits_short [OF assms(2)]
  by (simp_all add: numeral_text_def)

lemma itoa_text:
  assumes "r = 10 \<or> r = 16"
  shows "itoa m v a r = Some (wr m a (numeral_text (unat r) (unat v) @ [0]))"
    "cstring (wr m a (numeral_text (unat r) (unat v) @ [0])) a (numeral_text (unat r) (unat v))"
  using assms klib.print_text [of r m v a] numeral_text_string [of "unat r" "unat v"] unat_u32_lt [of v]
  by (auto intro!: cstring_wr)

lemma print_d_eq: "print_d conv v s = Some (fold putc (int_text (sint v)) s)"
proof (cases "sint v < 0")
  case True
  let ?t = "numeral_text 10 (unat (- v))"
  have "wr (conv(0 := 0x2D)) 1 (?t @ [0]) = wr conv 0 ((0x2D # ?t) @ [0])"
    using numeral_text_string(2) [of 10 "unat (- v)"] unat_u32_lt [of "- v"]
      wr_Cons [of "?t @ [0]" conv 0 "0x2D"] by simp
  moreover have "cstring (wr conv 0 ((0x2D # ?t) @ [0])) 0 (0x2D # ?t)"
    using numeral_text_string [of 10 "unat (- v)"] unat_u32_lt [of "- v"] by (intro cstring_wr) auto
  ultimately show ?thesis
    using True itoa_text(1) [of 10 "conv(0 := 0x2D)" "- v" 1]
    by (simp add: print_d_def puts_buf_cstring int_text_def sint_neg_unat)
next
  case False
  then show ?thesis
    using itoa_text [where r = 10 and m = conv and v = v and a = 0]
    by (simp add: print_d_def puts_buf_cstring int_text_def sint_nonneg_unat)
qed

lemma fold_zeros:
  "L \<le> k \<Longrightarrow> k \<le> 8 \<Longrightarrow>
   fold (\<lambda>i m. m(of_nat i := c)) [L..<k] m = wr m (of_nat L) (replicate (k - L) c)"
proof (induction k)
  case (Suc k)
  show ?case
  proof (cases "L \<le> k")
    case True
    then have "replicate (Suc k - L) c = replicate (k - L) c @ [c]"
      by (metis Suc_diff_le replicate_Suc replicate_append_same)
    then have "wr m (of_nat L) (replicate (Suc k - L) c)
        = (wr m (of_nat L) (replicate (k - L) c))(of_nat k := c)"
      using True Suc.prems by (simp add: wr_snoc)
    also have "wr m (of_nat L) (replicate (k - L) c) = fold (\<lambda>i m. m(of_nat i := c)) [L..<k] m"
      using True Suc.prems by (intro Suc.IH [symmetric]) simp_all
    finally show ?thesis
      using True by (simp only: upt_Suc_append fold_append fold_simps comp_apply)
  next
    case False
    then have "[L..<Suc k] = []" using Suc.prems by auto
    with False show ?thesis by simp
  qed
qed simp

text \<open>The eight digits of \<open>%#x\<close>.\<close>

definition hex8 :: "u32 \<Rightarrow> u8 list" where
  "hex8 v = replicate (8 - length (numeral_text 16 (unat v))) 0x30 @ numeral_text 16 (unat v)"

lemma hex_short: "length (numeral_text 16 (unat (v :: u32))) \<le> 8"
  using digits_length [of "unat v" 16 8] unat_u32_lt [of v] by (simp add: numeral_text_def)

lemma foldl_zeros: "foldl (\<lambda>acc c. acc * r + digit_value c) 0 (replicate n 0x30) = 0"
  by (induction n) (simp_all add: digit_value_def)

lemma hex8_value: "length (hex8 v) = 8" "numeral_value 16 (hex8 v) = unat v"
proof -
  show "length (hex8 v) = 8" using hex_short [of v] by (simp add: hex8_def)
  have "numeral_value 16 (numeral_text 16 (unat v)) = unat v"
    using numeral_value_digits [of 16 "unat v"]
    by (simp add: numeral_text_def) (simp add: numeral_value_def digit_value_def)
  then show "numeral_value 16 (hex8 v) = unat v"
    by (simp add: hex8_def numeral_value_def foldl_zeros)
qed

lemma print_alt_x_eq: "print_x conv True v s = Some (fold putc (hex8 v) s)"
proof -
  let ?t = "numeral_text 16 (unat v)"
  let ?L = "length ?t" and ?b = "wr conv 8 (?t @ [0])"
  have L: "?L \<le> 8" by (rule hex_short)
  let ?z = "replicate (8 - ?L) (0x30 :: u8)"
  define b where "b = wr ?b (of_nat ?L) ?z"
  have e: "of_nat ?L + of_nat (8 - ?L) = (8 :: u32)"
    using L by (simp flip: of_nat_add)
  have "apart 8 (?L + 1) (of_nat ?L) (length ?z)"
    using L by (intro apart_above) (simp_all add: unat_of_nat_u32)
  then have "rd b 8 (?L + 1) = ?t @ [0]"
    unfolding b_def using L by (subst rd_wr_apart) (simp_all add: rd_wr_same)
  moreover have "rd b (of_nat ?L) (8 - ?L) = ?z"
    unfolding b_def by (rule rd_wr_same) simp_all
  ultimately have "rd b (of_nat ?L) (length (hex8 v) + 1) = hex8 v @ [0]"
    using rd_add [of b "of_nat ?L" "8 - ?L" "?L + 1"] L e by (simp add: hex8_def)
  moreover have "0 \<notin> set (hex8 v)"
    using numeral_text_string(1) [of 16 "unat v"] unat_u32_lt [of v] by (simp add: hex8_def)
  ultimately have "cstring b (of_nat ?L) (hex8 v)"
    by (simp add: cstring_alt hex8_value(1))
  then have "puts_buf b (of_nat ?L) s = Some (fold putc (hex8 v) s)" by (rule puts_buf_cstring)
  moreover have "strlen ?b 8 = Some (of_nat ?L)"
    using itoa_text(2) [where r = 16 and m = conv and v = v and a = 8] by (simp add: klib.len_string)
  moreover have "fold (\<lambda>i m. m(of_nat i := 0x30)) [?L..<8] ?b = b"
    unfolding b_def using L by (intro fold_zeros) simp_all
  ultimately show ?thesis
    using itoa_text(1) [where r = 16 and m = conv and v = v and a = 8] L by (simp add: print_x_def unat_of_nat_u32)
qed

text \<open>\<open>printf\<close> of a text without \<open>%\<close> prints the text.\<close>

lemma printf_loop_plain:
  "cstring m p cs \<Longrightarrow> 0x25 \<notin> set cs \<Longrightarrow>
   printf_loop m conv_buf p args s = Some (p + of_nat (length cs), fold putc cs s)"
proof (induction cs arbitrary: p s)
  case Nil
  then show ?case by (simp add: cstring_Nil printf_loop.simps)
next
  case (Cons c cs)
  then have "cstring m (p + 1) cs" "m p = c" "c \<noteq> 0" "c \<noteq> 0x25" "0x25 \<notin> set cs"
    by (auto simp: cstring_Cons)
  with Cons.IH [of "p + 1" "putc c s"] show ?case
    by (subst printf_loop.simps) (simp add: algebra_simps)
qed

lemma printf_plain:
  assumes "0 \<notin> set (str msg)" "0x25 \<notin> set (str msg)" "length msg < 2 ^ 31"
  shows "printf (lit msg) conv_buf args s = Some (of_nat (length msg), fold putc (str msg) s)"
proof -
  have "cstring (lit msg) 0 (str msg)"
    using assms by (intro cstring_lit)
  then show ?thesis
    using printf_loop_plain [of "lit msg" 0 "str msg" conv_buf args s] assms(2)
    by (simp add: printf_def str_def)
qed

section \<open>Properties\<close>

text \<open>\<open>clear\<close> blanks every cell of the screen and changes no memory outside the 4000 bytes of
  the screen and no cursor.\<close>

theorem clear_blanks:
  assumes "0 \<le> x" "x < 80" "0 \<le> y" "y < 25"
  shows "get_char x y (clear s) = 0x20
    \<and> (\<forall>a. a \<notin> region VIDEO 4000 \<longrightarrow> ram (clear s) a = ram s a)
    \<and> getx (clear s) = getx s \<and> gety (clear s) = gety s"
proof (intro conjI allI impI)
  have on: "on_screen x y" using assms by simp
  have "wr (ram s) VIDEO (concat (replicate 2000 [0x20, 7])) (VIDEO + of_nat (cell_no x y * 2)) = 0x20"
    using cell_no_less [OF on] by (subst wr_in) (simp_all only: length_cells nth_cells, simp_all)
  then show "get_char x y (clear s) = 0x20"
    by (simp only: get_char_def clear_wr cell_eq [OF on])
  show "ram (clear s) a = ram s a" if "a \<notin> region VIDEO 4000" for a
    using that by (simp add: clear_wr wr_out)
qed (simp_all add: getx_def gety_def)

theorem clear_blanks_witness:
  "get_char 3 4 (clear \<lparr>ram = (\<lambda>_. 1), out_log = [], int_on = True, cr3 = 0, screen_x = 0, screen_y = 0\<rparr>) = 0x20"
  using clear_blanks [of 3 4 "\<lparr>ram = (\<lambda>_. 1), out_log = [], int_on = True, cr3 = 0, screen_x = 0, screen_y = 0\<rparr>"]
  by simp

text \<open>A printable character at an on-screen cursor appears in the cursor's cell and in no other
  cell, memory outside the screen is untouched, and the cursor moves one column to the right;
  from the last column it returns to column 0 of the same row, since the row is advanced by
  \<open>screen_x / NUM_COLS\<close> after \<open>screen_x\<close> was reduced modulo \<open>NUM_COLS\<close>.\<close>

theorem putc_prints:
  assumes "0 \<le> screen_x s" "screen_x s < 80" "0 \<le> screen_y s" "screen_y s < 25"
    and "c \<noteq> 0x0A" "c \<noteq> 0x0D"
  shows "get_char (screen_x s) (screen_y s) (putc c s) = c
    \<and> (\<forall>x y. 0 \<le> x \<and> x < 80 \<and> 0 \<le> y \<and> y < 25 \<and> (x, y) \<noteq> (screen_x s, screen_y s)
        \<longrightarrow> get_char x y (putc c s) = get_char x y s)
    \<and> (\<forall>a. a \<notin> region VIDEO 4000 \<longrightarrow> ram (putc c s) a = ram s a)
    \<and> screen_x (putc c s) = (screen_x s + 1) mod 80 \<and> screen_y (putc c s) = screen_y s"
proof -
  have on: "on_screen (screen_x s) (screen_y s)" using assms by simp
  have "get_char x y (putc c s) = get_char x y s"
    if "on_screen x y" "(x, y) \<noteq> (screen_x s, screen_y s)" for x y
    using cell_other [OF on that(1)] that(2)
    by (auto simp: get_char_def putc_char [OF on assms(5,6)])
  moreover have "get_char (screen_x s) (screen_y s) (putc c s) = c"
    by (simp add: get_char_def putc_char [OF on assms(5,6)])
  moreover have "screen_x (putc c s) = (screen_x s + 1) mod 80 \<and> screen_y (putc c s) = screen_y s"
    by (simp add: putc_char [OF on assms(5,6)])
  ultimately show ?thesis using putc_ram_outside [OF on] by blast
qed

theorem putc_prints_witness:
  "screen_x (putc 0x41 \<lparr>ram = (\<lambda>_. 1), out_log = [], int_on = True, cr3 = 0, screen_x = 79, screen_y = 3\<rparr>) = 0
   \<and> screen_y (putc 0x41 \<lparr>ram = (\<lambda>_. 1), out_log = [], int_on = True, cr3 = 0, screen_x = 79, screen_y = 3\<rparr>) = 3"
  using putc_prints [of "\<lparr>ram = (\<lambda>_. 1), out_log = [], int_on = True, cr3 = 0, screen_x = 79, screen_y = 3\<rparr>" "0x41"]
  by simp

text \<open>\<open>printf("%d", v)\<close> prints the decimal text of the signed value, with a minus sign for
  negative values down to the least one, and returns the length of the format.\<close>

theorem printf_decimal:
  "printf (lit ''%d'') conv_buf [v] s = Some (2, fold putc (int_text (sint v)) s)"
proof -
  have "lit ''%d'' 0 = 0x25" "lit ''%d'' 1 = 0x64" "lit ''%d'' 2 = 0"
    by (simp_all add: lit_def str_def wr_def)
  then show ?thesis
    by (simp add: printf_def printf_loop.simps skip_hash.simps convert_def print_d_eq)
qed

text \<open>\<open>printf("%#x", v)\<close> prints exactly eight hexadecimal digits that read back as the value.\<close>

theorem printf_alternate_hex:
  "\<exists>cs. printf (lit ''%#x'') conv_buf [v] s = Some (3, fold putc cs s)
     \<and> length cs = 8 \<and> numeral_value 16 cs = unat v"
proof (intro exI conjI)
  have "lit ''%#x'' 0 = 0x25" "lit ''%#x'' 1 = 0x23" "lit ''%#x'' 2 = 0x78" "lit ''%#x'' 3 = 0"
    by (simp_all add: lit_def str_def wr_def)
  then show "printf (lit ''%#x'') conv_buf [v] s = Some (3, fold putc (hex8 v) s)"
    by (simp add: printf_def printf_loop.simps skip_hash.simps convert_def print_alt_x_eq)
qed (rule hex8_value)+

end
