(* ===== verification/PIC.thy ===== *)
theory PIC
  imports Screen
begin

unbundle bit_operations_syntax

text \<open>
  The 8259 interrupt controllers, \<^verbatim>\<open>student-distrib/i8259.c\<close>: the two mask variables, the
  initialisation sequence, masking and unmasking of an IRQ line, and the end-of-interrupt
  signal. The lemmas relate the two mask bytes to the set of masked lines and to what the
  controllers were last told.
\<close>

section \<open>State and operations\<close>

record pic_state = lib_state +
  master_mask :: u8
  slave_mask :: u8

definition MASTER_8259_PORT :: u32 where "MASTER_8259_PORT = 0x20"
definition MASTER_8259_IMR :: u32 where "MASTER_8259_IMR = 0x21"
definition SLAVE_8259_PORT :: u32 where "SLAVE_8259_PORT = 0xA0"
definition SLAVE_8259_IMR :: u32 where "SLAVE_8259_IMR = 0xA1"
definition PORTS :: u32 where "PORTS = 8"
definition ICW1 :: u32 where "ICW1 = 0x11"
definition ICW2_MASTER :: u32 where "ICW2_MASTER = 0x20"
definition ICW2_SLAVE :: u32 where "ICW2_SLAVE = 0x28"
definition ICW3_MASTER :: u32 where "ICW3_MASTER = 0x04"
definition ICW3_SLAVE :: u32 where "ICW3_SLAVE = 0x02"
definition ICW4 :: u32 where "ICW4 = 0x01"
definition PIC_EOI :: u32 where "PIC_EOI = 0x20"
definition ALL_MASK :: u32 where "ALL_MASK = 0xFF"
definition LONG_MASK :: u32 where "LONG_MASK = 0xFF00"

lemmas pic_consts = MASTER_8259_PORT_def MASTER_8259_IMR_def SLAVE_8259_PORT_def
  SLAVE_8259_IMR_def PORTS_def ICW1_def ICW2_MASTER_def ICW2_SLAVE_def ICW3_MASTER_def
  ICW3_SLAVE_def ICW4_def PIC_EOI_def ALL_MASK_def LONG_MASK_def

definition i8259_init :: "'a machine_scheme \<Rightarrow> 'a machine_scheme" where
  "i8259_init s =
     (let (flag, s) = cli_and_save s;
          s = outb ALL_MASK MASTER_8259_IMR s;
          s = outb ALL_MASK SLAVE_8259_IMR s;
          s = outb ICW1 MASTER_8259_PORT s;
          s = outb ICW1 SLAVE_8259_PORT s;
          s = outb ICW2_MASTER MASTER_8259_IMR s;
          s = outb ICW2_SLAVE SLAVE_8259_IMR s;
          s = outb ICW3_MASTER MASTER_8259_IMR s;
          s = outb ICW3_SLAVE SLAVE_8259_IMR s;
          s = outb ICW4 MASTER_8259_IMR s;
          s = outb ICW4 SLAVE_8259_IMR s;
          s = outb ALL_MASK MASTER_8259_IMR s;
          s = outb ALL_MASK SLAVE_8259_IMR s
      in restore_flags flag s)"

definition enable_irq :: "u32 \<Rightarrow> 'a pic_state_scheme \<Rightarrow> 'a pic_state_scheme" where
  "enable_irq arg s =
     (let mask = NOT (push_bit (unat arg) 1) :: u32
      in if arg AND PORTS \<noteq> 0 then
           let s = s\<lparr>slave_mask := slave_mask s AND ucast (drop_bit (unat PORTS) (mask AND LONG_MASK))\<rparr>
           in outb (ucast (slave_mask s)) SLAVE_8259_IMR s
         else
           let s = s\<lparr>master_mask := master_mask s AND ucast (mask AND ALL_MASK)\<rparr>
           in outb (ucast (master_mask s)) MASTER_8259_IMR s)"

definition disable_irq :: "u32 \<Rightarrow> 'a pic_state_scheme \<Rightarrow> 'a pic_state_scheme" where
  "disable_irq arg s =
     (let mask = push_bit (unat arg) 1 :: u32
      in if arg AND PORTS \<noteq> 0 then
           let s = s\<lparr>slave_mask := slave_mask s OR ucast (drop_bit (unat PORTS) (mask AND LONG_MASK))\<rparr>
           in outb (ucast (slave_mask s)) SLAVE_8259_IMR s
         else
           let s = s\<lparr>master_mask := master_mask s OR ucast (mask AND ALL_MASK)\<rparr>
           in outb (ucast (master_mask s)) MASTER_8259_IMR s)"

definition send_eoi :: "u32 \<Rightarrow> 'a machine_scheme \<Rightarrow> 'a machine_scheme" where
  "send_eoi arg s =
     (let s = (if arg AND PORTS \<noteq> 0 then outb PIC_EOI SLAVE_8259_PORT s else s)
      in outb PIC_EOI MASTER_8259_PORT s)"

section \<open>The set of masked lines\<close>

text \<open>The interface the drivers use: a set of masked lines from which one is taken or to which
  one is added.\<close>

locale irq_controller =
  fixes masked :: "'s \<Rightarrow> nat set"
    and enable :: "u32 \<Rightarrow> 's \<Rightarrow> 's"
    and disable :: "u32 \<Rightarrow> 's \<Rightarrow> 's"
  assumes masked_enable: "n < 16 \<Longrightarrow> masked (enable n s) = masked s - {unat n}"
    and masked_disable: "n < 16 \<Longrightarrow> masked (disable n s) = insert (unat n) (masked s)"
begin

lemma masked_enable_all:
  "\<forall>n\<in>set ns. n < 16 \<Longrightarrow> masked (fold enable ns s) = masked s - unat ` set ns"
  by (induction ns arbitrary: s) (auto simp: masked_enable)

lemma masked_disable_all:
  "\<forall>n\<in>set ns. n < 16 \<Longrightarrow> masked (fold disable ns s) = masked s \<union> unat ` set ns"
  by (induction ns arbitrary: s) (auto simp: masked_disable)

lemma masked_round_trip:
  "n < 16 \<Longrightarrow> unat n \<in> masked s \<Longrightarrow> masked (disable n (enable n s)) = masked s"
  by (auto simp: masked_enable masked_disable)

end

definition masked :: "'a pic_state_scheme \<Rightarrow> nat set" where
  "masked s = {n. n < 8 \<and> bit (master_mask s) n} \<union> {n. 8 \<le> n \<and> n < 16 \<and> bit (slave_mask s) (n - 8)}"

definition pic_synced :: "'a pic_state_scheme \<Rightarrow> bool" where
  "pic_synced s \<longleftrightarrow> last_out MASTER_8259_IMR (out_log s) = Some (master_mask s)
     \<and> last_out SLAVE_8259_IMR (out_log s) = Some (slave_mask s)"

text \<open>The sixteen lines, one by one.\<close>

lemma irq_cases:
  assumes "n < (16 :: u32)"
  shows "n \<in> {0, 1, 2, 3, 4, 5, 6, 7, 8, 9, 10, 11, 12, 13, 14, 15}"
proof -
  define k where "k = unat n"
  have "n = of_nat k" "k < 16" using assms by (simp_all add: k_def word_less_nat_alt)
  then show ?thesis by (auto simp: less_Suc_eq numeral_eq_Suc)
qed

lemma irq_masks:
  assumes "n < (16 :: u32)"
  shows "n AND PORTS \<noteq> 0 \<longleftrightarrow> 8 \<le> unat n"
    "unat n < 16"
    "k < 8 \<Longrightarrow> bit (ucast (push_bit (unat n) 1 AND ALL_MASK :: u32) :: u8) k \<longleftrightarrow> k = unat n"
    "k < 8 \<Longrightarrow> bit (ucast (NOT (push_bit (unat n) 1) AND ALL_MASK :: u32) :: u8) k \<longleftrightarrow> k \<noteq> unat n"
    "k < 8 \<Longrightarrow> bit (ucast (drop_bit (unat PORTS) (push_bit (unat n) 1 AND LONG_MASK :: u32)) :: u8) k
       \<longleftrightarrow> k + 8 = unat n"
    "k < 8 \<Longrightarrow> bit (ucast (drop_bit (unat PORTS) (NOT (push_bit (unat n) 1) AND LONG_MASK :: u32)) :: u8) k
       \<longleftrightarrow> k + 8 \<noteq> unat n"
proof -
  have all: "ALL_MASK = mask 8" and long: "LONG_MASK = push_bit 8 (mask 8)"
    by (simp_all add: ALL_MASK_def LONG_MASK_def mask_eq_exp_minus_1)
  show less: "unat n < 16" and "n AND PORTS \<noteq> 0 \<longleftrightarrow> 8 \<le> unat n"
    using irq_cases [OF assms] by (auto simp: PORTS_def)
  show "bit (ucast (push_bit (unat n) 1 AND ALL_MASK :: u32) :: u8) k \<longleftrightarrow> k = unat n"
    "bit (ucast (NOT (push_bit (unat n) 1) AND ALL_MASK :: u32) :: u8) k \<longleftrightarrow> k \<noteq> unat n"
    "bit (ucast (drop_bit (unat PORTS) (push_bit (unat n) 1 AND LONG_MASK :: u32)) :: u8) k
       \<longleftrightarrow> k + 8 = unat n"
    "bit (ucast (drop_bit (unat PORTS) (NOT (push_bit (unat n) 1) AND LONG_MASK :: u32)) :: u8) k
       \<longleftrightarrow> k + 8 \<noteq> unat n"
    if "k < 8"
    using that less by (auto simp: all long bit_simps PORTS_def)
qed

lemma masked_enable_irq:
  assumes "n < 16"
  shows "masked (enable_irq n s) = masked s - {unat n}"
  using irq_masks(1,2) [OF assms]
  by (auto simp: masked_def enable_irq_def Let_def outb_def bit_and_iff irq_masks(3-6) [OF assms]
      simp del: push_bit_of_1 drop_bit_and)

lemma masked_disable_irq:
  assumes "n < 16"
  shows "masked (disable_irq n s) = insert (unat n) (masked s)"
  using irq_masks(1,2) [OF assms]
  by (auto simp: masked_def disable_irq_def Let_def outb_def bit_or_iff irq_masks(3-6) [OF assms]
      simp del: push_bit_of_1 drop_bit_and)

interpretation pic: irq_controller masked enable_irq disable_irq
  by unfold_locales (rule masked_enable_irq masked_disable_irq; assumption)+

section \<open>Frame\<close>

text \<open>A masking operation writes one port and one mask.\<close>

lemma pic_more [simp]:
  "pic_state.more (enable_irq n s) = pic_state.more s"
  "pic_state.more (disable_irq n s) = pic_state.more s"
  "ram (enable_irq n s) = ram s" "ram (disable_irq n s) = ram s"
  "int_on (enable_irq n s) = int_on s" "int_on (disable_irq n s) = int_on s"
  by (simp_all add: enable_irq_def disable_irq_def Let_def outb_def)

lemma send_eoi_simps [simp]:
  "ram (send_eoi n s) = ram s" "int_on (send_eoi n s) = int_on s" "cr3 (send_eoi n s) = cr3 s"
  "machine.more (send_eoi n s) = machine.more s"
  by (simp_all add: send_eoi_def Let_def outb_def)

section \<open>Variables and registers\<close>

lemma i8259_init_log:
  "i8259_init s = s\<lparr>out_log := [(0xA1, 0xFF), (0x21, 0xFF), (0xA1, 1), (0x21, 1), (0xA1, 2), (0x21, 4),
     (0xA1, 0x28), (0x21, 0x20), (0xA0, 0x11), (0x20, 0x11), (0xA1, 0xFF), (0x21, 0xFF)] @ out_log s\<rparr>"
  by (simp add: i8259_init_def Let_def machine_defs pic_consts)

lemma i8259_init_synced:
  "master_mask s = 0xFF \<and> slave_mask s = 0xFF \<Longrightarrow>
   pic_synced (i8259_init s) \<and> int_on (i8259_init s) = int_on s"
  by (simp add: i8259_init_log pic_synced_def pic_consts)

lemma i8259_init_masked:
  assumes "master_mask s = 0xFF \<and> slave_mask s = 0xFF"
  shows "masked (i8259_init s) = {0..<16}"
proof -
  have "bit (0xFF :: u8) k \<longleftrightarrow> k < 8" for k
  proof -
    have e: "(0xFF :: u8) = mask 8" by (simp add: mask_eq_exp_minus_1)
    show ?thesis unfolding e bit_mask_iff by simp
  qed
  note bits = this
  have m: "master_mask (i8259_init s) = 0xFF" "slave_mask (i8259_init s) = 0xFF"
    using assms by (simp_all add: i8259_init_log)
  show ?thesis unfolding masked_def m bits by (rule set_eqI) (simp, arith)
qed

lemma pic_synced_ops:
  assumes "pic_synced s"
  shows "pic_synced (enable_irq n s)" "pic_synced (disable_irq n s)" "pic_synced (send_eoi n s)"
proof -
  note defs = pic_synced_def outb_def Let_def MASTER_8259_IMR_def SLAVE_8259_IMR_def
    MASTER_8259_PORT_def SLAVE_8259_PORT_def
  show "pic_synced (enable_irq n s)" "pic_synced (disable_irq n s)"
    using assms by (simp_all only: enable_irq_def disable_irq_def) (simp_all add: defs)
  show "pic_synced (send_eoi n s)"
    using assms by (simp only: send_eoi_def) (simp add: defs)
qed

section \<open>Properties\<close>

text \<open>Unmasking a line \<open>n < 16\<close> takes exactly \<open>n\<close> out of the set of masked lines, on the master
  for lines 0 to 7 and on the slave for lines 8 to 15, masking it again puts it back, and a
  pair of calls on two lines has the same effect in either order.\<close>

theorem irq_masking:
  assumes "n < 16" "k < 16"
  shows "masked (enable_irq n s) = masked s - {unat n}
    \<and> masked (disable_irq n s) = insert (unat n) (masked s)
    \<and> (unat n \<in> masked s \<longrightarrow> masked (disable_irq n (enable_irq n s)) = masked s)
    \<and> masked (enable_irq n (enable_irq k s)) = masked (enable_irq k (enable_irq n s))"
  using assms by (auto simp: pic.masked_enable pic.masked_disable pic.masked_round_trip)

theorem irq_masking_witness:
  "masked (enable_irq 8 \<lparr>ram = (\<lambda>_. 0), out_log = [], int_on = False, cr3 = 0, screen_x = 0, screen_y = 0,
       master_mask = 0xFB, slave_mask = 0xFF\<rparr>)
     = masked \<lparr>ram = (\<lambda>_. 0), out_log = [], int_on = False, cr3 = 0, screen_x = 0, screen_y = 0,
       master_mask = 0xFB, slave_mask = 0xFF\<rparr> - {8}"
  using irq_masking [of 8 1 "\<lparr>ram = (\<lambda>_. 0), out_log = [], int_on = False, cr3 = 0, screen_x = 0,
    screen_y = 0, master_mask = 0xFB, slave_mask = 0xFF\<rparr>"] by simp

text \<open>C30: the mask registers of both controllers mirror the mask variables: initialisation with the
  variables still at \<open>ALL_MASK\<close> establishes it, with every line masked and the interrupt flag
  restored, and unmasking, masking and acknowledging keep it.\<close>

theorem pic_stays_synced:
  "(master_mask s = 0xFF \<and> slave_mask s = 0xFF \<longrightarrow>
      pic_synced (i8259_init s) \<and> masked (i8259_init s) = {0..<16} \<and> int_on (i8259_init s) = int_on s)
   \<and> (pic_synced s \<longrightarrow> pic_synced (enable_irq n s) \<and> pic_synced (disable_irq n s)
        \<and> pic_synced (send_eoi n s))"
  using i8259_init_synced i8259_init_masked pic_synced_ops by blast

theorem pic_stays_synced_witness:
  "pic_synced (i8259_init \<lparr>ram = (\<lambda>_. 0), out_log = [], int_on = False, cr3 = 0, screen_x = 0, screen_y = 0,
     master_mask = 0xFF, slave_mask = 0xFF\<rparr>)"
  using pic_stays_synced [of "\<lparr>ram = (\<lambda>_. 0), out_log = [], int_on = False, cr3 = 0, screen_x = 0,
    screen_y = 0, master_mask = 0xFF, slave_mask = 0xFF\<rparr>" 0] by simp

end
