(* ===== verification/RTC.thy ===== *)
theory RTC
  imports PIC
begin

unbundle bit_operations_syntax

text \<open>
  The real-time clock driver, \<^verbatim>\<open>student-distrib/rtc.c\<close>. The clock's registers are read through
  the parameter \<open>dev\<close>; \<open>rtc_read\<close> waits for the interrupts it is given.
\<close>

section \<open>State and operations\<close>

record rtc_state = pic_state +
  intr_flag :: int

definition RTC_SEL_A :: u32 where "RTC_SEL_A = 0x8A"
definition RTC_SEL_B :: u32 where "RTC_SEL_B = 0x8B"
definition RTC_SEL_C :: u32 where "RTC_SEL_C = 0x8C"
definition RTC_ENABLE_PIE :: u32 where "RTC_ENABLE_PIE = 0x40"
definition RTC_INDEX_PORT :: u32 where "RTC_INDEX_PORT = 0x70"
definition RTC_DATA_PORT :: u32 where "RTC_DATA_PORT = 0x71"
definition RTC_BASE_FREQ :: u8 where "RTC_BASE_FREQ = 0x0F"
definition RTC_WRITE_MASK :: u32 where "RTC_WRITE_MASK = 0xF0"
definition RTC_MIN :: int where "RTC_MIN = 2"
definition RTC_MAX :: int where "RTC_MAX = 1024"
definition POW2_MAX :: int where "POW2_MAX = 1024"
definition NBYTE_4 :: int where "NBYTE_4 = 4"
definition IRQ2 :: u32 where "IRQ2 = 2"
definition IRQ8 :: u32 where "IRQ8 = 8"

lemmas rtc_consts = RTC_SEL_A_def RTC_SEL_B_def RTC_SEL_C_def RTC_ENABLE_PIE_def RTC_INDEX_PORT_def
  RTC_DATA_PORT_def RTC_BASE_FREQ_def RTC_WRITE_MASK_def RTC_MIN_def RTC_MAX_def POW2_MAX_def
  NBYTE_4_def IRQ2_def IRQ8_def

definition rtc_init :: "device \<Rightarrow> 'a pic_state_scheme \<Rightarrow> 'a pic_state_scheme" where
  "rtc_init dev s =
     (let s = cli s;
          s = outb RTC_SEL_B RTC_INDEX_PORT s;
          prev_val = ucast (inb dev RTC_DATA_PORT s) :: u8;
          s = outb RTC_SEL_B RTC_INDEX_PORT s;
          s = outb (ucast prev_val OR RTC_ENABLE_PIE) RTC_DATA_PORT s;
          s = outb RTC_SEL_A RTC_INDEX_PORT s;
          prev_val = ucast (inb dev RTC_DATA_PORT s) :: u8;
          s = outb RTC_SEL_A RTC_INDEX_PORT s;
          s = outb ((ucast prev_val AND RTC_WRITE_MASK) OR ucast RTC_BASE_FREQ) RTC_DATA_PORT s;
          s = sti s;
          s = enable_irq IRQ2 s
      in enable_irq IRQ8 s)"

definition rtc_open :: "device \<Rightarrow> u32 \<Rightarrow> 'a pic_state_scheme \<Rightarrow> int \<times> 'a pic_state_scheme" where
  "rtc_open dev filename s = (0, rtc_init dev s)"

definition rtc_close :: "int \<Rightarrow> 's \<Rightarrow> int \<times> 's" where
  "rtc_close fd s = (0, s)"

definition rtc_read :: "'a rtc_state_scheme handler list \<Rightarrow> int \<Rightarrow> u32 \<Rightarrow> int
    \<Rightarrow> 'a rtc_state_scheme \<Rightarrow> (int \<times> 'a rtc_state_scheme) option" where
  "rtc_read irqs fd buf nbytes s =
     map_option (Pair 0) (await (\<lambda>s. intr_flag s \<noteq> 0) irqs (s\<lparr>intr_flag := 0\<rparr>))"

text \<open>The loop that looks for \<open>intr_freq\<close> among the powers of two.\<close>

partial_function (option) rtc_po2 :: "int \<Rightarrow> int \<Rightarrow> bool \<Rightarrow> bool option" where
  "rtc_po2 intr_freq i po2_flag =
     (if i \<le> POW2_MAX then
        rtc_po2 intr_freq (i * RTC_MIN) (if intr_freq = i then True else po2_flag)
      else Some po2_flag)"

text \<open>The loop of \<open>rtc_set\<close> that counts the rate down.\<close>

partial_function (option) rtc_rate :: "int \<Rightarrow> int \<Rightarrow> u8 \<Rightarrow> u8 option" where
  "rtc_rate freq i write_freq =
     (if i < freq then rtc_rate freq (i * 2) (write_freq - 1) else Some write_freq)"

definition rtc_set :: "device \<Rightarrow> int \<Rightarrow> 'a machine_scheme \<Rightarrow> 'a machine_scheme option" where
  "rtc_set dev freq s =
     (let freq = (if freq < RTC_MIN then RTC_MIN else if freq > RTC_MAX then RTC_MAX else freq)
      in Option.bind (rtc_rate freq 2 RTC_BASE_FREQ) (\<lambda>write_freq.
           let s = cli s;
               s = outb RTC_SEL_A RTC_INDEX_PORT s;
               prev_val = ucast (inb dev RTC_DATA_PORT s) :: u8;
               s = outb RTC_SEL_A RTC_INDEX_PORT s;
               s = outb ((ucast prev_val AND RTC_WRITE_MASK) OR ucast write_freq) RTC_DATA_PORT s
           in Some (sti s)))"

definition rtc_write :: "device \<Rightarrow> int \<Rightarrow> u32 \<Rightarrow> int \<Rightarrow> 'a machine_scheme
    \<Rightarrow> (int \<times> 'a machine_scheme) option" where
  "rtc_write dev fd buf nbytes s =
     (if buf = 0 then Some (-1, s)
      else if nbytes \<noteq> NBYTE_4 then Some (-1, s)
      else
        let intr_freq = sint (ld32 (ram s) buf)
        in Option.bind (rtc_po2 intr_freq RTC_MIN False) (\<lambda>po2_flag.
             if \<not> po2_flag then Some (-1, s)
             else map_option (Pair 0) (rtc_set dev intr_freq s)))"

definition rtc_interrupt :: "device \<Rightarrow> 'a rtc_state_scheme \<Rightarrow> 'a rtc_state_scheme" where
  "rtc_interrupt dev s =
     (let s = outb RTC_SEL_C RTC_INDEX_PORT s;
          _ = inb dev RTC_DATA_PORT s;
          s = s\<lparr>intr_flag := intr_flag s + 1\<rparr>;
          s = send_eoi IRQ8 s
      in send_eoi IRQ2 s)"

section \<open>The loops\<close>

lemma rtc_po2_run:
  "rtc_po2 f RTC_MIN False = Some (f \<in> {2, 4, 8, 16, 32, 64, 128, 256, 512, 1024})"
  by (simp add: rtc_po2.simps rtc_consts)

text \<open>The clock's own arithmetic: rate \<open>r\<close> interrupts \<open>32768 / 2 ^ (r - 1)\<close> times a second.\<close>

definition rate_hz :: "u8 \<Rightarrow> int" where
  "rate_hz r = 32768 div 2 ^ (unat r - 1)"

text \<open>For every frequency the driver clamps to, the rate is the slowest that is at least as fast.\<close>

lemma rtc_rate_run:
  assumes "2 \<le> f" "f \<le> 1024"
  shows "\<exists>r. rtc_rate f 2 RTC_BASE_FREQ = Some r \<and> 6 \<le> r \<and> r \<le> 15 \<and> f \<le> rate_hz r
    \<and> (r = 15 \<or> rate_hz (r + 1) < f)"
proof -
  consider "f = 2" | "2 < f" "f \<le> 4" | "4 < f" "f \<le> 8" | "8 < f" "f \<le> 16" | "16 < f" "f \<le> 32"
    | "32 < f" "f \<le> 64" | "64 < f" "f \<le> 128" | "128 < f" "f \<le> 256" | "256 < f" "f \<le> 512"
    | "512 < f" "f \<le> 1024"
    using assms by linarith
  then show ?thesis
    by cases (simp_all add: rtc_rate.simps RTC_BASE_FREQ_def rate_hz_def)
qed

lemma rtc_rate_exact:
  assumes "f \<in> {2, 4, 8, 16, 32, 64, 128, 256, 512, 1024}"
  shows "\<exists>r. rtc_rate f 2 RTC_BASE_FREQ = Some r \<and> r < 16 \<and> rate_hz r = f"
  using assms unfolding insert_iff empty_iff
  by (elim disjE) (simp_all add: rtc_rate.simps RTC_BASE_FREQ_def rate_hz_def)

lemma power2_upto_10:
  "(\<exists>k. 1 \<le> k \<and> k \<le> 10 \<and> f = 2 ^ k) \<longleftrightarrow> f \<in> {2, 4, 8, 16, 32, 64, 128, 256, 512, 1024 :: int}"
proof -
  have "(\<exists>k. 1 \<le> k \<and> k \<le> 10 \<and> f = 2 ^ k) \<longleftrightarrow> f \<in> (\<lambda>k. 2 ^ k) ` {1..10}" by auto
  also have "{1..10 :: nat} = {1, 2, 3, 4, 5, 6, 7, 8, 9, 10}" by (auto simp: le_Suc_eq numeral_eq_Suc)
  finally show ?thesis by simp
qed

text \<open>The byte for register A: the divider bits read from it, and the rate.\<close>

definition reg_a :: "device \<Rightarrow> (u32 \<times> u8) list \<Rightarrow> u8 \<Rightarrow> u8" where
  "reg_a dev log r = (dev ((0x70, 0x8A) # log) 0x71 AND 0xF0) OR r"

lemma rtc_set_run:
  assumes "2 \<le> f" "f \<le> 1024" "rtc_rate f 2 RTC_BASE_FREQ = Some r"
  shows "rtc_set dev f s = Some (s\<lparr>int_on := True,
    out_log := [(0x71, reg_a dev (out_log s) r), (0x70, 0x8A), (0x70, 0x8A)] @ out_log s\<rparr>)"
  using assms by (simp add: rtc_set_def Let_def machine_defs rtc_consts reg_a_def ucast_u8_bits)

lemma rtc_init_run:
  "rtc_init dev s =
     (let b = dev ((0x70, 0x8B) # out_log s) 0x71 OR 0x40;
          log = [(0x71, b), (0x70, 0x8B), (0x70, 0x8B)] @ out_log s;
          m = master_mask s AND 0xFB; sl = slave_mask s AND 0xFE
      in s\<lparr>int_on := True, out_log := [(0xA1, sl), (0x21, m), (0x71, reg_a dev log 15),
          (0x70, 0x8A), (0x70, 0x8A)] @ log, master_mask := m, slave_mask := sl\<rparr>)"
  by (simp add: rtc_init_def enable_irq_def Let_def machine_defs rtc_consts pic_consts reg_a_def
      ucast_u8_bits)

lemma rtc_rate_write:
  assumes "f = 2 ^ k" "1 \<le> k" "k \<le> 10"
  obtains r where "rtc_rate f 2 RTC_BASE_FREQ = Some r" "r < 16" "rate_hz r = f" "2 \<le> f" "f \<le> 1024"
proof -
  have "f \<in> {2, 4, 8, 16, 32, 64, 128, 256, 512, 1024}" using assms power2_upto_10 [of f] by blast
  moreover from this have "2 \<le> f \<and> f \<le> 1024" by auto
  ultimately show thesis using rtc_rate_exact that by blast
qed

text \<open>Only the handler of the clock raises the flag, so a wait that ends has seen it run.\<close>

lemma rtc_interrupt_flag [simp]: "intr_flag (rtc_interrupt dev s) = intr_flag s + 1"
  by (simp add: rtc_interrupt_def Let_def machine_defs send_eoi_def)

lemma await_no_rtc:
  assumes "\<forall>h\<in>set hs. \<forall>s t. h s = Some t \<longrightarrow> intr_flag t = intr_flag s" "intr_flag s = 0"
  shows "await (\<lambda>s. intr_flag s \<noteq> 0) hs s = None"
  using assms
proof (induction hs arbitrary: s)
  case (Cons h hs)
  have "intr_flag t = 0" if "deliver h s = Some t" for t
    using that Cons.prems by (auto simp: deliver_def machine_defs split: if_splits)
  then show ?case
    using Cons by (auto split: Option.bind_split)
qed simp

section \<open>Properties\<close>

text \<open>The state before initialisation, with interrupts on and the number 32 in memory.\<close>

abbreviation rtc_example :: rtc_state where
  "rtc_example \<equiv> \<lparr>ram = (\<lambda>_. 0)(0x100 := 32), out_log = [(0xA1, 0xFF), (0x21, 0xFF)], int_on = True,
     cr3 = 0, screen_x = 0, screen_y = 0, master_mask = 0xFF, slave_mask = 0xFF, intr_flag = 0\<rparr>"

text \<open>A write to the clock is accepted exactly when it is four bytes at a non-null address holding
  a power of two from 2 to 1024; then the driver stores a rate whose frequency is the one asked
  for in the low half of register A, keeping its high half, and switches interrupts on. Any
  other write is refused with -1 and changes nothing.\<close>

theorem rtc_write_accepts:
  "(buf \<noteq> 0 \<and> nbytes = 4 \<and> sint (ld32 (ram s) buf) = 2 ^ k \<and> 1 \<le> k \<and> k \<le> 10 \<longrightarrow>
      (\<exists>r. rtc_write dev fd buf nbytes s = Some (0, s\<lparr>int_on := True,
           out_log := [(0x71, reg_a dev (out_log s) r), (0x70, 0x8A), (0x70, 0x8A)] @ out_log s\<rparr>)
         \<and> r < 16 \<and> rate_hz r = sint (ld32 (ram s) buf)))
   \<and> (\<not> (buf \<noteq> 0 \<and> nbytes = 4 \<and> (\<exists>k. 1 \<le> k \<and> k \<le> 10 \<and> sint (ld32 (ram s) buf) = 2 ^ k)) \<longrightarrow>
      rtc_write dev fd buf nbytes s = Some (-1, s))"
proof (intro conjI impI)
  let ?f = "sint (ld32 (ram s) buf)"
  assume h: "buf \<noteq> 0 \<and> nbytes = 4 \<and> ?f = 2 ^ k \<and> 1 \<le> k \<and> k \<le> 10"
  then obtain r where r: "rtc_rate ?f 2 RTC_BASE_FREQ = Some r" "r < 16" "rate_hz r = ?f" "2 \<le> ?f" "?f \<le> 1024"
    using rtc_rate_write [of ?f k] by blast
  moreover have "rtc_po2 ?f RTC_MIN False = Some True"
    unfolding rtc_po2_run power2_upto_10 [symmetric] using h by blast
  ultimately show "\<exists>r. rtc_write dev fd buf nbytes s = Some (0, s\<lparr>int_on := True,
      out_log := [(0x71, reg_a dev (out_log s) r), (0x70, 0x8A), (0x70, 0x8A)] @ out_log s\<rparr>)
      \<and> r < 16 \<and> rate_hz r = ?f"
    using h rtc_set_run [OF r(4,5,1), of dev s] by (intro exI [of _ r]) (simp add: rtc_write_def NBYTE_4_def)
next
  assume "\<not> (buf \<noteq> 0 \<and> nbytes = 4 \<and> (\<exists>k. 1 \<le> k \<and> k \<le> 10 \<and> sint (ld32 (ram s) buf) = 2 ^ k))"
  then show "rtc_write dev fd buf nbytes s = Some (-1, s)"
    unfolding power2_upto_10 by (auto simp: rtc_write_def NBYTE_4_def rtc_po2_run Let_def)
qed

theorem rtc_write_accepts_witness:
  "\<exists>r. map_option fst (rtc_write (\<lambda>_ _. 0x26) 2 0x100 4 rtc_example) = Some 0 \<and> rate_hz r = 32"
proof -
  have "sint (ld32 (ram rtc_example) 0x100) = 2 ^ 5" by (simp add: ld32_def)
  then show ?thesis
    using rtc_write_accepts [of "0x100" 4 rtc_example 5 "\<lambda>_ _. 0x26" 2] by (auto simp del: machine.simps)
qed

text \<open>C32: \<open>rtc_set\<close> returns for every argument and chooses the slowest rate that is at least as fast
  as the argument clamped to 2 to 1024 Hz.\<close>

theorem rtc_set_rate:
  "\<exists>r. rtc_set dev freq s = Some (s\<lparr>int_on := True,
         out_log := [(0x71, reg_a dev (out_log s) r), (0x70, 0x8A), (0x70, 0x8A)] @ out_log s\<rparr>)
     \<and> min 1024 (max 2 freq) \<le> rate_hz r \<and> (r = 15 \<or> rate_hz (r + 1) < min 1024 (max 2 freq))"
proof -
  let ?f = "min 1024 (max 2 freq)"
  have f: "2 \<le> ?f" "?f \<le> 1024" by auto
  then obtain r where r: "rtc_rate ?f 2 RTC_BASE_FREQ = Some r"
      "?f \<le> rate_hz r \<and> (r = 15 \<or> rate_hz (r + 1) < ?f)"
    using rtc_rate_run by blast
  have "(if freq < RTC_MIN then RTC_MIN else if freq > RTC_MAX then RTC_MAX else freq) = ?f"
    "(if ?f < RTC_MIN then RTC_MIN else if ?f > RTC_MAX then RTC_MAX else ?f) = ?f"
    by (auto simp: rtc_consts)
  then have "rtc_set dev freq s = rtc_set dev ?f s" by (simp only: rtc_set_def)
  with r rtc_set_run [OF f r(1)] show ?thesis by (intro exI [of _ r]) simp
qed

text \<open>Initialisation sets the periodic-interrupt bit of register B and rate 15 (2 Hz) in register
  A, each keeping the other bits it read, switches interrupts on and unmasks exactly lines 2
  and 8; the mask variables and the controllers stay in step.\<close>

theorem rtc_init_enables:
  "int_on (rtc_init dev s) \<and> masked (rtc_init dev s) = masked s - {2, 8} \<and> rate_hz 15 = 2
   \<and> ram (rtc_init dev s) = ram s
   \<and> (\<exists>irq b. out_log (rtc_init dev s) = irq @ [(0x71, reg_a dev ((0x71, b OR 0x40) # (0x70, 0x8B) # (0x70, 0x8B) # out_log s) 15),
        (0x70, 0x8A), (0x70, 0x8A), (0x71, b OR 0x40), (0x70, 0x8B), (0x70, 0x8B)] @ out_log s
        \<and> b = dev ((0x70, 0x8B) # out_log s) 0x71 \<and> length irq = 2)
   \<and> (pic_synced s \<longrightarrow> pic_synced (rtc_init dev s))"
proof -
  define t where "t = s\<lparr>int_on := int_on (rtc_init dev s), out_log := drop 2 (out_log (rtc_init dev s))\<rparr>"
  have "rtc_init dev s = fold enable_irq [2, 8] t"
    by (simp add: t_def rtc_init_run Let_def enable_irq_def outb_def pic_consts)
  moreover have "masked t = masked s" by (simp add: masked_def t_def)
  ultimately have m: "masked (rtc_init dev s) = masked s - {2, 8}"
    using pic.masked_enable_all [of "[2, 8]" t] by simp
  show ?thesis
    unfolding m by (auto simp: rtc_init_run Let_def rate_hz_def pic_synced_def pic_consts)
qed

theorem rtc_init_enables_witness:
  "pic_synced (rtc_init (\<lambda>_ _. 0x26) rtc_example)"
  using rtc_init_enables [of "\<lambda>_ _. 0x26" rtc_example] by (simp add: pic_synced_def pic_consts)

text \<open>A read of the clock returns 0 as soon as a clock interrupt is delivered after the call; with
  the interrupt flag off, or with only handlers of other devices, it never returns.\<close>

theorem rtc_read_waits:
  "(int_on s \<longrightarrow> rtc_read ((\<lambda>t. Some (rtc_interrupt dev t)) # irqs) fd buf n s
       = Some (0, sti (rtc_interrupt dev (cli (s\<lparr>intr_flag := 0\<rparr>)))))
   \<and> (\<not> int_on s \<longrightarrow> rtc_read irqs fd buf n s = None)
   \<and> ((\<forall>h\<in>set irqs. \<forall>s t. h s = Some t \<longrightarrow> intr_flag t = intr_flag s) \<longrightarrow> rtc_read irqs fd buf n s = None)"
proof -
  have "await (\<lambda>s. intr_flag s \<noteq> 0) hs t = Some t" if "intr_flag t \<noteq> 0" for hs and t :: "'a rtc_state_scheme"
    using that by (cases hs) simp_all
  then show ?thesis
    using await_no_rtc [of irqs "s\<lparr>intr_flag := 0\<rparr>"] await_masked [of "s\<lparr>intr_flag := 0\<rparr>" "\<lambda>s. intr_flag s \<noteq> 0" irqs]
    by (auto simp: rtc_read_def deliver_def sti_def cli_def)
qed

theorem rtc_read_waits_witness:
  "map_option fst (rtc_read [\<lambda>t. Some (rtc_interrupt (\<lambda>_ _. 0) t)] 2 0 4 rtc_example) = Some 0"
  using rtc_read_waits [of rtc_example "\<lambda>_ _. 0" "[]" 2 0 4] by simp

end
