(* ===== verification/Keyboard.thy ===== *)
theory Keyboard
  imports RTC
begin

text \<open>
  Keyboard decoding, \<^verbatim>\<open>student-distrib/keyboard.c\<close>: the scan-code table, the modifier flags and
  the part of \<open>read_keyboard\<close> that turns a scan code into a character. Handing the character
  to the terminal is in \<open>Switch\<close>, where \<open>read_keyboard\<close> itself is.

  The code indexes its table of 90 entries with any scan code. A press of 90 to 127 is decoded from
  the byte that lies behind the table there: that byte, \<open>past\<close>, is a parameter, and the theorems
  hold for all its values (of a release the byte read is not used). \<open>junk\<close> is the value of the local
  \<open>charval\<close> on the paths that do not assign it.
\<close>

section \<open>State and operations\<close>

record kbd_state = rtc_state +
  shift_flag :: int
  alt_flag :: int
  caps_flag :: int
  ctrl_flag :: int
  l_shift :: int
  r_shift :: int

definition BACKSPACE :: u8 where "BACKSPACE = 8"
definition LEFT_SHIFT_PRESS :: u8 where "LEFT_SHIFT_PRESS = 66"
definition RIGHT_SHIFT_PRESS :: u8 where "RIGHT_SHIFT_PRESS = 67"
definition CTRL_PRESS :: u8 where "CTRL_PRESS = 65"
definition ALT_PRESS :: u8 where "ALT_PRESS = 68"
definition CAPS :: u8 where "CAPS = 69"
definition F1 :: u8 where "F1 = 70"
definition F2 :: u8 where "F2 = 71"
definition F3 :: u8 where "F3 = 72"
definition CTRL_L :: u8 where "CTRL_L = 0xFF"
definition CTRL_C :: u8 where "CTRL_C = 0xF8"
definition CTRL_ALT :: u8 where "CTRL_ALT = 0xF9"
definition LEFT_SHIFT_R :: u8 where "LEFT_SHIFT_R = 0xAA"
definition RIGHT_SHIFT_R :: u8 where "RIGHT_SHIFT_R = 0xB6"
definition CTRL_RELEASE :: u8 where "CTRL_RELEASE = 0x9D"
definition ALT_RELEASE :: u8 where "ALT_RELEASE = 0xB8"
definition T1_SWITCH :: u8 where "T1_SWITCH = 0xF5"
definition T2_SWITCH :: u8 where "T2_SWITCH = 0xF6"
definition T3_SWITCH :: u8 where "T3_SWITCH = 0xF7"
definition KEY_PRESS :: u8 where "KEY_PRESS = 0x80"

lemmas kbd_consts = BACKSPACE_def LEFT_SHIFT_PRESS_def RIGHT_SHIFT_PRESS_def CTRL_PRESS_def ALT_PRESS_def
  CAPS_def F1_def F2_def F3_def CTRL_L_def CTRL_C_def CTRL_ALT_def LEFT_SHIFT_R_def RIGHT_SHIFT_R_def
  CTRL_RELEASE_def ALT_RELEASE_def T1_SWITCH_def T2_SWITCH_def T3_SWITCH_def KEY_PRESS_def

text \<open>The table, row by row: the characters, and the codes of \<^verbatim>\<open>keyboard.h\<close> for the keys that
  print nothing (keypad, function and unknown keys included).\<close>

definition key_codes :: "u8 list" where
  "key_codes = [0, 27] @ str ''1234567890-='' @ [BACKSPACE, 9] @ str ''qwertyuiop[]'' @ [10, CTRL_PRESS]
     @ str ''asdfghjkl;'' @ [39, 96, LEFT_SHIFT_PRESS, 92] @ str ''zxcvbnm,./''
     @ [RIGHT_SHIFT_PRESS, 42, ALT_PRESS, 32, CAPS, F1, F2, F3, 73, 74, 75, 76, 77, 78, 79]
     @ [80, 81, 81, 83, 84, 45, 85, 86, 87, 43, 88, 89, 90, 91, 92, 93, 94, 95, 33, 34, 35]"

definition shift :: "u8 \<Rightarrow> u8" where
  "shift c = (if c = 96 then 126 else if c = 49 then 33 else if c = 50 then 64
     else if c = 51 then 35 else if c = 52 then 36 else if c = 53 then 37 else if c = 54 then 94
     else if c = 55 then 38 else if c = 56 then 42 else if c = 57 then 40 else if c = 48 then 41
     else if c = 45 then 95 else if c = 61 then 43 else if c = 91 then 123 else if c = 93 then 125
     else if c = 92 then 124 else if c = 59 then 58 else if c = 39 then 34 else if c = 44 then 60
     else if c = 46 then 62 else if c = 47 then 63 else c)"

text \<open>A character key (\<open>'\<close> to \<open>z\<close>).\<close>

definition decode_char :: "u8 \<Rightarrow> u8 \<Rightarrow> 'a kbd_state_scheme \<Rightarrow> u8" where
  "decode_char junk code s =
     (if ctrl_flag s = 1 then
        if code = 99 then CTRL_C else if code = 108 then CTRL_L else junk
      else if code \<le> 122 \<and> code \<ge> 97 then
        if shift_flag s = caps_flag s then code else code - (97 - 65)
      else if (code \<ge> 39 \<and> code \<le> 64) \<or> (code \<ge> 91 \<and> code \<le> 96) then
        if shift_flag s \<noteq> 0 then shift code else code
      else 0)"

definition decode_press :: "u8 \<Rightarrow> u8 \<Rightarrow> 'a kbd_state_scheme \<Rightarrow> u8 \<times> 'a kbd_state_scheme" where
  "decode_press junk code s =
     (if code = LEFT_SHIFT_PRESS then (0, s\<lparr>l_shift := 1, shift_flag := 1\<rparr>)
      else if code = RIGHT_SHIFT_PRESS then (0, s\<lparr>r_shift := 1, shift_flag := 1\<rparr>)
      else if code = ALT_PRESS then
        (if ctrl_flag s \<noteq> 0 then CTRL_ALT else 0, s\<lparr>alt_flag := 1\<rparr>)
      else if code = CTRL_PRESS then (0, s\<lparr>ctrl_flag := 1\<rparr>)
      else if code = CAPS then (0, s\<lparr>caps_flag := if caps_flag s = 1 then 0 else 1\<rparr>)
      else if alt_flag s = 1 \<and> code \<ge> F1 \<and> code \<le> F3 then
        (if code = F1 then T1_SWITCH else if code = F2 then T2_SWITCH
         else if code = F3 then T3_SWITCH else junk, s)
      else if code \<ge> 39 \<and> code \<le> 122 then (decode_char junk code s, s)
      else (code, s))"

definition decode_release :: "u8 \<Rightarrow> 'a kbd_state_scheme \<Rightarrow> 'a kbd_state_scheme" where
  "decode_release scancode s =
     (let s = (if scancode = LEFT_SHIFT_R then s\<lparr>l_shift := 0\<rparr>
               else if scancode = RIGHT_SHIFT_R then s\<lparr>r_shift := 0\<rparr>
               else if scancode = CTRL_RELEASE then s\<lparr>ctrl_flag := 0\<rparr>
               else if scancode = ALT_RELEASE then s\<lparr>alt_flag := 0\<rparr> else s)
      in s\<lparr>shift_flag := if l_shift s \<noteq> 0 \<or> r_shift s \<noteq> 0 then 1 else 0\<rparr>)"

text \<open>\<open>read_keyboard\<close> up to the call of \<open>keyboard_read\<close>.\<close>

definition decode_key :: "u8 \<Rightarrow> u8 \<Rightarrow> u8 \<Rightarrow> 'a kbd_state_scheme \<Rightarrow> u8 \<times> 'a kbd_state_scheme" where
  "decode_key past junk scancode s =
     (let code = (if unat scancode < length key_codes then key_codes ! unat scancode else past)
      in if scancode < KEY_PRESS then decode_press junk code s else (0, decode_release scancode s))"

section \<open>The flags follow the keys held down\<close>

datatype modifier = LShift | RShift | Ctrl | Alt

text \<open>What a scan code says about a modifier key: its press or its release.\<close>

fun press_code :: "modifier \<Rightarrow> u8" where
  "press_code LShift = 0x2A"
| "press_code RShift = 0x36"
| "press_code Ctrl = 0x1D"
| "press_code Alt = 0x38"

definition release_code :: "modifier \<Rightarrow> u8" where
  "release_code k = press_code k + 0x80"

text \<open>The abstract keyboard: the modifiers held and the state of caps lock.\<close>

fun hold :: "u8 \<Rightarrow> (modifier \<Rightarrow> bool) \<times> bool \<Rightarrow> (modifier \<Rightarrow> bool) \<times> bool" where
  "hold sc (held, caps) =
     ((\<lambda>k. if sc = press_code k then True else if sc = release_code k then False else held k),
      if sc = 0x3A then \<not> caps else caps)"

fun modifier_flag :: "'a kbd_state_scheme \<Rightarrow> modifier \<Rightarrow> int" where
  "modifier_flag s LShift = l_shift s"
| "modifier_flag s RShift = r_shift s"
| "modifier_flag s Ctrl = ctrl_flag s"
| "modifier_flag s Alt = alt_flag s"

definition kbd_abs :: "'a kbd_state_scheme \<Rightarrow> (modifier \<Rightarrow> bool) \<times> bool" where
  "kbd_abs s = ((\<lambda>k. modifier_flag s k = 1), caps_flag s = 1)"

definition kbd_inv :: "'a kbd_state_scheme \<Rightarrow> bool" where
  "kbd_inv s \<longleftrightarrow> l_shift s \<in> {0, 1} \<and> r_shift s \<in> {0, 1} \<and> ctrl_flag s \<in> {0, 1} \<and> alt_flag s \<in> {0, 1}
     \<and> caps_flag s \<in> {0, 1} \<and> shift_flag s = (if l_shift s = 1 \<or> r_shift s = 1 then 1 else 0)"

lemma length_key_codes [simp]: "length key_codes = 90"
  by (simp add: key_codes_def str_def)

lemma key_codes_modifiers:
  assumes "i < 90"
  shows "key_codes ! i = LEFT_SHIFT_PRESS \<longleftrightarrow> i = 42" "key_codes ! i = RIGHT_SHIFT_PRESS \<longleftrightarrow> i = 54"
    "key_codes ! i = CTRL_PRESS \<longleftrightarrow> i = 29" "key_codes ! i = ALT_PRESS \<longleftrightarrow> i = 56"
    "key_codes ! i = CAPS \<longleftrightarrow> i = 58"
proof -
  have t: "list_all (\<lambda>(i, c). (c = LEFT_SHIFT_PRESS \<longleftrightarrow> i = 42) \<and> (c = RIGHT_SHIFT_PRESS \<longleftrightarrow> i = 54)
      \<and> (c = CTRL_PRESS \<longleftrightarrow> i = 29) \<and> (c = ALT_PRESS \<longleftrightarrow> i = 56) \<and> (c = CAPS \<longleftrightarrow> i = 58))
      (enumerate 0 key_codes)"
    by code_simp
  have "(i, key_codes ! i) \<in> set (enumerate 0 key_codes)"
    using assms by (simp add: in_set_enumerate_eq)
  with t show "key_codes ! i = LEFT_SHIFT_PRESS \<longleftrightarrow> i = 42" "key_codes ! i = RIGHT_SHIFT_PRESS \<longleftrightarrow> i = 54"
    "key_codes ! i = CTRL_PRESS \<longleftrightarrow> i = 29" "key_codes ! i = ALT_PRESS \<longleftrightarrow> i = 56"
    "key_codes ! i = CAPS \<longleftrightarrow> i = 58"
    by (auto simp: list_all_iff)
qed

lemma decode_keyD:
  assumes "decode_key past junk sc s = (c, t)"
  obtains (inside) "sc < 0x80" "unat sc < 90" "decode_press junk (key_codes ! unat sc) s = (c, t)"
    | (outside) "sc < 0x80" "90 \<le> unat sc" "decode_press junk past s = (c, t)"
    | (release) "0x80 \<le> sc" "c = 0" "t = decode_release sc s"
  using assms by (cases "unat sc < 90"; cases "sc < 0x80") (auto simp: decode_key_def KEY_PRESS_def)

lemma scancode_eq: "sc = (0x2A :: u8) \<longleftrightarrow> unat sc = 42" "sc = (0x36 :: u8) \<longleftrightarrow> unat sc = 54"
  "sc = (0x1D :: u8) \<longleftrightarrow> unat sc = 29" "sc = (0x38 :: u8) \<longleftrightarrow> unat sc = 56" "sc = (0x3A :: u8) \<longleftrightarrow> unat sc = 58"
  by (auto simp: unat_arith_simps)

lemma release_codes: "release_code LShift = 0xAA" "release_code RShift = 0xB6"
  "release_code Ctrl = 0x9D" "release_code Alt = 0xB8"
  by (simp_all add: release_code_def)

lemma release_not_press: "sc < 0x80 \<Longrightarrow> sc \<noteq> release_code k" "0x80 \<le> sc \<Longrightarrow> sc \<noteq> press_code k"
  by (cases k; auto simp: release_code_def)+

lemma snd_decode_press:
  "snd (decode_press junk code s) =
     (if code = LEFT_SHIFT_PRESS then s\<lparr>l_shift := 1, shift_flag := 1\<rparr>
      else if code = RIGHT_SHIFT_PRESS then s\<lparr>r_shift := 1, shift_flag := 1\<rparr>
      else if code = ALT_PRESS then s\<lparr>alt_flag := 1\<rparr>
      else if code = CTRL_PRESS then s\<lparr>ctrl_flag := 1\<rparr>
      else if code = CAPS then s\<lparr>caps_flag := if caps_flag s = 1 then 0 else 1\<rparr> else s)"
  by (simp add: decode_press_def)

lemma decode_press_inv: "kbd_inv s \<Longrightarrow> decode_press junk code s = (c, t) \<Longrightarrow> kbd_inv t"
  using snd_decode_press [of junk code s] by (simp add: kbd_inv_def)

lemma decode_release_inv: "kbd_inv s \<Longrightarrow> kbd_inv (decode_release sc s)"
  by (auto simp: decode_release_def kbd_inv_def Let_def)

lemma decode_press_abs:
  assumes "kbd_inv s" "unat sc < 90" "sc < 0x80" "decode_press junk (key_codes ! unat sc) s = (c, t)"
  shows "kbd_abs t = hold sc (kbd_abs s)"
proof -
  note m = key_codes_modifiers [OF assms(2)]
  have "modifier_flag t k = 1 \<longleftrightarrow> (sc = press_code k \<or> modifier_flag s k = 1)" for k
    using snd_decode_press [of junk "key_codes ! unat sc" s] unfolding assms(4) m snd_conv
    by (cases k) (simp_all add: scancode_eq)
  moreover have "caps_flag t = 1 \<longleftrightarrow> (if sc = 0x3A then caps_flag s \<noteq> 1 else caps_flag s = 1)"
    using snd_decode_press [of junk "key_codes ! unat sc" s] unfolding assms(4) m snd_conv
    by (simp add: scancode_eq)
  ultimately show ?thesis
    using release_not_press(1) [OF assms(3)] by (auto simp: kbd_abs_def)
qed

lemma decode_release_abs:
  assumes "kbd_inv s" "0x80 \<le> sc"
  shows "kbd_abs (decode_release sc s) = hold sc (kbd_abs s)"
proof -
  have "sc \<noteq> 0x3A" using assms(2) by auto
  moreover have "modifier_flag (decode_release sc s) k = 1
      \<longleftrightarrow> (if sc = release_code k then False else modifier_flag s k = 1)" for k
    by (cases k) (auto simp: decode_release_def release_codes kbd_consts Let_def)
  moreover have "caps_flag (decode_release sc s) = caps_flag s"
    by (simp add: decode_release_def Let_def)
  ultimately show ?thesis
    using release_not_press(2) [OF assms(2)] by (auto simp: kbd_abs_def)
qed

text \<open>The scan codes that have an entry in the table, and the releases.\<close>

definition in_table :: "u8 \<Rightarrow> bool" where
  "in_table sc \<longleftrightarrow> unat sc < 90 \<or> 0x80 \<le> sc"

lemma decode_step:
  assumes "kbd_inv s" "decode_key past junk sc s = (c, t)"
  shows "kbd_inv t" "in_table sc \<Longrightarrow> kbd_abs t = hold sc (kbd_abs s)"
proof -
  show "kbd_inv t"
    using assms(2) decode_press_inv [OF assms(1)] decode_release_inv [OF assms(1)]
    by (cases rule: decode_keyD) blast+
  assume sc: "in_table sc"
  show "kbd_abs t = hold sc (kbd_abs s)"
    using assms(2)
  proof (cases rule: decode_keyD)
    case outside
    with sc show ?thesis by (simp add: in_table_def not_le)
  qed (use decode_press_abs [OF assms(1)] decode_release_abs [OF assms(1)] in blast)+
qed

text \<open>Decoding a sequence of scan codes.\<close>

fun decode_keys :: "u8 \<Rightarrow> u8 \<Rightarrow> u8 list \<Rightarrow> 'a kbd_state_scheme \<Rightarrow> u8 list \<times> 'a kbd_state_scheme" where
  "decode_keys past junk [] s = ([], s)"
| "decode_keys past junk (sc # scs) s =
     (let (c, s) = decode_key past junk sc s; (cs, s) = decode_keys past junk scs s in (c # cs, s))"

lemma decode_keys_step:
  "kbd_inv s \<Longrightarrow> kbd_inv (snd (decode_keys past junk scs s))
    \<and> (list_all in_table scs \<longrightarrow> kbd_abs (snd (decode_keys past junk scs s)) = fold hold scs (kbd_abs s))"
proof (induction scs arbitrary: s)
  case (Cons sc scs)
  obtain c t where t: "decode_key past junk sc s = (c, t)" by (cases "decode_key past junk sc s")
  from decode_step [OF Cons.prems t] Cons.IH [of t] show ?case by (simp add: t split_beta)
qed simp

section \<open>The characters\<close>

lemma key_codes_le: "i < 90 \<Longrightarrow> key_codes ! i \<le> 122"
proof -
  assume "i < 90"
  have "list_all (\<lambda>c. c \<le> 122) key_codes" by code_simp
  with \<open>i < 90\<close> show ?thesis by (simp add: list_all_length)
qed

lemma shift_le: "c \<le> 122 \<Longrightarrow> shift c \<le> 126"
proof -
  assume "c \<le> 122"
  then have "c \<le> 126" by (simp add: word_le_nat_alt)
  then show ?thesis by (simp add: shift_def)
qed

lemma decode_char_plain: "ctrl_flag s = 0 \<Longrightarrow> code \<le> 122 \<Longrightarrow> decode_char junk code s \<le> 126"
  using shift_le [of code] by (auto simp: decode_char_def unat_arith_simps)

lemma fst_decode_press_plain:
  assumes "ctrl_flag s = 0" "alt_flag s = 0" "code \<le> 122"
  shows "fst (decode_press junk code s) \<le> 126"
  using decode_char_plain [OF assms(1,3)] assms by (auto simp: decode_press_def unat_arith_simps)

lemma decode_letter:
  assumes "ctrl_flag s = 0" "97 \<le> code" "code \<le> 122"
  shows "decode_press junk code s = (if shift_flag s = caps_flag s then code else code - 32, s)"
proof -
  have "\<not> code \<le> 72" "39 \<le> code" using assms(2) by (simp_all add: word_le_nat_alt)
  moreover have "code \<noteq> 65" "code \<noteq> 66" "code \<noteq> 67" "code \<noteq> 68" "code \<noteq> 69"
    using assms(2) by auto
  ultimately show ?thesis using assms by (simp add: decode_press_def decode_char_def kbd_consts)
qed

section \<open>Properties\<close>

abbreviation kbd_example :: kbd_state where
  "kbd_example \<equiv> \<lparr>ram = (\<lambda>_. 0), out_log = [], int_on = True, cr3 = 0, screen_x = 0, screen_y = 0,
     master_mask = 0xFF, slave_mask = 0xFF, intr_flag = 0, shift_flag = 0, alt_flag = 0, caps_flag = 0,
     ctrl_flag = 0, l_shift = 0, r_shift = 0\<rparr>"

text \<open>C29: for every sequence of scan codes, whatever bytes lie behind the table, all flags stay 0 or 1 and
  \<open>shift_flag\<close> is set exactly when one of the two shift flags is. For every sequence of presses that
  have an entry in the table (scan codes below 90) and of releases, the flags are a refinement of the
  keys held down: a modifier's flag is set exactly when its last event was a press, and
  \<open>caps_flag\<close> toggles with each press of caps lock. A press of a code from 90 to 127 is left out of the second
  part, since the byte it is decoded from may set any flag.\<close>

theorem modifiers_follow_keys:
  assumes "kbd_inv s"
  shows "kbd_inv (snd (decode_keys past junk scs s))
    \<and> (list_all in_table scs \<longrightarrow> kbd_abs (snd (decode_keys past junk scs s)) = fold hold scs (kbd_abs s))"
  using assms by (rule decode_keys_step)

text \<open>Shift, a, shift up, a, caps lock, a, control: three letters, and control held with caps lock on.\<close>

theorem modifiers_follow_keys_witness:
  "fst (decode_keys 0 0 [0x2A, 0x1E, 0xAA, 0x1E, 0x3A, 0x1E, 0x1D] kbd_example) = [0, 65, 0, 97, 0, 65, 0]
   \<and> kbd_inv (snd (decode_keys 0 0 [0x2A, 0x1E, 0xAA, 0x1E, 0x3A, 0x1E, 0x1D] kbd_example))
   \<and> kbd_abs (snd (decode_keys 0 0 [0x2A, 0x1E, 0xAA, 0x1E, 0x3A, 0x1E, 0x1D] kbd_example)) = (\<lambda>k. k = Ctrl, True)"
proof -
  let ?scs = "[0x2A, 0x1E, 0xAA, 0x1E, 0x3A, 0x1E, 0x1D] :: u8 list"
  have "kbd_inv kbd_example" by (simp add: kbd_inv_def)
  from modifiers_follow_keys [OF this, of 0 0 ?scs]
  have "kbd_inv (snd (decode_keys 0 0 ?scs kbd_example))"
    "kbd_abs (snd (decode_keys 0 0 ?scs kbd_example)) = fold hold ?scs (kbd_abs kbd_example)"
    by (simp_all add: in_table_def del: decode_keys.simps fold_simps)
  moreover have "fst (fold hold ?scs (kbd_abs kbd_example)) k = (k = Ctrl)" for k
    by (cases k) (simp_all add: kbd_abs_def release_codes)
  then have "fold hold ?scs (kbd_abs kbd_example) = (\<lambda>k. k = Ctrl, True)"
    by (intro prod_eqI) (auto simp: kbd_abs_def)
  moreover have "fst (decode_keys 0 0 ?scs kbd_example) = [0, 65, 0, 97, 0, 65, 0]"
    by (simp add: decode_key_def key_codes_def str_def kbd_consts decode_press_def decode_char_def decode_release_def)
  ultimately show ?thesis by simp
qed

text \<open>With control up, a letter key gives its lower-case letter when neither or both of shift and
  caps lock are on and its upper-case letter when exactly one is, and changes no flag.\<close>

theorem letter_case:
  assumes "kbd_inv s" "ctrl_flag s = 0" "unat sc < 90" "97 \<le> key_codes ! unat sc"
  shows "decode_key past junk sc s =
    (if (l_shift s = 1 \<or> r_shift s = 1) = (caps_flag s = 1) then key_codes ! unat sc
     else key_codes ! unat sc - 32, s)"
proof -
  have "sc < 0x80" using assms(3) by (simp add: word_less_nat_alt)
  moreover have "shift_flag s = caps_flag s \<longleftrightarrow> (l_shift s = 1 \<or> r_shift s = 1) = (caps_flag s = 1)"
    using assms(1) by (auto simp: kbd_inv_def)
  ultimately show ?thesis
    using decode_letter [OF assms(2,4) key_codes_le [OF assms(3)], of junk] assms(3)
    by (simp add: decode_key_def KEY_PRESS_def)
qed

theorem letter_case_witness:
  "decode_key 0 0 0x10 kbd_example = (0x71, kbd_example)"
  using letter_case [of kbd_example "0x10" 0 0] by (simp add: kbd_inv_def key_codes_def str_def)

text \<open>With control and alt up every key of the table gives a 7-bit character, so none of the codes the
  terminal takes for control-C, control-L, control-alt or a terminal switch; releasing a key gives no
  character at all.\<close>

theorem plain_keys_are_characters:
  assumes "ctrl_flag s = 0" "alt_flag s = 0" "in_table sc" "decode_key past junk sc s = (c, t)"
  shows "c \<le> 126 \<and> c \<notin> {CTRL_C, CTRL_L, CTRL_ALT, T1_SWITCH, T2_SWITCH, T3_SWITCH} \<and> (0x80 \<le> sc \<longrightarrow> c = 0)"
proof -
  from assms(4) have "c \<le> 126 \<and> (0x80 \<le> sc \<longrightarrow> c = 0)"
  proof (cases rule: decode_keyD)
    case inside
    then show ?thesis
      using fst_decode_press_plain [OF assms(1,2) key_codes_le [OF inside(2)], of junk] by (simp add: word_le_nat_alt)
  next
    case outside
    with assms(3) show ?thesis by (simp add: in_table_def not_le)
  qed simp
  then show ?thesis by (auto simp: kbd_consts)
qed

theorem plain_keys_are_characters_witness:
  "\<exists>c t. decode_key 0 0 0x2E kbd_example = (c, t) \<and> c \<noteq> CTRL_C"
proof -
  have "decode_key 0 0 0x2E kbd_example = (99, kbd_example)"
    by (simp add: decode_key_def decode_press_def decode_char_def key_codes_def str_def kbd_consts)
  with plain_keys_are_characters [of kbd_example "0x2E" 0 0] show ?thesis by (auto simp: in_table_def)
qed

end
