(* ===== verification/Paging.thy ===== *)
theory Paging
  imports Keyboard
begin

unbundle bit_operations_syntax

text \<open>
  Paging, \<^verbatim>\<open>student-distrib/pagefile.c\<close>: the page directories and tables of the kernel, of
  the six tasks and of the terminals, and \<open>paging_init\<close>, which fills them. The arrays lie one
  after the other, page-aligned, as \<^verbatim>\<open>x86_desc.S\<close> lays them out; \<open>tables_at\<close> is where the
  linker puts the first. \<open>translate\<close> is the processor's reading of the tables.

  The rest of the kernel sees memory through \<open>ram\<close>, the view of the current directory, and
  \<open>load_cr3\<close> exchanges the part of it that differs between tasks: \<open>user_pages\<close> keeps, for every
  directory, the user window as it was when the directory was last left. The refinement at the
  end shows that this is what the tables make of one physical memory.
\<close>

section \<open>State and operations\<close>

datatype pdir = page_directory | task1_page_directory | task2_page_directory | task3_page_directory
  | task4_page_directory | task5_page_directory | task6_page_directory | terminal_page_directory

datatype ptab = page_table | page_table1 | page_table2 | page_table3 | page_table4 | page_table5
  | page_table6 | terminal_page_table

record paging_state = kbd_state +
  tables_at :: u32
  directories :: "pdir \<Rightarrow> nat \<Rightarrow> u32"
  tables :: "ptab \<Rightarrow> nat \<Rightarrow> u32"
  cr0 :: u32
  cr4 :: u32
  user_pages :: "u32 \<Rightarrow> mem"

fun dir_addr :: "u32 \<Rightarrow> pdir \<Rightarrow> u32" where
  "dir_addr base page_directory = base"
| "dir_addr base task1_page_directory = base + 0x9000"
| "dir_addr base task2_page_directory = base + 0xA000"
| "dir_addr base task3_page_directory = base + 0xB000"
| "dir_addr base task4_page_directory = base + 0xC000"
| "dir_addr base task5_page_directory = base + 0xD000"
| "dir_addr base task6_page_directory = base + 0xE000"
| "dir_addr base terminal_page_directory = base + 0xF000"

fun tab_addr :: "u32 \<Rightarrow> ptab \<Rightarrow> u32" where
  "tab_addr base page_table = base + 0x1000"
| "tab_addr base page_table1 = base + 0x2000"
| "tab_addr base page_table2 = base + 0x3000"
| "tab_addr base page_table3 = base + 0x4000"
| "tab_addr base page_table4 = base + 0x5000"
| "tab_addr base page_table5 = base + 0x6000"
| "tab_addr base page_table6 = base + 0x7000"
| "tab_addr base terminal_page_table = base + 0x8000"

definition NUM_ENTRIES_PD :: nat where "NUM_ENTRIES_PD = 1024"
definition NUM_ENTRIES_PT :: nat where "NUM_ENTRIES_PT = 1024"
definition KERNEL_PTR :: u32 where "KERNEL_PTR = 0x00400183"
definition PRESENT :: u32 where "PRESENT = 1"
definition MASK_RW :: u32 where "MASK_RW = 2"
definition USER_SUPERVISOR :: u32 where "USER_SUPERVISOR = 4"
definition VIDEO_MEM_LOCATION :: nat where "VIDEO_MEM_LOCATION = 184"
definition VIDEO_MEM_PAGE_SU :: u32 where "VIDEO_MEM_PAGE_SU = 0x000B8005"
definition VIDEO_MEM_PAGE_U :: u32 where "VIDEO_MEM_PAGE_U = 0x000B8007"
definition MB_8_MAP :: u32 where "MB_8_MAP = 0x00800087"
definition MB_12_MAP :: u32 where "MB_12_MAP = 0x00C00087"
definition MB_16_MAP :: u32 where "MB_16_MAP = 0x01000087"
definition MB_20_MAP :: u32 where "MB_20_MAP = 0x01400087"
definition MB_24_MAP :: u32 where "MB_24_MAP = 0x01800087"
definition MB_28_MAP :: u32 where "MB_28_MAP = 0x01C00087"
definition MB_32_MAP :: u32 where "MB_32_MAP = 0x02000087"
definition P_32 :: nat where "P_32 = 32"
definition CR4_PSE :: u32 where "CR4_PSE = 0x10"
definition ENABLE_PAGING :: u32 where "ENABLE_PAGING = 0x80000000"
definition EMPTY :: u32 where "EMPTY = 0"

lemmas paging_consts = NUM_ENTRIES_PD_def NUM_ENTRIES_PT_def KERNEL_PTR_def PRESENT_def MASK_RW_def
  USER_SUPERVISOR_def VIDEO_MEM_LOCATION_def VIDEO_MEM_PAGE_SU_def VIDEO_MEM_PAGE_U_def MB_8_MAP_def
  MB_12_MAP_def MB_16_MAP_def MB_20_MAP_def MB_24_MAP_def MB_28_MAP_def MB_32_MAP_def P_32_def
  CR4_PSE_def ENABLE_PAGING_def EMPTY_def

text \<open>The loop \<open>for(i = lo; i < n; i++) a[i] = EMPTY\<close>.\<close>

definition clear_entries :: "nat \<Rightarrow> nat \<Rightarrow> (nat \<Rightarrow> u32) \<Rightarrow> nat \<Rightarrow> u32" where
  "clear_entries lo n a = (\<lambda>i. if lo \<le> i \<and> i < n then EMPTY else a i)"

text \<open>A directory and its table as \<open>paging_init\<close> fills them: the table that maps the video page, the
  kernel's 4 MB page, and the task's own 4 MB page.\<close>

definition set_task :: "pdir \<Rightarrow> ptab \<Rightarrow> u32 \<Rightarrow> 'a paging_state_scheme \<Rightarrow> 'a paging_state_scheme" where
  "set_task d t page s =
     s\<lparr>tables := (tables s)(t := (tables s t)(VIDEO_MEM_LOCATION := VIDEO_MEM_PAGE_U)),
       directories := (directories s)(d := (directories s d)
         (0 := tab_addr (tables_at s) t OR USER_SUPERVISOR OR PRESENT OR MASK_RW,
          1 := KERNEL_PTR, P_32 := page))\<rparr>"

definition load_cr3 :: "u32 \<Rightarrow> 'a paging_state_scheme \<Rightarrow> 'a paging_state_scheme" where
  "load_cr3 c s =
     (let pages = (user_pages s)(cr3 s := ram s)
      in s\<lparr>user_pages := pages, cr3 := c,
           ram := \<lambda>a. if 0x08000000 \<le> a \<and> a < 0x08400000 then pages c a else ram s a\<rparr>)"

definition paging_init :: "'a paging_state_scheme \<Rightarrow> 'a paging_state_scheme" where
  "paging_init s =
     (let s = s\<lparr>cr4 := cr4 s OR CR4_PSE\<rparr>;
          s = s\<lparr>directories := \<lambda>d. if d = terminal_page_directory then directories s d
                 else clear_entries 0 NUM_ENTRIES_PD (directories s d)\<rparr>;
          s = s\<lparr>tables := (tables s)(page_table := clear_entries 1 NUM_ENTRIES_PT (tables s page_table))\<rparr>;
          s = s\<lparr>tables := (tables s)(page_table :=
                 (tables s page_table)(VIDEO_MEM_LOCATION := VIDEO_MEM_PAGE_SU))\<rparr>;
          s = s\<lparr>directories := (directories s)(page_directory := (directories s page_directory)
                 (0 := tab_addr (tables_at s) page_table OR USER_SUPERVISOR OR PRESENT OR MASK_RW,
                  1 := KERNEL_PTR))\<rparr>;
          s = set_task task1_page_directory page_table1 MB_8_MAP s;
          s = set_task task2_page_directory page_table2 MB_12_MAP s;
          s = set_task task3_page_directory page_table3 MB_16_MAP s;
          s = set_task task4_page_directory page_table4 MB_20_MAP s;
          s = set_task task5_page_directory page_table5 MB_24_MAP s;
          s = set_task task6_page_directory page_table6 MB_28_MAP s;
          s = set_task terminal_page_directory terminal_page_table MB_32_MAP s;
          s = load_cr3 (dir_addr (tables_at s) page_directory) s
      in s\<lparr>cr0 := cr0 s OR ENABLE_PAGING\<rparr>)"

section \<open>What the processor makes of the tables\<close>

fun dir_table :: "pdir \<Rightarrow> ptab" where
  "dir_table page_directory = page_table"
| "dir_table task1_page_directory = page_table1"
| "dir_table task2_page_directory = page_table2"
| "dir_table task3_page_directory = page_table3"
| "dir_table task4_page_directory = page_table4"
| "dir_table task5_page_directory = page_table5"
| "dir_table task6_page_directory = page_table6"
| "dir_table terminal_page_directory = terminal_page_table"

text \<open>The 4 MB frame of a directory's user window.\<close>

fun frame :: "pdir \<Rightarrow> u32" where
  "frame page_directory = 0"
| "frame task1_page_directory = 0x00800000"
| "frame task2_page_directory = 0x00C00000"
| "frame task3_page_directory = 0x01000000"
| "frame task4_page_directory = 0x01400000"
| "frame task5_page_directory = 0x01800000"
| "frame task6_page_directory = 0x01C00000"
| "frame terminal_page_directory = 0x02000000"

text \<open>The table stored at an address.\<close>

definition all_ptabs :: "ptab list" where
  "all_ptabs = [page_table, page_table1, page_table2, page_table3, page_table4, page_table5, page_table6,
     terminal_page_table]"

definition table_at :: "'a paging_state_scheme \<Rightarrow> u32 \<Rightarrow> (nat \<Rightarrow> u32) option" where
  "table_at s a = map_option (tables s) (find (\<lambda>t. tab_addr (tables_at s) t = a) all_ptabs)"

text \<open>
  Two-level translation with 4 MB pages: the physical address and whether user code may reach
  it, or nothing where the processor faults.
\<close>

definition translate :: "'a paging_state_scheme \<Rightarrow> pdir \<Rightarrow> u32 \<Rightarrow> (u32 \<times> bool) option" where
  "translate s d a =
     (let pde = directories s d (unat (drop_bit 22 a))
      in if \<not> bit pde 0 then None
         else if bit pde 7 then Some ((pde AND 0xFFC00000) OR (a AND 0x3FFFFF), bit pde 2)
         else Option.bind (table_at s (pde AND 0xFFFFF000)) (\<lambda>t.
           let pte = t (unat (drop_bit 12 a AND 0x3FF))
           in if \<not> bit pte 0 then None
              else Some ((pte AND 0xFFFFF000) OR (a AND 0xFFF), bit pde 2 \<and> bit pte 2)))"

section \<open>Arithmetic of addresses\<close>

lemma unat_drop: "unat (drop_bit k (a :: u32)) = unat a div 2 ^ k"
  unfolding unat_drop_bit_eq by (rule drop_bit_eq_div)

lemma unat_low: "unat (take_bit k (a :: u32)) = unat a mod 2 ^ k"
  unfolding unsigned_take_bit_eq by (rule take_bit_eq_mod)

lemma no_low_bits: "take_bit k (x :: u32) = 0 \<Longrightarrow> n < k \<Longrightarrow> \<not> bit x n"
  by (metis bit_take_bit_iff bit_0_eq bot_apply bot_bool_def)

lemma page_index:
  "drop_bit 22 (a :: u32) = 32 \<longleftrightarrow> 0x08000000 \<le> a \<and> a < 0x08400000"
  "drop_bit 22 (a :: u32) = 1 \<longleftrightarrow> 0x00400000 \<le> a \<and> a < 0x00800000"
  "drop_bit 22 (a :: u32) = 0 \<longleftrightarrow> a < 0x00400000"
  by (auto simp only: word_le_nat_alt word_less_nat_alt word_unat_eq_iff unat_drop) auto

lemma table_index:
  assumes "a < (0x00400000 :: u32)"
  shows "unat (drop_bit 12 a AND 0x3FF) = unat a div 4096"
    "unat (drop_bit 12 a AND 0x3FF) = 184 \<longleftrightarrow> 0xB8000 \<le> a \<and> a < 0xB9000"
proof -
  have "(0x3FF :: u32) = mask 10" by (simp add: mask_eq_exp_minus_1)
  then have "unat (drop_bit 12 a AND 0x3FF) = unat a div 4096 mod 1024"
    by (simp only: take_bit_eq_mask [symmetric] unat_low unat_drop) simp
  with assms show "unat (drop_bit 12 a AND 0x3FF) = unat a div 4096"
    by (simp add: word_less_nat_alt)
  then show "unat (drop_bit 12 a AND 0x3FF) = 184 \<longleftrightarrow> 0xB8000 \<le> a \<and> a < 0xB9000"
    by (auto simp: word_le_nat_alt word_less_nat_alt)
qed

text \<open>A page's base and an offset into the page.\<close>

lemma join_page:
  assumes "take_bit k (f :: u32) = 0"
  shows "f OR take_bit k a = f + take_bit k a"
proof -
  have "f AND take_bit k a = 0"
    using no_low_bits [OF assms] by (intro bit_word_eqI) (auto simp: bit_simps)
  then show ?thesis by (simp add: disjunctive_add_eq_or)
qed

lemma low_masks: "(0x3FFFFF :: u32) = mask 22" "(0xFFF :: u32) = mask 12"
  by (simp_all add: mask_eq_exp_minus_1)

lemma window_offset:
  assumes "drop_bit 22 (a :: u32) = k"
  shows "a AND 0x3FFFFF = a - push_bit 22 k"
  using bits_ident [of 22 a] assms unfolding low_masks by (simp add: take_bit_eq_mask [symmetric] algebra_simps)

lemma table_entry:
  assumes "take_bit 12 (x :: u32) = 0"
  shows "bit (x OR 7) 0" "bit (x OR 7) 2" "\<not> bit (x OR 7) 7"
    "(x OR 7) AND 0xFFFFF000 = x"
proof -
  note z = no_low_bits [OF assms]
  show "bit (x OR 7) 0" "bit (x OR 7) 2" "\<not> bit (x OR 7) 7"
    using z by (simp_all add: bit_or_iff)
  have m: "(0xFFFFF000 :: u32) = NOT (mask 12)" by (simp add: mask_eq_exp_minus_1)
  have "x OR 7 = x OR mask 3" by (simp add: mask_eq_exp_minus_1)
  moreover have "(x OR mask 3) AND NOT (mask 12) = x"
    using z by (intro bit_word_eqI) (auto simp: bit_simps intro: leI)
  ultimately show "(x OR 7) AND 0xFFFFF000 = x" by (simp only: m)
qed

section \<open>The tables after initialisation\<close>

text \<open>The boot image: every array is zero and page-aligned.\<close>

definition boot_tables :: "'a paging_state_scheme \<Rightarrow> bool" where
  "boot_tables s \<longleftrightarrow> take_bit 12 (tables_at s) = 0 \<and> (\<forall>d i. directories s d i = 0) \<and> (\<forall>t i. tables s t i = 0)"

lemma aligned_add:
  assumes "take_bit 12 (x :: u32) = 0" "take_bit 12 y = 0"
  shows "take_bit 12 (x + y) = 0"
proof -
  have "4096 dvd unat x" "4096 dvd unat y"
    using assms unat_low [of 12 x] unat_low [of 12 y] by (simp_all add: mod_eq_0_iff_dvd)
  then have "unat (x + y) mod 4096 = 0"
    by (simp add: unat_word_ariths mod_mod_cancel mod_eq_0_iff_dvd)
  then show ?thesis by (simp add: word_unat_eq_iff unat_low)
qed

lemma tab_aligned: "take_bit 12 base = 0 \<Longrightarrow> take_bit 12 (tab_addr base t) = 0"
  by (cases t) (simp_all add: aligned_add)

lemma find_table: "find (\<lambda>t'. tab_addr base t' = tab_addr base t) all_ptabs = Some t"
  by (cases t) (simp_all add: all_ptabs_def)

lemma set_task_simps [simp]:
  "tables (set_task d t page s) = (tables s)(t := (tables s t)(VIDEO_MEM_LOCATION := VIDEO_MEM_PAGE_U))"
  "directories (set_task d t page s) = (directories s)(d := (directories s d)
      (0 := tab_addr (tables_at s) t OR USER_SUPERVISOR OR PRESENT OR MASK_RW, 1 := KERNEL_PTR, P_32 := page))"
  "tables_at (set_task d t page s) = tables_at s"
  "cr0 (set_task d t page s) = cr0 s" "cr4 (set_task d t page s) = cr4 s"
  "ram (set_task d t page s) = ram s" "user_pages (set_task d t page s) = user_pages s"
  "cr3 (set_task d t page s) = cr3 s"
  by (simp_all add: set_task_def)

lemma load_cr3_simps [simp]:
  "tables (load_cr3 c s) = tables s" "directories (load_cr3 c s) = directories s"
  "tables_at (load_cr3 c s) = tables_at s" "cr3 (load_cr3 c s) = c"
  "cr0 (load_cr3 c s) = cr0 s" "cr4 (load_cr3 c s) = cr4 s"
  "user_pages (load_cr3 c s) = (user_pages s)(cr3 s := ram s)"
  by (simp_all add: load_cr3_def Let_def)

lemma paging_init_regs:
  "cr3 (paging_init s) = dir_addr (tables_at s) page_directory"
  "cr0 (paging_init s) = cr0 s OR 0x80000000" "cr4 (paging_init s) = cr4 s OR 0x10"
  "user_pages (paging_init s) = (user_pages s)(cr3 s := ram s)"
  unfolding paging_init_def Let_def by (simp_all add: ENABLE_PAGING_def CR4_PSE_def)

lemma paging_init_entries:
  assumes "\<forall>d i. directories s d i = 0" "\<forall>t i. tables s t i = 0"
  shows "directories (paging_init s) d i =
      (if i = 0 then tab_addr (tables_at s) (dir_table d) OR 7
       else if i = 1 then 0x00400183
       else if i = 32 \<and> d \<noteq> page_directory then frame d OR 0x87 else 0)"
    "tables (paging_init s) (dir_table d) i =
      (if i = 184 then if d = page_directory then 0x000B8005 else 0x000B8007 else 0)"
    "tables_at (paging_init s) = tables_at s"
  using assms unfolding paging_init_def Let_def
  by (cases d; simp add: clear_entries_def paging_consts)+

lemma join_offset:
  assumes "take_bit 22 (f :: u32) = 0" "drop_bit 22 a = k"
  shows "f OR (a AND 0x3FFFFF) = f + (a - push_bit 22 k)"
  using join_page [OF assms(1), of a] window_offset [OF assms(2)] by (simp add: low_masks flip: take_bit_eq_mask)

lemma user_entry:
  assumes "d \<noteq> page_directory"
  shows "bit (frame d OR 0x87) 0" "bit (frame d OR 0x87) 2" "bit (frame d OR 0x87) 7"
    "(frame d OR 0x87) AND 0xFFC00000 = frame d" "take_bit 22 (frame d) = 0"
  using assms by (cases d; simp add: take_bit_eq_mod)+

lemma boot_entries:
  assumes "boot_tables s"
  shows "take_bit 12 (tables_at s) = 0" "\<forall>d i. directories s d i = 0" "\<forall>t i. tables s t i = 0"
  using assms by (simp_all add: boot_tables_def)

lemmas init_entries = paging_init_entries [OF boot_entries(2,3)]

lemma translate_window:
  assumes "boot_tables s" "drop_bit 22 a = 32"
  shows "translate (paging_init s) d a =
    (if d = page_directory then None else Some (frame d + (a - 0x08000000), True))"
  using assms(2) user_entry [of d] join_offset [of "frame d" a 32] init_entries [OF assms(1) assms(1)]
  by (simp add: translate_def)

lemma translate_kernel:
  assumes "boot_tables s" "drop_bit 22 a = 1"
  shows "translate (paging_init s) d a = Some (a, False)"
proof -
  have "0x400000 OR (a AND 0x3FFFFF) = a"
    using join_offset [of "0x400000" a 1] assms(2) by (simp add: take_bit_eq_mod)
  then show ?thesis using assms(2) init_entries [OF assms(1) assms(1)] by (simp add: translate_def)
qed

lemma translate_low:
  assumes "boot_tables s" "drop_bit 22 a = 0"
  shows "translate (paging_init s) d a = (if 0xB8000 \<le> a \<and> a < 0xB9000 then Some (a, True) else None)"
proof -
  let ?t = "dir_table d" and ?p = "paging_init s"
  note e = init_entries [OF assms(1) assms(1)]
  note te = table_entry [OF tab_aligned [OF boot_entries(1) [OF assms(1)]]]
  have "table_at ?p (directories ?p d 0 AND 0xFFFFF000) = Some (tables ?p ?t)"
    by (simp add: e(1) te(4) table_at_def e(3) find_table)
  then have tr: "translate ?p d a =
      (let pte = tables ?p ?t (unat (drop_bit 12 a AND 0x3FF))
       in if \<not> bit pte 0 then None else Some ((pte AND 0xFFFFF000) OR (a AND 0xFFF), bit pte 2))"
    using assms(2) te by (simp add: translate_def e(1) Let_def)
  have a: "a < 0x400000" using assms(2) by (simp add: page_index)
  show ?thesis
  proof (cases "0xB8000 \<le> a \<and> a < 0xB9000")
    case True
    then have "drop_bit 12 a = 0xB8"
      by (auto simp only: word_le_nat_alt word_less_nat_alt word_unat_eq_iff unat_drop) auto
    then have "0xB8000 OR (a AND 0xFFF) = a"
      using bits_ident [of 12 a] join_page [of 12 "0xB8000" a]
      by (simp add: low_masks take_bit_eq_mod flip: take_bit_eq_mask)
    then show ?thesis using True table_index(2) [OF a] by (simp add: tr e(2))
  next
    case False
    then show ?thesis using table_index(2) [OF a] by (auto simp: tr e(2))
  qed
qed

lemma translate_init:
  assumes "boot_tables s"
  shows "translate (paging_init s) d a =
    (if 0x08000000 \<le> a \<and> a < 0x08400000 \<and> d \<noteq> page_directory then Some (frame d + (a - 0x08000000), True)
     else if 0x00400000 \<le> a \<and> a < 0x00800000 then Some (a, False)
     else if 0xB8000 \<le> a \<and> a < 0xB9000 then Some (a, True) else None)"
proof -
  have video: "a < 0x00400000" if "a < 0xB9000"
    using that by (simp add: word_less_nat_alt)
  consider (window) "drop_bit 22 a = 32" | (kernel) "drop_bit 22 a = 1" | (low) "drop_bit 22 a = 0"
    | (other) "drop_bit 22 a \<noteq> 32" "drop_bit 22 a \<noteq> 1" "drop_bit 22 a \<noteq> 0" by blast
  then show ?thesis
  proof cases
    case window
    then show ?thesis using translate_window [OF assms window] video page_index [of a] by auto
  next
    case kernel
    then show ?thesis using translate_kernel [OF assms kernel] page_index [of a] by auto
  next
    case low
    then show ?thesis using translate_low [OF assms low] page_index [of a] by auto
  next
    case other
    then have "unat (drop_bit 22 a) \<noteq> 32" "unat (drop_bit 22 a) \<noteq> 1" "unat (drop_bit 22 a) \<noteq> 0"
      by (simp_all add: word_unat_eq_iff)
    then have "translate (paging_init s) d a = None"
      by (simp add: init_entries [OF assms assms] translate_def)
    then show ?thesis using other video page_index [of a] by auto
  qed
qed

section \<open>One physical memory\<close>

text \<open>States whose tables are the ones \<open>paging_init\<close> built.\<close>

definition paged :: "'a paging_state_scheme \<Rightarrow> bool" where
  "paged s \<longleftrightarrow> (\<exists>s0 :: paging_state. boot_tables s0 \<and> directories s = directories (paging_init s0)
     \<and> tables s = tables (paging_init s0) \<and> tables_at s = tables_at s0)"

text \<open>The view \<open>ram\<close> and the windows set aside agree with a physical memory.\<close>

definition represents :: "'a paging_state_scheme \<Rightarrow> pdir \<Rightarrow> mem \<Rightarrow> bool" where
  "represents s d phys \<longleftrightarrow> cr3 s = dir_addr (tables_at s) d
     \<and> (\<forall>a pa u. translate s d a = Some (pa, u) \<longrightarrow> ram s a = phys pa)
     \<and> (\<forall>d' a pa u. d' \<noteq> d \<longrightarrow> 0x08000000 \<le> a \<longrightarrow> a < 0x08400000 \<longrightarrow> translate s d' a = Some (pa, u)
          \<longrightarrow> user_pages s (dir_addr (tables_at s) d') a = phys pa)"

lemma translate_paged:
  assumes "paged s"
  shows "translate s d a =
    (if 0x08000000 \<le> a \<and> a < 0x08400000 \<and> d \<noteq> page_directory then Some (frame d + (a - 0x08000000), True)
     else if 0x00400000 \<le> a \<and> a < 0x00800000 then Some (a, False)
     else if 0xB8000 \<le> a \<and> a < 0xB9000 then Some (a, True) else None)"
proof -
  obtain s0 :: paging_state where s0: "boot_tables s0" "directories s = directories (paging_init s0)"
    "tables s = tables (paging_init s0)" "tables_at s = tables_at s0"
    using assms by (auto simp: paged_def)
  have "tables_at (paging_init s0) = tables_at s0"
    by (rule init_entries(3) [OF s0(1) s0(1)])
  then have "translate s d a = translate (paging_init s0) d a"
    using s0(2-4) by (simp add: translate_def table_at_def Let_def)
  then show ?thesis by (simp only: translate_init [OF s0(1)])
qed

lemma dir_addr_inj: "dir_addr base d = dir_addr base d' \<longleftrightarrow> d = d'"
  by (cases d; cases d'; simp)

lemma frame_bounds: "d \<noteq> page_directory \<Longrightarrow> 0x800000 \<le> unat (frame d) \<and> unat (frame d) \<le> 0x2000000
   \<and> 0x400000 dvd unat (frame d)"
  by (cases d) simp_all

lemma frame_inj: "frame d = frame d' \<longleftrightarrow> d = d'"
  by (cases d; cases d'; simp)

lemma window_phys:
  assumes "0x08000000 \<le> a" "a < (0x08400000 :: u32)" "d \<noteq> page_directory"
  shows "unat (frame d + (a - 0x08000000)) = unat (frame d) + (unat a - 0x08000000)"
    "unat a - 0x08000000 < 0x400000"
proof -
  have b: "0x08000000 \<le> unat a" "unat a < 0x08400000" using assms by (simp_all add: word_le_nat_alt word_less_nat_alt)
  then have "unat (a - 0x08000000) = unat a - 0x08000000"
    using assms(1) by (simp add: unat_sub)
  moreover have "unat (frame d) + (unat a - 0x08000000) < 4294967296"
    using b frame_bounds [OF assms(3)] by linarith
  ultimately show "unat (frame d + (a - 0x08000000)) = unat (frame d) + (unat a - 0x08000000)"
    by (simp only: unat_word_ariths) simp
  show "unat a - 0x08000000 < 0x400000" using b by simp
qed

text \<open>Two user windows share no physical byte.\<close>

lemma windows_apart:
  assumes "0x08000000 \<le> a" "a < (0x08400000 :: u32)" "0x08000000 \<le> a'" "a' < (0x08400000 :: u32)"
    "d \<noteq> page_directory" "d' \<noteq> page_directory"
    and eq: "frame d + (a - 0x08000000) = frame d' + (a' - 0x08000000)"
  shows "d = d' \<and> a = a'"
proof -
  note p = window_phys [OF assms(1,2,5)] and p' = window_phys [OF assms(3,4,6)]
  have e: "unat (frame d) + (unat a - 0x08000000) = unat (frame d') + (unat a' - 0x08000000)"
    using p(1) p'(1) eq by simp
  moreover obtain n n' where n: "unat (frame d) = 0x400000 * n" "unat (frame d') = 0x400000 * n'"
    using frame_bounds [OF assms(5)] frame_bounds [OF assms(6)] by (elim conjE dvdE) blast
  moreover have "(0x400000 * k + o') div 0x400000 = k" if "o' < 0x400000" for k o' :: nat
    using that by simp
  ultimately have "n = n'" using p(2) p'(2) by metis
  then have "d = d'" using n by (metis frame_inj word_unat_eq_iff)
  with eq show ?thesis by simp
qed

lemma window_above:
  assumes "0x08000000 \<le> a" "a < (0x08400000 :: u32)" "d \<noteq> page_directory" "b < (0x00800000 :: u32)"
  shows "frame d + (a - 0x08000000) \<noteq> b"
proof
  assume "frame d + (a - 0x08000000) = b"
  then have "unat b = unat (frame d) + (unat a - 0x08000000)"
    using window_phys(1) [OF assms(1-3)] by simp
  then show False using assms(4) frame_bounds [OF assms(3)] by (simp add: word_less_nat_alt)
qed

lemma window_only:
  "0x08000000 \<le> (a :: u32) \<Longrightarrow> \<not> a < 0x00800000" "0x08000000 \<le> (a :: u32) \<Longrightarrow> \<not> a < 0xB9000"
  "(a :: u32) < 0xB9000 \<Longrightarrow> a < 0x00800000"
  by (simp_all add: word_le_nat_alt word_less_nat_alt)

lemma translate_cases:
  assumes "paged s" "translate s d a = Some (pa, u)"
  obtains (window) "0x08000000 \<le> a" "a < 0x08400000" "d \<noteq> page_directory" "pa = frame d + (a - 0x08000000)"
    | (shared) "\<not> (0x08000000 \<le> a \<and> a < 0x08400000)" "pa = a" "a < 0x00800000"
proof (cases "0x08000000 \<le> a \<and> a < 0x08400000")
  case True
  then have "\<not> (a < 0x00800000)" "\<not> a < 0xB9000" using window_only [of a] by blast+
  then show ?thesis
    using True assms(2) window unfolding translate_paged [OF assms(1)] by (simp split: if_split_asm)
next
  case False
  then have "translate s d a = (if 0x00400000 \<le> a \<and> a < 0x00800000 then Some (a, False)
      else if 0xB8000 \<le> a \<and> a < 0xB9000 then Some (a, True) else None)"
    unfolding translate_paged [OF assms(1)] by (simp only: if_False conj_assoc [symmetric] simp_thms)
  then have "pa = a" "a < 0x00800000"
    using assms(2) window_only(3) [of a] by (simp_all split: if_split_asm)
  with False shared show ?thesis by blast
qed

lemma translate_inj:
  assumes "paged s" "translate s d a = Some (pa, u)" "translate s e x = Some (pa, u')"
    and "0x08000000 \<le> x \<and> x < 0x08400000 \<or> d = e"
  shows "d = e \<and> x = a"
  using assms(1,3)
proof (cases rule: translate_cases)
  case window
  show ?thesis
    using assms(1,2)
  proof (cases rule: translate_cases)
    case window': window
    then show ?thesis
      using windows_apart [OF window(1,2) window'(1,2) window(3) window'(3)] window(4) by auto
  next
    case shared
    then show ?thesis using window_above [OF window(1-3), of a] window(4) by simp
  qed
next
  case shared
  then have de: "d = e" using assms(4) by blast
  show ?thesis
    using assms(1,2)
  proof (cases rule: translate_cases)
    case window
    then show ?thesis using window_above [OF window(1-3), of x] shared by simp
  next
    case shared': shared
    then show ?thesis using shared de by simp
  qed
qed

section \<open>Properties\<close>

text \<open>C31: after \<open>paging_init\<close> the seven address spaces have exactly these mappings: the kernel's
  4 to 8 MB to themselves, for the kernel only; the video page to itself; and in a task's
  space, the user window at 128 MB to the task's own 4 MB frame. Everything else faults, the
  null page included, and paging is on with the kernel's directory loaded.\<close>

theorem paging_init_maps:
  assumes "boot_tables s"
  shows "translate (paging_init s) d a =
      (if 0x08000000 \<le> a \<and> a < 0x08400000 \<and> d \<noteq> page_directory then Some (frame d + (a - 0x08000000), True)
       else if 0x00400000 \<le> a \<and> a < 0x00800000 then Some (a, False)
       else if 0xB8000 \<le> a \<and> a < 0xB9000 then Some (a, True) else None)
    \<and> cr3 (paging_init s) = dir_addr (tables_at s) page_directory \<and> bit (cr0 (paging_init s)) 31
    \<and> bit (cr4 (paging_init s)) 4"
proof -
  have "bit (0x80000000 :: u32) 31" "bit (0x10 :: u32) 4" by simp_all
  then have "bit (cr0 (paging_init s)) 31" "bit (cr4 (paging_init s)) 4"
    by (simp_all add: paging_init_regs bit_or_iff)
  then show ?thesis using translate_init [OF assms] paging_init_regs(1) [of s] by simp
qed

abbreviation paging_example :: paging_state where
  "paging_example \<equiv> \<lparr>ram = (\<lambda>_. 0), out_log = [], int_on = True, cr3 = 0, screen_x = 0, screen_y = 0,
     master_mask = 0xFF, slave_mask = 0xFF, intr_flag = 0, shift_flag = 0, alt_flag = 0, caps_flag = 0,
     ctrl_flag = 0, l_shift = 0, r_shift = 0, tables_at = 0x410000, directories = (\<lambda>_ _. 0),
     tables = (\<lambda>_ _. 0), cr0 = 0, cr4 = 0, user_pages = (\<lambda>_ _. 0)\<rparr>"

theorem paging_init_maps_witness:
  "translate (paging_init paging_example) task2_page_directory 0x08048000 = Some (0xC48000, True)"
  using paging_init_maps [of paging_example task2_page_directory "0x08048000"]
  by (simp add: boot_tables_def take_bit_eq_mod)

text \<open>C7: two different tasks share no memory they can reach through their user windows: what one
  reaches there, the other reaches at no address at all that user code may use.\<close>

theorem tasks_isolated:
  assumes "boot_tables s" "d \<noteq> d'" "0x08000000 \<le> a" "a < 0x08400000"
    and "translate (paging_init s) d a = Some (pa, True)" "translate (paging_init s) d' a' = Some (pa', True)"
  shows "pa \<noteq> pa'"
proof -
  have d: "d \<noteq> page_directory" "pa = frame d + (a - 0x08000000)"
    using assms(3-5) translate_init [OF assms(1), of d a] window_only [of a] by (auto split: if_splits)
  from assms(6) translate_init [OF assms(1), of d' a']
  consider "0x08000000 \<le> a'" "a' < 0x08400000" "d' \<noteq> page_directory" "pa' = frame d' + (a' - 0x08000000)"
    | "pa' < 0xB9000"
    by (auto split: if_splits)
  then show ?thesis
  proof cases
    case 1
    then show ?thesis using windows_apart [OF assms(3,4) 1(1,2) d(1) 1(3)] d(2) assms(2) by blast
  next
    case 2
    then have "pa' < 0x00800000" by (simp add: word_less_nat_alt)
    then show ?thesis using window_above [OF assms(3,4) d(1)] d(2) by blast
  qed
qed

theorem tasks_isolated_witness:
  "boot_tables paging_example
   \<and> translate (paging_init paging_example) task1_page_directory 0x08048000 = Some (0x848000, True)
   \<and> translate (paging_init paging_example) task2_page_directory 0x08048000 = Some (0xC48000, True)
   \<and> (0x848000 :: u32) \<noteq> 0xC48000"
proof -
  have b: "boot_tables paging_example" by (simp add: boot_tables_def take_bit_eq_mod)
  have t: "translate (paging_init paging_example) task1_page_directory 0x08048000 = Some (0x848000, True)"
    "translate (paging_init paging_example) task2_page_directory 0x08048000 = Some (0xC48000, True)"
    by (simp_all add: translate_init [OF b])
  have "(0x848000 :: u32) \<noteq> 0xC48000"
    by (rule tasks_isolated [OF b _ _ _ t]) simp_all
  with b t show ?thesis by simp
qed

text \<open>C28: reloading \<open>cr3\<close> and storing to a mapped address are, on the current view and the windows set
  aside, what they are on one physical memory: a reload changes nothing in it, a store changes
  the one byte the address translates to.\<close>

theorem load_cr3_refines:
  assumes "paged s" "represents s d phys"
  shows "represents (load_cr3 (dir_addr (tables_at s) d') s) d' phys
    \<and> (translate s d a = Some (pa, u) \<longrightarrow> represents (s\<lparr>ram := (ram s)(a := b)\<rparr>) d (phys(pa := b)))"
proof -
  let ?t = "load_cr3 (dir_addr (tables_at s) d') s" and ?u = "s\<lparr>ram := (ram s)(a := b)\<rparr>"
  have tr: "translate ?t e x = translate s e x" "translate ?u e x = translate s e x" for e x
    by (simp_all add: translate_def table_at_def Let_def)
  note p = translate_paged [OF assms(1)]
  have rep: "cr3 s = dir_addr (tables_at s) d" "translate s d x = Some (px, v) \<Longrightarrow> ram s x = phys px"
    "e \<noteq> d \<Longrightarrow> 0x08000000 \<le> x \<Longrightarrow> x < 0x08400000 \<Longrightarrow> translate s e x = Some (px, v) \<Longrightarrow>
     user_pages s (dir_addr (tables_at s) e) x = phys px" for e x px v
    using assms(2) by (auto simp: represents_def)
  have view: "((user_pages s)(cr3 s := ram s)) (dir_addr (tables_at s) e) x = phys px"
    if "0x08000000 \<le> x" "x < 0x08400000" "translate s e x = Some (px, v)" for e x px v
    using that rep(2,3) by (auto simp: rep(1) dir_addr_inj)
  have "ram ?t x = phys px" if "translate s d' x = Some (px, v)" for x px v
  proof (cases "0x08000000 \<le> x \<and> x < 0x08400000")
    case True
    then show ?thesis using view that by (simp add: load_cr3_def Let_def)
  next
    case False
    then have "translate s d x = Some (px, v)" using that unfolding translate_paged [OF assms(1)] by auto
    with False rep(2) show ?thesis by (auto simp: load_cr3_def Let_def)
  qed
  then have "represents ?t d' phys"
    unfolding represents_def tr load_cr3_simps using view by blast
  moreover have "represents ?u d (phys(pa := b))" if tra: "translate s d a = Some (pa, u)"
    unfolding represents_def tr
  proof (intro conjI allI impI)
    fix x px v
    assume "translate s d x = Some (px, v)"
    then show "ram ?u x = (phys(pa := b)) px"
      using tra translate_inj [OF assms(1) tra, of d x v] rep(2) by auto
  next
    fix e x px v
    assume "e \<noteq> d" "0x08000000 \<le> x" "x < 0x08400000" "translate s e x = Some (px, v)"
    then show "user_pages ?u (dir_addr (tables_at ?u) e) x = (phys(pa := b)) px"
      using translate_inj [OF assms(1) tra, of e x v] rep(3) by auto
  qed (simp add: rep(1))
  ultimately show ?thesis by blast
qed

theorem load_cr3_refines_witness:
  "represents (load_cr3 (dir_addr 0x410000 task1_page_directory) (paging_init paging_example))
     task1_page_directory (\<lambda>_. 0)"
proof -
  have b: "boot_tables paging_example" by (simp add: boot_tables_def take_bit_eq_mod)
  then have p: "paged (paging_init paging_example)"
    unfolding paged_def using init_entries(3) [OF b b] by (intro exI [of _ paging_example]) simp
  have z: "ram (paging_init paging_example) = (\<lambda>_. 0)"
    "user_pages (paging_init paging_example) = (\<lambda>_ _. 0)"
    unfolding paging_init_regs by (simp_all add: fun_eq_iff) (simp add: paging_init_def Let_def load_cr3_def)
  have "represents (paging_init paging_example) page_directory (\<lambda>_. 0)"
    unfolding represents_def z using init_entries(3) [OF b b] by (simp add: paging_init_regs)
  then show ?thesis
    using load_cr3_refines [OF p, of page_directory "\<lambda>_. 0" task1_page_directory 0 0 False 0]
      init_entries(3) [OF b b] by simp
qed

end
