(* ===== verification/FileSys.thy ===== *)
theory FileSys
  imports Paging
begin

unbundle bit_operations_syntax

text \<open>
  The read-only file system, \<^verbatim>\<open>student-distrib/filesystem.c\<close>, and the process control block of
  \<^verbatim>\<open>systemcalls.h\<close>, whose file array and directory entries it uses. The disk image is the
  memory at \<open>BOOT_BLOCK_PTR\<close>: a boot block with the directory, a 4 KB block for every inode,
  then the data blocks. Pointers to file operations are names of the tables they point to.
  Names are read from the object the pointer points into (\<open>fm\<close>), file data always through
  \<open>ram\<close>.
\<close>

section \<open>State\<close>

record dentry_t =
  file_name :: "u8 list"
  file_type :: u32
  inode_number :: u32
  d_reserved :: "u8 list"

datatype fops_t = NULL_fops | rtc_fops | terminal_fops | filesystem_fops

record file_struct_t =
  fops_ptr :: fops_t
  inode_ptr :: u32
  fpos :: u32
  flags :: u32

record pcb_t =
  prev_pcb :: u32
  pcb_esp :: u32
  pcb_eip :: u32
  pcb_ebp :: u32
  pcb_cr3 :: u32
  parent_pid :: u32
  file_struct :: "file_struct_t list"
  dentries :: "dentry_t list"
  cmd_name :: "u8 list"
  arg_name :: "u8 list"
  data_arg_size :: u8

record fs_t =
  num_dir_entries :: u32
  num_inodes :: u32
  num_data_blocks :: u32
  dentry_begin :: u32
  data_start :: u32

record fs_state = paging_state +
  filesystem :: fs_t
  BOOT_BLOCK_PTR :: u32
  pc :: u32
  fd_val :: nat
  fd_index :: nat
  new_pid :: u32
  dentry1 :: dentry_t
  pcblock :: pcb_t

definition MAX_FILE :: nat where "MAX_FILE = 62"
definition ONE_BLOCK_SIZE :: u32 where "ONE_BLOCK_SIZE = 4096"
definition PROGRAM_IMG :: u32 where "PROGRAM_IMG = 0x08048000"

text \<open>\<open>NEW_LOAD\<close> is \<open>0x600000 + 0x1000 * 5\<close>, here after the cast to a byte pointer.\<close>

definition NEW_LOAD :: u32 where "NEW_LOAD = 0x605000"

text \<open>Updating one entry of the arrays in the control block.\<close>

definition upd_file :: "nat \<Rightarrow> (file_struct_t \<Rightarrow> file_struct_t) \<Rightarrow> 'a fs_state_scheme \<Rightarrow> 'a fs_state_scheme" where
  "upd_file fd f s =
     s\<lparr>pcblock := (pcblock s)\<lparr>file_struct := (file_struct (pcblock s))[fd := f (file_struct (pcblock s) ! fd)]\<rparr>\<rparr>"

definition upd_dentry :: "nat \<Rightarrow> (dentry_t \<Rightarrow> dentry_t) \<Rightarrow> 'a fs_state_scheme \<Rightarrow> 'a fs_state_scheme" where
  "upd_dentry fd f s =
     s\<lparr>pcblock := (pcblock s)\<lparr>dentries := (dentries (pcblock s))[fd := f (dentries (pcblock s) ! fd)]\<rparr>\<rparr>"

section \<open>Operations\<close>

definition init_fs :: "'a fs_state_scheme \<Rightarrow> 'a fs_state_scheme" where
  "init_fs s =
     (let b = BOOT_BLOCK_PTR s
      in s\<lparr>filesystem := \<lparr>num_dir_entries = ld32 (ram s) b, num_inodes = ld32 (ram s) (b + 4),
             num_data_blocks = ld32 (ram s) (b + 8), dentry_begin = b + 64,
             data_start = b + (ld32 (ram s) (b + 4) + 1) * 4096\<rparr>, pc := 0\<rparr>)"

text \<open>\<open>memcpy(dentry, a, B_40)\<close>: all of a directory entry but its reserved bytes.\<close>

definition load_dentry :: "mem \<Rightarrow> u32 \<Rightarrow> dentry_t \<Rightarrow> dentry_t" where
  "load_dentry m a d = d\<lparr>file_name := rd m a 32, file_type := ld32 m (a + 32), inode_number := ld32 m (a + 36)\<rparr>"

text \<open>The loop of \<open>read_dentry_by_name\<close> from entry \<open>i\<close> on, with the entry it finds. The local copy of
  the name is the entry's first 32 bytes in an object of its own.\<close>

fun find_name :: "mem \<Rightarrow> u32 \<Rightarrow> mem \<Rightarrow> u32 \<Rightarrow> nat list \<Rightarrow> nat option" where
  "find_name fm fname m begin [] = None"
| "find_name fm fname m begin (i # is) =
     (if strncmp fm fname (wr (\<lambda>_. 0) 0 (rd m (begin + of_nat (i * 64)) 32)) 0 32 = 0 then Some i
      else find_name fm fname m begin is)"

definition read_dentry_by_name :: "mem \<Rightarrow> u32 \<Rightarrow> dentry_t \<Rightarrow> 'a fs_state_scheme \<Rightarrow> int \<times> dentry_t" where
  "read_dentry_by_name fm fname d s =
     (case find_name fm fname (ram s) (dentry_begin (filesystem s)) [0..<MAX_FILE] of
        None \<Rightarrow> (-1, d)
      | Some i \<Rightarrow> (0, load_dentry (ram s) (dentry_begin (filesystem s) + of_nat (i * 64)) d))"

text \<open>\<open>inode_num\<close> is the first byte of the directory plus \<open>i * 64 + 36\<close>: the dereference binds
  tighter than the sum.\<close>

definition read_dentry_by_index :: "u32 \<Rightarrow> dentry_t \<Rightarrow> 'a fs_state_scheme \<Rightarrow> int \<times> dentry_t" where
  "read_dentry_by_index index d s =
     (let b = dentry_begin (filesystem s)
      in case find (\<lambda>i. ucast (ram s b) + of_nat (i * 64) + 36 = index) [0..<MAX_FILE] of
           None \<Rightarrow> (-1, d)
         | Some i \<Rightarrow> (0, load_dentry (ram s) (b + of_nat (i * 64)) d))"

text \<open>The loop of \<open>read_data\<close>.\<close>

function read_blocks :: "fs_t \<Rightarrow> u32 \<Rightarrow> u32 \<Rightarrow> u32 \<Rightarrow> bool \<Rightarrow> u32 \<Rightarrow> u32 \<Rightarrow> u32 \<Rightarrow> mem \<Rightarrow> mem" where
  "read_blocks fs inode_p offset buf index_flag i left bufholder m =
     (if left = 0 then m
      else
        let index = offset mod ONE_BLOCK_SIZE;
            block_num = ld32 m (inode_p + (i + 1) * 4);
            block_p8tr = data_start fs + block_num * 4096
        in if index_flag then
             if index + left \<le> ONE_BLOCK_SIZE then memcpy m buf (block_p8tr + index) left
             else read_blocks fs inode_p offset buf False (i + 1) (left - (ONE_BLOCK_SIZE - index))
                    (bufholder + (ONE_BLOCK_SIZE - index))
                    (memcpy m bufholder (block_p8tr + index) (ONE_BLOCK_SIZE - index))
           else if left \<ge> ONE_BLOCK_SIZE then
             let m' = memcpy m bufholder block_p8tr ONE_BLOCK_SIZE;
                 left' = left - (ONE_BLOCK_SIZE - index);
                 bufholder' = bufholder + (ONE_BLOCK_SIZE - index)
             in if left' < ONE_BLOCK_SIZE then memcpy m' bufholder' block_p8tr left'
                else read_blocks fs inode_p offset buf False (i + 1) left' bufholder' m'
           else memcpy m bufholder block_p8tr left)"
  by pat_completeness auto

text \<open>Every round takes at least one byte off \<open>left\<close>.\<close>

lemma left_decreases:
  assumes "ONE_BLOCK_SIZE \<le> (left :: u32) \<or> \<not> offset mod ONE_BLOCK_SIZE + left \<le> ONE_BLOCK_SIZE"
  shows "unat (left - (ONE_BLOCK_SIZE - offset mod ONE_BLOCK_SIZE)) < unat left"
proof -
  have i: "unat (offset mod ONE_BLOCK_SIZE) < 4096" by (simp add: ONE_BLOCK_SIZE_def unat_mod)
  then have d: "unat (ONE_BLOCK_SIZE - offset mod ONE_BLOCK_SIZE) = 4096 - unat (offset mod ONE_BLOCK_SIZE)"
    by (subst unat_sub) (simp_all add: word_le_nat_alt ONE_BLOCK_SIZE_def)
  have "4096 - unat (offset mod ONE_BLOCK_SIZE) \<le> unat left"
  proof (rule ccontr)
    assume "\<not> ?thesis"
    with i have less: "unat (offset mod ONE_BLOCK_SIZE) + unat left < 4096" by linarith
    then have "unat (offset mod ONE_BLOCK_SIZE + left) < 4096" by (simp add: unat_word_ariths)
    with less assms show False by (simp add: word_le_nat_alt ONE_BLOCK_SIZE_def)
  qed
  then show ?thesis using d i by (simp add: unat_sub word_le_nat_alt)
qed

termination read_blocks
  by (relation "measure (\<lambda>(fs, inode_p, offset, buf, index_flag, i, left, bufholder, m). unat left)")
    (auto simp: left_decreases)

declare read_blocks.simps [simp del]

definition read_data :: "u32 \<Rightarrow> u32 \<Rightarrow> u32 \<Rightarrow> u32 \<Rightarrow> 'a fs_state_scheme \<Rightarrow> int \<times> 'a fs_state_scheme" where
  "read_data inode offset buf len s =
     (let s = s\<lparr>ram := wr (ram s) buf (replicate (unat len) 0)\<rparr>;
          inode_p = BOOT_BLOCK_PTR s + (inode + 1) * 4096;
          data_length = ld32 (ram s) inode_p
      in if offset \<ge> data_length then (0, s)
         else if inode \<ge> num_inodes (filesystem s) - 1 then (-1, s)
         else
           let rval = (if offset + len > data_length then data_length - offset else len);
               s = s\<lparr>ram := read_blocks (filesystem s) inode_p offset buf True (offset div ONE_BLOCK_SIZE)
                              rval buf (ram s)\<rparr>
           in (sint rval, upd_file (fd_val s) (\<lambda>f. f\<lparr>fpos := offset + rval\<rparr>) s))"

definition filesystem_open :: "mem \<Rightarrow> u32 \<Rightarrow> 'a fs_state_scheme \<Rightarrow> int \<times> 'a fs_state_scheme" where
  "filesystem_open fm filename s =
     (if strncmp fm filename (lit []) 0 1 \<noteq> 0 then
        let (r, d) = read_dentry_by_name fm filename (dentries (pcblock s) ! fd_val s) s
        in (r, upd_dentry (fd_val s) (\<lambda>_. d) s)
      else (-1, s))"

definition diropen :: "u32 \<Rightarrow> int" where "diropen filename = 0"
definition dirclose :: "nat \<Rightarrow> int" where "dirclose fd = 0"
definition dirwrite :: int where "dirwrite = -1"

definition filesystem_close :: "nat \<Rightarrow> 'a fs_state_scheme \<Rightarrow> int \<times> 'a fs_state_scheme" where
  "filesystem_close fd s =
     (let s = s\<lparr>fd_val := fd\<rparr>
      in if file_type (dentries (pcblock s) ! fd) = 1 then (dirclose fd, s)
         else if fd = 0 \<or> fd = 1 then (-1, s)
         else (0, upd_file fd (\<lambda>f. f\<lparr>flags := 0\<rparr>) s))"

text \<open>The loop of \<open>dirread\<close>: from position \<open>p\<close>, the entry it stops at and the position after it.\<close>

partial_function (option) next_entry :: "mem \<Rightarrow> u32 \<Rightarrow> u32 \<Rightarrow> (u32 \<times> u32) option" where
  "next_entry m begin p =
     (let currptr = begin + p * 64
      in if m (currptr + 32) = 0 then next_entry m begin (p + 1) else Some (currptr, p + 1))"

definition dirread :: "nat \<Rightarrow> u32 \<Rightarrow> 'a fs_state_scheme \<Rightarrow> (int \<times> 'a fs_state_scheme) option" where
  "dirread fd buf s =
     (let p = fpos (file_struct (pcblock s) ! fd)
      in if p \<ge> num_dir_entries (filesystem s) then Some (0, s)
         else Option.bind (next_entry (ram s) (dentry_begin (filesystem s)) p) (\<lambda>(currptr, p').
           let s = upd_file fd (\<lambda>f. f\<lparr>fpos := p'\<rparr>) s
           in Option.bind (strlen (ram s) currptr) (\<lambda>n.
                let s = s\<lparr>ram := memcpy (ram s) buf currptr n\<rparr>
                in map_option (\<lambda>k. (sint k, s)) (strlen (ram s) currptr))))"

definition filesystem_read :: "nat \<Rightarrow> u32 \<Rightarrow> int \<Rightarrow> 'a fs_state_scheme \<Rightarrow> (int \<times> 'a fs_state_scheme) option" where
  "filesystem_read fd buf nbytes s =
     (let s = s\<lparr>fd_val := fd\<rparr>
      in if file_type (dentries (pcblock s) ! fd) = 1 then dirread fd buf s
         else Some (read_data (inode_number (dentries (pcblock s) ! fd)) (fpos (file_struct (pcblock s) ! fd))
                      buf (of_int nbytes) s))"

definition filesystem_write :: "nat \<Rightarrow> u32 \<Rightarrow> int \<Rightarrow> 's \<Rightarrow> int \<times> 's" where
  "filesystem_write fd buf nbytes s = (-1, s)"

text \<open>Switching to the directory of the new task, and the count of running programs, which the
  shells of terminals 2 and 3 (tasks 2 and 3) do not enter.\<close>

definition load_task :: "'a fs_state_scheme \<Rightarrow> 'a fs_state_scheme" where
  "load_task s =
     (let go = (\<lambda>d. load_cr3 (dir_addr (tables_at s) d) s)
      in if new_pid s = 1 then (go task1_page_directory)\<lparr>pc := pc s + 1\<rparr>
         else if new_pid s = 2 then go task2_page_directory
         else if new_pid s = 3 then go task3_page_directory
         else if new_pid s = 4 then (go task4_page_directory)\<lparr>pc := pc s + 1\<rparr>
         else if new_pid s = 5 then (go task5_page_directory)\<lparr>pc := pc s + 1\<rparr>
         else if new_pid s = 6 then (go task6_page_directory)\<lparr>pc := pc s + 1\<rparr>
         else s)"

definition loader :: "mem \<Rightarrow> u32 \<Rightarrow> 'a fs_state_scheme \<Rightarrow> int \<times> 'a fs_state_scheme" where
  "loader fm filename s =
     (let (r, d) = read_dentry_by_name fm filename (dentry1 s) s
      in if r = -1 then (-1, s)
         else
           let s = s\<lparr>dentry1 := d\<rparr>;
               inode = inode_number (dentry1 s);
               inode_p = BOOT_BLOCK_PTR s + (inode + 1) * 4096;
               data_length = ld32 (ram s) inode_p
           in if data_length < 4 then (-1, s)
              else
                let block_num = ld32 (ram s) (inode_p + 4);
                    block_p = data_start (filesystem s) + block_num * 4096;
                    buf = rd (ram s) block_p 4
                in if buf ! 0 = 0x7f \<and> buf ! 1 = 0x45 \<and> buf ! 2 = 0x4c \<and> buf ! 3 = 0x46 then
                     let data_buf = NEW_LOAD;
                         (_, s) = read_data inode 0 data_buf data_length s;
                         m = ram s;
                         eip = push_bit 24 (ucast (m (data_buf + 27))) OR push_bit 16 (ucast (m (data_buf + 26)))
                           OR push_bit 8 (ucast (m (data_buf + 25))) OR ucast (m (data_buf + 24)) :: u32;
                         s = load_task s;
                         s = s\<lparr>ram := memcpy (ram s) PROGRAM_IMG data_buf data_length\<rparr>
                     in (sint eip, s)
                   else (-1, s))"

section \<open>A small disk image\<close>

text \<open>Two files: \<open>a\<close> (inode 0), an executable of 28 bytes, and a file with a name of 32 characters
  (inode 1) of 8200 bytes.\<close>

definition disk :: mem where
  "disk = (wr (\<lambda>_. 0) 0x410080 (replicate 32 0x62))(0x410000 := 2, 0x410004 := 3, 0x410008 := 3,
     0x410040 := 0x61, 0x410060 := 2, 0x4100A0 := 2, 0x4100A4 := 1,
     0x411000 := 28, 0x412000 := 8, 0x412001 := 0x20, 0x412008 := 1, 0x41200C := 2,
     0x414000 := 0x7f, 0x414001 := 0x45, 0x414002 := 0x4c, 0x414003 := 0x46,
     0x414018 := 0x74, 0x414019 := 0x80, 0x41401A := 4, 0x41401B := 8)"

definition empty_file :: file_struct_t where
  "empty_file = \<lparr>fops_ptr = NULL_fops, inode_ptr = 0, fpos = 0, flags = 0\<rparr>"

definition empty_dentry :: dentry_t where
  "empty_dentry = \<lparr>file_name = replicate 32 0, file_type = 0, inode_number = 0, d_reserved = replicate 24 0\<rparr>"

definition empty_pcb :: pcb_t where
  "empty_pcb = \<lparr>prev_pcb = 0, pcb_esp = 0, pcb_eip = 0, pcb_ebp = 0, pcb_cr3 = 0, parent_pid = 0,
     file_struct = replicate 8 empty_file, dentries = replicate 8 empty_dentry,
     cmd_name = replicate 40 0, arg_name = replicate 40 0, data_arg_size = 0\<rparr>"

definition fs_example :: fs_state where
  "fs_example = \<lparr>ram = disk, out_log = [], int_on = True, cr3 = 0x400000, screen_x = 0, screen_y = 0,
     master_mask = 0xFF, slave_mask = 0xFF, intr_flag = 0, shift_flag = 0, alt_flag = 0, caps_flag = 0,
     ctrl_flag = 0, l_shift = 0, r_shift = 0, tables_at = 0x400000, directories = (\<lambda>_ _. 0),
     tables = (\<lambda>_ _. 0), cr0 = 0, cr4 = 0, user_pages = (\<lambda>_ _. 0),
     filesystem = \<lparr>num_dir_entries = 2, num_inodes = 3, num_data_blocks = 3, dentry_begin = 0x410040,
       data_start = 0x414000\<rparr>,
     BOOT_BLOCK_PTR = 0x410000, pc = 0, fd_val = 0, fd_index = 2, new_pid = 1, dentry1 = empty_dentry,
     pcblock = empty_pcb\<rparr>"

lemma fs_example_simps [simp]:
  "ram fs_example = disk" "BOOT_BLOCK_PTR fs_example = 0x410000" "fd_val fs_example = 0"
  "num_inodes (filesystem fs_example) = 3" "num_data_blocks (filesystem fs_example) = 3"
  "dentry_begin (filesystem fs_example) = 0x410040" "data_start (filesystem fs_example) = 0x414000"
  "num_dir_entries (filesystem fs_example) = 2" "new_pid fs_example = 1" "dentry1 fs_example = empty_dentry"
  "pcblock fs_example = empty_pcb"
  by (simp_all add: fs_example_def)

end
