(* ===== verification/Terminal.thy ===== *)
theory Terminal
  imports FileSys
begin

unbundle bit_operations_syntax

text \<open>
  The terminal, \<^verbatim>\<open>student-distrib/terminal.c\<close>, as a device: the hardware cursor, the line buffer,
  and the file operations that read a line and write text with scrolling. Switching between
  terminals and the handling of keys, which can start programs, are in \<open>Switch\<close>. The local
  variables that a path leaves unassigned (\<open>i\<close> in \<open>write_helper\<close>, \<open>ret_val\<close> in \<open>read_helper\<close>)
  are parameters \<open>junk\<close>.
\<close>

section \<open>State\<close>

record terminal_t =
  t_linebuffer :: "u8 list"
  pos_x :: int
  pos_y :: int
  t_counter :: int
  t_esp :: u32
  t_ebp :: u32
  kernel_esp :: u32
  t_cr3 :: u32
  t_file_struct :: "file_struct_t list"

record term_state = fs_state +
  text_buf :: "u8 list"
  counter :: u32
  entered :: int
  cur_terminal :: int
  term2_flag :: int
  term3_flag :: int
  term_pcb :: pcb_t
  terminals :: "terminal_t list"
  term2_press :: int
  term3_press :: int

definition WIDTH :: nat where "WIDTH = 80"
definition HEIGHT :: nat where "HEIGHT = 25"
definition LOW_CURSOR_PORT :: u32 where "LOW_CURSOR_PORT = 0x0F"
definition HIGH_CURSOR_PORT :: u32 where "HIGH_CURSOR_PORT = 0x0E"
definition CURSOR_MASK :: u32 where "CURSOR_MASK = 0xFF"
definition VGA_CMD :: u32 where "VGA_CMD = 0x3D4"
definition VGA_DATA :: u32 where "VGA_DATA = 0x3D5"
definition BUF_MAX :: nat where "BUF_MAX = 128"
definition MEM_4KB :: u32 where "MEM_4KB = 0x1000"
definition V_MEM_ADDR :: u32 where "V_MEM_ADDR = 0xB8000"

text \<open>
  \<open>(uint32_t*)TERM2\<close> expands to \<open>(uint32_t*)MEM_6MB + MEM_4KB\<close>: the sum is one of pointers to
  words, four times as far from 6 MB as the macro's value.
\<close>

definition TERM1 :: u32 where "TERM1 = 0x600000"
definition TERM2 :: u32 where "TERM2 = 0x600000 + 4 * 0x1000"
definition TERM3 :: u32 where "TERM3 = 0x600000 + 4 * (0x1000 * 2)"

lemmas term_consts = WIDTH_def HEIGHT_def LOW_CURSOR_PORT_def HIGH_CURSOR_PORT_def CURSOR_MASK_def
  VGA_CMD_def VGA_DATA_def BUF_MAX_def MEM_4KB_def V_MEM_ADDR_def TERM1_def TERM2_def TERM3_def

section \<open>Operations\<close>

definition set_cursor :: "int \<Rightarrow> int \<Rightarrow> 'a lib_state_scheme \<Rightarrow> 'a lib_state_scheme" where
  "set_cursor x y s =
     (let position = of_int (y * int WIDTH + x) :: u32;
          s = outb LOW_CURSOR_PORT VGA_CMD s;
          s = outb (position AND CURSOR_MASK) VGA_DATA s;
          s = outb HIGH_CURSOR_PORT VGA_CMD s;
          s = outb (drop_bit 8 position AND CURSOR_MASK) VGA_DATA s
      in sety y (setx x s))"

definition terminal_open :: "u32 \<Rightarrow> 'a term_state_scheme \<Rightarrow> int \<times> 'a term_state_scheme" where
  "terminal_open filename s =
     (let s = s\<lparr>text_buf := replicate BUF_MAX 0, counter := 0\<rparr>;
          s = set_cursor 0 0 s;
          s = s\<lparr>term2_press := 0, term3_press := 0\<rparr>
      in (0, enable_irq 1 s))"

definition terminal_close :: "int \<Rightarrow> 'a pic_state_scheme \<Rightarrow> int \<times> 'a pic_state_scheme" where
  "terminal_close fd s = (-1, disable_irq 1 s)"

text \<open>The copy loop of \<open>read_helper\<close>: the buffer in memory and the position of the newline, if the
  loop met one.\<close>

fun copy_line :: "u8 list \<Rightarrow> u32 \<Rightarrow> nat list \<Rightarrow> mem \<Rightarrow> mem \<times> nat option" where
  "copy_line line buf [] m = (m, None)"
| "copy_line line buf (i # is) m =
     (let m = m(buf + of_nat i := line ! i)
      in if line ! i = 0x0A then (m, Some i) else copy_line line buf is m)"

definition read_helper :: "int \<Rightarrow> 'a term_state_scheme handler list \<Rightarrow> u32 \<Rightarrow> int
    \<Rightarrow> 'a term_state_scheme \<Rightarrow> (int \<times> 'a term_state_scheme) option" where
  "read_helper junk irqs buf len s =
     map_option (\<lambda>s.
       let (m, r) = copy_line (text_buf s) buf [0..<min (nat len) BUF_MAX] (ram s)
       in (case r of None \<Rightarrow> junk | Some i \<Rightarrow> int i, s\<lparr>ram := m, entered := 0\<rparr>))
     (await (\<lambda>s. entered s = 1) irqs s)"

definition terminal_read :: "int \<Rightarrow> 'a term_state_scheme handler list \<Rightarrow> int \<Rightarrow> u32 \<Rightarrow> int
    \<Rightarrow> 'a term_state_scheme \<Rightarrow> (int \<times> 'a term_state_scheme) option" where
  "terminal_read junk irqs fd buf len s =
     (if fd = 1 then Some (-1, s) else read_helper junk irqs buf len s)"

text \<open>The saved display, a row to a list.\<close>

definition saved_text :: "'a lib_state_scheme \<Rightarrow> u8 list list" where
  "saved_text s = map (\<lambda>i. map (\<lambda>j. get_char (int j) (int i) s) [0..<WIDTH]) [0..<HEIGHT]"

text \<open>The loop that prints row \<open>i\<close> of the saved display in row \<open>i - 1\<close>.\<close>

definition shift_rows :: "u8 list list \<Rightarrow> 'a lib_state_scheme \<Rightarrow> 'a lib_state_scheme" where
  "shift_rows text_hist s =
     fold (\<lambda>i s. fold putc (text_hist ! i) (set_cursor 0 (int i - 1) s)) [1..<HEIGHT] s"

text \<open>One round of the loop of \<open>write_helper\<close>, with the value it leaves in \<open>i\<close>.\<close>

definition write_char :: "('a lib_state_scheme \<Rightarrow> mem) \<Rightarrow> u32 \<Rightarrow> nat \<Rightarrow> int \<times> 'a lib_state_scheme
    \<Rightarrow> int \<times> 'a lib_state_scheme" where
  "write_char src buf k = (\<lambda>(i, s).
     let x = getx s;
         y = gety s;
         (i, s) = (if y \<ge> int HEIGHT - 1 then
                     let text_hist = (saved_text s)[HEIGHT - 1 := replicate WIDTH 32]
                     in (int HEIGHT, set_cursor 0 (int HEIGHT - 2) (shift_rows text_hist s))
                   else (i, s));
         c = src s (buf + of_nat k);
         s = (if c = 0 then s
              else if c = 0x0A then set_cursor 0 (gety s + 1) s
              else putc c s);
         s = (if x = int WIDTH \<and> src s (buf + of_nat k + 1) \<noteq> 0x0A then putc 0x0A s else s)
     in (i, s))"

definition write_helper :: "int \<Rightarrow> ('a lib_state_scheme \<Rightarrow> mem) \<Rightarrow> u32 \<Rightarrow> int
    \<Rightarrow> 'a lib_state_scheme \<Rightarrow> int \<times> 'a lib_state_scheme" where
  "write_helper junk src buf len s =
     (let s = cli s
      in if buf = 0 \<or> len < 0 then (-1, s)
         else let (i, s) = fold (write_char src buf) [0..<nat len] (junk, s);
                  s = set_cursor (getx s) (gety s) s
              in (i + 1, sti s))"

definition terminal_write :: "int \<Rightarrow> ('a lib_state_scheme \<Rightarrow> mem) \<Rightarrow> int \<Rightarrow> u32 \<Rightarrow> int
    \<Rightarrow> 'a lib_state_scheme \<Rightarrow> int \<times> 'a lib_state_scheme" where
  "terminal_write junk src fd buf len s =
     (if fd = 0 then (-1, s) else write_helper junk src buf len s)"

definition multi_init :: "'a machine_scheme \<Rightarrow> 'a machine_scheme" where
  "multi_init s =
     (let s = s\<lparr>ram := memcpy (ram s) TERM1 V_MEM_ADDR MEM_4KB\<rparr>;
          s = s\<lparr>ram := memcpy (ram s) TERM2 V_MEM_ADDR MEM_4KB\<rparr>
      in s\<lparr>ram := memcpy (ram s) TERM3 V_MEM_ADDR MEM_4KB\<rparr>)"

section \<open>The cursor stays on the screen\<close>

lemma set_cursor_eq:
  "set_cursor x y s = s\<lparr>out_log := [(0x3D5, ucast (drop_bit 8 (of_int (y * 80 + x) :: u32))), (0x3D4, 0x0E),
     (0x3D5, ucast (of_int (y * 80 + x) :: u32)), (0x3D4, 0x0F)] @ out_log s, screen_x := x, screen_y := y\<rparr>"
proof -
  have m: "(0xFF :: u32) = mask 8" by (simp add: mask_eq_exp_minus_1)
  have "ucast (w AND 0xFF :: u32) = (ucast w :: u8)" for w :: u32
    unfolding m by (rule bit_word_eqI) (auto simp: bit_simps)
  then show ?thesis
    by (simp add: set_cursor_def Let_def machine_defs setx_def sety_def term_consts)
qed

lemma set_cursor_simps [simp]:
  "screen_x (set_cursor x y s) = x" "screen_y (set_cursor x y s) = y" "ram (set_cursor x y s) = ram s"
  "int_on (set_cursor x y s) = int_on s" "lib_state.more (set_cursor x y s) = lib_state.more s"
  "cr3 (set_cursor x y s) = cr3 s" "get_char a b (set_cursor x y s) = get_char a b s"
  by (simp_all add: set_cursor_eq get_char_def)

text \<open>Operations that keep the cursor on the screen, touch only video memory, and leave the rest of
  the state alone.\<close>

definition console_step :: "'a lib_state_scheme \<Rightarrow> 'a lib_state_scheme \<Rightarrow> bool" where
  "console_step s t \<longleftrightarrow> on_screen (screen_x t) (screen_y t) \<and> int_on t = int_on s \<and> cr3 t = cr3 s
     \<and> lib_state.more t = lib_state.more s \<and> (\<forall>a. a \<notin> video_region \<longrightarrow> ram t a = ram s a)"

lemma console_trans: "console_step s t \<Longrightarrow> console_step t u \<Longrightarrow> console_step s u"
  by (simp add: console_step_def)

lemma console_set_cursor: "on_screen x y \<Longrightarrow> console_step s (set_cursor x y s)"
  by (simp add: console_step_def)

lemma console_putc:
  assumes "on_screen (screen_x s) (screen_y s)" "c \<noteq> 0x0A" "c \<noteq> 0x0D"
  shows "console_step s (putc c s)" "screen_y (putc c s) = screen_y s"
  using putc_char [OF assms] putc_ram_outside [OF assms(1), of _ c] assms(1)
  by (auto simp: console_step_def)

text \<open>No cell holds a character that \<open>putc\<close> would take for a line break.\<close>

definition plain_cells :: "'a lib_state_scheme \<Rightarrow> bool" where
  "plain_cells s \<longleftrightarrow> (\<forall>x y. on_screen x y \<longrightarrow> get_char x y s \<noteq> 0x0A \<and> get_char x y s \<noteq> 0x0D)"

definition plain_text :: "u8 list \<Rightarrow> bool" where
  "plain_text cs \<longleftrightarrow> 0x0A \<notin> set cs \<and> 0x0D \<notin> set cs"

lemma putc_cells:
  assumes "on_screen (screen_x s) (screen_y s)" "c \<noteq> 0x0A" "c \<noteq> 0x0D" "on_screen x y"
  shows "get_char x y (putc c s) = (if x = screen_x s \<and> y = screen_y s then c else get_char x y s)"
  using putc_char [OF assms(1-3)] cell_other [OF assms(1,4)] by (auto simp: get_char_def)

text \<open>Printing part of a row.\<close>

lemma putc_step:
  assumes "on_screen (screen_x s) (screen_y s)" "plain_text (c # cs)" "screen_x s + int (length (c # cs)) \<le> 80"
  shows "console_step s (putc c s)" "screen_y (putc c s) = screen_y s"
    "on_screen (screen_x (putc c s)) (screen_y (putc c s))"
    "cs = [] \<or> screen_x (putc c s) = screen_x s + 1"
    "screen_x (putc c s) + int (length cs) \<le> 80" "plain_text cs"
proof -
  have c: "c \<noteq> 0x0A" "c \<noteq> 0x0D" "plain_text cs" using assms(2) by (auto simp: plain_text_def)
  have x: "screen_x (putc c s) = (screen_x s + 1) mod 80" using putc_char [OF assms(1) c(1,2)] by simp
  show "console_step s (putc c s)" "screen_y (putc c s) = screen_y s" "plain_text cs"
    using console_putc [OF assms(1) c(1,2)] c(3) by simp_all
  then show "on_screen (screen_x (putc c s)) (screen_y (putc c s))" by (simp add: console_step_def)
  show n: "cs = [] \<or> screen_x (putc c s) = screen_x s + 1"
    using assms(1,3) x by (cases cs) auto
  show "screen_x (putc c s) + int (length cs) \<le> 80"
    using assms(1,3) n x by (cases cs) auto
qed

lemma nat_pred: "nat (x - y) - Suc 0 = nat (x - (y + 1))"
  by simp

lemma fold_putc_row_all:
  assumes "on_screen (screen_x s) (screen_y s)" "screen_x s + int (length cs) \<le> 80" "plain_text cs"
  shows "console_step s (fold putc cs s) \<and> screen_y (fold putc cs s) = screen_y s
    \<and> (\<forall>x y. on_screen x y \<longrightarrow> get_char x y (fold putc cs s) =
       (if y = screen_y s \<and> screen_x s \<le> x \<and> x < screen_x s + int (length cs)
        then cs ! nat (x - screen_x s) else get_char x y s))"
  using assms
proof (induction cs arbitrary: s)
  case Nil
  then show ?case by (auto simp: console_step_def)
next
  case (Cons c cs)
  note step = putc_step [OF Cons.prems(1,3,2)]
  have c: "c \<noteq> 0x0A" "c \<noteq> 0x0D" using Cons.prems(3) by (auto simp: plain_text_def)
  note IH = Cons.IH [OF step(3,5,6)]
  have "console_step s (fold putc (c # cs) s)"
    using console_trans [OF step(1)] IH by simp
  moreover have "screen_y (fold putc (c # cs) s) = screen_y s" using IH step(2) by simp
  moreover have "get_char x y (fold putc (c # cs) s) =
       (if y = screen_y s \<and> screen_x s \<le> x \<and> x < screen_x s + int (length (c # cs))
        then (c # cs) ! nat (x - screen_x s) else get_char x y s)" if xy: "on_screen x y" for x y
  proof (cases "cs = []")
    case True
    then show ?thesis using putc_cells [OF Cons.prems(1) c xy] by auto
  next
    case False
    then have "screen_x (putc c s) = screen_x s + 1" using step(4) by simp
    then show ?thesis
      using IH xy step(2) putc_cells [OF Cons.prems(1) c xy] by (auto simp: nth_Cons' nat_pred)
  qed
  ultimately show ?case by blast
qed

lemmas fold_putc_row = fold_putc_row_all [THEN conjunct1]
  fold_putc_row_all [THEN conjunct2, THEN conjunct1]
  fold_putc_row_all [THEN conjunct2, THEN conjunct2, rule_format]

section \<open>Scrolling\<close>

lemma plain_row: "plain_cells s \<Longrightarrow> i < 25 \<Longrightarrow> plain_text (saved_text s ! i)"
  by (auto simp: plain_cells_def plain_text_def saved_text_def term_consts)

lemma saved_cell: "i < 25 \<Longrightarrow> j < 80 \<Longrightarrow> saved_text s ! i ! j = get_char (int j) (int i) s"
  by (simp add: saved_text_def term_consts)

lemma saved_length: "length (saved_text s) = 25" "i < 25 \<Longrightarrow> length (saved_text s ! i) = 80"
  by (simp_all add: saved_text_def term_consts)

text \<open>Rows \<open>0\<close> to \<open>n - 1\<close> moved up.\<close>

lemma shift_some:
  assumes "\<forall>i<25. length (h ! i) = 80 \<and> plain_text (h ! i)" "on_screen (screen_x s) (screen_y s)" "n < 25"
  defines "t \<equiv> fold (\<lambda>i s. fold putc (h ! i) (set_cursor 0 (int i - 1) s)) [1..<Suc n] s"
  shows "console_step s t \<and> (\<forall>x y. on_screen x y \<longrightarrow>
    get_char x y t = (if y < int n then h ! nat (y + 1) ! nat x else get_char x y s))"
  using assms(3) unfolding t_def
proof (induction n)
  case 0
  then show ?case using assms(2) by (simp add: console_step_def)
next
  case (Suc n)
  let ?f = "\<lambda>i s. fold putc (h ! i) (set_cursor 0 (int i - 1) s)"
  let ?u = "fold ?f [1..<Suc n] s"
  let ?c = "set_cursor 0 (int n) ?u"
  have u: "console_step s ?u" "on_screen x y \<Longrightarrow>
      get_char x y ?u = (if y < int n then h ! nat (y + 1) ! nat x else get_char x y s)" for x y
    using Suc.IH Suc.prems by simp_all
  have c: "on_screen (screen_x ?c) (screen_y ?c)" "console_step ?u ?c"
    using Suc.prems by (simp_all add: console_step_def)
  have h: "length (h ! Suc n) = 80" "plain_text (h ! Suc n)" using assms(1) Suc.prems by simp_all
  have row: "console_step ?c (fold putc (h ! Suc n) ?c)"
    using fold_putc_row(1) [OF c(1) _ h(2)] h(1) by simp
  have cells: "get_char x y (fold putc (h ! Suc n) ?c) = (if y = int n then h ! Suc n ! nat x else get_char x y ?u)"
    if "on_screen x y" for x y
    using fold_putc_row(3) [OF c(1) _ h(2) that] h(1) that by simp
  have e: "fold ?f [1..<Suc (Suc n)] s = fold putc (h ! Suc n) ?c" by simp
  show ?case
  proof (intro conjI allI impI)
    show "console_step s (fold ?f [1..<Suc (Suc n)] s)"
      unfolding e using console_trans [OF u(1) console_trans [OF c(2) row]] .
    fix x y assume xy: "on_screen x y"
    have "nat (int n + 1) = Suc n" by simp
    then show "get_char x y (fold ?f [1..<Suc (Suc n)] s)
        = (if y < int (Suc n) then h ! nat (y + 1) ! nat x else get_char x y s)"
      unfolding e cells [OF xy] u(2) [OF xy] by auto
  qed
qed

text \<open>One scroll of \<open>write_helper\<close>.\<close>

definition scroll :: "'a lib_state_scheme \<Rightarrow> 'a lib_state_scheme" where
  "scroll s = set_cursor 0 23 (shift_rows ((saved_text s)[24 := replicate 80 32]) s)"

lemma scroll_run:
  assumes "plain_cells s" "on_screen (screen_x s) (screen_y s)"
  shows "console_step s (scroll s)" "screen_x (scroll s) = 0" "screen_y (scroll s) = 23"
    "on_screen x y \<Longrightarrow> get_char x y (scroll s)
      = (if y < 23 then get_char x (y + 1) s else if y = 23 then 0x20 else get_char x y s)"
proof -
  let ?h = "(saved_text s)[24 := replicate 80 32]"
  let ?t = "shift_rows ?h s"
  have "\<forall>i<25. length (?h ! i) = 80 \<and> plain_text (?h ! i)"
    using plain_row [OF assms(1)] saved_length [where s = s] by (auto simp: nth_list_update plain_text_def)
  then have t: "console_step s ?t" "\<And>x y. on_screen x y \<Longrightarrow>
      get_char x y ?t = (if y < 24 then ?h ! nat (y + 1) ! nat x else get_char x y s)"
    using shift_some [where h = ?h and s = s and n = 24] assms(2) unfolding shift_rows_def HEIGHT_def
    by (simp_all del: upt_rec_numeral)
  have "console_step ?t (scroll s)" by (simp add: scroll_def console_step_def)
  then show "console_step s (scroll s)" using console_trans [OF t(1)] by blast
  show "screen_x (scroll s) = 0" "screen_y (scroll s) = 23" by (simp_all add: scroll_def)
  assume xy: "on_screen x y"
  have "?h ! nat (y + 1) ! nat x = (if y = 23 then 0x20 else get_char x (y + 1) s)" if "y < 24"
  proof (cases "y = 23")
    case True
    then show ?thesis using xy saved_length [where s = s] by (simp add: nat_less_iff)
  next
    case False
    then have "?h ! nat (y + 1) = saved_text s ! nat (y + 1)" using xy that by simp
    then show ?thesis using False xy that saved_cell [of "nat (y + 1)" "nat x" s] by (simp add: nat_less_iff)
  qed
  then show "get_char x y (scroll s)
      = (if y < 23 then get_char x (y + 1) s else if y = 23 then 0x20 else get_char x y s)"
    using t(2) [OF xy] xy by (auto simp: scroll_def)
qed

section \<open>The display that text is written to\<close>

text \<open>
  The abstract display: 25 rows of 80 characters and the cursor. A character sent to it when the
  cursor is in the last row first moves the rows above up by one; a zero byte prints nothing; a
  line break moves to the start of the next row; any other character is put at the cursor, which
  moves right and from the end of the row back to its start.
\<close>

type_synonym display = "u8 list list \<times> int \<times> int"

definition roll :: "display \<Rightarrow> display" where
  "roll = (\<lambda>(rows, x, y). if y \<ge> 24 then (take 23 (tl rows) @ [replicate 80 0x20, rows ! 24], 0, 23) else (rows, x, y))"

definition print_char :: "u8 \<Rightarrow> display \<Rightarrow> display" where
  "print_char c = (\<lambda>(rows, x, y).
     if c = 0 then (rows, x, y)
     else if c = 0x0A \<or> c = 0x0D then (rows, 0, y + 1)
     else (rows[nat y := (rows ! nat y)[nat x := c]], (x + 1) mod 80, y))"

definition emit :: "u8 \<Rightarrow> display \<Rightarrow> display" where
  "emit c d = print_char c (roll d)"

definition display_of :: "'a lib_state_scheme \<Rightarrow> display" where
  "display_of s = (saved_text s, screen_x s, screen_y s)"

text \<open>States in which the terminal writes.\<close>

definition term_ok :: "'a lib_state_scheme \<Rightarrow> bool" where
  "term_ok s \<longleftrightarrow> plain_cells s \<and> on_screen (screen_x s) (screen_y s)"

lemma saved_text_eqI:
  assumes "length rows = 25" "\<And>i. i < 25 \<Longrightarrow> length (rows ! i) = 80"
    "\<And>i j. i < 25 \<Longrightarrow> j < 80 \<Longrightarrow> get_char (int j) (int i) t = rows ! i ! j"
  shows "saved_text t = rows"
proof (rule nth_equalityI)
  show "length (saved_text t) = length rows" using assms(1) by (simp add: saved_length)
  fix i assume "i < length (saved_text t)"
  then have i: "i < 25" by (simp add: saved_length)
  show "saved_text t ! i = rows ! i"
    by (rule nth_equalityI) (use assms i in \<open>simp_all add: saved_length saved_cell\<close>)
qed

lemma roll_refines:
  assumes "term_ok s"
  defines "t \<equiv> if screen_y s \<ge> 24 then scroll s else s"
  shows "console_step s t" "display_of t = roll (display_of s)" "term_ok t" "screen_y t < 24"
proof -
  have ok: "plain_cells s" "on_screen (screen_x s) (screen_y s)" using assms(1) by (simp_all add: term_ok_def)
  note run = scroll_run [OF ok]
  show step: "console_step s t" using run(1) ok(2) by (simp add: t_def console_step_def)
  show "screen_y t < 24" using run(3) by (simp add: t_def)
  have "saved_text (scroll s) = take 23 (tl (saved_text s)) @ [replicate 80 0x20, saved_text s ! 24]"
  proof (rule saved_text_eqI)
    show "length (take 23 (tl (saved_text s)) @ [replicate 80 0x20, saved_text s ! 24]) = 25"
      by (simp add: saved_length)
    fix i :: nat assume i: "i < 25"
    then consider "i < 23" | "i = 23" | "i = 24" by linarith
    note row = this
    show "length ((take 23 (tl (saved_text s)) @ [replicate 80 0x20, saved_text s ! 24]) ! i) = 80"
      using row by cases (simp_all add: nth_append saved_length nth_tl)
    fix j :: nat assume j: "j < 80"
    show "get_char (int j) (int i) (scroll s)
        = (take 23 (tl (saved_text s)) @ [replicate 80 0x20, saved_text s ! 24]) ! i ! j"
      using row run(4) [of "int j" "int i"] j
      by cases (simp_all add: nth_append saved_length nth_tl saved_cell add.commute)
  qed
  then show "display_of t = roll (display_of s)"
    using run(2,3) by (simp add: display_of_def roll_def t_def)
  have "get_char x y (scroll s) \<noteq> 0x0A \<and> get_char x y (scroll s) \<noteq> 0x0D" if "on_screen x y" for x y
    using run(4) [OF that] ok(1) that by (auto simp: plain_cells_def)
  then show "term_ok t" using step ok by (auto simp: term_ok_def plain_cells_def t_def console_step_def)
qed

lemma print_char_refines:
  fixes s :: "'a lib_state_scheme" and c :: u8
  assumes "term_ok s" "screen_y s < 24"
  defines "t \<equiv> if c = 0 then s else if c = 0x0A then set_cursor 0 (screen_y s + 1) s else putc c s"
  shows "console_step s t" "display_of t = print_char c (display_of s)" "term_ok t"
proof -
  have ok: "plain_cells s" "on_screen (screen_x s) (screen_y s)" using assms(1) by (simp_all add: term_ok_def)
  consider (same) "c = 0" | (newline) "c = 0x0A" | (return) "c = 0x0D" | (char) "c \<noteq> 0" "c \<noteq> 0x0A" "c \<noteq> 0x0D"
    by blast
  then have "console_step s t \<and> display_of t = print_char c (display_of s) \<and> plain_cells t"
  proof cases
    case same
    then show ?thesis using ok by (simp add: t_def console_step_def print_char_def display_of_def)
  next
    case newline
    then show ?thesis using ok assms(2)
      by (simp add: t_def console_step_def print_char_def display_of_def saved_text_def plain_cells_def)
  next
    case return
    then show ?thesis using ok assms(2)
      by (simp add: t_def console_step_def print_char_def display_of_def saved_text_def plain_cells_def
          putc_def get_char_def)
  next
    case char
    then have t: "t = putc c s" by (simp add: t_def)
    have "saved_text t = (saved_text s)[nat (screen_y s) := (saved_text s ! nat (screen_y s))[nat (screen_x s) := c]]"
    proof (rule saved_text_eqI)
      show "get_char (int j) (int i) t = (saved_text s)[nat (screen_y s) :=
          (saved_text s ! nat (screen_y s))[nat (screen_x s) := c]] ! i ! j" if "i < 25" "j < 80" for i j
        using putc_cells [OF ok(2) char(2,3), of "int j" "int i"] that ok(2)
        by (auto simp: t nth_list_update saved_length saved_cell nat_eq_iff)
    qed (use ok(2) in \<open>auto simp: saved_length nth_list_update\<close>)
    moreover have "plain_cells t"
      using putc_cells [OF ok(2) char(2,3)] ok(1) char by (auto simp: plain_cells_def t)
    ultimately show ?thesis
      using console_putc [OF ok(2) char(2,3)] putc_char [OF ok(2) char(2,3)] char
      by (simp add: t display_of_def print_char_def)
  qed
  then show "console_step s t" "display_of t = print_char c (display_of s)" "term_ok t"
    by (simp_all add: term_ok_def console_step_def)
qed

text \<open>
  Where the text lies: \<open>src\<close> reads it from the state. It is steady if writing to the display does not
  change it, as for text outside video memory and for a constant of the kernel.
\<close>

definition steady :: "('a lib_state_scheme \<Rightarrow> mem) \<Rightarrow> u32 \<Rightarrow> nat \<Rightarrow> 'a lib_state_scheme \<Rightarrow> bool" where
  "steady src buf n s \<longleftrightarrow> (\<forall>t. (\<forall>a. a \<notin> video_region \<longrightarrow> ram t a = ram s a) \<longrightarrow> (\<forall>k<n. src t (buf + of_nat k) = src s (buf + of_nat k)))"

lemma steady_ram:
  assumes "apart buf n VIDEO 4000"
  shows "steady ram buf n s"
proof -
  have "buf + of_nat k \<notin> video_region" if "k < n" for k
  proof -
    have "n \<le> 4294967296" using apart_bound [OF assms] that by simp
    then have "buf + of_nat k \<in> region buf n" using that by (simp add: region_def unat_of_nat_u32)
    then show ?thesis using apart_region [OF assms] by blast
  qed
  then show ?thesis by (simp add: steady_def)
qed

lemma steadyD:
  "steady src buf n s \<Longrightarrow> \<forall>a. a \<notin> video_region \<longrightarrow> ram t a = ram s a \<Longrightarrow> k < n
    \<Longrightarrow> src t (buf + of_nat k) = src s (buf + of_nat k)"
  unfolding steady_def by blast

lemma steady_const: "steady (\<lambda>_. m) buf n s"
  by (simp add: steady_def)

lemma write_char_refines:
  assumes "term_ok s" "steady src buf n s" "k < n"
  obtains i' t where "write_char src buf k (i, s) = (i', t)" "console_step s t" "term_ok t"
    "display_of t = emit (src s (buf + of_nat k)) (display_of s)"
proof -
  let ?u = "if screen_y s \<ge> 24 then scroll s else s"
  let ?c = "src s (buf + of_nat k)"
  let ?t = "if ?c = 0 then ?u else if ?c = 0x0A then set_cursor 0 (screen_y ?u + 1) ?u else putc ?c ?u"
  note u = roll_refines [OF assms(1)]
  note t = print_char_refines [OF u(3,4), of ?c]
  have c: "src ?u (buf + of_nat k) = ?c" 
    using steadyD [OF assms(2) _ assms(3)] u(1) unfolding console_step_def by blast
  have "screen_x s \<noteq> 80" using assms(1) by (simp add: term_ok_def)
  then have "write_char src buf k (i, s) = (if screen_y s \<ge> 24 then 25 else i, ?t)"
    using c by (cases "screen_y s \<ge> 24")
      (simp_all add: write_char_def Let_def term_consts scroll_def getx_def gety_def)
  then show thesis
    using that console_trans [OF u(1) t(1)] t(2,3) u(2) by (metis emit_def)
qed

lemma steady_step: "steady src buf n s \<Longrightarrow> \<forall>a. a \<notin> video_region \<longrightarrow> ram t a = ram s a \<Longrightarrow> steady src buf n t"
  unfolding steady_def by metis

lemma write_chars_refine:
  assumes "term_ok s" "steady src buf n s" "set ks \<subseteq> {..<n}"
  shows "\<exists>i' t. fold (write_char src buf) ks (i, s) = (i', t) \<and> console_step s t \<and> term_ok t
    \<and> display_of t = fold emit (map (\<lambda>k. src s (buf + of_nat k)) ks) (display_of s)"
  using assms
proof (induction ks arbitrary: i s)
  case Nil
  then show ?case by (simp add: console_step_def term_ok_def)
next
  case (Cons k ks)
  have k: "k < n" "set ks \<subseteq> {..<n}" using Cons.prems(3) by auto
  obtain j u where u: "write_char src buf k (i, s) = (j, u)" "console_step s u" "term_ok u"
      "display_of u = emit (src s (buf + of_nat k)) (display_of s)"
    using write_char_refines [OF Cons.prems(1,2) k(1)] by metis
  have "src u (buf + of_nat j) = src s (buf + of_nat j)" if "j \<in> set ks" for j
    using steadyD [OF Cons.prems(2), of u j] u(2) k(2) that unfolding console_step_def by blast
  then have same: "map (\<lambda>k. src u (buf + of_nat k)) ks = map (\<lambda>k. src s (buf + of_nat k)) ks" by simp
  obtain i' t where t: "fold (write_char src buf) ks (j, u) = (i', t)" "console_step u t" "term_ok t"
      "display_of t = fold emit (map (\<lambda>k. src u (buf + of_nat k)) ks) (display_of u)"
    using Cons.IH [OF u(3) steady_step [OF Cons.prems(2)] k(2)] u(2) unfolding console_step_def by blast
  show ?case using t u same console_trans [OF u(2) t(2)] by simp
qed

lemma write_helper_refines:
  assumes "term_ok s" "buf \<noteq> 0" "steady src buf (nat len) s" "0 \<le> len"
  shows "\<exists>r t. write_helper junk src buf len s = (r, t) \<and> console_step (sti s) t \<and> term_ok t
    \<and> display_of t = fold emit (rd (src s) buf (nat len)) (display_of s)"
proof -
  have cli: "term_ok (cli s)" "display_of (cli s) = display_of s"
    using assms(1) by (simp_all add: term_ok_def plain_cells_def get_char_def cli_def display_of_def saved_text_def)
  have "steady src buf (nat len) (cli s)" using assms(3) by (rule steady_step) (simp add: cli_def)
  moreover have "set [0..<nat len] \<subseteq> {..<nat len}" by auto
  ultimately obtain i t where t: "fold (write_char src buf) [0..<nat len] (junk, cli s) = (i, t)" "console_step (cli s) t"
      "term_ok t" "display_of t = fold emit (rd (src (cli s)) buf (nat len)) (display_of s)"
    using write_chars_refine [OF cli(1), of src buf "nat len" "[0..<nat len]" junk]
    unfolding rd_def cli(2) by blast
  have same: "rd (src (cli s)) buf (nat len) = rd (src s) buf (nat len)"
    by (rule rd_cong, rule steadyD [OF assms(3)]) (simp_all add: cli_def)
  let ?u = "sti (set_cursor (screen_x t) (screen_y t) t)"
  have "write_helper junk src buf len s = (i + 1, ?u)"
    using assms t(1) by (simp add: write_helper_def Let_def getx_def gety_def)
  moreover have "console_step (sti s) ?u" "term_ok ?u" "display_of ?u = display_of t"
    using t(2,3) by (auto simp: console_step_def term_ok_def plain_cells_def get_char_def display_of_def
        saved_text_def sti_def cli_def)
  ultimately show ?thesis using t(4) same by auto
qed

section \<open>Reading a line\<close>

lemma copy_line_found:
  assumes "k \<le> n" "\<forall>i. k \<le> i \<and> i < n \<longrightarrow> line ! i \<noteq> 0x0A" "line ! n = 0x0A" "n < c" "n < length line"
    "length line \<le> 2 ^ 32"
  shows "copy_line line buf [k..<c] m = (wr m (buf + of_nat k) (drop k (take (Suc n) line)), Some n)"
  using assms
proof (induction "n - k" arbitrary: k m)
  case 0
  then have k: "k = n" "[k..<c] = n # [Suc n..<c]" by (simp_all add: upt_conv_Cons)
  then show ?case using 0 by (simp add: wr_one take_Suc_conv_app_nth fun_eq_iff)
next
  case (Suc d)
  then have k: "k < n" "[k..<c] = k # [Suc k..<c]" by (simp_all add: upt_conv_Cons)
  have "drop k (take (Suc n) line) = line ! k # drop (Suc k) (take (Suc n) line)"
    using k(1) Suc.prems by (simp add: Cons_nth_drop_Suc [symmetric])
  moreover have "copy_line line buf [Suc k..<c] (m(buf + of_nat k := line ! k))
      = (wr (m(buf + of_nat k := line ! k)) (buf + of_nat (Suc k)) (drop (Suc k) (take (Suc n) line)), Some n)"
    using Suc.hyps(2) Suc.prems k(1) by (intro Suc.hyps(1)) auto
  ultimately show ?case
    using k Suc.prems by (simp add: wr_Cons add_ac)
qed

lemma terminal_read_run:
  assumes "fd \<noteq> 1" "await (\<lambda>s. entered s = 1) irqs s = Some t"
    "length (text_buf t) = BUF_MAX" "n < BUF_MAX" "int n < len"
    "text_buf t ! n = 0x0A" "\<forall>i<n. text_buf t ! i \<noteq> 0x0A"
  shows "terminal_read junk irqs fd buf len s
    = Some (int n, t\<lparr>ram := wr (ram t) buf (take (Suc n) (text_buf t)), entered := 0\<rparr>)"
proof -
  have "copy_line (text_buf t) buf [0..<min (nat len) BUF_MAX] (ram t)
      = (wr (ram t) (buf + of_nat 0) (drop 0 (take (Suc n) (text_buf t))), Some n)"
    using assms by (intro copy_line_found) (auto simp: BUF_MAX_def)
  then show ?thesis using assms(1,2) by (simp add: terminal_read_def read_helper_def)
qed

section \<open>Properties\<close>

text \<open>C4: writing to a terminal (a descriptor other than 0, a buffer outside video memory) makes on the
  screen what sending its bytes one by one to the abstract display makes, with the screen scrolled
  up a row whenever the cursor is in the last one; the cursor stays on the screen, and memory
  outside video memory and the rest of the kernel's state do not change.\<close>

theorem terminal_write_prints:
  assumes "term_ok s" "fd \<noteq> 0" "buf \<noteq> 0" "0 \<le> len" "apart buf (nat len) VIDEO 4000"
  shows "\<exists>r t. terminal_write junk ram fd buf len s = (r, t)
    \<and> display_of t = fold emit (rd (ram s) buf (nat len)) (display_of s) \<and> term_ok t
    \<and> (\<forall>a. a \<notin> video_region \<longrightarrow> ram t a = ram s a) \<and> lib_state.more t = lib_state.more s \<and> int_on t"
  using write_helper_refines [OF assms(1,3) steady_ram [OF assms(5)] assms(4), of junk] assms(2)
  by (auto simp: terminal_write_def console_step_def sti_def)

definition term_example :: lib_state where
  "term_example = \<lparr>ram = (\<lambda>_. 0x41), out_log = [], int_on = True, cr3 = 0, screen_x = 79, screen_y = 24\<rparr>"

theorem terminal_write_prints_witness:
  "\<exists>r t. terminal_write 0 ram 1 0x1000 2 term_example = (r, t)
    \<and> display_of t = fold emit [0x41, 0x41] (display_of term_example)"
proof -
  have "term_ok term_example" by (simp add: term_ok_def plain_cells_def get_char_def term_example_def)
  moreover have "apart 0x1000 (nat 2) VIDEO 4000" by (simp add: apart_def VIDEO_def)
  moreover have "rd (ram term_example) 0x1000 (nat 2) = [0x41, 0x41]"
    by (simp add: term_example_def rd_def upt_rec)
  ultimately show ?thesis
    using terminal_write_prints [of term_example 1 "0x1000" 2 0] by auto
qed

text \<open>Once a line is entered, reading the terminal returns the number of characters before its
  newline and stores them and the newline in the buffer, and nothing else of memory changes.\<close>

theorem terminal_read_line:
  assumes "fd \<noteq> 1" "await (\<lambda>s. entered s = 1) irqs s = Some t"
    "length (text_buf t) = BUF_MAX" "n < BUF_MAX" "int n < len"
    "text_buf t ! n = 0x0A" "\<forall>i<n. text_buf t ! i \<noteq> 0x0A"
  shows "terminal_read junk irqs fd buf len s
    = Some (int n, t\<lparr>ram := wr (ram t) buf (take (Suc n) (text_buf t)), entered := 0\<rparr>)"
  using assms by (rule terminal_read_run)

definition read_example :: term_state where
  "read_example = \<lparr>ram = (\<lambda>_. 0), out_log = [], int_on = True, cr3 = 0x400000, screen_x = 0, screen_y = 0,
     master_mask = 0xFF, slave_mask = 0xFF, intr_flag = 0, shift_flag = 0, alt_flag = 0, caps_flag = 0,
     ctrl_flag = 0, l_shift = 0, r_shift = 0, tables_at = 0x400000, directories = (\<lambda>_ _. 0),
     tables = (\<lambda>_ _. 0), cr0 = 0, cr4 = 0, user_pages = (\<lambda>_ _. 0),
     filesystem = filesystem fs_example, BOOT_BLOCK_PTR = 0x410000, pc = 0, fd_val = 0, fd_index = 2, new_pid = 1,
     dentry1 = empty_dentry, pcblock = empty_pcb,
     text_buf = [0x6C, 0x73, 0x0A] @ replicate 125 0, counter = 0, entered = 0, cur_terminal = 1,
     term2_flag = 0, term3_flag = 0, term_pcb = empty_pcb, terminals = [], term2_press = 0, term3_press = 0\<rparr>"

theorem terminal_read_line_witness:
  "\<exists>t. terminal_read 0 [\<lambda>s. Some (s\<lparr>entered := 1\<rparr>)] 0 0x8000000 128 read_example = Some (2, t)
    \<and> rd (ram t) 0x8000000 3 = [0x6C, 0x73, 0x0A]"
proof -
  let ?t = "read_example\<lparr>entered := 1\<rparr>"
  have buf: "text_buf ?t = [0x6C, 0x73, 0x0A] @ replicate 125 0" by (simp add: read_example_def)
  have "await (\<lambda>s. entered s = 1) [\<lambda>s. Some (s\<lparr>entered := 1\<rparr>)] read_example = Some ?t"
    by (simp add: deliver_def read_example_def sti_def cli_def)
  moreover have "text_buf ?t ! 2 = 0x0A" unfolding buf by simp
  moreover have "\<forall>i<2. text_buf ?t ! i \<noteq> 0x0A" unfolding buf by (auto simp: less_2_cases_iff)
  ultimately have "terminal_read 0 [\<lambda>s. Some (s\<lparr>entered := 1\<rparr>)] 0 0x8000000 128 read_example
      = Some (int 2, ?t\<lparr>ram := wr (ram ?t) 0x8000000 (take (Suc 2) (text_buf ?t)), entered := 0\<rparr>)"
    by (intro terminal_read_line) (simp_all add: buf BUF_MAX_def)
  moreover have "rd (wr (ram ?t) 0x8000000 (take (Suc 2) (text_buf ?t))) 0x8000000 3 = [0x6C, 0x73, 0x0A]"
    unfolding buf by (subst rd_wr_same) simp_all
  ultimately show ?thesis by auto
qed

text \<open>For a cursor on the screen the two bytes sent to the VGA registers are the position of its
  cell, row by row, whole.\<close>

theorem set_cursor_position:
  assumes "on_screen x y"
  shows "\<exists>lo hi. out_log (set_cursor x y s) = [(0x3D5, hi), (0x3D4, 0x0E), (0x3D5, lo), (0x3D4, 0x0F)] @ out_log s
    \<and> uint hi * 256 + uint lo = y * 80 + x \<and> uint hi < 8"
proof -
  define p where "p = (of_int (y * 80 + x) :: u32)"
  have p: "uint p = y * 80 + x" unfolding p_def
    using assms by (subst uint_word_of_int) (simp add: take_bit_int_eq_self)
  have "uint (ucast p :: u8) = uint p mod 256" "uint (ucast (drop_bit 8 p) :: u8) = uint p div 256 mod 256"
    by (simp_all add: unsigned_ucast_eq take_bit_eq_mod drop_bit_eq_div uint_div_distrib)
  moreover have "0 \<le> uint p" "uint p < 2000" using assms p by auto
  moreover have "out_log (set_cursor x y s) = [(0x3D5, ucast (drop_bit 8 p)), (0x3D4, 0x0E), (0x3D5, ucast p), (0x3D4, 0x0F)]
      @ out_log s" unfolding set_cursor_eq p_def by simp
  ultimately show ?thesis using p by simp
qed

theorem set_cursor_position_witness:
  "\<exists>lo hi. out_log (set_cursor 79 24 term_example) = [(0x3D5, hi), (0x3D4, 0x0E), (0x3D5, lo), (0x3D4, 0x0F)]
    \<and> uint hi * 256 + uint lo = 1999"
  using set_cursor_position [of 79 24 term_example] by (auto simp: term_example_def)

text \<open>\<open>multi_init\<close> leaves a copy of the display in the saved screen of each of the three terminals,
  and changes nothing else.\<close>

theorem multi_init_saves:
  "rd (ram (multi_init s)) TERM1 4096 = rd (ram s) V_MEM_ADDR 4096
   \<and> rd (ram (multi_init s)) TERM2 4096 = rd (ram s) V_MEM_ADDR 4096
   \<and> rd (ram (multi_init s)) TERM3 4096 = rd (ram s) V_MEM_ADDR 4096
   \<and> (apart a n TERM1 4096 \<and> apart a n TERM2 4096 \<and> apart a n TERM3 4096
      \<longrightarrow> rd (ram (multi_init s)) a n = rd (ram s) a n)"
proof -
  note defs = term_consts
  have "apart TERM1 4096 V_MEM_ADDR 4096" "apart TERM2 4096 V_MEM_ADDR 4096" "apart TERM3 4096 V_MEM_ADDR 4096"
    "apart TERM1 4096 TERM2 4096" "apart TERM1 4096 TERM3 4096" "apart TERM2 4096 TERM3 4096"
    by (simp_all add: apart_def defs)
  then show ?thesis
    by (simp add: multi_init_def Let_def MEM_4KB_def kcopy.cp_apart mem_simps apart_sym)
qed

theorem multi_init_saves_witness:
  "apart 0x605000 4096 TERM1 4096 \<and> rd (ram (multi_init term_example)) TERM3 4096 = rd (ram term_example) V_MEM_ADDR 4096
   \<and> rd (ram (multi_init term_example)) 0x605000 4096 = rd (ram term_example) 0x605000 4096"
  using multi_init_saves [of term_example "0x605000" 4096] by (simp add: apart_def term_consts)

end
