(* ===== verification/FileRead.thy ===== *)
theory FileRead
  imports FileSys
begin

unbundle bit_operations_syntax

text \<open>
  What \<open>read_data\<close>, \<open>filesystem_read\<close> and \<open>loader\<close> do with a well-formed disk image: the bytes of
  a file as its inode and data blocks give them, and the reads compared with them.
\<close>

section \<open>Files in the image\<close>

definition inode_at :: "'a fs_state_scheme \<Rightarrow> u32 \<Rightarrow> u32" where
  "inode_at s inode = BOOT_BLOCK_PTR s + (inode + 1) * 4096"

definition file_size :: "'a fs_state_scheme \<Rightarrow> u32 \<Rightarrow> nat" where
  "file_size s inode = unat (ld32 (ram s) (inode_at s inode))"

definition block_no :: "'a fs_state_scheme \<Rightarrow> u32 \<Rightarrow> nat \<Rightarrow> u32" where
  "block_no s inode k = ld32 (ram s) (inode_at s inode + (of_nat k + 1) * 4)"

definition block_at :: "'a fs_state_scheme \<Rightarrow> u32 \<Rightarrow> nat \<Rightarrow> u32" where
  "block_at s inode k = data_start (filesystem s) + block_no s inode k * 4096"

definition file_bytes :: "'a fs_state_scheme \<Rightarrow> u32 \<Rightarrow> nat \<Rightarrow> nat \<Rightarrow> u8 list" where
  "file_bytes s inode off n =
     map (\<lambda>k. ram s (block_at s inode (k div 4096) + of_nat (k mod 4096))) [off..<off + n]"

definition image_len :: "'a fs_state_scheme \<Rightarrow> nat" where
  "image_len s = 4096 * (1 + unat (num_inodes (filesystem s)) + unat (num_data_blocks (filesystem s)))"

text \<open>The image lies in memory without wrapping, the driver was initialised from it, and the file
  has an inode, at most 1023 blocks, and blocks that exist.\<close>

definition file_ok :: "'a fs_state_scheme \<Rightarrow> u32 \<Rightarrow> bool" where
  "file_ok s inode \<longleftrightarrow> unat (BOOT_BLOCK_PTR s) + image_len s \<le> 2 ^ 32
     \<and> data_start (filesystem s) = BOOT_BLOCK_PTR s + (num_inodes (filesystem s) + 1) * 4096
     \<and> inode < num_inodes (filesystem s) \<and> file_size s inode \<le> 1023 * 4096
     \<and> (\<forall>k < 1023. k * 4096 < file_size s inode \<longrightarrow> block_no s inode k < num_data_blocks (filesystem s))"

lemma length_file_bytes [simp]: "length (file_bytes s inode off n) = n"
  by (simp add: file_bytes_def)

lemma file_bytes_0 [simp]: "file_bytes s inode off 0 = []"
  by (simp add: file_bytes_def)

lemma file_bytes_add: "file_bytes s inode off (n + k) = file_bytes s inode off n @ file_bytes s inode (off + n) k"
  using upt_add_eq_append [of off "off + n" k] by (simp add: file_bytes_def add.assoc)

lemma image_len_le: "file_ok s inode \<Longrightarrow> image_len s \<le> 2 ^ 32"
  by (simp add: file_ok_def)

text \<open>The addresses of the words of an inode and of the bytes of a block, from the start of the image.\<close>

lemma inode_word:
  "inode_at s inode + of_nat j = BOOT_BLOCK_PTR s + of_nat (4096 * (unat inode + 1) + j)"
  by (simp add: inode_at_def algebra_simps)

lemma inode_word_in:
  assumes "file_ok s inode" "j < 4096"
  shows "inode_at s inode + of_nat j \<in> region (BOOT_BLOCK_PTR s) (image_len s)"
  unfolding inode_word
proof (rule in_region)
  have "unat inode < unat (num_inodes (filesystem s))" using assms(1) by (simp add: file_ok_def word_less_nat_alt)
  then show "4096 * (unat inode + 1) + j < image_len s" using assms(2) by (simp add: image_len_def)
qed (use image_len_le [OF assms(1)] in simp)

lemma block_byte:
  assumes "file_ok s inode"
  shows "block_at s inode k + of_nat j
    = BOOT_BLOCK_PTR s + of_nat (4096 * (1 + unat (num_inodes (filesystem s)) + unat (block_no s inode k)) + j)"
  using assms by (simp add: file_ok_def block_at_def algebra_simps)

lemma block_in:
  assumes "file_ok s inode" "k < 1023" "k * 4096 < file_size s inode" "j + n \<le> 4096"
  shows "4096 * (1 + unat (num_inodes (filesystem s)) + unat (block_no s inode k)) + j + n \<le> image_len s"
proof -
  have "unat (block_no s inode k) < unat (num_data_blocks (filesystem s))"
    using assms(1-3) by (simp add: file_ok_def word_less_nat_alt)
  then show ?thesis using assms(4) by (simp add: image_len_def)
qed

text \<open>Memories that agree on the image have the same files.\<close>

definition same_image :: "'a fs_state_scheme \<Rightarrow> mem \<Rightarrow> bool" where
  "same_image s m \<longleftrightarrow> (\<forall>a \<in> region (BOOT_BLOCK_PTR s) (image_len s). m a = ram s a)"

lemma same_image_wr:
  "same_image s m \<Longrightarrow> apart a (length bs) (BOOT_BLOCK_PTR s) (image_len s) \<Longrightarrow> same_image s (wr m a bs)"
  using apart_region [of a "length bs" "BOOT_BLOCK_PTR s" "image_len s"]
  by (auto simp: same_image_def disjoint_iff intro!: trans [OF wr_out])

lemma inode_ld32:
  assumes "file_ok s inode" "same_image s m" "j + 4 \<le> 4096"
  shows "ld32 m (inode_at s inode + of_nat j) = ld32 (ram s) (inode_at s inode + of_nat j)"
proof -
  have "m (inode_at s inode + of_nat (j + i)) = ram s (inode_at s inode + of_nat (j + i))" if "i < 4" for i
    using assms inode_word_in [OF assms(1), of "j + i"] that by (simp add: same_image_def)
  from this [of 0] this [of 1] this [of 2] this [of 3] show ?thesis
    by (simp add: ld32_def ac_simps)
qed

lemma block_no_same:
  assumes "file_ok s inode" "same_image s m" "k < 1023"
  shows "ld32 m (inode_at s inode + (of_nat k + 1) * 4) = block_no s inode k"
  using inode_ld32 [OF assms(1,2), of "4 * (k + 1)"] assms(3) by (simp add: block_no_def algebra_simps)

lemma apart_sub:
  assumes "apart a n b k" "i + n' \<le> n" "j + k' \<le> k" "n \<le> 2 ^ 32" "k \<le> 2 ^ 32"
  shows "apart (a + of_nat i) n' (b + of_nat j) k'"
proof -
  have disj: "region (a + of_nat i) n' \<inter> region (b + of_nat j) k' = {}"
    using region_sub [OF assms(2,4), of a] region_sub [OF assms(3,5), of b] apart_region [OF assms(1)]
    by blast
  have "a + of_nat i \<in> region (a + of_nat i) n'" if "0 < n'" using that by (simp add: region_def)
  moreover have "b + of_nat j \<in> region (b + of_nat j) k'" if "0 < k'" using that by (simp add: region_def)
  ultimately have "0 < n' \<Longrightarrow> 0 < k' \<Longrightarrow> b + of_nat j \<notin> region (a + of_nat i) n' \<and> a + of_nat i \<notin> region (b + of_nat j) k'"
    using disj by blast
  then show ?thesis by (auto simp: apart_def region_def)
qed

text \<open>Copying part of one block copies that part of the file.\<close>

lemma copy_block:
  assumes "file_ok s inode" "same_image s m" "k < 1023" "k * 4096 < file_size s inode" "o' + unat n \<le> 4096"
    and "apart d (unat n) (BOOT_BLOCK_PTR s) (image_len s)"
  shows "memcpy m d (block_at s inode k + of_nat o') n = wr m d (file_bytes s inode (k * 4096 + o') (unat n))"
proof -
  let ?a = "block_at s inode k + of_nat o'"
  note bi = block_in [OF assms(1,3,4,5)]
  have "apart d (unat n) ?a (unat n)"
    using apart_sub [OF assms(6), of 0 "unat n"] bi image_len_le [OF assms(1)] unat_u32_lt [of n]
    by (simp add: block_byte [OF assms(1)] del: of_nat_add of_nat_mult)
  then have "memcpy m d ?a n = wr m d (rd m ?a (unat n))" by (rule kcopy.cp_apart)
  moreover have "rd m ?a (unat n) = file_bytes s inode (k * 4096 + o') (unat n)"
  proof (rule nth_equalityI)
    fix i assume i: "i < length (rd m ?a (unat n))"
    then have idx: "o' + i < 4096" using assms(5) by simp
    have "?a + of_nat i = BOOT_BLOCK_PTR s
        + of_nat (4096 * (1 + unat (num_inodes (filesystem s)) + unat (block_no s inode k)) + (o' + i))"
      using block_byte [OF assms(1), of k "o' + i"] by (simp add: add.assoc)
    also have "\<dots> \<in> region (BOOT_BLOCK_PTR s) (image_len s)"
      using bi i image_len_le [OF assms(1)] by (intro in_region) simp_all
    finally have "m (?a + of_nat i) = ram s (?a + of_nat i)" using assms(2) by (simp add: same_image_def)
    then show "rd m ?a (unat n) ! i = file_bytes s inode (k * 4096 + o') (unat n) ! i"
      using i by (simp add: file_bytes_def idx add.assoc)
  qed simp
  ultimately show ?thesis by simp
qed

section \<open>The loop\<close>

abbreviation blocks_loop :: "'a fs_state_scheme \<Rightarrow> u32 \<Rightarrow> nat \<Rightarrow> u32 \<Rightarrow> bool \<Rightarrow> nat \<Rightarrow> nat \<Rightarrow> u32 \<Rightarrow> mem \<Rightarrow> mem" where
  "blocks_loop s inode off buf first k left d m \<equiv>
     read_blocks (filesystem s) (inode_at s inode) (of_nat off) buf first (of_nat k) (of_nat left) d m"

lemma unat_small [simp]: "n \<le> 1023 * 4096 \<Longrightarrow> unat (of_nat n :: u32) = n"
  by (simp add: unat_of_nat_u32)

lemma of_nat_small_zero: "n \<le> 1023 * 4096 \<Longrightarrow> (of_nat n :: u32) = 0 \<longleftrightarrow> n = 0"
  by (simp add: word_unat_eq_iff)

lemma of_nat_small_le:
  "n \<le> 1023 * 4096 \<Longrightarrow> (4096 :: u32) \<le> of_nat n \<longleftrightarrow> 4096 \<le> n" "n \<le> 1023 * 4096 \<Longrightarrow> (of_nat n :: u32) < 4096 \<longleftrightarrow> n < 4096"
  "n \<le> 1023 * 4096 \<Longrightarrow> (of_nat n :: u32) \<le> 4096 \<longleftrightarrow> n \<le> 4096"
  by (simp_all add: word_le_nat_alt word_less_nat_alt)

lemma of_nat_small_diff: "k \<le> n \<Longrightarrow> (of_nat n :: u32) - of_nat k = of_nat (n - k)"
  by (simp add: of_nat_diff)

lemma of_nat_mod_block: "n < 2 ^ 32 \<Longrightarrow> (of_nat n :: u32) mod 4096 = of_nat (n mod 4096)"
  by (simp add: word_unat_eq_iff unat_mod unat_of_nat_u32)

lemma of_nat_div_block: "n < 2 ^ 32 \<Longrightarrow> (of_nat n :: u32) div 4096 = of_nat (n div 4096)"
  by (simp add: word_unat_eq_iff unat_div unat_of_nat_u32)

lemma size_le: "file_ok s inode \<Longrightarrow> file_size s inode \<le> 1023 * 4096"
  by (simp add: file_ok_def)

lemma block_bound: "file_ok s inode \<Longrightarrow> k * 4096 < file_size s inode \<Longrightarrow> k < 1023"
  using size_le [of s inode] by linarith

lemma block_ptr:
  assumes ok: "file_ok s inode" and "same_image s m" "k * 4096 < file_size s inode"
  shows "data_start (filesystem s) + ld32 m (inode_at s inode + (of_nat k + 1) * 4) * 4096 = block_at s inode k"
  using block_no_same [OF ok assms(2) block_bound [OF ok assms(3)]] by (simp add: block_at_def)

lemma copy_part:
  assumes ok: "file_ok s inode" and "same_image s m" "k * 4096 + o' + n \<le> file_size s inode" "k * 4096 < file_size s inode" "o' + n \<le> 4096"
    and "apart d n (BOOT_BLOCK_PTR s) (image_len s)"
  shows "memcpy m d (block_at s inode k + of_nat o') (of_nat n) = wr m d (file_bytes s inode (k * 4096 + o') n)"
  using copy_block [OF ok assms(2) block_bound [OF ok assms(4)] assms(4), of o' "of_nat n" d] assms(5,6) by simp

text \<open>The last piece, shorter than a block.\<close>

lemma loop_last:
  assumes ok: "file_ok s inode" and "same_image s m" "k * 4096 + n \<le> file_size s inode" "n < 4096"
    and "apart d n (BOOT_BLOCK_PTR s) (image_len s)"
  shows "blocks_loop s inode off buf False k n d m = wr m d (file_bytes s inode (k * 4096) n)"
proof (cases "n = 0")
  case True
  then show ?thesis by (simp add: read_blocks.simps file_bytes_def)
next
  case False
  then have k: "k * 4096 < file_size s inode" using assms(3) by linarith
  have "blocks_loop s inode off buf False k n d m = memcpy m d (block_at s inode k + of_nat 0) (of_nat n)"
    using False assms(4) block_ptr [OF ok assms(2) k]
    by (subst read_blocks.simps) (simp add: ONE_BLOCK_SIZE_def of_nat_small_zero of_nat_small_le Let_def)
  also have "\<dots> = wr m d (file_bytes s inode (k * 4096) n)"
    using copy_part [OF ok assms(2) _ k _ assms(5), of 0] assms(3,4) by simp
  finally show ?thesis .
qed

text \<open>One whole block of several, at an offset that is a multiple of the block size.\<close>

lemma loop_whole:
  assumes ok: "file_ok s inode" and "same_image s m" "(k + 1) * 4096 \<le> file_size s inode" "4096 \<le> n" "n \<le> 1023 * 4096"
    and "apart d n (BOOT_BLOCK_PTR s) (image_len s)" "4096 dvd off" "off < 2 ^ 32"
  shows "blocks_loop s inode off buf False k n d m =
    (let m' = wr m d (file_bytes s inode (k * 4096) 4096)
     in if n - 4096 < 4096 then wr m' (d + 4096) (file_bytes s inode (k * 4096) (n - 4096))
        else blocks_loop s inode off buf False (k + 1) (n - 4096) (d + 4096) m')"
proof -
  have k: "k * 4096 < file_size s inode" using assms(3) by simp
  let ?m = "wr m d (file_bytes s inode (k * 4096) 4096)"
  have z: "(of_nat off :: u32) mod 4096 = 0" using assms(7,8) by (simp add: of_nat_mod_block)
  have ap: "apart d 4096 (BOOT_BLOCK_PTR s) (image_len s)"
    "apart (d + 4096) (n - 4096) (BOOT_BLOCK_PTR s) (image_len s)"
    using apart_sub [OF assms(6), of 0 4096 0 "image_len s"] apart_sub [OF assms(6), of 4096 "n - 4096" 0 "image_len s"]
      assms(4,5) image_len_le [OF ok] by simp_all
  have m: "memcpy m d (block_at s inode k) 4096 = ?m"
    using copy_part [OF ok assms(2) _ k _ ap(1), of 0] assms(3) by simp
  have si: "same_image s ?m" using same_image_wr [OF assms(2), of d "file_bytes s inode (k * 4096) 4096"] ap(1) by simp
  obtain l where l: "n = l + 4096" using assms(4) by (metis le_add_diff_inverse2)
  have last: "memcpy ?m (d + 4096) (block_at s inode k) (of_nat l)
      = wr ?m (d + 4096) (file_bytes s inode (k * 4096) l)" if "l < 4096"
    using copy_part [OF ok si _ k _ ap(2), of 0] assms(3) that by (simp add: l)
  have le: "(4096 :: u32) \<le> of_nat (l + 4096)" "(of_nat (l + 4096) :: u32) \<noteq> 0"
    "(of_nat l :: u32) < 4096 \<longleftrightarrow> l < 4096"
    using assms(5) of_nat_small_le [of "l + 4096"] of_nat_small_zero [of "l + 4096"] of_nat_small_le [of l]
    unfolding l by auto
  have "(of_nat (l + 4096) :: u32) - 4096 = of_nat l" by simp
  then show ?thesis
    unfolding l using block_ptr [OF ok assms(2) k] m z last le
    by (subst read_blocks.simps)
      (simp add: ONE_BLOCK_SIZE_def Let_def add.commute [of 1] del: of_nat_add)
qed

text \<open>Whole blocks and a rest: the rest is taken from the start of the last whole block.\<close>

lemma loop_blocks:
  assumes ok: "file_ok s inode" and "same_image s m" "(k + q) * 4096 + r \<le> file_size s inode" "r < 4096" "0 < q"
    and "apart d (4096 * q + r) (BOOT_BLOCK_PTR s) (image_len s)" "4096 dvd off" "off < 2 ^ 32"
  shows "blocks_loop s inode off buf False k (4096 * q + r) d m
    = wr m d (file_bytes s inode (k * 4096) (4096 * q) @ file_bytes s inode ((k + q - 1) * 4096) r)"
  using assms(2,3,5,6)
proof (induction q arbitrary: k d m)
  case (Suc q)
  let ?b = "file_bytes s inode (k * 4096) 4096"
  have n: "4096 * Suc q + r \<le> 1023 * 4096" using Suc.prems(2) size_le [OF ok] by simp
  have ap: "apart (d + 4096) (4096 * q + r) (BOOT_BLOCK_PTR s) (image_len s)"
    and ap1: "apart d 4096 (BOOT_BLOCK_PTR s) (image_len s)"
    using apart_sub [OF Suc.prems(4), of 4096 "4096 * q + r" 0 "image_len s"]
      apart_sub [OF Suc.prems(4), of 0 4096 0 "image_len s"] n image_len_le [OF ok] by simp_all
  note w = loop_whole [OF ok Suc.prems(1) _ _ n Suc.prems(4) assms(7,8), of k buf]
  have join: "wr m d (?b @ bs) = wr (wr m d ?b) (d + 4096) bs" if "length bs \<le> 1023 * 4096" for bs
    using wr_append [of ?b bs m d] that by simp
  show ?case
  proof (cases "q = 0")
    case True
    then show ?thesis using w Suc.prems(2) assms(4) join by (simp add: Let_def)
  next
    case False
    have si: "same_image s (wr m d ?b)" using same_image_wr [OF Suc.prems(1), of d ?b] ap1 by simp
    have sz: "(k + 1 + q) * 4096 + r \<le> file_size s inode" using Suc.prems(2) by simp
    have "blocks_loop s inode off buf False k (4096 * Suc q + r) d m
        = blocks_loop s inode off buf False (k + 1) (4096 * q + r) (d + 4096) (wr m d ?b)"
      using w Suc.prems(2) False by (simp add: Let_def)
    also have "\<dots> = wr (wr m d ?b) (d + 4096)
        (file_bytes s inode ((k + 1) * 4096) (4096 * q) @ file_bytes s inode ((k + 1 + q - 1) * 4096) r)"
      using Suc.IH [OF si sz _ ap] False by simp
    finally show ?thesis
      using join [of "file_bytes s inode ((k + 1) * 4096) (4096 * q) @ file_bytes s inode ((k + q) * 4096) r"]
        n file_bytes_add [of s inode "k * 4096" 4096 "4096 * q"] by (simp add: algebra_simps)
  qed
qed simp

text \<open>The first block.\<close>

lemma loop_first:
  assumes ok: "file_ok s inode" and "same_image s m" "off + n \<le> file_size s inode" "0 < n"
    and "apart buf n (BOOT_BLOCK_PTR s) (image_len s)"
  shows "blocks_loop s inode off buf True (off div 4096) n buf m =
    (if off mod 4096 + n \<le> 4096 then wr m buf (file_bytes s inode off n)
     else let l = 4096 - off mod 4096
          in blocks_loop s inode off buf False (off div 4096 + 1) (n - l) (buf + of_nat l)
               (wr m buf (file_bytes s inode off l)))"
proof -
  let ?k = "off div 4096" and ?i = "off mod 4096"
  have sz: "off + n \<le> 1023 * 4096" using assms(3) size_le [OF ok] by linarith
  then have k: "?k * 4096 < file_size s inode" "?k * 4096 + ?i = off" using assms(3,4) by simp_all
  have idx: "(of_nat off :: u32) mod 4096 = of_nat ?i" using sz by (simp add: of_nat_mod_block)
  have nz: "(of_nat n :: u32) \<noteq> 0" using sz assms(4) by (simp add: of_nat_small_zero)
  have cmp: "(of_nat ?i + of_nat n :: u32) \<le> 4096 \<longleftrightarrow> ?i + n \<le> 4096"
    using sz of_nat_small_le(3) [of "?i + n"] mod_less_eq_dividend [of off 4096] by simp
  show ?thesis
  proof (cases "?i + n \<le> 4096")
    case True
    have "memcpy m buf (block_at s inode ?k + of_nat ?i) (of_nat n) = wr m buf (file_bytes s inode off n)"
      using copy_part [OF ok assms(2) _ k(1) True assms(5)] k(2) assms(3) by simp
    then show ?thesis
      using True nz cmp idx block_ptr [OF ok assms(2) k(1)]
      by (subst read_blocks.simps) (simp add: ONE_BLOCK_SIZE_def Let_def)
  next
    case False
    define l where "l = 4096 - ?i"
    have l: "?i + l = 4096" "l \<le> n" "l \<le> 4096" using False by (simp_all add: l_def)
    have ap: "apart buf l (BOOT_BLOCK_PTR s) (image_len s)"
      using apart_sub [OF assms(5), of 0 l 0 "image_len s"] l sz image_len_le [OF ok] by simp
    have m: "memcpy m buf (block_at s inode ?k + of_nat ?i) (of_nat l) = wr m buf (file_bytes s inode off l)"
      using copy_part [OF ok assms(2) _ k(1) _ ap, of ?i] l k(2) assms(3) by simp
    have d: "(4096 :: u32) - of_nat ?i = of_nat l" "(of_nat n :: u32) - of_nat l = of_nat (n - l)"
      using l(1) l(2) by (metis add_diff_cancel_left' of_nat_add of_nat_numeral, metis of_nat_small_diff)
    show ?thesis
      using False nz cmp idx block_ptr [OF ok assms(2) k(1)] m d
      by (subst read_blocks.simps) (simp add: ONE_BLOCK_SIZE_def Let_def add.commute [of 1] flip: l_def)
  qed
qed

text \<open>What the whole loop writes: the file's bytes when they end before a second whole block of their
  own is followed by a rest, and otherwise, from an aligned offset, the rest repeated from the
  last whole block.\<close>

lemma loop_short:
  assumes ok: "file_ok s inode" and "same_image s m" "off + n \<le> file_size s inode" "0 < n"
    and "apart buf n (BOOT_BLOCK_PTR s) (image_len s)" "off mod 4096 + n < 8192"
  shows "blocks_loop s inode off buf True (off div 4096) n buf m = wr m buf (file_bytes s inode off n)"
proof (cases "off mod 4096 + n \<le> 4096")
  case True
  then show ?thesis using loop_first [OF assms(1-5)] by simp
next
  case False
  define l where "l = 4096 - off mod 4096"
  let ?b = "file_bytes s inode off l" and ?k = "off div 4096"
  have "off mod 4096 + l = 4096" by (simp add: l_def)
  then have "off + l = (?k + 1) * 4096"
    using div_mult_mod_eq [of off 4096] unfolding distrib_right by linarith
  moreover have "l \<le> n" "n - l < 4096" "l \<le> 4096"
    using False assms(6) by (simp_all add: l_def)
  ultimately have l: "off + l = (?k + 1) * 4096" "l \<le> n" "n - l < 4096" "l \<le> 4096" by blast+
  have n: "n \<le> 1023 * 4096" using assms(3) size_le [OF ok] by linarith
  have ap: "apart buf l (BOOT_BLOCK_PTR s) (image_len s)"
    "apart (buf + of_nat l) (n - l) (BOOT_BLOCK_PTR s) (image_len s)"
    using apart_sub [OF assms(5), of 0 l 0 "image_len s"] apart_sub [OF assms(5), of l "n - l" 0 "image_len s"]
      l n image_len_le [OF ok] by simp_all
  have si: "same_image s (wr m buf ?b)" using same_image_wr [OF assms(2), of buf ?b] ap(1) by simp
  have "blocks_loop s inode off buf True ?k n buf m
      = blocks_loop s inode off buf False (?k + 1) (n - l) (buf + of_nat l) (wr m buf ?b)"
    using loop_first [OF assms(1-5)] False by (simp add: Let_def l_def)
  also have "\<dots> = wr (wr m buf ?b) (buf + of_nat l) (file_bytes s inode (off + l) (n - l))"
    using loop_last [OF ok si _ l(3) ap(2), of "?k + 1"] l assms(3) by (simp flip: l(1))
  also have "\<dots> = wr m buf (file_bytes s inode off n)"
    using wr_append [of ?b "file_bytes s inode (off + l) (n - l)" m buf] n l
      file_bytes_add [of s inode off l "n - l"] by simp
  finally show ?thesis .
qed

lemma loop_aligned:
  assumes ok: "file_ok s inode" and "same_image s m" "off + (4096 * q + r) \<le> file_size s inode"
    and "apart buf (4096 * q + r) (BOOT_BLOCK_PTR s) (image_len s)" "4096 dvd off" "2 \<le> q" "r < 4096"
  shows "blocks_loop s inode off buf True (off div 4096) (4096 * q + r) buf m
    = wr m buf (file_bytes s inode off (4096 * q) @ file_bytes s inode (off + 4096 * (q - 1)) r)"
proof -
  let ?k = "off div 4096" and ?n = "4096 * q + r" and ?b = "file_bytes s inode off 4096"
  have n: "off + ?n \<le> 1023 * 4096" using assms(3) size_le [OF ok] by linarith
  have off: "?k * 4096 = off" "off mod 4096 = 0" "off < 2 ^ 32" using assms(5) n by simp_all
  obtain p where p: "q = Suc p" "0 < p" using assms(6) by (cases q) auto
  have ap: "apart buf 4096 (BOOT_BLOCK_PTR s) (image_len s)"
    "apart (buf + 4096) (4096 * p + r) (BOOT_BLOCK_PTR s) (image_len s)"
    using apart_sub [OF assms(4), of 0 4096 0 "image_len s"]
      apart_sub [OF assms(4), of 4096 "4096 * p + r" 0 "image_len s"] n p image_len_le [OF ok] by simp_all
  have si: "same_image s (wr m buf ?b)" using same_image_wr [OF assms(2), of buf ?b] ap(1) by simp
  have "blocks_loop s inode off buf True ?k ?n buf m
      = blocks_loop s inode off buf False (?k + 1) (4096 * p + r) (buf + 4096) (wr m buf ?b)"
    using loop_first [OF assms(1-3) _ assms(4)] off(2) p by (simp add: Let_def)
  also have "\<dots> = wr (wr m buf ?b) (buf + 4096)
      (file_bytes s inode (off + 4096) (4096 * p) @ file_bytes s inode (off + 4096 * p) r)"
    using loop_blocks [OF ok si _ assms(7) p(2) ap(2) assms(5) off(3), of "?k + 1"] assms(3) p(1) off(1)
    by (simp add: algebra_simps)
  also have "\<dots> = wr m buf (?b @ file_bytes s inode (off + 4096) (4096 * p) @ file_bytes s inode (off + 4096 * p) r)"
    using wr_append [of ?b "file_bytes s inode (off + 4096) (4096 * p) @ file_bytes s inode (off + 4096 * p) r" m buf]
      n p(1) by simp
  finally show ?thesis
    using file_bytes_add [of s inode off 4096 "4096 * p"] p(1) by simp
qed

section \<open>read\_data\<close>

text \<open>The buffer after the first loop of \<open>read_data\<close>, and the number of bytes there are to read.\<close>

definition available :: "'a fs_state_scheme \<Rightarrow> u32 \<Rightarrow> nat \<Rightarrow> nat \<Rightarrow> nat" where
  "available s inode off len = min len (file_size s inode - off)"

lemma read_data_eq:
  "read_data inode offset buf len s =
     (let m = wr (ram s) buf (replicate (unat len) 0);
          data_length = ld32 m (inode_at s inode);
          rval = (if offset + len > data_length then data_length - offset else len)
      in if offset \<ge> data_length then (0, s\<lparr>ram := m\<rparr>)
         else if inode \<ge> num_inodes (filesystem s) - 1 then (-1, s\<lparr>ram := m\<rparr>)
         else (sint rval, upd_file (fd_val s) (\<lambda>f. f\<lparr>fpos := offset + rval\<rparr>)
                (s\<lparr>ram := read_blocks (filesystem s) (inode_at s inode) offset buf True (offset div 4096)
                           rval buf m\<rparr>)))"
  unfolding read_data_def inode_at_def Let_def ONE_BLOCK_SIZE_def by simp

lemma read_data_run:
  assumes ok: "file_ok s inode" and "inode < num_inodes (filesystem s) - 1"
    and "off < file_size s inode" "len < 2 ^ 31"
    and "apart buf len (BOOT_BLOCK_PTR s) (image_len s)"
    and "blocks_loop s inode off buf True (off div 4096) (available s inode off len) buf
           (wr (ram s) buf (replicate len 0)) = wr (wr (ram s) buf (replicate len 0)) buf bs"
    and "length bs = available s inode off len"
  shows "read_data inode (of_nat off) buf (of_nat len) s
    = (int (length bs), upd_file (fd_val s) (\<lambda>f. f\<lparr>fpos := of_nat (off + length bs)\<rparr>)
        (s\<lparr>ram := wr (ram s) buf (bs @ replicate (len - length bs) 0)\<rparr>))"
proof -
  let ?m = "wr (ram s) buf (replicate len 0)" and ?n = "available s inode off len"
  have sz: "file_size s inode \<le> 1023 * 4096" by (rule size_le [OF ok])
  have si: "same_image s ?m"
    using assms(5) by (intro same_image_wr) (simp_all add: same_image_def)
  have len: "unat (of_nat len :: u32) = len" using assms(4) by (simp add: unat_of_nat_u32)
  have size: "ld32 ?m (inode_at s inode) = of_nat (file_size s inode)"
    using inode_ld32 [OF ok si, of 0] by (simp add: file_size_def)
  have past: "\<not> (of_nat (file_size s inode) :: u32) \<le> of_nat off"
    using assms(3) sz by (simp add: word_le_nat_alt)
  have rval: "(if of_nat off + of_nat len > (of_nat (file_size s inode) :: u32)
      then of_nat (file_size s inode) - of_nat off else of_nat len) = (of_nat ?n :: u32)"
  proof -
    have "unat (of_nat off + of_nat len :: u32) = off + len"
      using unat_of_nat_u32 [of "off + len"] assms(3,4) sz by simp
    then show ?thesis
      using assms(3) sz by (auto simp: word_less_nat_alt available_def min_def)
  qed
  have m: "wr ?m buf bs = wr (ram s) buf (bs @ replicate (len - length bs) 0)"
    using assms(7) by (auto simp: fun_eq_iff wr_def Let_def nth_append available_def)
  have sint: "sint (of_nat ?n :: u32) = int ?n"
    using sz unat_small [of ?n] by (simp add: sint_u32 available_def)
  have off: "(of_nat off :: u32) div 4096 = of_nat (off div 4096)"
    using assms(3) sz by (intro of_nat_div_block) simp
  show ?thesis
    unfolding read_data_eq Let_def len size rval off assms(6) m sint
    using past assms(2,7) by (simp add: leD)
qed

section \<open>Reading does not change the files\<close>

lemma same_files:
  assumes ok: "file_ok s inode" and im: "same_image s (ram t)"
    and eq: "filesystem t = filesystem s" "BOOT_BLOCK_PTR t = BOOT_BLOCK_PTR s"
  shows "file_size t inode = file_size s inode" "file_ok t inode" "image_len t = image_len s"
    "off + n \<le> file_size s inode \<Longrightarrow> file_bytes t inode off n = file_bytes s inode off n"
proof -
  have at: "inode_at t inode = inode_at s inode" "image_len t = image_len s"
    by (simp_all add: inode_at_def image_len_def eq)
  then show "image_len t = image_len s" by simp
  show size: "file_size t inode = file_size s inode"
    using inode_ld32 [OF ok im, of 0] by (simp add: file_size_def at)
  have blk: "block_no t inode k = block_no s inode k" if "k < 1023" for k
    using block_no_same [OF ok im that] by (simp add: block_no_def at)
  then show "file_ok t inode" using ok by (auto simp: file_ok_def size at eq)
  show "file_bytes t inode off n = file_bytes s inode off n" if n: "off + n \<le> file_size s inode"
  proof (rule nth_equalityI)
    fix i assume i: "i < length (file_bytes t inode off n)"
    define k where "k = (off + i) div 4096"
    define j where "j = (off + i) mod 4096"
    have k: "k * 4096 < file_size s inode" and "off + i = k * 4096 + j" and j: "j < 4096"
      using i n div_mult_mod_eq [of "off + i" 4096] by (simp_all add: k_def j_def)
    have k': "k < 1023" using block_bound [OF ok k] .
    have "block_at s inode k + of_nat j \<in> region (BOOT_BLOCK_PTR s) (image_len s)"
      unfolding block_byte [OF ok] using block_in [OF ok k' k, of j 1] j image_len_le [OF ok]
      by (intro in_region) simp_all
    then have "ram t (block_at s inode k + of_nat j) = ram s (block_at s inode k + of_nat j)"
      using im by (simp add: same_image_def)
    moreover have "block_at t inode k = block_at s inode k"
      using blk [OF k'] by (simp add: block_at_def eq)
    ultimately show "file_bytes t inode off n ! i = file_bytes s inode off n ! i"
      using i by (simp add: file_bytes_def flip: k_def j_def)
  qed simp
qed

lemma upd_file_simps [simp]:
  "ram (upd_file fd f s) = ram s" "filesystem (upd_file fd f s) = filesystem s"
  "BOOT_BLOCK_PTR (upd_file fd f s) = BOOT_BLOCK_PTR s" "fd_val (upd_file fd f s) = fd_val s"
  "dentries (pcblock (upd_file fd f s)) = dentries (pcblock s)"
  "length (file_struct (pcblock (upd_file fd f s))) = length (file_struct (pcblock s))"
  "fd < length (file_struct (pcblock s)) \<Longrightarrow>
     file_struct (pcblock (upd_file fd f s)) ! fd = f (file_struct (pcblock s) ! fd)"
  by (simp_all add: upd_file_def)

lemma read_data_correct:
  assumes "file_ok s inode" "inode < num_inodes (filesystem s) - 1"
    and "off < file_size s inode" "0 < len" "len < 2 ^ 31"
    and "apart buf len (BOOT_BLOCK_PTR s) (image_len s)"
    and "off mod 4096 + available s inode off len < 8192
      \<or> 4096 dvd off \<and> 4096 dvd available s inode off len"
  shows "read_data inode (of_nat off) buf (of_nat len) s
    = (int (available s inode off len),
       upd_file (fd_val s) (\<lambda>f. f\<lparr>fpos := of_nat (off + available s inode off len)\<rparr>)
        (s\<lparr>ram := wr (ram s) buf (file_bytes s inode off (available s inode off len)
                  @ replicate (len - available s inode off len) 0)\<rparr>))"
proof -
  let ?n = "available s inode off len" and ?m = "wr (ram s) buf (replicate len 0)"
  have n: "?n \<le> len" "off + ?n \<le> file_size s inode" "0 < ?n"
    using assms(3,4) by (auto simp: available_def)
  have ap: "apart buf ?n (BOOT_BLOCK_PTR s) (image_len s)"
    using apart_sub [OF assms(6), of 0 ?n 0 "image_len s"] n(1) assms(5) image_len_le [OF assms(1)] by simp
  have si: "same_image s ?m"
    using assms(6) by (intro same_image_wr) (simp_all add: same_image_def)
  have "blocks_loop s inode off buf True (off div 4096) ?n buf ?m = wr ?m buf (file_bytes s inode off ?n)"
  proof (cases "off mod 4096 + ?n < 8192")
    case True
    then show ?thesis using loop_short [OF assms(1) si n(2,3) ap] by blast
  next
    case False
    with assms(7) obtain q where q: "?n = 4096 * q" "4096 dvd off" by (elim disjE conjE dvdE) auto
    then have "2 \<le> q" using False by auto
    then show ?thesis
      using loop_aligned [OF assms(1) si _ _ q(2), of q 0 buf] n(2) ap
      unfolding q(1) by (simp add: file_bytes_def)
  qed
  from read_data_run [OF assms(1-3,5,6) this] show ?thesis by simp
qed

lemma read_data_none:
  assumes "file_ok s inode" "unat len < 2 ^ 31" "apart buf (unat len) (BOOT_BLOCK_PTR s) (image_len s)"
  shows "(file_size s inode \<le> unat offset \<longrightarrow> read_data inode offset buf len s
           = (0, s\<lparr>ram := wr (ram s) buf (replicate (unat len) 0)\<rparr>))
    \<and> (unat offset < file_size s inode \<and> inode = num_inodes (filesystem s) - 1 \<longrightarrow>
         read_data inode offset buf len s = (-1, s\<lparr>ram := wr (ram s) buf (replicate (unat len) 0)\<rparr>))"
proof -
  let ?m = "wr (ram s) buf (replicate (unat len) 0)"
  have "same_image s ?m"
    using assms(3) by (intro same_image_wr) (simp_all add: same_image_def)
  then have size: "unat (ld32 ?m (inode_at s inode)) = file_size s inode"
    using inode_ld32 [OF assms(1), of ?m 0] by (simp add: file_size_def)
  show ?thesis
    using size unfolding read_data_eq Let_def by (auto simp: word_le_nat_alt)
qed

text \<open>A client that reads a file piece by piece until the end, as \<open>cat\<close> does.\<close>

fun drain :: "nat \<Rightarrow> nat \<Rightarrow> u32 \<Rightarrow> nat \<Rightarrow> 'a fs_state_scheme \<Rightarrow> (u8 list \<times> 'a fs_state_scheme) option" where
  "drain 0 fd buf n s = None"
| "drain (Suc fuel) fd buf n s =
     Option.bind (filesystem_read fd buf (int n) s) (\<lambda>(r, s').
       if r \<le> 0 then Some ([], s')
       else map_option (apfst (append (rd (ram s') buf (nat r)))) (drain fuel fd buf n s'))"

text \<open>What the file descriptor of an open data file looks like.\<close>

definition open_at :: "'a fs_state_scheme \<Rightarrow> nat \<Rightarrow> u32 \<Rightarrow> nat \<Rightarrow> bool" where
  "open_at s fd inode off \<longleftrightarrow> fd < length (file_struct (pcblock s)) \<and> file_type (dentries (pcblock s) ! fd) \<noteq> 1
     \<and> inode_number (dentries (pcblock s) ! fd) = inode \<and> fpos (file_struct (pcblock s) ! fd) = of_nat off"

lemma rd_wr_prefix: "length xs + length ys \<le> 2 ^ 32 \<Longrightarrow> rd (wr m a (xs @ ys)) a (length xs) = xs"
  by (rule nth_equalityI) (simp_all add: wr_in nth_append)

lemma same_image_refl [simp]: "same_image s (ram s)"
  by (simp add: same_image_def)

text \<open>One read at an open descriptor.\<close>

lemma filesystem_read_step:
  assumes "open_at s fd inode off" "file_ok s inode" "inode < num_inodes (filesystem s) - 1"
    and "off \<le> file_size s inode" "0 < n" "n \<le> 4096"
    and "apart buf n (BOOT_BLOCK_PTR s) (image_len s)"
  shows "\<exists>t. filesystem_read fd buf (int n) s = Some (int (available s inode off n), t)
    \<and> rd (ram t) buf (available s inode off n) = file_bytes s inode off (available s inode off n)
    \<and> open_at t fd inode (off + available s inode off n) \<and> same_image s (ram t)
    \<and> filesystem t = filesystem s \<and> BOOT_BLOCK_PTR t = BOOT_BLOCK_PTR s"
proof -
  let ?s = "s\<lparr>fd_val := fd\<rparr>" and ?k = "available s inode off n"
  note sf = same_files [OF assms(2), of ?s, simplified]
  have av: "available ?s inode off n = ?k" by (simp add: available_def sf)
  have run: "filesystem_read fd buf (int n) s = Some (read_data inode (of_nat off) buf (of_nat n) ?s)"
    using assms(1) by (simp add: filesystem_read_def open_at_def)
  show ?thesis
  proof (cases "off < file_size s inode")
    case True
    have "off mod 4096 + ?k < 8192"
      using assms(6) mod_less_divisor [of 4096 off] by (simp add: available_def)
    with read_data_correct [of ?s inode off n buf] True assms(3,5-7) sf
    have "read_data inode (of_nat off) buf (of_nat n) ?s = (int ?k,
        upd_file fd (\<lambda>f. f\<lparr>fpos := of_nat (off + ?k)\<rparr>)
          (?s\<lparr>ram := wr (ram s) buf (file_bytes s inode off ?k @ replicate (n - ?k) 0)\<rparr>))"
      by (simp add: av available_def)
    moreover have "same_image s (wr (ram s) buf (file_bytes s inode off ?k @ replicate (n - ?k) 0))"
      using assms(7) by (intro same_image_wr) (simp_all add: available_def)
    moreover have "rd (wr (ram s) buf (file_bytes s inode off ?k @ replicate (n - ?k) 0)) buf ?k
        = file_bytes s inode off ?k"
      using rd_wr_prefix [of "file_bytes s inode off ?k" "replicate (n - ?k) 0" "ram s" buf] assms(6)
      by (simp add: available_def)
    ultimately show ?thesis
      using assms(1) unfolding run by (simp add: open_at_def upd_file_def)
  next
    case False
    then have off: "off = file_size s inode" "?k = 0" using assms(4) by (simp_all add: available_def)
    have "unat (of_nat off :: u32) = off" using assms(4) size_le [OF assms(2)] by simp
    with read_data_none [of ?s inode "of_nat n" buf "of_nat off"] sf assms(6,7) off
    have "read_data inode (of_nat off) buf (of_nat n) ?s = (0, ?s\<lparr>ram := wr (ram s) buf (replicate n 0)\<rparr>)"
      by simp
    moreover have "same_image s (wr (ram s) buf (replicate n 0))"
      using assms(7) by (intro same_image_wr) simp_all
    ultimately show ?thesis using assms(1) off unfolding run by (simp add: open_at_def)
  qed
qed

lemma drain_rest:
  assumes "open_at s fd inode off" "file_ok s inode" "inode < num_inodes (filesystem s) - 1"
    and "off \<le> file_size s inode" "0 < n" "n \<le> 4096"
    and "apart buf n (BOOT_BLOCK_PTR s) (image_len s)" "file_size s inode - off < fuel"
  shows "\<exists>t. drain fuel fd buf n s = Some (file_bytes s inode off (file_size s inode - off), t)
    \<and> open_at t fd inode (file_size s inode)"
  using assms
proof (induction fuel arbitrary: s off)
  case (Suc fuel)
  let ?k = "available s inode off n"
  obtain t where t: "filesystem_read fd buf (int n) s = Some (int ?k, t)"
      "rd (ram t) buf ?k = file_bytes s inode off ?k" "open_at t fd inode (off + ?k)" "same_image s (ram t)"
      "filesystem t = filesystem s" "BOOT_BLOCK_PTR t = BOOT_BLOCK_PTR s"
    using filesystem_read_step [OF Suc.prems(1-7)] by blast
  note sf = same_files [OF Suc.prems(2) t(4-6)]
  show ?case
  proof (cases "off = file_size s inode")
    case True
    then show ?thesis using t by (auto simp: available_def file_bytes_def)
  next
    case False
    then have k: "0 < ?k" "off + ?k \<le> file_size s inode" using Suc.prems(4,5) by (auto simp: available_def)
    have less: "file_size s inode - (off + ?k) < fuel" using k Suc.prems(8) by linarith
    from k obtain u where u: "drain fuel fd buf n t
        = Some (file_bytes t inode (off + ?k) (file_size t inode - (off + ?k)), u)" "open_at u fd inode (file_size t inode)"
      using Suc.IH [OF t(3) sf(2)] Suc.prems sf t(5,6) less by auto
    have "file_bytes s inode off (file_size s inode - off)
        = file_bytes s inode off ?k @ file_bytes t inode (off + ?k) (file_size t inode - (off + ?k))"
      using file_bytes_add [of s inode off ?k "file_size s inode - (off + ?k)"] k(2) sf(1)
        sf(4) [of "off + ?k" "file_size s inode - (off + ?k)"] by simp
    then show ?thesis using t(1,2) u k(1) sf(1) by auto
  qed
qed simp

section \<open>The example image\<close>

lemma ld32_disk:
  "ld32 disk 0x411000 = 28" "ld32 disk 0x412000 = 8200" "ld32 disk 0x411004 = 0" "ld32 disk 0x412004 = 0"
  "ld32 disk 0x412008 = 1" "ld32 disk 0x41200C = 2" "ld32 disk 0x410060 = 2" "ld32 disk 0x410064 = 0"
  by (simp_all add: ld32_def disk_def wr_def Let_def)

lemma file_size_example: "file_size fs_example 0 = 28" "file_size fs_example 1 = 8200"
  by (simp_all add: file_size_def inode_at_def ld32_disk)

lemma image_len_example [simp]: "image_len fs_example = 0x7000"
  by (simp add: image_len_def)

lemma file_ok_example: "file_ok fs_example 0" "file_ok fs_example 1"
proof -
  have k: "k = 0 \<or> k = 1 \<or> k = 2" if "k * 4096 < 8200" for k :: nat using that by arith
  have "block_no fs_example 1 k < 3" if "k * 4096 < 8200" for k
    using k [OF that] by (auto simp: block_no_def inode_at_def ld32_disk)
  then show "file_ok fs_example 1"
    by (simp add: file_ok_def file_size_example)
  have z: "k = 0" if "k * 4096 < 28" for k :: nat using that by arith
  have "block_no fs_example 0 k < 3" if "k * 4096 < 28" for k
    using z [OF that] by (auto simp: block_no_def inode_at_def ld32_disk)
  then show "file_ok fs_example 0"
    by (simp add: file_ok_def file_size_example)
qed

section \<open>Properties\<close>

text \<open>C5: on a well-formed image, a read of a file at any offset below its size that spans less than two
  whole blocks (in particular every read of at most 4096 bytes), or that starts and ends on
  block boundaries, returns the number of bytes there are, puts exactly the file's bytes at
  that offset into the buffer, clears the rest of the buffer, advances the position by the
  number of bytes read and changes no other memory.\<close>

theorem read_data_reads:
  assumes "file_ok s inode" "inode < num_inodes (filesystem s) - 1"
    and "off < file_size s inode" "0 < len" "len < 2 ^ 31"
    and "apart buf len (BOOT_BLOCK_PTR s) (image_len s)"
    and "off mod 4096 + available s inode off len < 8192
      \<or> 4096 dvd off \<and> 4096 dvd available s inode off len"
  shows "read_data inode (of_nat off) buf (of_nat len) s
    = (int (available s inode off len),
       upd_file (fd_val s) (\<lambda>f. f\<lparr>fpos := of_nat (off + available s inode off len)\<rparr>)
        (s\<lparr>ram := wr (ram s) buf (file_bytes s inode off (available s inode off len)
                  @ replicate (len - available s inode off len) 0)\<rparr>))"
  using assms by (rule read_data_correct)

theorem read_data_reads_witness:
  "fst (read_data 0 0 0x700000 10 fs_example) = 10"
proof -
  have "available fs_example 0 0 10 = 10" by (simp add: available_def file_size_example)
  then show ?thesis
    using read_data_reads [of fs_example 0 0 10 "0x700000"] file_ok_example(1)
    by (simp add: file_size_example apart_def)
qed

text \<open>C40: from an offset on a block boundary, a read of two or more whole blocks and a rest does not
  return the file's bytes: the rest is a second copy of the beginning of the last whole block,
  not of the block after it, because \<open>block_p8tr\<close> is not recomputed for it.\<close>

theorem read_data_stale_tail:
  assumes "file_ok s inode" "inode < num_inodes (filesystem s) - 1"
    and "off + (4096 * q + r) \<le> file_size s inode" "4096 dvd off" "2 \<le> q" "0 < r" "r < 4096"
    and "apart buf (4096 * q + r) (BOOT_BLOCK_PTR s) (image_len s)"
  shows "rd (ram (snd (read_data inode (of_nat off) buf (of_nat (4096 * q + r)) s))) buf (4096 * q + r)
    = file_bytes s inode off (4096 * q) @ file_bytes s inode (off + 4096 * (q - 1)) r"
proof -
  let ?n = "4096 * q + r" and ?m = "wr (ram s) buf (replicate (4096 * q + r) 0)"
  let ?bs = "file_bytes s inode off (4096 * q) @ file_bytes s inode (off + 4096 * (q - 1)) r"
  have n: "?n \<le> 1023 * 4096" using assms(3) size_le [OF assms(1)] by linarith
  have av: "available s inode off ?n = ?n" using assms(3) by (simp add: available_def)
  have si: "same_image s ?m"
    using assms(8) by (intro same_image_wr) (simp_all add: same_image_def)
  have "blocks_loop s inode off buf True (off div 4096) (available s inode off ?n) buf ?m = wr ?m buf ?bs"
    using loop_aligned [OF assms(1) si assms(3,8,4,5,7)] by (simp only: av)
  from read_data_run [OF assms(1,2) _ _ assms(8) this] n assms(3,6) av
  have "ram (snd (read_data inode (of_nat off) buf (of_nat ?n) s)) = wr (ram s) buf ?bs" by simp
  then show ?thesis using n by (simp add: rd_wr_same)
qed

theorem read_data_stale_tail_witness:
  "rd (ram (snd (read_data 1 0 0x700000 8200 fs_example))) 0x700000 8200
     = file_bytes fs_example 1 0 8192 @ file_bytes fs_example 1 4096 8"
  using read_data_stale_tail [of fs_example 1 0 2 8 "0x700000"] file_ok_example(2)
  by (simp add: file_size_example apart_def)

text \<open>At or past the end of a file a read returns 0, and in the middle of a file whose inode is the
  last one it returns -1; both clear the buffer and leave the position as it was.\<close>

theorem read_data_errors:
  assumes "file_ok s inode" "unat len < 2 ^ 31" "apart buf (unat len) (BOOT_BLOCK_PTR s) (image_len s)"
  shows "(file_size s inode \<le> unat offset \<longrightarrow> read_data inode offset buf len s
           = (0, s\<lparr>ram := wr (ram s) buf (replicate (unat len) 0)\<rparr>))
    \<and> (unat offset < file_size s inode \<and> inode = num_inodes (filesystem s) - 1 \<longrightarrow>
         read_data inode offset buf len s = (-1, s\<lparr>ram := wr (ram s) buf (replicate (unat len) 0)\<rparr>))"
  using assms by (rule read_data_none)

theorem read_data_errors_witness:
  "fst (read_data 0 28 0x700000 10 fs_example) = 0"
  using read_data_errors [of fs_example 0 10 "0x700000" 28] file_ok_example(1)
  by (simp add: file_size_example apart_def)

text \<open>A program that reads an open file in pieces of at most 4096 bytes until a read returns 0
  gets exactly the rest of the file, from the descriptor's position to its end.\<close>

theorem drain_gets_file:
  assumes "open_at s fd inode off" "file_ok s inode" "inode < num_inodes (filesystem s) - 1"
    and "off \<le> file_size s inode" "0 < n" "n \<le> 4096"
    and "apart buf n (BOOT_BLOCK_PTR s) (image_len s)" "file_size s inode - off < fuel"
  shows "\<exists>t. drain fuel fd buf n s = Some (file_bytes s inode off (file_size s inode - off), t)
    \<and> open_at t fd inode (file_size s inode)"
  using assms by (rule drain_rest)

theorem drain_gets_file_witness:
  "\<exists>t. drain 29 0 0x700000 5 fs_example = Some (file_bytes fs_example 0 0 28, t)"
proof -
  have "open_at fs_example 0 0 0"
    by (simp add: open_at_def empty_pcb_def empty_file_def empty_dentry_def)
  from drain_gets_file [OF this file_ok_example(1), of 5 "0x700000" 29] show ?thesis
    by (auto simp: file_size_example apart_def)
qed

end
