(* ===== verification/Loader.thy ===== *)
theory Loader
  imports FileRead
begin

unbundle bit_operations_syntax

text \<open>
  Names, directories and programs: what \<open>read_dentry_by_name\<close>, \<open>read_dentry_by_index\<close>,
  \<open>dirread\<close> and \<open>loader\<close> find in the directory block, and the program image \<open>loader\<close> leaves in the
  new task's window.
\<close>

section \<open>The directory\<close>

definition entry_at :: "'a fs_state_scheme \<Rightarrow> nat \<Rightarrow> u32" where
  "entry_at s i = dentry_begin (filesystem s) + of_nat (i * 64)"

definition entry_name :: "'a fs_state_scheme \<Rightarrow> nat \<Rightarrow> u8 list" where
  "entry_name s i = cbytes (ram s) (entry_at s i) 32"

lemma find_name_find:
  "find_name fm fname m b is = find (\<lambda>i. cbytes m (b + of_nat (i * 64)) 32 = cbytes fm fname 32) is"
proof (induction "is")
  case (Cons i "is")
  have "cbytes (wr (\<lambda>_. 0) 0 (rd m a 32)) 0 32 = cbytes m a 32" for a
    by (simp add: cbytes_def rd_wr_same)
  then have "strncmp fm fname (wr (\<lambda>_. 0) 0 (rd m (b + of_nat (i * 64)) 32)) 0 32 = 0
      \<longleftrightarrow> cbytes m (b + of_nat (i * 64)) 32 = cbytes fm fname 32"
    using klib.ncmp_string [of fm fname "wr (\<lambda>_. 0) 0 (rd m (b + of_nat (i * 64)) 32)" 0 32] by auto
  then show ?case using Cons.IH by (simp del: of_nat_mult)
qed simp

lemma read_dentry_by_name_find:
  "read_dentry_by_name fm fname d s =
     (case find (\<lambda>i. entry_name s i = cbytes fm fname 32) [0..<62] of
        None \<Rightarrow> (-1, d) | Some i \<Rightarrow> (0, load_dentry (ram s) (entry_at s i) d))"
  unfolding read_dentry_by_name_def find_name_find entry_name_def entry_at_def MAX_FILE_def by (rule refl)

lemma find_first:
  assumes "i < n" "P i" "\<forall>j<i. \<not> P j"
  shows "find P [0..<n] = Some i"
proof -
  have "find P [0..<n] \<noteq> None" using assms by (auto simp: find_None_iff)
  then obtain k where k: "find P [0..<n] = Some k" by blast
  then have "k < n" "P k" "\<forall>j<k. \<not> P j" by (auto simp: find_Some_iff)
  then have "k = i" using assms by (metis linorder_neqE_nat)
  with k show ?thesis by simp
qed

lemma lookup_found:
  assumes "i < 62" "entry_name s i = cbytes fm fname 32" "\<forall>j<i. entry_name s j \<noteq> cbytes fm fname 32"
  shows "read_dentry_by_name fm fname d s = (0, load_dentry (ram s) (entry_at s i) d)"
  using find_first [of i 62 "\<lambda>i. entry_name s i = cbytes fm fname 32"] assms
  by (simp add: read_dentry_by_name_find del: upt_rec_numeral)

lemma lookup_missing:
  assumes "\<forall>j<62. entry_name s j \<noteq> cbytes fm fname 32"
  shows "read_dentry_by_name fm fname d s = (-1, d)"
proof -
  have "find (\<lambda>i. entry_name s i = cbytes fm fname 32) [0..<62] = None"
    using assms by (auto simp: find_None_iff simp del: upt_rec_numeral)
  then show ?thesis by (simp add: read_dentry_by_name_find del: upt_rec_numeral)
qed

text \<open>The entry the loop of \<open>dirread\<close> stops at.\<close>

lemma next_entry_run:
  assumes "p \<le> k" "\<forall>j. p \<le> j \<and> j < k \<longrightarrow> m (b + of_nat j * 64 + 32) = 0" "m (b + of_nat k * 64 + 32) \<noteq> 0"
  shows "next_entry m b (of_nat p) = Some (b + of_nat k * 64, of_nat (k + 1))"
  using assms
proof (induction "k - p" arbitrary: p)
  case 0
  then show ?case by (subst next_entry.simps) (simp add: add.commute)
next
  case (Suc x)
  then have p: "p < k" "m (b + of_nat p * 64 + 32) = 0" by auto
  have "next_entry m b (of_nat (p + 1)) = Some (b + of_nat k * 64, of_nat (k + 1))"
    using Suc.hyps(1) [of "p + 1"] Suc.hyps(2) Suc.prems p(1) by simp
  then show ?case using p(2) by (subst next_entry.simps) (simp add: add.commute)
qed

lemma dirread_run:
  assumes "fd < length (file_struct (pcblock s))" "fpos (file_struct (pcblock s) ! fd) = of_nat p"
    and "of_nat p < num_dir_entries (filesystem s)" "p \<le> k"
    and "\<forall>j. p \<le> j \<and> j < k \<longrightarrow> ram s (entry_at s j + 32) = 0" "ram s (entry_at s k + 32) \<noteq> 0"
    and "cstring (ram s) (entry_at s k) xs" "apart buf (length xs) (entry_at s k) (length xs + 1)"
  shows "dirread fd buf s = Some (int (length xs),
    upd_file fd (\<lambda>f. f\<lparr>fpos := of_nat (k + 1)\<rparr>) (s\<lparr>ram := wr (ram s) buf xs\<rparr>))"
proof -
  have e: "entry_at s j = dentry_begin (filesystem s) + of_nat j * 64" for j by (simp add: entry_at_def)
  have ne: "next_entry (ram s) (dentry_begin (filesystem s)) (of_nat p) = Some (entry_at s k, of_nat (k + 1))"
    using next_entry_run [OF assms(4)] assms(5,6) unfolding e by blast
  have n: "length xs < 2 ^ 31" using assms(7) by (simp add: cstring_def)
  then have un: "unat (of_nat (length xs) :: u32) = length xs" by (simp add: unat_of_nat_u32)
  have ap: "apart buf (length xs) (entry_at s k) (length xs)"
    using apart_sub [OF assms(8), of 0 "length xs" 0 "length xs"] n by simp
  have m: "memcpy (ram s) buf (entry_at s k) (of_nat (length xs)) = wr (ram s) buf xs"
    using kcopy.cp_apart [of buf "of_nat (length xs)" "entry_at s k" "ram s"] ap un cstringD(1) [OF assms(7)] by simp
  have "cstring (wr (ram s) buf xs) (entry_at s k) xs"
    using cstring_wr_apart [OF assms(7)] assms(8) by (simp add: apart_sym)
  then have l: "strlen (wr (ram s) buf xs) (entry_at s k) = Some (of_nat (length xs))"
    "strlen (ram s) (entry_at s k) = Some (of_nat (length xs))"
    using assms(7) by (simp_all add: klib.len_string)
  have "sint (of_nat (length xs) :: u32) = int (length xs)" using n un by (simp add: sint_u32)
  moreover have "\<not> num_dir_entries (filesystem s) \<le> of_nat p" using assms(3) by simp
  ultimately show ?thesis
    using assms(1,2) ne m l by (simp add: dirread_def Let_def upd_file_def)
qed

section \<open>The loader\<close>

text \<open>Loading the new task's directory changes what the user window shows and nothing else.\<close>

fun task_dir :: "nat \<Rightarrow> pdir" where
  "task_dir n = (if n = 1 then task1_page_directory else if n = 2 then task2_page_directory
     else if n = 3 then task3_page_directory else if n = 4 then task4_page_directory
     else if n = 5 then task5_page_directory else if n = 6 then task6_page_directory else page_directory)"

lemma load_task_run:
  assumes "1 \<le> unat (new_pid s)" "unat (new_pid s) \<le> 6"
  shows "cr3 (load_task s) = dir_addr (tables_at s) (task_dir (unat (new_pid s)))"
    "\<not> (0x08000000 \<le> a \<and> a < 0x08400000) \<Longrightarrow> ram (load_task s) a = ram s a"
    "filesystem (load_task s) = filesystem s" "BOOT_BLOCK_PTR (load_task s) = BOOT_BLOCK_PTR s"
proof -
  have "unat (new_pid s) \<in> {1, 2, 3, 4, 5, 6}" using assms by auto
  then have n: "new_pid s = 1 \<or> new_pid s = 2 \<or> new_pid s = 3 \<or> new_pid s = 4 \<or> new_pid s = 5 \<or> new_pid s = 6"
    by (auto simp: word_unat_eq_iff)
  show "cr3 (load_task s) = dir_addr (tables_at s) (task_dir (unat (new_pid s)))"
    using n by (elim disjE) (simp_all add: load_task_def)
  show "ram (load_task s) a = ram s a" if "\<not> (0x08000000 \<le> a \<and> a < 0x08400000)"
    using n that by (elim disjE) (auto simp: load_task_def load_cr3_def Let_def)
  show "filesystem (load_task s) = filesystem s" "BOOT_BLOCK_PTR (load_task s) = BOOT_BLOCK_PTR s"
    using n by (elim disjE; simp add: load_task_def load_cr3_def Let_def)+
qed

lemma rd_load_task:
  assumes "1 \<le> unat (new_pid s)" "unat (new_pid s) \<le> 6" "unat a + n \<le> 0x08000000"
  shows "rd (ram (load_task s)) a n = rd (ram s) a n"
proof (rule rd_cong)
  fix i assume "i < n"
  then have "unat (a + of_nat i) < 0x08000000"
    using assms(3) by (simp add: unat_word_ariths unat_of_nat)
  then show "ram (load_task s) (a + of_nat i) = ram s (a + of_nat i)"
    by (intro load_task_run(2) [OF assms(1,2)]) (simp add: word_le_nat_alt)
qed

text \<open>The word the loader assembles is the little-endian word at the address.\<close>

lemma entry_word:
  "push_bit 24 (ucast (d :: u8)) OR push_bit 16 (ucast (c :: u8)) OR push_bit 8 (ucast (b :: u8)) OR ucast (a :: u8)
   = (ucast a + 256 * ucast b + 65536 * ucast c + 16777216 * ucast d :: u32)"
proof -
  have disj: "push_bit 24 (ucast d) OR push_bit 16 (ucast c) OR push_bit 8 (ucast b) OR ucast a
      = push_bit 24 (ucast d) + push_bit 16 (ucast c) + push_bit 8 (ucast b) + (ucast a :: u32)"
  proof -
    have low: "bit (w :: u8) n \<Longrightarrow> n < 8" for w n using bit_imp_le_length [of w n] by simp
    have "push_bit 8 (ucast b) AND (ucast a :: u32) = 0"
      "push_bit 16 (ucast c) AND (push_bit 8 (ucast b) OR ucast a :: u32) = 0"
      "push_bit 24 (ucast d) AND (push_bit 16 (ucast c) OR push_bit 8 (ucast b) OR ucast a :: u32) = 0"
      by (rule bit_word_eqI, auto simp: bit_simps dest!: low)+
    then show ?thesis by (simp add: disjunctive_add_eq_or [symmetric] add.assoc or.assoc)
  qed
  show ?thesis unfolding disj by (simp add: push_bit_eq_mult)
qed

text \<open>The load of a program: its file read into the staging buffer, the task's directory loaded, the
  buffer copied to the program's address.\<close>

lemma read_program:
  assumes ok: "file_ok s inode" "inode < num_inodes (filesystem s) - 1"
    and n: "0 < file_size s inode" "file_size s inode < 8192 \<or> 4096 dvd file_size s inode"
    and ap: "apart NEW_LOAD (file_size s inode) (BOOT_BLOCK_PTR s) (image_len s)"
  shows "snd (read_data inode 0 NEW_LOAD (of_nat (file_size s inode)) s)
    = upd_file (fd_val s) (\<lambda>f. f\<lparr>fpos := of_nat (file_size s inode)\<rparr>)
        (s\<lparr>ram := wr (ram s) NEW_LOAD (file_bytes s inode 0 (file_size s inode))\<rparr>)"
proof -
  let ?n = "file_size s inode"
  have av: "available s inode 0 ?n = ?n" by (simp add: available_def)
  have "?n < 2 ^ 31" using size_le [OF ok(1)] by simp
  then show ?thesis
    using read_data_correct [OF ok n(1) n(1) _ ap] n(2) by (simp add: av)
qed

lemma program_block:
  assumes "file_ok s inode"
  shows "rd (ram s) (data_start (filesystem s) + ld32 (ram s) (BOOT_BLOCK_PTR s + (inode + 1) * 4096 + 4) * 4096) 4
    = file_bytes s inode 0 4"
proof -
  have "data_start (filesystem s) + ld32 (ram s) (BOOT_BLOCK_PTR s + (inode + 1) * 4096 + 4) * 4096 = block_at s inode 0"
    by (simp add: block_at_def block_no_def inode_at_def)
  moreover have "rd (ram s) (block_at s inode 0) 4 = file_bytes s inode 0 4"
    by (simp add: rd_def file_bytes_def upt_rec)
  ultimately show ?thesis by (simp only:)
qed

definition elf_magic :: "u8 list" where
  "elf_magic = [0x7f, 0x45, 0x4c, 0x46]"

text \<open>The entry point in an executable's header.\<close>

definition elf_entry :: "u8 list \<Rightarrow> u32" where
  "elf_entry bs = ucast (bs ! 24) + 256 * ucast (bs ! 25) + 65536 * ucast (bs ! 26) + 16777216 * ucast (bs ! 27)"

lemma loader_run:
  assumes lk: "read_dentry_by_name fm filename (dentry1 s) s = (0, d)" "inode_number d = inode"
    and ok: "file_ok s inode" "inode < num_inodes (filesystem s) - 1"
    and n: "28 \<le> file_size s inode" "file_size s inode < 8192 \<or> 4096 dvd file_size s inode"
    and magic: "file_bytes s inode 0 4 = elf_magic"
    and ap: "apart NEW_LOAD (file_size s inode) (BOOT_BLOCK_PTR s) (image_len s)"
  defines "bs \<equiv> file_bytes s inode 0 (file_size s inode)"
  defines "t \<equiv> upd_file (fd_val s) (\<lambda>f. f\<lparr>fpos := of_nat (file_size s inode)\<rparr>)
    (s\<lparr>dentry1 := d, ram := wr (ram s) NEW_LOAD bs\<rparr>)"
  shows "loader fm filename s = (sint (elf_entry bs),
    (load_task t)\<lparr>ram := memcpy (ram (load_task t)) PROGRAM_IMG NEW_LOAD (of_nat (file_size s inode))\<rparr>)"
proof -
  let ?n = "file_size s inode" and ?s = "s\<lparr>dentry1 := d\<rparr>"
  note sf = same_files [OF ok(1), of ?s, simplified]
  have sz: "?n \<le> 1023 * 4096" by (rule size_le [OF ok(1)])
  have len: "ld32 (ram s) (BOOT_BLOCK_PTR s + (inode + 1) * 4096) = of_nat ?n"
    by (simp add: file_size_def inode_at_def)
  have "(of_nat ?n :: u32) \<ge> 4" using n(1) sz by (simp add: word_le_nat_alt)
  then have big: "\<not> (of_nat ?n :: u32) < 4" by simp
  have rd: "snd (read_data inode 0 NEW_LOAD (of_nat ?n) ?s) = t"
    using read_program [of ?s inode] ok n ap sf by (simp add: t_def bs_def sf(4))
  have m: "ram t (NEW_LOAD + of_nat i) = bs ! i" if "i < ?n" for i
    using that sz by (simp add: t_def wr_in bs_def)
  have entry: "push_bit 24 (ucast (ram t (NEW_LOAD + 27))) OR push_bit 16 (ucast (ram t (NEW_LOAD + 26)))
      OR push_bit 8 (ucast (ram t (NEW_LOAD + 25))) OR ucast (ram t (NEW_LOAD + 24)) = elf_entry bs"
    using m [of 24] m [of 25] m [of 26] m [of 27] n(1) by (simp add: entry_word elf_entry_def)
  have magic': "rd (ram ?s) (data_start (filesystem ?s)
      + ld32 (ram ?s) (BOOT_BLOCK_PTR ?s + (inode + 1) * 4096 + 4) * 4096) 4 = elf_magic"
    using program_block [OF ok(1)] magic by simp
  show ?thesis
    unfolding loader_def lk(1) Let_def prod.case
    using lk(2) len big rd entry magic'
    by (simp add: elf_magic_def case_prod_unfold)
qed

lemma loader_image:
  assumes "1 \<le> unat (new_pid t)" "unat (new_pid t) \<le> 6" "rd (ram t) NEW_LOAD n = bs" "n \<le> 0x1FB000"
  shows "rd (memcpy (ram (load_task t)) PROGRAM_IMG NEW_LOAD (of_nat n)) PROGRAM_IMG n = bs"
    "a \<notin> region PROGRAM_IMG n \<Longrightarrow> \<not> (0x08000000 \<le> a \<and> a < 0x08400000) \<Longrightarrow>
     memcpy (ram (load_task t)) PROGRAM_IMG NEW_LOAD (of_nat n) a = ram t a"
proof -
  have un: "unat (of_nat n :: u32) = n" using assms(4) by (simp add: unat_of_nat_u32)
  have ap: "apart PROGRAM_IMG n NEW_LOAD n"
    using assms(4) by (simp add: apart_def PROGRAM_IMG_def NEW_LOAD_def)
  have src: "rd (ram (load_task t)) NEW_LOAD n = bs"
    using rd_load_task [OF assms(1,2), of NEW_LOAD n] assms(3,4) by (simp add: NEW_LOAD_def)
  then have m: "memcpy (ram (load_task t)) PROGRAM_IMG NEW_LOAD (of_nat n) = wr (ram (load_task t)) PROGRAM_IMG bs"
    using kcopy.cp_apart [of PROGRAM_IMG "of_nat n" NEW_LOAD] ap un by simp
  have l: "length bs = n" using assms(3) by auto
  then show "rd (memcpy (ram (load_task t)) PROGRAM_IMG NEW_LOAD (of_nat n)) PROGRAM_IMG n = bs"
    unfolding m using assms(4) by (simp add: rd_wr_same)
  show "memcpy (ram (load_task t)) PROGRAM_IMG NEW_LOAD (of_nat n) a = ram t a"
    if "a \<notin> region PROGRAM_IMG n" "\<not> (0x08000000 \<le> a \<and> a < 0x08400000)"
    unfolding m using that l load_task_run(2) [OF assms(1,2) that(2)] by (simp add: wr_out)
qed

section \<open>The example image\<close>

lemma cbytes_char: "m a = c \<Longrightarrow> c \<noteq> 0 \<Longrightarrow> m (a + 1) = 0 \<Longrightarrow> cbytes m a 32 = [c]"
  using cbytes_Suc [of m a 31] cbytes_Suc [of m "a + 1" 30] by simp

lemma disk_bytes: "disk 0x410040 = 0x61" "disk 0x410060 = 2" "disk 0x410080 = 0x62" "disk 0x4100C0 = 0"
  "disk 0x4100A0 = 2" "disk 0x4100A1 = 0"
  by (simp_all add: disk_def wr_def Let_def)

lemma lookup_a: "entry_name fs_example 0 = cbytes (lit ''a'') 0 32"
proof -
  have "entry_name fs_example 0 = [0x61]" unfolding entry_name_def
    by (rule cbytes_char) (simp_all add: entry_at_def disk_def wr_def Let_def)
  moreover have "cbytes (lit ''a'') 0 32 = [0x61]"
    by (rule cbytes_char) (simp_all add: lit_def str_def wr_def Let_def)
  ultimately show ?thesis by simp
qed

lemma load_a:
  "read_dentry_by_name (lit ''a'') 0 (dentry1 fs_example) fs_example
     = (0, load_dentry disk 0x410040 empty_dentry)"
  "inode_number (load_dentry disk 0x410040 empty_dentry) = 0"
  using lookup_found [of 0 fs_example "lit ''a''" 0] lookup_a
  by (simp_all add: entry_at_def load_dentry_def ld32_disk)

lemma magic_a: "file_bytes fs_example 0 0 4 = elf_magic"
  by (simp add: file_bytes_def upt_rec block_at_def block_no_def inode_at_def ld32_disk elf_magic_def)
    (simp add: disk_def wr_def Let_def)

section \<open>Properties\<close>

text \<open>\<open>read_dentry_by_name\<close> returns the first of the 62 directory slots whose name, cut off at 32
  characters, equals the name asked for cut off at 32 characters, and -1 with the caller's
  entry unchanged when there is none.\<close>

theorem lookup_by_name:
  assumes "name = cbytes fm fname 32"
  shows "(i < 62 \<and> entry_name s i = name \<and> (\<forall>j<i. entry_name s j \<noteq> name) \<longrightarrow>
      read_dentry_by_name fm fname d s = (0, load_dentry (ram s) (entry_at s i) d))
    \<and> ((\<forall>j<62. entry_name s j \<noteq> name) \<longrightarrow> read_dentry_by_name fm fname d s = (-1, d))"
  using lookup_found [of i s fm fname d] lookup_missing [of s fm fname d] unfolding assms by blast

theorem lookup_by_name_witness:
  "fst (read_dentry_by_name (lit ''a'') 0 empty_dentry fs_example) = 0"
  using lookup_by_name [of "cbytes (lit ''a'') 0 32" "lit ''a''" 0 0 fs_example] lookup_a by simp

text \<open>The empty name is found as soon as some slot's name is empty, as every unused slot's is:
  \<open>read_dentry_by_name\<close> answers 0 for a file that does not exist, with the inode number the
  unused slot happens to hold.\<close>

theorem empty_name_is_found:
  assumes "fm fname = 0" "i < 62" "ram s (entry_at s i) = 0" "\<forall>j<i. ram s (entry_at s j) \<noteq> 0"
  shows "read_dentry_by_name fm fname d s = (0, load_dentry (ram s) (entry_at s i) d)"
proof (rule lookup_found [OF assms(2)])
  have empty: "cbytes m a 32 = [] \<longleftrightarrow> m a = 0" for m a
    using cbytes_Suc [of m a 31] by simp
  then show "entry_name s i = cbytes fm fname 32" "\<forall>j<i. entry_name s j \<noteq> cbytes fm fname 32"
    using assms by (simp_all add: entry_name_def empty [THEN iffD2])
qed

theorem empty_name_is_found_witness:
  "fst (read_dentry_by_name (lit []) 0 empty_dentry fs_example) = 0"
proof -
  have j: "j = 0 \<or> j = 1" if "j < 2" for j :: nat using that by arith
  have "ram fs_example (entry_at fs_example j) \<noteq> 0" if "j < 2" for j
    using j [OF that] by (auto simp: entry_at_def disk_bytes)
  then show ?thesis
    using empty_name_is_found [of "lit []" 0 2 fs_example]
    by (simp add: entry_at_def disk_bytes lit_def str_def)
qed

text \<open>\<open>read_dentry_by_index\<close> never finds any of the first 36 inode numbers, whatever the directory
  holds: it compares the number asked for with the first byte of the directory plus the entry's
  offset, not with the entry's inode field.\<close>

theorem by_index_misses:
  assumes "unat index < 36"
  shows "read_dentry_by_index index d s = (-1, d)"
proof -
  have "ucast (ram s b) + of_nat (i * 64) + 36 \<noteq> index" if "i < 62" for i b
  proof
    assume "ucast (ram s b) + of_nat (i * 64) + 36 = index"
    moreover have "unat (of_nat (unat (ram s b) + i * 64 + 36) :: u32) = unat (ram s b) + i * 64 + 36"
      using that unsigned_less [of "ram s b", where 'a = nat] by (intro unat_of_nat_u32) simp
    ultimately show False using assms by (simp add: unsigned_ucast_eq algebra_simps)
  qed
  then have "find (\<lambda>i. ucast (ram s (dentry_begin (filesystem s))) + of_nat (i * 64) + 36 = index) [0..<62] = None"
    by (auto simp: find_None_iff simp del: upt_rec_numeral of_nat_mult)
  then show ?thesis
    by (simp add: read_dentry_by_index_def MAX_FILE_def del: upt_rec_numeral of_nat_mult)
qed

theorem by_index_misses_witness:
  "read_dentry_by_index 1 empty_dentry fs_example = (-1, empty_dentry)"
  using by_index_misses [of 1] by simp

text \<open>A read of the directory gives the name of the next entry that is not a device (whose type is
  not 0), with its length, and moves the position past it; at the end of the directory it
  returns 0.\<close>

theorem dirread_lists:
  assumes "fd < length (file_struct (pcblock s))" "fpos (file_struct (pcblock s) ! fd) = of_nat p"
  shows "(num_dir_entries (filesystem s) \<le> of_nat p \<longrightarrow> dirread fd buf s = Some (0, s))
    \<and> (of_nat p < num_dir_entries (filesystem s) \<and> p \<le> k
       \<and> (\<forall>j. p \<le> j \<and> j < k \<longrightarrow> ram s (entry_at s j + 32) = 0) \<and> ram s (entry_at s k + 32) \<noteq> 0
       \<and> cstring (ram s) (entry_at s k) name \<and> apart buf (length name) (entry_at s k) (length name + 1)
     \<longrightarrow> dirread fd buf s = Some (int (length name),
           upd_file fd (\<lambda>f. f\<lparr>fpos := of_nat (k + 1)\<rparr>) (s\<lparr>ram := wr (ram s) buf name\<rparr>)))"
proof (intro conjI impI)
  assume "num_dir_entries (filesystem s) \<le> of_nat p"
  then show "dirread fd buf s = Some (0, s)" using assms by (simp add: dirread_def)
qed (elim conjE, rule dirread_run [OF assms], assumption+)

theorem dirread_lists_witness:
  "\<exists>t. dirread 2 0x700000 fs_example = Some (1, t)"
proof -
  have "cstring (ram fs_example) (entry_at fs_example 0) [0x61]"
    by (simp add: cstring_def rd_def entry_at_def disk_def wr_def Let_def)
  then show ?thesis
    using dirread_lists [of 2 fs_example 0 "0x700000" 0 "[0x61]"]
      disk_bytes by (simp add: empty_pcb_def empty_file_def entry_at_def apart_def)
qed

text \<open>A name that fills all 32 bytes of its field is not NUL-terminated, so \<open>dirread\<close> runs on into
  the type field: it returns 33 and puts the type byte after the name.\<close>

theorem dirread_long_name:
  assumes "fd < length (file_struct (pcblock s))" "fpos (file_struct (pcblock s) ! fd) = of_nat k"
    and "of_nat k < num_dir_entries (filesystem s)"
    and "rd (ram s) (entry_at s k) 32 = name" "0 \<notin> set name"
    and "ram s (entry_at s k + 32) = t" "t \<noteq> 0" "ram s (entry_at s k + 33) = 0"
    and "apart buf 33 (entry_at s k) 34"
  shows "dirread fd buf s = Some (33,
    upd_file fd (\<lambda>f. f\<lparr>fpos := of_nat (k + 1)\<rparr>) (s\<lparr>ram := wr (ram s) buf (name @ [t])\<rparr>))"
proof -
  have l: "length name = 32" using assms(4) by auto
  have "rd (ram s) (entry_at s k) 33 = name @ [t]"
    using rd_add [of "ram s" "entry_at s k" 32 1] assms(4,6) by (simp add: rd_Suc)
  then have "cstring (ram s) (entry_at s k) (name @ [t])"
    using assms(5,7,8) l by (simp add: cstring_def)
  moreover have "\<forall>j. k \<le> j \<and> j < k \<longrightarrow> ram s (entry_at s j + 32) = 0" by auto
  ultimately show ?thesis
    using dirread_run [OF assms(1-3) order_refl, of "name @ [t]" buf] assms(6,7,9) l by simp
qed

theorem dirread_long_name_witness:
  "\<exists>t. dirread 2 0x700000 (upd_file 2 (\<lambda>f. f\<lparr>fpos := 1\<rparr>) fs_example) = Some (33, t)"
proof -
  let ?s = "upd_file 2 (\<lambda>f. f\<lparr>fpos := 1\<rparr>) fs_example"
  have e: "entry_at ?s 1 = 0x410080" by (simp add: entry_at_def)
  have "rd disk 0x410080 32 = replicate 32 0x62"
    by (simp add: disk_def rd_upd region_def rd_wr_same)
  then show ?thesis
    using dirread_long_name [of 2 ?s 1 "replicate 32 0x62" 2 "0x700000"] unfolding e
    by (simp add: upd_file_def empty_pcb_def empty_file_def apart_def disk_bytes)
qed

text \<open>C8: \<open>loader\<close> on a name that is in the directory and whose file starts with the ELF magic bytes
  (and is read in full: shorter than two blocks, or a whole number of blocks) returns the entry
  point from the file's header, leaves exactly the file's bytes at 0x08048000 in the window of
  the new task, whose directory is then loaded, and outside the window changes only the staging
  buffer.\<close>

theorem loader_loads:
  assumes lk: "read_dentry_by_name fm filename (dentry1 s) s = (0, d)" "inode_number d = inode"
    and ok: "file_ok s inode" "inode < num_inodes (filesystem s) - 1"
    and n: "28 \<le> file_size s inode" "file_size s inode \<le> 0x1FB000"
      "file_size s inode < 8192 \<or> 4096 dvd file_size s inode"
    and magic: "file_bytes s inode 0 4 = elf_magic"
    and ap: "apart NEW_LOAD (file_size s inode) (BOOT_BLOCK_PTR s) (image_len s)"
    and pid: "1 \<le> unat (new_pid s)" "unat (new_pid s) \<le> 6"
  shows "fst (loader fm filename s) = sint (elf_entry (file_bytes s inode 0 (file_size s inode)))
    \<and> rd (ram (snd (loader fm filename s))) PROGRAM_IMG (file_size s inode)
        = file_bytes s inode 0 (file_size s inode)
    \<and> cr3 (snd (loader fm filename s)) = dir_addr (tables_at s) (task_dir (unat (new_pid s)))
    \<and> (\<forall>a. a \<notin> region PROGRAM_IMG (file_size s inode) \<longrightarrow> a \<notin> region NEW_LOAD (file_size s inode)
        \<longrightarrow> \<not> (0x08000000 \<le> a \<and> a < 0x08400000) \<longrightarrow> ram (snd (loader fm filename s)) a = ram s a)"
proof -
  let ?n = "file_size s inode"
  let ?bs = "file_bytes s inode 0 ?n"
  define t where "t = upd_file (fd_val s) (\<lambda>f. f\<lparr>fpos := of_nat ?n\<rparr>)
    (s\<lparr>dentry1 := d, ram := wr (ram s) NEW_LOAD ?bs\<rparr>)"
  have run: "loader fm filename s = (sint (elf_entry ?bs),
      (load_task t)\<lparr>ram := memcpy (ram (load_task t)) PROGRAM_IMG NEW_LOAD (of_nat ?n)\<rparr>)"
    unfolding t_def by (rule loader_run [OF lk ok n(1,3) magic ap])
  have t: "new_pid t = new_pid s" "tables_at t = tables_at s" "ram t = wr (ram s) NEW_LOAD ?bs"
    by (simp_all add: t_def upd_file_def)
  have "rd (ram t) NEW_LOAD ?n = ?bs" using n(2) by (simp add: t rd_wr_same)
  note im = loader_image [OF _ _ this n(2), unfolded t(1), OF pid]
  have "ram (snd (loader fm filename s)) a = ram s a"
    if "a \<notin> region PROGRAM_IMG ?n" "a \<notin> region NEW_LOAD ?n" "\<not> (0x08000000 \<le> a \<and> a < 0x08400000)" for a
    using im(2) [OF that(1,3)] that(2) by (simp add: run t(3) wr_out)
  moreover have "cr3 (load_task t) = dir_addr (tables_at s) (task_dir (unat (new_pid s)))"
    using load_task_run(1) [of t] pid by (simp only: t)
  ultimately show ?thesis using im(1) by (simp add: run)
qed

theorem loader_loads_witness:
  "fst (loader (lit ''a'') 0 fs_example) = 0x08048074"
proof -
  have "elf_entry (file_bytes fs_example 0 0 28) = 0x08048074"
    by (simp add: elf_entry_def file_bytes_def upt_rec block_at_def block_no_def inode_at_def ld32_disk)
      (simp add: disk_def wr_def Let_def)
  then show ?thesis
    using loader_loads [OF load_a file_ok_example(1)] magic_a
    by (simp add: file_size_example NEW_LOAD_def apart_def)
qed

text \<open>\<open>loader\<close> refuses a name that is not in the directory, a file of fewer than four bytes and a
  file without the ELF magic bytes with -1, before it touches memory or the page directory.\<close>

theorem loader_refuses:
  assumes "read_dentry_by_name fm filename (dentry1 s) s = (r, d)" "r = -1 \<or> r = 0"
    and "r = 0 \<longrightarrow> file_ok s (inode_number d) \<and> (file_size s (inode_number d) < 4
      \<or> file_bytes s (inode_number d) 0 4 \<noteq> elf_magic)"
  shows "fst (loader fm filename s) = -1 \<and> ram (snd (loader fm filename s)) = ram s
    \<and> cr3 (snd (loader fm filename s)) = cr3 s \<and> pc (snd (loader fm filename s)) = pc s"
proof (cases "r = -1")
  case True
  then show ?thesis using assms(1) by (simp add: loader_def)
next
  case False
  let ?i = "inode_number d" and ?s = "s\<lparr>dentry1 := d\<rparr>"
  have ok: "file_ok s ?i" using False assms(2,3) by auto
  have "rd (ram s) (data_start (filesystem s) + ld32 (ram s) (BOOT_BLOCK_PTR s + (?i + 1) * 4096 + 4) * 4096) 4
      = file_bytes s ?i 0 4" by (rule program_block [OF ok])
  moreover have "ld32 (ram s) (BOOT_BLOCK_PTR s + (?i + 1) * 4096) = of_nat (file_size s ?i)"
    by (simp add: file_size_def inode_at_def)
  moreover have "(of_nat (file_size s ?i) :: u32) < 4 \<longleftrightarrow> file_size s ?i < 4"
    using size_le [OF ok] by (simp add: word_less_nat_alt)
  moreover have "bs ! 0 = 0x7f \<and> bs ! 1 = 0x45 \<and> bs ! 2 = 0x4c \<and> bs ! 3 = 0x46 \<longleftrightarrow> bs = elf_magic"
    if "length bs = 4" for bs :: "u8 list"
    using that by (auto simp: elf_magic_def length_Suc_conv numeral_eq_Suc)
  ultimately show ?thesis
    using False assms unfolding loader_def Let_def assms(1) prod.case by (auto simp del: One_nat_def)
qed

theorem loader_refuses_witness:
  "fst (loader (lit ''b'') 0 (fs_example\<lparr>ram := \<lambda>_. 0\<rparr>)) = -1"
proof -
  let ?s = "fs_example\<lparr>ram := \<lambda>_. 0\<rparr>"
  have "cbytes (lit ''b'') 0 32 = [0x62]"
    by (rule cbytes_char) (simp_all add: lit_def str_def wr_def Let_def)
  moreover have "entry_name ?s j = []" for j
    using cbytes_Suc [of "\<lambda>_. 0" "entry_at ?s j" 31] by (simp add: entry_name_def)
  ultimately have "read_dentry_by_name (lit ''b'') 0 (dentry1 ?s) ?s = (-1, empty_dentry)"
    using lookup_missing [of ?s "lit ''b''" 0] by simp
  from loader_refuses [OF this] show ?thesis by simp
qed

end
