(* ===== verification/Syscalls.thy ===== *)
theory Syscalls
  imports Terminal Loader
begin

unbundle bit_operations_syntax

text \<open>
  The system calls, \<^verbatim>\<open>student-distrib/systemcalls.c\<close>, and their dispatcher in
  \<^verbatim>\<open>syscall_table.S\<close>. The control block of the running task is \<open>pcblock\<close>; copies of control
  blocks that \<open>execute\<close> and \<open>open\<close> save on the kernel stacks' page are \<open>pcbs\<close>, by address: no
  other code of the kernel writes there. The stack and base pointer at a call of \<open>execute\<close> are
  parameters, and a call that leaves the caller's stack says where it goes on (\<open>outcome\<close>).
  \<open>None\<close> means that a call does not return or leaves the meaning of C: a jump through a null
  pointer, an uninitialised index, a write past the control block.
\<close>

section \<open>State\<close>

record sys_state = term_state +
  tasks :: "u32 list"
  fd_rtc :: nat
  term1_rst :: int
  term2_rst :: int
  term3_rst :: int
  pcbs :: "u32 \<Rightarrow> pcb_t"
  tss_ss0 :: u32
  tss_esp0 :: u32

datatype outcome =
    Ret int
  | User_mode u32 u32  \<comment> \<open>\<open>iret\<close> to a program: its entry point and stack pointer\<close>
  | Resume u32 u32 int \<comment> \<open>on a stack left earlier: stack pointer, base pointer and the value returned there\<close>

definition FD_MIN :: nat where "FD_MIN = 2"
definition FD_MAX :: int where "FD_MAX = 7"
definition FILE_ARRAY_SIZE :: nat where "FILE_ARRAY_SIZE = 8"
definition MAX_TASKS :: nat where "MAX_TASKS = 7"
definition CMD_LEN :: nat where "CMD_LEN = 40"
definition BUFF_MAX :: nat where "BUFF_MAX = 1024"
definition T_SHELL_MAX :: int where "T_SHELL_MAX = 3"
definition EIGHT_MB :: u32 where "EIGHT_MB = 0x800000"
definition FOUR_MB :: u32 where "FOUR_MB = 0x400000"
definition MB_132 :: u32 where "MB_132 = 0x08400000"
definition KB_8 :: u32 where "KB_8 = 0x2000"
definition START :: u32 where "START = 4"
definition T_6 :: u32 where "T_6 = 6"
definition KERNEL_DS :: u32 where "KERNEL_DS = 0x18"
definition video_mem :: u32 where "video_mem = 0xB8000"

lemmas sys_consts = FD_MIN_def FD_MAX_def FILE_ARRAY_SIZE_def MAX_TASKS_def CMD_LEN_def BUFF_MAX_def
  T_SHELL_MAX_def EIGHT_MB_def FOUR_MB_def MB_132_def KB_8_def START_def T_6_def KERNEL_DS_def video_mem_def

text \<open>Where the control block of a task is saved, and the top of its kernel stack.\<close>

definition pcb_at :: "u32 \<Rightarrow> u32" where
  "pcb_at pid = EIGHT_MB - KB_8 * pid - START - T_6 * KB_8"

definition kernel_stack :: "u32 \<Rightarrow> u32" where
  "kernel_stack pid = EIGHT_MB - KB_8 * (pid - 1) - START"

section \<open>Processes and descriptors\<close>

text \<open>The functions \<open>read\<close>, \<open>write\<close>, \<open>open\<close> and \<open>close\<close> carry the names of their entries in the
  dispatcher.\<close>

definition find_pid :: "'a paging_state_scheme \<Rightarrow> int" where
  "find_pid s =
     (let c = cr3 s; at = dir_addr (tables_at s)
      in if c = at page_directory then 0
         else if c = at task1_page_directory then 1
         else if c = at task2_page_directory then 2
         else if c = at task3_page_directory then 3
         else if c = at task4_page_directory then 4
         else if c = at task5_page_directory then 5
         else if c = at task6_page_directory then 6
         else -1)"

text \<open>The tables of file operations: a call through \<open>fops_ptr\<close>. The file system's table has the
  terminal's write.\<close>

definition fops_read :: "int \<Rightarrow> 'a term_state_scheme handler list \<Rightarrow> fops_t \<Rightarrow> int \<Rightarrow> u32 \<Rightarrow> int
    \<Rightarrow> 'a term_state_scheme \<Rightarrow> (int \<times> 'a term_state_scheme) option" where
  "fops_read junk irqs ops fd buf nbytes s =
     (case ops of
        NULL_fops \<Rightarrow> None
      | rtc_fops \<Rightarrow> rtc_read irqs fd buf nbytes s
      | terminal_fops \<Rightarrow> terminal_read junk irqs fd buf nbytes s
      | filesystem_fops \<Rightarrow> filesystem_read (nat fd) buf nbytes s)"

definition fops_write :: "int \<Rightarrow> ('a term_state_scheme \<Rightarrow> mem) \<Rightarrow> device \<Rightarrow> fops_t \<Rightarrow> int \<Rightarrow> u32 \<Rightarrow> int
    \<Rightarrow> 'a term_state_scheme \<Rightarrow> (int \<times> 'a term_state_scheme) option" where
  "fops_write junk src dev ops fd buf nbytes s =
     (case ops of
        NULL_fops \<Rightarrow> None
      | rtc_fops \<Rightarrow> rtc_write dev fd buf nbytes s
      | terminal_fops \<Rightarrow> Some (terminal_write junk src fd buf nbytes s)
      | filesystem_fops \<Rightarrow> Some (terminal_write junk src fd buf nbytes s))"

definition sys_read :: "int \<Rightarrow> 'a term_state_scheme handler list \<Rightarrow> int \<Rightarrow> u32 \<Rightarrow> int
    \<Rightarrow> 'a term_state_scheme \<Rightarrow> (int \<times> 'a term_state_scheme) option" where
  "sys_read junk irqs fd buf nbytes s =
     (if buf = 0 \<or> fd < 0 \<or> fd > FD_MAX \<or> flags (file_struct (pcblock s) ! nat fd) = 0 \<or> nbytes < 0
      then Some (-1, s)
      else fops_read junk irqs (fops_ptr (file_struct (pcblock s) ! nat fd)) fd buf nbytes s)"

definition sys_write :: "int \<Rightarrow> ('a term_state_scheme \<Rightarrow> mem) \<Rightarrow> device \<Rightarrow> int \<Rightarrow> u32 \<Rightarrow> int
    \<Rightarrow> 'a term_state_scheme \<Rightarrow> (int \<times> 'a term_state_scheme) option" where
  "sys_write junk src dev fd buf nbytes s =
     (if buf = 0 \<or> fd < 0 \<or> fd > FD_MAX \<or> flags (file_struct (pcblock s) ! nat fd) = 0 \<or> nbytes < 0
      then Some (-1, s)
      else fops_write junk src dev (fops_ptr (file_struct (pcblock s) ! nat fd)) fd buf nbytes s)"

text \<open>
  \<open>file_struct[8]\<close>, one past the array, is the first directory entry of the packed control block:
  its flags are bytes 12 to 15 of that entry's name, and its operations bytes 0 to 3.
\<close>

definition flags_at :: "pcb_t \<Rightarrow> nat \<Rightarrow> u32" where
  "flags_at p i =
     (if i < FILE_ARRAY_SIZE then flags (file_struct p ! i)
      else ld32 (wr (\<lambda>_. 0) 0 (file_name (dentries p ! 0))) 12)"

definition null_fops :: "nat \<Rightarrow> 'a fs_state_scheme \<Rightarrow> 'a fs_state_scheme" where
  "null_fops i s =
     (if i < FILE_ARRAY_SIZE then upd_file i (\<lambda>f. f\<lparr>fops_ptr := NULL_fops\<rparr>) s
      else upd_dentry 0 (\<lambda>d. d\<lparr>file_name := replicate 4 0 @ drop 4 (file_name d)\<rparr>) s)"

definition save_pcb :: "u32 \<Rightarrow> 'a sys_state_scheme \<Rightarrow> 'a sys_state_scheme" where
  "save_pcb a s = s\<lparr>pcbs := (pcbs s)(a := pcblock s)\<rparr>"

text \<open>The loop that looks for an unused descriptor; \<open>None\<close> leaves \<open>index_temp\<close> unassigned.\<close>

definition free_fd :: "pcb_t \<Rightarrow> nat option" where
  "free_fd p = find (\<lambda>i. flags_at p i = 0) [FD_MIN..<FILE_ARRAY_SIZE + 1]"

text \<open>\<open>open\<close> once it has the descriptor.\<close>

definition open_entry :: "device \<Rightarrow> mem \<Rightarrow> u32 \<Rightarrow> u32 \<Rightarrow> nat \<Rightarrow> 'a sys_state_scheme \<Rightarrow> int \<times> 'a sys_state_scheme" where
  "open_entry dev fm filename pcb_ptr i s =
     (let s = upd_file i (\<lambda>f. f\<lparr>flags := 1\<rparr>) s;
          s = (if strncmp fm filename (lit []) 0 1 \<noteq> 0
               then upd_dentry i (\<lambda>d. snd (read_dentry_by_name fm filename d s)) s else s);
          (r, s) = filesystem_open fm filename s
      in if r = -1 then
           let s = upd_file i (\<lambda>f. f\<lparr>flags := 0\<rparr>) s
           in (-1, save_pcb pcb_ptr s)
         else if file_type (dentries (pcblock s) ! i) = 0 then
           let s = s\<lparr>fd_rtc := i\<rparr>;
               (_, s) = rtc_open dev filename s;
               s = upd_file i (\<lambda>f. f\<lparr>flags := 1\<rparr>) s;
               s = upd_file (fd_rtc s) (\<lambda>f. f\<lparr>fops_ptr := rtc_fops\<rparr>) s
           in (int i, save_pcb pcb_ptr s)
         else
           let s = upd_file i (\<lambda>f. f\<lparr>fpos := 0, fops_ptr := filesystem_fops\<rparr>) s
           in (int i, save_pcb pcb_ptr s))"

definition sys_open :: "device \<Rightarrow> mem \<Rightarrow> u32 \<Rightarrow> 'a sys_state_scheme \<Rightarrow> (int \<times> 'a sys_state_scheme) option" where
  "sys_open dev fm filename s =
     (let pcb_ptr = pcb_at (of_int (find_pid s));
          s = s\<lparr>fd_index := FD_MIN\<rparr>
      in if filename = 0 then Some (-1, s)
         else case free_fd (pcblock s) of
           None \<Rightarrow> None
         | Some i \<Rightarrow>
             let s = s\<lparr>fd_index := i\<rparr>
             in if i = FILE_ARRAY_SIZE then Some (-1, s) else Some (open_entry dev fm filename pcb_ptr i s))"

definition sys_close :: "int \<Rightarrow> 'a sys_state_scheme \<Rightarrow> int \<times> 'a sys_state_scheme" where
  "sys_close fd s =
     (if fd > FD_MAX \<or> fd < int FD_MIN then (-1, s)
      else if flags (file_struct (pcblock s) ! nat fd) = 1 then
        let i = nat fd;
            s = upd_file i (\<lambda>f. f\<lparr>fpos := 0\<rparr>) s;
            s = upd_dentry i (\<lambda>d. d\<lparr>file_type := 0, inode_number := 0\<rparr>) s;
            s = null_fops (fd_index s) s;
            s = upd_dentry i (\<lambda>d. d\<lparr>file_name := replicate 32 0, d_reserved := replicate 24 0\<rparr>) s;
            s = (if fd_rtc s > 1 \<and> i = fd_rtc s then snd (rtc_close fd s) else snd (filesystem_close i s))
        in (0, upd_file i (\<lambda>f. f\<lparr>flags := 0\<rparr>) s)
      else (-1, s))"

section \<open>The command line\<close>

text \<open>\<open>cmd_name[k] = c\<close> and \<open>arg_name[k] = c\<close>: past the arrays the writes go on in the fields that
  follow in the packed control block, and past its end the model stops.\<close>

definition put_arg :: "nat \<Rightarrow> u8 \<Rightarrow> pcb_t \<Rightarrow> pcb_t option" where
  "put_arg k c p =
     (if k < CMD_LEN then Some (p\<lparr>arg_name := (arg_name p)[k := c]\<rparr>)
      else if k = CMD_LEN then Some (p\<lparr>data_arg_size := c\<rparr>)
      else None)"

definition put_cmd :: "nat \<Rightarrow> u8 \<Rightarrow> pcb_t \<Rightarrow> pcb_t option" where
  "put_cmd k c p =
     (if k < CMD_LEN then Some (p\<lparr>cmd_name := (cmd_name p)[k := c]\<rparr>) else put_arg (k - CMD_LEN) c p)"

text \<open>The loop over the characters: whether the argument is being read, how many characters each
  part has, and the control block.\<close>

fun parse_loop :: "mem \<Rightarrow> u32 \<Rightarrow> nat list \<Rightarrow> bool \<times> nat \<times> nat \<times> pcb_t \<Rightarrow> (nat \<times> pcb_t) option" where
  "parse_loop fm input [] (switch_flag, cmd_size, arg_size, p) = Some (arg_size, p)"
| "parse_loop fm input (i # is) (switch_flag, cmd_size, arg_size, p) =
     (let c = fm (input + of_nat i);
          cmd = \<not> switch_flag \<and> c \<noteq> 0x20;
          arg = switch_flag \<and> c \<noteq> 0x20;
          switch_flag' = (switch_flag \<or> fm (input + of_nat i + 1) = 0x20)
      in Option.bind (if cmd then put_cmd cmd_size c p else if arg then put_arg arg_size c p else Some p)
           (\<lambda>p. parse_loop fm input is
                  (switch_flag', if cmd then cmd_size + 1 else cmd_size, if arg then arg_size + 1 else arg_size, p)))"

text \<open>The counters are bytes: \<open>input_length\<close> is the length modulo 256, and the others stay below it.\<close>

definition parse_cmd :: "mem \<Rightarrow> u32 \<Rightarrow> pcb_t \<Rightarrow> pcb_t option" where
  "parse_cmd fm input p =
     Option.bind (strlen fm input) (\<lambda>n.
       let input_length = unat n mod 256;
           p = p\<lparr>cmd_name := replicate CMD_LEN 0, arg_name := replicate CMD_LEN 0\<rparr>;
           first = (if fm input = 0x20
                    then length (filter (\<lambda>i. fm (input + of_nat i) = 0x20) [0..<input_length]) else 0)
       in map_option (\<lambda>(arg_size, p). p\<lparr>data_arg_size := of_nat arg_size\<rparr>)
            (parse_loop fm input [first..<input_length] (False, 0, 0, p)))"

section \<open>Starting and ending programs\<close>

text \<open>The loop of \<open>execute\<close> over the task slots: at 2 it doubles the index.\<close>

function free_task :: "u32 list \<Rightarrow> nat \<Rightarrow> nat option" where
  "free_task ts i =
     (if i < MAX_TASKS then
        let i = (if i = 2 then i + i else i)
        in if ts ! i = 0 then Some i else free_task ts (i + 1)
      else None)"
  by pat_completeness auto

termination free_task
  by (relation "measure (\<lambda>(ts, i). MAX_TASKS - i)") (auto split: if_splits)

declare free_task.simps [simp del]

definition new_task :: "mem \<Rightarrow> u32 \<Rightarrow> 'a sys_state_scheme \<Rightarrow> 'a sys_state_scheme" where
  "new_task fm command s =
     (let s = s\<lparr>new_pid := of_nat (case free_task (tasks s) 1 of Some i \<Rightarrow> i | None \<Rightarrow> MAX_TASKS)\<rparr>;
          shell = (strncmp fm command (lit ''shell'') 0 5 = 0)
      in if pc s = 0 then s\<lparr>new_pid := 1\<rparr>
         else if shell \<and> term1_rst s \<noteq> 0 then s\<lparr>term1_rst := 0, new_pid := 1\<rparr>
         else if shell \<and> (term2_press s \<noteq> 0 \<or> term2_rst s \<noteq> 0) then s\<lparr>term2_rst := 0, new_pid := 2\<rparr>
         else if shell \<and> (term3_press s \<noteq> 0 \<or> term3_rst s \<noteq> 0) then s\<lparr>term3_rst := 0, new_pid := 3\<rparr>
         else s)"

text \<open>The descriptors of a new program: the two terminal descriptors open, the others unused.\<close>

definition start_files :: "file_struct_t list \<Rightarrow> file_struct_t list" where
  "start_files fs =
     (let fs = fs[0 := (fs ! 0)\<lparr>flags := 1, fops_ptr := terminal_fops\<rparr>];
          fs = fs[1 := (fs ! 1)\<lparr>flags := 1, fops_ptr := terminal_fops\<rparr>]
      in fold (\<lambda>i fs. fs[i := (fs ! i)\<lparr>flags := 0\<rparr>]) [2..<8] fs)"

text \<open>The second half of \<open>execute\<close>, once the program is in memory: the control block of the new task,
  then the directory it will run under and the jump to user mode.\<close>

definition set_up_task :: "u32 \<Rightarrow> 'a sys_state_scheme \<Rightarrow> 'a sys_state_scheme" where
  "set_up_task cur_pid s =
     (let s = s\<lparr>term2_press := 0, term3_press := 0\<rparr>;
          s = s\<lparr>pcblock := (pcblock s)\<lparr>file_struct := start_files (file_struct (pcblock s))\<rparr>\<rparr>;
          s = load_cr3 (cr3 s) s;
          s = s\<lparr>pcblock := (pcblock s)\<lparr>pcb_cr3 := cr3 s\<rparr>\<rparr>;
          pcbptr = pcb_at (new_pid s);
          s = save_pcb pcbptr s
      in s\<lparr>pcblock := (pcblock s)\<lparr>prev_pcb := pcbptr, parent_pid := cur_pid\<rparr>\<rparr>)"

definition enter_user :: "u32 \<Rightarrow> 'a sys_state_scheme \<Rightarrow> outcome \<times> 'a sys_state_scheme" where
  "enter_user eip s =
     (User_mode eip (MB_132 - START),
      sti (cli (s\<lparr>tss_ss0 := KERNEL_DS, tss_esp0 := kernel_stack (new_pid s)\<rparr>)))"

definition start_program :: "u32 \<Rightarrow> u32 \<Rightarrow> 'a sys_state_scheme \<Rightarrow> (outcome \<times> 'a sys_state_scheme) option" where
  "start_program cur_pid eip s =
     (let s = set_up_task cur_pid s;
          task = (\<lambda>d. Some (enter_user eip (s\<lparr>pcblock := (pcblock s)\<lparr>pcb_cr3 := dir_addr (tables_at s) d\<rparr>\<rparr>)))
      in if new_pid s = 0 then
           map_option (\<lambda>(_, s). enter_user eip s) (printf (lit ''I don't think you should ever be here'') (\<lambda>_. 0) [] s)
         else if new_pid s = 1 then task task1_page_directory
         else if new_pid s = 2 then task task2_page_directory
         else if new_pid s = 3 then task task3_page_directory
         else if new_pid s = 4 then task task4_page_directory
         else if new_pid s = 5 then task task5_page_directory
         else if new_pid s = 6 then task task6_page_directory
         else Some (Ret (-1), s))"

text \<open>\<open>execute\<close> in parts: the caller's control block, the program, and the choice of the slot first.\<close>

definition caller_pid :: "'a paging_state_scheme \<Rightarrow> u32" where
  "caller_pid s = (let cur_pid = find_pid s in of_int (if cur_pid = 0 then cur_pid + 1 else cur_pid))"

definition leave_caller :: "u32 \<Rightarrow> u32 \<Rightarrow> u32 \<Rightarrow> 'a sys_state_scheme \<Rightarrow> 'a sys_state_scheme" where
  "leave_caller esp ebp cur_pid s =
     (let s = s\<lparr>tasks := (tasks s)[unat (new_pid s) := cur_pid]\<rparr>;
          s = s\<lparr>pcblock := (pcblock s)\<lparr>pcb_esp := esp, pcb_ebp := ebp\<rparr>\<rparr>
      in if new_pid s \<noteq> 1 then
           let pcbptra = pcb_at cur_pid;
               s = save_pcb pcbptra s
           in s\<lparr>pcblock := (pcblock s)\<lparr>prev_pcb := pcbptra\<rparr>\<rparr>
         else s)"

definition run_program :: "mem \<Rightarrow> u32 \<Rightarrow> u32 \<Rightarrow> 'a sys_state_scheme \<Rightarrow> (outcome \<times> 'a sys_state_scheme) option" where
  "run_program fm command cur_pid s =
     Option.bind (parse_cmd fm command (pcblock s)) (\<lambda>p.
       let (r, s) = loader (wr (\<lambda>_. 0) 0 (cmd_name p)) 0 (s\<lparr>pcblock := p\<rparr>);
           eip = of_int r :: u32
       in if eip = -1 then Some (Ret (-1), s) else start_program cur_pid eip s)"

definition execute :: "int \<Rightarrow> device \<Rightarrow> u32 \<Rightarrow> u32 \<Rightarrow> mem \<Rightarrow> u32 \<Rightarrow> 'a sys_state_scheme
    \<Rightarrow> (outcome \<times> 'a sys_state_scheme) option" where
  "execute junk dev esp ebp fm command s =
     (if command = 0 then Some (Ret (-1), s)
      else
        let cur_pid = caller_pid s;
            s = new_task fm command (s\<lparr>pcblock := (pcblock s)\<lparr>pcb_cr3 := cr3 s\<rparr>\<rparr>)
        in if new_pid s = of_nat MAX_TASKS then
             map_option (\<lambda>(_, s). (Ret (-1), s))
               (sys_write junk (\<lambda>_. wr (\<lambda>_. 0) 4 (str ''6 programs already open.\<newline>'')) dev 1 4 25 s)
           else run_program fm command cur_pid (leave_caller esp ebp cur_pid s))"

text \<open>Ending a shell, which is then started again.\<close>

definition end_shell :: "int \<Rightarrow> 'a sys_state_scheme \<Rightarrow> 'a sys_state_scheme" where
  "end_shell pidf s =
     (let s = (if pidf = 1 then s\<lparr>term1_rst := 1\<rparr>
               else if pidf = 2 then s\<lparr>term2_rst := 1\<rparr>
               else if pidf = 3 then s\<lparr>term3_rst := 1\<rparr> else s);
          s = s\<lparr>tasks := (tasks s)[nat pidf := 0]\<rparr>
      in s\<lparr>pc := pc s - 1\<rparr>)"

text \<open>Ending a program: back on the caller's stack the status is popped into \<open>eax\<close> and overwritten with 0,
  which is the value \<open>execute\<close> returns there.\<close>

definition halt :: "int \<Rightarrow> device \<Rightarrow> u32 \<Rightarrow> u32 \<Rightarrow> u8 \<Rightarrow> 'a sys_state_scheme \<Rightarrow> (outcome \<times> 'a sys_state_scheme) option" where
  "halt junk dev esp ebp status s =
     (let pidf = find_pid s
      in if pidf < 0 then None
         else if pidf \<le> T_SHELL_MAX then
           map_option (\<lambda>(r, s). (case r of Ret _ \<Rightarrow> Ret 0 | _ \<Rightarrow> r, s))
             (execute junk dev esp ebp (wr (\<lambda>_. 0) 4 (str ''shell'')) 4 (end_shell pidf s))
         else
           let s = s\<lparr>pc := pc s - 1\<rparr>;
               temp_pcb = pcbs s (EIGHT_MB - KB_8 * (tasks s ! nat pidf + T_6) - START);
               s = s\<lparr>tasks := (tasks s)[nat pidf := 0]\<rparr>;
               s = fold (\<lambda>i s. snd (sys_close (int i) s)) [2..<8] s;
               s = load_cr3 (pcb_cr3 temp_pcb) s;
               s = s\<lparr>tss_esp0 := kernel_stack (of_int (find_pid s))\<rparr>
           in Some (Resume (pcb_esp temp_pcb) (pcb_ebp temp_pcb) 0, s))"

section \<open>The other calls and the dispatcher\<close>

definition getargs :: "u32 \<Rightarrow> int \<Rightarrow> 'a fs_state_scheme \<Rightarrow> (int \<times> 'a fs_state_scheme) option" where
  "getargs buf nbytes s =
     (if buf = 0 \<or> nbytes < 0 then Some (-1, s)
      else
        let s = s\<lparr>ram := wr (ram s) buf (replicate BUFF_MAX 0)\<rparr>;
            p = pcblock s;
            n = (if uint (data_arg_size p) < nbytes then unat (data_arg_size p) else nat nbytes);
            arg = arg_name p @ [data_arg_size p]
        in if n \<le> length arg then Some (0, s\<lparr>ram := wr (ram s) buf (take n arg)\<rparr>) else None)"

definition vidmap :: "u32 \<Rightarrow> 'a machine_scheme \<Rightarrow> int \<times> 'a machine_scheme" where
  "vidmap screen_start s =
     (if screen_start = 0 \<or> screen_start = FOUR_MB then (-1, s)
      else (0, s\<lparr>ram := wr (ram s) screen_start (le_bytes video_mem)\<rparr>))"

definition set_handler :: "int \<Rightarrow> u32 \<Rightarrow> 's \<Rightarrow> int \<times> 's" where
  "set_handler signum handler s = (0, s)"

definition sigreturn :: "'s \<Rightarrow> int \<times> 's" where
  "sigreturn s = (0, s)"

text \<open>
  The dispatcher: the call's number in \<open>eax\<close>, the arguments in \<open>ebx\<close>, \<open>ecx\<close> and \<open>edx\<close>. User pointers
  point into the task's memory.
\<close>

definition syscall_handler :: "int \<Rightarrow> 'a sys_state_scheme handler list \<Rightarrow> device \<Rightarrow> u32 \<Rightarrow> u32
    \<Rightarrow> u32 \<Rightarrow> u32 \<Rightarrow> u32 \<Rightarrow> u32 \<Rightarrow> 'a sys_state_scheme \<Rightarrow> (outcome \<times> 'a sys_state_scheme) option" where
  "syscall_handler junk irqs dev esp ebp eax ebx ecx edx s =
     (let ret = (\<lambda>(r, s). (Ret r, s))
      in if eax \<le> 0 \<or> eax \<ge> 11 then Some (Ret (-1), s)
         else if eax = 1 then halt junk dev esp ebp (ucast ebx) s
         else if eax = 2 then execute junk dev esp ebp (ram s) ebx s
         else if eax = 3 then map_option ret (sys_read junk irqs (sint ebx) ecx (sint edx) s)
         else if eax = 4 then map_option ret (sys_write junk ram dev (sint ebx) ecx (sint edx) s)
         else if eax = 5 then map_option ret (sys_open dev (ram s) ebx s)
         else if eax = 6 then Some (ret (sys_close (sint ebx) s))
         else if eax = 7 then map_option ret (getargs ebx (sint ecx) s)
         else if eax = 8 then Some (ret (vidmap ebx s))
         else if eax = 9 then Some (ret (set_handler (sint ebx) ecx s))
         else Some (ret (sigreturn s)))"

section \<open>What file operations keep\<close>

text \<open>
  \<open>same_files_open s t\<close>: from \<open>s\<close> to \<open>t\<close> no descriptor was opened, closed or given other operations,
  the directory entries and the command line are the same, and so is all state past the terminal's.
\<close>

definition fd_kind :: "file_struct_t \<Rightarrow> fops_t \<times> u32" where
  "fd_kind f = (fops_ptr f, flags f)"

definition same_files_open :: "'a term_state_scheme \<Rightarrow> 'a term_state_scheme \<Rightarrow> bool" where
  "same_files_open s t \<longleftrightarrow>
     map fd_kind (file_struct (pcblock t)) = map fd_kind (file_struct (pcblock s))
     \<and> dentries (pcblock t) = dentries (pcblock s)
     \<and> cmd_name (pcblock t) = cmd_name (pcblock s) \<and> arg_name (pcblock t) = arg_name (pcblock s)
     \<and> length (text_buf t) = length (text_buf s) \<and> fd_index t = fd_index s
     \<and> (fd_val s < 8 \<longrightarrow> fd_val t < 8) \<and> term_state.more t = term_state.more s"

lemma same_files_refl [simp]: "same_files_open s s"
  by (simp add: same_files_open_def)

lemma same_files_trans [trans]: "same_files_open s t \<Longrightarrow> same_files_open t u \<Longrightarrow> same_files_open s u"
  by (simp add: same_files_open_def)

lemma same_files_lib: "lib_state.more t = lib_state.more s \<Longrightarrow> same_files_open s t"
  for s t :: "'a term_state_scheme"
  by (cases s; cases t) (simp add: same_files_open_def)

text \<open>Interrupts that leave the descriptors alone.\<close>

definition quiet :: "'a term_state_scheme handler list \<Rightarrow> bool" where
  "quiet irqs \<longleftrightarrow> (\<forall>h\<in>set irqs. \<forall>s t. h s = Some t \<longrightarrow> same_files_open s t)"

lemma deliver_quiet: "\<forall>s t. h s = Some t \<longrightarrow> same_files_open s t \<Longrightarrow> deliver h s = Some t \<Longrightarrow> same_files_open s t"
proof -
  assume h: "\<forall>s t. h s = Some t \<longrightarrow> same_files_open s t" "deliver h s = Some t"
  have flag: "same_files_open u (sti u)" "same_files_open u (cli u)" for u :: "'a term_state_scheme"
    by (simp_all add: sti_def cli_def same_files_open_def)
  consider "t = s" | u where "h (cli s) = Some u" "t = sti u"
    using h(2) by (auto simp: deliver_def split: if_splits)
  then show ?thesis
  proof cases
    case 2
    then show ?thesis using h(1) flag same_files_trans by metis
  qed simp
qed

lemma await_quiet: "quiet irqs \<Longrightarrow> await stop irqs s = Some t \<Longrightarrow> same_files_open s t"
proof (induction irqs arbitrary: s)
  case (Cons h irqs)
  show ?case
  proof (cases "stop s")
    case False
    then obtain u where u: "deliver h s = Some u" "await stop irqs u = Some t"
      using Cons.prems(2) by (auto split: Option.bind_splits)
    have "same_files_open s u" using deliver_quiet [OF _ u(1)] Cons.prems(1) by (simp add: quiet_def)
    moreover have "same_files_open u t" using Cons.IH [OF _ u(2)] Cons.prems(1) by (simp add: quiet_def)
    ultimately show ?thesis by (rule same_files_trans)
  qed (use Cons.prems in simp)
qed (simp split: if_splits)

text \<open>Only the terminal's part of the state changes when it writes.\<close>

lemma fold_keeps: "(\<And>x s. f (g x s) = f s) \<Longrightarrow> f (fold g xs s) = f s"
  by (induction xs arbitrary: s) simp_all

lemma shift_rows_more [simp]: "lib_state.more (shift_rows h s) = lib_state.more s"
  unfolding shift_rows_def by (rule fold_keeps, simp add: fold_keeps [where f = lib_state.more])

lemma write_char_more: "lib_state.more (snd (write_char src buf k p)) = lib_state.more (snd p)"
  by (cases p) (simp add: write_char_def Let_def)

lemma write_helper_more: "lib_state.more (snd (write_helper junk src buf len s)) = lib_state.more s"
proof -
  have "lib_state.more (snd (fold (write_char src buf) ks p)) = lib_state.more (snd p)" for ks p
    by (rule fold_keeps) (rule write_char_more)
  then show ?thesis
    by (simp add: write_helper_def Let_def split_beta machine_defs)
qed

lemma terminal_write_more: "terminal_write junk src fd buf len s = (r, t) \<Longrightarrow> lib_state.more t = lib_state.more s"
  using write_helper_more [of junk src buf len s] by (auto simp: terminal_write_def split: if_splits)

lemma rtc_write_more: "rtc_write dev fd buf n s = Some (r, t) \<Longrightarrow> machine.more t = machine.more s"
  by (auto simp: rtc_write_def rtc_set_def machine_defs Let_def split: if_splits Option.bind_splits)

text \<open>
  The contract of a table of file operations: on a valid descriptor its \<open>read\<close> and \<open>write\<close> may move
  file positions and change memory, but they open and close nothing.
\<close>

locale file_operations =
  fixes read_op :: "int \<Rightarrow> 'a term_state_scheme handler list \<Rightarrow> int \<Rightarrow> u32 \<Rightarrow> int
      \<Rightarrow> 'a term_state_scheme \<Rightarrow> (int \<times> 'a term_state_scheme) option"
    and write_op :: "int \<Rightarrow> ('a term_state_scheme \<Rightarrow> mem) \<Rightarrow> device \<Rightarrow> int \<Rightarrow> u32 \<Rightarrow> int
      \<Rightarrow> 'a term_state_scheme \<Rightarrow> (int \<times> 'a term_state_scheme) option"
  assumes read_keeps: "quiet irqs \<Longrightarrow> 0 \<le> fd \<Longrightarrow> fd \<le> 7 \<Longrightarrow> read_op junk irqs fd buf n s = Some (r, t)
      \<Longrightarrow> same_files_open s t"
    and write_keeps: "0 \<le> fd \<Longrightarrow> fd \<le> 7 \<Longrightarrow> write_op junk src dev fd buf n s = Some (r, t)
      \<Longrightarrow> same_files_open s t"
begin

text \<open>Copying from one descriptor to another, as the user programs do.\<close>

lemma read_then_write:
  assumes "quiet irqs" "0 \<le> fd" "fd \<le> 7" "0 \<le> fd'" "fd' \<le> 7"
    "read_op junk irqs fd buf n s = Some (r, t)" "write_op junk' src dev fd' buf' n' t = Some (r', u)"
  shows "same_files_open s u"
  using read_keeps [OF assms(1-3,6)] write_keeps [OF assms(4,5,7)] by (rule same_files_trans)

end

lemma same_files_machine: "machine.more t = machine.more s \<Longrightarrow> same_files_open s t"
  for s t :: "'a term_state_scheme"
  by (cases s; cases t) (simp add: same_files_open_def)

lemma map_update_same: "g (f (xs ! i)) = g (xs ! i) \<Longrightarrow> map g (xs[i := f (xs ! i)]) = map g xs"
  by (cases "i < length xs") (simp_all add: map_update list_update_beyond list_update_same_conv)

lemma upd_fpos_same: "same_files_open s (upd_file i (\<lambda>f. f\<lparr>fpos := p\<rparr>) s)"
  using map_update_same [of fd_kind "\<lambda>f. f\<lparr>fpos := p\<rparr>" "file_struct (pcblock s)" i]
  by (simp add: same_files_open_def upd_file_def fd_kind_def)

lemma rtc_read_same: "quiet irqs \<Longrightarrow> rtc_read irqs fd buf n s = Some (r, t) \<Longrightarrow> same_files_open s t"
  for s :: "'a term_state_scheme"
proof -
  assume h: "quiet irqs" "rtc_read irqs fd buf n s = Some (r, t)"
  have "same_files_open s (s\<lparr>intr_flag := 0\<rparr>)" by (simp add: same_files_open_def)
  moreover have "await (\<lambda>s. intr_flag s \<noteq> 0) irqs (s\<lparr>intr_flag := 0\<rparr>) = Some t"
    using h(2) by (auto simp: rtc_read_def)
  then have "same_files_open (s\<lparr>intr_flag := 0\<rparr>) t" by (rule await_quiet [OF h(1)])
  ultimately show ?thesis by (rule same_files_trans)
qed

lemma terminal_read_same: "quiet irqs \<Longrightarrow> terminal_read junk irqs fd buf n s = Some (r, t) \<Longrightarrow> same_files_open s t"
proof -
  assume h: "quiet irqs" "terminal_read junk irqs fd buf n s = Some (r, t)"
  then consider "t = s" | u m where "await (\<lambda>s. entered s = 1) irqs s = Some u" "t = u\<lparr>ram := m, entered := 0\<rparr>"
    by (auto simp: terminal_read_def read_helper_def Let_def split_beta split: if_splits)
  then show ?thesis
  proof cases
    case 2
    then have "same_files_open s u" "same_files_open u t" using await_quiet [OF h(1)]
      by (auto simp: same_files_open_def)
    then show ?thesis by (rule same_files_trans)
  qed simp
qed

lemma read_data_same: "same_files_open s (snd (read_data inode off buf n s))"
proof -
  have m: "same_files_open u (u\<lparr>ram := m\<rparr>)" for u :: "'a term_state_scheme" and m by (simp add: same_files_open_def)
  have "same_files_open s (upd_file i (\<lambda>f. f\<lparr>fpos := p\<rparr>) (s\<lparr>ram := m\<rparr>))" for i p m
    using m upd_fpos_same by (rule same_files_trans)
  then show ?thesis using m by (simp add: read_data_eq Let_def)
qed

lemma filesystem_read_same:
  assumes "fd < 8" "filesystem_read fd buf n s = Some (r, t)"
  shows "same_files_open s t"
proof -
  let ?s = "s\<lparr>fd_val := fd\<rparr>"
  have s: "same_files_open s ?s" using assms(1) by (simp add: same_files_open_def)
  have "same_files_open ?s t"
  proof (cases "file_type (dentries (pcblock s) ! fd) = 1")
    case True
    then have "dirread fd buf ?s = Some (r, t)" using assms(2) by (simp add: filesystem_read_def)
    then consider "t = ?s" | p m where "t = (upd_file fd (\<lambda>f. f\<lparr>fpos := p\<rparr>) ?s)\<lparr>ram := m\<rparr>"
      by (auto simp: dirread_def Let_def split: if_splits Option.bind_splits)
    then show ?thesis
    proof cases
      case 2
      have "same_files_open (upd_file fd (\<lambda>f. f\<lparr>fpos := p\<rparr>) ?s) t" by (simp add: 2 same_files_open_def)
      with upd_fpos_same show ?thesis by (rule same_files_trans)
    qed simp
  next
    case False
    then show ?thesis
      using assms(2) read_data_same [of ?s] by (auto simp: filesystem_read_def Let_def) (metis snd_conv)
  qed
  with s show ?thesis by (rule same_files_trans)
qed

interpretation rtc_table: file_operations "\<lambda>junk irqs. rtc_read irqs" "\<lambda>junk src. rtc_write"
  by unfold_locales (auto dest: rtc_read_same rtc_write_more same_files_machine)

interpretation terminal_table: file_operations terminal_read
  "\<lambda>junk src dev fd buf n s. Some (terminal_write junk src fd buf n s)"
  by unfold_locales (auto dest: terminal_read_same terminal_write_more same_files_lib)

interpretation filesystem_table: file_operations "\<lambda>junk irqs fd. filesystem_read (nat fd)"
  "\<lambda>junk src dev fd buf n s. Some (terminal_write junk src fd buf n s)"
  by unfold_locales (auto dest: filesystem_read_same [rotated] terminal_write_more same_files_lib)

lemma sys_read_same:
  assumes "quiet irqs" "sys_read junk irqs fd buf n s = Some (r, t)"
  shows "same_files_open s t"
proof (cases "r = -1 \<and> t = s")
  case False
  then have fd: "0 \<le> fd" "fd \<le> 7"
    and run: "fops_read junk irqs (fops_ptr (file_struct (pcblock s) ! nat fd)) fd buf n s = Some (r, t)"
    using assms(2) by (auto simp: sys_read_def FD_MAX_def split: if_splits)
  show ?thesis
    using run rtc_table.read_keeps [OF assms(1) fd] terminal_table.read_keeps [OF assms(1) fd]
      filesystem_table.read_keeps [OF assms(1) fd]
    by (cases "fops_ptr (file_struct (pcblock s) ! nat fd)") (auto simp: fops_read_def)
qed simp

lemma sys_write_same:
  assumes "sys_write junk src dev fd buf n s = Some (r, t)"
  shows "same_files_open s t"
proof (cases "r = -1 \<and> t = s")
  case False
  then have fd: "0 \<le> fd" "fd \<le> 7"
    and run: "fops_write junk src dev (fops_ptr (file_struct (pcblock s) ! nat fd)) fd buf n s = Some (r, t)"
    using assms by (auto simp: sys_write_def FD_MAX_def split: if_splits)
  show ?thesis
    using run rtc_table.write_keeps [OF fd] terminal_table.write_keeps [OF fd] filesystem_table.write_keeps [OF fd]
    by (cases "fops_ptr (file_struct (pcblock s) ! nat fd)") (auto simp: fops_write_def)
qed simp

section \<open>Well-formed control blocks\<close>

definition pcb_ok :: "pcb_t \<Rightarrow> bool" where
  "pcb_ok p \<longleftrightarrow> length (file_struct p) = 8 \<and> length (dentries p) = 8
     \<and> (\<forall>d\<in>set (dentries p). length (file_name d) = 32 \<and> length (d_reserved d) = 24)
     \<and> length (cmd_name p) = 40 \<and> length (arg_name p) = 40"

definition sys_ok :: "'a sys_state_scheme \<Rightarrow> bool" where
  "sys_ok s \<longleftrightarrow> pcb_ok (pcblock s) \<and> (\<forall>a. pcb_ok (pcbs s a)) \<and> length (tasks s) = 7
     \<and> length (text_buf s) = BUF_MAX \<and> fd_val s < 8 \<and> fd_index s \<le> 8"

named_theorems ok_intros "operations that keep the kernel's state well formed"

lemma sys_ok_same:
  assumes "same_files_open s t" "sys_ok s"
  shows "sys_ok t"
proof -
  have "length (map fd_kind (file_struct (pcblock t))) = length (map fd_kind (file_struct (pcblock s)))"
    using assms(1) unfolding same_files_open_def by metis
  moreover have "pcbs t = pcbs s" "tasks t = tasks s"
    using assms(1) by (cases s; cases t; simp add: same_files_open_def)+
  ultimately show ?thesis using assms by (simp add: sys_ok_def pcb_ok_def same_files_open_def)
qed

lemma ok_upd_file [ok_intros]: "sys_ok s \<Longrightarrow> sys_ok (upd_file i f s)"
  by (simp add: sys_ok_def pcb_ok_def upd_file_def)

lemma ok_upd_dentry [ok_intros]:
  assumes "sys_ok s" "\<And>d. length (file_name d) = 32 \<Longrightarrow> length (d_reserved d) = 24
    \<Longrightarrow> length (file_name (f d)) = 32 \<and> length (d_reserved (f d)) = 24"
  shows "sys_ok (upd_dentry i f s)"
proof (cases "i < 8")
  case True
  then have "set ((dentries (pcblock s))[i := f (dentries (pcblock s) ! i)])
      \<subseteq> insert (f (dentries (pcblock s) ! i)) (set (dentries (pcblock s)))"
    "dentries (pcblock s) ! i \<in> set (dentries (pcblock s))"
    using assms(1) by (simp_all add: set_update_subset_insert sys_ok_def pcb_ok_def)
  then show ?thesis using assms by (fastforce simp: sys_ok_def pcb_ok_def upd_dentry_def)
next
  case False
  then show ?thesis using assms(1) by (simp add: sys_ok_def pcb_ok_def upd_dentry_def list_update_beyond)
qed

lemma ok_save_pcb [ok_intros]: "sys_ok s \<Longrightarrow> sys_ok (save_pcb a s)"
  by (simp add: sys_ok_def save_pcb_def)

lemma ok_simps [simp]:
  "sys_ok (s\<lparr>ram := m\<rparr>) = sys_ok s" "sys_ok (s\<lparr>fd_rtc := n\<rparr>) = sys_ok s" "sys_ok (s\<lparr>pc := c\<rparr>) = sys_ok s"
  "sys_ok (s\<lparr>dentry1 := d\<rparr>) = sys_ok s" "sys_ok (s\<lparr>new_pid := p\<rparr>) = sys_ok s"
  by (simp_all add: sys_ok_def)

lemma load_dentry_lengths:
  "length (file_name (snd (read_dentry_by_name fm fname d s))) = (if fst (read_dentry_by_name fm fname d s) = 0
     then 32 else length (file_name d))"
  "d_reserved (snd (read_dentry_by_name fm fname d s)) = d_reserved d"
  by (simp_all add: read_dentry_by_name_def load_dentry_def split: option.splits)

lemma ok_dentry:
  "sys_ok s \<Longrightarrow> i < 8 \<Longrightarrow> length (file_name (dentries (pcblock s) ! i)) = 32
    \<and> length (d_reserved (dentries (pcblock s) ! i)) = 24"
  by (simp add: sys_ok_def pcb_ok_def)

lemma ok_fd_val: "sys_ok s \<Longrightarrow> fd_val s < 8"
  by (simp add: sys_ok_def)

lemma ok_filesystem_open: "sys_ok s \<Longrightarrow> sys_ok (snd (filesystem_open fm filename s))"
  using ok_dentry [OF _ ok_fd_val, of s s]
  by (auto simp: filesystem_open_def split_beta load_dentry_lengths intro!: ok_upd_dentry)

lemma ok_filesystem_close: "sys_ok s \<Longrightarrow> i < 8 \<Longrightarrow> sys_ok (snd (filesystem_close i s))"
  by (auto simp: filesystem_close_def Let_def intro!: ok_upd_file) (simp_all add: sys_ok_def)

lemma machine_more_ok: "machine.more t = machine.more s \<Longrightarrow> sys_ok t = sys_ok s"
  for s t :: "'a sys_state_scheme"
  by (cases s; cases t) (simp add: sys_ok_def)

lemma pic_ok: "sys_ok (enable_irq n s) = sys_ok s" "sys_ok (disable_irq n s) = sys_ok s"
  by (simp_all add: enable_irq_def disable_irq_def Let_def machine_defs sys_ok_def)

lemma ok_rtc_open: "sys_ok s \<Longrightarrow> sys_ok (snd (rtc_open dev filename s))"
  by (simp add: rtc_open_def rtc_init_def Let_def pic_ok) (simp add: sys_ok_def machine_defs)

lemma find_upt_less: "find P [k..<n] = Some i \<Longrightarrow> k \<le> i \<and> i < n \<and> P i"
  by (auto simp: find_Some_iff)

lemma free_fd_bounds: "free_fd p = Some i \<Longrightarrow> 2 \<le> i \<and> i \<le> 8 \<and> flags_at p i = 0"
  unfolding free_fd_def by (drule find_upt_less) (simp add: sys_consts)

lemma ok_open_entry:
  assumes "sys_ok s"
  shows "sys_ok (snd (open_entry dev fm filename p i s))"
proof -
  define s1 where "s1 = upd_file i (\<lambda>f. f\<lparr>flags := 1\<rparr>) s"
  define s2 where "s2 = (if strncmp fm filename (lit []) 0 1 \<noteq> 0
    then upd_dentry i (\<lambda>d. snd (read_dentry_by_name fm filename d s1)) s1 else s1)"
  have "sys_ok s1" unfolding s1_def using assms by (rule ok_upd_file)
  then have "sys_ok s2" unfolding s2_def by (auto simp: load_dentry_lengths intro!: ok_upd_dentry)
  then have "sys_ok (snd (filesystem_open fm filename s2))" by (rule ok_filesystem_open)
  then show ?thesis
    unfolding open_entry_def s1_def [symmetric] Let_def s2_def [symmetric] split_beta
    by (auto intro!: ok_save_pcb ok_upd_file ok_rtc_open)
qed

lemma ok_sys_open:
  assumes "sys_ok s" "sys_open dev fm filename s = Some (r, t)"
  shows "sys_ok t"
proof -
  have "sys_ok (s\<lparr>fd_index := n\<rparr>)" if "n \<le> 8" for n using assms(1) that by (simp add: sys_ok_def)
  moreover have "i \<le> 8" if "free_fd (pcblock s) = Some i" for i
    using free_fd_bounds [OF that] by simp
  ultimately show ?thesis
    using assms(2) ok_open_entry [of "s\<lparr>fd_index := n\<rparr>" dev fm filename _ n for n]
    by (auto simp: sys_open_def Let_def FD_MIN_def split: if_splits option.splits) (metis snd_conv)
qed

lemma ok_null_fops: "sys_ok s \<Longrightarrow> sys_ok (null_fops i s)"
  by (auto simp: null_fops_def intro!: ok_upd_file ok_upd_dentry)

lemma ok_sys_close: "sys_ok s \<Longrightarrow> sys_ok (snd (sys_close fd s))"
  by (auto simp: sys_close_def Let_def rtc_close_def sys_consts
      intro!: ok_upd_file ok_filesystem_close ok_upd_dentry ok_null_fops)

lemma ok_getargs: "sys_ok s \<Longrightarrow> getargs buf n s = Some (r, t) \<Longrightarrow> sys_ok t"
  by (auto simp: getargs_def Let_def split: if_splits)

lemma ok_put_arg: "pcb_ok p \<Longrightarrow> put_arg k c p = Some q \<Longrightarrow> pcb_ok q"
  by (auto simp: put_arg_def pcb_ok_def split: if_splits)

lemma ok_put_cmd: "pcb_ok p \<Longrightarrow> put_cmd k c p = Some q \<Longrightarrow> pcb_ok q"
  using ok_put_arg [of p "k - CMD_LEN" c q]
  by (cases "k < CMD_LEN") (auto simp: put_cmd_def pcb_ok_def simp del: One_nat_def)

lemma ok_parse_loop: "pcb_ok p \<Longrightarrow> parse_loop fm input is (sw, k, l, p) = Some (n, q) \<Longrightarrow> pcb_ok q"
proof (induction "is" arbitrary: sw k l p)
  case (Cons i "is")
  let ?c = "fm (input + of_nat i)"
  obtain sw' k' l' p' where p': "parse_loop fm input is (sw', k', l', p') = Some (n, q)"
      "p' = p \<or> put_cmd k ?c p = Some p' \<or> put_arg l ?c p = Some p'"
    using Cons.prems(2) by (auto simp: Let_def split: Option.bind_splits if_splits)
  then have "pcb_ok p'" using ok_put_cmd ok_put_arg Cons.prems(1) by blast
  then show ?case using p'(1) by (rule Cons.IH)
qed simp

lemma ok_parse_cmd:
  assumes "pcb_ok p" "parse_cmd fm input p = Some q"
  shows "pcb_ok q"
proof -
  let ?p = "p\<lparr>cmd_name := replicate CMD_LEN 0, arg_name := replicate CMD_LEN 0\<rparr>"
  have "pcb_ok ?p" using assms(1) by (simp add: pcb_ok_def CMD_LEN_def)
  note loop = ok_parse_loop [OF this]
  show ?thesis
    using assms(2) loop by (auto simp: parse_cmd_def Let_def split: Option.bind_splits) (auto simp: pcb_ok_def)
qed

lemma ok_load_cr3 [simp]: "sys_ok (load_cr3 c s) = sys_ok s"
  by (simp add: load_cr3_def Let_def sys_ok_def)

lemma ok_load_task: "sys_ok s \<Longrightarrow> sys_ok (load_task s)"
  by (simp add: load_task_def Let_def)

lemma ok_read_data: "sys_ok s \<Longrightarrow> sys_ok (snd (read_data inode off buf n s))"
  using read_data_same sys_ok_same by blast

lemma ok_loader: "sys_ok s \<Longrightarrow> sys_ok (snd (loader fm filename s))"
  by (simp add: loader_def Let_def split_beta ok_load_task ok_read_data)

lemma ok_flags [simp]:
  "sys_ok (s\<lparr>term1_rst := b\<rparr>) = sys_ok s" "sys_ok (s\<lparr>term2_rst := b\<rparr>) = sys_ok s"
  "sys_ok (s\<lparr>term3_rst := b\<rparr>) = sys_ok s" "sys_ok (s\<lparr>term2_press := b\<rparr>) = sys_ok s"
  "sys_ok (s\<lparr>term3_press := b\<rparr>) = sys_ok s" "sys_ok (s\<lparr>tss_ss0 := w\<rparr>) = sys_ok s"
  "sys_ok (s\<lparr>tss_esp0 := w\<rparr>) = sys_ok s" "sys_ok (cli s) = sys_ok s" "sys_ok (sti s) = sys_ok s"
  by (simp_all add: sys_ok_def cli_def sti_def)

lemma ok_new_task: "sys_ok s \<Longrightarrow> sys_ok (new_task fm command s)"
  unfolding new_task_def Let_def by simp

lemma length_start_files [simp]: "length (start_files fs) = length fs"
proof -
  have "length (fold (\<lambda>i fs. fs[i := (fs ! i)\<lparr>flags := 0\<rparr>]) is fs) = length fs" for "is" and fs :: "file_struct_t list"
    by (rule fold_keeps) simp
  then show ?thesis unfolding start_files_def Let_def by simp
qed

lemma ok_pcb: "sys_ok s \<Longrightarrow> pcb_ok p \<Longrightarrow> sys_ok (s\<lparr>pcblock := p\<rparr>)"
  by (simp add: sys_ok_def)

lemma sys_ok_lib: "lib_state.more t = lib_state.more s \<Longrightarrow> sys_ok s \<Longrightarrow> sys_ok t"
  for s t :: "'a sys_state_scheme"
  using same_files_lib sys_ok_same by blast

lemma ok_set_up_task: "sys_ok s \<Longrightarrow> sys_ok (set_up_task cur_pid s)"
  by (auto simp: set_up_task_def Let_def save_pcb_def load_cr3_def sys_ok_def pcb_ok_def)

lemma ok_enter_user: "sys_ok s \<Longrightarrow> sys_ok (snd (enter_user eip s))"
  by (simp add: enter_user_def)

lemma fold_putc_more: "lib_state.more (fold putc cs s) = lib_state.more s"
  by (rule fold_keeps) simp

lemma ok_start_program:
  assumes "sys_ok s" "start_program cur_pid eip s = Some (r, t)"
  shows "sys_ok t"
proof -
  let ?s = "set_up_task cur_pid s"
  have ok: "sys_ok ?s" using assms(1) by (rule ok_set_up_task)
  have task: "sys_ok (snd (enter_user eip (?s\<lparr>pcblock := (pcblock ?s)\<lparr>pcb_cr3 := c\<rparr>\<rparr>)))" for c
    using ok by (intro ok_enter_user) (simp add: sys_ok_def pcb_ok_def)
  have "sys_ok (snd (enter_user eip (fold putc cs ?s)))" for cs
    using sys_ok_lib [OF fold_putc_more ok] by (rule ok_enter_user)
  moreover have "printf (lit ''I don't think you should ever be here'') (\<lambda>_. 0) [] ?s
      = Some (of_nat (length ''I don't think you should ever be here''),
          fold putc (str ''I don't think you should ever be here'') ?s)"
    by (rule printf_plain) (simp_all add: str_def)
  ultimately show ?thesis
    using assms(2) task ok unfolding start_program_def Let_def
    by (auto split: if_splits) (metis snd_conv)+
qed

lemma ok_leave_caller: "sys_ok s \<Longrightarrow> sys_ok (leave_caller esp ebp cur_pid s)"
  by (auto simp: leave_caller_def Let_def save_pcb_def sys_ok_def pcb_ok_def)

lemma ok_run_program:
  assumes "sys_ok s" "run_program fm command cur_pid s = Some (r, t)"
  shows "sys_ok t"
proof -
  obtain p where p: "parse_cmd fm command (pcblock s) = Some p"
    using assms(2) by (auto simp: run_program_def split: Option.bind_splits)
  obtain k u where u: "loader (wr (\<lambda>_. 0) 0 (cmd_name p)) 0 (s\<lparr>pcblock := p\<rparr>) = (k, u)" by fastforce
  have "pcb_ok p" using ok_parse_cmd [OF _ p] assms(1) by (simp add: sys_ok_def)
  then have "sys_ok u" using ok_loader [OF ok_pcb [OF assms(1)]] u by (metis snd_conv)
  then show ?thesis
    using assms(2) p u ok_start_program by (auto simp: run_program_def Let_def split: if_splits)
qed

lemma ok_execute:
  assumes "sys_ok s" "execute junk dev esp ebp fm command s = Some (r, t)"
  shows "sys_ok t"
proof (cases "command = 0")
  case False
  let ?u = "new_task fm command (s\<lparr>pcblock := (pcblock s)\<lparr>pcb_cr3 := cr3 s\<rparr>\<rparr>)"
  have "pcb_ok ((pcblock s)\<lparr>pcb_cr3 := cr3 s\<rparr>)" using assms(1) by (simp add: sys_ok_def pcb_ok_def)
  then have u: "sys_ok ?u" by (intro ok_new_task ok_pcb assms(1))
  show ?thesis
  proof (cases "new_pid ?u = 7")
    case True
    then obtain k where "sys_write junk (\<lambda>_. wr (\<lambda>_. 0) 4 (str ''6 programs already open.\<newline>'')) dev 1 4 25 ?u = Some (k, t)"
      using assms(2) \<open>command \<noteq> 0\<close> by (auto simp: execute_def Let_def MAX_TASKS_def)
    then show ?thesis using sys_write_same u sys_ok_same by blast
  next
    case False
    then show ?thesis
      using assms(2) ok_run_program [OF ok_leave_caller [OF u]] \<open>command \<noteq> 0\<close>
      by (simp add: execute_def Let_def MAX_TASKS_def)
  qed
qed (use assms in \<open>simp add: execute_def\<close>)

lemma fold_ok: "(\<And>x s. sys_ok s \<Longrightarrow> sys_ok (g x s)) \<Longrightarrow> sys_ok s \<Longrightarrow> sys_ok (fold g xs s)"
  by (induction xs arbitrary: s) simp_all

lemma ok_tasks: "sys_ok s \<Longrightarrow> sys_ok (s\<lparr>tasks := (tasks s)[i := v]\<rparr>)"
  by (simp add: sys_ok_def)

lemma ok_halt:
  assumes "sys_ok s" "halt junk dev esp ebp status s = Some (r, t)"
  shows "sys_ok t"
proof (cases "find_pid s \<le> 3")
  case True
  have "sys_ok (end_shell (find_pid s) s)" using assms(1) unfolding end_shell_def Let_def by (simp add: ok_tasks)
  then show ?thesis
    using assms(2) True ok_execute by (auto simp: halt_def Let_def T_SHELL_MAX_def split: if_splits)
next
  case False
  have "sys_ok (s\<lparr>pc := pc s - 1, tasks := (tasks s)[i := 0]\<rparr>)" for i
    using assms(1) by (simp add: sys_ok_def)
  then have "sys_ok (fold (\<lambda>i s. snd (sys_close (int i) s)) [2..<8] (s\<lparr>pc := pc s - 1, tasks := (tasks s)[i := 0]\<rparr>))" for i
    by (intro fold_ok ok_sys_close)
  then show ?thesis
    using assms(2) False by (auto simp: halt_def Let_def T_SHELL_MAX_def split: if_splits simp del: upt_rec_numeral)
qed

lemma ok_syscall:
  assumes "sys_ok s" "quiet irqs" "syscall_handler junk irqs dev esp ebp eax ebx ecx edx s = Some (r, t)"
  shows "sys_ok t"
proof -
  have "sys_ok u" if "sys_read junk irqs fd buf n s = Some (k, u)" for fd buf n k u
    using sys_read_same [OF assms(2) that] assms(1) by (rule sys_ok_same)
  moreover have "sys_ok u" if "sys_write junk src dev fd buf n s = Some (k, u)" for src fd buf n k u
    using sys_write_same [OF that] assms(1) by (rule sys_ok_same)
  moreover have "sys_ok (snd (vidmap a s))" for a using assms(1) by (simp add: vidmap_def)
  ultimately show ?thesis
    using assms(3) assms(1) ok_halt [OF assms(1)] ok_execute [OF assms(1)] ok_sys_open [OF assms(1)] ok_sys_close [OF assms(1)]
      ok_getargs [OF assms(1)]
    by (simp add: syscall_handler_def Let_def split_beta set_handler_def sigreturn_def split: if_splits)
      (metis fst_conv snd_conv surj_pair)+
qed

end
