(* ===== verification/Descriptors.thy ===== *)
theory Descriptors
  imports Syscalls
begin

text \<open>
  What the system calls on files promise: the descriptor that \<open>open\<close> hands out, what reading through
  it gives, what \<open>close\<close> frees, and where the two go wrong.
\<close>

section \<open>Opening\<close>

lemma nonempty_name: "strncmp fm filename (lit []) 0 1 \<noteq> 0 \<longleftrightarrow> fm filename \<noteq> 0"
  using klib.ncmp_string [of fm filename "lit []" 0 1] cbytes_Suc [of fm filename 0] cbytes_Suc [of "lit []" 0 0]
  by (auto simp: lit_def str_def)

lemma find_pid_update [simp]:
  "find_pid (s\<lparr>fd_index := i\<rparr>) = find_pid s" "find_pid (s\<lparr>pcblock := p\<rparr>) = find_pid s"
  by (simp_all add: find_pid_def)

lemma sys_open_slot:
  assumes "filename \<noteq> 0" "free_fd (pcblock s) = Some i" "i < 8"
  shows "sys_open dev fm filename s
    = Some (open_entry dev fm filename (pcb_at (of_int (find_pid s))) i (s\<lparr>fd_index := i\<rparr>))"
  using assms by (simp add: sys_open_def Let_def FILE_ARRAY_SIZE_def)

lemma lookup_depends:
  "ram t = ram s \<Longrightarrow> filesystem t = filesystem s \<Longrightarrow> read_dentry_by_name fm fname d t = read_dentry_by_name fm fname d s"
  unfolding read_dentry_by_name_def by metis

lemma lookup_entry:
  assumes "read_dentry_by_name fm fname d s = (0, e)"
  shows "read_dentry_by_name fm fname d' s
    = (0, d'\<lparr>file_name := file_name e, file_type := file_type e, inode_number := inode_number e\<rparr>)"
  using assms by (auto simp: read_dentry_by_name_def load_dentry_def split: option.splits)

text \<open>The entry a lookup writes over another one.\<close>

definition over_entry :: "dentry_t \<Rightarrow> dentry_t \<Rightarrow> dentry_t" where
  "over_entry e d = d\<lparr>file_name := file_name e, file_type := file_type e, inode_number := inode_number e\<rparr>"

lemma over_entry_simps [simp]:
  "file_type (over_entry e d) = file_type e" "inode_number (over_entry e d) = inode_number e"
  "over_entry e (over_entry e d) = over_entry e d"
  by (simp_all add: over_entry_def)

lemma upd_dentry_simps [simp]:
  "ram (upd_dentry i f s) = ram s" "filesystem (upd_dentry i f s) = filesystem s" "fd_val (upd_dentry i f s) = fd_val s"
  "file_struct (pcblock (upd_dentry i f s)) = file_struct (pcblock s)"
  "dentries (pcblock (upd_dentry i f s)) = (dentries (pcblock s))[i := f (dentries (pcblock s) ! i)]"
  "BOOT_BLOCK_PTR (upd_dentry i f s) = BOOT_BLOCK_PTR s"
  by (simp_all add: upd_dentry_def)

lemma upd_file_struct [simp]:
  "file_struct (pcblock (upd_file i f s)) = (file_struct (pcblock s))[i := f (file_struct (pcblock s) ! i)]"
  by (simp add: upd_file_def)

lemma save_pcb_simps [simp]:
  "ram (save_pcb a s) = ram s" "filesystem (save_pcb a s) = filesystem s" "pcblock (save_pcb a s) = pcblock s"
  "BOOT_BLOCK_PTR (save_pcb a s) = BOOT_BLOCK_PTR s" "fd_val (save_pcb a s) = fd_val s"
  "pcbs (save_pcb a s) = (pcbs s)(a := pcblock s)"
  by (simp_all add: save_pcb_def)

lemma open_entry_file:
  assumes "fm filename \<noteq> 0" "read_dentry_by_name fm filename d s = (0, e)" "file_type e \<noteq> 0"
    "sys_ok s" "i < 8"
  obtains t where "open_entry dev fm filename p i s = (int i, t)"
    "file_struct (pcblock t) = (file_struct (pcblock s))
       [i := (file_struct (pcblock s) ! i)\<lparr>flags := 1, fpos := 0, fops_ptr := filesystem_fops\<rparr>]"
    "dentries (pcblock t) = (let ds = (dentries (pcblock s))[i := over_entry e (dentries (pcblock s) ! i)]
       in ds[fd_val s := over_entry e (ds ! fd_val s)])"
    "ram t = ram s" "filesystem t = filesystem s" "BOOT_BLOCK_PTR t = BOOT_BLOCK_PTR s" "pcbs t p = pcblock t"
proof -
  define s1 where "s1 = upd_file i (\<lambda>f. f\<lparr>flags := 1\<rparr>) s"
  define s2 where "s2 = upd_dentry i (\<lambda>d. snd (read_dentry_by_name fm filename d s1)) s1"
  define s3 where "s3 = snd (filesystem_open fm filename s2)"
  have look: "read_dentry_by_name fm filename d' t = (0, over_entry e d')"
    if "ram t = ram s" "filesystem t = filesystem s" for t d'
    using lookup_entry [OF assms(2)] lookup_depends [OF that] by (simp add: over_entry_def)
  have len: "length (file_struct (pcblock s)) = 8" "length (dentries (pcblock s)) = 8" "fd_val s < 8"
    using assms(4) by (simp_all add: sys_ok_def pcb_ok_def)
  have s1: "ram s1 = ram s" "filesystem s1 = filesystem s" by (simp_all add: s1_def)
  have s2: "s2 = upd_dentry i (over_entry e) s1" "ram s2 = ram s" "filesystem s2 = filesystem s" "fd_val s2 = fd_val s"
    by (simp_all add: s2_def look [OF s1] s1) (simp add: s1_def)
  have o: "filesystem_open fm filename s2 = (0, upd_dentry (fd_val s) (\<lambda>_. over_entry e (dentries (pcblock s2) ! fd_val s)) s2)"
    by (simp add: filesystem_open_def nonempty_name assms(1) look [OF s2(2,3)] s2(4))
  then have s3: "s3 = upd_dentry (fd_val s) (\<lambda>_. over_entry e (dentries (pcblock s2) ! fd_val s)) s2" by (simp add: s3_def)
  have ty: "file_type (dentries (pcblock s3) ! i) \<noteq> 0"
    using assms(3,5) len by (auto simp: s3 s2(1) s1_def nth_list_update)
  let ?t = "save_pcb p (upd_file i (\<lambda>f. f\<lparr>fpos := 0, fops_ptr := filesystem_fops\<rparr>) s3)"
  have run: "open_entry dev fm filename p i s = (int i, ?t)"
    using ty by (simp add: open_entry_def Let_def split_beta nonempty_name assms(1) s1_def [symmetric] s2_def [symmetric]
        s3_def [symmetric]) (simp add: o)
  show thesis
    by (rule that [OF run]) (use len assms(5) in \<open>simp_all add: s3 s2(1) s1_def Let_def\<close>)
qed

lemma sys_open_file:
  assumes "sys_ok s" "filename \<noteq> 0" "fm filename \<noteq> 0" "free_fd (pcblock s) = Some i" "i < 8"
    "read_dentry_by_name fm filename d s = (0, e)" "file_type e \<noteq> 0"
  obtains t where "sys_open dev fm filename s = Some (int i, t)"
    "file_struct (pcblock t) = (file_struct (pcblock s))
       [i := (file_struct (pcblock s) ! i)\<lparr>flags := 1, fpos := 0, fops_ptr := filesystem_fops\<rparr>]"
    "dentries (pcblock t) = (let ds = (dentries (pcblock s))[i := over_entry e (dentries (pcblock s) ! i)]
       in ds[fd_val s := over_entry e (ds ! fd_val s)])"
    "ram t = ram s" "filesystem t = filesystem s" "BOOT_BLOCK_PTR t = BOOT_BLOCK_PTR s"
    "pcbs t (pcb_at (of_int (find_pid s))) = pcblock t"
    "dentries (pcblock t) ! i = over_entry e (dentries (pcblock s) ! i)"
proof -
  let ?s = "s\<lparr>fd_index := i\<rparr>" and ?p = "pcb_at (of_int (find_pid s))"
  have ok: "sys_ok ?s" using assms(1,5) by (simp add: sys_ok_def)
  have look: "read_dentry_by_name fm filename d ?s = (0, e)"
    using assms(6) lookup_depends [of ?s s fm filename d] by simp
  have len: "length (dentries (pcblock s)) = 8" "fd_val s < 8" using assms(1) by (simp_all add: sys_ok_def pcb_ok_def)
  have swap: "xs[i := y, k := over_entry e (xs[i := y] ! k)] ! i = y"
    if "length xs = 8" "k < 8" "y = over_entry e d'" for xs k y d'
    using that assms(5) by (simp add: nth_list_update)
  show thesis
  proof (rule open_entry_file [OF assms(3) look assms(7) ok assms(5), of dev ?p])
    fix t assume t: "open_entry dev fm filename ?p i ?s = (int i, t)"
      "file_struct (pcblock t) = (file_struct (pcblock ?s))
         [i := (file_struct (pcblock ?s) ! i)\<lparr>flags := 1, fpos := 0, fops_ptr := filesystem_fops\<rparr>]"
      "dentries (pcblock t) = (let ds = (dentries (pcblock ?s))[i := over_entry e (dentries (pcblock ?s) ! i)]
         in ds[fd_val ?s := over_entry e (ds ! fd_val ?s)])"
      "ram t = ram ?s" "filesystem t = filesystem ?s" "BOOT_BLOCK_PTR t = BOOT_BLOCK_PTR ?s" "pcbs t ?p = pcblock t"
    have "dentries (pcblock t) ! i = over_entry e (dentries (pcblock s) ! i)"
      unfolding t(3) Let_def using len by (simp add: swap)
    then show thesis
      using that t sys_open_slot [OF assms(2,4,5), of dev fm] by simp
  qed
qed

text \<open>A name that the directory does not have.\<close>

lemma open_entry_missing:
  assumes "fm filename \<noteq> 0" "\<And>d. read_dentry_by_name fm filename d s = (-1, d)" "sys_ok s" "i < 8"
  obtains t where "open_entry dev fm filename p i s = (-1, t)"
    "file_struct (pcblock t) = (file_struct (pcblock s))[i := (file_struct (pcblock s) ! i)\<lparr>flags := 0\<rparr>]"
    "dentries (pcblock t) = dentries (pcblock s)" "ram t = ram s"
proof -
  define s1 where "s1 = upd_file i (\<lambda>f. f\<lparr>flags := 1\<rparr>) s"
  have len: "length (file_struct (pcblock s)) = 8" "length (dentries (pcblock s)) = 8" "fd_val s < 8"
    using assms(3) by (simp_all add: sys_ok_def pcb_ok_def)
  have look: "read_dentry_by_name fm filename d' t = (-1, d')"
    if "ram t = ram s" "filesystem t = filesystem s" for t d'
    using assms(2) lookup_depends [OF that] by simp
  have s1: "ram s1 = ram s" "filesystem s1 = filesystem s" "dentries (pcblock s1) = dentries (pcblock s)" "fd_val s1 = fd_val s"
    by (simp_all add: s1_def)
  have same: "upd_dentry k (\<lambda>d. d) s' = s'" for k and s' :: "'a sys_state_scheme"
    by (simp add: upd_dentry_def)
  have o: "filesystem_open fm filename s1 = (-1, s1)"
    using same [of "fd_val s"] by (simp add: filesystem_open_def nonempty_name assms(1) look [OF s1(1,2)] upd_dentry_def)
  have "open_entry dev fm filename p i s = (-1, save_pcb p (upd_file i (\<lambda>f. f\<lparr>flags := 0\<rparr>) s1))"
    by (simp add: open_entry_def Let_def split_beta nonempty_name assms(1) s1_def [symmetric] look [OF s1(1,2)] same o)
  from that [OF this] show thesis using len assms(4) by (simp add: s1 s1_def)
qed

lemma find_upt_first:
  assumes "find P [k..<n] = Some i" "k \<le> j" "j < i"
  shows "\<not> P j"
proof -
  obtain m where "i = k + m" "\<forall>l<m. \<not> P (k + l)" using assms(1) by (auto simp: find_Some_iff)
  moreover have "j = k + (j - k)" using assms(2) by simp
  ultimately show ?thesis using assms(3) by (metis nat_add_left_cancel_less)
qed

lemma free_fd_first:
  assumes "free_fd p = Some i" "i < 8"
  shows "2 \<le> i" "2 \<le> j \<Longrightarrow> j < i \<Longrightarrow> flags (file_struct p ! j) \<noteq> 0"
proof -
  show "2 \<le> i" using free_fd_bounds [OF assms(1)] by simp
  assume j: "2 \<le> j" "j < i"
  have "flags_at p j \<noteq> 0"
    using assms(1) j unfolding free_fd_def FD_MIN_def by (rule find_upt_first)
  then show "flags (file_struct p ! j) \<noteq> 0" using j assms(2) by (simp add: flags_at_def FILE_ARRAY_SIZE_def)
qed

section \<open>Closing\<close>

lemma upd_dentry_files [simp]: "fd_index (upd_dentry i f s) = fd_index s" "fd_rtc (upd_dentry i f u) = fd_rtc u"
  by (simp_all add: upd_dentry_def)

lemma upd_file_index [simp]: "fd_index (upd_file i f s) = fd_index s" "fd_rtc (upd_file i f u) = fd_rtc u"
  by (simp_all add: upd_file_def)

lemma null_fops_files:
  "file_struct (pcblock (null_fops k s)) = (file_struct (pcblock s))[k := (file_struct (pcblock s) ! k)\<lparr>fops_ptr := NULL_fops\<rparr>]"
  if "length (file_struct (pcblock s)) = 8"
  using that by (auto simp: null_fops_def FILE_ARRAY_SIZE_def list_update_beyond)

lemma filesystem_close_files:
  "file_struct (pcblock (snd (filesystem_close i s))) = file_struct (pcblock s)
   \<or> file_struct (pcblock (snd (filesystem_close i s))) = (file_struct (pcblock s))[i := (file_struct (pcblock s) ! i)\<lparr>flags := 0\<rparr>]"
  by (auto simp: filesystem_close_def Let_def upd_file_def)

text \<open>The descriptors after a successful \<open>close\<close>.\<close>

definition closed_files :: "nat \<Rightarrow> nat \<Rightarrow> file_struct_t list \<Rightarrow> file_struct_t list" where
  "closed_files k i fs =
     (let fs = fs[i := (fs ! i)\<lparr>fpos := 0\<rparr>]; gs = fs[k := (fs ! k)\<lparr>fops_ptr := NULL_fops\<rparr>]
      in gs[i := (gs ! i)\<lparr>flags := 0\<rparr>])"

lemma closed_files_nth:
  assumes "j < length fs"
  shows "flags (closed_files k i fs ! j) = (if j = i then 0 else flags (fs ! j))"
    "fpos (closed_files k i fs ! j) = (if j = i then 0 else fpos (fs ! j))"
    "fops_ptr (closed_files k i fs ! j) = (if j = k then NULL_fops else fops_ptr (fs ! j))"
  using assms by (cases "k < length fs"; cases "i < length fs";
      simp add: closed_files_def Let_def nth_list_update list_update_beyond)+

lemma sys_close_files:
  assumes "length (file_struct (pcblock s)) = 8" "2 \<le> i" "i < 8" "flags (file_struct (pcblock s) ! i) = 1"
  shows "\<exists>t. sys_close (int i) s = (0, t) \<and> file_struct (pcblock t) = closed_files (fd_index s) i (file_struct (pcblock s))"
proof -
  define fs where "fs = (file_struct (pcblock s))[i := (file_struct (pcblock s) ! i)\<lparr>fpos := 0\<rparr>]"
  define s1 where "s1 = upd_dentry i (\<lambda>d. d\<lparr>file_type := 0, inode_number := 0\<rparr>) (upd_file i (\<lambda>f. f\<lparr>fpos := 0\<rparr>) s)"
  define s2 where "s2 = upd_dentry i (\<lambda>d. d\<lparr>file_name := replicate 32 0, d_reserved := replicate 24 0\<rparr>) (null_fops (fd_index s) s1)"
  define s3 where "s3 = (if fd_rtc s2 > 1 \<and> i = fd_rtc s2 then snd (rtc_close (int i) s2) else snd (filesystem_close i s2))"
  have run: "sys_close (int i) s = (0, upd_file i (\<lambda>f. f\<lparr>flags := 0\<rparr>) s3)"
    using assms(2-4) by (simp add: sys_close_def sys_consts Let_def s1_def s2_def s3_def)
  have f2: "file_struct (pcblock s2) = fs[fd_index s := (fs ! fd_index s)\<lparr>fops_ptr := NULL_fops\<rparr>]"
    using assms(1) by (simp add: s2_def null_fops_files s1_def fs_def)
  have "file_struct (pcblock s3) = file_struct (pcblock s2)
      \<or> file_struct (pcblock s3) = (file_struct (pcblock s2))[i := (file_struct (pcblock s2) ! i)\<lparr>flags := 0\<rparr>]"
    using filesystem_close_files [of i s2] by (auto simp: s3_def rtc_close_def)
  then have "file_struct (pcblock (upd_file i (\<lambda>f. f\<lparr>flags := 0\<rparr>) s3))
      = (file_struct (pcblock s2))[i := (file_struct (pcblock s2) ! i)\<lparr>flags := 0\<rparr>]"
    using assms(1,3) by (auto simp: f2 fs_def)
  with run show ?thesis by (simp add: f2 Let_def closed_files_def fs_def)
qed

lemma find_pid_dir:
  assumes "p \<le> 6" "cr3 s = dir_addr (tables_at s) (task_dir p)"
  shows "find_pid s = int p"
proof -
  have "p \<in> {0, 1, 2, 3, 4, 5, 6}" using assms(1) by auto
  then show ?thesis using assms(2) by (auto simp: find_pid_def Let_def)
qed

section \<open>Properties\<close>

definition sys_example :: sys_state where
  "sys_example = \<lparr>ram = disk, out_log = [], int_on = True, cr3 = 0x409000, screen_x = 0, screen_y = 0,
     master_mask = 0xFF, slave_mask = 0xFF, intr_flag = 0, shift_flag = 0, alt_flag = 0, caps_flag = 0,
     ctrl_flag = 0, l_shift = 0, r_shift = 0, tables_at = 0x400000, directories = (\<lambda>_ _. 0),
     tables = (\<lambda>_ _. 0), cr0 = 0, cr4 = 0, user_pages = (\<lambda>_ _. 0),
     filesystem = filesystem fs_example, BOOT_BLOCK_PTR = 0x410000, pc = 1, fd_val = 0, fd_index = 2, new_pid = 1,
     dentry1 = empty_dentry, pcblock = empty_pcb, text_buf = replicate 128 0, counter = 0, entered = 0,
     cur_terminal = 1, term2_flag = 0, term3_flag = 0, term_pcb = empty_pcb, terminals = [], term2_press = 0,
     term3_press = 0, tasks = [1, 1, 0, 0, 0, 0, 0], fd_rtc = 0, term1_rst = 0, term2_rst = 0, term3_rst = 0,
     pcbs = (\<lambda>_. empty_pcb), tss_ss0 = 0, tss_esp0 = 0\<rparr>"

lemma sys_example_ok: "sys_ok sys_example"
  by (simp add: sys_example_def sys_ok_def pcb_ok_def empty_pcb_def empty_dentry_def BUF_MAX_def)

text \<open>Opening a file or directory that exists returns the least free descriptor from 2 on, open, at
  position 0, with the file system's operations and the file's directory entry; the other
  descriptors do not change, and the control block is saved for the running task.\<close>

theorem open_finds:
  assumes "sys_ok s" "filename \<noteq> 0" "fm filename \<noteq> 0" "free_fd (pcblock s) = Some i" "i < 8"
    "read_dentry_by_name fm filename d s = (0, e)" "file_type e \<noteq> 0"
  shows "\<exists>t. sys_open dev fm filename s = Some (int i, t) \<and> 2 \<le> i
    \<and> (\<forall>j. 2 \<le> j \<and> j < i \<longrightarrow> flags (file_struct (pcblock s) ! j) \<noteq> 0)
    \<and> file_struct (pcblock t) = (file_struct (pcblock s))
        [i := (file_struct (pcblock s) ! i)\<lparr>flags := 1, fpos := 0, fops_ptr := filesystem_fops\<rparr>]
    \<and> file_name (dentries (pcblock t) ! i) = file_name e \<and> file_type (dentries (pcblock t) ! i) = file_type e
    \<and> inode_number (dentries (pcblock t) ! i) = inode_number e
    \<and> pcbs t (pcb_at (of_int (find_pid s))) = pcblock t \<and> ram t = ram s"
  by (rule sys_open_file [OF assms, of dev])
    (use free_fd_first [OF assms(4,5)] in \<open>auto simp: over_entry_def\<close>)

definition name_a :: mem where
  "name_a = wr (\<lambda>_. 0) 4 (str ''a'')"

lemma name_a_4 [simp]: "name_a 4 = 0x61"
  by (simp add: name_a_def str_def wr_def)

lemma sys_example_lookup:
  "read_dentry_by_name name_a 4 d sys_example = (0, load_dentry disk 0x410040 d)"
proof -
  have "entry_name sys_example 0 = entry_name fs_example 0"
    by (simp add: entry_name_def entry_at_def sys_example_def)
  moreover have "cbytes name_a 4 32 = [0x61]" "cbytes (lit ''a'') 0 32 = [0x61]"
    by (rule cbytes_char; simp add: name_a_def str_def wr_def Let_def lit_def)+
  ultimately show ?thesis
    using lookup_found [of 0 sys_example name_a 4] lookup_a
    by (simp add: entry_at_def sys_example_def)
qed

lemma sys_example_free: "free_fd (pcblock sys_example) = Some 2"
  by (simp add: free_fd_def sys_consts sys_example_def empty_pcb_def flags_at_def empty_file_def)

lemma sys_example_entry:
  "file_type (load_dentry disk 0x410040 d) = 2" "inode_number (load_dentry disk 0x410040 d) = 0"
  by (simp_all add: load_dentry_def ld32_disk)

theorem open_finds_witness:
  "\<exists>t. sys_open (\<lambda>_ _. 0) name_a 4 sys_example = Some (2, t)"
  using open_finds [OF sys_example_ok _ _ sys_example_free _ sys_example_lookup, of empty_dentry "\<lambda>_ _. 0"]
  by (auto simp: sys_example_entry)

text \<open>C11: reading at most 4096 bytes of a data file through the descriptor \<open>open\<close> just returned gives the
  file's bytes from its start, as many as asked for or as the file has.\<close>

theorem open_then_read:
  assumes "sys_ok s" "filename \<noteq> 0" "fm filename \<noteq> 0" "free_fd (pcblock s) = Some i" "i < 8"
    "read_dentry_by_name fm filename d s = (0, e)" "file_type e = 2" "file_ok s (inode_number e)"
    "inode_number e < num_inodes (filesystem s) - 1" "0 < n" "n \<le> 4096" "buf \<noteq> 0"
    "apart buf n (BOOT_BLOCK_PTR s) (image_len s)"
  shows "\<exists>t u. sys_open dev fm filename s = Some (int i, t)
    \<and> sys_read junk irqs (int i) buf (int n) t = Some (int (min n (file_size s (inode_number e))), u)
    \<and> rd (ram u) buf (min n (file_size s (inode_number e)))
      = file_bytes s (inode_number e) 0 (min n (file_size s (inode_number e)))"
proof -
  let ?n = "inode_number e"
  have "file_type e \<noteq> 0" using assms(7) by simp
  from sys_open_file [OF assms(1-6) this, of dev]
  obtain t where t: "sys_open dev fm filename s = Some (int i, t)"
    "file_struct (pcblock t) = (file_struct (pcblock s))
        [i := (file_struct (pcblock s) ! i)\<lparr>flags := 1, fpos := 0, fops_ptr := filesystem_fops\<rparr>]"
    "dentries (pcblock t) ! i = over_entry e (dentries (pcblock s) ! i)"
    "ram t = ram s" "filesystem t = filesystem s" "BOOT_BLOCK_PTR t = BOOT_BLOCK_PTR s"
    by blast
  have len: "length (file_struct (pcblock s)) = 8"
    using assms(1) by (simp_all add: sys_ok_def pcb_ok_def)
  have f: "file_struct (pcblock t) ! i = (file_struct (pcblock s) ! i)\<lparr>flags := 1, fpos := 0, fops_ptr := filesystem_fops\<rparr>"
    using len assms(5) by (simp add: t(2))
  have at: "open_at t i ?n 0" using assms(5,7) len f by (simp add: open_at_def t(2,3))
  have im: "same_image s (ram t)" by (simp add: t(4))
  note files = same_files [OF assms(8) im t(5,6)]
  obtain u where "filesystem_read i buf (int n) t = Some (int (available t ?n 0 n), u)"
      "rd (ram u) buf (available t ?n 0 n) = file_bytes t ?n 0 (available t ?n 0 n)"
    using filesystem_read_step [OF at files(2), of n buf] assms(9-13) files(3) t(5,6) by auto
  moreover have "available t ?n 0 n = min n (file_size s ?n)" by (simp add: available_def files(1))
  moreover have "sys_read junk irqs (int i) buf (int n) t = filesystem_read i buf (int n) t"
    using assms(5,12) f by (simp add: sys_read_def fops_read_def FD_MAX_def)
  ultimately show ?thesis
    using t(1) files(4) [of 0 "min n (file_size s ?n)"] by auto
qed

lemma sys_example_file: "file_ok sys_example 0" "file_size sys_example 0 = 28" "image_len sys_example = 0x7000"
  using file_ok_example(1) file_size_example(1) image_len_example
  by (simp_all add: file_ok_def file_size_def image_len_def block_no_def inode_at_def sys_example_def)

theorem open_then_read_witness:
  "\<exists>t u. sys_open (\<lambda>_ _. 0) name_a 4 sys_example = Some (2, t) \<and> sys_read 0 [] 2 0x8000000 100 t = Some (28, u)
    \<and> rd (ram u) 0x8000000 28 = file_bytes sys_example 0 0 28"
proof -
  have "num_inodes (filesystem sys_example) = 3" "BOOT_BLOCK_PTR sys_example = 0x410000"
    by (simp_all add: sys_example_def)
  then show ?thesis
    using open_then_read [OF sys_example_ok _ _ sys_example_free _ sys_example_lookup, of empty_dentry 100 "0x8000000" "\<lambda>_ _. 0" 0 "[]"]
    by (simp add: sys_example_entry sys_example_file apart_def)
qed

text \<open>C37: \<open>open\<close> also writes the new file's directory entry over that of the descriptor last read or
  closed (\<open>fd_val\<close>): once a second file is opened after a read of the first, the first descriptor,
  still open, names the second file.\<close>

theorem open_overwrites_last_read:
  assumes "sys_ok s" "filename \<noteq> 0" "fm filename \<noteq> 0" "free_fd (pcblock s) = Some i" "i < 8"
    "read_dentry_by_name fm filename d s = (0, e)" "file_type e \<noteq> 0" "fd_val s = j" "j \<noteq> i"
  shows "\<exists>t. sys_open dev fm filename s = Some (int i, t) \<and> file_struct (pcblock t) ! j = file_struct (pcblock s) ! j
    \<and> inode_number (dentries (pcblock t) ! j) = inode_number e \<and> file_name (dentries (pcblock t) ! j) = file_name e"
proof -
  have "length (dentries (pcblock s)) = 8" "j < 8" using assms(1,8) by (simp_all add: sys_ok_def pcb_ok_def)
  then have over: "xs[i := y, j := over_entry e (xs[i := y] ! j)] ! j = over_entry e (xs ! j)"
    if "length xs = 8" for xs y using that assms(9) by simp
  obtain t where "sys_open dev fm filename s = Some (int i, t)"
    "file_struct (pcblock t) = (file_struct (pcblock s))
       [i := (file_struct (pcblock s) ! i)\<lparr>flags := 1, fpos := 0, fops_ptr := filesystem_fops\<rparr>]"
    "dentries (pcblock t) ! j = over_entry e (dentries (pcblock s) ! j)"
    using sys_open_file [OF assms(1-7), of dev] over \<open>length (dentries (pcblock s)) = 8\<close> assms(8)
    unfolding Let_def by metis
  then show ?thesis using assms(9) by (simp add: over_entry_def)
qed

theorem open_overwrites_last_read_witness:
  "\<exists>t. sys_open (\<lambda>_ _. 0) name_a 4 (sys_example\<lparr>fd_val := 3\<rparr>) = Some (2, t)
    \<and> inode_number (dentries (pcblock t) ! 3) = 0"
proof -
  let ?s = "sys_example\<lparr>fd_val := 3\<rparr>"
  have "sys_ok ?s" using sys_example_ok by (simp add: sys_ok_def)
  moreover have "read_dentry_by_name name_a 4 d ?s = (0, load_dentry disk 0x410040 d)" for d
    using sys_example_lookup lookup_depends [of ?s sys_example] by simp
  moreover have "free_fd (pcblock ?s) = Some 2" using sys_example_free by simp
  ultimately show ?thesis
    using open_overwrites_last_read [of ?s 4 name_a 2 empty_dentry "load_dentry disk 0x410040 empty_dentry" 3 "\<lambda>_ _. 0"]
    by (auto simp: sys_example_entry)
qed

text \<open>Closing an open descriptor from 2 to 7 answers 0, after which it is free and at position 0, and
  the other descriptors are open exactly if they were before.\<close>

theorem close_frees:
  assumes "sys_ok s" "2 \<le> i" "i < 8" "flags (file_struct (pcblock s) ! i) = 1"
  shows "\<exists>t. sys_close (int i) s = (0, t) \<and> flags (file_struct (pcblock t) ! i) = 0 \<and> fpos (file_struct (pcblock t) ! i) = 0
    \<and> (\<forall>j<8. j \<noteq> i \<longrightarrow> flags (file_struct (pcblock t) ! j) = flags (file_struct (pcblock s) ! j)
         \<and> fpos (file_struct (pcblock t) ! j) = fpos (file_struct (pcblock s) ! j))"
proof -
  have len: "length (file_struct (pcblock s)) = 8" using assms(1) by (simp add: sys_ok_def pcb_ok_def)
  then show ?thesis using sys_close_files [OF _ assms(2-4)] assms(3) by (auto simp: closed_files_nth)
qed

theorem close_frees_witness:
  "\<exists>t. sys_close 3 (upd_file 3 (\<lambda>f. f\<lparr>flags := 1\<rparr>) sys_example) = (0, t) \<and> flags (file_struct (pcblock t) ! 3) = 0"
proof -
  have "sys_ok (upd_file 3 (\<lambda>f. f\<lparr>flags := 1\<rparr>) sys_example)" using sys_example_ok by (rule ok_upd_file)
  then show ?thesis
    using close_frees [of "upd_file 3 (\<lambda>f. f\<lparr>flags := 1\<rparr>) sys_example" 3] by (simp add: sys_example_def empty_pcb_def) blast
qed

text \<open>C38: \<open>close\<close> takes away the operations of the descriptor opened last (\<open>fd_index\<close>) instead of those of
  the one it closes: when another descriptor is closed, the one opened last stays open, but a read
  of it jumps through a null pointer.\<close>

theorem close_breaks_last_opened:
  assumes "sys_ok s" "2 \<le> i" "i < 8" "flags (file_struct (pcblock s) ! i) = 1"
    "fd_index s = j" "j < 8" "j \<noteq> i" "flags (file_struct (pcblock s) ! j) \<noteq> 0" "buf \<noteq> 0" "0 \<le> n"
  shows "\<exists>t. sys_close (int i) s = (0, t) \<and> flags (file_struct (pcblock t) ! j) \<noteq> 0 \<and> sys_read junk irqs (int j) buf n t = None"
proof -
  have len: "length (file_struct (pcblock s)) = 8" using assms(1) by (simp add: sys_ok_def pcb_ok_def)
  then obtain t where t: "sys_close (int i) s = (0, t)"
      "file_struct (pcblock t) = closed_files (fd_index s) i (file_struct (pcblock s))"
    using sys_close_files [OF _ assms(2-4)] by blast
  have "fops_ptr (file_struct (pcblock t) ! j) = NULL_fops" "flags (file_struct (pcblock t) ! j) \<noteq> 0"
    unfolding t(2) assms(5) using len assms(6-8) by (simp_all add: closed_files_nth)
  then show ?thesis
    using t(1) assms(6,9,10) by (simp add: sys_read_def fops_read_def FD_MAX_def)
qed

theorem close_breaks_last_opened_witness:
  "\<exists>t. sys_close 3 (upd_file 2 (\<lambda>f. f\<lparr>flags := 1\<rparr>) (upd_file 3 (\<lambda>f. f\<lparr>flags := 1\<rparr>) sys_example)) = (0, t)
    \<and> sys_read 0 [] 2 4 1 t = None"
proof -
  let ?s = "upd_file 2 (\<lambda>f. f\<lparr>flags := 1\<rparr>) (upd_file 3 (\<lambda>f. f\<lparr>flags := 1\<rparr>) sys_example)"
  have "sys_ok ?s" using sys_example_ok by (intro ok_upd_file)
  then show ?thesis
    using close_breaks_last_opened [of ?s 3 2 4 1 0 "[]"] by (auto simp: sys_example_def empty_pcb_def)
qed

text \<open>The page directory the processor runs under names the task: loading the directory of task \<open>p\<close>,
  from 1 to 6, or the kernel's own, for \<open>p = 0\<close>, makes \<open>p\<close> the running process.\<close>

theorem find_pid_of_directory:
  assumes "p \<le> 6"
  shows "find_pid (load_cr3 (dir_addr (tables_at s) (task_dir p)) s) = int p"
  by (rule find_pid_dir [OF assms]) (simp add: load_cr3_def Let_def)

theorem find_pid_of_directory_witness:
  "find_pid (load_cr3 (dir_addr (tables_at sys_example) (task_dir 4)) sys_example) = 4"
  using find_pid_of_directory [of 4 sys_example] by simp

end
