(* ===== verification/Process.thy ===== *)
theory Process
  imports Descriptors
begin

text \<open>
  Programs: how the command line is split and handed to the program, which task slot \<open>execute\<close>
  takes, and that \<open>halt\<close> brings the caller back.
\<close>

section \<open>The command line\<close>

text \<open>The buffer \<open>xs\<close> with the characters \<open>ys\<close> from position \<open>k\<close> on.\<close>

definition put_at :: "nat \<Rightarrow> u8 list \<Rightarrow> u8 list \<Rightarrow> u8 list" where
  "put_at k ys xs = take k xs @ ys @ drop (k + length ys) xs"

lemma put_at_Nil [simp]: "put_at k [] xs = xs"
  by (simp add: put_at_def)

lemma put_at_Cons:
  assumes "k < length xs"
  shows "put_at (Suc k) ys (xs[k := y]) = put_at k (y # ys) xs"
  using assms by (simp add: put_at_def take_Suc_conv_app_nth)

abbreviation no_spaces :: "u8 list \<Rightarrow> u8 list" where
  "no_spaces \<equiv> filter (\<lambda>c. c \<noteq> 0x20)"

lemma upt_length_Cons: "[i..<i + length (y # ys)] = i # [Suc i..<Suc i + length ys]"
  using upt_conv_Cons [of i "i + length (y # ys)"] by (simp del: upt_Suc)

lemma parse_arg:
  assumes "cstring fm (input + of_nat i) ys" "length (arg_name p) = 40" "l + length (no_spaces ys) \<le> 40"
  shows "parse_loop fm input [i..<i + length ys] (True, k, l, p)
    = Some (l + length (no_spaces ys), p\<lparr>arg_name := put_at l (no_spaces ys) (arg_name p)\<rparr>)"
  using assms
proof (induction ys arbitrary: i l p)
  case (Cons y ys)
  have y: "fm (input + of_nat i) = y" "cstring fm (input + of_nat (Suc i)) ys"
    using Cons.prems(1) by (simp_all add: cstring_Cons add_ac)
  note split = upt_length_Cons [of i y ys]
  show ?case
  proof (cases "y = 0x20")
    case True
    then show ?thesis
      using Cons.IH [OF y(2), of p l] Cons.prems(2,3) y(1) unfolding split by simp
  next
    case False
    let ?p = "p\<lparr>arg_name := (arg_name p)[l := y]\<rparr>"
    have l: "l < 40" using False Cons.prems(3) by simp
    then have "put_arg l y p = Some ?p" by (simp add: put_arg_def CMD_LEN_def)
    then show ?thesis
      using Cons.IH [OF y(2), of ?p "Suc l"] Cons.prems(2,3) y(1) False put_at_Cons [of l "arg_name p" "no_spaces ys" y] l
      unfolding split by simp
  qed
qed simp

lemma parse_words:
  assumes "cstring fm (input + of_nat i) ys" "ys = [] \<or> hd ys \<noteq> 0x20"
    "length (cmd_name p) = 40" "length (arg_name p) = 40"
    "k + length (takeWhile (\<lambda>c. c \<noteq> 0x20) ys) \<le> 40" "length (no_spaces (dropWhile (\<lambda>c. c \<noteq> 0x20) ys)) \<le> 40"
  shows "parse_loop fm input [i..<i + length ys] (False, k, 0, p)
    = Some (length (no_spaces (dropWhile (\<lambda>c. c \<noteq> 0x20) ys)),
        p\<lparr>cmd_name := put_at k (takeWhile (\<lambda>c. c \<noteq> 0x20) ys) (cmd_name p),
          arg_name := put_at 0 (no_spaces (dropWhile (\<lambda>c. c \<noteq> 0x20) ys)) (arg_name p)\<rparr>)"
  using assms
proof (induction ys arbitrary: i k p)
  case (Cons y ys)
  have y: "fm (input + of_nat i) = y" "cstring fm (input + of_nat (Suc i)) ys" "y \<noteq> 0x20"
    using Cons.prems(1,2) by (simp_all add: cstring_Cons add_ac)
  note split = upt_length_Cons [of i y ys]
  let ?p = "p\<lparr>cmd_name := (cmd_name p)[k := y]\<rparr>"
  have k: "k < 40" "put_cmd k y p = Some ?p" using Cons.prems(5) y(3) by (simp_all add: put_cmd_def CMD_LEN_def)
  have at: "put_at (Suc k) zs ((cmd_name p)[k := y]) = put_at k (y # zs) (cmd_name p)" for zs
    using put_at_Cons [of k "cmd_name p"] k(1) Cons.prems(3) by simp
  have z: "(0 :: u8) \<noteq> 0x20" by simp
  have sp: "fm (input + of_nat i + 1) = 0x20 \<longleftrightarrow> ys \<noteq> [] \<and> hd ys = 0x20"
    using y(2) z by (cases ys) (simp_all only: cstring_Cons cstring_Nil of_nat_Suc add_ac list.sel list.distinct, simp_all)
  show ?case
  proof (cases "ys \<noteq> [] \<and> hd ys = 0x20")
    case True
    then obtain zs where ys: "ys = 0x20 # zs" by (cases ys) auto
    have "parse_loop fm input (i # [Suc i..<Suc i + length ys]) (False, k, 0, p)
        = parse_loop fm input [Suc i..<Suc i + length ys] (True, Suc k, 0, ?p)"
      using True y(1,3) k(2) sp by simp
    also have "\<dots> = Some (length (no_spaces ys), ?p\<lparr>arg_name := put_at 0 (no_spaces ys) (arg_name ?p)\<rparr>)"
      using parse_arg [OF y(2), of ?p 0 "Suc k"] Cons.prems(4,6) y(3) ys by simp
    finally show ?thesis unfolding split using y(3) at [of "[]"] by (simp add: ys)
  next
    case False
    then have "fm (input + of_nat i + 1) \<noteq> 0x20" "ys = [] \<or> hd ys \<noteq> 0x20" using sp by auto
    then show ?thesis
      using Cons.IH [OF y(2), of ?p "Suc k"] Cons.prems(3-6) y(1,3) k(2) at unfolding split by (simp del: upt_Suc)
  qed
qed simp

lemma parse_cmd_words:
  assumes "cstring fm input line" "line = [] \<or> hd line \<noteq> 0x20" "length line < 256"
    "length (takeWhile (\<lambda>c. c \<noteq> 0x20) line) \<le> 40" "length (no_spaces (dropWhile (\<lambda>c. c \<noteq> 0x20) line)) \<le> 40"
  defines "cmd \<equiv> takeWhile (\<lambda>c. c \<noteq> 0x20) line"
  defines "arg \<equiv> no_spaces (dropWhile (\<lambda>c. c \<noteq> 0x20) line)"
  shows "parse_cmd fm input p = Some (p\<lparr>cmd_name := cmd @ replicate (40 - length cmd) 0,
    arg_name := arg @ replicate (40 - length arg) 0, data_arg_size := of_nat (length arg)\<rparr>)"
proof -
  let ?p = "p\<lparr>cmd_name := replicate CMD_LEN 0, arg_name := replicate CMD_LEN 0\<rparr>"
  have at: "put_at 0 zs (replicate 40 0) = zs @ replicate (40 - length zs) 0" for zs
    by (simp add: put_at_def)
  have loop: "parse_loop fm input [0..<length line] (False, 0, 0, ?p) = Some (length arg, ?p\<lparr>cmd_name :=
      cmd @ replicate (40 - length cmd) 0, arg_name := arg @ replicate (40 - length arg) 0\<rparr>)"
    using parse_words [of fm input 0 line ?p 0] assms(1,2,4,5) by (simp add: CMD_LEN_def at cmd_def arg_def)
  have "fm input \<noteq> 0x20" using assms(1,2) by (cases line) (auto simp: cstring_Cons cstring_Nil)
  moreover have "unat (of_nat (length line) :: u32) = length line" using assms(3) by (simp add: unat_of_nat_u32)
  ultimately show ?thesis
    using assms(3) loop by (simp add: parse_cmd_def strlen_cstring [OF assms(1)] Let_def)
qed

section \<open>Task slots\<close>

lemma free_task_slots: "free_task ts 1 = find (\<lambda>i. ts ! i = 0) [1, 4, 5, 6]"
  by (subst free_task.simps) (simp add: free_task.simps [of _ 2] free_task.simps [of _ 5] free_task.simps [of _ 6]
      free_task.simps [of _ 7] MAX_TASKS_def numeral_2_eq_2 [symmetric] Let_def)

section \<open>Loading\<close>

lemma read_data_frame:
  "fs_state.more (snd (read_data inode off buf n s)) = fs_state.more s"
  "new_pid (snd (read_data inode off buf n s)) = new_pid s" "tables_at (snd (read_data inode off buf n s)) = tables_at s"
  "cr3 (snd (read_data inode off buf n s)) = cr3 s"
  by (simp_all add: read_data_eq Let_def upd_file_def)

lemma load_task_frame:
  "fs_state.more (load_task s) = fs_state.more s" "new_pid (load_task s) = new_pid s" "tables_at (load_task s) = tables_at s"
  by (simp_all add: load_task_def Let_def load_cr3_def)

text \<open>A program that the loader accepts has its task's directory loaded; nothing past the file system's
  part of the state changes.\<close>

lemma loader_frame:
  "fs_state.more (snd (loader fm fname s)) = fs_state.more s" "new_pid (snd (loader fm fname s)) = new_pid s"
  "tables_at (snd (loader fm fname s)) = tables_at s"
  by (simp_all add: loader_def Let_def split_beta read_data_frame load_task_frame)

lemma loader_cr3:
  assumes "1 \<le> unat (new_pid s)" "unat (new_pid s) \<le> 6" "fst (loader fm fname s) \<noteq> -1"
  shows "cr3 (snd (loader fm fname s)) = dir_addr (tables_at s) (task_dir (unat (new_pid s)))"
proof -
  have "cr3 (load_task (snd (read_data inode off buf n (s\<lparr>dentry1 := d\<rparr>))))
      = dir_addr (tables_at s) (task_dir (unat (new_pid s)))" for inode off buf n d
    using load_task_run(1) [of "snd (read_data inode off buf n (s\<lparr>dentry1 := d\<rparr>))"] assms(1,2)
    by (simp add: read_data_frame)
  then show ?thesis using assms(3) by (auto simp: loader_def Let_def split_beta split: if_splits)
qed

section \<open>Starting a program\<close>

lemma fs_more_sys: "fs_state.more t = fs_state.more s \<Longrightarrow> tasks t = tasks s \<and> pcbs t = pcbs s"
  for s t :: "'a sys_state_scheme"
  by (cases s; cases t) simp

lemma set_up_task_simps:
  "tasks (set_up_task c s) = tasks s" "new_pid (set_up_task c s) = new_pid s" "tables_at (set_up_task c s) = tables_at s"
  "cr3 (set_up_task c s) = cr3 s" "a \<noteq> pcb_at (new_pid s) \<Longrightarrow> pcbs (set_up_task c s) a = pcbs s a"
  "file_struct (pcblock (set_up_task c s)) = start_files (file_struct (pcblock s))"
  by (simp_all add: set_up_task_def Let_def save_pcb_def load_cr3_def)

lemma start_program_user:
  assumes "start_program c eip s = Some (r, t)" "1 \<le> unat (new_pid s)" "unat (new_pid s) \<le> 6"
  shows "r = User_mode eip 0x083FFFFC" "tasks t = tasks s" "cr3 t = cr3 s" "new_pid t = new_pid s" "tables_at t = tables_at s"
    "a \<noteq> pcb_at (new_pid s) \<Longrightarrow> pcbs t a = pcbs s a" "int_on t" "tss_esp0 t = kernel_stack (new_pid s)"
    "file_struct (pcblock t) = start_files (file_struct (pcblock s))"
proof -
  have "unat (new_pid s) \<in> {1, 2, 3, 4, 5, 6}" using assms(2,3) by auto
  then have "new_pid s = 1 \<or> new_pid s = 2 \<or> new_pid s = 3 \<or> new_pid s = 4 \<or> new_pid s = 5 \<or> new_pid s = 6"
    by (auto simp: word_unat_eq_iff)
  then obtain d where "enter_user eip ((set_up_task c s)\<lparr>pcblock := (pcblock (set_up_task c s))\<lparr>pcb_cr3 := d\<rparr>\<rparr>) = (r, t)"
    using assms(1) unfolding start_program_def Let_def set_up_task_simps by auto
  then show "r = User_mode eip 0x083FFFFC" "tasks t = tasks s" "cr3 t = cr3 s" "new_pid t = new_pid s" "tables_at t = tables_at s"
    "a \<noteq> pcb_at (new_pid s) \<Longrightarrow> pcbs t a = pcbs s a" "int_on t" "tss_esp0 t = kernel_stack (new_pid s)"
    "file_struct (pcblock t) = start_files (file_struct (pcblock s))"
    by (auto simp: enter_user_def set_up_task_simps sti_def cli_def MB_132_def START_def)
qed

lemma run_program_user:
  assumes "run_program fm command c s = Some (User_mode eip sp, t)" "1 \<le> unat (new_pid s)" "unat (new_pid s) \<le> 6"
  shows "tasks t = tasks s" "cr3 t = dir_addr (tables_at s) (task_dir (unat (new_pid s)))" "new_pid t = new_pid s"
    "tables_at t = tables_at s" "a \<noteq> pcb_at (new_pid s) \<Longrightarrow> pcbs t a = pcbs s a" "int_on t"
    "tss_esp0 t = kernel_stack (new_pid s)" "sp = 0x083FFFFC" "\<exists>fs. file_struct (pcblock t) = start_files fs"
proof -
  obtain p where p: "parse_cmd fm command (pcblock s) = Some p"
    using assms(1) by (auto simp: run_program_def split: Option.bind_splits)
  let ?s = "s\<lparr>pcblock := p\<rparr>"
  obtain r u where u: "loader (wr (\<lambda>_. 0) 0 (cmd_name p)) 0 ?s = (r, u)" by fastforce
  then have r: "of_int r \<noteq> (-1 :: u32)" and run: "start_program c (of_int r) u = Some (User_mode eip sp, t)"
    using assms(1) p by (auto simp: run_program_def Let_def split: if_splits)
  note frame = loader_frame [of "wr (\<lambda>_. 0) 0 (cmd_name p)" 0 ?s, unfolded u snd_conv]
  have more: "tasks u = tasks s" "pcbs u = pcbs s" using fs_more_sys [OF frame(1)] by simp_all
  have new: "new_pid u = new_pid s" "tables_at u = tables_at s" using frame(2,3) by simp_all
  have "r \<noteq> -1" using r by auto
  then have c: "cr3 u = dir_addr (tables_at s) (task_dir (unat (new_pid s)))"
    using loader_cr3 [of ?s "wr (\<lambda>_. 0) 0 (cmd_name p)" 0] assms(2,3) u by simp
  note start = start_program_user [OF run, unfolded new, OF assms(2,3)]
  show "tasks t = tasks s" "cr3 t = dir_addr (tables_at s) (task_dir (unat (new_pid s)))" "new_pid t = new_pid s"
    "tables_at t = tables_at s" "a \<noteq> pcb_at (new_pid s) \<Longrightarrow> pcbs t a = pcbs s a" "int_on t"
    "tss_esp0 t = kernel_stack (new_pid s)" "sp = 0x083FFFFC" "\<exists>fs. file_struct (pcblock t) = start_files fs"
    using start c more by auto
qed

lemma leave_caller_simps:
  "tasks (leave_caller esp ebp c s) = (tasks s)[unat (new_pid s) := c]" "new_pid (leave_caller esp ebp c s) = new_pid s"
  "tables_at (leave_caller esp ebp c s) = tables_at s"
  "new_pid s \<noteq> 1 \<Longrightarrow> pcbs (leave_caller esp ebp c s) (pcb_at c) = (pcblock s)\<lparr>pcb_esp := esp, pcb_ebp := ebp\<rparr>"
  by (simp_all add: leave_caller_def Let_def save_pcb_def)

lemma new_task_simps:
  "tasks (new_task fm command s) = tasks s" "tables_at (new_task fm command s) = tables_at s"
  "cr3 (new_task fm command s) = cr3 s" "pcblock (new_task fm command s) = pcblock s" "pcbs (new_task fm command s) = pcbs s"
  unfolding new_task_def Let_def by simp_all

lemma new_task_pid: "new_pid (new_task fm command s) \<in> {1, 2, 3, 4, 5, 6, 7}"
proof -
  have "(case free_task (tasks s) 1 of Some i \<Rightarrow> i | None \<Rightarrow> MAX_TASKS) \<in> {1, 4, 5, 6, 7}"
    unfolding free_task_slots by (simp add: MAX_TASKS_def)
  then show ?thesis unfolding new_task_def Let_def by auto
qed

text \<open>A call of \<open>execute\<close> that enters a program.\<close>

lemma execute_user:
  assumes "execute junk dev esp ebp fm command s = Some (User_mode eip sp, t)"
  shows "\<exists>q. 1 \<le> q \<and> q \<le> 6 \<and> new_pid t = of_nat q \<and> tasks t = (tasks s)[q := caller_pid s]
    \<and> cr3 t = dir_addr (tables_at s) (task_dir q) \<and> tables_at t = tables_at s \<and> int_on t
    \<and> tss_esp0 t = kernel_stack (of_nat q) \<and> sp = 0x083FFFFC \<and> (\<exists>fs. file_struct (pcblock t) = start_files fs)
    \<and> (q \<noteq> 1 \<and> pcb_at (caller_pid s) \<noteq> pcb_at (of_nat q) \<longrightarrow>
        pcb_esp (pcbs t (pcb_at (caller_pid s))) = esp \<and> pcb_ebp (pcbs t (pcb_at (caller_pid s))) = ebp
        \<and> pcb_cr3 (pcbs t (pcb_at (caller_pid s))) = cr3 s)"
proof -
  define u where "u = new_task fm command (s\<lparr>pcblock := (pcblock s)\<lparr>pcb_cr3 := cr3 s\<rparr>\<rparr>)"
  define v where "v = leave_caller esp ebp (caller_pid s) u"
  have c: "command \<noteq> 0" using assms by (auto simp: execute_def)
  have n7: "new_pid u \<noteq> 7" and run: "run_program fm command (caller_pid s) v = Some (User_mode eip sp, t)"
    using assms c unfolding execute_def Let_def u_def [symmetric] v_def [symmetric] MAX_TASKS_def by (auto split: if_splits)
  define q where "q = unat (new_pid u)"
  have q: "1 \<le> q" "q \<le> 6" "new_pid u = of_nat q"
    using new_task_pid [of fm command "s\<lparr>pcblock := (pcblock s)\<lparr>pcb_cr3 := cr3 s\<rparr>\<rparr>"] n7 unfolding q_def u_def by auto
  have v: "new_pid v = of_nat q" "tables_at v = tables_at s" "tasks v = (tasks s)[q := caller_pid s]"
    by (simp_all add: v_def u_def leave_caller_simps new_task_simps q_def)
  have uq: "unat (of_nat q :: u32) = q" using q(2) by (simp add: unat_of_nat_u32)
  have q1: "of_nat q = (1 :: u32) \<longleftrightarrow> q = 1" using uq by (metis of_nat_1 unat_1)
  note prog = run_program_user [OF run, unfolded v(1) uq, OF q(1,2)]
  have "pcbs v (pcb_at (caller_pid s)) = (pcblock s)\<lparr>pcb_cr3 := cr3 s, pcb_esp := esp, pcb_ebp := ebp\<rparr>" if "q \<noteq> 1"
    using that q(3) q1 by (simp add: v_def leave_caller_simps) (simp add: u_def new_task_simps)
  then show ?thesis using prog v q by (intro exI [of _ q]) auto
qed

section \<open>Programs that run\<close>

text \<open>The directory has a file under the name \<open>cmd\<close> that is an executable the loader can load whole.\<close>

definition runnable :: "'a fs_state_scheme \<Rightarrow> u8 list \<Rightarrow> u32 \<Rightarrow> bool" where
  "runnable s cmd inode \<longleftrightarrow>
     (\<exists>i<62. entry_name s i = take 32 cmd \<and> (\<forall>j<i. entry_name s j \<noteq> take 32 cmd) \<and> ld32 (ram s) (entry_at s i + 36) = inode)
     \<and> file_ok s inode \<and> inode < num_inodes (filesystem s) - 1
     \<and> 28 \<le> file_size s inode \<and> file_size s inode \<le> 0x1FB000 \<and> (file_size s inode < 8192 \<or> 4096 dvd file_size s inode)
     \<and> file_bytes s inode 0 4 = elf_magic \<and> elf_entry (file_bytes s inode 0 (file_size s inode)) \<noteq> -1
     \<and> apart NEW_LOAD (file_size s inode) (BOOT_BLOCK_PTR s) (image_len s)"

lemma runnable_cong:
  assumes "ram t = ram s" "filesystem t = filesystem s" "BOOT_BLOCK_PTR t = BOOT_BLOCK_PTR s"
  shows "runnable t cmd inode = runnable s cmd inode" "file_size t inode = file_size s inode"
    "file_bytes t inode off n = file_bytes s inode off n"
proof -
  show eq: "file_size t inode = file_size s inode" "file_bytes t inode off n = file_bytes s inode off n" for off n
    by (simp_all add: file_size_def inode_at_def file_bytes_def block_at_def block_no_def assms)
  have "file_ok t inode = file_ok s inode" "image_len t = image_len s" "entry_at t = entry_at s" "entry_name t = entry_name s"
    by (simp_all add: fun_eq_iff file_ok_def eq image_len_def block_no_def inode_at_def entry_name_def entry_at_def assms)
  then show "runnable t cmd inode = runnable s cmd inode" unfolding runnable_def eq assms by simp
qed

lemma cmd_cbytes:
  assumes "0 \<notin> set cmd" "length cmd \<le> 40"
  shows "cbytes (wr (\<lambda>_. 0) 0 (cmd @ replicate (40 - length cmd) 0)) 0 32 = take 32 cmd"
proof (rule cbytes_cstring)
  let ?m = "wr (\<lambda>_. 0) 0 (cmd @ replicate (40 - length cmd) 0)"
  have "rd ?m 0 (length cmd) = cmd"
    using assms(2) rd_wr_prefix [of cmd "replicate (40 - length cmd) 0" "\<lambda>_. 0" 0] by simp
  moreover have "?m (0 + of_nat (length cmd)) = 0"
    using assms(2) by (simp add: wr_def Let_def nth_append unat_of_nat_u32)
  ultimately show "cstring ?m 0 cmd" using assms by (simp add: cstring_def)
qed

lemma loader_runs:
  assumes "runnable s cmd inode" "cbytes fm 0 32 = take 32 cmd" "1 \<le> unat (new_pid s)" "unat (new_pid s) \<le> 6"
  defines "bs \<equiv> file_bytes s inode 0 (file_size s inode)"
  shows "fst (loader fm 0 s) = sint (elf_entry bs)" "rd (ram (snd (loader fm 0 s))) PROGRAM_IMG (file_size s inode) = bs"
proof -
  obtain i where i: "i < 62" "entry_name s i = take 32 cmd" "\<forall>j<i. entry_name s j \<noteq> take 32 cmd"
      "ld32 (ram s) (entry_at s i + 36) = inode"
    using assms(1) by (auto simp: runnable_def)
  let ?d = "load_dentry (ram s) (entry_at s i) (dentry1 s)"
  have lk: "read_dentry_by_name fm 0 (dentry1 s) s = (0, ?d)" "inode_number ?d = inode"
    using lookup_found [of i s fm 0 "dentry1 s"] i assms(2) by (simp_all add: load_dentry_def)
  define t where "t = upd_file (fd_val s) (\<lambda>f. f\<lparr>fpos := of_nat (file_size s inode)\<rparr>)
    (s\<lparr>dentry1 := ?d, ram := wr (ram s) NEW_LOAD bs\<rparr>)"
  have run: "loader fm 0 s = (sint (elf_entry bs),
      (load_task t)\<lparr>ram := memcpy (ram (load_task t)) PROGRAM_IMG NEW_LOAD (of_nat (file_size s inode))\<rparr>)"
    unfolding t_def bs_def using assms(1) by (intro loader_run [OF lk]) (simp_all add: runnable_def)
  have n: "file_size s inode \<le> 0x1FB000" using assms(1) by (simp add: runnable_def)
  have "rd (ram t) NEW_LOAD (file_size s inode) = bs" "new_pid t = new_pid s"
    using n by (simp_all add: t_def rd_wr_same bs_def) (simp add: upd_file_def)
  then show "fst (loader fm 0 s) = sint (elf_entry bs)" "rd (ram (snd (loader fm 0 s))) PROGRAM_IMG (file_size s inode) = bs"
    using loader_image(1) [of t] assms(3,4) n by (simp_all add: run)
qed

lemma reload_cr3: "c = cr3 s \<Longrightarrow> ram (load_cr3 c s) = ram s"
  by (simp add: load_cr3_def Let_def fun_eq_iff)

lemma start_program_enters:
  assumes "1 \<le> unat (new_pid s)" "unat (new_pid s) \<le> 6"
  shows "\<exists>t. start_program c eip s = Some (User_mode eip 0x083FFFFC, t) \<and> ram t = ram s \<and> new_pid t = new_pid s"
proof -
  have "unat (new_pid s) \<in> {1, 2, 3, 4, 5, 6}" using assms by auto
  then have "new_pid s = 1 \<or> new_pid s = 2 \<or> new_pid s = 3 \<or> new_pid s = 4 \<or> new_pid s = 5 \<or> new_pid s = 6"
    by (auto simp: word_unat_eq_iff)
  moreover have "ram (set_up_task c s) = ram s"
    unfolding set_up_task_def Let_def save_pcb_def by (simp add: reload_cr3)
  ultimately show ?thesis
    unfolding start_program_def Let_def set_up_task_simps
    by (auto simp: enter_user_def sti_def cli_def MB_132_def START_def set_up_task_simps)
qed

lemma new_task_files:
  "ram (new_task fm command s) = ram s" "filesystem (new_task fm command s) = filesystem s"
  "BOOT_BLOCK_PTR (new_task fm command s) = BOOT_BLOCK_PTR s"
  unfolding new_task_def Let_def by simp_all

lemma leave_caller_files:
  "ram (leave_caller esp ebp c s) = ram s" "filesystem (leave_caller esp ebp c s) = filesystem s"
  "BOOT_BLOCK_PTR (leave_caller esp ebp c s) = BOOT_BLOCK_PTR s"
  by (simp_all add: leave_caller_def Let_def save_pcb_def)

text \<open>A command line \<open>execute\<close> can split: it starts with the command, and its parts fit their buffers.\<close>

definition command_line :: "mem \<Rightarrow> u32 \<Rightarrow> u8 list \<Rightarrow> u8 list \<Rightarrow> u8 list \<Rightarrow> bool" where
  "command_line fm command line cmd arg \<longleftrightarrow> command \<noteq> 0 \<and> cstring fm command line \<and> length line < 256
     \<and> line \<noteq> [] \<and> hd line \<noteq> 0x20 \<and> cmd = takeWhile (\<lambda>c. c \<noteq> 0x20) line
     \<and> arg = no_spaces (dropWhile (\<lambda>c. c \<noteq> 0x20) line) \<and> length cmd \<le> 40 \<and> length arg \<le> 40"

text \<open>Up to the loader.\<close>

lemma execute_loads:
  assumes "command_line fm command line cmd arg" "new_pid (new_task fm command s) = of_nat q" "q \<le> 6"
  obtains m v where "execute junk dev esp ebp fm command s = (let (r, w) = loader m 0 v
      in if of_int r = (-1 :: u32) then Some (Ret (-1), w) else start_program (caller_pid s) (of_int r) w)"
    "cbytes m 0 32 = take 32 cmd" "ram v = ram s" "filesystem v = filesystem s" "BOOT_BLOCK_PTR v = BOOT_BLOCK_PTR s"
    "unat (new_pid v) = q" "1 \<le> q" "tasks v = (tasks s)[q := caller_pid s]"
proof -
  define u where "u = new_task fm command (s\<lparr>pcblock := (pcblock s)\<lparr>pcb_cr3 := cr3 s\<rparr>\<rparr>)"
  define v where "v = leave_caller esp ebp (caller_pid s) u"
  have cl: "command \<noteq> 0" "cstring fm command line" "line \<noteq> []" "hd line \<noteq> 0x20" "length line < 256"
      "cmd = takeWhile (\<lambda>c. c \<noteq> 0x20) line" "length cmd \<le> 40"
    using assms(1) unfolding command_line_def by blast+
  have "new_pid u = new_pid (new_task fm command s)" unfolding u_def new_task_def Let_def by auto
  then have pu: "new_pid u = of_nat q" using assms(2) by simp
  have uq: "unat (of_nat q :: u32) = q" using assms(3) by (simp add: unat_of_nat_u32)
  have q: "1 \<le> q" "new_pid u \<noteq> 7"
  proof -
    have "unat (new_pid (new_task fm command s)) \<in> {1, 2, 3, 4, 5, 6, 7}" using new_task_pid [of fm command s] by auto
    then show "1 \<le> q" unfolding assms(2) uq by auto
    show "new_pid u \<noteq> 7"
    proof
      assume "new_pid u = 7"
      then have "unat (of_nat q :: u32) = 7" using pu by simp
      then show False using uq assms(3) by simp
    qed
  qed
  obtain p where p: "parse_cmd fm command (pcblock v) = Some p" "cmd_name p = cmd @ replicate (40 - length cmd) 0"
    using parse_cmd_words [OF cl(2) _ cl(5), of "pcblock v"] assms(1) by (auto simp: command_line_def)
  let ?v = "v\<lparr>pcblock := p\<rparr>" and ?m = "wr (\<lambda>_. 0) 0 (cmd_name p)"
  have "0 \<notin> set cmd" using cstringD(3) [OF cl(2)] set_takeWhileD unfolding cl(6) by fast
  then have cb: "cbytes ?m 0 32 = take 32 cmd" unfolding p(2) using cl(7) by (rule cmd_cbytes)
  have "run_program fm command (caller_pid s) v = (let (r, w) = loader ?m 0 ?v
      in if of_int r = (-1 :: u32) then Some (Ret (-1), w) else start_program (caller_pid s) (of_int r) w)"
    using p(1) by (simp add: run_program_def Let_def)
  then have run: "execute junk dev esp ebp fm command s = (let (r, w) = loader ?m 0 ?v
      in if of_int r = (-1 :: u32) then Some (Ret (-1), w) else start_program (caller_pid s) (of_int r) w)"
    using cl(1) q(2) unfolding execute_def Let_def u_def [symmetric] v_def [symmetric] MAX_TASKS_def by simp
  have v: "ram v = ram s" "filesystem v = filesystem s" "BOOT_BLOCK_PTR v = BOOT_BLOCK_PTR s" "unat (new_pid v) = q"
      "tasks v = (tasks s)[q := caller_pid s]"
    by (simp_all add: v_def leave_caller_files leave_caller_simps pu uq) (simp_all add: u_def new_task_files new_task_simps)
  show thesis by (rule that [OF run cb]) (use v q(1) in simp_all)
qed

lemma execute_runs:
  assumes "command_line fm command line cmd arg" "runnable s cmd inode"
    "new_pid (new_task fm command s) = of_nat q" "q \<le> 6"
  shows "\<exists>t. execute junk dev esp ebp fm command s
      = Some (User_mode (elf_entry (file_bytes s inode 0 (file_size s inode))) 0x083FFFFC, t)
    \<and> rd (ram t) PROGRAM_IMG (file_size s inode) = file_bytes s inode 0 (file_size s inode) \<and> new_pid t = of_nat q"
proof -
  let ?bs = "file_bytes s inode 0 (file_size s inode)"
  obtain m v where ex: "execute junk dev esp ebp fm command s = (let (r, w) = loader m 0 v
      in if of_int r = (-1 :: u32) then Some (Ret (-1), w) else start_program (caller_pid s) (of_int r) w)"
    and cb: "cbytes m 0 32 = take 32 cmd"
    and v: "ram v = ram s" "filesystem v = filesystem s" "BOOT_BLOCK_PTR v = BOOT_BLOCK_PTR s" "unat (new_pid v) = q" "1 \<le> q"
    by (rule execute_loads [OF assms(1,3,4), of junk dev esp ebp]) blast
  have run: "runnable v cmd inode" using assms(2) runnable_cong(1) [OF v(1-3)] by simp
  have n: "1 \<le> unat (new_pid v)" "unat (new_pid v) \<le> 6" using v(4,5) assms(4) by simp_all
  note load = loader_runs [OF run cb n, unfolded runnable_cong(2,3) [OF v(1-3)]]
  obtain r w where w: "loader m 0 v = (r, w)" by fastforce
  have e: "of_int r = elf_entry ?bs" "elf_entry ?bs \<noteq> -1" "rd (ram w) PROGRAM_IMG (file_size s inode) = ?bs"
    using load w assms(2) by (simp_all add: runnable_def)
  have nw: "new_pid w = new_pid v" using loader_frame(2) [of m 0 v] w by simp
  then obtain t where t: "start_program (caller_pid s) (elf_entry ?bs) w = Some (User_mode (elf_entry ?bs) 0x083FFFFC, t)"
      "ram t = ram w" "new_pid t = new_pid v"
    using start_program_enters [of w "caller_pid s" "elf_entry ?bs"] n by auto
  have "new_pid v = of_nat q" using v(4) by auto
  then show ?thesis using ex w e t by simp
qed

section \<open>Ending a program\<close>

lemma rd_load_cr3: "unat a + n \<le> 0x08000000 \<Longrightarrow> rd (ram (load_cr3 c s)) a n = rd (ram s) a n"
proof (rule rd_cong)
  fix i assume "unat a + n \<le> 0x08000000" "i < n"
  then have "unat (a + of_nat i) < 0x08000000" by (simp add: unat_word_ariths unat_of_nat)
  then show "ram (load_cr3 c s) (a + of_nat i) = ram s (a + of_nat i)"
    by (simp add: load_cr3_def Let_def word_le_nat_alt)
qed

lemma sys_close_frame:
  "tasks (snd (sys_close fd s)) = tasks s" "pcbs (snd (sys_close fd s)) = pcbs s" "cr3 (snd (sys_close fd s)) = cr3 s"
  "tables_at (snd (sys_close fd s)) = tables_at s"
  by (simp_all add: sys_close_def Let_def rtc_close_def filesystem_close_def null_fops_def upd_file_def upd_dentry_def)

lemma close_all_frame:
  fixes s :: "'a sys_state_scheme"
  defines "u \<equiv> fold (\<lambda>i s. snd (sys_close (int i) s)) [2..<8] s"
  shows "tasks u = tasks s" "tables_at u = tables_at s"
  unfolding u_def by (rule fold_keeps, simp add: sys_close_frame)+

lemma pcb_at_slot: "EIGHT_MB - KB_8 * (p + T_6) - START = pcb_at p"
  by (simp add: pcb_at_def sys_consts algebra_simps)

lemma halt_program:
  assumes "find_pid s = int q" "4 \<le> q" "q \<le> 6" "tasks s ! q = p"
  obtains t where "halt junk dev esp ebp status s = Some (Resume (pcb_esp (pcbs s (pcb_at p))) (pcb_ebp (pcbs s (pcb_at p))) 0, t)"
    "cr3 t = pcb_cr3 (pcbs s (pcb_at p))" "tables_at t = tables_at s" "tasks t = (tasks s)[q := 0]"
    "tss_esp0 t = kernel_stack (of_int (find_pid t))"
proof -
  define u where "u = fold (\<lambda>i s. snd (sys_close (int i) s)) [2..<8] (s\<lparr>pc := pc s - 1, tasks := (tasks s)[q := 0]\<rparr>)"
  have u: "tasks u = (tasks s)[q := 0]" "tables_at u = tables_at s"
    unfolding u_def close_all_frame by simp_all
  define v where "v = load_cr3 (pcb_cr3 (pcbs s (pcb_at p))) u"
  define t where "t = v\<lparr>tss_esp0 := kernel_stack (of_int (find_pid v))\<rparr>"
  have "halt junk dev esp ebp status s = Some (Resume (pcb_esp (pcbs s (pcb_at p))) (pcb_ebp (pcbs s (pcb_at p))) 0, t)"
    using assms unfolding halt_def Let_def pcb_at_slot t_def v_def u_def T_SHELL_MAX_def by (simp del: upt_rec_numeral)
  moreover have "cr3 t = pcb_cr3 (pcbs s (pcb_at p))" "tables_at t = tables_at s" "tasks t = (tasks s)[q := 0]"
    by (simp_all add: t_def v_def load_cr3_def Let_def u)
  moreover have "find_pid t = find_pid v" by (simp add: t_def find_pid_def)
  then have "tss_esp0 t = kernel_stack (of_int (find_pid t))" by (simp add: t_def)
  ultimately show thesis by (rule that)
qed

lemma pcb_at_inj: "p \<le> 6 \<Longrightarrow> q \<le> 6 \<Longrightarrow> pcb_at (of_nat p) = pcb_at (of_nat q) \<longleftrightarrow> p = q"
proof -
  assume "p \<le> 6" "q \<le> 6"
  then have "p \<in> {0, 1, 2, 3, 4, 5, 6}" "q \<in> {0, 1, 2, 3, 4, 5, 6}" by auto
  then show ?thesis by (auto simp: pcb_at_def sys_consts)
qed

text \<open>Back into the caller.\<close>

lemma halt_resumes:
  assumes "execute junk dev esp ebp fm command s = Some (User_mode eip sp, t)"
    "cr3 s = dir_addr (tables_at s) (task_dir p)" "1 \<le> p" "p \<le> 6" "new_pid t = of_nat q" "4 \<le> q" "q \<le> 6" "p \<noteq> q"
    "length (tasks s) = 7"
    "cr3 u = cr3 t" "tables_at u = tables_at t" "tasks u = tasks t" "pcbs u (pcb_at (of_nat p)) = pcbs t (pcb_at (of_nat p))"
  shows "\<exists>v. halt junk' dev esp' ebp' status u = Some (Resume esp ebp 0, v) \<and> cr3 v = cr3 s \<and> find_pid v = int p
    \<and> tss_esp0 v = kernel_stack (of_nat p) \<and> tasks v = (tasks s)[q := 0]"
proof -
  have pid: "caller_pid s = of_nat p"
    using find_pid_dir [OF assms(4,2)] assms(3) by (simp add: caller_pid_def)
  obtain q' where q': "1 \<le> q'" "q' \<le> 6" "new_pid t = of_nat q'" "tasks t = (tasks s)[q' := of_nat p]"
      "cr3 t = dir_addr (tables_at s) (task_dir q')" "tables_at t = tables_at s"
      "q' \<noteq> 1 \<and> pcb_at (of_nat p) \<noteq> pcb_at (of_nat q') \<longrightarrow> pcb_esp (pcbs t (pcb_at (of_nat p))) = esp
        \<and> pcb_ebp (pcbs t (pcb_at (of_nat p))) = ebp \<and> pcb_cr3 (pcbs t (pcb_at (of_nat p))) = cr3 s"
    using execute_user [OF assms(1)] unfolding pid by blast
  have "unat (of_nat q' :: u32) = unat (of_nat q :: u32)" using q'(3) assms(5) by simp
  then have q: "q' = q" using q'(2) assms(7) by (simp add: unat_of_nat_u32)
  have saved: "pcb_esp (pcbs u (pcb_at (of_nat p))) = esp" "pcb_ebp (pcbs u (pcb_at (of_nat p))) = ebp"
      "pcb_cr3 (pcbs u (pcb_at (of_nat p))) = cr3 s"
    using q'(7) assms(6,8,13) pcb_at_inj [OF assms(4,7)] by (auto simp: q)
  have "find_pid u = int q" using assms(7,10,11) q'(5,6) by (intro find_pid_dir) (simp_all add: q)
  moreover have "tasks u ! q = of_nat p" using assms(7,9,12) q'(4) by (simp add: q)
  ultimately obtain v where v: "halt junk' dev esp' ebp' status u = Some (Resume esp ebp 0, v)" "cr3 v = cr3 s"
      "tables_at v = tables_at s" "tasks v = (tasks u)[q := 0]" "tss_esp0 v = kernel_stack (of_int (find_pid v))"
    using halt_program [of u q "of_nat p" junk' dev esp' ebp' status] assms(6,7,11) saved q'(6) by auto
  have "find_pid v = int p" using v(2,3) assms(2,4) by (intro find_pid_dir) simp_all
  then show ?thesis using v assms(12) q'(4) by (simp add: q)
qed

section \<open>Programs that are refused\<close>

lemma find_pid_range: "find_pid s \<in> {-1, 0, 1, 2, 3, 4, 5, 6}"
  by (simp add: find_pid_def Let_def)

lemma caller_pid_nonzero: "caller_pid s \<noteq> 0"
  using find_pid_range [of s] by (auto simp: caller_pid_def Let_def)

lemma shell_command: "strncmp (wr (\<lambda>_. 0) 4 (str ''shell'')) 4 (lit ''shell'') 0 5 = 0"
proof -
  have "cbytes (wr (\<lambda>_. 0) 4 (str ''shell'')) 4 5 = str ''shell''" "cbytes (lit ''shell'') 0 5 = str ''shell''"
    by (simp_all add: cbytes_def rd_def wr_def str_def lit_def Let_def upt_rec)
  then show ?thesis using klib.ncmp_string [of "wr (\<lambda>_. 0) 4 (str ''shell'')" 4 "lit ''shell''" 0 5] by simp
qed

section \<open>Properties\<close>

text \<open>C2: a program that \<open>execute\<close> enters from task \<open>p\<close> in slot 4, 5 or 6 and that then halts, with its slot
  and its caller's saved control block as \<open>execute\<close> left them, returns into the caller: the stack and
  base pointer at the call of \<open>execute\<close> are restored, where the call returns 0 whatever the status was, the caller's page directory and kernel stack are
  in use, so that it is the running process again, and the slot is free.\<close>

theorem execute_then_halt:
  assumes "execute junk dev esp ebp fm command s = Some (User_mode eip sp, t)"
    "cr3 s = dir_addr (tables_at s) (task_dir p)" "1 \<le> p" "p \<le> 6" "new_pid t = of_nat q" "4 \<le> q" "q \<le> 6" "p \<noteq> q"
    "length (tasks s) = 7"
    "cr3 u = cr3 t" "tables_at u = tables_at t" "tasks u = tasks t" "pcbs u (pcb_at (of_nat p)) = pcbs t (pcb_at (of_nat p))"
  shows "\<exists>v. halt junk' dev esp' ebp' status u = Some (Resume esp ebp 0, v) \<and> cr3 v = cr3 s \<and> find_pid v = int p
    \<and> tss_esp0 v = kernel_stack (of_nat p) \<and> tasks v = (tasks s)[q := 0]"
  using assms by (rule halt_resumes)

text \<open>The example: the program \<open>a\<close> started from the shell of the first terminal.\<close>

lemma name_a_line: "command_line name_a 4 [0x61] [0x61] []"
proof -
  have "cstring name_a 4 [0x61]" by (simp add: cstring_def rd_def name_a_def str_def wr_def Let_def)
  then show ?thesis by (simp add: command_line_def)
qed

lemma sys_example_files:
  "ram sys_example = ram fs_example" "filesystem sys_example = filesystem fs_example"
  "BOOT_BLOCK_PTR sys_example = BOOT_BLOCK_PTR fs_example"
  by (simp_all add: sys_example_def)

lemma entry_a: "elf_entry (file_bytes fs_example 0 0 28) = 0x08048074"
  by (simp add: elf_entry_def file_bytes_def upt_rec block_at_def block_no_def inode_at_def ld32_disk)
    (simp add: disk_def wr_def Let_def)

lemma runnable_a: "runnable sys_example [0x61] 0"
proof -
  have "entry_name sys_example 0 = [0x61]"
    using lookup_a cbytes_char [of "lit ''a''" 0 "0x61"]
    by (simp add: entry_name_def entry_at_def sys_example_files lit_def str_def wr_def Let_def)
  moreover have "file_bytes sys_example 0 0 n = file_bytes fs_example 0 0 n" for n
    by (simp add: file_bytes_def block_at_def block_no_def inode_at_def sys_example_files)
  moreover have "\<exists>i<62. P i" if "P (0 :: nat)" for P using that by (auto intro: exI [of _ 0])
  ultimately show ?thesis
    unfolding runnable_def using sys_example_file magic_a entry_a
    by (simp add: sys_example_files apart_def NEW_LOAD_def entry_at_def ld32_disk)
qed

lemma slot_a: "new_pid (new_task name_a 4 sys_example) = of_nat 4"
  unfolding new_task_def Let_def free_task_slots by (simp add: sys_example_def)

theorem execute_then_halt_witness:
  "\<exists>t v. execute 0 (\<lambda>_ _. 0) 0x7FFF00 0x7FFF80 name_a 4 sys_example = Some (User_mode 0x08048074 0x083FFFFC, t)
    \<and> halt 0 (\<lambda>_ _. 0) 0x7F9F00 0x7F9F80 0 t = Some (Resume 0x7FFF00 0x7FFF80 0, v) \<and> find_pid v = 1"
proof -
  have e: "elf_entry (file_bytes sys_example 0 0 28) = 0x08048074"
    using entry_a by (simp add: file_bytes_def block_at_def block_no_def inode_at_def sys_example_files)
  obtain t where t: "execute 0 (\<lambda>_ _. 0) 0x7FFF00 0x7FFF80 name_a 4 sys_example = Some (User_mode 0x08048074 0x083FFFFC, t)"
      "new_pid t = of_nat 4"
    using execute_runs [OF name_a_line runnable_a slot_a, of 0 "\<lambda>_ _. 0" "0x7FFF00" "0x7FFF80"]
    unfolding sys_example_file(2) e by auto
  have "cr3 sys_example = dir_addr (tables_at sys_example) (task_dir 1)" "length (tasks sys_example) = 7"
    by (simp_all add: sys_example_def)
  then show ?thesis
    using t execute_then_halt [OF t(1), of 1 4 t 0 "0x7F9F00" "0x7F9F80" 0] by auto
qed

lemma start_files_flags:
  assumes "length fs = 8" "i < 8"
  shows "flags (start_files fs ! i) = (if i < 2 then 1 else 0)" "i < 2 \<Longrightarrow> fops_ptr (start_files fs ! i) = terminal_fops"
proof -
  have "i \<in> {0, 1, 2, 3, 4, 5, 6, 7}" using assms(2) by auto
  then show "flags (start_files fs ! i) = (if i < 2 then 1 else 0)" "i < 2 \<Longrightarrow> fops_ptr (start_files fs ! i) = terminal_fops"
    using assms(1) by (auto simp: start_files_def Let_def upt_rec)
qed

text \<open>C10: \<open>execute\<close> of a command line whose command names a loadable executable enters it in user mode at
  its entry point: the image is in place at 0x08048000, the chosen slot records the caller, the
  task's page directory and kernel stack are in use with interrupts on, the two terminal descriptors
  are open, and the others are not.\<close>

theorem execute_enters:
  assumes "command_line fm command line cmd arg" "runnable s cmd inode"
    "new_pid (new_task fm command s) = of_nat q" "q \<le> 6" "sys_ok s"
  shows "\<exists>t. execute junk dev esp ebp fm command s
      = Some (User_mode (elf_entry (file_bytes s inode 0 (file_size s inode))) 0x083FFFFC, t)
    \<and> rd (ram t) PROGRAM_IMG (file_size s inode) = file_bytes s inode 0 (file_size s inode)
    \<and> tasks t = (tasks s)[q := caller_pid s] \<and> find_pid t = int q \<and> tss_esp0 t = kernel_stack (of_nat q) \<and> int_on t
    \<and> (\<forall>i<8. flags (file_struct (pcblock t) ! i) = (if i < 2 then 1 else 0))
    \<and> (\<forall>i<2. fops_ptr (file_struct (pcblock t) ! i) = terminal_fops)"
proof -
  obtain t where t: "execute junk dev esp ebp fm command s
      = Some (User_mode (elf_entry (file_bytes s inode 0 (file_size s inode))) 0x083FFFFC, t)"
    "rd (ram t) PROGRAM_IMG (file_size s inode) = file_bytes s inode 0 (file_size s inode)" "new_pid t = of_nat q"
    using execute_runs [OF assms(1-4)] by blast
  obtain q' where q': "q' \<le> 6" "new_pid t = of_nat q'" "tasks t = (tasks s)[q' := caller_pid s]"
      "cr3 t = dir_addr (tables_at t) (task_dir q')" "int_on t" "tss_esp0 t = kernel_stack (of_nat q')"
      "\<exists>fs. file_struct (pcblock t) = start_files fs"
    using execute_user [OF t(1)] by metis
  have "unat (of_nat q' :: u32) = unat (of_nat q :: u32)" using q'(2) t(3) by simp
  then have "q' = q" using q'(1) assms(4) by (simp add: unat_of_nat_u32)
  obtain fs where fs: "file_struct (pcblock t) = start_files fs" using q'(7) by blast
  moreover have "sys_ok t" using ok_execute [OF assms(5) t(1)] .
  ultimately have "length fs = 8" by (simp add: sys_ok_def pcb_ok_def)
  then show ?thesis using t(1,2) \<open>q' = q\<close> q' find_pid_dir [OF q'(1,4)] start_files_flags [of fs] fs by auto
qed

theorem execute_enters_witness:
  "\<exists>t. execute 0 (\<lambda>_ _. 0) 0x7FFF00 0x7FFF80 name_a 4 sys_example = Some (User_mode 0x08048074 0x083FFFFC, t)
    \<and> find_pid t = 4 \<and> tasks t = [1, 1, 0, 0, 1, 0, 0]"
proof -
  have e: "elf_entry (file_bytes sys_example 0 0 28) = 0x08048074"
    using entry_a by (simp add: file_bytes_def block_at_def block_no_def inode_at_def sys_example_files)
  have "caller_pid sys_example = 1" "tasks sys_example = [1, 1, 0, 0, 0, 0, 0]"
    by (simp_all add: caller_pid_def find_pid_def sys_example_def)
  then show ?thesis
    using execute_enters [OF name_a_line runnable_a slot_a _ sys_example_ok, of 0 "\<lambda>_ _. 0" "0x7FFF00" "0x7FFF80"]
    unfolding sys_example_file(2) e by auto
qed

text \<open>C25: the argument of a command line, its spaces removed, reaches the program: after \<open>parse_cmd\<close>,
  \<open>getargs\<close> with a large enough count leaves it in the buffer as a string.\<close>

theorem getargs_gives_argument:
  assumes "command_line fm command line cmd arg" "buf \<noteq> 0" "int (length arg) < nbytes"
  shows "\<exists>p t. parse_cmd fm command (pcblock s) = Some p \<and> getargs buf nbytes (s\<lparr>pcblock := p\<rparr>) = Some (0, t)
    \<and> cstring (ram t) buf arg \<and> cmd_name p = cmd @ replicate (40 - length cmd) 0"
proof -
  have cl: "cstring fm command line" "hd line \<noteq> 0x20" "length line < 256" "cmd = takeWhile (\<lambda>c. c \<noteq> 0x20) line"
      "arg = no_spaces (dropWhile (\<lambda>c. c \<noteq> 0x20) line)" "length cmd \<le> 40" "length arg \<le> 40"
    using assms(1) unfolding command_line_def by blast+
  let ?p = "(pcblock s)\<lparr>cmd_name := cmd @ replicate (40 - length cmd) 0,
    arg_name := arg @ replicate (40 - length arg) 0, data_arg_size := of_nat (length arg)\<rparr>"
  let ?m = "wr (wr (ram s) buf (replicate 1024 0)) buf arg"
  have p: "parse_cmd fm command (pcblock s) = Some ?p"
    using parse_cmd_words [OF cl(1) _ cl(3), of "pcblock s"] cl(2,4-7) by simp
  have n: "unat (of_nat (length arg) :: u8) = length arg" using cl(7) by (simp add: unat_of_nat)
  then have "uint (of_nat (length arg) :: u8) < nbytes" using assms(3) by (metis uint_nat)
  then have run: "getargs buf nbytes (s\<lparr>pcblock := ?p\<rparr>) = Some (0, s\<lparr>pcblock := ?p, ram := ?m\<rparr>)"
    using assms(2,3) cl(7) n by (simp add: getargs_def Let_def BUFF_MAX_def)
  have "0 \<notin> set arg" using cstringD(3) [OF cl(1)] set_dropWhileD unfolding cl(5) by fastforce
  moreover have "?m (buf + of_nat (length arg)) = 0"
  proof -
    have "buf + of_nat (length arg) \<notin> region buf (length arg)" using cl(7) by (simp add: region_def unat_of_nat_u32)
    then show ?thesis using cl(7) by (simp add: wr_out wr_in)
  qed
  ultimately have "cstring ?m buf arg" using cl(7) by (simp add: cstring_def rd_wr_same)
  then show ?thesis using p run by auto
qed

definition cat_line :: mem where
  "cat_line = wr (\<lambda>_. 0) 4 (str ''cat  a b'')"

lemma cat_line_ok: "command_line cat_line 4 (str ''cat  a b'') (str ''cat'') (str ''ab'')"
proof -
  have "cstring cat_line 4 (str ''cat  a b'')"
    by (simp add: cstring_def rd_def cat_line_def str_def wr_def Let_def upt_rec)
  then show ?thesis by (simp add: command_line_def str_def)
qed

theorem getargs_gives_argument_witness:
  "\<exists>p t. parse_cmd cat_line 4 (pcblock sys_example) = Some p
    \<and> getargs 0x8000000 1024 (sys_example\<lparr>pcblock := p\<rparr>) = Some (0, t) \<and> cstring (ram t) 0x8000000 (str ''ab'')"
  using getargs_gives_argument [OF cat_line_ok, of "0x8000000" 1024 sys_example] by (auto simp: str_def)

text \<open>With the slots 1, 4, 5 and 6 taken, \<open>execute\<close> of a program answers -1 once its message is written,
  although slots 2 and 3 may be free: at index 2 the search doubles it. Nothing is started.\<close>

theorem execute_full:
  assumes "command \<noteq> 0" "pc s \<noteq> 0" "strncmp fm command (lit ''shell'') 0 5 \<noteq> 0"
    "\<forall>i\<in>{1, 4, 5, 6}. tasks s ! i \<noteq> 0"
    "flags (file_struct (pcblock s) ! 1) = 0 \<or> fops_ptr (file_struct (pcblock s) ! 1) = terminal_fops"
  shows "\<exists>t. execute junk dev esp ebp fm command s = Some (Ret (-1), t) \<and> tasks t = tasks s
    \<and> same_files_open (s\<lparr>pcblock := (pcblock s)\<lparr>pcb_cr3 := cr3 s\<rparr>\<rparr>) t"
proof -
  let ?s = "s\<lparr>pcblock := (pcblock s)\<lparr>pcb_cr3 := cr3 s\<rparr>\<rparr>"
  let ?src = "\<lambda>_. wr (\<lambda>_. 0) 4 (str ''6 programs already open.\<newline>'')"
  have "free_task (tasks s) 1 = None" unfolding free_task_slots using assms(4) by simp
  then have u: "new_task fm command ?s = ?s\<lparr>new_pid := 7\<rparr>"
    using assms(2,3) unfolding new_task_def Let_def by (simp add: MAX_TASKS_def)
  have "\<exists>k t. sys_write junk ?src dev 1 4 25 (?s\<lparr>new_pid := 7\<rparr>) = Some (k, t)"
    using assms(5) by (cases "terminal_write junk ?src 1 4 25 (?s\<lparr>new_pid := 7\<rparr>)")
      (auto simp: sys_write_def fops_write_def FD_MAX_def)
  then obtain k t where w: "sys_write junk ?src dev 1 4 25 (?s\<lparr>new_pid := 7\<rparr>) = Some (k, t)" by blast
  have "same_files_open ?s (?s\<lparr>new_pid := 7\<rparr>)" by (simp add: same_files_open_def)
  then have "same_files_open ?s t" using sys_write_same [OF w] by (rule same_files_trans)
  moreover have "tasks t = tasks s" using calculation by (cases s; cases t) (simp add: same_files_open_def)
  moreover have "execute junk dev esp ebp fm command s = Some (Ret (-1), t)"
    using assms(1) w unfolding execute_def Let_def u MAX_TASKS_def by simp
  ultimately show ?thesis by blast
qed

theorem execute_full_witness:
  "\<exists>t. execute 0 (\<lambda>_ _. 0) 0 0 name_a 4 (sys_example\<lparr>tasks := [1, 1, 0, 0, 1, 4, 5]\<rparr>) = Some (Ret (-1), t)"
proof -
  have "cbytes name_a 4 5 \<noteq> cbytes (lit ''shell'') 0 5"
    by (simp add: cbytes_def rd_def name_a_def wr_def str_def lit_def Let_def upt_rec)
  then have "strncmp name_a 4 (lit ''shell'') 0 5 \<noteq> 0"
    using klib.ncmp_string [of name_a 4 "lit ''shell''" 0 5] by simp
  then show ?thesis
    using execute_full [of 4 "sys_example\<lparr>tasks := [1, 1, 0, 0, 1, 4, 5]\<rparr>" name_a 0 "\<lambda>_ _. 0" 0 0]
    by (auto simp: sys_example_def empty_pcb_def empty_file_def)
qed

text \<open>C39: a command the directory does not have is refused with -1, but costs a slot: \<open>execute\<close> marks the
  slot before it looks for the file and does not free it again.\<close>

theorem execute_missing_leaks_slot:
  assumes "command_line fm command line cmd arg" "\<forall>j<62. entry_name s j \<noteq> take 32 cmd"
    "new_pid (new_task fm command s) = of_nat q" "q \<le> 6" "length (tasks s) = 7"
  shows "\<exists>t. execute junk dev esp ebp fm command s = Some (Ret (-1), t) \<and> tasks t ! q = caller_pid s \<and> caller_pid s \<noteq> 0"
proof -
  obtain m v where ex: "execute junk dev esp ebp fm command s = (let (r, w) = loader m 0 v
      in if of_int r = (-1 :: u32) then Some (Ret (-1), w) else start_program (caller_pid s) (of_int r) w)"
    and cb: "cbytes m 0 32 = take 32 cmd" and v: "ram v = ram s" "filesystem v = filesystem s"
    and ts: "tasks v = (tasks s)[q := caller_pid s]"
    by (rule execute_loads [OF assms(1,3,4), of junk dev esp ebp]) blast
  have "read_dentry_by_name m 0 (dentry1 v) v = (-1, dentry1 v)"
    using assms(2) cb by (intro lookup_missing) (simp add: entry_name_def entry_at_def v)
  then have "loader m 0 v = (-1, v)" by (simp add: loader_def)
  then show ?thesis using ex ts assms(4,5) caller_pid_nonzero [of s] by simp
qed

definition name_x :: mem where
  "name_x = wr (\<lambda>_. 0) 4 (str ''x'')"

theorem execute_missing_leaks_slot_witness:
  "\<exists>t. execute 0 (\<lambda>_ _. 0) 0 0 name_x 4 sys_example = Some (Ret (-1), t) \<and> tasks t ! 4 = 1"
proof -
  have "cstring name_x 4 [0x78]" by (simp add: cstring_def rd_def name_x_def str_def wr_def Let_def)
  then have "command_line name_x 4 [0x78] [0x78] []" by (simp add: command_line_def)
  moreover have "entry_name sys_example j \<noteq> [0x78]" for j
  proof -
    have "disk a \<noteq> 0x78" for a by (simp add: disk_def wr_def Let_def)
    then show ?thesis
      using cbytes_Suc [of disk "entry_at sys_example j" 31] by (simp add: entry_name_def sys_example_files)
  qed
  moreover have "new_pid (new_task name_x 4 sys_example) = of_nat 4"
    unfolding new_task_def Let_def free_task_slots by (simp add: sys_example_def)
  moreover have "caller_pid sys_example = 1" "length (tasks sys_example) = 7"
    by (simp_all add: caller_pid_def find_pid_def sys_example_def)
  ultimately show ?thesis
    using execute_missing_leaks_slot [of name_x 4 "[0x78]" "[0x78]" "[]" sys_example 4 0 "\<lambda>_ _. 0" 0 0] by auto
qed

text \<open>A shell that halts is started again in its own slot, provided the count of programs does not
  reach 0. It does when the shell of terminal 2 or 3 halts while that of terminal 1 is the only
  program counted: \<open>halt\<close> counts down for shells that \<open>execute\<close> never counted, and the new shell
  takes the slot of terminal 1.\<close>

theorem shell_restarts:
  assumes "1 \<le> p" "p \<le> 3" "term1_rst s = 0" "term2_rst s = 0" "term2_press s = 0"
  shows "new_pid (new_task (wr (\<lambda>_. 0) 4 (str ''shell'')) 4 (end_shell (int p) s)) = (if pc s = 1 then 1 else of_nat p)"
proof -
  have "p = 1 \<or> p = 2 \<or> p = 3" using assms(1,2) by auto
  then show ?thesis
    using assms(3-5) unfolding new_task_def Let_def shell_command end_shell_def by auto
qed

theorem shell_restarts_witness:
  "new_pid (new_task (wr (\<lambda>_. 0) 4 (str ''shell'')) 4 (end_shell 2 sys_example)) = 1
   \<and> new_pid (new_task (wr (\<lambda>_. 0) 4 (str ''shell'')) 4 (end_shell 2 (sys_example\<lparr>pc := 3\<rparr>))) = 2"
  using shell_restarts [of 2 sys_example] shell_restarts [of 2 "sys_example\<lparr>pc := 3\<rparr>"] by (simp add: sys_example_def)

end
