(* ===== verification/Switch.thy ===== *)
theory Switch
  imports Process
begin

text \<open>
  The keyboard's effect on the terminals, from \<^verbatim>\<open>student-distrib/terminal.c\<close>: \<open>keyboard_read\<close>, the line
  editor, \<open>terminal_switch\<close>, and the interrupt handler \<open>read_keyboard\<close> of \<^verbatim>\<open>keyboard.c\<close> that calls
  it. A switch may start a shell or go on with another terminal's stack, so these operations have
  an \<open>outcome\<close>, which is \<open>Ret 0\<close> when they return to the interrupted code.
\<close>

section \<open>Switching terminals\<close>

definition get_pid_from_cr3 :: "u32 \<Rightarrow> 'a paging_state_scheme \<Rightarrow> int" where
  "get_pid_from_cr3 c s =
     (let at = dir_addr (tables_at s)
      in if c = at page_directory then 0
         else if c = at task1_page_directory then 1
         else if c = at task2_page_directory then 2
         else if c = at task3_page_directory then 3
         else if c = at task4_page_directory then 4
         else if c = at task5_page_directory then 5
         else if c = at task6_page_directory then 6
         else -1)"

definition upd_terminal :: "int \<Rightarrow> (terminal_t \<Rightarrow> terminal_t) \<Rightarrow> 'a term_state_scheme \<Rightarrow> 'a term_state_scheme" where
  "upd_terminal cterm f s = s\<lparr>terminals := (terminals s)[nat cterm := f (terminals s ! nat cterm)]\<rparr>"

definition saved_screen :: "int \<Rightarrow> u32" where
  "saved_screen t_num = (if t_num = 1 then TERM1 else if t_num = 2 then TERM2 else TERM3)"

text \<open>The first half: the running terminal's registers, files, cursor, line and display are saved.\<close>

definition leave_terminal :: "u32 \<Rightarrow> 'a sys_state_scheme \<Rightarrow> 'a sys_state_scheme" where
  "leave_terminal esp s =
     (let cterm = cur_terminal s - 1;
          s = upd_terminal cterm (\<lambda>t. t\<lparr>t_esp := esp\<rparr>) s;
          s = upd_terminal cterm (\<lambda>t. t\<lparr>t_cr3 := cr3 s\<rparr>) s;
          s = upd_terminal cterm (\<lambda>t. t\<lparr>kernel_esp := tss_esp0 s\<rparr>) s;
          pid = get_pid_from_cr3 (t_cr3 (terminals s ! nat cterm)) s;
          s = s\<lparr>term_pcb := pcbs s (pcb_at (of_int pid))\<rparr>;
          s = upd_terminal cterm (\<lambda>t. t\<lparr>t_file_struct := file_struct (term_pcb s)\<rparr>) s;
          s = upd_terminal cterm (\<lambda>t. t\<lparr>pos_x := getx s, pos_y := gety s\<rparr>) s;
          s = upd_terminal cterm (\<lambda>t. t\<lparr>t_linebuffer := text_buf s\<rparr>) s;
          s = (if cur_terminal s = 1 \<or> cur_terminal s = 2 \<or> cur_terminal s = 3
               then s\<lparr>ram := memcpy (ram s) (saved_screen (cur_terminal s)) V_MEM_ADDR MEM_4KB\<rparr> else s);
          s = clear s
      in set_cursor 0 0 s)"

text \<open>A terminal used for the first time: an empty line and a shell.\<close>

definition start_terminal :: "int \<Rightarrow> device \<Rightarrow> u32 \<Rightarrow> u32 \<Rightarrow> 'a sys_state_scheme \<Rightarrow> (outcome \<times> 'a sys_state_scheme) option" where
  "start_terminal junk dev esp ebp s =
     (let s = s\<lparr>text_buf := replicate BUF_MAX 0, counter := 0\<rparr>;
          s = (if cur_terminal s = 2 then s\<lparr>term2_flag := 1\<rparr> else s\<lparr>term3_flag := 1\<rparr>);
          s = send_eoi 1 s
      in map_option (\<lambda>(r, s). (case r of Ret _ \<Rightarrow> Ret 0 | _ \<Rightarrow> r, s))
           (execute junk dev esp ebp (wr (\<lambda>_. 0) 4 (str ''shell'')) 4 s))"

text \<open>The second half: the state of the terminal switched to comes back.\<close>

definition resume_terminal :: "u32 \<Rightarrow> int \<Rightarrow> 'a sys_state_scheme \<Rightarrow> outcome \<times> 'a sys_state_scheme" where
  "resume_terminal ebp t_num s =
     (let cterm = cur_terminal s - 1;
          s = s\<lparr>term2_press := 0, term3_press := 0\<rparr>;
          s = (if t_num = 1 \<or> t_num = 2 \<or> t_num = 3
               then s\<lparr>ram := memcpy (ram s) V_MEM_ADDR (saved_screen t_num) MEM_4KB\<rparr> else s);
          s = set_cursor (pos_x (terminals s ! nat cterm)) (pos_y (terminals s ! nat cterm)) s;
          s = s\<lparr>text_buf := t_linebuffer (terminals s ! nat cterm)\<rparr>;
          s = send_eoi 1 s;
          pid = get_pid_from_cr3 (t_cr3 (terminals s ! nat cterm)) s;
          s = s\<lparr>term_pcb := pcbs s (pcb_at (of_int pid))\<rparr>;
          s = s\<lparr>term_pcb := (term_pcb s)\<lparr>file_struct := t_file_struct (terminals s ! nat cterm)\<rparr>\<rparr>;
          s = s\<lparr>pcblock := term_pcb s\<rparr>;
          s = s\<lparr>tss_ss0 := KERNEL_DS, tss_esp0 := kernel_stack (of_int pid)\<rparr>;
          s = load_cr3 (t_cr3 (terminals s ! nat cterm)) s
      in (Resume (t_esp (terminals s ! nat cterm)) ebp 0, s))"

definition terminal_switch :: "int \<Rightarrow> device \<Rightarrow> u32 \<Rightarrow> u32 \<Rightarrow> int \<Rightarrow> 'a sys_state_scheme
    \<Rightarrow> (outcome \<times> 'a sys_state_scheme) option" where
  "terminal_switch junk dev esp ebp t_num s =
     (if cur_terminal s = t_num then Some (Ret 0, s)
      else
        let s = (leave_terminal esp s)\<lparr>cur_terminal := t_num\<rparr>
        in if t_num = 2 \<and> term2_flag s = 0 \<or> t_num = 3 \<and> term3_flag s = 0
           then start_terminal junk dev esp ebp s
           else Some (resume_terminal ebp t_num s))"

section \<open>The line editor\<close>

definition BUF_MIN :: nat where "BUF_MIN = 7"

text \<open>The keystroke that starts a new row, scrolling at the bottom; here the last row is not blanked
  first, but the display is cleared.\<close>

definition key_newline :: "u8 \<Rightarrow> 'a term_state_scheme \<Rightarrow> 'a term_state_scheme" where
  "key_newline keystroke s =
     (let s = (if gety s \<ge> int HEIGHT - 1 then shift_rows (saved_text s) (clear s) else s);
          s = putc 0x0A s
      in if keystroke = 0x0A
         then s\<lparr>text_buf := (text_buf s)[unat (counter s) := keystroke], counter := 0, entered := 1\<rparr>
         else s)"

definition key_backspace :: "'a term_state_scheme \<Rightarrow> 'a term_state_scheme" where
  "key_backspace s =
     (let x = getx s; y = gety s;
          buf = map (\<lambda>i. get_char (int i) y s) [0..<BUF_MIN]
      in if strncmp (wr (\<lambda>_. 0) 0 buf) 0 (lit ''391OS> '') 0 7 = 0 \<and> x = int BUF_MIN then send_eoi 1 s
         else if counter s = 0 then send_eoi 1 s
         else
           let s = setx (x - 1) s;
               s = putc 0x20 s;
               s = s\<lparr>counter := counter s - 1\<rparr>;
               s = s\<lparr>text_buf := (text_buf s)[unat (counter s) := 0]\<rparr>
           in set_cursor (x - 1) y s)"

definition keyboard_read :: "int \<Rightarrow> device \<Rightarrow> u32 \<Rightarrow> u32 \<Rightarrow> u8 \<Rightarrow> 'a sys_state_scheme
    \<Rightarrow> (outcome \<times> 'a sys_state_scheme) option" where
  "keyboard_read junk dev esp ebp keystroke s =
     (let x = getx s; y = gety s;
          s = set_cursor x y s;
          ret = (\<lambda>s. Some (Ret 0, s))
      in if keystroke = 9 then
           Option.bind (printf (lit ''    '') (\<lambda>_. 0) [] s) (\<lambda>(_, s). ret (set_cursor (x + 4) y s))
         else if keystroke = CTRL_C then ret (send_eoi 8 s)
         else if keystroke = CTRL_L then
           Option.bind (printf (lit ''391OS> '') (\<lambda>_. 0) [] (set_cursor 0 0 (clear s))) (\<lambda>(_, s). ret s)
         else if x \<ge> int WIDTH - 1 \<or> keystroke = 0x0A then ret (key_newline keystroke s)
         else if keystroke = BACKSPACE then ret (key_backspace s)
         else if keystroke \<ge> 0x20 \<and> keystroke \<le> 0x7E \<and> counter s < of_nat (BUF_MAX - 1) then
           ret (let s = s\<lparr>text_buf := (text_buf s)[unat (counter s) := keystroke]\<rparr>;
                    s = putc keystroke s
                in s\<lparr>counter := counter s + 1\<rparr>)
         else if keystroke \<ge> T1_SWITCH \<and> keystroke \<le> T3_SWITCH then
           if keystroke = T1_SWITCH then terminal_switch junk dev esp ebp 1 s
           else if keystroke = T2_SWITCH then terminal_switch junk dev esp ebp 2 (s\<lparr>term2_press := 1\<rparr>)
           else terminal_switch junk dev esp ebp 3 (s\<lparr>term3_press := 1\<rparr>)
         else ret s)"

text \<open>The interrupt handler: when a switch leaves the stack, the signal at its end is not sent. \<open>past\<close> is
  the byte behind the scan-code table that a code without an entry is decoded from.\<close>

definition read_keyboard :: "int \<Rightarrow> device \<Rightarrow> u8 \<Rightarrow> u8 \<Rightarrow> u32 \<Rightarrow> u32 \<Rightarrow> 'a sys_state_scheme
    \<Rightarrow> (outcome \<times> 'a sys_state_scheme) option" where
  "read_keyboard junk dev past charval esp ebp s =
     (let (c, s) = decode_key past charval (ucast (inb dev 0x60 s)) s
      in map_option (\<lambda>(r, s). case r of Ret _ \<Rightarrow> (Ret 0, send_eoi 1 s) | _ \<Rightarrow> (r, s))
           (keyboard_read junk dev esp ebp c s))"

section \<open>The line buffer\<close>

text \<open>The line typed so far, and that it fits: the buffer has room for it and a newline.\<close>

definition line_of :: "'a term_state_scheme \<Rightarrow> u8 list" where
  "line_of s = take (unat (counter s)) (text_buf s)"

definition line_ok :: "'a term_state_scheme \<Rightarrow> bool" where
  "line_ok s \<longleftrightarrow> length (text_buf s) = BUF_MAX \<and> counter s < of_nat BUF_MAX \<and> length (terminals s) = 3
     \<and> (\<forall>t\<in>set (terminals s). length (t_linebuffer t) = BUF_MAX)"

text \<open>The running terminal is one of the three.\<close>

definition term_inv :: "'a term_state_scheme \<Rightarrow> bool" where
  "term_inv s \<longleftrightarrow> line_ok s \<and> cur_terminal s \<in> {1, 2, 3}"

definition same_line :: "'a term_state_scheme \<Rightarrow> 'a term_state_scheme \<Rightarrow> bool" where
  "same_line s t \<longleftrightarrow> text_buf t = text_buf s \<and> counter t = counter s \<and> terminals t = terminals s
     \<and> cur_terminal t = cur_terminal s"

lemma same_line_simps [simp]: "same_line s s"
  by (simp add: same_line_def)

lemma same_line_trans: "same_line s t \<Longrightarrow> same_line t u \<Longrightarrow> same_line s u"
  by (simp add: same_line_def)

lemma same_line_lib: "lib_state.more t = lib_state.more s \<Longrightarrow> same_line s t" for s t :: "'a term_state_scheme"
  by (cases s; cases t) (simp add: same_line_def)

lemma same_line_machine: "machine.more t = machine.more s \<Longrightarrow> same_line s t" for s t :: "'a term_state_scheme"
  by (cases s; cases t) (simp add: same_line_def)

lemma same_line_fs: "fs_state.more t = fs_state.more s \<Longrightarrow> same_line s t" for s t :: "'a term_state_scheme"
  by (cases s; cases t) (simp add: same_line_def)

lemma term_inv_same: "same_line s t \<Longrightarrow> term_inv s \<Longrightarrow> term_inv t"
  by (simp add: same_line_def term_inv_def line_ok_def)

lemma line_of_same: "same_line s t \<Longrightarrow> line_of t = line_of s"
  by (simp add: same_line_def line_of_def)

lemma send_eoi_more [simp]: "machine.more (send_eoi n s) = machine.more s"
  by (simp add: send_eoi_def machine_defs)

lemma set_cursor_line: "same_line s (set_cursor x y s)"
  by (rule same_line_lib) simp

lemma sys_write_line: "sys_write junk src dev fd buf n s = Some (r, t) \<Longrightarrow> same_line s t"
proof -
  assume "sys_write junk src dev fd buf n s = Some (r, t)"
  then consider "t = s" | "rtc_write dev fd buf n s = Some (r, t)" | "terminal_write junk src fd buf n s = (r, t)"
    by (auto simp: sys_write_def fops_write_def split: if_splits fops_t.splits)
  then show ?thesis
    by cases (auto dest: rtc_write_more same_line_machine terminal_write_more same_line_lib)
qed

lemma start_program_line:
  assumes "start_program c eip s = Some (r, t)"
  shows "same_line s t"
proof -
  let ?s = "set_up_task c s"
  have u: "same_line s ?s" by (simp add: same_line_def set_up_task_def Let_def save_pcb_def load_cr3_def)
  have task: "same_line ?s (snd (enter_user eip (?s\<lparr>pcblock := (pcblock ?s)\<lparr>pcb_cr3 := d\<rparr>\<rparr>)))" for d
    by (simp add: same_line_def enter_user_def cli_def sti_def)
  have "same_line u (snd (enter_user eip u))" for u :: "'a sys_state_scheme"
    by (simp add: same_line_def enter_user_def cli_def sti_def)
  then have f: "same_line ?s (snd (enter_user eip (fold putc cs ?s)))" for cs
    using same_line_trans [OF same_line_lib [OF fold_putc_more]] by blast
  have "printf (lit ''I don't think you should ever be here'') (\<lambda>_. 0) [] ?s
      = Some (of_nat (length ''I don't think you should ever be here''),
          fold putc (str ''I don't think you should ever be here'') ?s)"
    by (rule printf_plain) (simp_all add: str_def)
  then have "same_line ?s t"
    using assms f task unfolding start_program_def Let_def by (auto split: if_splits) (metis snd_conv)+
  with u show ?thesis by (rule same_line_trans)
qed

lemma execute_line:
  assumes "execute junk dev esp ebp fm command s = Some (r, t)"
  shows "same_line s t"
proof (cases "command = 0")
  case False
  let ?u = "new_task fm command (s\<lparr>pcblock := (pcblock s)\<lparr>pcb_cr3 := cr3 s\<rparr>\<rparr>)"
  let ?v = "leave_caller esp ebp (caller_pid s) ?u"
  have u: "same_line s ?u" unfolding new_task_def Let_def by (simp add: same_line_def)
  have v: "same_line ?u ?v" by (simp add: same_line_def leave_caller_def Let_def save_pcb_def)
  show ?thesis
  proof (cases "new_pid ?u = of_nat MAX_TASKS")
    case True
    then obtain k where "sys_write junk (\<lambda>_. wr (\<lambda>_. 0) 4 (str ''6 programs already open.\<newline>'')) dev 1 4 25 ?u = Some (k, t)"
      using assms \<open>command \<noteq> 0\<close> by (auto simp: execute_def Let_def)
    then show ?thesis using u sys_write_line same_line_trans by blast
  next
    case False
    then have "run_program fm command (caller_pid s) ?v = Some (r, t)"
      using assms \<open>command \<noteq> 0\<close> by (simp add: execute_def Let_def)
    then obtain p k w where w: "loader (wr (\<lambda>_. 0) 0 (cmd_name p)) 0 (?v\<lparr>pcblock := p\<rparr>) = (k, w)"
        "t = w \<or> start_program (caller_pid s) (of_int k) w = Some (r, t)"
      by (auto simp: run_program_def Let_def split: Option.bind_splits prod.splits if_splits)
    have "same_line (?v\<lparr>pcblock := p\<rparr>) w"
      using same_line_fs [OF loader_frame(1)] w(1) by (metis snd_conv)
    then have "same_line ?v w" by (simp add: same_line_def)
    moreover have "same_line w t" using w(2) start_program_line by auto
    ultimately show ?thesis using u v same_line_trans by blast
  qed
qed (use assms in \<open>simp add: execute_def\<close>)

lemma key_newline_run:
  assumes "length (text_buf s) = BUF_MAX" "counter s < of_nat BUF_MAX"
  shows "k \<noteq> 0x0A \<Longrightarrow> same_line s (key_newline k s)"
    "text_buf (key_newline 0x0A s) = (text_buf s)[unat (counter s) := 0x0A]" "counter (key_newline 0x0A s) = 0"
    "entered (key_newline 0x0A s) = 1" "terminals (key_newline k s) = terminals s"
    "cur_terminal (key_newline k s) = cur_terminal s"
proof -
  let ?u = "putc 0x0A (if gety s \<ge> int HEIGHT - 1 then shift_rows (saved_text s) (clear s) else s)"
  have "lib_state.more ?u = lib_state.more s" by simp
  then have u: "same_line s ?u" by (rule same_line_lib)
  show "k \<noteq> 0x0A \<Longrightarrow> same_line s (key_newline k s)" using u by (simp add: key_newline_def Let_def)
  show "text_buf (key_newline 0x0A s) = (text_buf s)[unat (counter s) := 0x0A]" "counter (key_newline 0x0A s) = 0"
    "entered (key_newline 0x0A s) = 1" "terminals (key_newline k s) = terminals s"
    "cur_terminal (key_newline k s) = cur_terminal s"
    using u unfolding key_newline_def Let_def same_line_def by simp_all
qed

text \<open>Whether a backspace is refused: the cursor stands right after a prompt, or the line is empty.\<close>

definition keeps_prompt :: "'a lib_state_scheme \<Rightarrow> bool" where
  "keeps_prompt s \<longleftrightarrow> screen_x s = 7
     \<and> strncmp (wr (\<lambda>_. 0) 0 (map (\<lambda>i. get_char (int i) (screen_y s) s) [0..<7])) 0 (lit ''391OS> '') 0 7 = 0"

lemma key_backspace_run:
  "keeps_prompt s \<or> counter s = 0 \<Longrightarrow> same_line s (key_backspace s)"
  "\<not> keeps_prompt s \<Longrightarrow> counter s \<noteq> 0 \<Longrightarrow> counter (key_backspace s) = counter s - 1
    \<and> text_buf (key_backspace s) = (text_buf s)[unat (counter s - 1) := 0] \<and> terminals (key_backspace s) = terminals s
    \<and> cur_terminal (key_backspace s) = cur_terminal s"
proof -
  assume "keeps_prompt s \<or> counter s = 0"
  then have "key_backspace s = send_eoi 1 s"
    by (auto simp: key_backspace_def keeps_prompt_def Let_def getx_def gety_def BUF_MIN_def simp del: upt_rec_numeral)
  then show "same_line s (key_backspace s)" by (simp add: same_line_machine)
next
  assume h: "\<not> keeps_prompt s" "counter s \<noteq> 0"
  let ?u = "putc 0x20 (setx (screen_x s - 1) s)"
  let ?v = "?u\<lparr>counter := counter ?u - 1, text_buf := (text_buf ?u)[unat (counter ?u - 1) := 0]\<rparr>"
  have u: "same_line s ?u" by (rule same_line_lib) (simp add: setx_def)
  have "key_backspace s = set_cursor (screen_x s - 1) (screen_y s) ?v"
    using h by (auto simp: key_backspace_def keeps_prompt_def Let_def getx_def gety_def BUF_MIN_def simp del: upt_rec_numeral)
  then show "counter (key_backspace s) = counter s - 1
      \<and> text_buf (key_backspace s) = (text_buf s)[unat (counter s - 1) := 0] \<and> terminals (key_backspace s) = terminals s
    \<and> cur_terminal (key_backspace s) = cur_terminal s"
    using u set_cursor_line [of ?v] by (simp add: same_line_def)
qed

lemma printf_line:
  assumes "0 \<notin> set (str msg)" "0x25 \<notin> set (str msg)" "length msg < 2 ^ 31"
  shows "\<exists>n t. printf (lit msg) cb [] s = Some (n, t) \<and> same_line s t"
  using printf_plain [OF assms] same_line_lib [OF fold_putc_more] by blast

text \<open>What is saved of the terminal that is left.\<close>

definition saved_terminal :: "u32 \<Rightarrow> 'a sys_state_scheme \<Rightarrow> terminal_t" where
  "saved_terminal esp s = (terminals s ! nat (cur_terminal s - 1))\<lparr>t_esp := esp, t_cr3 := cr3 s,
     kernel_esp := tss_esp0 s, t_file_struct := file_struct (pcbs s (pcb_at (of_int (find_pid s)))),
     pos_x := screen_x s, pos_y := screen_y s, t_linebuffer := text_buf s\<rparr>"

lemma upd_terminal_simps:
  "cr3 (upd_terminal c f s) = cr3 s" "ram (upd_terminal c f s) = ram s" "text_buf (upd_terminal c f s) = text_buf s"
  "screen_x (upd_terminal c f s) = screen_x s" "screen_y (upd_terminal c f s) = screen_y s"
  "cur_terminal (upd_terminal c f s) = cur_terminal s" "tables_at (upd_terminal c f s) = tables_at s"
  "tss_esp0 (upd_terminal c f u) = tss_esp0 u" "pcbs (upd_terminal c f u) = pcbs u"
  "nat c < length (terminals s) \<Longrightarrow> terminals (upd_terminal c f s) ! nat c = f (terminals s ! nat c)"
  "nat c < length (terminals s) \<Longrightarrow> upd_terminal c g (upd_terminal c f s) = upd_terminal c (\<lambda>t. g (f t)) s"
  "upd_terminal c f (s\<lparr>term_pcb := p\<rparr>) = (upd_terminal c f s)\<lparr>term_pcb := p\<rparr>"
  by (simp_all add: upd_terminal_def)

lemma get_pid_update:
  "get_pid_from_cr3 k (upd_terminal c f s) = get_pid_from_cr3 k s" "get_pid_from_cr3 (cr3 s) s = find_pid s"
  by (simp_all add: get_pid_from_cr3_def find_pid_def Let_def upd_terminal_simps)

lemma leave_terminal_eq:
  assumes "length (terminals s) = 3" "cur_terminal s \<in> {1, 2, 3}"
  shows "leave_terminal esp s = set_cursor 0 0 (clear (s\<lparr>
     terminals := (terminals s)[nat (cur_terminal s - 1) := saved_terminal esp s],
     term_pcb := pcbs s (pcb_at (of_int (find_pid s))),
     ram := memcpy (ram s) (saved_screen (cur_terminal s)) V_MEM_ADDR MEM_4KB\<rparr>))"
proof -
  let ?c = "cur_terminal s - 1" and ?p = "pcbs s (pcb_at (of_int (find_pid s)))"
  have i: "nat ?c < length (terminals s)" using assms by auto
  have c: "cur_terminal s = 1 \<or> cur_terminal s = 2 \<or> cur_terminal s = 3" using assms(2) by simp
  have "leave_terminal esp s = set_cursor 0 0 (clear ((upd_terminal ?c (\<lambda>t. t\<lparr>t_esp := esp, t_cr3 := cr3 s,
     kernel_esp := tss_esp0 s, t_file_struct := file_struct ?p, pos_x := screen_x s, pos_y := screen_y s,
     t_linebuffer := text_buf s\<rparr>) s)
     \<lparr>term_pcb := ?p, ram := memcpy (ram s) (saved_screen (cur_terminal s)) V_MEM_ADDR MEM_4KB\<rparr>))"
    using i c by (simp add: leave_terminal_def Let_def getx_def gety_def upd_terminal_simps get_pid_update)
  then show ?thesis by (simp add: upd_terminal_def saved_terminal_def)
qed

lemma lib_more_term:
  "lib_state.more t = lib_state.more s \<Longrightarrow> text_buf t = text_buf s \<and> counter t = counter s \<and> terminals t = terminals s
    \<and> cur_terminal t = cur_terminal s \<and> term2_flag t = term2_flag s \<and> term3_flag t = term3_flag s"
  "lib_state.more t = lib_state.more s \<Longrightarrow> tables_at t = tables_at s"
  for s t :: "'a term_state_scheme"
  by (cases s; cases t; simp)+

lemma leave_terminal_simps:
  assumes "length (terminals s) = 3" "cur_terminal s \<in> {1, 2, 3}"
  shows "terminals (leave_terminal esp s) = (terminals s)[nat (cur_terminal s - 1) := saved_terminal esp s]"
    "text_buf (leave_terminal esp s) = text_buf s" "counter (leave_terminal esp s) = counter s"
    "term2_flag (leave_terminal esp s) = term2_flag s" "term3_flag (leave_terminal esp s) = term3_flag s"
    "tables_at (leave_terminal esp s) = tables_at s"
  using lib_more_term [of "leave_terminal esp s" "s\<lparr>terminals := (terminals s)[nat (cur_terminal s - 1) := saved_terminal esp s],
     term_pcb := pcbs s (pcb_at (of_int (find_pid s))),
     ram := memcpy (ram s) (saved_screen (cur_terminal s)) V_MEM_ADDR MEM_4KB\<rparr>"]
  by (simp_all add: leave_terminal_eq [OF assms])

lemma resume_terminal_simps:
  "cur_terminal (snd (resume_terminal ebp n s)) = cur_terminal s"
  "counter (snd (resume_terminal ebp n s)) = counter s" "terminals (snd (resume_terminal ebp n s)) = terminals s"
  "text_buf (snd (resume_terminal ebp n s)) = t_linebuffer (terminals s ! nat (cur_terminal s - 1))"
  by (simp_all add: resume_terminal_def Let_def load_cr3_def set_cursor_eq send_eoi_def machine_defs)

lemma switch_inv:
  assumes "term_inv s" "n \<in> {1, 2, 3}" "terminal_switch junk dev esp ebp n s = Some (r, t)"
  shows "term_inv t"
proof (cases "cur_terminal s = n")
  case False
  let ?u = "(leave_terminal esp s)\<lparr>cur_terminal := n\<rparr>"
  have s: "length (terminals s) = 3" "cur_terminal s \<in> {1, 2, 3}" "length (text_buf s) = BUF_MAX"
    "\<forall>t\<in>set (terminals s). length (t_linebuffer t) = BUF_MAX" "counter s < of_nat BUF_MAX"
    using assms(1) by (simp_all add: term_inv_def line_ok_def)
  note leave = leave_terminal_simps [OF s(1,2), of esp]
  have "length (t_linebuffer x) = BUF_MAX" if "x \<in> set (terminals ?u)" for x
    using that s(3,4) set_update_subset_insert [of "terminals s" "nat (cur_terminal s - 1)" "saved_terminal esp s"]
    by (auto simp: leave saved_terminal_def)
  then have u: "term_inv ?u" using s assms(2) by (simp add: term_inv_def line_ok_def leave)
  show ?thesis
  proof (cases "n = 2 \<and> term2_flag ?u = 0 \<or> n = 3 \<and> term3_flag ?u = 0")
    case True
    then have "start_terminal junk dev esp ebp ?u = Some (r, t)"
      using assms(3) False by (simp add: terminal_switch_def Let_def)
    then obtain v k where v: "execute junk dev esp ebp (wr (\<lambda>_. 0) 4 (str ''shell'')) 4 v = Some (k, t)" "term_inv v"
      using u by (auto simp: start_terminal_def Let_def term_inv_def line_ok_def send_eoi_def machine_defs BUF_MAX_def split: if_splits)
    then show ?thesis using execute_line term_inv_same by blast
  next
    case no: False
    then have t: "t = snd (resume_terminal ebp n ?u)"
      using assms(3) False by (auto simp: terminal_switch_def Let_def)
    have "nat (n - 1) < length (terminals ?u)" using assms(2) s(1) by (auto simp: leave)
    then have "length (t_linebuffer (terminals ?u ! nat (n - 1))) = BUF_MAX"
      using u by (simp add: term_inv_def line_ok_def)
    then show ?thesis using u unfolding t term_inv_def line_ok_def resume_terminal_simps by simp
  qed
qed (use assms in \<open>simp add: terminal_switch_def\<close>)

text \<open>
  The abstract line editor. \<open>stuck\<close> says that the cursor is in the last column, where every key but
  the control keys only starts a new row, and \<open>prompt\<close> that backspace is refused.
\<close>

definition edit :: "bool \<Rightarrow> bool \<Rightarrow> u8 \<Rightarrow> u8 list \<Rightarrow> u8 list" where
  "edit stuck prompt k line =
     (if k = 9 \<or> k = CTRL_C \<or> k = CTRL_L then line
      else if k = 0x0A then []
      else if stuck then line
      else if k = BACKSPACE then (if prompt then line else butlast line)
      else if 0x20 \<le> k \<and> k \<le> 0x7E \<and> length line < 127 then line @ [k]
      else line)"

lemma length_line: "line_ok s \<Longrightarrow> length (line_of s) = unat (counter s)" "line_ok s \<Longrightarrow> unat (counter s) < 128"
  by (simp_all add: line_ok_def line_of_def BUF_MAX_def word_less_nat_alt)

lemma line_push:
  assumes "line_ok s" "counter s < 127" "text_buf t = (text_buf s)[unat (counter s) := k]" "counter t = counter s + 1"
    "terminals t = terminals s"
  shows "line_of t = line_of s @ [k]" "line_ok t"
proof -
  have c: "unat (counter s) < 127" using assms(2) by (simp add: word_less_nat_alt)
  then have u: "unat (counter s + 1) = Suc (unat (counter s))" by (simp add: unat_word_ariths)
  have l: "length (text_buf s) = 128" using assms(1) by (simp add: line_ok_def BUF_MAX_def)
  show "line_of t = line_of s @ [k]"
    using c l by (simp add: line_of_def assms(3,4) u take_Suc_conv_app_nth)
  show "line_ok t" using assms(1) c u by (simp add: line_ok_def assms(3-5) BUF_MAX_def word_less_nat_alt)
qed

lemma line_pop:
  assumes "line_ok s" "counter s \<noteq> 0" "text_buf t = (text_buf s)[unat (counter s - 1) := 0]" "counter t = counter s - 1"
    "terminals t = terminals s"
  shows "line_of t = butlast (line_of s)" "line_ok t"
proof -
  have u: "unat (counter s) = Suc (unat (counter s - 1))" using assms(2) by (rule unat_Suc_pred)
  have c: "unat (counter s) < 128" using assms(1) by (rule length_line(2))
  have l: "length (text_buf s) = 128" using assms(1) by (simp add: line_ok_def BUF_MAX_def)
  show "line_of t = butlast (line_of s)"
    using c l u by (simp add: line_of_def assms(3,4) butlast_take)
  show "line_ok t" using assms(1) c u by (simp add: line_ok_def assms(3-5) BUF_MAX_def word_less_nat_alt)
qed

lemma line_submit:
  assumes "line_ok s" "text_buf t = (text_buf s)[unat (counter s) := 0x0A]" "counter t = 0" "terminals t = terminals s"
  shows "line_of t = []" "line_ok t" "take (Suc (length (line_of s))) (text_buf t) = line_of s @ [0x0A]"
proof -
  have c: "unat (counter s) < 128" using assms(1) by (rule length_line(2))
  have l: "length (text_buf s) = 128" using assms(1) by (simp add: line_ok_def BUF_MAX_def)
  show "line_of t = []" by (simp add: line_of_def assms(3))
  show "line_ok t" using assms(1) by (simp add: line_ok_def assms(2-4) BUF_MAX_def)
  show "take (Suc (length (line_of s))) (text_buf t) = line_of s @ [0x0A]"
    using c l by (simp add: length_line [OF assms(1)] assms(2) take_Suc_conv_app_nth) (simp add: line_of_def)
qed

lemma keyboard_edit_step:
  assumes inv: "term_inv s" and k: "k < T1_SWITCH \<or> T3_SWITCH < k"
  shows "\<exists>t. keyboard_read junk dev esp ebp k s = Some (Ret 0, t) \<and> term_inv t
    \<and> line_of t = edit (screen_x s \<ge> 79) (keeps_prompt s) k (line_of s)
    \<and> (k = 0x0A \<longrightarrow> entered t = 1 \<and> take (Suc (length (line_of s))) (text_buf t) = line_of s @ [0x0A])"
proof -
  let ?s = "set_cursor (screen_x s) (screen_y s) s"
  have same: "same_line s ?s" by (rule set_cursor_line)
  have inv': "term_inv ?s" using term_inv_same [OF same inv] .
  have ok: "line_ok ?s" using inv' by (simp add: term_inv_def)
  have line: "line_of ?s = line_of s" using same by (rule line_of_same)
  have prompt: "keeps_prompt ?s = keeps_prompt s" by (simp add: keeps_prompt_def)
  have sameI: "term_inv t \<and> line_of t = line_of s" if "same_line ?s t" for t
    using term_inv_same [OF that inv'] line_of_same [OF that] line by simp
  have kk: "k \<noteq> T1_SWITCH" "k \<noteq> T2_SWITCH" "k \<noteq> T3_SWITCH" using k by (auto simp: kbd_consts)
  consider (tab) "k = 9" | (c) "k = CTRL_C" | (l) "k = CTRL_L" | (newline) "k = 0x0A"
    | (edge) "k \<noteq> 9" "k \<noteq> CTRL_C" "k \<noteq> CTRL_L" "k \<noteq> 0x0A" "screen_x s \<ge> 79"
    | (erase) "k = BACKSPACE" "screen_x s < 79"
    | (char) "0x20 \<le> k" "k \<le> 0x7E" "screen_x s < 79"
    | (other) "k \<noteq> 9" "k \<noteq> CTRL_C" "k \<noteq> CTRL_L" "k \<noteq> 0x0A" "k \<noteq> BACKSPACE" "screen_x s < 79" "\<not> (0x20 \<le> k \<and> k \<le> 0x7E)"
    by fastforce
  then show ?thesis
  proof cases
    case tab
    obtain n t where t: "printf (lit ''    '') (\<lambda>_. 0) [] ?s = Some (n, t)" "same_line ?s t"
      using printf_line [of "''    ''" "\<lambda>_. 0" ?s] by (auto simp: str_def)
    have "same_line ?s (set_cursor (screen_x s + 4) (screen_y s) t)"
      using t(2) set_cursor_line by (rule same_line_trans)
    then show ?thesis using tab t(1) sameI
      by (simp add: keyboard_read_def Let_def getx_def gety_def edit_def)
  next
    case c
    have "same_line ?s (send_eoi 8 ?s)" by (rule same_line_machine) simp
    then show ?thesis using c sameI by (simp add: keyboard_read_def Let_def getx_def gety_def edit_def kbd_consts)
  next
    case l
    let ?c = "set_cursor 0 0 (clear ?s)"
    have c: "same_line ?s ?c" by (rule same_line_lib) simp
    obtain n t where t: "printf (lit ''391OS> '') (\<lambda>_. 0) [] ?c = Some (n, t)" "same_line ?c t"
      using printf_line [of "''391OS> ''" "\<lambda>_. 0" ?c] by (auto simp: str_def)
    show ?thesis using l t(1) sameI [OF same_line_trans [OF c t(2)]]
      by (simp add: keyboard_read_def Let_def getx_def gety_def edit_def kbd_consts)
  next
    case newline
    have b: "length (text_buf ?s) = BUF_MAX" "counter ?s < of_nat BUF_MAX" using ok by (simp_all add: line_ok_def)
    note run = key_newline_run [OF b]
    note sub = line_submit [OF ok run(2,3,5)]
    have "term_inv (key_newline 0x0A ?s)" using sub(2) inv' run(6) by (simp add: term_inv_def)
    then show ?thesis using newline sub run(4) line
      by (simp add: keyboard_read_def Let_def getx_def gety_def edit_def kbd_consts)
  next
    case edge
    have b: "length (text_buf ?s) = BUF_MAX" "counter ?s < of_nat BUF_MAX" using ok by (simp_all add: line_ok_def)
    show ?thesis using edge sameI [OF key_newline_run(1) [OF b edge(4)]]
      by (simp add: keyboard_read_def Let_def getx_def gety_def edit_def WIDTH_def)
  next
    case erase
    have run: "keyboard_read junk dev esp ebp k s = Some (Ret 0, key_backspace ?s)"
      using erase by (simp add: keyboard_read_def Let_def getx_def gety_def WIDTH_def kbd_consts)
    show ?thesis
    proof (cases "keeps_prompt s \<or> counter ?s = 0")
      case True
      have "line_of s = [] \<or> keeps_prompt s" using True line by (auto simp: line_of_def)
      then show ?thesis
        using erase run sameI [OF key_backspace_run(1)] True prompt by (auto simp: edit_def kbd_consts)
    next
      case False
      then have "\<not> keeps_prompt ?s" "counter ?s \<noteq> 0" using prompt by simp_all
      note kb = key_backspace_run(2) [OF this]
      note pop = line_pop [OF ok \<open>counter ?s \<noteq> 0\<close>, of "key_backspace ?s"]
      show ?thesis
        using erase run kb pop inv' False line by (simp add: edit_def kbd_consts term_inv_def)
    qed
  next
    case char
    then have ne: "k \<noteq> 9" "k \<noteq> CTRL_C" "k \<noteq> CTRL_L" "k \<noteq> 0x0A" "k \<noteq> BACKSPACE" by (auto simp: kbd_consts)
    have len: "length (line_of s) < 127 \<longleftrightarrow> counter ?s < 127"
      using length_line [OF ok] line by (simp add: word_less_nat_alt)
    show ?thesis
    proof (cases "counter ?s < 127")
      case True
      let ?u = "?s\<lparr>text_buf := (text_buf ?s)[unat (counter ?s) := k]\<rparr>"
      let ?t = "(putc k ?u)\<lparr>counter := counter (putc k ?u) + 1\<rparr>"
      have "same_line ?u (putc k ?u)" by (rule same_line_lib) simp
      then have t: "text_buf ?t = (text_buf ?s)[unat (counter ?s) := k]" "counter ?t = counter ?s + 1"
          "terminals ?t = terminals ?s" "cur_terminal ?t = cur_terminal ?s"
        by (simp_all add: same_line_def)
      note push = line_push [OF ok True t(1-3)]
      have "keyboard_read junk dev esp ebp k s = Some (Ret 0, ?t)"
        using char True ne by (simp add: keyboard_read_def Let_def getx_def gety_def WIDTH_def BUF_MAX_def)
      then show ?thesis
        using push inv' t(4) len line ne char True by (simp add: edit_def term_inv_def)
    next
      case False
      have "keyboard_read junk dev esp ebp k s = Some (Ret 0, ?s)"
        using char False ne k by (auto simp: keyboard_read_def Let_def getx_def gety_def WIDTH_def BUF_MAX_def)
      then show ?thesis using sameI [OF same_line_simps] ne char len False by (simp add: edit_def)
    qed
  next
    case other
    then show ?thesis using sameI [OF same_line_simps] k kk
      by (auto simp: keyboard_read_def Let_def getx_def gety_def edit_def WIDTH_def not_le)
  qed
qed

section \<open>Every key press\<close>

lemma keyboard_inv:
  assumes "term_inv s" "keyboard_read junk dev esp ebp k s = Some (r, t)"
  shows "term_inv t"
proof (cases "k < T1_SWITCH \<or> T3_SWITCH < k")
  case True
  then show ?thesis using keyboard_edit_step [OF assms(1) True, of junk dev esp ebp] assms(2) by auto
next
  case False
  let ?s = "set_cursor (screen_x s) (screen_y s) s"
  have inv: "term_inv ?s" using term_inv_same [OF set_cursor_line assms(1)] .
  then have b: "length (text_buf ?s) = BUF_MAX" "counter ?s < of_nat BUF_MAX" by (simp_all add: term_inv_def line_ok_def)
  have k: "k \<noteq> 9" "k \<noteq> CTRL_C" "k \<noteq> CTRL_L" "k \<noteq> 0x0A" "k \<noteq> BACKSPACE" "\<not> (0x20 \<le> k \<and> k \<le> 0x7E)"
    using False by (auto simp: kbd_consts word_less_nat_alt word_le_nat_alt)
  show ?thesis
  proof (cases "screen_x s \<ge> 79")
    case True
    then have "t = key_newline k ?s"
      using assms(2) k by (simp add: keyboard_read_def Let_def getx_def gety_def WIDTH_def)
    then show ?thesis using term_inv_same [OF key_newline_run(1) [OF b k(4)] inv] by simp
  next
    case x: False
    have run: "keyboard_read junk dev esp ebp k s = (if k = T1_SWITCH then terminal_switch junk dev esp ebp 1 ?s
        else if k = T2_SWITCH then terminal_switch junk dev esp ebp 2 (?s\<lparr>term2_press := 1\<rparr>)
        else terminal_switch junk dev esp ebp 3 (?s\<lparr>term3_press := 1\<rparr>))"
    proof -
      have r: "(0x20 \<le> k \<and> k \<le> 0x7E \<and> Q) = False" "(T1_SWITCH \<le> k \<and> k \<le> T3_SWITCH) = True" for Q
        using k(6) False by auto
      have "(screen_x s \<ge> int 80 - 1 \<or> k = 0x0A) = False" using x k(4) by simp
      then show ?thesis
        unfolding keyboard_read_def Let_def getx_def gety_def WIDTH_def
        by (simp only: r k(1-3,5) if_False if_True)
    qed
    have "term_inv (?s\<lparr>term2_press := 1\<rparr>)" "term_inv (?s\<lparr>term3_press := 1\<rparr>)"
      using inv by (simp_all add: term_inv_def line_ok_def)
    then show ?thesis
      using switch_inv [of ?s 1 junk dev esp ebp r t] switch_inv [of "?s\<lparr>term2_press := 1\<rparr>" 2 junk dev esp ebp r t]
        switch_inv [of "?s\<lparr>term3_press := 1\<rparr>" 3 junk dev esp ebp r t] inv assms(2) unfolding run
      by (simp split: if_splits)
  qed
qed

lemma decode_line: "decode_key past charval code s = (c, t) \<Longrightarrow> same_line s t" for s :: "'a term_state_scheme"
  by (auto simp: decode_key_def decode_press_def decode_release_def Let_def same_line_def split: if_splits)

lemma read_keyboard_step:
  assumes "read_keyboard junk dev past charval esp ebp s = Some (r, t)"
  obtains c u k v where "decode_key past charval (ucast (inb dev 0x60 s)) s = (c, u)"
    "keyboard_read junk dev esp ebp c u = Some (k, v)" "t = v \<or> t = send_eoi 1 v"
proof -
  obtain c u where u: "decode_key past charval (ucast (inb dev 0x60 s)) s = (c, u)" by fastforce
  obtain k v where v: "keyboard_read junk dev esp ebp c u = Some (k, v)"
      "(r, t) = (case k of Ret _ \<Rightarrow> (Ret 0, send_eoi 1 v) | _ \<Rightarrow> (k, v))"
    using assms u by (auto simp: read_keyboard_def)
  then have "t = v \<or> t = send_eoi 1 v" by (cases k) auto
  with u v(1) show thesis by (rule that)
qed

lemma read_keyboard_inv:
  assumes "term_inv s" "read_keyboard junk dev past charval esp ebp s = Some (r, t)"
  shows "term_inv t"
proof -
  obtain c u k v where u: "decode_key past charval (ucast (inb dev 0x60 s)) s = (c, u)"
      "keyboard_read junk dev esp ebp c u = Some (k, v)" "t = v \<or> t = send_eoi 1 v"
    using assms(2) by (rule read_keyboard_step)
  have "term_inv v" using keyboard_inv [OF term_inv_same [OF decode_line [OF u(1)] assms(1)] u(2)] .
  moreover have "same_line v (send_eoi 1 v)" by (rule same_line_machine) simp
  ultimately show ?thesis using u(3) term_inv_same by blast
qed

text \<open>Runs of keyboard interrupts, whatever the devices answer and wherever they interrupt.\<close>

inductive keys :: "'a sys_state_scheme \<Rightarrow> 'a sys_state_scheme \<Rightarrow> bool" for s where
  keys_refl: "keys s s"
| keys_step: "keys s t \<Longrightarrow> read_keyboard junk dev past charval esp ebp t = Some (r, u) \<Longrightarrow> keys s u"

lemma keys_inv: "keys s t \<Longrightarrow> term_inv s \<Longrightarrow> term_inv t"
  by (induction rule: keys.induct) (auto dest: read_keyboard_inv)

section \<open>There and back\<close>

lemma screens_apart:
  assumes "i \<in> {1, 2, 3}" "j \<in> {1, 2, 3}" "i \<noteq> j"
  shows "apart (saved_screen i) 4096 V_MEM_ADDR 4096" "apart (saved_screen i) 4096 (saved_screen j) 4096"
  using assms by (auto simp: saved_screen_def term_consts apart_def)

definition started :: "int \<Rightarrow> 'a term_state_scheme \<Rightarrow> bool" where
  "started n s \<longleftrightarrow> n = 1 \<or> n = 2 \<and> term2_flag s \<noteq> 0 \<or> n = 3 \<and> term3_flag s \<noteq> 0"

lemma switch_run:
  assumes "term_inv s" "started n s" "cur_terminal s \<noteq> n"
  shows "\<exists>t. terminal_switch junk dev esp ebp n s = Some (Resume (t_esp (terminals s ! nat (n - 1))) ebp 0, t)
    \<and> t = snd (resume_terminal ebp n ((leave_terminal esp s)\<lparr>cur_terminal := n\<rparr>))"
proof -
  have s: "length (terminals s) = 3" "cur_terminal s \<in> {1, 2, 3}" using assms(1) by (simp_all add: term_inv_def line_ok_def)
  note leave = leave_terminal_simps [OF s, of esp]
  have n: "n \<in> {1, 2, 3}" using assms(2) by (auto simp: started_def)
  have "nat (n - 1) \<noteq> nat (cur_terminal s - 1)" using assms(3) n s(2) by auto
  then have "terminals (leave_terminal esp s) ! nat (n - 1) = terminals s ! nat (n - 1)" by (simp add: leave)
  moreover have "fst (resume_terminal ebp n u) = Resume (t_esp (terminals u ! nat (cur_terminal u - 1))) ebp 0" for u :: "'a sys_state_scheme"
    by (simp add: resume_terminal_def Let_def load_cr3_def set_cursor_eq send_eoi_def machine_defs)
  ultimately have "fst (resume_terminal ebp n ((leave_terminal esp s)\<lparr>cur_terminal := n\<rparr>))
      = Resume (t_esp (terminals s ! nat (n - 1))) ebp 0" by simp
  then show ?thesis
    using assms(2,3) by (auto simp: terminal_switch_def Let_def leave started_def intro: prod_eqI)
qed

text \<open>The state after a switch.\<close>

lemma switch_state:
  assumes "term_inv s" "started n s" "cur_terminal s \<noteq> n"
    and t_def: "t = snd (resume_terminal ebp n ((leave_terminal esp s)\<lparr>cur_terminal := n\<rparr>))"
  shows "cur_terminal t = n" "counter t = counter s" "text_buf t = t_linebuffer (terminals s ! nat (n - 1))"
    "screen_x t = pos_x (terminals s ! nat (n - 1))" "screen_y t = pos_y (terminals s ! nat (n - 1))"
    "cr3 t = t_cr3 (terminals s ! nat (n - 1))"
    "terminals t = (terminals s)[nat (cur_terminal s - 1) := saved_terminal esp s]"
    "started m t = started m s"
proof -
  have s: "length (terminals s) = 3" "cur_terminal s \<in> {1, 2, 3}" using assms(1) by (simp_all add: term_inv_def line_ok_def)
  note leave = leave_terminal_simps [OF s, of esp]
  have n: "n \<in> {1, 2, 3}" using assms(2) by (auto simp: started_def)
  have "nat (n - 1) \<noteq> nat (cur_terminal s - 1)" using assms(3) n s(2) by auto
  then have same: "terminals (leave_terminal esp s) ! nat (n - 1) = terminals s ! nat (n - 1)" by (simp add: leave)
  show "cur_terminal t = n" "counter t = counter s" "text_buf t = t_linebuffer (terminals s ! nat (n - 1))"
    "terminals t = (terminals s)[nat (cur_terminal s - 1) := saved_terminal esp s]"
    unfolding t_def resume_terminal_simps by (simp_all add: same) (simp_all add: leave)
  have "screen_x (snd (resume_terminal ebp n u)) = pos_x (terminals u ! nat (cur_terminal u - 1))"
      "screen_y (snd (resume_terminal ebp n u)) = pos_y (terminals u ! nat (cur_terminal u - 1))"
      "cr3 (snd (resume_terminal ebp n u)) = t_cr3 (terminals u ! nat (cur_terminal u - 1))"
      "started m (snd (resume_terminal ebp n u)) = started m u" for u :: "'a sys_state_scheme"
    by (simp_all add: resume_terminal_def Let_def load_cr3_def set_cursor_eq send_eoi_def machine_defs started_def)
  then show "screen_x t = pos_x (terminals s ! nat (n - 1))" "screen_y t = pos_y (terminals s ! nat (n - 1))"
    "cr3 t = t_cr3 (terminals s ! nat (n - 1))" "started m t = started m s"
    by (simp_all add: t_def same) (simp add: started_def leave)
qed

text \<open>Where the displays go.\<close>

lemma switch_displays:
  assumes "term_inv s" "started n s" "cur_terminal s \<noteq> n"
    and t_def: "t = snd (resume_terminal ebp n ((leave_terminal esp s)\<lparr>cur_terminal := n\<rparr>))"
  shows "rd (ram t) V_MEM_ADDR 4096 = rd (ram s) (saved_screen n) 4096"
    "rd (ram t) (saved_screen (cur_terminal s)) 4096 = rd (ram s) V_MEM_ADDR 4096"
proof -
  let ?i = "cur_terminal s"
  have s: "length (terminals s) = 3" "?i \<in> {1, 2, 3}" using assms(1) by (simp_all add: term_inv_def line_ok_def)
  have n: "n \<in> {1, 2, 3}" using assms(2) by (auto simp: started_def)
  let ?u = "(leave_terminal esp s)\<lparr>cur_terminal := n\<rparr>"
  have un: "unat MEM_4KB = 4096" by (simp add: MEM_4KB_def)
  note ap = screens_apart [OF s(2) n assms(3)] screens_apart [OF n s(2) assms(3) [symmetric]]
  have m: "memcpy (ram s) (saved_screen ?i) V_MEM_ADDR MEM_4KB = wr (ram s) (saved_screen ?i) (rd (ram s) V_MEM_ADDR 4096)"
    using kcopy.cp_apart [of "saved_screen ?i" MEM_4KB V_MEM_ADDR "ram s"] ap(1) un by simp
  have u: "ram ?u = wr (wr (ram s) (saved_screen ?i) (rd (ram s) V_MEM_ADDR 4096)) VIDEO (concat (replicate 2000 [0x20, 7]))"
    by (simp add: leave_terminal_eq [OF s] clear_wr m)
  have vid: "apart a 4096 VIDEO (length (concat (replicate 2000 [0x20 :: u8, 7])))" if "a = saved_screen n \<or> a = saved_screen ?i" for a
    using that n s(2) by (auto simp: saved_screen_def term_consts apart_def VIDEO_def simp del: length_concat)
  have un1: "rd (ram ?u) (saved_screen n) 4096 = rd (ram s) (saved_screen n) 4096"
    unfolding u using vid ap(4) by (simp add: rd_wr_apart)
  have un2: "rd (ram ?u) (saved_screen ?i) 4096 = rd (ram s) V_MEM_ADDR 4096"
    unfolding u using vid by (simp add: rd_wr_apart rd_wr_same)
  have m2: "memcpy (ram ?u) V_MEM_ADDR (saved_screen n) MEM_4KB = wr (ram ?u) V_MEM_ADDR (rd (ram s) (saved_screen n) 4096)"
    using kcopy.cp_apart [of V_MEM_ADDR MEM_4KB "saved_screen n" "ram ?u"] ap(3) un un1 by (simp add: apart_sym)
  have low: "unat V_MEM_ADDR + 4096 \<le> 0x08000000" "unat (saved_screen ?i) + 4096 \<le> 0x08000000"
    using s(2) by (auto simp: term_consts saved_screen_def)
  have t: "rd (ram t) a 4096 = rd (memcpy (ram ?u) V_MEM_ADDR (saved_screen n) MEM_4KB) a 4096" if "unat a + 4096 \<le> 0x08000000" for a
    using n that unfolding t_def resume_terminal_def Let_def
    by (auto simp: rd_load_cr3 send_eoi_def machine_defs simp del: length_concat)
  show "rd (ram t) V_MEM_ADDR 4096 = rd (ram s) (saved_screen n) 4096"
    unfolding t [OF low(1)] m2 by (simp add: rd_wr_same)
  show "rd (ram t) (saved_screen ?i) 4096 = rd (ram s) V_MEM_ADDR 4096"
    unfolding t [OF low(2)] m2 using un2 ap(1) by (simp add: rd_wr_apart)
qed

section \<open>Properties\<close>

text \<open>C9: a terminal that is left and later switched back to, its saved state untouched in between, comes
  back as it was: its display, cursor, line buffer and address space, on the stack it was left on.
  The count of characters typed is not part of what comes back: it is that of the terminal left
  last.\<close>

theorem switch_and_back:
  assumes "term_inv s" "cur_terminal s = i" "started i s" "started j s" "i \<noteq> j"
    "terminal_switch junk dev esp ebp j s = Some (r, t)"
    "term_inv u" "cur_terminal u = j" "started i u" "terminals u ! nat (i - 1) = terminals t ! nat (i - 1)"
    "rd (ram u) (saved_screen i) 4096 = rd (ram t) (saved_screen i) 4096"
  shows "\<exists>v. terminal_switch junk' dev esp' ebp' i u = Some (Resume esp ebp' 0, v)
    \<and> rd (ram v) V_MEM_ADDR 4096 = rd (ram s) V_MEM_ADDR 4096 \<and> screen_x v = screen_x s \<and> screen_y v = screen_y s
    \<and> text_buf v = text_buf s \<and> cr3 v = cr3 s \<and> cur_terminal v = i \<and> counter v = counter u"
proof -
  have ij: "cur_terminal s \<noteq> j" "cur_terminal u \<noteq> i" using assms(2,5,8) by simp_all
  have t: "t = snd (resume_terminal ebp j ((leave_terminal esp s)\<lparr>cur_terminal := j\<rparr>))"
    using switch_run [OF assms(1,4) ij(1), of junk dev esp ebp] assms(6) by auto
  have "nat (i - 1) < length (terminals s)" using assms(1,3) by (auto simp: term_inv_def line_ok_def started_def)
  then have slot: "terminals u ! nat (i - 1) = saved_terminal esp s"
    using assms(2,10) switch_state(7) [OF assms(1,4) ij(1) t] by simp
  obtain v where v: "terminal_switch junk' dev esp' ebp' i u = Some (Resume (t_esp (terminals u ! nat (i - 1))) ebp' 0, v)"
      "v = snd (resume_terminal ebp' i ((leave_terminal esp' u)\<lparr>cur_terminal := i\<rparr>))"
    using switch_run [OF assms(7,9) ij(2), of junk' dev esp' ebp'] by blast
  note st = switch_state [OF assms(7,9) ij(2) v(2), unfolded slot]
  have "rd (ram v) V_MEM_ADDR 4096 = rd (ram s) V_MEM_ADDR 4096"
    using switch_displays(1) [OF assms(7,9) ij(2) v(2)] switch_displays(2) [OF assms(1,4) ij(1) t] assms(2,11) by simp
  then show ?thesis using v(1) st by (simp add: slot) (simp add: saved_terminal_def)
qed

definition empty_terminal :: terminal_t where
  "empty_terminal = \<lparr>t_linebuffer = replicate 128 0, pos_x = 0, pos_y = 0, t_counter = 0, t_esp = 0, t_ebp = 0,
     kernel_esp = 0, t_cr3 = 0, t_file_struct = replicate 8 empty_file\<rparr>"

definition switch_example :: sys_state where
  "switch_example = sys_example\<lparr>terminals := replicate 3 empty_terminal, term2_flag := 1, screen_x := 12,
     text_buf := [0x6C, 0x73] @ replicate 126 0, counter := 2\<rparr>"

lemma switch_example_inv: "term_inv switch_example" "started 1 switch_example" "started 2 switch_example"
  by (simp_all add: switch_example_def term_inv_def line_ok_def started_def BUF_MAX_def empty_terminal_def sys_example_def)

theorem switch_and_back_witness:
  "\<exists>r t v. terminal_switch 0 (\<lambda>_ _. 0) 0x7FFF00 0 2 switch_example = Some (r, t)
    \<and> terminal_switch 0 (\<lambda>_ _. 0) 0x7FDF00 0 1 t = Some (Resume 0x7FFF00 0 0, v) \<and> screen_x v = 12"
proof -
  have c: "cur_terminal switch_example = 1" "screen_x switch_example = 12" by (simp_all add: switch_example_def sys_example_def)
  then have ne: "cur_terminal switch_example \<noteq> 2" by simp
  obtain r t where t: "terminal_switch 0 (\<lambda>_ _. 0) 0x7FFF00 0 2 switch_example = Some (r, t)"
      "t = snd (resume_terminal 0 2 ((leave_terminal 0x7FFF00 switch_example)\<lparr>cur_terminal := 2\<rparr>))"
    using switch_run [OF switch_example_inv(1,3) ne] by blast
  have "term_inv t" using switch_inv [OF switch_example_inv(1) _ t(1)] by simp
  moreover have "cur_terminal t = 2" "started 1 t"
    using switch_state(1,8) [OF switch_example_inv(1,3) ne t(2)] switch_example_inv(2) by simp_all
  ultimately show ?thesis
    using switch_and_back [OF switch_example_inv(1) c(1) switch_example_inv(2,3) _ t(1), of t 0 "0x7FDF00" 0] c(2) t(1) by auto
qed

text \<open>C6: a key other than the three that switch terminals has the effect on the line being typed that the
  abstract line editor gives it: a character is appended while fewer than 127 are there, backspace
  takes the last away unless a prompt is next to the cursor, a newline hands the line over, and
  with the cursor in the last column every other key is lost.\<close>

theorem keyboard_edits_line:
  assumes "term_inv s" "k < T1_SWITCH \<or> T3_SWITCH < k"
  shows "\<exists>t. keyboard_read junk dev esp ebp k s = Some (Ret 0, t) \<and> term_inv t
    \<and> line_of t = edit (screen_x s \<ge> 79) (keeps_prompt s) k (line_of s)
    \<and> (k = 0x0A \<longrightarrow> entered t = 1 \<and> take (Suc (length (line_of s))) (text_buf t) = line_of s @ [0x0A])"
  using assms by (rule keyboard_edit_step)

theorem keyboard_edits_line_witness:
  "\<exists>t. keyboard_read 0 (\<lambda>_ _. 0) 0 0 0x61 switch_example = Some (Ret 0, t) \<and> line_of t = [0x6C, 0x73, 0x61]"
proof -
  have "line_of switch_example = [0x6C, 0x73]" "screen_x switch_example = 12"
    by (simp_all add: line_of_def switch_example_def)
  then show ?thesis
    using keyboard_edits_line [OF switch_example_inv(1), of "0x61" 0 "\<lambda>_ _. 0" 0 0]
    by (auto simp: edit_def kbd_consts)
qed

text \<open>C24: whatever keys are pressed, in whatever order, whatever scan codes the keyboard sends (those
  without an entry in the table included) and whatever terminals they switch to, the count of
  characters stays below 128, so that the next character and the newline that ends the line have a
  place in the line buffer of 128 bytes, and the running terminal is one of the three.\<close>

theorem line_buffer_bounds:
  assumes "term_inv s" "keys s t"
  shows "unat (counter t) < 128 \<and> cur_terminal t \<in> {1, 2, 3}"
  using keys_inv [OF assms(2,1)] by (simp add: term_inv_def line_ok_def BUF_MAX_def word_less_nat_alt)

text \<open>The example: the key a is pressed, and with alt held F2, which switches to the second terminal.\<close>

lemma example_key_a:
  "\<exists>t. read_keyboard 0 (\<lambda>_ _. 0x1E) 0 0 0 0 switch_example = Some (Ret 0, t) \<and> line_of t = [0x6C, 0x73, 0x61]"
proof -
  have d: "decode_key 0 0 (ucast (inb (\<lambda>_ _. 0x1E) 0x60 switch_example)) switch_example = (0x61, switch_example)"
    by (simp add: inb_def decode_key_def decode_press_def decode_char_def key_codes_def str_def kbd_consts
        switch_example_def sys_example_def)
  have l: "line_of switch_example = [0x6C, 0x73]" "screen_x switch_example = 12"
    by (simp_all add: line_of_def switch_example_def)
  obtain t where t: "keyboard_read 0 (\<lambda>_ _. 0x1E) 0 0 0x61 switch_example = Some (Ret 0, t)" "line_of t = [0x6C, 0x73, 0x61]"
    using keyboard_edit_step [OF switch_example_inv(1), of "0x61" 0 "\<lambda>_ _. 0x1E" 0 0] l by (auto simp: edit_def kbd_consts)
  have "line_of (send_eoi 1 t) = line_of t" by (rule line_of_same, rule same_line_machine) simp
  then show ?thesis using t by (simp add: read_keyboard_def d)
qed

lemma example_key_F2:
  "\<exists>r t. read_keyboard 0 (\<lambda>_ _. 0x3C) 0 0 0x7FFF00 0 (switch_example\<lparr>alt_flag := 1\<rparr>) = Some (r, t) \<and> cur_terminal t = 2"
proof -
  let ?s = "switch_example\<lparr>alt_flag := 1\<rparr>"
  let ?u = "(set_cursor (screen_x ?s) (screen_y ?s) ?s)\<lparr>term2_press := 1\<rparr>"
  have d: "decode_key 0 0 (ucast (inb (\<lambda>_ _. 0x3C) 0x60 ?s)) ?s = (T2_SWITCH, ?s)"
    by (simp add: inb_def decode_key_def decode_press_def key_codes_def str_def kbd_consts)
  have "term_inv ?s" using switch_example_inv(1) by (simp add: term_inv_def line_ok_def)
  from term_inv_same [OF set_cursor_line this] have inv: "term_inv ?u" by (simp add: term_inv_def line_ok_def)
  have c: "cur_terminal ?u \<noteq> 2" "started 2 ?u"
    by (simp_all add: set_cursor_eq started_def switch_example_def sys_example_def)
  have run: "keyboard_read 0 (\<lambda>_ _. 0x3C) 0x7FFF00 0 T2_SWITCH ?s = terminal_switch 0 (\<lambda>_ _. 0x3C) 0x7FFF00 0 2 ?u"
    by (simp add: keyboard_read_def Let_def getx_def gety_def kbd_consts WIDTH_def switch_example_def)
  obtain e t where t: "terminal_switch 0 (\<lambda>_ _. 0x3C) 0x7FFF00 0 2 ?u = Some (Resume e 0 0, t)"
      "t = snd (resume_terminal 0 2 ((leave_terminal 0x7FFF00 ?u)\<lparr>cur_terminal := 2\<rparr>))"
    using switch_run [OF inv c(2,1)] by blast
  have "cur_terminal t = 2" using switch_state(1) [OF inv c(2,1) t(2)] .
  then show ?thesis using t(1) by (simp add: read_keyboard_def d run)
qed

theorem line_buffer_bounds_witness:
  "(\<exists>t. keys switch_example t \<and> line_of t = [0x6C, 0x73, 0x61] \<and> unat (counter t) < 128)
   \<and> (\<exists>t. keys (switch_example\<lparr>alt_flag := 1\<rparr>) t \<and> cur_terminal t = 2 \<and> unat (counter t) < 128)"
proof -
  have "term_inv (switch_example\<lparr>alt_flag := 1\<rparr>)" using switch_example_inv(1) by (simp add: term_inv_def line_ok_def)
  note bounds = line_buffer_bounds [OF switch_example_inv(1)] line_buffer_bounds [OF this]
  show ?thesis
    using example_key_a example_key_F2 bounds keys_step [OF keys_refl] by blast
qed

text \<open>C23: the line typed before a newline is what a read of the terminal returns: its length, and in the
  buffer its characters and the newline.\<close>

theorem typed_line_is_read:
  assumes "term_inv s" "0x0A \<notin> set (line_of s)" "fd \<noteq> 1" "int (length (line_of s)) < len"
  shows "\<exists>t u. keyboard_read junk dev esp ebp 0x0A s = Some (Ret 0, t)
    \<and> terminal_read junk' irqs fd buf len t = Some (int (length (line_of s)), u)
    \<and> rd (ram u) buf (Suc (length (line_of s))) = line_of s @ [0x0A]"
proof -
  let ?n = "length (line_of s)"
  have "(0x0A :: u8) < T1_SWITCH \<or> T3_SWITCH < 0x0A" by (simp add: kbd_consts)
  from keyboard_edit_step [OF assms(1) this]
  obtain t where t: "keyboard_read junk dev esp ebp 0x0A s = Some (Ret 0, t)" "term_inv t" "entered t = 1"
      "take (Suc ?n) (text_buf t) = line_of s @ [0x0A]" by blast
  have len: "length (text_buf t) = 128" using t(2) by (simp add: term_inv_def line_ok_def BUF_MAX_def)
  have n: "?n < 128" using length_line [of s] assms(1) by (simp add: term_inv_def)
  have nth: "text_buf t ! k = (line_of s @ [0x0A]) ! k" if "k < Suc ?n" for k
    using that t(4) by (metis nth_take)
  have "await (\<lambda>s. entered s = 1) irqs t = Some t" using t(3) by (cases irqs) simp_all
  moreover have "\<forall>k<?n. text_buf t ! k \<noteq> 0x0A" using nth assms(2) by (metis less_SucI nth_append nth_mem)
  moreover have "text_buf t ! ?n = 0x0A" using nth by simp
  ultimately have "terminal_read junk' irqs fd buf len t
      = Some (int ?n, t\<lparr>ram := wr (ram t) buf (line_of s @ [0x0A]), entered := 0\<rparr>)"
    using terminal_read_run [OF assms(3), of irqs t t ?n len junk' buf] len n assms(4) t(4) by (simp add: BUF_MAX_def)
  moreover have "rd (wr (ram t) buf (line_of s @ [0x0A])) buf (Suc ?n) = line_of s @ [0x0A]" using n by (simp add: rd_wr_same)
  ultimately show ?thesis using t(1) by auto
qed

theorem typed_line_is_read_witness:
  "\<exists>t u. keyboard_read 0 (\<lambda>_ _. 0) 0 0 0x0A switch_example = Some (Ret 0, t)
    \<and> terminal_read 0 [] 0 0x8000000 128 t = Some (2, u) \<and> rd (ram u) 0x8000000 3 = [0x6C, 0x73, 0x0A]"
proof -
  have "line_of switch_example = [0x6C, 0x73]" by (simp add: line_of_def switch_example_def)
  then show ?thesis
    using typed_line_is_read [OF switch_example_inv(1), of 0 128 0 "\<lambda>_ _. 0" 0 0 0 "[]" "0x8000000"]
    by (simp add: numeral_3_eq_3)
qed

end
