(* ===== verification/Stdio.thy ===== *)
theory Stdio
  imports Switch
begin

text \<open>
  What a program can rely on for its standard descriptors. \<open>execute\<close> opens descriptors 0 and 1 on the
  terminal; here it is shown that no sequence of calls of \<open>read\<close>, \<open>write\<close>, \<open>open\<close> and \<open>close\<close>
  (\<^verbatim>\<open>student-distrib/systemcalls.c\<close>) takes them away, with the clock and the keyboard interrupting the
  calls that wait.
\<close>

section \<open>The standard descriptors\<close>

text \<open>Both are open with the terminal's operations. \<open>close\<close> clears the operations of descriptor \<open>fd_index\<close>,
  so that has to be another one as soon as there is a descriptor that can be closed.\<close>

definition std_open :: "'a fs_state_scheme \<Rightarrow> bool" where
  "std_open s \<longleftrightarrow> length (file_struct (pcblock s)) = 8
     \<and> (\<forall>j<2. fd_kind (file_struct (pcblock s) ! j) = (terminal_fops, 1))
     \<and> (2 \<le> fd_index s \<or> (\<forall>j<8. 2 \<le> j \<longrightarrow> flags (file_struct (pcblock s) ! j) \<noteq> 1))"



lemma std_open_simps [simp]:
  "std_open (upd_dentry i d s) = std_open s" "std_open (save_pcb a u) = std_open u" "std_open (u\<lparr>fd_rtc := n\<rparr>) = std_open u"
  by (simp_all add: std_open_def save_pcb_def)

lemma fd_index_simps [simp]: "fd_index (save_pcb a u) = fd_index u"
  by (simp_all add: save_pcb_def)









section \<open>Interrupts\<close>











section \<open>Sequences of calls\<close>




section \<open>Properties\<close>



end
