(* ===== verification/Programs.thy ===== *)
theory Programs
  imports Process
begin

text \<open>
  User programs, \<^verbatim>\<open>syscalls/\<close>: \<open>cat\<close>, \<open>ls\<close>, \<open>hello\<close>, \<open>counter\<close> and \<open>testprint\<close>, run on the system
  calls of \<open>Syscalls\<close>. A program's \<open>main\<close> takes the address of its buffer and gives the value it
  returns. What a system call meets is a parameter: for the \<open>k\<close>-th call, \<open>w k\<close> has the value of the
  uninitialised local of the terminal's routines and the interrupts that arrive while the call waits.
  String literals are objects of their own.
\<close>

section \<open>The programs\<close>

type_synonym 'a world = "nat \<Rightarrow> int \<times> 'a sys_state_scheme handler list"

definition ece391_fdputs :: "int \<Rightarrow> ('a term_state_scheme \<Rightarrow> mem) \<Rightarrow> device \<Rightarrow> int \<Rightarrow> u32
    \<Rightarrow> 'a term_state_scheme \<Rightarrow> 'a term_state_scheme option" where
  "ece391_fdputs junk src dev fd s st =
     Option.bind (ece391_strlen (src st) s) (\<lambda>n. map_option snd (sys_write junk src dev fd s (sint n) st))"

text \<open>\<open>ece391_fdputs (1, "...")\<close>: printing a literal.\<close>

abbreviation say :: "int \<Rightarrow> device \<Rightarrow> string \<Rightarrow> 'a term_state_scheme \<Rightarrow> 'a term_state_scheme option" where
  "say junk dev msg \<equiv> ece391_fdputs junk (\<lambda>_. wr (\<lambda>_. 0) 4 (str msg)) dev 1 4"

partial_function (option) cat_loop :: "'a world \<Rightarrow> device \<Rightarrow> int \<Rightarrow> u32 \<Rightarrow> nat \<Rightarrow> 'a sys_state_scheme
    \<Rightarrow> (int \<times> 'a sys_state_scheme) option" where
  "cat_loop w dev fd buf k s =
     Option.bind (sys_read (fst (w k)) (snd (w k)) fd buf 1024 s) (\<lambda>(cnt, s).
       if cnt = 0 then Some (0, s)
       else if cnt = -1 then map_option (Pair 3) (say (fst (w (k + 1))) dev ''file read failed\<newline>'' s)
       else Option.bind (sys_write (fst (w (k + 1))) ram dev 1 buf cnt s) (\<lambda>(r, s).
         if r = -1 then Some (3, s) else cat_loop w dev fd buf (k + 2) s))"

definition cat_main :: "'a world \<Rightarrow> device \<Rightarrow> u32 \<Rightarrow> 'a sys_state_scheme \<Rightarrow> (int \<times> 'a sys_state_scheme) option" where
  "cat_main w dev buf s =
     Option.bind (getargs buf 1024 s) (\<lambda>(r, s).
       if r \<noteq> 0 then map_option (Pair 3) (say (fst (w 0)) dev ''could not read arguments\<newline>'' s)
       else Option.bind (sys_open dev (ram s) buf s) (\<lambda>(fd, s).
         if fd = -1 then map_option (Pair 2) (say (fst (w 0)) dev ''file not found\<newline>'' s)
         else cat_loop w dev fd buf 1 s))"

partial_function (option) ls_loop :: "'a world \<Rightarrow> device \<Rightarrow> int \<Rightarrow> u32 \<Rightarrow> nat \<Rightarrow> 'a sys_state_scheme
    \<Rightarrow> (int \<times> 'a sys_state_scheme) option" where
  "ls_loop w dev fd buf k s =
     Option.bind (sys_read (fst (w k)) (snd (w k)) fd buf 32 s) (\<lambda>(cnt, s).
       if cnt = 0 then Some (0, s)
       else if cnt = -1 then map_option (Pair 3) (say (fst (w (k + 1))) dev ''directory entry read failed\<newline>'' s)
       else
         let s = s\<lparr>ram := (ram s)(buf + of_int cnt := 0x0A)\<rparr>
         in Option.bind (sys_write (fst (w (k + 1))) ram dev 1 buf (cnt + 1) s) (\<lambda>(r, s).
              if r = -1 then Some (3, s) else ls_loop w dev fd buf (k + 2) s))"

definition ls_main :: "'a world \<Rightarrow> device \<Rightarrow> u32 \<Rightarrow> 'a sys_state_scheme \<Rightarrow> (int \<times> 'a sys_state_scheme) option" where
  "ls_main w dev buf s =
     Option.bind (sys_open dev (wr (\<lambda>_. 0) 4 (str ''.'')) 4 s) (\<lambda>(fd, s).
       if fd = -1 then map_option (Pair 2) (say (fst (w 0)) dev ''directory open failed\<newline>'' s)
       else ls_loop w dev fd buf 1 s)"

definition hello_main :: "'a world \<Rightarrow> device \<Rightarrow> u32 \<Rightarrow> 'a sys_state_scheme \<Rightarrow> (int \<times> 'a sys_state_scheme) option" where
  "hello_main w dev buf s =
     Option.bind (say (fst (w 0)) dev ''Hi, what's your name? '' s) (\<lambda>s.
     Option.bind (sys_read (fst (w 1)) (snd (w 1)) 0 buf 1023 s) (\<lambda>(cnt, s).
       if cnt = -1 then map_option (Pair 3) (say (fst (w 2)) dev ''Can't read name from keyboard.\<newline>'' s)
       else
         let s = s\<lparr>ram := (ram s)(buf + of_int cnt := 0)\<rparr>
         in Option.bind (say (fst (w 2)) dev ''Hello, '' s) (\<lambda>s.
            map_option (Pair 0) (ece391_fdputs (fst (w 3)) ram dev 1 buf s))))"

definition testprint_main :: "'a world \<Rightarrow> device \<Rightarrow> 'a sys_state_scheme \<Rightarrow> (int \<times> 'a sys_state_scheme) option" where
  "testprint_main w dev s =
     map_option (Pair 0) (say (fst (w 0)) dev ''Hello, if this ran, the program was correct. Yay!\<newline>'' s)"

text \<open>\<open>counter\<close>: the count \<open>i\<close> and its limit \<open>max\<close>, here \<open>limit\<close>, are unsigned.\<close>

partial_function (option) counter_loop :: "'a world \<Rightarrow> device \<Rightarrow> u32 \<Rightarrow> nat \<Rightarrow> u32 \<Rightarrow> u32 \<Rightarrow> 'a sys_state_scheme
    \<Rightarrow> (int \<times> 'a sys_state_scheme) option" where
  "counter_loop w dev buf k limit i s =
     (if i < limit then
        Option.bind (ece391_itoa (ram s) (i + 1) buf 10) (\<lambda>m.
        Option.bind (ece391_fdputs (fst (w k)) ram dev 1 buf (s\<lparr>ram := m\<rparr>)) (\<lambda>s.
        Option.bind (say (fst (w (k + 1))) dev ''\<newline>'' s) (\<lambda>s.
        counter_loop w dev buf (k + 2) limit (i + 1) s)))
      else Some (0, s))"

definition counter_max :: "u8 \<Rightarrow> u32" where
  "counter_max c = (if c = 0x30 then 100 else if c = 0x31 then 10000 else if c = 0x32 then 100000 else 0)"

definition counter_choice :: "'a world \<Rightarrow> device \<Rightarrow> u32 \<Rightarrow> 'a sys_state_scheme \<Rightarrow> (int \<times> 'a sys_state_scheme) option" where
  "counter_choice w dev buf s =
     Option.bind (ece391_strlen (ram s) buf) (\<lambda>n.
       if n > 1 \<or> (n = 1 \<and> (ram s buf < 0x30 \<or> ram s buf > 0x32))
       then map_option (Pair 0) (say (fst (w 2)) dev ''Wrong Choice!\<newline>'' s)
       else counter_loop w dev buf 2 (counter_max (ram s buf)) 0 s)"

definition counter_main :: "'a world \<Rightarrow> device \<Rightarrow> u32 \<Rightarrow> 'a sys_state_scheme \<Rightarrow> (int \<times> 'a sys_state_scheme) option" where
  "counter_main w dev buf s =
     Option.bind (say (fst (w 0)) dev ''Enter the Test Number: (0): 100, (1): 10000, (2): 100000\<newline>'' s) (\<lambda>s.
     Option.bind (sys_read (fst (w 1)) (snd (w 1)) 0 buf 1023 s) (\<lambda>(cnt, s).
       if cnt = -1 then map_option (Pair 3) (say (fst (w 2)) dev ''Can't read the number from keyboard.\<newline>'' s)
       else counter_choice w dev buf (s\<lparr>ram := (ram s)(buf + of_int cnt := 0)\<rparr>)))"

section \<open>Printing\<close>

lemma write_count: "fst (fold (write_char src buf) ks (i, s)) \<in> {i, 25}"
proof (induction ks arbitrary: i s)
  case (Cons k ks)
  obtain j t where j: "write_char src buf k (i, s) = (j, t)" "j = i \<or> j = 25"
    by (cases "write_char src buf k (i, s)") (auto simp: write_char_def Let_def HEIGHT_def split: if_splits prod.splits)
  show ?case using Cons.IH [of j t] j by auto
qed simp

text \<open>States in which descriptor 1 prints: the terminal is open there and can write.\<close>

definition can_print :: "'a term_state_scheme \<Rightarrow> bool" where
  "can_print s \<longleftrightarrow> term_ok s \<and> flags (file_struct (pcblock s) ! 1) \<noteq> 0
     \<and> fops_ptr (file_struct (pcblock s) ! 1) = terminal_fops"

text \<open>What printing does not change; it leaves interrupts on.\<close>

definition printed :: "'a term_state_scheme \<Rightarrow> 'a term_state_scheme \<Rightarrow> bool" where
  "printed s t \<longleftrightarrow> int_on t \<and> lib_state.more t = lib_state.more s \<and> cr3 t = cr3 s \<and> (\<forall>a. a \<notin> video_region \<longrightarrow> ram t a = ram s a)"

lemma printed_trans [trans]: "printed s t \<Longrightarrow> printed t u \<Longrightarrow> printed s u"
  by (simp add: printed_def)

lemma printed_fields:
  assumes "printed s t"
  shows "pcblock t = pcblock s" "filesystem t = filesystem s" "BOOT_BLOCK_PTR t = BOOT_BLOCK_PTR s"
    "text_buf t = text_buf s" "entered t = entered s" "fd_val t = fd_val s"
  using assms by (cases s; cases t; simp add: printed_def)+

lemma printed_rd: "printed s t \<Longrightarrow> apart a n VIDEO 4000 \<Longrightarrow> rd (ram t) a n = rd (ram s) a n"
  by (rule rd_cong, rule steadyD [OF steady_ram]) (simp_all add: printed_def)

lemma write_prints:
  assumes "can_print s" "junk \<noteq> -2" "buf \<noteq> 0" "0 \<le> len" "steady src buf (nat len) s"
  shows "\<exists>r t. sys_write junk src dev 1 buf len s = Some (r, t) \<and> r \<noteq> -1 \<and> printed s t \<and> can_print t
    \<and> display_of t = fold emit (rd (src s) buf (nat len)) (display_of s)"
proof -
  have ok: "term_ok s" "flags (file_struct (pcblock s) ! 1) \<noteq> 0" "fops_ptr (file_struct (pcblock s) ! 1) = terminal_fops"
    using assms(1) by (simp_all add: can_print_def)
  obtain r t where t: "write_helper junk src buf len s = (r, t)" "console_step (sti s) t" "term_ok t"
      "display_of t = fold emit (rd (src s) buf (nat len)) (display_of s)"
    using write_helper_refines [OF ok(1) assms(3,5,4)] by metis
  have "r = 26 \<or> r = junk + 1"
    using t(1) assms(3,4) write_count [of src buf "[0..<nat len]" junk "cli s"]
    by (auto simp: write_helper_def Let_def split: prod.splits)
  moreover have "printed s t" using t(2) by (simp add: console_step_def sti_def printed_def)
  moreover have "can_print t" using ok(2,3) t(3) printed_fields(1) [OF calculation(2)] by (simp add: can_print_def)
  moreover have "sys_write junk src dev 1 buf len s = Some (r, t)"
    using ok(2,3) t(1) assms(3,4) by (simp add: sys_write_def fops_write_def terminal_write_def FD_MAX_def)
  ultimately show ?thesis using assms(2) t(4) by auto
qed

lemma fdputs_prints:
  assumes "can_print s" "junk \<noteq> -2" "a \<noteq> 0" "cstring (src s) a xs" "steady src a (length xs) s"
  shows "\<exists>t. ece391_fdputs junk src dev 1 a s = Some t \<and> printed s t \<and> can_print t
    \<and> display_of t = fold emit xs (display_of s)"
proof -
  have n: "sint (of_nat (length xs) :: u32) = int (length xs)"
    using cstringD(4) [OF assms(4)] by (simp add: sint_u32 unat_of_nat_u32)
  obtain r t where "sys_write junk src dev 1 a (int (length xs)) s = Some (r, t)" "printed s t" "can_print t"
      "display_of t = fold emit (rd (src s) a (length xs)) (display_of s)"
    using write_prints [OF assms(1-3), of "int (length xs)" src dev] assms(5) by auto
  then show ?thesis
    using ulib.len_string [OF assms(4)] cstringD(1) [OF assms(4)] n by (simp add: ece391_fdputs_def)
qed

lemma literal_string:
  assumes "0 \<notin> set (str msg)" "length msg < 2 ^ 31"
  shows "cstring (wr (\<lambda>_. 0) 4 (str msg)) 4 (str msg)"
proof -
  have "wr (\<lambda>_. 0) 4 (str msg) = wr (\<lambda>_. 0) 4 (str msg @ [0])"
    by (rule ext) (auto simp: wr_def nth_append Let_def)
  then show ?thesis using cstring_wr [of "str msg" "\<lambda>_. 0" 4] assms by (simp add: str_def)
qed

lemma say_prints:
  assumes "can_print s" "junk \<noteq> -2" "0 \<notin> set (str msg)" "length msg < 2 ^ 31"
  shows "\<exists>t. say junk dev msg s = Some t \<and> printed s t \<and> can_print t
    \<and> display_of t = fold emit (str msg) (display_of s)"
proof -
  have "cstring (wr (\<lambda>_. 0) 4 (str msg)) 4 (str msg)" using assms(3,4) by (rule literal_string)
  then show ?thesis using assms(1,2) by (intro fdputs_prints) (simp_all add: steady_const)
qed

section \<open>Loops that print\<close>

text \<open>
  The contract of a loop that prints what is left to print piece by piece: with nothing left it
  ends with 0, otherwise it goes on after some of the pieces are printed.
\<close>

locale print_loop =
  fixes loop :: "nat \<Rightarrow> 's \<Rightarrow> (int \<times> 's) option"
    and ready :: "nat \<Rightarrow> 's \<Rightarrow> bool"
    and todo :: "nat \<Rightarrow> 's \<Rightarrow> 'p list"
    and show_piece :: "'p \<Rightarrow> 'd \<Rightarrow> 'd"
    and shown :: "'s \<Rightarrow> 'd"
  assumes ends: "ready k s \<Longrightarrow> todo k s = [] \<Longrightarrow> \<exists>t. loop k s = Some (0, t) \<and> shown t = shown s"
    and continues: "ready k s \<Longrightarrow> todo k s \<noteq> [] \<Longrightarrow>
      \<exists>k' t ps. loop k s = loop k' t \<and> ready k' t \<and> ps \<noteq> [] \<and> todo k s = ps @ todo k' t
        \<and> shown t = fold show_piece ps (shown s)"
begin

lemma prints_all: "ready k s \<Longrightarrow> \<exists>t. loop k s = Some (0, t) \<and> shown t = fold show_piece (todo k s) (shown s)"
proof (induction "length (todo k s)" arbitrary: k s rule: less_induct)
  case less
  show ?case
  proof (cases "todo k s = []")
    case True
    then show ?thesis using ends [OF less.prems] by simp
  next
    case False
    then obtain k' t ps where t: "loop k s = loop k' t" "ready k' t" "ps \<noteq> []" "todo k s = ps @ todo k' t"
        "shown t = fold show_piece ps (shown s)"
      using continues [OF less.prems] by blast
    then have "length (todo k' t) < length (todo k s)" by simp
    from less.hyps [OF this t(2)] show ?thesis using t by simp
  qed
qed

end

section \<open>\<open>cat\<close>\<close>

lemma display_cong:
  assumes "screen_x t = screen_x s" "screen_y t = screen_y s" "rd (ram t) VIDEO 4000 = rd (ram s) VIDEO 4000"
  shows "display_of t = display_of s" "term_ok t = term_ok s"
proof -
  have "get_char x y t = get_char x y s" if "on_screen x y" for x y
  proof -
    have "nat (2 * (80 * y + x)) < 4000" using that by auto
    then have "rd (ram t) VIDEO 4000 ! nat (2 * (80 * y + x)) = ram t (VIDEO + of_nat (nat (2 * (80 * y + x))))"
      "rd (ram s) VIDEO 4000 ! nat (2 * (80 * y + x)) = ram s (VIDEO + of_nat (nat (2 * (80 * y + x))))"
      by (simp_all only: rd_nth)
    moreover have "cell x y = VIDEO + of_nat (nat (2 * (80 * y + x)))"
      using that by (simp add: cell_def NUM_COLS_def algebra_simps)
    ultimately show ?thesis using assms(3) by (simp add: get_char_def)
  qed
  then show "display_of t = display_of s" "term_ok t = term_ok s"
    using assms(1,2) by (auto simp: display_of_def term_ok_def plain_cells_def saved_text_def term_consts)
qed

text \<open>Memory that is the same outside a buffer.\<close>

lemma same_outside:
  assumes "\<And>a. a \<notin> region buf n \<Longrightarrow> m' a = m a"
  shows "apart buf n VIDEO 4000 \<Longrightarrow> rd m' VIDEO 4000 = rd m VIDEO 4000"
    "apart buf n (BOOT_BLOCK_PTR s) (image_len s) \<Longrightarrow> m = ram s \<Longrightarrow> same_image s m'"
proof -
  assume ap: "apart buf n VIDEO 4000"
  show "rd m' VIDEO 4000 = rd m VIDEO 4000"
  proof (rule rd_cong)
    fix i :: nat assume "i < 4000"
    then have "VIDEO + of_nat i \<notin> region buf n" using apart_region [OF ap] in_region [of i 4000 VIDEO] by auto
    then show "m' (VIDEO + of_nat i) = m (VIDEO + of_nat i)" by (rule assms)
  qed
next
  assume "apart buf n (BOOT_BLOCK_PTR s) (image_len s)" "m = ram s"
  then show "same_image s m'" using apart_region assms unfolding same_image_def by (metis disjoint_iff)
qed

text \<open>Reading an open data file changes the buffer and the position.\<close>

lemma read_file_step:
  assumes "open_at s fd inode off" "fd < 8" "file_ok s inode" "inode < num_inodes (filesystem s) - 1"
    "off \<le> file_size s inode" "0 < n" "n \<le> 4096" "buf \<noteq> 0" "apart buf n (BOOT_BLOCK_PTR s) (image_len s)"
    "flags (file_struct (pcblock s) ! fd) \<noteq> 0" "fops_ptr (file_struct (pcblock s) ! fd) = filesystem_fops"
    and k: "k = available s inode off n"
  shows "\<exists>t. sys_read junk irqs (int fd) buf (int n) s = Some (int k, t)
    \<and> ram t = wr (ram s) buf (file_bytes s inode off k @ replicate (n - k) 0)
    \<and> file_struct (pcblock t) = (file_struct (pcblock s))[fd := (file_struct (pcblock s) ! fd)\<lparr>fpos := of_nat (off + k)\<rparr>]
    \<and> dentries (pcblock t) = dentries (pcblock s) \<and> filesystem t = filesystem s \<and> BOOT_BLOCK_PTR t = BOOT_BLOCK_PTR s
    \<and> screen_x t = screen_x s \<and> screen_y t = screen_y s \<and> fd_index t = fd_index s"
proof -
  let ?s = "s\<lparr>fd_val := fd\<rparr>"
  note sf = same_files [OF assms(3), of ?s, simplified]
  have av: "available ?s inode off n = k" by (simp add: available_def sf k)
  have run: "sys_read junk irqs (int fd) buf (int n) s = Some (read_data inode (of_nat off) buf (of_nat n) ?s)"
    using assms(1,2,8,10,11) by (simp add: sys_read_def fops_read_def FD_MAX_def filesystem_read_def open_at_def)
  show ?thesis
  proof (cases "off < file_size s inode")
    case True
    have "off mod 4096 + k < 8192"
      using assms(7) mod_less_divisor [of 4096 off] by (simp add: k available_def)
    with read_data_correct [of ?s inode off n buf] True assms(4,6-9) sf
    have "read_data inode (of_nat off) buf (of_nat n) ?s = (int k, upd_file fd (\<lambda>f. f\<lparr>fpos := of_nat (off + k)\<rparr>)
          (?s\<lparr>ram := wr (ram s) buf (file_bytes s inode off k @ replicate (n - k) 0)\<rparr>))"
      by (simp add: av k available_def)
    then show ?thesis unfolding run by (simp add: upd_file_def)
  next
    case False
    then have off: "off = file_size s inode" "k = 0" using assms(5) by (simp_all add: k available_def)
    have "unat (of_nat off :: u32) = off" using assms(5) size_le [OF assms(3)] by simp
    with read_data_none [of ?s inode "of_nat n" buf "of_nat off"] sf assms(7,9) off
    have "read_data inode (of_nat off) buf (of_nat n) ?s = (0, ?s\<lparr>ram := wr (ram s) buf (replicate n 0)\<rparr>)"
      by simp
    moreover have "(file_struct (pcblock s) ! fd)\<lparr>fpos := of_nat off\<rparr> = file_struct (pcblock s) ! fd"
      using assms(1) by (simp add: open_at_def)
    ultimately show ?thesis unfolding run using off by simp
  qed
qed

definition unread :: "nat \<Rightarrow> u32 \<Rightarrow> 'a fs_state_scheme \<Rightarrow> u8 list" where
  "unread fd inode s =
     (let off = unat (fpos (file_struct (pcblock s) ! fd)) in file_bytes s inode off (file_size s inode - off))"

lemma unread_at:
  assumes "open_at s fd inode off" "off \<le> file_size s inode" "file_ok s inode"
  shows "unread fd inode s = file_bytes s inode off (file_size s inode - off)"
proof -
  have "unat (of_nat off :: u32) = off" using assms(2) size_le [OF assms(3)] by simp
  then show ?thesis using assms(1) by (simp add: unread_def open_at_def)
qed

text \<open>A program that can print and has the data file \<open>inode\<close> open under \<open>fd\<close>, at any position.\<close>

definition reading :: "nat \<Rightarrow> u32 \<Rightarrow> 'a term_state_scheme \<Rightarrow> bool" where
  "reading fd inode s \<longleftrightarrow> can_print s \<and> 2 \<le> fd \<and> fd < 8
     \<and> (\<exists>off \<le> file_size s inode. open_at s fd inode off)
     \<and> file_ok s inode \<and> inode < num_inodes (filesystem s) - 1
     \<and> flags (file_struct (pcblock s) ! fd) \<noteq> 0 \<and> fops_ptr (file_struct (pcblock s) ! fd) = filesystem_fops
     \<and> apart VIDEO 4000 (BOOT_BLOCK_PTR s) (image_len s)"

lemma readingD:
  assumes "reading fd inode s"
  shows "can_print s" "2 \<le> fd" "fd < 8" "file_ok s inode"
    "inode < num_inodes (filesystem s) - 1" "flags (file_struct (pcblock s) ! fd) \<noteq> 0"
    "fops_ptr (file_struct (pcblock s) ! fd) = filesystem_fops" "apart VIDEO 4000 (BOOT_BLOCK_PTR s) (image_len s)"
  using assms by (simp_all add: reading_def)

text \<open>A state that has the same image and descriptors is at the same position.\<close>

lemma reading_same:
  assumes "reading fd inode s" "can_print t" "same_image s (ram t)" "pcblock t = pcblock s" "filesystem t = filesystem s"
    "BOOT_BLOCK_PTR t = BOOT_BLOCK_PTR s"
  shows "reading fd inode t" "unread fd inode t = unread fd inode s"
proof -
  note h = readingD [OF assms(1)]
  obtain off where off: "off \<le> file_size s inode" "open_at s fd inode off" using assms(1) by (auto simp: reading_def)
  note sf = same_files [OF h(4) assms(3,5,6)]
  have at: "open_at t fd inode off" using off(2) by (simp add: open_at_def assms(4))
  then show "reading fd inode t" unfolding reading_def using h assms(2) off(1) sf by (auto simp: assms(4-6))
  show "unread fd inode t = unread fd inode s"
    using unread_at [OF off(2,1) h(4)] unread_at [OF at _ sf(2)] off(1) sf(1,4) by simp
qed

text \<open>A read puts the next bytes into the buffer, none only at the end, and fills the rest with zeros.\<close>

lemma reads_piece:
  assumes "reading fd inode s" "a \<noteq> 0" "0 < n" "n \<le> 4096" "apart a n (BOOT_BLOCK_PTR s) (image_len s)" "apart a n VIDEO 4000"
  obtains c u where "sys_read junk irqs (int fd) a (int n) s = Some (int (length c), u)" "length c \<le> n"
    "ram u = wr (ram s) a (c @ replicate (n - length c) 0)" "reading fd inode u" "unread fd inode s = c @ unread fd inode u"
    "c = [] \<longleftrightarrow> unread fd inode s = []" "length c < n \<Longrightarrow> unread fd inode u = []" "display_of u = display_of s"
    "filesystem u = filesystem s" "BOOT_BLOCK_PTR u = BOOT_BLOCK_PTR s"
    "flags (file_struct (pcblock u) ! fd) = flags (file_struct (pcblock s) ! fd)"
proof -
  note h = readingD [OF assms(1)]
  obtain off where off: "off \<le> file_size s inode" "open_at s fd inode off" using assms(1) by (auto simp: reading_def)
  define k where "k = available s inode off n"
  let ?c = "file_bytes s inode off k"
  let ?bs = "?c @ replicate (n - k) 0"
  have k: "k \<le> n" "off + k \<le> file_size s inode" "k = 0 \<longleftrightarrow> off = file_size s inode" "k < n \<Longrightarrow> off + k = file_size s inode"
    using off(1) assms(3) by (auto simp: k_def available_def)
  obtain u where u: "sys_read junk irqs (int fd) a (int n) s = Some (int k, u)" "ram u = wr (ram s) a ?bs"
      "file_struct (pcblock u) = (file_struct (pcblock s))[fd := (file_struct (pcblock s) ! fd)\<lparr>fpos := of_nat (off + k)\<rparr>]"
      "dentries (pcblock u) = dentries (pcblock s)" "filesystem u = filesystem s" "BOOT_BLOCK_PTR u = BOOT_BLOCK_PTR s"
      "screen_x u = screen_x s" "screen_y u = screen_y s"
    using read_file_step [OF off(2) h(3-5) off(1) assms(3,4,2,5) h(6,7) k_def, of junk irqs] by auto
  have len: "length ?bs = n" using k(1) by simp
  have "rd (ram u) VIDEO 4000 = rd (ram s) VIDEO 4000"
    using assms(6) len unfolding u(2) by (simp add: rd_wr_apart apart_sym)
  note disp = display_cong [OF u(7,8) this]
  have "same_image s (ram u)" unfolding u(2) using assms(5) len by (intro same_image_wr) simp_all
  note sf = same_files [OF h(4) this u(5,6)]
  have lfd: "fd < length (file_struct (pcblock s))" using off(2) by (simp add: open_at_def)
  have at: "open_at u fd inode (off + k)" using off(2) lfd by (simp add: open_at_def u(3,4))
  have "can_print u" using h(1,2) disp(2) by (simp add: can_print_def u(3))
  then have ready: "reading fd inode u"
    unfolding reading_def using h k(2) at sf lfd by (auto simp: u(3,5,6))
  have rest: "unread fd inode u = file_bytes s inode (off + k) (file_size s inode - (off + k))"
    using unread_at [OF at _ sf(2)] k(2) sf(1,4) by simp
  have s: "unread fd inode s = file_bytes s inode off (file_size s inode - off)" using unread_at [OF off(2,1) h(4)] .
  show thesis
  proof (rule that [of ?c u])
    show "unread fd inode s = ?c @ unread fd inode u"
      using k(2) file_bytes_add [of s inode off k "file_size s inode - (off + k)"] unfolding s rest by simp
    show "?c = [] \<longleftrightarrow> unread fd inode s = []"
      using k(3) off(1) unfolding s by (auto simp: file_bytes_def)
    show "unread fd inode u = []" if "length ?c < n" using k(4) that unfolding rest by simp
    show "flags (file_struct (pcblock u) ! fd) = flags (file_struct (pcblock s) ! fd)" using lfd by (simp add: u(3))
  qed (use u k(1) ready disp(1) in simp_all)
qed

text \<open>The loop of \<open>cat\<close> at some position of an open data file.\<close>

definition cat_ready :: "'a world \<Rightarrow> nat \<Rightarrow> u32 \<Rightarrow> u32 \<Rightarrow> 'a sys_state_scheme \<Rightarrow> bool" where
  "cat_ready w fd inode buf s \<longleftrightarrow> (\<forall>k. fst (w k) \<noteq> -2) \<and> reading fd inode s
     \<and> buf \<noteq> 0 \<and> apart buf 1024 (BOOT_BLOCK_PTR s) (image_len s) \<and> apart buf 1024 VIDEO 4000"

lemma printed_image: "printed s t \<Longrightarrow> apart VIDEO 4000 (BOOT_BLOCK_PTR s) (image_len s) \<Longrightarrow> same_image s (ram t)"
  using apart_region [of VIDEO 4000 "BOOT_BLOCK_PTR s" "image_len s"]
  by (auto simp: same_image_def printed_def disjoint_iff)

lemma cat_reads:
  assumes "cat_ready w fd inode buf s"
  obtains n u where "sys_read (fst (w k)) (snd (w k)) (int fd) buf 1024 s = Some (int n, u)" "n \<le> 1024"
    "cat_ready w fd inode buf u" "unread fd inode s = rd (ram u) buf n @ unread fd inode u"
    "n = 0 \<longleftrightarrow> unread fd inode s = []" "display_of u = display_of s"
proof -
  have h: "reading fd inode s" "buf \<noteq> 0" "apart buf 1024 (BOOT_BLOCK_PTR s) (image_len s)" "apart buf 1024 VIDEO 4000"
    using assms by (simp_all add: cat_ready_def)
  show thesis
  proof (rule reads_piece [OF h(1,2) _ _ h(3,4), of "fst (w k)" "snd (w k)"])
    fix c u assume u: "sys_read (fst (w k)) (snd (w k)) (int fd) buf (int 1024) s = Some (int (length c), u)" "length c \<le> 1024"
      "ram u = wr (ram s) buf (c @ replicate (1024 - length c) 0)" "reading fd inode u" "unread fd inode s = c @ unread fd inode u"
      "c = [] \<longleftrightarrow> unread fd inode s = []" "display_of u = display_of s" "filesystem u = filesystem s"
      "BOOT_BLOCK_PTR u = BOOT_BLOCK_PTR s"
    have c: "rd (ram u) buf (length c) = c"
      unfolding u(3) using u(2) rd_wr_prefix [of c "replicate (1024 - length c) 0"] by simp
    have "cat_ready w fd inode buf u" using assms u(4,8,9) by (simp add: cat_ready_def image_len_def)
    moreover have "length c = 0 \<longleftrightarrow> unread fd inode s = []" by (simp only: length_0_conv u(6))
    ultimately show thesis using that [OF _ u(2) _ _ _ u(7)] u(1,5) unfolding c by simp
  qed simp_all
qed

lemma cat_prints:
  assumes "cat_ready w fd inode buf s" "n \<le> 1024"
  obtains r t where "sys_write (fst (w k)) ram dev 1 buf (int n) s = Some (r, t)" "r \<noteq> -1"
    "cat_ready w fd inode buf t" "unread fd inode t = unread fd inode s"
    "display_of t = fold emit (rd (ram s) buf n) (display_of s)"
proof -
  have h: "reading fd inode s" "buf \<noteq> 0" "apart buf 1024 VIDEO 4000" "fst (w k) \<noteq> -2"
    using assms(1) by (simp_all add: cat_ready_def)
  have "steady ram buf n s"
    using apart_sub [OF h(3), of 0 n 0 4000] assms(2) by (intro steady_ram) simp
  then obtain r t where t: "sys_write (fst (w k)) ram dev 1 buf (int n) s = Some (r, t)" "r \<noteq> -1"
      "printed s t" "can_print t" "display_of t = fold emit (rd (ram s) buf n) (display_of s)"
    using write_prints [OF readingD(1) [OF h(1)] h(4,2), of "int n" ram dev] by auto
  note pf = printed_fields [OF t(3)]
  note same = reading_same [OF h(1) t(4) printed_image [OF t(3) readingD(8) [OF h(1)]] pf(1-3)]
  have "cat_ready w fd inode buf t" using assms(1) same(1) by (simp add: cat_ready_def pf(2,3) image_len_def)
  then show thesis using that t same(2) by blast
qed

lemma cat_step:
  assumes "cat_ready w fd inode buf s"
  shows "\<exists>t. (unread fd inode s = [] \<longrightarrow> cat_loop w dev (int fd) buf k s = Some (0, t) \<and> display_of t = display_of s)
    \<and> (unread fd inode s \<noteq> [] \<longrightarrow> cat_loop w dev (int fd) buf k s = cat_loop w dev (int fd) buf (k + 2) t
       \<and> cat_ready w fd inode buf t
       \<and> (\<exists>ps. ps \<noteq> [] \<and> unread fd inode s = ps @ unread fd inode t \<and> display_of t = fold emit ps (display_of s)))"
proof -
  obtain n u where u: "sys_read (fst (w k)) (snd (w k)) (int fd) buf 1024 s = Some (int n, u)" "n \<le> 1024"
      "cat_ready w fd inode buf u" "unread fd inode s = rd (ram u) buf n @ unread fd inode u"
      "n = 0 \<longleftrightarrow> unread fd inode s = []" "display_of u = display_of s"
    using cat_reads [OF assms] by blast
  obtain r t where t: "sys_write (fst (w (k + 1))) ram dev 1 buf (int n) u = Some (r, t)" "r \<noteq> -1"
      "cat_ready w fd inode buf t" "unread fd inode t = unread fd inode u"
      "display_of t = fold emit (rd (ram u) buf n) (display_of u)"
    using cat_prints [OF u(3,2)] by blast
  show ?thesis
  proof (cases "n = 0")
    case True
    then show ?thesis using u by (subst cat_loop.simps) auto
  next
    case False
    then have "cat_loop w dev (int fd) buf k s = cat_loop w dev (int fd) buf (k + 2) t"
      using u(1) t(1,2) by (subst cat_loop.simps) simp
    moreover have "rd (ram u) buf n \<noteq> []" using False by (metis length_rd length_0_conv)
    ultimately show ?thesis using False u t(3-5) by metis
  qed
qed

interpretation cat: print_loop "\<lambda>k. cat_loop w dev (int fd) buf k" "\<lambda>_. cat_ready w fd inode buf" "\<lambda>_. unread fd inode"
    emit display_of for w dev fd buf inode
proof
  show "\<exists>t. cat_loop w dev (int fd) buf k s = Some (0, t) \<and> display_of t = display_of s"
    if "cat_ready w fd inode buf s" "unread fd inode s = []" for k s
    using cat_step [OF that(1), of dev k] that(2) by blast
  show "\<exists>k' t ps. cat_loop w dev (int fd) buf k s = cat_loop w dev (int fd) buf k' t \<and> cat_ready w fd inode buf t
      \<and> ps \<noteq> [] \<and> unread fd inode s = ps @ unread fd inode t \<and> display_of t = fold emit ps (display_of s)"
    if "cat_ready w fd inode buf s" "unread fd inode s \<noteq> []" for k s
    using cat_step [OF that(1), of dev k] that(2) by blast
qed

section \<open>Opening a file by its name\<close>

text \<open>The directory is in the first block of the image.\<close>

definition directory_ok :: "'a fs_state_scheme \<Rightarrow> bool" where
  "directory_ok s \<longleftrightarrow> dentry_begin (filesystem s) = BOOT_BLOCK_PTR s + 64 \<and> image_len s \<le> 2 ^ 32"

text \<open>The entry of a name: the first one that has it.\<close>

definition entry_of :: "'a fs_state_scheme \<Rightarrow> u8 list \<Rightarrow> nat \<Rightarrow> bool" where
  "entry_of s name i \<longleftrightarrow> directory_ok s \<and> i < 62 \<and> entry_name s i = take 32 name \<and> (\<forall>j<i. entry_name s j \<noteq> take 32 name)"

definition entry_type :: "'a fs_state_scheme \<Rightarrow> nat \<Rightarrow> u32" where
  "entry_type s i = ld32 (ram s) (entry_at s i + 32)"

definition entry_inode :: "'a fs_state_scheme \<Rightarrow> nat \<Rightarrow> u32" where
  "entry_inode s i = ld32 (ram s) (entry_at s i + 36)"

lemma entry_byte:
  assumes "directory_ok s" "i < 63" "j < 64" "same_image s m"
  shows "m (entry_at s i + of_nat j) = ram s (entry_at s i + of_nat j)"
proof -
  have "entry_at s i + of_nat j = BOOT_BLOCK_PTR s + of_nat (64 + i * 64 + j)"
    using assms(1) by (simp add: directory_ok_def entry_at_def)
  moreover have "BOOT_BLOCK_PTR s + of_nat (64 + i * 64 + j) \<in> region (BOOT_BLOCK_PTR s) (image_len s)"
    using assms(1-3) by (intro in_region) (simp_all add: directory_ok_def image_len_def)
  ultimately show ?thesis using assms(4) unfolding same_image_def by metis
qed

lemma same_entries:
  assumes "directory_ok s" "same_image s (ram t)" "filesystem t = filesystem s" "BOOT_BLOCK_PTR t = BOOT_BLOCK_PTR s"
  shows "directory_ok t" "entry_at t i = entry_at s i"
    "i < 63 \<Longrightarrow> entry_name t i = entry_name s i" "i < 63 \<Longrightarrow> entry_type t i = entry_type s i"
    "i < 63 \<Longrightarrow> entry_inode t i = entry_inode s i"
proof -
  show "directory_ok t" using assms(1,3,4) by (simp add: directory_ok_def image_len_def)
  show at: "entry_at t i = entry_at s i" by (simp add: entry_at_def assms(3))
  assume i: "i < 63"
  note b = entry_byte [OF assms(1) i _ assms(2)]
  have "rd (ram t) (entry_at s i) 32 = rd (ram s) (entry_at s i) 32" by (rule rd_cong) (simp add: b)
  then show "entry_name t i = entry_name s i" by (simp add: entry_name_def at cbytes_def)
  show "entry_type t i = entry_type s i" "entry_inode t i = entry_inode s i"
    using b [of 32] b [of 33] b [of 34] b [of 35] b [of 36] b [of 37] b [of 38] b [of 39]
    by (simp_all add: entry_type_def entry_inode_def at ld32_def add.assoc)
qed

lemma keep_screen [simp]:
  "screen_x (upd_file i f s) = screen_x s" "screen_y (upd_file i f s) = screen_y s"
  "screen_x (upd_dentry i g s) = screen_x s" "screen_y (upd_dentry i g s) = screen_y s"
  "screen_x (snd (filesystem_open fm a s)) = screen_x s" "screen_y (snd (filesystem_open fm a s)) = screen_y s"
  "screen_x (save_pcb p u) = screen_x u" "screen_y (save_pcb p u) = screen_y u"
  by (simp_all add: upd_file_def upd_dentry_def filesystem_open_def save_pcb_def split_beta)

lemma rtc_open_screen [simp]:
  "screen_x (snd (rtc_open dev a s)) = screen_x s" "screen_y (snd (rtc_open dev a s)) = screen_y s"
  for s :: "'a term_state_scheme"
  by (simp_all add: rtc_open_def rtc_init_run Let_def)

lemma sys_open_screen:
  assumes "sys_open dev fm f s = Some (r, t)"
  shows "screen_x t = screen_x s" "screen_y t = screen_y s"
proof -
  have o: "screen_x v = screen_x u \<and> screen_y v = screen_y u" if "open_entry dev fm f p i u = (r, v)" for p i u v
    using that by (auto simp: open_entry_def Let_def split_beta split: if_splits)
  have "screen_x t = screen_x s \<and> screen_y t = screen_y s"
    using assms by (auto simp: sys_open_def Let_def split: if_splits option.splits dest!: o)
  then show "screen_x t = screen_x s" "screen_y t = screen_y s" by simp_all
qed

lemma sys_close_screen:
  "ram (snd (sys_close fd s)) = ram s" "screen_x (snd (sys_close fd s)) = screen_x s" "screen_y (snd (sys_close fd s)) = screen_y s"
  "filesystem (snd (sys_close fd s)) = filesystem s" "BOOT_BLOCK_PTR (snd (sys_close fd s)) = BOOT_BLOCK_PTR s"
  "fd_index (snd (sys_close fd s)) = fd_index s"
  by (simp_all add: sys_close_def Let_def rtc_close_def filesystem_close_def null_fops_def upd_file_def upd_dentry_def)

text \<open>Opening a name that the directory has, from a program that can print.\<close>

lemma open_named:
  assumes "sys_ok s" "can_print s" "free_fd (pcblock s) = Some fd" "fd < 8" "a \<noteq> 0" "cstring fm a name" "name \<noteq> []"
    "entry_of s name i" "entry_type s i \<noteq> 0"
  obtains t where "sys_open dev fm a s = Some (int fd, t)" "can_print t" "display_of t = display_of s"
    "ram t = ram s" "filesystem t = filesystem s" "BOOT_BLOCK_PTR t = BOOT_BLOCK_PTR s" "2 \<le> fd"
    "length (file_struct (pcblock t)) = 8"
    "flags (file_struct (pcblock t) ! fd) = 1" "fpos (file_struct (pcblock t) ! fd) = 0"
    "fops_ptr (file_struct (pcblock t) ! fd) = filesystem_fops"
    "file_type (dentries (pcblock t) ! fd) = entry_type s i" "inode_number (dentries (pcblock t) ! fd) = entry_inode s i"
proof -
  have e: "i < 62" "entry_name s i = cbytes fm a 32" "\<forall>j<i. entry_name s j \<noteq> cbytes fm a 32"
    using assms(6,8) by (simp_all add: entry_of_def cbytes_cstring)
  have a: "fm a \<noteq> 0" using assms(6,7) by (cases name) (auto simp: cstring_Cons)
  let ?e = "load_dentry (ram s) (entry_at s i) empty_dentry"
  have ty: "file_type ?e = entry_type s i" "inode_number ?e = entry_inode s i"
    by (simp_all add: load_dentry_def entry_type_def entry_inode_def)
  then have ne: "file_type ?e \<noteq> 0" using assms(9) by simp
  obtain t where t: "sys_open dev fm a s = Some (int fd, t)"
      "file_struct (pcblock t) = (file_struct (pcblock s))
         [fd := (file_struct (pcblock s) ! fd)\<lparr>flags := 1, fpos := 0, fops_ptr := filesystem_fops\<rparr>]"
      "ram t = ram s" "filesystem t = filesystem s" "BOOT_BLOCK_PTR t = BOOT_BLOCK_PTR s"
      "dentries (pcblock t) ! fd = over_entry ?e (dentries (pcblock s) ! fd)"
    using sys_open_file [OF assms(1,5) a assms(3,4) lookup_found [OF e] ne] by metis
  have fd: "2 \<le> fd" using free_fd_first(1) [OF assms(3,4)] .
  have len: "length (file_struct (pcblock s)) = 8" using assms(1) by (simp add: sys_ok_def pcb_ok_def)
  note disp = display_cong [OF sys_open_screen [OF t(1)] arg_cong [OF t(3), of "\<lambda>m. rd m VIDEO 4000"]]
  have "can_print t" using assms(2) fd disp(2) by (simp add: can_print_def t(2))
  then show thesis using that t fd len disp(1) assms(4) ty by simp
qed

text \<open>A user's buffer: apart from the screen and the file system image, which are apart too.\<close>

definition user_buffer :: "u32 \<Rightarrow> nat \<Rightarrow> 'a fs_state_scheme \<Rightarrow> bool" where
  "user_buffer buf n s \<longleftrightarrow> buf \<noteq> 0 \<and> apart buf n (BOOT_BLOCK_PTR s) (image_len s) \<and> apart buf n VIDEO 4000
     \<and> apart VIDEO 4000 (BOOT_BLOCK_PTR s) (image_len s)"

text \<open>The argument that \<open>parse_cmd\<close> left in the control block.\<close>

definition has_arg :: "pcb_t \<Rightarrow> u8 list \<Rightarrow> bool" where
  "has_arg p arg \<longleftrightarrow> length arg \<le> 40 \<and> 0 \<notin> set arg \<and> take (length arg) (arg_name p) = arg
     \<and> data_arg_size p = of_nat (length arg)"

lemma getargs_run:
  assumes "has_arg (pcblock s) arg" "buf \<noteq> 0"
  shows "getargs buf 1024 s = Some (0, s\<lparr>ram := wr (ram s) buf (arg @ replicate (1024 - length arg) 0)\<rparr>)"
proof -
  have h: "length arg \<le> 40" "take (length arg) (arg_name (pcblock s)) = arg" "data_arg_size (pcblock s) = of_nat (length arg)"
    using assms(1) by (simp_all add: has_arg_def)
  have n: "unat (of_nat (length arg) :: u8) = length arg" using h(1) by (simp add: unat_of_nat)
  then have "uint (of_nat (length arg) :: u8) = int (length arg)" by (metis uint_nat)
  then have "uint (of_nat (length arg) :: u8) < 1024" using h(1) by simp
  moreover have "length arg \<le> length (arg_name (pcblock s))" using h(2) by (metis length_take min.cobounded1)
  moreover have "wr (wr (ram s) buf (replicate 1024 0)) buf arg = wr (ram s) buf (arg @ replicate (1024 - length arg) 0)"
    using h(1) by (auto simp: fun_eq_iff wr_def Let_def nth_append)
  ultimately show ?thesis using assms(2) h n by (simp add: getargs_def Let_def BUFF_MAX_def)
qed

lemma cstring_padded:
  assumes "0 \<notin> set xs" "length xs < n" "n \<le> 2 ^ 31"
  shows "cstring (wr m a (xs @ replicate (n - length xs) 0)) a xs"
proof -
  have "xs @ replicate (n - length xs) 0 = (xs @ [0]) @ replicate (n - length xs - 1) 0"
    using assms(2) by (cases "n - length xs") simp_all
  then have "rd (wr m a (xs @ replicate (n - length xs) 0)) a (length xs + 1) = xs @ [0]"
    using rd_wr_prefix [of "xs @ [0]" "replicate (n - length xs - 1) 0" m a] assms(2,3) by simp
  then show ?thesis using assms by (simp add: cstring_alt)
qed

section \<open>\<open>ls\<close>\<close>

text \<open>
  The entries that a directory read stops at, and what it gives for them from position \<open>p\<close> on: the
  string that starts at the entry. A name of 32 bytes has no NUL of its own, so that the low byte of
  the file type, which follows it, is read as its last character.
\<close>

definition listed :: "'a fs_state_scheme \<Rightarrow> nat \<Rightarrow> bool" where
  "listed s j \<longleftrightarrow> ram s (entry_at s j + 32) \<noteq> 0"

definition shown_name :: "'a fs_state_scheme \<Rightarrow> nat \<Rightarrow> u8 list" where
  "shown_name s j = entry_name s j @ (if length (entry_name s j) < 32 then [] else [ram s (entry_at s j + 32)])"

definition names_from :: "nat \<Rightarrow> 'a fs_state_scheme \<Rightarrow> u8 list list" where
  "names_from p s = map (shown_name s) (filter (listed s) [p..<unat (num_dir_entries (filesystem s))])"

text \<open>A directory of at most 62 entries, with the last one not a device, whose names are not empty
  and whose types are below 256, as far as that byte ends a name.\<close>

definition listing_ok :: "'a fs_state_scheme \<Rightarrow> bool" where
  "listing_ok s \<longleftrightarrow> directory_ok s \<and> unat (num_dir_entries (filesystem s)) \<le> 62
     \<and> (num_dir_entries (filesystem s) \<noteq> 0 \<longrightarrow> listed s (unat (num_dir_entries (filesystem s)) - 1))
     \<and> (\<forall>j < unat (num_dir_entries (filesystem s)). entry_name s j \<noteq> []
          \<and> (length (entry_name s j) = 32 \<longrightarrow> ram s (entry_at s j + 33) = 0))"

lemma filter_upt_Cons:
  "filter P [p..<n] = k # ks \<Longrightarrow> p \<le> k \<and> k < n \<and> P k \<and> (\<forall>j. p \<le> j \<and> j < k \<longrightarrow> \<not> P j) \<and> ks = filter P [k + 1..<n]"
proof (induction "n - p" arbitrary: p)
  case (Suc d)
  then have p: "[p..<n] = p # [Suc p..<n]" "p < n" by (simp_all add: upt_conv_Cons)
  show ?case
  proof (cases "P p")
    case False
    then have "filter P [Suc p..<n] = k # ks" using Suc.prems p by simp
    with Suc.hyps have "Suc p \<le> k \<and> k < n \<and> P k \<and> (\<forall>j. Suc p \<le> j \<and> j < k \<longrightarrow> \<not> P j) \<and> ks = filter P [k + 1..<n]"
      by (metis Suc_diff_Suc Suc_inject zero_less_Suc zero_less_diff)
    then show ?thesis using False by (metis Suc_leI Suc_leD le_neq_implies_less)
  qed (use Suc.prems p in auto)
qed simp

lemma cbytes_ends:
  assumes "length (cbytes m a n) < n" "n \<le> 2 ^ 31"
  shows "cstring m a (cbytes m a n)"
  using assms
proof (induction n arbitrary: a)
  case (Suc n)
  then have "m a \<noteq> 0 \<Longrightarrow> cstring m (a + 1) (cbytes m (a + 1) n)" by (simp add: cbytes_Suc)
  then show ?case using Suc.prems by (auto simp: cbytes_Suc cstring_Nil cstring_Cons)
qed simp

lemma shown_name_string:
  assumes "listed s j" "length (entry_name s j) = 32 \<longrightarrow> ram s (entry_at s j + 33) = 0"
  shows "cstring (ram s) (entry_at s j) (shown_name s j)" "length (shown_name s j) \<le> 33"
proof -
  let ?m = "ram s" and ?a = "entry_at s j"
  have le: "length (entry_name s j) \<le> 32" using length_takeWhile_le [of _ "rd ?m ?a 32"] by (simp add: entry_name_def cbytes_def)
  then show "length (shown_name s j) \<le> 33" by (simp add: shown_name_def)
  show "cstring ?m ?a (shown_name s j)"
  proof (cases "length (entry_name s j) < 32")
    case True
    then show ?thesis unfolding shown_name_def entry_name_def by (simp add: cbytes_ends)
  next
    case False
    then have len: "length (entry_name s j) = 32" using le by simp
    have name: "entry_name s j = rd ?m ?a 32" "0 \<notin> set (entry_name s j)"
      using takeWhile_eq_take [of "\<lambda>c. c \<noteq> 0" "rd ?m ?a 32"] len
      by (simp_all add: entry_name_def cbytes_def) (use set_takeWhileD in fast)
    have "rd ?m ?a 34 = rd ?m ?a 32 @ [?m (?a + 32), ?m (?a + 33)]"
      using rd_add [of ?m ?a 32 2] by (simp add: rd_Suc numeral_2_eq_2 add.assoc)
    then show ?thesis using name assms len by (simp add: cstring_alt shown_name_def listed_def)
  qed
qed

lemma listed_bytes:
  assumes "directory_ok s" "same_image s (ram t)" "filesystem t = filesystem s" "BOOT_BLOCK_PTR t = BOOT_BLOCK_PTR s" "j < 62"
  shows "listed t j = listed s j"
  using entry_byte [OF assms(1) _ _ assms(2), of j 32] assms(5) same_entries(2) [OF assms(1-4)] by (simp add: listed_def)

lemma same_listing:
  assumes "listing_ok s" "same_image s (ram t)" "filesystem t = filesystem s" "BOOT_BLOCK_PTR t = BOOT_BLOCK_PTR s"
  shows "listing_ok t" "names_from p t = names_from p s"
proof -
  let ?n = "unat (num_dir_entries (filesystem s))"
  have n: "directory_ok s" "?n \<le> 62" using assms(1) by (simp_all add: listing_ok_def)
  note e = same_entries [OF n(1) assms(2-4)]
  have l: "listed t j = listed s j" "entry_name t j = entry_name s j" "shown_name t j = shown_name s j"
      "ram t (entry_at t j + 33) = ram s (entry_at s j + 33)" if "j < ?n" for j
    using listed_bytes [OF n(1) assms(2-4), of j] e(2,3) [of j] that n(2)
      entry_byte [OF n(1) _ _ assms(2), of j 32] entry_byte [OF n(1) _ _ assms(2), of j 33] by (simp_all add: shown_name_def)
  have "?n - 1 < ?n" if "num_dir_entries (filesystem s) \<noteq> 0" using that by (simp add: unat_gt_0)
  then show "listing_ok t" using assms(1) l e(1) by (auto simp: listing_ok_def assms(3))
  have "filter (listed t) [p..<?n] = filter (listed s) [p..<?n]" by (rule filter_cong) (simp_all add: l)
  then show "names_from p t = names_from p s" by (auto simp: names_from_def assms(3) l)
qed

definition ls_ready :: "'a world \<Rightarrow> nat \<Rightarrow> u32 \<Rightarrow> 'a sys_state_scheme \<Rightarrow> bool" where
  "ls_ready w fd buf s \<longleftrightarrow> (\<forall>k. fst (w k) \<noteq> -2) \<and> can_print s \<and> 2 \<le> fd \<and> fd < 8 \<and> length (file_struct (pcblock s)) = 8
     \<and> listing_ok s \<and> file_type (dentries (pcblock s) ! fd) = 1
     \<and> flags (file_struct (pcblock s) ! fd) \<noteq> 0 \<and> fops_ptr (file_struct (pcblock s) ! fd) = filesystem_fops
     \<and> user_buffer buf 34 s"

definition unlisted :: "nat \<Rightarrow> 'a fs_state_scheme \<Rightarrow> u8 list list" where
  "unlisted fd s = names_from (unat (fpos (file_struct (pcblock s) ! fd))) s"

lemma ls_readyD:
  assumes "ls_ready w fd buf s"
  shows "fst (w k) \<noteq> -2" "can_print s" "2 \<le> fd" "fd < 8" "length (file_struct (pcblock s)) = 8" "listing_ok s"
    "file_type (dentries (pcblock s) ! fd) = 1" "flags (file_struct (pcblock s) ! fd) \<noteq> 0"
    "fops_ptr (file_struct (pcblock s) ! fd) = filesystem_fops" "buf \<noteq> 0"
    "apart buf 34 (BOOT_BLOCK_PTR s) (image_len s)" "apart buf 34 VIDEO 4000"
    "apart VIDEO 4000 (BOOT_BLOCK_PTR s) (image_len s)"
  using assms by (simp_all add: ls_ready_def user_buffer_def)

lemma ls_read:
  assumes "ls_ready w fd buf s"
  shows "sys_read junk irqs (int fd) buf 32 s = dirread fd buf (s\<lparr>fd_val := fd\<rparr>)"
  using ls_readyD [OF assms] by (simp add: sys_read_def fops_read_def FD_MAX_def filesystem_read_def)

lemma ls_read_end:
  assumes "ls_ready w fd buf s" "unlisted fd s = []"
  shows "sys_read junk irqs (int fd) buf 32 s = Some (0, s\<lparr>fd_val := fd\<rparr>)"
proof -
  let ?p = "fpos (file_struct (pcblock s) ! fd)" and ?n = "num_dir_entries (filesystem s)"
  have "\<not> ?p < ?n"
  proof
    assume "?p < ?n"
    then have "unat ?n - 1 \<in> set [unat ?p..<unat ?n]" by (auto simp: word_less_nat_alt)
    moreover have "listed s (unat ?n - 1)" using ls_readyD(6) [OF assms(1)] \<open>?p < ?n\<close> by (auto simp: listing_ok_def)
    ultimately show False using assms(2) by (auto simp: unlisted_def names_from_def filter_empty_conv)
  qed
  then show ?thesis unfolding ls_read [OF assms(1)] by (simp add: dirread_def Let_def not_less)
qed

text \<open>The entry of a directory is inside the image, apart from a user's buffer.\<close>

lemma entry_apart:
  assumes "directory_ok s" "k < 62" "apart buf n (BOOT_BLOCK_PTR s) (image_len s)" "j \<le> n" "n \<le> 2 ^ 31" "l \<le> 64"
  shows "apart buf j (entry_at s k) l"
proof -
  have "entry_at s k = BOOT_BLOCK_PTR s + of_nat (64 + k * 64)"
    using assms(1) by (simp add: directory_ok_def entry_at_def)
  moreover have "64 + k * 64 + l \<le> image_len s" using assms(2,6) by (simp add: image_len_def)
  ultimately show ?thesis
    using apart_sub [OF assms(3), of 0 j "64 + k * 64" l] assms(1,4,5) by (simp add: directory_ok_def)
qed

lemma upd_file_ram: "(upd_file i f s)\<lparr>ram := m\<rparr> = upd_file i f (s\<lparr>ram := m\<rparr>)"
  by (cases s) (simp add: upd_file_def)

lemma ls_reads:
  assumes "ls_ready w fd buf s" "unlisted fd s \<noteq> []"
  obtains name k where "name \<noteq> []" "length name \<le> 33" "k < 62" "unlisted fd s = name # names_from (k + 1) s"
    "sys_read junk irqs (int fd) buf 32 s = Some (int (length name),
       upd_file fd (\<lambda>f. f\<lparr>fpos := of_nat (k + 1)\<rparr>) (s\<lparr>fd_val := fd, ram := wr (ram s) buf name\<rparr>))"
proof -
  note h = ls_readyD [OF assms(1)]
  define p where "p = unat (fpos (file_struct (pcblock s) ! fd))"
  let ?n = "unat (num_dir_entries (filesystem s))"
  have ok: "directory_ok s" "?n \<le> 62" "\<forall>j<?n. entry_name s j \<noteq> []
      \<and> (length (entry_name s j) = 32 \<longrightarrow> ram s (entry_at s j + 33) = 0)"
    using h(6) by (simp_all add: listing_ok_def)
  obtain k ks where ks: "filter (listed s) [p..<?n] = k # ks"
    using assms(2) by (cases "filter (listed s) [p..<?n]") (auto simp: unlisted_def names_from_def p_def)
  note k = filter_upt_Cons [OF ks]
  let ?name = "shown_name s k" and ?s = "s\<lparr>fd_val := fd\<rparr>"
  have cs: "cstring (ram s) (entry_at s k) ?name" and name: "length ?name \<le> 33" "?name \<noteq> []"
    using shown_name_string [of s k] ok(3) k by (simp_all add: shown_name_def)
  have ap: "apart buf (length ?name) (entry_at s k) (length ?name + 1)"
    using k ok(2) name(1) by (intro entry_apart [OF ok(1) _ h(11)]) simp_all
  have pos: "fpos (file_struct (pcblock ?s) ! fd) = of_nat p" "of_nat p < num_dir_entries (filesystem ?s)"
    using k by (simp_all add: p_def word_less_nat_alt)
  have e: "entry_at ?s j = entry_at s j" for j by (simp add: entry_at_def)
  have "dirread fd buf ?s = Some (int (length ?name),
      upd_file fd (\<lambda>f. f\<lparr>fpos := of_nat (k + 1)\<rparr>) (?s\<lparr>ram := wr (ram ?s) buf ?name\<rparr>))"
    by (rule dirread_run [OF _ pos]) (use k h(4,5) cs ap in \<open>auto simp: listed_def e\<close>)
  then have "sys_read junk irqs (int fd) buf 32 s = Some (int (length ?name),
       upd_file fd (\<lambda>f. f\<lparr>fpos := of_nat (k + 1)\<rparr>) (s\<lparr>fd_val := fd, ram := wr (ram s) buf ?name\<rparr>))"
    unfolding ls_read [OF assms(1)] by simp
  moreover have "unlisted fd s = ?name # names_from (k + 1) s"
    using ks k unfolding unlisted_def names_from_def p_def [symmetric] by simp
  moreover have "k < 62" using k ok(2) by simp
  ultimately show thesis using that name by blast
qed

text \<open>Printing the name with a line break after it.\<close>

lemma ls_step:
  assumes "ls_ready w fd buf s" "unlisted fd s \<noteq> []"
  obtains name t where "ls_loop w dev (int fd) buf k s = ls_loop w dev (int fd) buf (k + 2) t" "ls_ready w fd buf t"
    "unlisted fd s = name # unlisted fd t" "display_of t = fold emit (name @ [0x0A]) (display_of s)"
proof -
  note h = ls_readyD [OF assms(1)]
  obtain name j where r: "name \<noteq> []" "length name \<le> 33" "j < 62" "unlisted fd s = name # names_from (j + 1) s"
    "sys_read (fst (w k)) (snd (w k)) (int fd) buf 32 s = Some (int (length name),
       upd_file fd (\<lambda>f. f\<lparr>fpos := of_nat (j + 1)\<rparr>) (s\<lparr>fd_val := fd, ram := wr (ram s) buf name\<rparr>))"
    using ls_reads [OF assms] by blast
  define u where "u = upd_file fd (\<lambda>f. f\<lparr>fpos := of_nat (j + 1)\<rparr>) (s\<lparr>fd_val := fd, ram := wr (ram s) buf (name @ [0x0A])\<rparr>)"
  have len: "length (name @ [0x0A]) \<le> 34" using r(2) by simp
  have ub: "apart buf (length (name @ [0x0A])) (BOOT_BLOCK_PTR s) (image_len s)" "apart buf (length (name @ [0x0A])) VIDEO 4000"
    using apart_sub [OF h(11), of 0 "length (name @ [0x0A])" 0 "image_len s"] apart_sub [OF h(12), of 0 "length (name @ [0x0A])" 0 4000]
      len h(6) by (simp_all add: listing_ok_def directory_ok_def)
  have "rd (ram u) VIDEO 4000 = rd (ram s) VIDEO 4000" using ub(2) by (simp add: u_def rd_wr_apart apart_sym)
  then have disp: "display_of u = display_of s" "term_ok u = term_ok s"
    by (intro display_cong; simp add: u_def)+
  have "can_print u" using h(2,3) disp(2) by (simp add: can_print_def u_def)
  moreover have "steady ram buf (length name + 1) u" using ub(2) by (intro steady_ram) simp
  ultimately obtain q t where t: "sys_write (fst (w (k + 1))) ram dev 1 buf (int (length name) + 1) u = Some (q, t)" "q \<noteq> -1"
      "printed u t" "can_print t" "display_of t = fold emit (rd (ram u) buf (length name + 1)) (display_of u)"
    using write_prints [OF _ h(1,10), of u "int (length name) + 1" ram "k + 1" dev] by (auto simp: nat_add_distrib)
  have bytes: "rd (ram u) buf (length name + 1) = name @ [0x0A]" using r(2) by (simp add: u_def rd_wr_same)
  have run: "ls_loop w dev (int fd) buf k s = ls_loop w dev (int fd) buf (k + 2) t"
    using r(1,2,5) t(1,2) by (subst ls_loop.simps) (simp add: u_def upd_file_ram wr_snoc)
  note pf = printed_fields [OF t(3)]
  have "same_image s (ram u)" using ub(1) by (simp add: u_def) (intro same_image_wr, simp_all)
  moreover have "same_image u (ram t)"
    using h(13) by (intro printed_image [OF t(3)]) (simp add: u_def image_len_def)
  ultimately have img: "same_image s (ram t)" by (simp add: same_image_def u_def image_len_def)
  have eq: "filesystem t = filesystem s" "BOOT_BLOCK_PTR t = BOOT_BLOCK_PTR s" by (simp_all add: pf u_def)
  note sl = same_listing [OF h(6) img eq]
  have "ls_ready w fd buf t"
    unfolding ls_ready_def user_buffer_def using h t(4) sl(1) by (simp add: pf(1) u_def eq image_len_def)
  moreover have "unat (1 + of_nat j :: u32) = j + 1" using unat_of_nat_u32 [of "j + 1"] r(3) by (simp add: add.commute)
  then have "unlisted fd t = names_from (j + 1) s"
    using h(4,5) sl(2) by (simp add: unlisted_def pf(1) u_def)
  ultimately show thesis using that run r(4) t(5) bytes disp(1) by simp
qed

interpretation ls: print_loop "\<lambda>k. ls_loop w dev (int fd) buf k" "\<lambda>_. ls_ready w fd buf" "\<lambda>_. unlisted fd"
    "\<lambda>name. fold emit (name @ [0x0A])" display_of for w dev fd buf
proof
  show "\<exists>t. ls_loop w dev (int fd) buf k s = Some (0, t) \<and> display_of t = display_of s"
    if "ls_ready w fd buf s" "unlisted fd s = []" for k s
  proof -
    have "ls_loop w dev (int fd) buf k s = Some (0, s\<lparr>fd_val := fd\<rparr>)"
      using ls_read_end [OF that] by (subst ls_loop.simps) simp
    moreover have "display_of (s\<lparr>fd_val := fd\<rparr>) = display_of s" by (rule display_cong) simp_all
    ultimately show ?thesis by blast
  qed
  show "\<exists>k' t ps. ls_loop w dev (int fd) buf k s = ls_loop w dev (int fd) buf k' t \<and> ls_ready w fd buf t
      \<and> ps \<noteq> [] \<and> unlisted fd s = ps @ unlisted fd t \<and> display_of t = fold (\<lambda>name. fold emit (name @ [0x0A])) ps (display_of s)"
    if ready: "ls_ready w fd buf s" "unlisted fd s \<noteq> []" for k s
  proof -
    obtain name t where t: "ls_loop w dev (int fd) buf k s = ls_loop w dev (int fd) buf (k + 2) t" "ls_ready w fd buf t"
        "unlisted fd s = name # unlisted fd t" "display_of t = fold emit (name @ [0x0A]) (display_of s)"
      using ls_step [OF ready] by blast
    then show ?thesis by (intro exI [of _ "k + 2"] exI [of _ t] exI [of _ "[name]"]) simp
  qed
qed

section \<open>\<open>counter\<close>\<close>

definition counter_ready :: "'a world \<Rightarrow> u32 \<Rightarrow> u32 \<Rightarrow> nat \<Rightarrow> 'a sys_state_scheme \<Rightarrow> bool" where
  "counter_ready w buf limit i s \<longleftrightarrow> (\<forall>k. fst (w k) \<noteq> -2) \<and> can_print s \<and> buf \<noteq> 0 \<and> apart buf 1024 VIDEO 4000 \<and> i \<le> unat limit"

text \<open>The digits of a number and a line break.\<close>

abbreviation show_count :: "nat \<Rightarrow> display \<Rightarrow> display" where
  "show_count n \<equiv> fold emit (numeral_text 10 n @ [0x0A])"

lemma counter_step:
  assumes "counter_ready w buf limit i s" "i < unat limit"
  obtains t where "counter_loop w dev buf k limit (of_nat i) s = counter_loop w dev buf (k + 2) limit (of_nat (i + 1)) t"
    "counter_ready w buf limit (i + 1) t" "display_of t = show_count (i + 1) (display_of s)"
proof -
  have h: "fst (w k') \<noteq> -2" "can_print s" "buf \<noteq> 0" "apart buf 1024 VIDEO 4000" for k'
    using assms(1) by (simp_all add: counter_ready_def)
  have "i + 1 \<le> unat limit" using assms(2) by simp
  then have i: "unat (of_nat (i + 1) :: u32) = i + 1" "of_nat i < limit"
    using unat_u32_lt [of limit] unat_of_nat_u32 [of "i + 1"] unat_of_nat_u32 [of i] by (simp_all add: word_less_nat_alt)
  let ?ds = "numeral_text 10 (i + 1)"
  let ?s = "s\<lparr>ram := wr (ram s) buf (?ds @ [0])\<rparr>"
  have ds: "0 \<notin> set ?ds" "length ?ds \<le> 32" 
    using digits_nonzero [of 10 "i + 1"] digits_short [of "i + 1" 10] unat_u32_lt [of limit] assms(2)
    by (simp_all add: numeral_text_def)
  have ten: "unat (10 :: u32) = 10" by simp
  have "ece391_itoa (ram s) (of_nat (i + 1)) buf 10 = Some (wr (ram s) buf (?ds @ [0]))"
    using ulib.print_text [of 10 "ram s" "of_nat (i + 1)" buf, unfolded ten i(1)] by simp
  then have itoa: "ece391_itoa (ram s) (of_nat i + 1) buf 10 = Some (ram ?s)" by (simp add: add.commute)
  have ap: "apart buf (length (?ds @ [0])) VIDEO 4000"
    using apart_sub [OF h(4), of 0 "length (?ds @ [0])" 0 4000] ds(2) by simp
  then have "rd (ram ?s) VIDEO 4000 = rd (ram s) VIDEO 4000" by (simp add: rd_wr_apart apart_sym)
  then have disp: "display_of ?s = display_of s" "term_ok ?s = term_ok s" by (intro display_cong; simp)+
  have "can_print ?s" using h(2) disp(2) by (simp add: can_print_def)
  moreover have "cstring (ram ?s) buf ?ds" using ds by (simp add: cstring_wr)
  moreover have "steady ram buf (length ?ds) ?s" using apart_sub [OF ap, of 0 "length ?ds" 0 4000] ds(2) by (intro steady_ram) simp
  ultimately obtain u where u: "ece391_fdputs (fst (w k)) ram dev 1 buf ?s = Some u" "can_print u"
      "display_of u = fold emit ?ds (display_of ?s)"
    using fdputs_prints [OF _ h(1,3), of ?s ram ?ds] by blast
  obtain t where t: "say (fst (w (k + 1))) dev ''\<newline>'' u = Some t" "can_print t"
      "display_of t = fold emit (str ''\<newline>'') (display_of u)"
    using say_prints [OF u(2) h(1), of "''\<newline>''" "k + 1" dev] by (auto simp: str_def)
  have "counter_loop w dev buf k limit (of_nat i) s = counter_loop w dev buf (k + 2) limit (of_nat (i + 1)) t"
    using itoa u(1) t(1) i(2) by (subst counter_loop.simps) (simp add: add.commute)
  moreover have "counter_ready w buf limit (i + 1) t" using h t(2) assms(2) by (simp add: counter_ready_def)
  ultimately show thesis using that t(3) u(3) disp(1) by (simp add: str_def)
qed

interpretation counting: print_loop "\<lambda>i. counter_loop w dev buf (k0 + 2 * i) limit (of_nat i)" "counter_ready w buf limit"
    "\<lambda>i _. [i + 1..<unat limit + 1]" show_count display_of for w dev buf k0 limit
proof
  fix i and s :: "'a sys_state_scheme"
  assume ready: "counter_ready w buf limit i s"
  have "[i + 1..<unat limit + 1] = [] \<longleftrightarrow> i = unat limit" using ready by (auto simp: counter_ready_def)
  moreover have "counter_loop w dev buf (k0 + 2 * i) limit (of_nat (unat limit)) s = Some (0, s)"
    by (subst counter_loop.simps) simp
  ultimately show "\<exists>t. counter_loop w dev buf (k0 + 2 * i) limit (of_nat i) s = Some (0, t) \<and> display_of t = display_of s"
    if "[i + 1..<unat limit + 1] = []" using that by auto
  assume "[i + 1..<unat limit + 1] \<noteq> []"
  then have i: "i < unat limit" by (simp del: upt_Suc)
  then have "[i + 1..<unat limit + 1] = [i + 1] @ [i + 1 + 1..<unat limit + 1]" by (simp add: upt_conv_Cons del: upt_Suc)
  moreover obtain t where "counter_loop w dev buf (k0 + 2 * i) limit (of_nat i) s
        = counter_loop w dev buf (k0 + 2 * i + 2) limit (of_nat (i + 1)) t"
      "counter_ready w buf limit (i + 1) t" "display_of t = show_count (i + 1) (display_of s)"
    using counter_step [OF ready i] by blast
  ultimately show "\<exists>i' t ps. counter_loop w dev buf (k0 + 2 * i) limit (of_nat i) s
        = counter_loop w dev buf (k0 + 2 * i') limit (of_nat i') t
      \<and> counter_ready w buf limit i' t \<and> ps \<noteq> [] \<and> [i + 1..<unat limit + 1] = ps @ [i' + 1..<unat limit + 1]
      \<and> display_of t = fold show_count ps (display_of s)"
    by (intro exI [of _ "i + 1"] exI [of _ t] exI [of _ "[i + 1]"]) (simp add: algebra_simps del: upt_Suc)
qed

section \<open>Programs that read a line\<close>

text \<open>A line in the terminal's buffer, and descriptor 0 open to read it.\<close>

definition line_entered :: "'a term_state_scheme \<Rightarrow> u8 list \<Rightarrow> bool" where
  "line_entered s cs \<longleftrightarrow> length (text_buf s) = BUF_MAX \<and> length cs < BUF_MAX
     \<and> take (length cs + 1) (text_buf s) = cs @ [0x0A] \<and> 0x0A \<notin> set cs \<and> 0 \<notin> set cs"

definition can_read :: "'a term_state_scheme \<Rightarrow> bool" where
  "can_read s \<longleftrightarrow> flags (file_struct (pcblock s) ! 0) \<noteq> 0 \<and> fops_ptr (file_struct (pcblock s) ! 0) = terminal_fops"

text \<open>The state after a program read the line \<open>cs\<close> and ended it with a NUL.\<close>

definition with_line :: "u32 \<Rightarrow> u8 list \<Rightarrow> 'a term_state_scheme \<Rightarrow> 'a term_state_scheme" where
  "with_line buf cs s = s\<lparr>ram := wr (ram s) buf (cs @ [0]), entered := 0\<rparr>"

lemma reads_typed:
  assumes "can_read s" "buf \<noteq> 0" "await (\<lambda>s. entered s = 1) irqs s = Some t" "line_entered t cs" "int (length cs) < len"
  shows "sys_read junk irqs 0 buf len s = Some (int (length cs), t\<lparr>ram := wr (ram t) buf (cs @ [0x0A]), entered := 0\<rparr>)"
proof -
  let ?n = "length cs" and ?u = "t\<lparr>ram := wr (ram t) buf (cs @ [0x0A]), entered := 0\<rparr>"
  have h: "length (text_buf t) = BUF_MAX" "?n < BUF_MAX" "take (?n + 1) (text_buf t) = cs @ [0x0A]" "0x0A \<notin> set cs"
    using assms(4) by (simp_all add: line_entered_def)
  have at: "text_buf t ! i = (cs @ [0x0A]) ! i" if "i \<le> ?n" for i
    using that h(3) by (metis less_Suc_eq_le nth_take Suc_eq_plus1)
  have "text_buf t ! ?n = 0x0A" "\<forall>i<?n. text_buf t ! i \<noteq> 0x0A"
    using at h(4) by (auto simp: nth_append) (metis nth_mem)
  then have "terminal_read junk irqs 0 buf len s = Some (int ?n, ?u)"
    using terminal_read_run [OF _ assms(3) h(1,2) assms(5), of 0] h(3) by simp
  then show ?thesis
    using assms(1,2,5) by (simp add: sys_read_def fops_read_def can_read_def FD_MAX_def)
qed

lemma reads_line:
  assumes "can_read s" "buf \<noteq> 0" "await (\<lambda>s. entered s = 1) irqs s = Some t" "line_entered t cs"
  shows "\<exists>u. sys_read junk irqs 0 buf 1023 s = Some (int (length cs), u)
    \<and> u\<lparr>ram := (ram u)(buf + of_nat (length cs) := 0)\<rparr> = with_line buf cs t"
proof -
  have n: "length cs < 128" using assms(4) by (simp add: line_entered_def BUF_MAX_def)
  then have "(wr (ram t) buf (cs @ [0x0A]))(buf + of_nat (length cs) := 0) = wr (ram t) buf (cs @ [0])" by (simp add: wr_snoc)
  then show ?thesis using reads_typed [OF assms, of 1023] n by (simp add: with_line_def)
qed

lemma with_line_prints:
  assumes "can_print t" "line_entered t cs" "apart buf 1024 VIDEO 4000"
  shows "can_print (with_line buf cs t)" "display_of (with_line buf cs t) = display_of t"
    "cstring (ram (with_line buf cs t)) buf cs" "steady ram buf (length cs) (with_line buf cs t)"
proof -
  have n: "length cs < 128" "0 \<notin> set cs" using assms(2) by (simp_all add: line_entered_def BUF_MAX_def)
  then have "apart buf (length (cs @ [0])) VIDEO 4000" using apart_sub [OF assms(3), of 0 "length (cs @ [0])" 0 4000] by simp
  then have "rd (ram (with_line buf cs t)) VIDEO 4000 = rd (ram t) VIDEO 4000"
    by (simp add: with_line_def rd_wr_apart apart_sym)
  then have "display_of (with_line buf cs t) = display_of t" "term_ok (with_line buf cs t) = term_ok t"
    by (intro display_cong; simp add: with_line_def)+
  then show "can_print (with_line buf cs t)" "display_of (with_line buf cs t) = display_of t"
    using assms(1) by (simp_all add: can_print_def with_line_def)
  show "cstring (ram (with_line buf cs t)) buf cs" using n by (simp add: with_line_def cstring_wr)
  show "steady ram buf (length cs) (with_line buf cs t)"
    using apart_sub [OF assms(3), of 0 "length cs" 0 4000] n(1) by (intro steady_ram) simp
qed

lemma counter_runs:
  assumes "can_print s" "buf \<noteq> 0" "apart buf 1024 VIDEO 4000" "\<forall>k. fst (w k) \<noteq> -2"
  shows "\<exists>t. counter_loop w dev buf k limit 0 s = Some (0, t) \<and> display_of t = fold show_count [1..<unat limit + 1] (display_of s)"
  using counting.prints_all [of w buf limit 0 s dev k] assms by (auto simp: counter_ready_def simp del: upt_Suc)

text \<open>What \<open>counter\<close> shows for the line \<open>cs\<close>.\<close>

definition counter_shows :: "u8 list \<Rightarrow> display \<Rightarrow> display" where
  "counter_shows cs d = (if cs = [0x30] then fold show_count [1..<101] d
     else if cs = [0x31] then fold show_count [1..<10001] d
     else if cs = [0x32] then fold show_count [1..<100001] d
     else if cs = [] then d else fold emit (str ''Wrong Choice!\<newline>'') d)"

lemma choice_range: "(c :: u8) < 0x30 \<or> c > 0x32 \<or> c = 0x30 \<or> c = 0x31 \<or> c = 0x32"
proof -
  have "unat c < 0x30 \<or> unat c > 0x32 \<or> unat c = 0x30 \<or> unat c = 0x31 \<or> unat c = 0x32" by arith
  then show ?thesis by (simp add: word_less_nat_alt word_eq_iff_unsigned [where ?'a = nat])
qed

lemma counter_chooses:
  assumes "can_print s" "buf \<noteq> 0" "apart buf 1024 VIDEO 4000" "\<forall>k. fst (w k) \<noteq> -2" "cstring (ram s) buf cs" "length cs < 128"
  shows "\<exists>u. counter_choice w dev buf s = Some (0, u) \<and> display_of u = counter_shows cs (display_of s)"
proof -
  have w: "fst (w k) \<noteq> -2" for k using assms(4) by simp
  have n: "unat (of_nat (length cs) :: u32) = length cs" using assms(6) by (simp add: unat_of_nat_u32)
  note len = ulib.len_string [OF assms(5)]
  note runs = counter_runs [OF assms(1-4), of dev 2]
  obtain v where v: "say (fst (w 2)) dev ''Wrong Choice!\<newline>'' s = Some v"
      "display_of v = fold emit (str ''Wrong Choice!\<newline>'') (display_of s)"
    using say_prints [OF assms(1) w, of "''Wrong Choice!\<newline>''" 2 dev] by (auto simp: str_def)
  consider "cs = []" | c where "cs = [c]" | "1 < length cs" by (cases cs rule: remdups_adj.cases) auto
  then show ?thesis
  proof cases
    case 1
    then show ?thesis using runs [of 0] len assms(5)
      by (simp add: counter_choice_def counter_shows_def counter_max_def cstring_Nil)
  next
    case 2
    then have c: "ram s buf = c" "ece391_strlen (ram s) buf = Some 1" using len assms(5) by (simp_all add: cstring_Cons)
    show ?thesis using choice_range [of c] runs [of 100] runs [of 10000] runs [of 100000] v c
      by (auto simp: counter_choice_def counter_shows_def counter_max_def 2 simp del: upt_rec_numeral upt_Suc)
  next
    case 3
    then have "of_nat (length cs) > (1 :: u32)" using n by (simp add: word_less_nat_alt)
    then show ?thesis using v len 3 by (auto simp: counter_choice_def counter_shows_def)
  qed
qed

section \<open>Properties\<close>

text \<open>C12: \<open>cat\<close> of a data file that the directory has prints the whole file, byte for byte, and returns 0:
  the argument goes through \<open>getargs\<close>, the name is looked up and opened, and the file is read in
  pieces of 1024 bytes, each written to the terminal.\<close>

theorem cat_prints_file:
  assumes "sys_ok s" "can_print s" "free_fd (pcblock s) = Some fd" "fd < 8" "has_arg (pcblock s) arg" "arg \<noteq> []"
    "entry_of s arg i" "entry_type s i = 2" "file_ok s (entry_inode s i)" "entry_inode s i < num_inodes (filesystem s) - 1"
    "user_buffer buf 1024 s" "\<forall>k. fst (w k) \<noteq> -2"
  shows "\<exists>t. cat_main w dev buf s = Some (0, t)
    \<and> display_of t = fold emit (file_bytes s (entry_inode s i) 0 (file_size s (entry_inode s i))) (display_of s)"
proof -
  let ?n = "entry_inode s i"
  let ?bs = "arg @ replicate (1024 - length arg) 0"
  let ?s = "s\<lparr>ram := wr (ram s) buf ?bs\<rparr>"
  have arg: "length arg \<le> 40" "0 \<notin> set arg" using assms(5) by (simp_all add: has_arg_def)
  have ub: "buf \<noteq> 0" "apart buf 1024 (BOOT_BLOCK_PTR s) (image_len s)" "apart buf 1024 VIDEO 4000"
      "apart VIDEO 4000 (BOOT_BLOCK_PTR s) (image_len s)" using assms(11) by (simp_all add: user_buffer_def)
  have len: "length ?bs = 1024" using arg(1) by simp
  have img: "same_image s (ram ?s)" using ub(2) len by simp (intro same_image_wr, simp_all)
  have dir: "directory_ok s" "i < 62" using assms(7) by (simp_all add: entry_of_def)
  note ents = same_entries [OF dir(1) img, simplified]
  note sf = same_files [OF assms(9) img, simplified]
  have "rd (ram ?s) VIDEO 4000 = rd (ram s) VIDEO 4000" using ub(3) len by (simp add: rd_wr_apart apart_sym)
  note disp = display_cong [OF _ _ this, simplified]
  have "sys_ok ?s" "can_print ?s" using assms(1,2) disp(2) by (simp_all add: sys_ok_def can_print_def)
  moreover have "cstring (ram ?s) buf arg" using arg by (simp add: cstring_padded)
  moreover have "entry_of ?s arg i" "entry_type ?s i = 2"
    using assms(7,8) dir(2) ents by (simp_all add: entry_of_def)
  ultimately obtain t where t: "sys_open dev (ram ?s) buf ?s = Some (int fd, t)" "can_print t" "display_of t = display_of ?s"
      "ram t = ram ?s" "filesystem t = filesystem ?s" "BOOT_BLOCK_PTR t = BOOT_BLOCK_PTR ?s" "2 \<le> fd"
      "length (file_struct (pcblock t)) = 8"
      "flags (file_struct (pcblock t) ! fd) = 1" "fpos (file_struct (pcblock t) ! fd) = 0"
      "fops_ptr (file_struct (pcblock t) ! fd) = filesystem_fops"
      "file_type (dentries (pcblock t) ! fd) = 2" "inode_number (dentries (pcblock t) ! fd) = ?n"
    using open_named [of ?s fd buf "ram ?s" arg i dev] assms(3,4,6) ub(1) ents(5) [of i] dir(2) by auto
  have imt: "same_image s (ram t)" "filesystem t = filesystem s" "BOOT_BLOCK_PTR t = BOOT_BLOCK_PTR s"
    using img t(4-6) by simp_all
  note sft = same_files [OF assms(9) imt]
  have at: "open_at t fd ?n 0" using t assms(4) by (simp add: open_at_def)
  have "cat_ready w fd ?n buf t"
    unfolding cat_ready_def reading_def using t(2,7,9,11) assms(4,10,12) ub sft at by (auto simp: imt)
  then obtain u where u: "cat_loop w dev (int fd) buf 1 t = Some (0, u)"
      "display_of u = fold emit (unread fd ?n t) (display_of t)"
    using cat.prints_all by blast
  have "unread fd ?n t = file_bytes s ?n 0 (file_size s ?n)"
    using unread_at [OF at _ sft(2)] sft(1,4) by simp
  moreover have "cat_main w dev buf s = Some (0, u)"
    using getargs_run [OF assms(5) ub(1)] t(1) u(1) by (simp add: cat_main_def)
  ultimately show ?thesis using u(2) t(3) disp(1) by simp
qed

definition shell_files :: "file_struct_t list" where
  "shell_files = start_files (replicate 8 empty_file)"

text \<open>A program started with the argument \<open>a\<close> on the example image.\<close>

definition user_example :: sys_state where
  "user_example = sys_example\<lparr>pcblock := empty_pcb\<lparr>file_struct := shell_files, arg_name := 0x61 # replicate 39 0,
     data_arg_size := 1\<rparr>\<rparr>"

lemma shell_files_nth: "shell_files ! 0 = empty_file\<lparr>flags := 1, fops_ptr := terminal_fops\<rparr>"
  "shell_files ! 1 = empty_file\<lparr>flags := 1, fops_ptr := terminal_fops\<rparr>" "length shell_files = 8" "shell_files ! 2 = empty_file"
  by (simp_all add: shell_files_def start_files_def empty_file_def numeral_eq_Suc)

lemma user_example_simps [simp]:
  "ram user_example = disk" "filesystem user_example = filesystem fs_example" "BOOT_BLOCK_PTR user_example = 0x410000"
  "file_struct (pcblock user_example) = shell_files" "screen_x user_example = 0" "screen_y user_example = 0"
  "text_buf user_example = replicate 128 0"
  by (simp_all add: user_example_def sys_example_def)

lemma user_example_ok: "sys_ok user_example" "free_fd (pcblock user_example) = Some 2" "can_print user_example"
  "has_arg (pcblock user_example) [0x61]" "can_read user_example"
proof -
  show "sys_ok user_example"
    using sys_example_ok by (simp add: user_example_def sys_ok_def pcb_ok_def shell_files_nth empty_pcb_def empty_dentry_def)
  show "free_fd (pcblock user_example) = Some 2"
    by (simp add: free_fd_def sys_consts user_example_def flags_at_def shell_files_nth empty_file_def)
  have "disk a \<noteq> 0x0A \<and> disk a \<noteq> 0x0D" for a by (simp add: disk_def wr_def Let_def)
  then have "term_ok user_example" by (simp add: term_ok_def plain_cells_def get_char_def)
  then show "can_print user_example" using shell_files_nth(2) by (simp add: can_print_def)
  show "has_arg (pcblock user_example) [0x61]" by (simp add: has_arg_def user_example_def)
  show "can_read user_example" by (simp add: can_read_def shell_files_nth empty_file_def)
qed

lemma user_example_buffer: "n \<le> 0x100000 \<Longrightarrow> user_buffer 0x8000000 n user_example"
  by (simp add: user_buffer_def apart_def VIDEO_def image_len_def)

lemma user_example_file: "file_ok user_example 0" "file_size user_example 0 = 28" "directory_ok user_example"
  using file_ok_example(1) file_size_example(1)
  by (simp_all add: file_ok_def file_size_def image_len_def block_no_def inode_at_def directory_ok_def)

lemma user_example_entry: "entry_of user_example [0x61] 0" "entry_type user_example 0 = 2" "entry_inode user_example 0 = 0"
proof -
  have "entry_name user_example 0 = [0x61]" unfolding entry_name_def
    by (rule cbytes_char) (simp_all add: entry_at_def disk_def wr_def Let_def)
  then show "entry_of user_example [0x61] 0" using user_example_file(3) by (simp add: entry_of_def)
  show "entry_type user_example 0 = 2" "entry_inode user_example 0 = 0"
    by (simp_all add: entry_type_def entry_inode_def entry_at_def ld32_disk)
qed

abbreviation calm :: "nat \<Rightarrow> int \<times> sys_state handler list" where
  "calm \<equiv> \<lambda>_. (0, [])"

theorem cat_prints_file_witness:
  "\<exists>t. cat_main calm (\<lambda>_ _. 0) 0x8000000 user_example = Some (0, t)
    \<and> display_of t = fold emit (file_bytes user_example 0 0 28) (display_of user_example)"
  using cat_prints_file [OF user_example_ok(1,3,2) _ user_example_ok(4) _ user_example_entry(1,2), of "0x8000000" calm "\<lambda>_ _. 0"]
    user_example_file(1,2) user_example_buffer [of 1024] user_example_entry(3) by simp

text \<open>C13: \<open>ls\<close> prints every entry of the directory that is not a device, in the order of the directory,
  each on a line of its own, and returns 0. Of an entry it prints the name and, when the name has 32
  bytes, the byte of the file type after it; the line break of such an entry goes one byte past the
  buffer of 33 bytes, which is assumed to be free. The directory has at most 62 entries, none of them
  with an empty name, which would end the listing, and the last one is not a device: after a last
  device the search for the next entry does not end with the directory.\<close>

theorem ls_lists_directory:
  assumes "sys_ok s" "can_print s" "free_fd (pcblock s) = Some fd" "fd < 8" "entry_of s (str ''.'') i" "entry_type s i = 1"
    "listing_ok s" "user_buffer buf 34 s" "\<forall>k. fst (w k) \<noteq> -2"
  shows "\<exists>t. ls_main w dev buf s = Some (0, t)
    \<and> display_of t = fold (\<lambda>name. fold emit (name @ [0x0A])) (names_from 0 s) (display_of s)"
proof -
  let ?dot = "wr (\<lambda>_. 0) 4 (str ''.'')"
  have "cstring ?dot 4 (str ''.'')" by (rule literal_string) (simp_all add: str_def)
  moreover have "str ''.'' \<noteq> []" "entry_type s i \<noteq> 0" using assms(6) by (simp_all add: str_def)
  ultimately obtain t where t: "sys_open dev ?dot 4 s = Some (int fd, t)" "can_print t" "display_of t = display_of s"
      "ram t = ram s" "filesystem t = filesystem s" "BOOT_BLOCK_PTR t = BOOT_BLOCK_PTR s" "2 \<le> fd"
      "length (file_struct (pcblock t)) = 8" "flags (file_struct (pcblock t) ! fd) = 1" "fpos (file_struct (pcblock t) ! fd) = 0"
      "fops_ptr (file_struct (pcblock t) ! fd) = filesystem_fops" "file_type (dentries (pcblock t) ! fd) = 1"
    using open_named [OF assms(1-4) _ _ _ assms(5), of 4 ?dot dev] assms(6) by auto
  note sl = same_listing [OF assms(7) _ t(5,6)]
  have "ls_ready w fd buf t"
    unfolding ls_ready_def using t assms(4,8,9) sl(1) by (simp add: user_buffer_def image_len_def)
  then obtain u where u: "ls_loop w dev (int fd) buf 1 t = Some (0, u)"
      "display_of u = fold (\<lambda>name. fold emit (name @ [0x0A])) (unlisted fd t) (display_of t)"
    using ls.prints_all by blast
  have "unlisted fd t = names_from 0 s" using t(4,10) sl(2) by (simp add: unlisted_def)
  moreover have "ls_main w dev buf s = Some (0, u)" using t(1) u(1) by (simp add: ls_main_def)
  ultimately show ?thesis using u(2) t(3) by simp
qed

text \<open>The example: a directory with a name of 32 bytes and the entry for itself.\<close>

definition long_name :: "u8 list" where
  "long_name = str ''verylargetxtwithverylongname.txt''"

definition dir_example :: sys_state where
  "dir_example = user_example\<lparr>ram := wr (disk(0x410080 := 0x2E, 0x410081 := 0, 0x4100A0 := 1)) 0x410040 (long_name @ [2, 0])\<rparr>"

lemma long_name: "length long_name = 32" "0 \<notin> set long_name" "0x0A \<notin> set long_name" "0x0D \<notin> set long_name"
  by (simp_all add: long_name_def str_def)

lemma dir_example_simps [simp]:
  "ram dir_example = wr (disk(0x410080 := 0x2E, 0x410081 := 0, 0x4100A0 := 1)) 0x410040 (long_name @ [2, 0])"
  "filesystem dir_example = filesystem fs_example"
  "BOOT_BLOCK_PTR dir_example = 0x410000" "pcblock dir_example = pcblock user_example"
  by (simp_all add: dir_example_def)

lemma dir_example_names: "entry_name dir_example 0 = long_name" "entry_name dir_example 1 = [0x2E]"
  "listed dir_example 0" "listed dir_example 1" "shown_name dir_example 0 = long_name @ [2]"
  "shown_name dir_example 1 = [0x2E]" "ram dir_example (entry_at dir_example 0 + 33) = 0"
proof -
  have "rd (ram dir_example) 0x410040 32 = long_name"
    using rd_wr_prefix [of long_name "[2, 0]", unfolded long_name(1)] by simp
  then have "cbytes (ram dir_example) 0x410040 32 = long_name"
    using long_name(2) by (auto simp: cbytes_def takeWhile_eq_all_conv)
  then show n0: "entry_name dir_example 0 = long_name" by (simp add: entry_name_def entry_at_def)
  show n1: "entry_name dir_example 1 = [0x2E]"
    unfolding entry_name_def by (rule cbytes_char; simp add: entry_at_def disk_def wr_def Let_def long_name(1))
  show "listed dir_example 0" "listed dir_example 1" "ram dir_example (entry_at dir_example 0 + 33) = 0"
    by (simp_all add: listed_def entry_at_def disk_def wr_def Let_def long_name(1) nth_append)
  show "shown_name dir_example 1 = [0x2E]" using n1 by (simp add: shown_name_def)
  show "shown_name dir_example 0 = long_name @ [2]"
    unfolding shown_name_def n0 long_name(1) by (simp add: entry_at_def wr_def Let_def long_name(1) nth_append)
qed

lemma dir_example_ok: "sys_ok dir_example" "can_print dir_example" "listing_ok dir_example" "user_buffer 0x8000000 34 dir_example"
proof -
  show "sys_ok dir_example" using user_example_ok(1) by (simp add: dir_example_def sys_ok_def)
  have "disk a \<noteq> 0x0A \<and> disk a \<noteq> 0x0D" for a by (simp add: disk_def wr_def Let_def)
  moreover have "wr m b xs a \<noteq> c" if "m a \<noteq> c" "c \<notin> set xs" for m b xs a and c :: u8
    using that nth_mem [of "unat (a - b)" xs] by (auto simp: wr_def Let_def)
  ultimately have "ram dir_example a \<noteq> 0x0A \<and> ram dir_example a \<noteq> 0x0D" for a
    using long_name(3,4) by (simp add: dir_example_def)
  then have "term_ok dir_example" by (simp add: term_ok_def plain_cells_def get_char_def dir_example_def)
  then show "can_print dir_example" using shell_files_nth(2) by (simp add: can_print_def)
  have "\<forall>j<2. entry_name dir_example j \<noteq> [] \<and> (length (entry_name dir_example j) = 32 \<longrightarrow> ram dir_example (entry_at dir_example j + 33) = 0)"
    using dir_example_names long_name(1) by (auto simp: less_2_cases_iff)
  then show "listing_ok dir_example" using dir_example_names by (simp add: listing_ok_def directory_ok_def image_len_def)
  show "user_buffer 0x8000000 34 dir_example" by (simp add: user_buffer_def apart_def VIDEO_def image_len_def)
qed

theorem ls_lists_directory_witness:
  "\<exists>t. ls_main calm (\<lambda>_ _. 0) 0x8000000 dir_example = Some (0, t)
    \<and> display_of t = fold emit (long_name @ [2, 0x0A, 0x2E, 0x0A]) (display_of dir_example)"
proof -
  have "long_name \<noteq> [0x2E]" by (simp add: long_name_def str_def)
  then have "entry_of dir_example (str ''.'') 1"
    using dir_example_names(1,2) dir_example_ok(3) by (simp add: entry_of_def listing_ok_def str_def)
  moreover have "entry_type dir_example 1 = 1"
    by (simp add: entry_type_def entry_at_def ld32_def disk_def wr_def Let_def long_name(1))
  moreover have "names_from 0 dir_example = [long_name @ [2], [0x2E]]"
    using dir_example_names(3-6) by (simp add: names_from_def upt_rec)
  ultimately show ?thesis
    using ls_lists_directory [OF dir_example_ok(1,2) _ _ _ _ dir_example_ok(3,4), of 2 1 calm "\<lambda>_ _. 0"] user_example_ok(2)
    by simp
qed

text \<open>\<open>hello\<close> prints its question, waits for a line, and greets by what was typed: whatever the
  screen shows once the line is entered, \<open>Hello, \<close> and the characters of the line follow.\<close>

theorem hello_greets:
  assumes "can_print s" "can_read s" "buf \<noteq> 0" "apart buf 1024 VIDEO 4000" "\<forall>k. fst (w k) \<noteq> -2"
  shows "\<exists>a. printed s a \<and> can_print a \<and> display_of a = fold emit (str ''Hi, what's your name? '') (display_of s)
    \<and> (\<forall>t name. await (\<lambda>s. entered s = 1) (snd (w 1)) a = Some t \<and> line_entered t name \<and> can_print t
         \<longrightarrow> (\<exists>u. hello_main w dev buf s = Some (0, u)
                \<and> display_of u = fold emit (str ''Hello, '' @ name) (display_of t)))"
proof -
  have w: "fst (w k) \<noteq> -2" for k using assms(5) by simp
  obtain a where a: "say (fst (w 0)) dev ''Hi, what's your name? '' s = Some a" "printed s a"
      "display_of a = fold emit (str ''Hi, what's your name? '') (display_of s)" "can_print a"
    using say_prints [OF assms(1) w, of "''Hi, what's your name? ''" 0 dev] by (auto simp: str_def)
  have "can_read a" using assms(2) printed_fields(1) [OF a(2)] by (simp add: can_read_def)
  have "\<exists>u. hello_main w dev buf s = Some (0, u) \<and> display_of u = fold emit (str ''Hello, '' @ name) (display_of t)"
    if t: "await (\<lambda>s. entered s = 1) (snd (w 1)) a = Some t" "line_entered t name" "can_print t" for t name
  proof -
    obtain b where b: "sys_read (fst (w 1)) (snd (w 1)) 0 buf 1023 a = Some (int (length name), b)"
        "b\<lparr>ram := (ram b)(buf + of_nat (length name) := 0)\<rparr> = with_line buf name t"
      using reads_line [OF \<open>can_read a\<close> assms(3) t(1,2)] by blast
    note l = with_line_prints [OF t(3,2) assms(4)]
    obtain c where c: "say (fst (w 2)) dev ''Hello, '' (with_line buf name t) = Some c" "printed (with_line buf name t) c"
        "can_print c" "display_of c = fold emit (str ''Hello, '') (display_of t)"
      using say_prints [OF l(1) w, of "''Hello, ''" 2 dev] l(2) by (auto simp: str_def)
    have n: "length name < 128" using t(2) by (simp add: line_entered_def BUF_MAX_def)
    have ap: "apart buf (length name + 1) VIDEO 4000" "apart buf (length name) VIDEO 4000"
      using n apart_sub [OF assms(4), of 0 "length name + 1" 0 4000] apart_sub [OF assms(4), of 0 "length name" 0 4000] by simp_all
    have "cstring (ram c) buf name" using l(3) cstring_cong [OF printed_rd [OF c(2) ap(1)]] by simp
    then obtain u where "ece391_fdputs (fst (w 3)) ram dev 1 buf c = Some u" "display_of u = fold emit name (display_of c)"
      using fdputs_prints [OF c(3) w assms(3), of ram name 3 dev] steady_ram [OF ap(2)] by blast
    then have "hello_main w dev buf s = Some (0, u)" "display_of u = fold emit (str ''Hello, '' @ name) (display_of t)"
      using a(1) b c(1,4) by (simp_all add: hello_main_def)
    then show ?thesis by blast
  qed
  then show ?thesis using a(2-4) by blast
qed

text \<open>An interrupt that enters a line.\<close>

definition enter_line :: "u8 list \<Rightarrow> sys_state handler" where
  "enter_line cs s = Some (s\<lparr>text_buf := cs @ [0x0A] @ replicate (127 - length cs) 0, entered := 1\<rparr>)"

abbreviation typing :: "u8 list \<Rightarrow> nat \<Rightarrow> int \<times> sys_state handler list" where
  "typing cs \<equiv> \<lambda>_. (0, [enter_line cs])"

lemma enter_line_wait:
  assumes "printed s a" "can_print a" "entered s = 0" "length cs < 128" "0x0A \<notin> set cs" "0 \<notin> set cs"
  shows "\<exists>t. await (\<lambda>s. entered s = 1) [enter_line cs] a = Some t \<and> line_entered t cs \<and> can_print t"
proof -
  let ?t = "a\<lparr>text_buf := cs @ [0x0A] @ replicate (127 - length cs) 0, entered := 1\<rparr>"
  have a: "entered a = 0" "int_on a" using assms(1,3) printed_fields(5) [OF assms(1)] by (simp_all add: printed_def)
  have "term_ok ?t = term_ok a" by (rule display_cong) simp_all
  then have "can_print ?t" using assms(2) by (simp add: can_print_def)
  moreover have "line_entered ?t cs" using assms(4-6) by (simp add: line_entered_def BUF_MAX_def)
  moreover have "await (\<lambda>s. entered s = 1) [enter_line cs] a = Some ?t"
    using a by (simp add: deliver_def enter_line_def sti_def cli_def)
  ultimately show ?thesis by blast
qed

lemma user_example_wait: "entered user_example = 0" "apart 0x8000000 1024 VIDEO 4000"
  by (simp_all add: user_example_def sys_example_def apart_def VIDEO_def)

theorem hello_greets_witness:
  "\<exists>(t :: sys_state) u. hello_main (typing (str ''Bob'')) (\<lambda>_ _. 0) 0x8000000 user_example = Some (0, u)
    \<and> display_of u = fold emit (str ''Hello, Bob'') (display_of t)"
proof -
  obtain a where a: "printed user_example a" "can_print a"
    and run: "\<forall>t name. await (\<lambda>s. entered s = 1) (snd (typing (str ''Bob'') 1)) a = Some t \<and> line_entered t name \<and> can_print t
      \<longrightarrow> (\<exists>u. hello_main (typing (str ''Bob'')) (\<lambda>_ _. 0) 0x8000000 user_example = Some (0, u)
             \<and> display_of u = fold emit (str ''Hello, '' @ name) (display_of t))"
    using hello_greets [OF user_example_ok(3,5) _ user_example_wait(2), of "typing (str ''Bob'')" "\<lambda>_ _. 0"] by auto
  obtain t where "await (\<lambda>s. entered s = 1) [enter_line (str ''Bob'')] a = Some t" "line_entered t (str ''Bob'')" "can_print t"
    using enter_line_wait [OF a user_example_wait(1), of "str ''Bob''"] by (auto simp: str_def)
  with run obtain u where "hello_main (typing (str ''Bob'')) (\<lambda>_ _. 0) 0x8000000 user_example = Some (0, u)"
    "display_of u = fold emit (str ''Hello, '' @ str ''Bob'') (display_of t)" by auto
  then show ?thesis by (intro exI [of _ t] exI [of _ u]) (simp add: str_def)
qed

text \<open>\<open>counter\<close> asks for a number and, when the line is \<open>0\<close>, \<open>1\<close> or \<open>2\<close>, prints the decimal numbers
  from 1 to 100, 10000 or 100000, each on a line; it answers \<open>Wrong Choice!\<close> to any other line but
  the empty one, for which it prints nothing.\<close>

theorem counter_counts:
  assumes "can_print s" "can_read s" "buf \<noteq> 0" "apart buf 1024 VIDEO 4000" "\<forall>k. fst (w k) \<noteq> -2"
  shows "\<exists>a. printed s a \<and> can_print a \<and> display_of a = fold emit (str ''Enter the Test Number: (0): 100, (1): 10000, (2): 100000\<newline>'') (display_of s)
    \<and> (\<forall>t cs. await (\<lambda>s. entered s = 1) (snd (w 1)) a = Some t \<and> line_entered t cs \<and> can_print t
         \<longrightarrow> (\<exists>u. counter_main w dev buf s = Some (0, u)
                \<and> display_of u = (if cs = [0x30] then fold show_count [1..<101] (display_of t)
                   else if cs = [0x31] then fold show_count [1..<10001] (display_of t)
                   else if cs = [0x32] then fold show_count [1..<100001] (display_of t)
                   else if cs = [] then display_of t
                   else fold emit (str ''Wrong Choice!\<newline>'') (display_of t))))"
proof -
  have w: "fst (w k) \<noteq> -2" for k using assms(5) by simp
  let ?q = "''Enter the Test Number: (0): 100, (1): 10000, (2): 100000\<newline>''"
  obtain a where a: "say (fst (w 0)) dev ?q s = Some a" "printed s a" "display_of a = fold emit (str ?q) (display_of s)"
      "can_print a"
    using say_prints [OF assms(1) w, of ?q 0 dev] by (auto simp: str_def)
  have "can_read a" using assms(2) printed_fields(1) [OF a(2)] by (simp add: can_read_def)
  have "\<exists>u. counter_main w dev buf s = Some (0, u) \<and> display_of u = counter_shows cs (display_of t)"
    if t: "await (\<lambda>s. entered s = 1) (snd (w 1)) a = Some t" "line_entered t cs" "can_print t" for t cs
  proof -
    let ?l = "with_line buf cs t"
    obtain b where b: "sys_read (fst (w 1)) (snd (w 1)) 0 buf 1023 a = Some (int (length cs), b)"
        "b\<lparr>ram := (ram b)(buf + of_nat (length cs) := 0)\<rparr> = ?l"
      using reads_line [OF \<open>can_read a\<close> assms(3) t(1,2)] by blast
    note l = with_line_prints [OF t(3,2) assms(4)]
    have "counter_main w dev buf s = counter_choice w dev buf ?l"
      using a(1) b by (simp add: counter_main_def)
    moreover have "length cs < 128" using t(2) by (simp add: line_entered_def BUF_MAX_def)
    ultimately show ?thesis using counter_chooses [OF l(1) assms(3-5) l(3)] l(2) by simp
  qed
  then show ?thesis using a(2-4) unfolding counter_shows_def by blast
qed

theorem counter_counts_witness:
  "\<exists>(t :: sys_state) u. counter_main (typing [0x30]) (\<lambda>_ _. 0) 0x8000000 user_example = Some (0, u)
    \<and> display_of u = fold show_count [1..<101] (display_of t)"
proof -
  obtain a where a: "printed user_example a" "can_print a"
    and run: "\<forall>t cs. await (\<lambda>s. entered s = 1) [enter_line [0x30]] a = Some t \<and> line_entered t cs \<and> can_print t
      \<longrightarrow> (\<exists>u. counter_main (typing [0x30]) (\<lambda>_ _. 0) 0x8000000 user_example = Some (0, u)
             \<and> display_of u = (if cs = [0x30] then fold show_count [1..<101] (display_of t)
                   else if cs = [0x31] then fold show_count [1..<10001] (display_of t)
                   else if cs = [0x32] then fold show_count [1..<100001] (display_of t)
                   else if cs = [] then display_of t
                   else fold emit (str ''Wrong Choice!\<newline>'') (display_of t)))"
    using counter_counts [OF user_example_ok(3,5) _ user_example_wait(2), of "typing [0x30]" "\<lambda>_ _. 0"]
    by (auto simp del: upt_rec_numeral)
  obtain t where "await (\<lambda>s. entered s = 1) [enter_line [0x30]] a = Some t" "line_entered t [0x30]" "can_print t"
    using enter_line_wait [OF a user_example_wait(1), of "[0x30]"] by auto
  with run have "\<exists>u. counter_main (typing [0x30]) (\<lambda>_ _. 0) 0x8000000 user_example = Some (0, u)
    \<and> display_of u = fold show_count [1..<101] (display_of t)" by metis
  then show ?thesis by (rule exI)
qed

end
