(* ===== verification/Syserr.thy ===== *)
theory Syserr
  imports Programs
begin

text \<open>
  The test program \<^verbatim>\<open>syscalls/ece391syserr.c\<close>: eight tests of how the system calls refuse bad arguments,
  run on the model of the calls. The tests share their parts: a call that has to be refused, and the
  line that says how the test went. \<open>regs\<close> has what is left in the other registers when a call is made
  by its number alone.
\<close>

section \<open>The tests\<close>

definition NEG_FD :: int where "NEG_FD = -1073741823"
definition BIG_FD :: int where "BIG_FD = 1073741823"
definition BIG_NUM :: int where "BIG_NUM = 1073741823"
definition NEG_NUM :: int where "NEG_NUM = -1073741823"

definition call_sys :: "int \<times> 'a sys_state_scheme handler list \<Rightarrow> device \<Rightarrow> u32 \<times> u32 \<times> u32 \<times> u32 \<times> u32 \<Rightarrow> int
    \<Rightarrow> 'a sys_state_scheme \<Rightarrow> (int \<times> 'a sys_state_scheme) option" where
  "call_sys wk dev regs num s =
     (let (esp, ebp, ebx, ecx, edx) = regs
      in Option.bind (syscall_handler (fst wk) (snd wk) dev esp ebp (of_int num) ebx ecx edx s) (\<lambda>(r, s).
           case r of Ret v \<Rightarrow> Some (v, s) | _ \<Rightarrow> None))"

text \<open>\<open>if (-1 != call) { fail = 2; ece391_fdputs (1, msg); }\<close>\<close>

definition expect_refused :: "int \<Rightarrow> device \<Rightarrow> string \<Rightarrow> ('a sys_state_scheme \<Rightarrow> (int \<times> 'a sys_state_scheme) option)
    \<Rightarrow> int \<times> 'a sys_state_scheme \<Rightarrow> (int \<times> 'a sys_state_scheme) option" where
  "expect_refused junk dev msg call = (\<lambda>(fail, s).
     Option.bind (call s) (\<lambda>(r, s).
       if r \<noteq> -1 then map_option (Pair 2) (say junk dev msg s) else Some (fail, s)))"

text \<open>The last lines of a test, with its name.\<close>

definition verdict :: "int \<Rightarrow> device \<Rightarrow> string \<Rightarrow> int \<times> 'a sys_state_scheme \<Rightarrow> (int \<times> 'a sys_state_scheme) option" where
  "verdict junk dev name = (\<lambda>(fail, s).
     map_option (Pair fail) (say junk dev (name @ (if fail \<noteq> 0 then '': FAIL\<newline>'' else '': PASS\<newline>'')) s))"

fun each :: "'b list \<Rightarrow> ('b \<Rightarrow> 'x \<Rightarrow> 'x option) \<Rightarrow> 'x \<Rightarrow> 'x option" where
  "each [] f x = Some x"
| "each (i # is) f x = Option.bind (f i x) (each is f)"

text \<open>Tests 1 and 2: descriptors out of range.\<close>

definition err_fd :: "int \<Rightarrow> string \<Rightarrow> 'a world \<Rightarrow> device \<Rightarrow> u32 \<Rightarrow> 'a sys_state_scheme
    \<Rightarrow> (int \<times> 'a sys_state_scheme) option" where
  "err_fd fd name w dev buf s =
     Option.bind (expect_refused (fst (w 0)) dev ''read fail\<newline>'' (sys_read (fst (w 0)) (snd (w 0)) fd buf 31) (0, s)) (\<lambda>x.
     Option.bind (expect_refused (fst (w 1)) dev ''write fail\<newline>'' (sys_write (fst (w 1)) ram dev fd buf 31) x) (\<lambda>x.
     Option.bind (expect_refused (fst (w 2)) dev ''close fail\<newline>'' (\<lambda>s. Some (sys_close fd s)) x)
       (verdict (fst (w 3)) dev name)))"

definition err_neg_fd :: "'a world \<Rightarrow> device \<Rightarrow> u32 \<Rightarrow> 'a sys_state_scheme \<Rightarrow> (int \<times> 'a sys_state_scheme) option" where
  "err_neg_fd = err_fd NEG_FD ''err_neg_fd''"

definition err_big_fd :: "'a world \<Rightarrow> device \<Rightarrow> u32 \<Rightarrow> 'a sys_state_scheme \<Rightarrow> (int \<times> 'a sys_state_scheme) option" where
  "err_big_fd = err_fd BIG_FD ''err_big_fd''"

text \<open>Test 3: seven times \<open>open\<close>, of which one has to fail.\<close>

definition err_open_lots :: "'a world \<Rightarrow> device \<Rightarrow> 'a sys_state_scheme \<Rightarrow> (int \<times> 'a sys_state_scheme) option" where
  "err_open_lots w dev s =
     Option.bind (each [0..<7] (\<lambda>_ (cnt, s).
        map_option (\<lambda>(r, s). (if r = -1 then cnt + 1 else cnt, s)) (sys_open dev (wr (\<lambda>_. 0) 4 (str ''.'')) 4 s)) (0, s))
       (\<lambda>(cnt, s).
        let s = fold (\<lambda>i s. snd (sys_close (int i) s)) [2..<8] s
        in if cnt = (1 :: int) then map_option (Pair 0) (say (fst (w 0)) dev ''err_open_lots: PASS\<newline>'' s)
           else map_option (Pair 2) (say (fst (w 0)) dev ''err_open_lots: FAIL\<newline>'' s))"

text \<open>Test 4: names that are not in the directory.\<close>

definition err_open :: "'a world \<Rightarrow> device \<Rightarrow> 'a sys_state_scheme \<Rightarrow> (int \<times> 'a sys_state_scheme) option" where
  "err_open w dev s =
     (let open_lit = (\<lambda>name. sys_open dev (wr (\<lambda>_. 0) 4 (str name)) 4)
      in Option.bind (expect_refused (fst (w 0)) dev '''helloo' fail\<newline>'' (open_lit ''helloo'') (0, s)) (\<lambda>x.
         Option.bind (expect_refused (fst (w 1)) dev '''shel' fail\<newline>'' (open_lit ''shel'') x) (\<lambda>x.
         Option.bind (expect_refused (fst (w 2)) dev ''empty string fail\<newline>'' (open_lit []) x)
           (verdict (fst (w 3)) dev ''err_open''))))"

text \<open>Test 5: descriptors that are not open.\<close>

definition err_unopened :: "'a world \<Rightarrow> device \<Rightarrow> u32 \<Rightarrow> 'a sys_state_scheme \<Rightarrow> (int \<times> 'a sys_state_scheme) option" where
  "err_unopened w dev buf s =
     Option.bind (each [0..<8] (\<lambda>i. expect_refused (fst (w i)) dev ''close unopened or invalid fd fail\<newline>''
        (\<lambda>s. Some (sys_close (int i) s))) (0, s)) (\<lambda>x.
     Option.bind (each [2..<8] (\<lambda>i. expect_refused (fst (w (8 + i))) dev ''read from unopened fd fail\<newline>''
        (sys_read (fst (w (8 + i))) (snd (w (8 + i))) (int i) buf 31)) x) (\<lambda>x.
     Option.bind (each [2..<8] (\<lambda>i. expect_refused (fst (w (16 + i))) dev ''write to unopened fd fail\<newline>''
        (sys_write (fst (w (16 + i))) ram dev (int i) buf 31)) x)
       (verdict (fst (w 24)) dev ''err_unopened'')))"

text \<open>Test 6: \<open>vidmap\<close> to no address and to one of the kernel.\<close>

definition err_vidmap :: "'a world \<Rightarrow> device \<Rightarrow> 'a sys_state_scheme \<Rightarrow> (int \<times> 'a sys_state_scheme) option" where
  "err_vidmap w dev s =
     Option.bind (expect_refused (fst (w 0)) dev ''Null pointer fail\<newline>'' (\<lambda>s. Some (vidmap 0 s)) (0, s)) (\<lambda>x.
     Option.bind (expect_refused (fst (w 1)) dev ''Kernel pointer fail fail\<newline>'' (\<lambda>s. Some (vidmap 0x400000 s)) x)
       (verdict (fst (w 2)) dev ''err_vidmap''))"

text \<open>Test 7: writing to the terminal's input and reading from its output.\<close>

definition err_stdin_out :: "'a world \<Rightarrow> device \<Rightarrow> u32 \<Rightarrow> 'a sys_state_scheme \<Rightarrow> (int \<times> 'a sys_state_scheme) option" where
  "err_stdin_out w dev buf s =
     Option.bind (expect_refused (fst (w 0)) dev ''write to stdin fail\<newline>'' (sys_write (fst (w 0)) ram dev 0 buf 31) (0, s)) (\<lambda>x.
     Option.bind (expect_refused (fst (w 1)) dev ''read from stdout fail\<newline>'' (sys_read (fst (w 1)) (snd (w 1)) 1 buf 31) x)
       (verdict (fst (w 2)) dev ''err_stdin_out''))"

text \<open>Test 8: calls that do not exist.\<close>

definition err_syscall_num :: "'a world \<Rightarrow> device \<Rightarrow> u32 \<times> u32 \<times> u32 \<times> u32 \<times> u32 \<Rightarrow> 'a sys_state_scheme
    \<Rightarrow> (int \<times> 'a sys_state_scheme) option" where
  "err_syscall_num w dev regs s =
     Option.bind (expect_refused (fst (w 0)) dev ''syscall 0 fail\<newline>'' (call_sys (w 0) dev regs BIG_NUM) (0, s)) (\<lambda>x.
     Option.bind (expect_refused (fst (w 1)) dev ''big num syscall fail\<newline>'' (call_sys (w 1) dev regs NEG_NUM) x) (\<lambda>x.
     Option.bind (expect_refused (fst (w 2)) dev ''neg num syscall fail\<newline>'' (call_sys (w 2) dev regs 0) x)
       (verdict (fst (w 3)) dev ''err_syscall_num'')))"

text \<open>The test with number \<open>n\<close>, from 1 to 8.\<close>

definition run_test :: "'a world \<Rightarrow> device \<Rightarrow> u32 \<times> u32 \<times> u32 \<times> u32 \<times> u32 \<Rightarrow> u32 \<Rightarrow> nat \<Rightarrow> 'a sys_state_scheme
    \<Rightarrow> (int \<times> 'a sys_state_scheme) option" where
  "run_test w dev regs buf n =
     (if n = 1 then err_neg_fd w dev buf else if n = 2 then err_big_fd w dev buf
      else if n = 3 then err_open_lots w dev else if n = 4 then err_open w dev
      else if n = 5 then err_unopened w dev buf else if n = 6 then err_vidmap w dev
      else if n = 7 then err_stdin_out w dev buf else err_syscall_num w dev regs)"

text \<open>The choice in \<open>main\<close>, once the number is read.\<close>

definition syserr_run :: "'a world \<Rightarrow> device \<Rightarrow> u32 \<times> u32 \<times> u32 \<times> u32 \<times> u32 \<Rightarrow> u32 \<Rightarrow> 'a sys_state_scheme
    \<Rightarrow> (int \<times> 'a sys_state_scheme) option" where
  "syserr_run w dev regs buf s =
     (let select = uint (ram s buf) - 0x30
      in if select = 0 then
           Option.bind (each [1..<9] (\<lambda>n (fail, s).
               map_option (\<lambda>(r, s). (fail + r, s)) (run_test (\<lambda>k. w (100 * n + k)) dev regs buf n s)) (0, s))
             (\<lambda>(fail, s). map_option (Pair fail)
                (say (fst (w 3)) dev (if fail \<noteq> 0 then ''\<newline>Overall Tests: FAIL\<newline>'' else ''\<newline>Overall Tests: PASS\<newline>'') s))
         else if 1 \<le> select \<and> select \<le> 8 then run_test (\<lambda>k. w (100 + k)) dev regs buf (nat select) s
         else map_option (Pair 0) (say (fst (w 2)) dev ''Invalid test number. Choose from tests 1-8 or 0'' s))"

definition syserr_main :: "'a world \<Rightarrow> device \<Rightarrow> u32 \<times> u32 \<times> u32 \<times> u32 \<times> u32 \<Rightarrow> u32 \<Rightarrow> 'a sys_state_scheme
    \<Rightarrow> (int \<times> 'a sys_state_scheme) option" where
  "syserr_main w dev regs buf s =
     Option.bind (say (fst (w 0)) dev ''Choose from tests 1-8. 0 to run all: '' s) (\<lambda>s.
     Option.bind (sys_read (fst (w 1)) (snd (w 1)) 0 buf 127 s) (\<lambda>(cnt, s).
       if cnt = -1 then map_option (Pair 2) (say (fst (w 2)) dev ''Can't read test #\<newline>'' s)
       else syserr_run w dev regs buf s))"

section \<open>States in which the tests pass\<close>

text \<open>The directory has the entry \<open>i\<close> for \<open>.\<close>, with nothing but padding after the name, and lacks the two
  names that test 4 tries.\<close>

definition dir_ready :: "nat \<Rightarrow> 'a fs_state_scheme \<Rightarrow> bool" where
  "dir_ready i s \<longleftrightarrow> entry_of s (str ''.'') i \<and> entry_type s i \<noteq> 0 \<and> ld32 (ram s) (entry_at s i + 12) = 0
     \<and> (\<forall>j<62. entry_name s j \<noteq> str ''helloo'' \<and> entry_name s j \<noteq> str ''shel'')
     \<and> apart VIDEO 4000 (BOOT_BLOCK_PTR s) (image_len s)"

text \<open>The descriptors from \<open>lo\<close> up to \<open>hi\<close> are open, and the bytes that \<open>open\<close> takes for the flags of a
  ninth descriptor are zero.\<close>

definition files_ready :: "nat \<Rightarrow> nat \<Rightarrow> pcb_t \<Rightarrow> bool" where
  "files_ready lo hi p \<longleftrightarrow> (\<forall>j. 2 \<le> j \<and> j < 8 \<longrightarrow> flags (file_struct p ! j) = (if lo \<le> j \<and> j < hi then 1 else 0))
     \<and> flags_at p 8 = 0"

definition test_ready :: "nat \<Rightarrow> nat \<Rightarrow> nat \<Rightarrow> 'a sys_state_scheme \<Rightarrow> bool" where
  "test_ready i lo hi s \<longleftrightarrow> sys_ok s \<and> can_print s \<and> can_read s \<and> dir_ready i s \<and> files_ready lo hi (pcblock s)"

lemma dir_ready_same:
  assumes "dir_ready i s" "same_image s (ram t)" "filesystem t = filesystem s" "BOOT_BLOCK_PTR t = BOOT_BLOCK_PTR s"
  shows "dir_ready i t"
proof -
  have d: "directory_ok s" "i < 62" using assms(1) by (simp_all add: dir_ready_def entry_of_def)
  note e = same_entries [OF d(1) assms(2-4)]
  have "ram t (entry_at s i + of_nat j) = ram s (entry_at s i + of_nat j)" if "j < 64" for j
    using entry_byte [OF d(1) _ that assms(2), of i] d(2) by simp
  from this [of 12] this [of 13] this [of 14] this [of 15]
  have "ld32 (ram t) (entry_at s i + 12) = ld32 (ram s) (entry_at s i + 12)" by (simp add: ld32_def add.assoc)
  then show ?thesis using assms(1) d(2) e by (simp add: dir_ready_def entry_of_def image_len_def assms(3,4))
qed

lemma printed_ready:
  assumes "test_ready i lo hi s" "printed s t" "can_print t"
  shows "test_ready i lo hi t"
proof -
  have "same_files_open s t" using assms(2) by (intro same_files_lib) (simp add: printed_def)
  then have "sys_ok t" using assms(1) sys_ok_same unfolding test_ready_def by blast
  moreover have d: "dir_ready i s" using assms(1) by (simp add: test_ready_def)
  then have "apart VIDEO 4000 (BOOT_BLOCK_PTR s) (image_len s)" by (simp add: dir_ready_def)
  then have "dir_ready i t"
    by (intro dir_ready_same [OF d printed_image [OF assms(2)] printed_fields(2,3) [OF assms(2)]])
  ultimately show ?thesis
    using assms printed_fields(1) [OF assms(2)] by (simp add: test_ready_def can_read_def)
qed

text \<open>Calls that leave memory, the screen and the terminal's descriptors alone.\<close>

lemma quiet_ready:
  assumes "test_ready i lo hi s" "sys_ok t" "ram t = ram s" "screen_x t = screen_x s" "screen_y t = screen_y s"
    "filesystem t = filesystem s" "BOOT_BLOCK_PTR t = BOOT_BLOCK_PTR s"
    "\<forall>j<2. file_struct (pcblock t) ! j = file_struct (pcblock s) ! j" "files_ready lo' hi' (pcblock t)"
  shows "test_ready i lo' hi' t" "display_of t = display_of s"
proof -
  note disp = display_cong [OF assms(4,5) arg_cong [OF assms(3), of "\<lambda>m. rd m VIDEO 4000"]]
  then show "display_of t = display_of s" by simp
  have "dir_ready i t" using assms(1) dir_ready_same [OF _ _ assms(6,7), of i] by (simp add: test_ready_def assms(3))
  moreover have "file_struct (pcblock t) ! 0 = file_struct (pcblock s) ! 0" "file_struct (pcblock t) ! 1 = file_struct (pcblock s) ! 1"
    using assms(8) by simp_all
  ultimately show "test_ready i lo' hi' t"
    using assms(1,2,9) disp(2) by (simp add: test_ready_def can_print_def can_read_def)
qed

section \<open>Parts of a test\<close>

text \<open>A step of a test that goes as it should: nothing is printed, and the state stays ready.\<close>

definition refuses :: "nat \<Rightarrow> ('a sys_state_scheme \<Rightarrow> (int \<times> 'a sys_state_scheme) option) \<Rightarrow> bool" where
  "refuses i call \<longleftrightarrow> (\<forall>s. test_ready i 2 2 s \<longrightarrow>
     (\<exists>t. call s = Some (-1, t) \<and> test_ready i 2 2 t \<and> display_of t = display_of s))"

lemma refusesI: "(\<And>s. test_ready i 2 2 s \<Longrightarrow> call s = Some (-1, s)) \<Longrightarrow> refuses i call"
  by (auto simp: refuses_def)

lemma expect_refused_passes:
  assumes "refuses i call" "test_ready i 2 2 s"
  obtains t where "expect_refused junk dev msg call (fail, s) = Some (fail, t)" "test_ready i 2 2 t" "display_of t = display_of s"
  using assms by (auto simp: refuses_def expect_refused_def)

lemma each_refused:
  assumes "\<And>j. j \<in> set js \<Longrightarrow> refuses i (call j)" "test_ready i 2 2 s"
  shows "\<exists>t. each js (\<lambda>j. expect_refused (junk j) dev msg (call j)) (fail, s) = Some (fail, t) \<and> test_ready i 2 2 t
    \<and> display_of t = display_of s"
  using assms
proof (induction js arbitrary: s)
  case (Cons j js)
  obtain u where "expect_refused (junk j) dev msg (call j) (fail, s) = Some (fail, u)" "test_ready i 2 2 u" "display_of u = display_of s"
    using expect_refused_passes [of i "call j" s "junk j" dev msg fail] Cons.prems by auto
  then show ?case using Cons.IH [of u] Cons.prems(1) by auto
qed simp

text \<open>What a test promises: it returns 0 and prints that it passed.\<close>

definition passes :: "nat \<Rightarrow> string \<Rightarrow> ('a sys_state_scheme \<Rightarrow> (int \<times> 'a sys_state_scheme) option) \<Rightarrow> bool" where
  "passes i name test \<longleftrightarrow> (\<forall>s. test_ready i 2 2 s \<longrightarrow>
     (\<exists>t. test s = Some (0, t) \<and> test_ready i 2 2 t \<and> display_of t = fold emit (str (name @ '': PASS\<newline>'')) (display_of s)))"

lemma verdict_pass:
  assumes "test_ready i 2 2 s" "junk \<noteq> -2" "0 \<notin> set (str name)" "length name < 1000"
  shows "\<exists>t. verdict junk dev name (0, s) = Some (0, t) \<and> test_ready i 2 2 t
    \<and> display_of t = fold emit (str (name @ '': PASS\<newline>'')) (display_of s)"
proof -
  have "can_print s" using assms(1) by (simp add: test_ready_def)
  moreover have "0 \<notin> set (str (name @ '': PASS\<newline>''))" using assms(3) by (auto simp: str_def)
  ultimately obtain t where "say junk dev (name @ '': PASS\<newline>'') s = Some t" "printed s t" "can_print t"
      "display_of t = fold emit (str (name @ '': PASS\<newline>'')) (display_of s)"
    using say_prints [of s junk "name @ '': PASS\<newline>''" dev] assms(2,4) by auto
  then show ?thesis using printed_ready [OF assms(1)] by (auto simp: verdict_def)
qed

section \<open>The calls that are refused\<close>

lemma ready_flags:
  assumes "test_ready i 2 2 s" "2 \<le> j" "j < 8"
  shows "flags (file_struct (pcblock s) ! j) = 0"
  using assms by (simp add: test_ready_def files_ready_def)

lemma refuses_descriptor:
  assumes "fd < 0 \<or> 7 < fd"
  shows "refuses i (sys_read junk irqs fd buf n)" "refuses i (sys_write junk src dev fd buf n)"
    "refuses i (\<lambda>s. Some (sys_close fd s))"
  using assms by (auto intro!: refusesI simp: sys_read_def sys_write_def sys_close_def sys_consts)

lemma refuses_unopened:
  assumes "2 \<le> j" "j < 8"
  shows "refuses i (sys_read junk irqs (int j) buf n)" "refuses i (sys_write junk src dev (int j) buf n)"
  using assms by (auto intro!: refusesI simp: sys_read_def sys_write_def ready_flags [where i = i])

lemma refuses_close: "j < 8 \<Longrightarrow> refuses i (\<lambda>s. Some (sys_close (int j) s))"
  by (cases "2 \<le> j") (auto intro!: refusesI simp: sys_close_def sys_consts ready_flags [where i = i])

lemma refuses_vidmap: "refuses i (\<lambda>s. Some (vidmap 0 s))" "refuses i (\<lambda>s. Some (vidmap 0x400000 s))"
  by (auto intro!: refusesI simp: vidmap_def FOUR_MB_def)

lemma refuses_stdin_out:
  "refuses i (sys_write junk src dev 0 buf n)" "refuses i (sys_read junk irqs 1 buf n)"
  by (auto intro!: refusesI simp: sys_write_def sys_read_def fops_write_def fops_read_def terminal_write_def terminal_read_def
      test_ready_def can_read_def can_print_def)

lemma refuses_number: "num \<in> {BIG_NUM, NEG_NUM, 0} \<Longrightarrow> refuses i (call_sys wk dev regs num)"
  by (auto intro!: refusesI simp: call_sys_def BIG_NUM_def NEG_NUM_def syscall_handler_def split: prod.splits)

text \<open>Opening a name that is not there: the descriptor is taken and given back.\<close>

lemma files_ready_upd:
  assumes "files_ready lo hi p" "length (file_struct p) = 8" "2 \<le> k" "k < 8" "dentries q ! 0 = dentries p ! 0"
    "file_struct q = (file_struct p)[k := f]" "flags f = (if lo' \<le> k \<and> k < hi' then 1 else 0)"
    "\<forall>j. 2 \<le> j \<and> j < 8 \<and> j \<noteq> k \<longrightarrow> (lo \<le> j \<and> j < hi \<longleftrightarrow> lo' \<le> j \<and> j < hi')"
  shows "files_ready lo' hi' q"
  using assms by (auto simp: files_ready_def flags_at_def FILE_ARRAY_SIZE_def nth_list_update)

lemma free_fd_ready:
  assumes "files_ready 2 hi p" "2 \<le> hi" "hi \<le> 8"
  shows "free_fd p = Some hi"
proof -
  have f: "flags_at p j = (if j < hi then 1 else 0)" if "2 \<le> j" "j < 8" for j
    using assms(1) that by (simp add: files_ready_def flags_at_def FILE_ARRAY_SIZE_def)
  have e: "flags_at p 8 = 0" using assms(1) by (simp add: files_ready_def)
  have "hi \<in> {2, 3, 4, 5, 6, 7, 8}" using assms(2,3) by auto
  moreover have "[FD_MIN..<FILE_ARRAY_SIZE + 1] = [2, 3, 4, 5, 6, 7, 8]" by (simp add: sys_consts upt_rec)
  ultimately show ?thesis unfolding free_fd_def by (auto simp: f e)
qed

lemma lookup_literal:
  assumes "dir_ready i s" "name \<in> {''helloo'', ''shel''}"
  shows "read_dentry_by_name (wr (\<lambda>_. 0) 4 (str name)) 4 d s = (-1, d)" "wr (\<lambda>_. 0) 4 (str name) 4 \<noteq> 0"
proof -
  have n: "0 \<notin> set (str name)" "length name \<le> 32" "name \<noteq> []" using assms(2) by (auto simp: str_def)
  then have c: "cstring (wr (\<lambda>_. 0) 4 (str name)) 4 (str name)" by (intro literal_string) simp_all
  then have "cbytes (wr (\<lambda>_. 0) 4 (str name)) 4 32 = str name" using n(2) by (simp add: cbytes_cstring str_def)
  then show "read_dentry_by_name (wr (\<lambda>_. 0) 4 (str name)) 4 d s = (-1, d)"
    using assms by (intro lookup_missing) (auto simp: dir_ready_def)
  show "wr (\<lambda>_. 0) 4 (str name) 4 \<noteq> 0"
    using cstring_nth(2) [OF c, of 0] n(3) by (simp add: str_def)
qed

lemma open_keeps [simp]:
  "ram (snd (filesystem_open fm a s)) = ram s" "filesystem (snd (filesystem_open fm a s)) = filesystem s"
  "BOOT_BLOCK_PTR (snd (filesystem_open fm a s)) = BOOT_BLOCK_PTR s"
  "ram (snd (rtc_open dev a u)) = ram u" "filesystem (snd (rtc_open dev a u)) = filesystem u"
  "BOOT_BLOCK_PTR (snd (rtc_open dev a u)) = BOOT_BLOCK_PTR u"
  for u :: "'a term_state_scheme"
  by (simp_all add: filesystem_open_def split_beta rtc_open_def rtc_init_def enable_irq_def machine_defs Let_def)

lemma sys_open_keeps:
  assumes "sys_open dev fm f s = Some (r, t)"
  shows "ram t = ram s" "filesystem t = filesystem s" "BOOT_BLOCK_PTR t = BOOT_BLOCK_PTR s"
proof -
  have o: "ram v = ram u \<and> filesystem v = filesystem u \<and> BOOT_BLOCK_PTR v = BOOT_BLOCK_PTR u"
    if "open_entry dev fm f p i u = (r, v)" for p i u v
    using that by (auto simp: open_entry_def Let_def split_beta split: if_splits)
  have "ram t = ram s \<and> filesystem t = filesystem s \<and> BOOT_BLOCK_PTR t = BOOT_BLOCK_PTR s"
    using assms by (auto simp: sys_open_def Let_def split: if_splits option.splits dest!: o)
  then show "ram t = ram s" "filesystem t = filesystem s" "BOOT_BLOCK_PTR t = BOOT_BLOCK_PTR s" by simp_all
qed

text \<open>An open that fails gives its descriptor back.\<close>

lemma open_gives_back:
  assumes "test_ready i 2 2 s" "sys_open dev fm 4 s = Some (-1, t)" "dentries (pcblock t) = dentries (pcblock s)"
    "file_struct (pcblock t) = (file_struct (pcblock s))[2 := (file_struct (pcblock s) ! 2)\<lparr>flags := 0\<rparr>]"
  shows "test_ready i 2 2 t \<and> display_of t = display_of s"
proof -
  have ok: "sys_ok s" "files_ready 2 2 (pcblock s)" using assms(1) by (simp_all add: test_ready_def)
  then have len: "length (file_struct (pcblock s)) = 8" by (simp add: sys_ok_def pcb_ok_def)
  have "files_ready 2 2 (pcblock t)" by (rule files_ready_upd [OF ok(2) len _ _ _ assms(4)]) (simp_all add: assms(3))
  then show ?thesis
    using quiet_ready [OF assms(1) ok_sys_open [OF ok(1) assms(2)] sys_open_keeps(1) [OF assms(2)]
        sys_open_screen [OF assms(2)] sys_open_keeps(2,3) [OF assms(2)]] by (simp add: assms(4))
qed

lemma refuses_missing:
  assumes "name \<in> {''helloo'', ''shel''}"
  shows "refuses i (sys_open dev (wr (\<lambda>_. 0) 4 (str name)) 4)"
  unfolding refuses_def
proof (intro allI impI)
  fix s :: "'a sys_state_scheme"
  assume s: "test_ready i 2 2 s"
  let ?s = "s\<lparr>fd_index := 2\<rparr>" and ?fm = "wr (\<lambda>_. 0) 4 (str name)" and ?p = "pcb_at (of_int (find_pid s))"
  have ok: "sys_ok s" "dir_ready i s" "files_ready 2 2 (pcblock s)" using s by (simp_all add: test_ready_def)
  have ok': "sys_ok ?s" using ok(1) by (simp add: sys_ok_def)
  have look: "read_dentry_by_name ?fm 4 d ?s = (-1, d)" for d
    using lookup_literal(1) [OF ok(2) assms] lookup_depends [of ?s s] by simp
  obtain t where t: "open_entry dev ?fm 4 ?p 2 ?s = (-1, t)" "dentries (pcblock t) = dentries (pcblock ?s)"
      "file_struct (pcblock t) = (file_struct (pcblock ?s))[2 := (file_struct (pcblock ?s) ! 2)\<lparr>flags := 0\<rparr>]"
    using open_entry_missing [OF lookup_literal(2) [OF ok(2) assms] look ok', of 2 dev ?p] by auto
  have "sys_open dev ?fm 4 s = Some (-1, t)"
    using sys_open_slot [of 4 s 2 dev ?fm] free_fd_ready [OF ok(3)] t(1) by simp
  then show "\<exists>t. sys_open dev ?fm 4 s = Some (-1, t) \<and> test_ready i 2 2 t \<and> display_of t = display_of s"
    using open_gives_back [OF s _ t(2) [simplified] t(3) [simplified]] by blast
qed

lemma refuses_empty: "refuses i (sys_open dev (wr (\<lambda>_. 0) 4 (str [])) 4)"
  unfolding refuses_def
proof (intro allI impI)
  fix s :: "'a sys_state_scheme"
  assume s: "test_ready i 2 2 s"
  let ?s = "s\<lparr>fd_index := 2\<rparr>" and ?fm = "wr (\<lambda>_. 0) 4 (str [])" and ?p = "pcb_at (of_int (find_pid s))"
  let ?t = "save_pcb ?p (upd_file 2 (\<lambda>f. f\<lparr>flags := 0\<rparr>) (upd_file 2 (\<lambda>f. f\<lparr>flags := 1\<rparr>) ?s))"
  have ok: "sys_ok s" "files_ready 2 2 (pcblock s)" using s by (simp_all add: test_ready_def)
  have "strncmp ?fm 4 (lit []) 0 1 = 0" using nonempty_name [of ?fm 4] by (simp add: str_def)
  then have "open_entry dev ?fm 4 ?p 2 ?s = (-1, ?t)" by (simp add: open_entry_def Let_def filesystem_open_def)
  then have run: "sys_open dev ?fm 4 s = Some (-1, ?t)"
    using sys_open_slot [of 4 s 2 dev ?fm] free_fd_ready [OF ok(2)] by simp
  have "length (file_struct (pcblock s)) = 8" using ok(1) by (simp add: sys_ok_def pcb_ok_def)
  then show "\<exists>t. sys_open dev ?fm 4 s = Some (-1, t) \<and> test_ready i 2 2 t \<and> display_of t = display_of s"
    using open_gives_back [OF s run] run by (simp add: upd_file_def)
qed

section \<open>Opening and closing all descriptors\<close>

abbreviation dot :: mem where
  "dot \<equiv> wr (\<lambda>_. 0) 4 (str ''.'')"

text \<open>The bytes of a name that a read past the descriptors takes for flags.\<close>

lemma flags_past: "flags_at p 8 = ld32 (wr (\<lambda>_. 0) 0 (file_name (dentries p ! 0))) 12"
  by (simp add: flags_at_def FILE_ARRAY_SIZE_def)

lemma wr_rd_byte: "k < n \<Longrightarrow> n \<le> 2 ^ 32 \<Longrightarrow> wr (\<lambda>_. 0) 0 (rd m a n) (of_nat k) = m (a + of_nat k)"
  using wr_in [of k "rd m a n" "\<lambda>_. 0" 0] by simp

lemma ld32_name: "ld32 (wr (\<lambda>_. 0) 0 (rd m a 32)) 12 = ld32 m (a + 12)"
  using wr_rd_byte [of 12 32 m a] wr_rd_byte [of 13 32 m a] wr_rd_byte [of 14 32 m a] wr_rd_byte [of 15 32 m a]
  by (simp add: ld32_def add.assoc)

lemma open_dot:
  assumes "test_ready i 2 hi s" "2 \<le> hi" "hi < 8"
  obtains t where "sys_open dev dot 4 s = Some (int hi, t)" "test_ready i 2 (hi + 1) t" "display_of t = display_of s"
proof -
  have ok: "sys_ok s" "dir_ready i s" "files_ready 2 hi (pcblock s)" using assms(1) by (simp_all add: test_ready_def)
  have len: "length (file_struct (pcblock s)) = 8" "length (dentries (pcblock s)) = 8" "fd_val s < 8"
    using ok(1) by (simp_all add: sys_ok_def pcb_ok_def)
  let ?e = "load_dentry (ram s) (entry_at s i) empty_dentry"
  have "cstring dot 4 (str ''.'')" by (rule literal_string) (simp_all add: str_def)
  then have "cbytes dot 4 32 = str ''.''" by (simp add: cbytes_cstring str_def)
  then have look: "read_dentry_by_name dot 4 empty_dentry s = (0, ?e)"
    using ok(2) by (intro lookup_found) (auto simp: dir_ready_def entry_of_def str_def)
  have "file_type ?e \<noteq> 0" using ok(2) by (simp add: dir_ready_def entry_type_def load_dentry_def)
  then obtain t where t: "sys_open dev dot 4 s = Some (int hi, t)"
      "file_struct (pcblock t) = (file_struct (pcblock s))
        [hi := (file_struct (pcblock s) ! hi)\<lparr>flags := 1, fpos := 0, fops_ptr := filesystem_fops\<rparr>]"
      "dentries (pcblock t) = (let ds = (dentries (pcblock s))[hi := over_entry ?e (dentries (pcblock s) ! hi)]
         in ds[fd_val s := over_entry ?e (ds ! fd_val s)])"
    using sys_open_file [OF ok(1) _ _ free_fd_ready [OF ok(3) assms(2)] assms(3) look, of dev] assms(3)
    by (auto simp: str_def wr_def)
  have "file_name (dentries (pcblock t) ! 0) = file_name (dentries (pcblock s) ! 0)
      \<or> file_name (dentries (pcblock t) ! 0) = rd (ram s) (entry_at s i) 32"
    using len(2,3) assms(2,3) by (auto simp: t(3) Let_def nth_list_update over_entry_def load_dentry_def)
  then have "flags_at (pcblock t) 8 = 0"
    using ok(2,3) by (auto simp: flags_past files_ready_def dir_ready_def ld32_name)
  then have "files_ready 2 (hi + 1) (pcblock t)"
    using ok(3) len(1) assms(2,3) by (auto simp: files_ready_def t(2) nth_list_update)
  then have "test_ready i 2 (hi + 1) t" "display_of t = display_of s"
    using quiet_ready [OF assms(1) ok_sys_open [OF ok(1) t(1)] sys_open_keeps(1) [OF t(1)]
        sys_open_screen [OF t(1)] sys_open_keeps(2,3) [OF t(1)]] assms(2) by (simp_all add: t(2))
  then show thesis using that t(1) by blast
qed

lemma open_dot_full:
  assumes "test_ready i 2 8 s"
  shows "sys_open dev dot 4 s = Some (-1, s\<lparr>fd_index := 8\<rparr>)" "test_ready i 2 8 (s\<lparr>fd_index := 8\<rparr>)"
    "display_of (s\<lparr>fd_index := 8\<rparr>) = display_of s"
proof -
  have ok: "sys_ok s" "files_ready 2 8 (pcblock s)" using assms by (simp_all add: test_ready_def)
  show "sys_open dev dot 4 s = Some (-1, s\<lparr>fd_index := 8\<rparr>)"
    using free_fd_ready [OF ok(2)] by (simp add: sys_open_def Let_def sys_consts)
  have "sys_ok (s\<lparr>fd_index := 8\<rparr>)" using ok(1) by (simp add: sys_ok_def)
  from quiet_ready [OF assms this] ok(2)
  show "test_ready i 2 8 (s\<lparr>fd_index := 8\<rparr>)" "display_of (s\<lparr>fd_index := 8\<rparr>) = display_of s" by simp_all
qed

text \<open>Once the last open failed, closing a descriptor clears the first bytes of the first name instead of
  taking some descriptor's operations.\<close>

lemma close_keeps:
  assumes "2 \<le> k" "k < 8" "fd_index s = 8" "length (dentries (pcblock s)) = 8" "length (file_name (dentries (pcblock s) ! 0)) = 32"
    "sys_close (int k) s = (r, t)"
  shows "ram t = ram s" "screen_x t = screen_x s" "screen_y t = screen_y s" "filesystem t = filesystem s"
    "BOOT_BLOCK_PTR t = BOOT_BLOCK_PTR s" "fd_index t = 8" "flags_at (pcblock t) 8 = flags_at (pcblock s) 8"
proof -
  have z: "ld32 (wr (\<lambda>_. 0) 0 (replicate 4 0 @ drop 4 xs)) 12 = ld32 (wr (\<lambda>_. 0) 0 xs) 12" if "length xs = 32" for xs
    using that by (simp add: ld32_def wr_def nth_append)
  have "ram t = ram s \<and> screen_x t = screen_x s \<and> screen_y t = screen_y s \<and> filesystem t = filesystem s
      \<and> BOOT_BLOCK_PTR t = BOOT_BLOCK_PTR s \<and> fd_index t = 8 \<and> flags_at (pcblock t) 8 = flags_at (pcblock s) 8"
    using assms z [OF assms(5)] by (auto simp: sys_close_def sys_consts Let_def null_fops_def rtc_close_def filesystem_close_def flags_past
        upd_file_def upd_dentry_def split: if_splits)
  then show "ram t = ram s" "screen_x t = screen_x s" "screen_y t = screen_y s" "filesystem t = filesystem s"
    "BOOT_BLOCK_PTR t = BOOT_BLOCK_PTR s" "fd_index t = 8" "flags_at (pcblock t) 8 = flags_at (pcblock s) 8" by simp_all
qed

lemma close_step:
  assumes "test_ready i k 8 s" "fd_index s = 8" "2 \<le> k" "k < 8"
  shows "test_ready i (k + 1) 8 (snd (sys_close (int k) s))" "fd_index (snd (sys_close (int k) s)) = 8"
    "display_of (snd (sys_close (int k) s)) = display_of s"
proof -
  have ok: "sys_ok s" "files_ready k 8 (pcblock s)" using assms(1) by (simp_all add: test_ready_def)
  have len: "length (file_struct (pcblock s)) = 8" "length (dentries (pcblock s)) = 8" "length (file_name (dentries (pcblock s) ! 0)) = 32"
    using ok(1) by (simp_all add: sys_ok_def pcb_ok_def)
  have "flags (file_struct (pcblock s) ! k) = 1" using ok(2) assms(3,4) by (simp add: files_ready_def)
  then obtain t where t: "sys_close (int k) s = (0, t)" "file_struct (pcblock t) = closed_files 8 k (file_struct (pcblock s))"
    using sys_close_files [OF len(1) assms(3,4)] assms(2) by auto
  note keep = close_keeps [OF assms(3,4,2) len(2,3) t(1)]
  have "files_ready (k + 1) 8 (pcblock t)"
    using ok(2) len(1) assms(3,4) keep(7) by (auto simp: files_ready_def t(2) closed_files_nth)
  moreover have "\<forall>j<2. file_struct (pcblock t) ! j = file_struct (pcblock s) ! j"
    using assms(3) by (auto simp: t(2) closed_files_def Let_def)
  moreover have "sys_ok t" using ok_sys_close [OF ok(1), of "int k"] t(1) by simp
  ultimately have "test_ready i (k + 1) 8 t" "display_of t = display_of s"
    using quiet_ready [OF assms(1) _ keep(1-5)] by blast+
  then show "test_ready i (k + 1) 8 (snd (sys_close (int k) s))" "fd_index (snd (sys_close (int k) s)) = 8"
    "display_of (snd (sys_close (int k) s)) = display_of s"
    using t(1) keep(6) by simp_all
qed

lemma close_all:
  assumes "test_ready i k 8 s" "fd_index s = 8" "2 \<le> k" "k \<le> 8"
  shows "test_ready i 8 8 (fold (\<lambda>j s. snd (sys_close (int j) s)) [k..<8] s)
    \<and> display_of (fold (\<lambda>j s. snd (sys_close (int j) s)) [k..<8] s) = display_of s"
  using assms
proof (induction "8 - k" arbitrary: k s)
  case (Suc n)
  then have k: "k < 8" "[k..<8] = k # [k + 1..<8]" by (simp_all add: upt_conv_Cons)
  note c = close_step [OF Suc.prems(1-3) k(1)]
  then show ?case using Suc.hyps(1) [of "k + 1"] Suc.hyps(2) Suc.prems(3) k by simp
qed simp

lemma open_all:
  assumes "test_ready i 2 hi s" "2 \<le> hi" "hi + length js = 8"
  shows "\<exists>t. each js (\<lambda>_ (cnt, s). map_option (\<lambda>(r, s). (if r = -1 then cnt + 1 else cnt, s)) (sys_open dev dot 4 s)) (cnt, s)
      = Some (cnt, t) \<and> test_ready i 2 8 t \<and> display_of t = display_of s"
  using assms
proof (induction js arbitrary: hi s)
  case (Cons j js)
  then have "hi < 8" by simp
  then obtain u where u: "sys_open dev dot 4 s = Some (int hi, u)" "test_ready i 2 (hi + 1) u" "display_of u = display_of s"
    using open_dot [OF Cons.prems(1,2)] by blast
  then show ?case using Cons.IH [OF u(2)] Cons.prems(2,3) by auto
qed auto

lemma each_append: "each (xs @ ys) f x = Option.bind (each xs f x) (each ys f)"
proof (induction xs arbitrary: x)
  case (Cons a xs)
  then show ?case by (cases "f a x") simp_all
qed simp

section \<open>Every test passes\<close>

lemma ready_88: "test_ready i 8 8 s = test_ready i 2 2 s"
  by (simp add: test_ready_def files_ready_def)

lemma err_open_lots_passes:
  assumes "\<forall>k. fst (w k) \<noteq> -2"
  shows "passes i ''err_open_lots'' (err_open_lots w dev)"
  unfolding passes_def
proof (intro allI impI)
  fix s :: "'a sys_state_scheme"
  assume s: "test_ready i 2 2 s"
  let ?f = "\<lambda>_ (cnt, s). map_option (\<lambda>(r, s). (if r = -1 then cnt + 1 else cnt, s)) (sys_open dev dot 4 s)"
  obtain t where t: "each [0..<6] ?f (0 :: int, s) = Some (0, t)" "test_ready i 2 8 t" "display_of t = display_of s"
    using open_all [OF s, of "[0..<6]" dev 0] by auto
  note full = open_dot_full [OF t(2)]
  have "[0..<7] = [0..<6] @ [6]" by (simp add: upt_rec)
  then have opens: "each [0..<7] ?f (0 :: int, s) = Some (1, t\<lparr>fd_index := 8\<rparr>)"
    using t(1) full(1) by (simp add: each_append del: upt_rec_numeral)
  define u where "u = fold (\<lambda>j s. snd (sys_close (int j) s)) [2..<8] (t\<lparr>fd_index := 8\<rparr>)"
  have u: "test_ready i 2 2 u" "display_of u = display_of s"
    using close_all [OF full(2)] full(3) t(3) by (simp_all add: ready_88 u_def del: upt_rec_numeral)
  have "can_print u" using u(1) by (simp add: test_ready_def)
  then obtain v where v: "say (fst (w 0)) dev ''err_open_lots: PASS\<newline>'' u = Some v" "printed u v" "can_print v"
      "display_of v = fold emit (str ''err_open_lots: PASS\<newline>'') (display_of u)"
    using say_prints [of u "fst (w 0)" "''err_open_lots: PASS\<newline>''" dev] assms by (auto simp: str_def)
  have "err_open_lots w dev s = Some (0, v)"
    using opens v(1) by (simp add: err_open_lots_def u_def [symmetric] del: upt_rec_numeral)
  then show "\<exists>t. err_open_lots w dev s = Some (0, t) \<and> test_ready i 2 2 t
      \<and> display_of t = fold emit (str (''err_open_lots'' @ '': PASS\<newline>'')) (display_of s)"
    using printed_ready [OF u(1) v(2,3)] v(4) u(2) by simp
qed

text \<open>The tests that are a row of refused calls and a verdict.\<close>

lemma refused_then:
  assumes "refuses i call" "\<And>t. test_ready i 2 2 t \<Longrightarrow> \<exists>u. k (0, t) = Some (0, u) \<and> test_ready i 2 2 u
      \<and> display_of u = fold emit msg (display_of t)"
    "test_ready i 2 2 s"
  shows "\<exists>u. Option.bind (expect_refused junk dev m call (0, s)) k = Some (0, u) \<and> test_ready i 2 2 u
    \<and> display_of u = fold emit msg (display_of s)"
proof -
  obtain t where "expect_refused junk dev m call (0, s) = Some (0, t)" "test_ready i 2 2 t" "display_of t = display_of s"
    using expect_refused_passes [OF assms(1,3)] by blast
  then show ?thesis using assms(2) by force
qed

lemma refused_each_then:
  assumes "\<And>j. j \<in> set js \<Longrightarrow> refuses i (call j)" "\<And>t. test_ready i 2 2 t \<Longrightarrow> \<exists>u. k (0, t) = Some (0, u) \<and> test_ready i 2 2 u
      \<and> display_of u = fold emit msg (display_of t)"
    "test_ready i 2 2 s"
  shows "\<exists>u. Option.bind (each js (\<lambda>j. expect_refused (junk j) dev m (call j)) (0, s)) k = Some (0, u) \<and> test_ready i 2 2 u
    \<and> display_of u = fold emit msg (display_of s)"
proof -
  obtain t where "each js (\<lambda>j. expect_refused (junk j) dev m (call j)) (0, s) = Some (0, t)" "test_ready i 2 2 t"
      "display_of t = display_of s"
    using each_refused [of js i call s junk dev m 0] assms(1,3) by blast
  then show ?thesis using assms(2) by force
qed

lemmas test_steps = refused_then refused_each_then verdict_pass

lemma err_fd_passes:
  assumes "\<forall>k. fst (w k) \<noteq> -2" "fd < 0 \<or> 7 < fd" "0 \<notin> set (str name)" "length name < 1000"
  shows "passes i name (err_fd fd name w dev buf)"
  unfolding passes_def err_fd_def
  by (intro allI impI test_steps refuses_descriptor) (use assms in simp_all)

lemma err_open_passes:
  assumes "\<forall>k. fst (w k) \<noteq> -2"
  shows "passes i ''err_open'' (err_open w dev)"
  unfolding passes_def err_open_def Let_def
  by (intro allI impI test_steps refuses_missing refuses_empty) (use assms in \<open>simp_all add: str_def\<close>)

lemma err_unopened_passes:
  assumes "\<forall>k. fst (w k) \<noteq> -2"
  shows "passes i ''err_unopened'' (err_unopened w dev buf)"
  unfolding passes_def err_unopened_def
  by (intro allI impI test_steps refuses_close refuses_unopened) (use assms in \<open>auto simp: str_def\<close>)

lemma err_vidmap_passes:
  assumes "\<forall>k. fst (w k) \<noteq> -2"
  shows "passes i ''err_vidmap'' (err_vidmap w dev)"
  unfolding passes_def err_vidmap_def
  by (intro allI impI test_steps refuses_vidmap) (use assms in \<open>simp_all add: str_def\<close>)

lemma err_stdin_out_passes:
  assumes "\<forall>k. fst (w k) \<noteq> -2"
  shows "passes i ''err_stdin_out'' (err_stdin_out w dev buf)"
  unfolding passes_def err_stdin_out_def
  by (intro allI impI test_steps refuses_stdin_out) (use assms in \<open>simp_all add: str_def\<close>)

lemma err_syscall_num_passes:
  assumes "\<forall>k. fst (w k) \<noteq> -2"
  shows "passes i ''err_syscall_num'' (err_syscall_num w dev regs)"
  unfolding passes_def err_syscall_num_def
  by (intro allI impI test_steps refuses_number) (use assms in \<open>simp_all add: str_def\<close>)

definition test_names :: "string list" where
  "test_names = [''err_neg_fd'', ''err_big_fd'', ''err_open_lots'', ''err_open'', ''err_unopened'', ''err_vidmap'',
     ''err_stdin_out'', ''err_syscall_num'']"

lemma run_test_passes:
  assumes "\<forall>k. fst (w k) \<noteq> -2" "1 \<le> n" "n \<le> 8"
  shows "passes i (test_names ! (n - 1)) (run_test w dev regs buf n)"
proof -
  have "passes i ''err_neg_fd'' (err_neg_fd w dev buf)" "passes i ''err_big_fd'' (err_big_fd w dev buf)"
    unfolding err_neg_fd_def err_big_fd_def
    by (rule err_fd_passes; use assms(1) in \<open>simp add: NEG_FD_def BIG_FD_def str_def\<close>)+
  moreover have "n \<in> {1, 2, 3, 4, 5, 6, 7, 8}" using assms(2,3) by auto
  ultimately show ?thesis
    using err_open_lots_passes [OF assms(1)] err_open_passes [OF assms(1)] err_unopened_passes [OF assms(1)]
      err_vidmap_passes [OF assms(1)] err_stdin_out_passes [OF assms(1)] err_syscall_num_passes [OF assms(1), of i dev regs]
    by (auto simp: run_test_def test_names_def)
qed

lemma run_all_pass:
  assumes "\<forall>k. fst (w k) \<noteq> -2" "test_ready i 2 2 s" "1 \<le> n" "n \<le> 9"
  shows "\<exists>t. each [n..<9] (\<lambda>n (fail, s). map_option (\<lambda>(r, s). (fail + r, s)) (run_test (\<lambda>k. w (100 * n + k)) dev regs buf n s)) (0, s)
      = Some (0, t) \<and> test_ready i 2 2 t
    \<and> display_of t = fold emit (concat (map (\<lambda>name. str (name @ '': PASS\<newline>'')) (drop (n - 1) test_names))) (display_of s)"
  using assms(2-4)
proof (induction "9 - n" arbitrary: n s)
  case 0
  then show ?case by (simp add: test_names_def)
next
  case (Suc k)
  then have n: "1 \<le> n" "n \<le> 8" "[n..<9] = n # [n + 1..<9]" "n - 1 < length test_names" by (simp_all add: upt_conv_Cons test_names_def)
  have "passes i (test_names ! (n - 1)) (run_test (\<lambda>k. w (100 * n + k)) dev regs buf n)"
    using assms(1) n by (intro run_test_passes) simp_all
  then obtain u where u: "run_test (\<lambda>k. w (100 * n + k)) dev regs buf n s = Some (0, u)" "test_ready i 2 2 u"
      "display_of u = fold emit (str (test_names ! (n - 1) @ '': PASS\<newline>'')) (display_of s)"
    using Suc.prems(1) unfolding passes_def by blast
  have "drop (n - 1) test_names = test_names ! (n - 1) # drop (n + 1 - 1) test_names"
    using n Cons_nth_drop_Suc [OF n(4)] by simp
  then show ?case using Suc.hyps(1) [of "n + 1" u] Suc.hyps(2) n u by (auto simp del: upt_rec_numeral)
qed

text \<open>The state after the line with the test's number is read.\<close>

lemma typed_ready:
  assumes "test_ready i 2 2 t" "line_entered t cs" "apart buf 128 (BOOT_BLOCK_PTR t) (image_len t)" "apart buf 128 VIDEO 4000"
  defines "u \<equiv> t\<lparr>ram := wr (ram t) buf (cs @ [0x0A]), entered := 0\<rparr>"
  shows "test_ready i 2 2 u" "display_of u = display_of t" "cs = [c] \<Longrightarrow> ram u buf = c"
proof -
  have n: "length (cs @ [0x0A]) \<le> 128" using assms(2) by (simp add: line_entered_def BUF_MAX_def)
  have ok: "sys_ok t" "can_print t" "can_read t" "dir_ready i t" "files_ready 2 2 (pcblock t)"
    using assms(1) by (simp_all add: test_ready_def)
  have "image_len t \<le> 2 ^ 32" using ok(4) by (simp add: dir_ready_def entry_of_def directory_ok_def)
  then have ap: "apart buf (length (cs @ [0x0A])) (BOOT_BLOCK_PTR t) (image_len t)" "apart buf (length (cs @ [0x0A])) VIDEO 4000"
    using apart_sub [OF assms(3), of 0 "length (cs @ [0x0A])" 0 "image_len t"] apart_sub [OF assms(4), of 0 "length (cs @ [0x0A])" 0 4000] n
    by simp_all
  have "same_image t (ram u)" using ap(1) by (simp add: u_def) (intro same_image_wr, simp_all)
  then have "dir_ready i u" by (intro dir_ready_same [OF ok(4)]) (simp_all add: u_def)
  moreover have "rd (ram u) VIDEO 4000 = rd (ram t) VIDEO 4000" using ap(2) by (simp add: u_def rd_wr_apart apart_sym)
  then have "display_of u = display_of t" "term_ok u = term_ok t" by (intro display_cong; simp add: u_def)+
  moreover have "sys_ok u" using ok(1) by (simp add: u_def sys_ok_def)
  ultimately show "test_ready i 2 2 u" "display_of u = display_of t"
    using ok by (simp_all add: test_ready_def can_print_def can_read_def u_def)
  show "cs = [c] \<Longrightarrow> ram u buf = c" by (simp add: u_def wr_def)
qed

lemma syserr_choice:
  assumes "\<forall>k. fst (w k) \<noteq> -2" "test_ready i 2 2 s" "0x30 \<le> unat (ram s buf)" "unat (ram s buf) \<le> 0x38"
  shows "\<exists>u. syserr_run w dev regs buf s = Some (0, u) \<and> display_of u = fold emit (if unat (ram s buf) = 0x30
      then concat (map (\<lambda>name. str (name @ '': PASS\<newline>'')) test_names) @ str ''\<newline>Overall Tests: PASS\<newline>''
      else str (test_names ! (unat (ram s buf) - 0x31) @ '': PASS\<newline>'')) (display_of s)"
proof (cases "unat (ram s buf) = 0x30")
  case True
  then have sel: "uint (ram s buf) = 0x30" by (simp add: uint_nat)
  let ?all = "concat (map (\<lambda>name. str (name @ '': PASS\<newline>'')) test_names)"
  obtain t where t: "each [1..<9] (\<lambda>n (fail, s). map_option (\<lambda>(r, s). (fail + r, s)) (run_test (\<lambda>k. w (100 * n + k)) dev regs buf n s)) (0, s)
      = Some (0, t)" "test_ready i 2 2 t" "display_of t = fold emit ?all (display_of s)"
    using run_all_pass [OF assms(1,2), of 1 dev regs buf] by (auto simp del: upt_rec_numeral)
  have "can_print t" using t(2) by (simp add: test_ready_def)
  then obtain u where "say (fst (w 3)) dev ''\<newline>Overall Tests: PASS\<newline>'' t = Some u"
      "display_of u = fold emit (str ''\<newline>Overall Tests: PASS\<newline>'') (display_of t)"
    using say_prints [of t "fst (w 3)" "''\<newline>Overall Tests: PASS\<newline>''" dev] assms(1) by (auto simp: str_def)
  then show ?thesis using t(1,3) sel True by (simp add: syserr_run_def del: upt_rec_numeral)
next
  case False
  define n where "n = unat (ram s buf) - 0x30"
  have c: "unat (ram s buf) = n + 0x30" using assms(3) by (simp add: n_def)
  have n: "1 \<le> n" "n \<le> 8" "uint (ram s buf) = int n + 0x30"
    using assms(4) False c uint_nat [of "ram s buf"] by simp_all
  have "passes i (test_names ! (n - 1)) (run_test (\<lambda>k. w (100 + k)) dev regs buf n)"
    using assms(1) n by (intro run_test_passes) simp_all
  then obtain u where "run_test (\<lambda>k. w (100 + k)) dev regs buf n s = Some (0, u)"
      "display_of u = fold emit (str (test_names ! (n - 1) @ '': PASS\<newline>'')) (display_of s)"
    using assms(2) unfolding passes_def by blast
  moreover have "n - 1 = unat (ram s buf) - 0x31" by (simp add: n_def)
  ultimately show ?thesis using n False by (simp add: syserr_run_def)
qed

section \<open>Properties\<close>

text \<open>C22: the kernel passes the system's own tests of refused calls: whichever test is chosen,
  \<open>syserr\<close> returns 0 and prints that the test passed, and with 0 it does so for all eight and prints that
  they all passed. The descriptors from 2 on are unused and the directory has \<open>.\<close> but not the two
  names that have to be missing.\<close>

theorem syserr_passes:
  assumes "test_ready i 2 2 s" "\<forall>k. fst (w k) \<noteq> -2" "buf \<noteq> 0"
  shows "\<exists>a. printed s a \<and> test_ready i 2 2 a
    \<and> display_of a = fold emit (str ''Choose from tests 1-8. 0 to run all: '') (display_of s)
    \<and> (\<forall>t c. await (\<lambda>s. entered s = 1) (snd (w 1)) a = Some t \<and> line_entered t [c] \<and> test_ready i 2 2 t
          \<and> apart buf 128 (BOOT_BLOCK_PTR t) (image_len t) \<and> apart buf 128 VIDEO 4000 \<and> 0x30 \<le> c \<and> c \<le> 0x38
       \<longrightarrow> (\<exists>u. syserr_main w dev regs buf s = Some (0, u)
              \<and> display_of u = fold emit (if c = 0x30
                    then concat (map (\<lambda>name. str (name @ '': PASS\<newline>'')) test_names) @ str ''\<newline>Overall Tests: PASS\<newline>''
                    else str (test_names ! (unat c - 0x31) @ '': PASS\<newline>'')) (display_of t)))"
proof -
  have ok: "can_print s" "can_read s" using assms(1) by (simp_all add: test_ready_def)
  obtain a where a: "say (fst (w 0)) dev ''Choose from tests 1-8. 0 to run all: '' s = Some a" "printed s a" "can_print a"
      "display_of a = fold emit (str ''Choose from tests 1-8. 0 to run all: '') (display_of s)"
    using say_prints [OF ok(1), of "fst (w 0)" "''Choose from tests 1-8. 0 to run all: ''" dev] assms(2) by (auto simp: str_def)
  have "can_read a" using ok(2) printed_fields(1) [OF a(2)] by (simp add: can_read_def)
  have "\<exists>u. syserr_main w dev regs buf s = Some (0, u) \<and> display_of u = fold emit (if c = 0x30
        then concat (map (\<lambda>name. str (name @ '': PASS\<newline>'')) test_names) @ str ''\<newline>Overall Tests: PASS\<newline>''
        else str (test_names ! (unat c - 0x31) @ '': PASS\<newline>'')) (display_of t)"
    if t: "await (\<lambda>s. entered s = 1) (snd (w 1)) a = Some t" "line_entered t [c]" "test_ready i 2 2 t"
      "apart buf 128 (BOOT_BLOCK_PTR t) (image_len t)" "apart buf 128 VIDEO 4000" and c: "0x30 \<le> c" "c \<le> 0x38" for t c
  proof -
    define b where "b = t\<lparr>ram := wr (ram t) buf ([c] @ [0x0A]), entered := 0\<rparr>"
    have rd: "sys_read (fst (w 1)) (snd (w 1)) 0 buf 127 a = Some (1, b)"
      using reads_typed [OF \<open>can_read a\<close> assms(3) t(1,2), of 127 "fst (w 1)"] by (simp add: b_def)
    have b: "test_ready i 2 2 b" "display_of b = display_of t" "ram b buf = c"
      using typed_ready [OF t(3,2,4,5)] unfolding b_def by simp_all
    have n: "0x30 \<le> unat c" "unat c \<le> 0x38" using c by (simp_all add: word_le_nat_alt)
    have zero: "c = 0x30 \<longleftrightarrow> unat c = 0x30" by (simp add: word_eq_iff_unsigned [where ?'a = nat])
    have main: "syserr_main w dev regs buf s = syserr_run w dev regs buf b" using a(1) rd by (simp add: syserr_main_def)
    show ?thesis
      unfolding main zero using syserr_choice [OF assms(2) b(1), of buf dev regs, unfolded b(2,3)] n by blast
  qed
  then show ?thesis using printed_ready [OF assms(1) a(2,3)] a(2,4) by blast
qed

definition test_disk :: mem where
  "test_disk = (wr disk 0x410080 (replicate 32 0))(0x410080 := 0x2E, 0x4100A0 := 1)"

definition test_example :: sys_state where
  "test_example = user_example\<lparr>ram := test_disk\<rparr>"

lemma test_example_simps [simp]:
  "ram test_example = test_disk" "filesystem test_example = filesystem fs_example" "BOOT_BLOCK_PTR test_example = 0x410000"
  "pcblock test_example = pcblock user_example" "entered test_example = 0"
  by (simp_all add: test_example_def user_example_def sys_example_def)

text \<open>No byte of the image is a line break or the first letter of a missing name.\<close>

lemma test_disk_bytes: "test_disk a \<notin> {0x0A, 0x0D, 0x68, 0x73}"
  by (simp add: test_disk_def disk_def wr_def Let_def)

lemma test_disk_directory: "test_disk 0x410040 = 0x61" "test_disk 0x410041 = 0" "test_disk 0x410080 = 0x2E" "test_disk 0x410081 = 0"
  "ld32 test_disk 0x4100A0 = 1" "ld32 test_disk 0x41008C = 0"
  by (simp_all add: test_disk_def disk_def wr_def Let_def ld32_def)

lemma test_example_ready: "test_ready 1 2 2 test_example"
proof -
  have names: "entry_name test_example 0 = [0x61]" "entry_name test_example 1 = [0x2E]"
    unfolding entry_name_def by (rule cbytes_char; simp add: entry_at_def test_disk_directory)+
  have "entry_name test_example j \<noteq> c # cs" if "c \<in> {0x68, 0x73}" for j c cs
    using test_disk_bytes [of "entry_at test_example j"] that cbytes_Suc [of test_disk "entry_at test_example j" 31]
    by (auto simp: entry_name_def)
  then have "dir_ready 1 test_example"
    using names by (simp add: dir_ready_def entry_of_def entry_type_def entry_at_def directory_ok_def image_len_def str_def
        test_disk_directory apart_def VIDEO_def)
  moreover have "sys_ok test_example" using user_example_ok(1) by (simp add: test_example_def sys_ok_def)
  moreover have "term_ok test_example"
    using test_disk_bytes by (auto simp: term_ok_def plain_cells_def get_char_def test_example_def)
  then have "can_print test_example" "can_read test_example"
    using user_example_ok(3,5) by (simp_all add: can_print_def can_read_def)
  moreover have "files_ready 2 2 (pcblock test_example)"
  proof -
    have "flags (shell_files ! j) = 0" if "2 \<le> j" "j < 8" for j
      using start_files_flags(1) [of "replicate 8 empty_file" j] that by (simp add: shell_files_def)
    then show ?thesis
      by (simp add: files_ready_def flags_past user_example_def empty_pcb_def empty_dentry_def ld32_def wr_def)
  qed
  ultimately show ?thesis by (simp add: test_ready_def)
qed

lemma typed_example_ready:
  assumes "test_ready i 2 2 a" "length cs < 128"
  shows "test_ready i 2 2 (a\<lparr>text_buf := cs @ [0x0A] @ replicate (127 - length cs) 0, entered := 1\<rparr>)"
proof -
  let ?t = "a\<lparr>text_buf := cs @ [0x0A] @ replicate (127 - length cs) 0, entered := 1\<rparr>"
  have "sys_ok ?t" using assms by (simp add: test_ready_def sys_ok_def BUF_MAX_def)
  moreover have "files_ready 2 2 (pcblock a)" using assms(1) by (simp add: test_ready_def)
  ultimately show ?thesis by (intro quiet_ready(1) [OF assms(1)]) simp_all
qed

theorem syserr_passes_witness:
  "\<exists>(t :: sys_state) u. syserr_main (typing [0x30]) (\<lambda>_ _. 0) (0, 0, 0, 0, 0) 0x8000000 test_example = Some (0, u)
    \<and> display_of u = fold emit (concat (map (\<lambda>name. str (name @ '': PASS\<newline>'')) test_names) @ str ''\<newline>Overall Tests: PASS\<newline>'')
        (display_of t)"
proof -
  let ?run = "syserr_main (typing [0x30]) (\<lambda>_ _. 0) (0, 0, 0, 0, 0) 0x8000000 test_example"
  let ?shown = "\<lambda>c. if c = (0x30 :: u8) then concat (map (\<lambda>name. str (name @ '': PASS\<newline>'')) test_names) @ str ''\<newline>Overall Tests: PASS\<newline>''
    else str (test_names ! (unat c - 0x31) @ '': PASS\<newline>'')"
  obtain a where a: "printed test_example a" "test_ready 1 2 2 a"
    and run: "\<forall>t c. await (\<lambda>s. entered s = 1) [enter_line [0x30]] a = Some t \<and> line_entered t [c] \<and> test_ready 1 2 2 t
          \<and> apart 0x8000000 128 (BOOT_BLOCK_PTR t) (image_len t) \<and> apart 0x8000000 128 VIDEO 4000 \<and> 0x30 \<le> c \<and> c \<le> 0x38
       \<longrightarrow> (\<exists>u. ?run = Some (0, u) \<and> display_of u = fold emit (?shown c) (display_of t))"
    using syserr_passes [OF test_example_ready, of "typing [0x30]" "0x8000000" "\<lambda>_ _. 0" "(0, 0, 0, 0, 0)"] by auto
  let ?t = "a\<lparr>text_buf := [0x30] @ [0x0A] @ replicate (127 - length [0x30 :: u8]) 0, entered := 1\<rparr>"
  have f: "entered a = 0" "int_on a" "BOOT_BLOCK_PTR a = 0x410000" "filesystem a = filesystem fs_example"
    using printed_fields [OF a(1)] a(1) by (simp_all add: printed_def)
  have "await (\<lambda>s. entered s = 1) [enter_line [0x30]] a = Some ?t"
    using f(1,2) by (simp add: deliver_def enter_line_def sti_def cli_def)
  moreover have "line_entered ?t [0x30]" by (simp add: line_entered_def BUF_MAX_def)
  moreover have "test_ready 1 2 2 ?t" using a(2) by (rule typed_example_ready) simp
  moreover have "apart 0x8000000 128 (BOOT_BLOCK_PTR ?t) (image_len ?t)" "apart 0x8000000 128 VIDEO 4000"
    by (simp_all add: f image_len_def apart_def VIDEO_def)
  ultimately have "\<exists>u. ?run = Some (0, u) \<and> display_of u = fold emit (?shown 0x30) (display_of ?t)"
    using run [rule_format, of ?t "0x30"] by simp
  then show ?thesis by auto
qed

end
