(* ===== verification/IDT.thy ===== *)
theory IDT
  imports Screen
begin

unbundle bit_operations_syntax

text \<open>
  The interrupt descriptor table, \<^verbatim>\<open>student-distrib/idt.c\<close> and the descriptor type of
  \<^verbatim>\<open>x86_desc.h\<close>: the three kinds of gate, the table \<open>init_idt\<close> builds, and the exception
  handlers, which print a message and stop. Where the linker puts a handler is a parameter
  \<open>addr\<close>.
\<close>

section \<open>Descriptors and gates\<close>

type_synonym u1 = "1 word"
type_synonym u2 = "2 word"

record idt_desc =
  offset_15_00 :: u16
  seg_selector :: u16
  reserved4 :: u8
  reserved3 :: u1
  reserved2 :: u1
  reserved1 :: u1
  gate_size :: u1
  reserved0 :: u1
  dpl :: u2
  present :: u1
  offset_31_16 :: u16

definition KERNEL_CS :: u16 where "KERNEL_CS = 0x0010"
definition NUM_VEC :: nat where "NUM_VEC = 256"
definition six_bit_mask :: u8 where "six_bit_mask = 0x1F"

text \<open>\<open>SET_IDT_ENTRY\<close>.\<close>

definition SET_IDT_ENTRY :: "u32 \<Rightarrow> idt_desc \<Rightarrow> idt_desc" where
  "SET_IDT_ENTRY handler d =
     d\<lparr>offset_31_16 := ucast (drop_bit 16 (handler AND 0xFFFF0000)),
       offset_15_00 := ucast (handler AND 0xFFFF)\<rparr>"

definition set_trap_gate :: "nat \<Rightarrow> u32 \<Rightarrow> idt_desc list \<Rightarrow> idt_desc list" where
  "set_trap_gate num address idt =
     idt[num := SET_IDT_ENTRY address
       ((idt ! num)\<lparr>seg_selector := KERNEL_CS, reserved4 := reserved4 (idt ! num) AND six_bit_mask,
          reserved3 := 1, reserved2 := 1, reserved1 := 1, gate_size := 1, reserved0 := 0, dpl := 0,
          present := 1\<rparr>)]"

definition set_intr_gate :: "nat \<Rightarrow> u32 \<Rightarrow> idt_desc list \<Rightarrow> idt_desc list" where
  "set_intr_gate num address idt =
     idt[num := SET_IDT_ENTRY address
       ((idt ! num)\<lparr>seg_selector := KERNEL_CS, reserved4 := reserved4 (idt ! num) AND six_bit_mask,
          reserved3 := 0, reserved2 := 1, reserved1 := 1, gate_size := 1, reserved0 := 0, dpl := 0,
          present := 1\<rparr>)]"

definition set_system_gate :: "nat \<Rightarrow> u32 \<Rightarrow> idt_desc list \<Rightarrow> idt_desc list" where
  "set_system_gate num address idt =
     idt[num := SET_IDT_ENTRY address
       ((idt ! num)\<lparr>seg_selector := KERNEL_CS, reserved4 := reserved4 (idt ! num) AND six_bit_mask,
          reserved3 := 1, reserved2 := 1, reserved1 := 1, gate_size := 1, reserved0 := 0, dpl := 3,
          present := 1\<rparr>)]"

text \<open>The handlers the table names.\<close>

datatype isr = divide_by_0 | debug | non_mask_intr | breakpoint | overflow | out_of_bounds | invalid_op
  | no_coprocessor | double_fault | coprocessor_segment_overrun | bad_TSS | no_segment | stack_fault
  | general_protection | page_fault | coprocessor_fault | alignment_check | machine_check
  | simd_coprocessor_error | ignore_int | keyboard_handler | rtc_handler | syscall_handler

definition init_idt :: "(isr \<Rightarrow> u32) \<Rightarrow> idt_desc list \<Rightarrow> idt_desc list" where
  "init_idt addr idt =
     (let idt = set_trap_gate 0 (addr divide_by_0) idt;
          idt = set_trap_gate 1 (addr debug) idt;
          idt = set_intr_gate 2 (addr non_mask_intr) idt;
          idt = set_system_gate 3 (addr breakpoint) idt;
          idt = set_system_gate 4 (addr overflow) idt;
          idt = set_system_gate 5 (addr out_of_bounds) idt;
          idt = set_trap_gate 6 (addr invalid_op) idt;
          idt = set_trap_gate 7 (addr no_coprocessor) idt;
          idt = set_trap_gate 8 (addr double_fault) idt;
          idt = set_trap_gate 9 (addr coprocessor_segment_overrun) idt;
          idt = set_trap_gate 10 (addr bad_TSS) idt;
          idt = set_trap_gate 11 (addr no_segment) idt;
          idt = set_trap_gate 12 (addr stack_fault) idt;
          idt = set_trap_gate 13 (addr general_protection) idt;
          idt = set_intr_gate 14 (addr page_fault) idt;
          idt = set_trap_gate 15 (addr coprocessor_fault) idt;
          idt = set_trap_gate 16 (addr alignment_check) idt;
          idt = set_trap_gate 17 (addr machine_check) idt;
          idt = set_trap_gate 18 (addr simd_coprocessor_error) idt;
          idt = fold (\<lambda>i. set_trap_gate i (addr ignore_int)) [19..<32] idt;
          idt = fold (\<lambda>i. set_intr_gate i (addr ignore_int)) [32..<256] idt;
          idt = set_intr_gate 33 (addr keyboard_handler) idt;
          idt = set_intr_gate 40 (addr rtc_handler) idt
      in set_system_gate 128 (addr syscall_handler) idt)"

text \<open>What each exception handler prints before it stops; \<open>None\<close> for the handlers that are not
  exception handlers.\<close>

fun exception_message :: "isr \<Rightarrow> string option" where
  "exception_message divide_by_0 = Some ''divide_by_0 error exception''"
| "exception_message debug = Some ''debug error exception''"
| "exception_message non_mask_intr = Some ''non_mask_intr exception''"
| "exception_message breakpoint = Some ''breakpoint exception''"
| "exception_message overflow = Some ''overflow exception''"
| "exception_message out_of_bounds = Some ''out_of_bounds exception''"
| "exception_message invalid_op = Some ''invalid_op exception''"
| "exception_message no_coprocessor = Some ''no_coprocessor exception''"
| "exception_message double_fault = Some ''double_fault exception''"
| "exception_message coprocessor_segment_overrun = Some ''coprocessor_segment_overrun exception''"
| "exception_message bad_TSS = Some ''bad_TSS exception''"
| "exception_message no_segment = Some ''no_segment exception''"
| "exception_message stack_fault = Some ''stack_fault exception''"
| "exception_message general_protection = Some ''general_protection exception''"
| "exception_message page_fault = Some (''page_fault exception'' @ [CHR 0x0A])"
| "exception_message coprocessor_fault = Some ''coprocessor_fault exception''"
| "exception_message alignment_check = Some ''alignment_check exception''"
| "exception_message machine_check = Some ''machine_check exception''"
| "exception_message simd_coprocessor_error = Some ''simd_coprocessor_error exception''"
| "exception_message ignore_int = Some ''ignored exceptions. ''"
| "exception_message _ = None"

text \<open>The state in which an exception handler enters its endless loop. \<open>ignore_int\<close> alone does not
  switch interrupts off first. \<open>conv_buf\<close> is the local array of \<open>printf\<close>.\<close>

definition exception_stop :: "mem \<Rightarrow> isr \<Rightarrow> 'a lib_state_scheme \<Rightarrow> 'a lib_state_scheme option" where
  "exception_stop conv_buf e s =
     Option.bind (exception_message e) (\<lambda>msg.
       Option.bind (printf (lit msg) conv_buf [] s) (\<lambda>(_, s).
         Some (if e = ignore_int then s else cli s)))"

section \<open>The table\<close>

datatype gate = Trap | Interrupt | System

text \<open>What the processor reads from a descriptor: the handler's address, and the gate's type and
  privilege, for a present 32-bit gate into the kernel's code segment.\<close>

definition gate_handler :: "idt_desc \<Rightarrow> u32" where
  "gate_handler d = push_bit 16 (ucast (offset_31_16 d)) OR ucast (offset_15_00 d)"

definition is_gate :: "gate \<Rightarrow> u32 \<Rightarrow> idt_desc \<Rightarrow> bool" where
  "is_gate k a d \<longleftrightarrow> gate_handler d = a \<and> seg_selector d = KERNEL_CS \<and> present d = 1
     \<and> reserved0 d = 0 \<and> gate_size d = 1 \<and> reserved1 d = 1 \<and> reserved2 d = 1
     \<and> reserved3 d = (if k = Interrupt then 0 else 1) \<and> dpl d = (if k = System then 3 else 0)"

text \<open>The table the kernel means to have.\<close>

definition idt_spec :: "nat \<Rightarrow> gate \<times> isr" where
  "idt_spec n =
     (if n = 128 then (System, syscall_handler)
      else if n = 40 then (Interrupt, rtc_handler)
      else if n = 33 then (Interrupt, keyboard_handler)
      else if 32 \<le> n then (Interrupt, ignore_int)
      else if 19 \<le> n then (Trap, ignore_int)
      else ([Trap, Trap, Interrupt, System, System, System, Trap, Trap, Trap, Trap, Trap, Trap, Trap, Trap,
             Interrupt, Trap, Trap, Trap, Trap] ! n,
            [divide_by_0, debug, non_mask_intr, breakpoint, overflow, out_of_bounds, invalid_op,
             no_coprocessor, double_fault, coprocessor_segment_overrun, bad_TSS, no_segment, stack_fault,
             general_protection, page_fault, coprocessor_fault, alignment_check, machine_check,
             simd_coprocessor_error] ! n))"

lemma halves_join: "push_bit 16 (ucast (ucast (drop_bit 16 (a AND 0xFFFF0000) :: u32) :: u16))
    OR ucast (ucast (a AND 0xFFFF :: u32) :: u16) = (a :: u32)"
proof -
  have m: "(0xFFFF :: u32) = mask 16" "(0xFFFF0000 :: u32) = push_bit 16 (mask 16)"
    by (simp_all add: mask_eq_exp_minus_1)
  show ?thesis unfolding m by (rule bit_word_eqI) (auto simp: bit_simps)
qed

lemma gate_entry:
  assumes "num < length t"
  shows "is_gate Trap a (set_trap_gate num a t ! num)" "is_gate Interrupt a (set_intr_gate num a t ! num)"
    "is_gate System a (set_system_gate num a t ! num)"
  using assms halves_join [of a]
  by (simp_all add: is_gate_def gate_handler_def set_trap_gate_def set_intr_gate_def set_system_gate_def
      SET_IDT_ENTRY_def del: drop_bit_and push_bit_and)

lemma gate_length [simp]: "length (set_trap_gate n a t) = length t" "length (set_intr_gate n a t) = length t"
  "length (set_system_gate n a t) = length t"
  by (simp_all add: set_trap_gate_def set_intr_gate_def set_system_gate_def)

lemma gate_other [simp]: "n \<noteq> num \<Longrightarrow> set_trap_gate num a t ! n = t ! n"
  "n \<noteq> num \<Longrightarrow> set_intr_gate num a t ! n = t ! n" "n \<noteq> num \<Longrightarrow> set_system_gate num a t ! n = t ! n"
  by (simp_all add: set_trap_gate_def set_intr_gate_def set_system_gate_def)

text \<open>The two loops over the unused vectors.\<close>

lemma fold_gate_length [simp]:
  "length (fold (\<lambda>i. set_trap_gate i a) ns t) = length t" "length (fold (\<lambda>i. set_intr_gate i a) ns t) = length t"
  by (induction ns arbitrary: t) simp_all

lemma fold_gate_other [simp]:
  "n \<notin> set ns \<Longrightarrow> fold (\<lambda>i. set_trap_gate i a) ns t ! n = t ! n"
  "n \<notin> set ns \<Longrightarrow> fold (\<lambda>i. set_intr_gate i a) ns t ! n = t ! n"
  by (induction ns arbitrary: t) simp_all

lemma fold_gate_entry:
  "n \<in> set ns \<Longrightarrow> n < length t \<Longrightarrow> is_gate Trap a (fold (\<lambda>i. set_trap_gate i a) ns t ! n)"
  "n \<in> set ns \<Longrightarrow> n < length t \<Longrightarrow> is_gate Interrupt a (fold (\<lambda>i. set_intr_gate i a) ns t ! n)"
proof (induction ns arbitrary: t)
  case (Cons m ns)
  { case 1
    show ?case
    proof (cases "n \<in> set ns")
      case False
      then show ?thesis using 1 by (simp add: gate_entry)
    qed (use 1 Cons.IH(1) in simp) }
  { case 2
    show ?case
    proof (cases "n \<in> set ns")
      case False
      then show ?thesis using 2 by (simp add: gate_entry)
    qed (use 2 Cons.IH(2) in simp) }
qed simp_all

lemma below_19: "n < (19 :: nat) \<Longrightarrow> n \<in> {0, 1, 2, 3, 4, 5, 6, 7, 8, 9, 10, 11, 12, 13, 14, 15, 16, 17, 18}"
  by (simp add: less_Suc_eq numeral_eq_Suc)

lemma idt_gate:
  assumes "length idt = 256" "n < 256"
  shows "is_gate (fst (idt_spec n)) (addr (snd (idt_spec n))) (init_idt addr idt ! n)"
proof (cases "n < 19")
  case True
  then have "n \<in> {0, 1, 2, 3, 4, 5, 6, 7, 8, 9, 10, 11, 12, 13, 14, 15, 16, 17, 18}" by (rule below_19)
  then show ?thesis unfolding insert_iff empty_iff
    by (elim disjE) (simp_all add: init_idt_def Let_def idt_spec_def gate_entry assms(1) del: upt_rec_numeral)
next
  case False
  then show ?thesis using assms
    by (auto simp: init_idt_def Let_def idt_spec_def gate_entry fold_gate_entry simp del: upt_rec_numeral)
qed

section \<open>Properties\<close>

text \<open>After \<open>init_idt\<close> every one of the 256 vectors is a present 32-bit gate into the kernel's code
  segment whose offset halves give back the address of the intended handler, of the intended
  kind: only breakpoint, overflow, bounds and the system call may be raised from user mode, and
  only vector 2, the page fault and the vectors from 32 on, the system call apart, switch
  interrupts off on entry.\<close>

theorem init_idt_gates:
  assumes "length idt = 256" "n < 256"
  shows "is_gate (fst (idt_spec n)) (addr (snd (idt_spec n))) (init_idt addr idt ! n)
    \<and> length (init_idt addr idt) = 256
    \<and> (dpl (init_idt addr idt ! n) = 3 \<longleftrightarrow> n \<in> {3, 4, 5, 128})"
proof -
  have "is_gate (fst (idt_spec n)) (addr (snd (idt_spec n))) (init_idt addr idt ! n)"
    using assms by (rule idt_gate)
  moreover have "fst (idt_spec n) = System \<longleftrightarrow> n \<in> {3, 4, 5, 128}"
  proof (cases "n < 19")
    case True
    then have "n \<in> {0, 1, 2, 3, 4, 5, 6, 7, 8, 9, 10, 11, 12, 13, 14, 15, 16, 17, 18}" by (rule below_19)
    then show ?thesis unfolding insert_iff empty_iff by (elim disjE) (simp_all add: idt_spec_def)
  qed (auto simp: idt_spec_def)
  ultimately show ?thesis
    using assms(1) by (auto simp: is_gate_def init_idt_def Let_def simp del: upt_rec_numeral)
qed

theorem init_idt_gates_witness:
  "\<exists>d. is_gate System 0x401234 (init_idt (\<lambda>e. if e = syscall_handler then 0x401234 else 0) (replicate 256 d) ! 128)"
  using init_idt_gates [of "replicate 256 undefined" 128 "\<lambda>e. if e = syscall_handler then 0x401234 else 0"]
  by (auto simp: idt_spec_def)

text \<open>Every exception handler reaches its endless loop with exactly its message printed at the
  cursor and with interrupts off; the handler of the unused vectors keeps the interrupt flag as
  it was.\<close>

theorem exception_stops:
  "(exception_message e = Some msg \<longrightarrow>
     exception_stop conv_buf e s
       = Some ((fold putc (str msg) s)\<lparr>int_on := e = ignore_int \<and> int_on s\<rparr>))
   \<and> (exception_message e = None \<longleftrightarrow> e \<in> {keyboard_handler, rtc_handler, syscall_handler})"
proof -
  have "0 \<notin> set (str msg) \<and> 0x25 \<notin> set (str msg) \<and> length msg < 2 ^ 31" if "exception_message e = Some msg"
    using that by (cases e) (auto simp: str_def)
  moreover have "int_on (fold putc cs s) = int_on s" for cs by (induction cs arbitrary: s) simp_all
  ultimately show ?thesis
    by (cases e) (auto simp: exception_stop_def printf_plain cli_def)
qed

theorem exception_stops_witness:
  "map_option int_on (exception_stop (\<lambda>_. 0) page_fault
     \<lparr>ram = (\<lambda>_. 0), out_log = [], int_on = True, cr3 = 0, screen_x = 0, screen_y = 0\<rparr>) = Some False"
  using exception_stops [of page_fault "''page_fault exception'' @ [CHR 0x0A]" "\<lambda>_. 0"
    "\<lparr>ram = (\<lambda>_. 0), out_log = [], int_on = True, cr3 = 0, screen_x = 0, screen_y = 0\<rparr>"] by simp

end
