(* ===== verification/Boot.thy ===== *)
theory Boot
  imports FileRead "HOL-Library.Monad_Syntax"
begin

unbundle bit_operations_syntax

text \<open>
  What the kernel reads from the boot loader: the structures of \<^verbatim>\<open>student-distrib/multiboot.h\<close> and
  the first half of \<open>entry\<close> in \<^verbatim>\<open>kernel.c\<close>, which prints them and takes the file system's image to
  be the last module. The structures are read from memory each time the code reads them, since
  printing writes to the screen's memory. The properties say that the report is printed to its
  end and which text it is; the bounds are those of a cursor that can stand one row below the
  screen after a newline.
\<close>

section \<open>The boot loader's structures\<close>

record elf_section_header_table_t =
  elf_num :: u32
  elf_size :: u32
  elf_addr :: u32
  elf_shndx :: u32

record multiboot_info_t =
  mbi_flags :: u32
  mem_lower :: u32
  mem_upper :: u32
  boot_device :: u32
  cmdline :: u32
  mods_count :: u32
  mods_addr :: u32
  elf_sec :: elf_section_header_table_t
  mmap_length :: u32
  mmap_addr :: u32

record module_t =
  mod_start :: u32
  mod_end :: u32
  mod_string :: u32
  mod_reserved :: u32

record memory_map_t =
  map_size :: u32
  base_addr_low :: u32
  base_addr_high :: u32
  length_low :: u32
  length_high :: u32
  map_type :: u32

definition MULTIBOOT_BOOTLOADER_MAGIC :: u32 where "MULTIBOOT_BOOTLOADER_MAGIC = 0x2BADB002"

definition mbi_at :: "mem \<Rightarrow> u32 \<Rightarrow> multiboot_info_t" where
  "mbi_at m a = \<lparr>mbi_flags = ld32 m a, mem_lower = ld32 m (a + 4), mem_upper = ld32 m (a + 8),
     boot_device = ld32 m (a + 12), cmdline = ld32 m (a + 16), mods_count = ld32 m (a + 20),
     mods_addr = ld32 m (a + 24),
     elf_sec = \<lparr>elf_num = ld32 m (a + 28), elf_size = ld32 m (a + 32), elf_addr = ld32 m (a + 36),
       elf_shndx = ld32 m (a + 40)\<rparr>,
     mmap_length = ld32 m (a + 44), mmap_addr = ld32 m (a + 48)\<rparr>"

definition module_at :: "mem \<Rightarrow> u32 \<Rightarrow> module_t" where
  "module_at m a = \<lparr>mod_start = ld32 m a, mod_end = ld32 m (a + 4), mod_string = ld32 m (a + 8),
     mod_reserved = ld32 m (a + 12)\<rparr>"

definition memory_map_at :: "mem \<Rightarrow> u32 \<Rightarrow> memory_map_t" where
  "memory_map_at m a = \<lparr>map_size = ld32 m a, base_addr_low = ld32 m (a + 4), base_addr_high = ld32 m (a + 8),
     length_low = ld32 m (a + 12), length_high = ld32 m (a + 16), map_type = ld32 m (a + 20)\<rparr>"

definition CHECK_FLAG :: "u32 \<Rightarrow> nat \<Rightarrow> bool" where
  "CHECK_FLAG w b \<longleftrightarrow> w AND push_bit b 1 \<noteq> 0"

section \<open>The report\<close>

text \<open>A \<open>printf\<close> whose result is dropped; \<open>conv_buf\<close> is its local array.\<close>

definition say :: "mem \<Rightarrow> string \<Rightarrow> u32 list \<Rightarrow> 'a lib_state_scheme \<Rightarrow> 'a lib_state_scheme option" where
  "say conv_buf msg args s = map_option snd (printf (lit msg) conv_buf args s)"

definition report_memory :: "mem \<Rightarrow> u32 \<Rightarrow> 'a lib_state_scheme \<Rightarrow> 'a lib_state_scheme option" where
  "report_memory conv_buf addr s =
     (let mbi = mbi_at (ram s) addr
      in if CHECK_FLAG (mbi_flags mbi) 0
         then say conv_buf ''mem_lower = %uKB, mem_upper = %uKB\<newline>'' [mem_lower mbi, mem_upper mbi] s else Some s)"

definition report_device :: "mem \<Rightarrow> u32 \<Rightarrow> 'a lib_state_scheme \<Rightarrow> 'a lib_state_scheme option" where
  "report_device conv_buf addr s =
     (let mbi = mbi_at (ram s) addr
      in if CHECK_FLAG (mbi_flags mbi) 1 then say conv_buf ''boot_device = 0x%#x\<newline>'' [boot_device mbi] s else Some s)"

definition report_cmdline :: "mem \<Rightarrow> u32 \<Rightarrow> 'a lib_state_scheme \<Rightarrow> 'a lib_state_scheme option" where
  "report_cmdline conv_buf addr s =
     (let mbi = mbi_at (ram s) addr
      in if CHECK_FLAG (mbi_flags mbi) 2 then say conv_buf ''cmdline = %s\<newline>'' [cmdline mbi] s else Some s)"

text \<open>The loop over the first bytes of a module; a \<open>char\<close> is extended with its sign.\<close>

fun report_bytes :: "mem \<Rightarrow> u32 \<Rightarrow> nat list \<Rightarrow> 'a lib_state_scheme \<Rightarrow> 'a lib_state_scheme option" where
  "report_bytes conv_buf md [] s = Some s"
| "report_bytes conv_buf md (i # is) s = do {
     s \<leftarrow> say conv_buf ''0x%x '' [scast (ram s (mod_start (module_at (ram s) md) + of_nat i))] s;
     report_bytes conv_buf md is s
   }"

text \<open>One module, and the loop over the modules. \<open>mod_count\<close> is compared as an unsigned number.\<close>

definition report_module :: "mem \<Rightarrow> u32 \<Rightarrow> u32 \<Rightarrow> 'a fs_state_scheme \<Rightarrow> 'a fs_state_scheme option" where
  "report_module conv_buf mod_count md s = do {
     s \<leftarrow> say conv_buf ''Module %d loaded at address: 0x%#x\<newline>'' [mod_count, mod_start (module_at (ram s) md)] s;
     s \<leftarrow> say conv_buf ''Module %d ends at address: 0x%#x\<newline>'' [mod_count, mod_end (module_at (ram s) md)] s;
     s \<leftarrow> say conv_buf ''First few bytes of module:\<newline>'' [] s;
     s \<leftarrow> report_bytes conv_buf md [0..<16] (s\<lparr>BOOT_BLOCK_PTR := mod_start (module_at (ram s) md)\<rparr>);
     say conv_buf ''\<newline>'' [] s
   }"

partial_function (option) report_modules ::
  "mem \<Rightarrow> u32 \<Rightarrow> u32 \<Rightarrow> u32 \<Rightarrow> 'a fs_state_scheme \<Rightarrow> 'a fs_state_scheme option"
where
  "report_modules conv_buf addr mod_count md s =
     (if mod_count < mods_count (mbi_at (ram s) addr) then do {
        s \<leftarrow> report_module conv_buf mod_count md s;
        report_modules conv_buf addr (mod_count + 1) (md + 16) s
      } else Some s)"

definition report_elf :: "mem \<Rightarrow> u32 \<Rightarrow> 'a lib_state_scheme \<Rightarrow> 'a lib_state_scheme option" where
  "report_elf conv_buf addr s =
     (let mbi = mbi_at (ram s) addr; e = elf_sec mbi
      in if CHECK_FLAG (mbi_flags mbi) 5
         then say conv_buf ''elf_sec: num = %u, size = 0x%#x, addr = 0x%#x, shndx = 0x%#x\<newline>''
           [elf_num e, elf_size e, elf_addr e, elf_shndx e] s
         else Some s)"

text \<open>The loop over the memory map.\<close>

partial_function (option) report_map_from ::
  "mem \<Rightarrow> u32 \<Rightarrow> u32 \<Rightarrow> 'a lib_state_scheme \<Rightarrow> 'a lib_state_scheme option"
where
  "report_map_from conv_buf addr mmap s =
     (let mbi = mbi_at (ram s) addr; e = memory_map_at (ram s) mmap
      in if mmap < mmap_addr mbi + mmap_length mbi then do {
           s \<leftarrow> say conv_buf
             '' size = 0x%x,     base_addr = 0x%#x%#x\<newline>     type = 0x%x,  length    = 0x%#x%#x\<newline>''
             [map_size e, base_addr_high e, base_addr_low e, map_type e, length_high e, length_low e] s;
           report_map_from conv_buf addr (mmap + map_size (memory_map_at (ram s) mmap) + 4) s
         } else Some s)"

definition report_map :: "mem \<Rightarrow> u32 \<Rightarrow> 'a lib_state_scheme \<Rightarrow> 'a lib_state_scheme option" where
  "report_map conv_buf addr s =
     (if CHECK_FLAG (mbi_flags (mbi_at (ram s) addr)) 6 then do {
        s \<leftarrow> say conv_buf ''mmap_addr = 0x%#x, mmap_length = 0x%x\<newline>''
          [mmap_addr (mbi_at (ram s) addr), mmap_length (mbi_at (ram s) addr)] s;
        report_map_from conv_buf addr (mmap_addr (mbi_at (ram s) addr)) s
      } else Some s)"

text \<open>The report as a whole, and whether \<open>entry\<close> goes on after it.\<close>

definition boot_report :: "mem \<Rightarrow> u32 \<Rightarrow> 'a fs_state_scheme \<Rightarrow> (bool \<times> 'a fs_state_scheme) option" where
  "boot_report conv_buf addr s = do {
     s \<leftarrow> say conv_buf ''flags = 0x%#x\<newline>'' [mbi_flags (mbi_at (ram s) addr)] s;
     s \<leftarrow> report_memory conv_buf addr s;
     s \<leftarrow> report_device conv_buf addr s;
     s \<leftarrow> report_cmdline conv_buf addr s;
     s \<leftarrow> (if CHECK_FLAG (mbi_flags (mbi_at (ram s) addr)) 3
           then report_modules conv_buf addr 0 (mods_addr (mbi_at (ram s) addr)) s else Some s);
     if CHECK_FLAG (mbi_flags (mbi_at (ram s) addr)) 4 \<and> CHECK_FLAG (mbi_flags (mbi_at (ram s) addr)) 5
     then do {
       s \<leftarrow> say conv_buf ''Both bits 4 and 5 are set.\<newline>'' [] s;
       Some (False, s)
     } else do {
       s \<leftarrow> report_elf conv_buf addr s;
       s \<leftarrow> report_map conv_buf addr s;
       Some (True, s)
     }
   }"

section \<open>Formats as text\<close>

text \<open>What a conversion prints, and what a format prints with its arguments, as far as it does not
  read strings from memory; with the arguments that are left.\<close>

definition conv_text :: "bool \<Rightarrow> u8 \<Rightarrow> u32 \<Rightarrow> u8 list option" where
  "conv_text alternate c v =
     (if c = 0x78 then Some (if alternate then hex8 v else numeral_text 16 (unat v))
      else if c = 0x75 then Some (numeral_text 10 (unat v))
      else if c = 0x64 then Some (int_text (sint v)) else None)"

fun render :: "u8 list \<Rightarrow> u32 list \<Rightarrow> (u8 list \<times> u32 list) option" where
  "render [] args = Some ([], args)"
| "render (c # cs) args =
     (if c \<noteq> 0x25 then map_option (apfst ((#) c)) (render cs args)
      else case cs of [] \<Rightarrow> None | d # ds \<Rightarrow> (case args of [] \<Rightarrow> None | v # vs \<Rightarrow>
        if d \<noteq> 0x23 then (case conv_text False d v of Some t \<Rightarrow> map_option (apfst ((@) t)) (render ds vs) | None \<Rightarrow> None)
        else (case ds of [] \<Rightarrow> None | e # es \<Rightarrow>
          (case conv_text True e v of Some t \<Rightarrow> map_option (apfst ((@) t)) (render es vs) | None \<Rightarrow> None))))"

declare render.simps(2) [simp del]

lemma convert_text:
  assumes "conv_text alternate c v = Some t"
  shows "convert conv_buf alternate c (v # args) s = Some (args, fold putc t s)" "c \<noteq> 0x23"
proof -
  have "print_x conv_buf False v s = Some (fold putc (numeral_text 16 (unat v)) s)"
    using itoa_text [where r = 16 and m = conv_buf and v = v and a = 0] by (simp add: print_x_def puts_buf_cstring)
  moreover have "print_u conv_buf v s = Some (fold putc (numeral_text 10 (unat v)) s)"
    using itoa_text [where r = 10 and m = conv_buf and v = v and a = 0] by (simp add: print_u_def puts_buf_cstring)
  ultimately show "convert conv_buf alternate c (v # args) s = Some (args, fold putc t s)"
    using assms by (auto simp: conv_text_def convert_def print_alt_x_eq print_d_eq split: if_splits)
  show "c \<noteq> 0x23" using assms by (auto simp: conv_text_def split: if_splits)
qed

lemma skip_hash_stop: "fmt p \<noteq> 0x23 \<Longrightarrow> skip_hash fmt p a = Some (p, a)"
  by (simp add: skip_hash.simps)

lemma printf_render:
  "rd m p (length cs) = cs \<Longrightarrow> 0 \<notin> set cs \<Longrightarrow> render cs args = Some (out, args') \<Longrightarrow>
   printf_loop m conv_buf p args s = printf_loop m conv_buf (p + of_nat (length cs)) args' (fold putc out s)"
proof (induction cs args arbitrary: p out s rule: render.induct)
  case (2 c cs args)
  have p: "m p = c" "rd m (p + 1) (length cs) = cs" "c \<noteq> 0" "0 \<notin> set cs" using 2(4,5) by (simp_all add: rd_Suc)
  show ?case
  proof (cases "c = 0x25")
    case False
    then obtain out' where "render cs args = Some (out', args')" "out = c # out'"
      using 2(6) by (auto simp: render.simps(2))
    then show ?thesis using p False 2(1) [OF False p(2,4)] by (subst printf_loop.simps) (simp add: algebra_simps)
  next
    case True
    then obtain d ds v vs where cs: "cs = d # ds" "args = v # vs"
      using 2(6) by (auto simp: render.simps(2) split: list.splits)
    have d: "m (p + 1) = d" "rd m (p + 1 + 1) (length ds) = ds" "0 \<notin> set ds" using p cs by (simp_all add: rd_Suc)
    show ?thesis
    proof (cases "d = 0x23")
      case False
      then obtain t out' where t: "conv_text False d v = Some t" "render ds vs = Some (out', args')" "out = t @ out'"
        using 2(6) True cs by (auto simp: render.simps(2) split: option.splits)
      then have "printf_loop m conv_buf p args s = printf_loop m conv_buf (p + 1 + 1) vs (fold putc t s)"
        using True p(1) d(1) False by (subst printf_loop.simps) (simp add: cs skip_hash_stop convert_text [OF t(1)])
      also have "\<dots> = printf_loop m conv_buf (p + 1 + 1 + of_nat (length ds)) args' (fold putc out' (fold putc t s))"
        using 2(2) [OF _ cs(1) cs(2) _ t(1)] True False t d by simp
      finally show ?thesis using t(3) cs by (simp add: algebra_simps)
    next
      case hash: True
      then obtain e es t out' where t: "ds = e # es" "conv_text True e v = Some t" "render es vs = Some (out', args')" "out = t @ out'"
        using 2(6) True cs by (auto simp: render.simps(2) split: option.splits list.splits)
      have e: "m (p + 1 + 1) = e" "rd m (p + 1 + 1 + 1) (length es) = es" "0 \<notin> set es" using d t(1) by (simp_all add: rd_Suc)
      have "skip_hash m (p + 1) False = Some (p + 1 + 1, True)"
        using hash d(1) e(1) convert_text(2) [OF t(2)] by (subst skip_hash.simps) (simp add: skip_hash_stop)
      then have "printf_loop m conv_buf p args s = printf_loop m conv_buf (p + 1 + 1 + 1) vs (fold putc t s)"
        using True p(1) e(1) by (subst printf_loop.simps) (simp add: cs convert_text [OF t(2)])
      also have "\<dots> = printf_loop m conv_buf (p + 1 + 1 + 1 + of_nat (length es)) args' (fold putc out' (fold putc t s))"
        using 2(3) [OF _ cs(1) cs(2) _ t(1,2)] True hash t e by simp
      finally show ?thesis using t cs by (simp add: algebra_simps)
    qed
  qed
qed simp

lemma say_render:
  assumes "render (str msg) args = Some (out, args')" "0 \<notin> set (str msg)" "length msg < 2 ^ 31"
  shows "say conv_buf msg args s = Some (fold putc out s)"
proof -
  have c: "cstring (lit msg) 0 (str msg)" using assms(2,3) by (rule cstring_lit)
  have "printf_loop (lit msg) conv_buf 0 args s
      = printf_loop (lit msg) conv_buf (0 + of_nat (length (str msg))) args' (fold putc out s)"
    using cstringD(1) [OF c] assms(2,1) by (rule printf_render)
  moreover have "lit msg (0 + of_nat (length (str msg))) = 0" using cstringD(2) [OF c] .
  ultimately show ?thesis by (simp add: say_def printf_def printf_loop.simps)
qed

section \<open>The cursor during the report\<close>

text \<open>
  A newline moves the cursor down without a bound, and the next character brings it back. A text is
  \<^emph>\<open>tame\<close> if no newline meets a cursor that another newline may have moved below the screen; \<open>fresh\<close>
  says that the last character was a newline.
\<close>

fun tame :: "bool \<Rightarrow> u8 list \<Rightarrow> bool" where
  "tame fresh [] \<longleftrightarrow> True"
| "tame fresh (c # cs) \<longleftrightarrow> (if c = 0x0A \<or> c = 0x0D then \<not> fresh \<and> tame True cs else tame False cs)"

lemma tame_mono: "tame True cs \<Longrightarrow> tame fresh cs"
proof (cases cs)
  case (Cons c ds)
  assume "tame True cs"
  then have "c \<noteq> 0x0A \<and> c \<noteq> 0x0D" "tame False ds" unfolding Cons tame.simps by metis+
  then show ?thesis unfolding Cons tame.simps by metis
qed simp

lemma tame_append: "tame fresh xs \<Longrightarrow> tame True ys \<Longrightarrow> tame fresh (xs @ ys)"
proof (induction xs arbitrary: fresh)
  case Nil
  then show ?case using tame_mono by simp
qed (simp split: if_splits)

lemma tame_concat: "\<forall>xs\<in>set xss. tame True xs \<Longrightarrow> tame True (concat xss)"
  by (induction xss) (auto intro: tame_append)

lemma tame_plain:
  "0x0A \<notin> set xs \<Longrightarrow> 0x0D \<notin> set xs \<Longrightarrow> tame fresh (xs @ ys) \<longleftrightarrow> tame (fresh \<and> xs = []) ys"
  by (induction xs arbitrary: fresh) auto

lemma digits_above: "r \<le> 36 \<Longrightarrow> c \<in> set (digits r v) \<Longrightarrow> 0x30 \<le> c"
proof (induction r v rule: digits.induct)
  case (1 r v)
  have "list_all (\<lambda>i. 0x30 \<le> lookup ! i) [0..<36]" by (simp add: lookup_def str_def upt_rec)
  then have "\<forall>i<36. 0x30 \<le> lookup ! i" by (simp add: list_all_iff)
  then have "r < 2 \<or> v = 0 \<or> 0x30 \<le> lookup ! (v mod r)" using mod_radix [of r v] "1.prems"(1) by auto
  then show ?case using 1 by (auto simp: digits.simps [of r v] split: if_splits)
qed

lemma numeral_text_plain [simp]:
  assumes "2 \<le> r" "r \<le> 36"
  shows "0x0A \<notin> set (numeral_text r v)" "0x0D \<notin> set (numeral_text r v)" "numeral_text r v \<noteq> []"
proof -
  have "c \<in> set (numeral_text r v) \<Longrightarrow> 0x30 \<le> c" for c
    using digits_above [OF assms(2), of c v] by (auto simp: numeral_text_def split: if_splits)
  then show "0x0A \<notin> set (numeral_text r v)" "0x0D \<notin> set (numeral_text r v)" by fastforce+
  show "numeral_text r v \<noteq> []" using assms(1) by (simp add: numeral_text_def digits.simps)
qed

lemma text_plain [simp]:
  "0x0A \<notin> set (hex8 v)" "0x0D \<notin> set (hex8 v)" "hex8 v \<noteq> []"
  "0x0A \<notin> set (int_text i)" "0x0D \<notin> set (int_text i)" "int_text i \<noteq> []"
  by (auto simp: hex8_def int_text_def)

text \<open>The cursor is on the screen or, after a newline, in the row below it.\<close>

definition boot_cursor :: "bool \<Rightarrow> 'a lib_state_scheme \<Rightarrow> bool" where
  "boot_cursor fresh s \<longleftrightarrow>
     0 \<le> screen_x s \<and> screen_x s < 80 \<and> 0 \<le> screen_y s \<and> screen_y s < (if fresh then 26 else 25)"

abbreviation boot_screen :: "u32 set" where
  "boot_screen \<equiv> region VIDEO 4160"

definition same_off :: "mem \<Rightarrow> mem \<Rightarrow> bool" where
  "same_off m m' \<longleftrightarrow> (\<forall>a. a \<notin> boot_screen \<longrightarrow> m' a = m a)"

lemma boot_putc:
  assumes "boot_cursor fresh s" "tame fresh [c]"
  shows "boot_cursor (c = 0x0A \<or> c = 0x0D) (putc c s)" "same_off (ram s) (ram (putc c s))"
proof -
  let ?k = "nat ((80 * screen_y s + screen_x s) * 2)"
  have k: "?k + 1 < 4160" "cell (screen_x s) (screen_y s) = VIDEO + of_nat ?k"
    using assms(1) by (auto simp: boot_cursor_def cell_def NUM_COLS_def split: if_splits)
  have "cell (screen_x s) (screen_y s) \<in> boot_screen" "cell (screen_x s) (screen_y s) + 1 \<in> boot_screen"
    using in_region [of ?k 4160 VIDEO] in_region [of "?k + 1" 4160 VIDEO] k by (simp_all add: algebra_simps)
  then show "same_off (ram s) (ram (putc c s))"
    by (auto simp: same_off_def putc_def Let_def)
  have "0 \<le> (screen_x s + 1) smod 80 \<and> (screen_x s + 1) smod 80 < 80"
    using assms(1) by (simp add: boot_cursor_def smod_mod_positive)
  moreover from this have "((screen_x s + 1) smod 80) sdiv 80 = 0" by (intro small_sdiv) auto
  moreover have "0 \<le> screen_y s smod 25 \<and> screen_y s smod 25 < 25"
    using assms(1) by (simp add: boot_cursor_def smod_mod_positive)
  ultimately show "boot_cursor (c = 0x0A \<or> c = 0x0D) (putc c s)"
    using assms by (auto simp: boot_cursor_def putc_def Let_def NUM_COLS_def NUM_ROWS_def split: if_splits)
qed

lemma boot_putcs:
  "boot_cursor fresh s \<Longrightarrow> tame fresh cs \<Longrightarrow> boot_cursor True (fold putc cs s) \<and> same_off (ram s) (ram (fold putc cs s))"
proof (induction cs arbitrary: fresh s)
  case Nil
  then show ?case by (auto simp: boot_cursor_def same_off_def split: if_splits)
next
  case (Cons c cs)
  have "tame fresh [c]" "tame (c = 0x0A \<or> c = 0x0D) cs" using Cons.prems(2) by (auto split: if_splits)
  then show ?case
    using Cons.IH [of "c = 0x0A \<or> c = 0x0D" "putc c s"] boot_putc [OF Cons.prems(1), of c] by (auto simp: same_off_def)
qed

section \<open>Printing in order\<close>

text \<open>The part of memory that the report may read is still as it was, and the cursor is in range.\<close>

definition report_state :: "mem \<Rightarrow> 'a lib_state_scheme \<Rightarrow> bool" where
  "report_state m s \<longleftrightarrow> boot_cursor True s \<and> same_off m (ram s)"

lemma report_next: "report_state m s \<Longrightarrow> tame True out \<Longrightarrow> report_state m (fold putc out s)"
  using boot_putcs [of True s out] by (auto simp: report_state_def same_off_def)

definition set_boot :: "u32 option \<Rightarrow> 'a fs_state_scheme \<Rightarrow> 'a fs_state_scheme" where
  "set_boot b s = (case b of None \<Rightarrow> s | Some p \<Rightarrow> s\<lparr>BOOT_BLOCK_PTR := p\<rparr>)"

lemma putc_boot: "putc c (s\<lparr>BOOT_BLOCK_PTR := p\<rparr>) = (putc c s)\<lparr>BOOT_BLOCK_PTR := p\<rparr>"
  by (simp add: putc_def Let_def)

lemma putcs_boot: "fold putc cs (s\<lparr>BOOT_BLOCK_PTR := p\<rparr>) = (fold putc cs s)\<lparr>BOOT_BLOCK_PTR := p\<rparr>"
  by (induction cs arbitrary: s) (simp_all add: putc_boot)

lemma putcs_set_boot: "fold putc cs (set_boot b s) = set_boot b (fold putc cs s)"
  by (cases b) (simp_all add: set_boot_def putcs_boot)

lemma set_boot_state [simp]: "report_state m (set_boot b s) = report_state m s"
  by (cases b) (simp_all add: set_boot_def report_state_def boot_cursor_def)

text \<open>\<open>prints m f out b\<close>: run where memory is that of \<open>m\<close> off the screen, \<open>f\<close> returns with the text \<open>out\<close>
  printed, and with the image's address set to \<open>b\<close> if \<open>b\<close> gives one.\<close>

definition prints :: "mem \<Rightarrow> ('a fs_state_scheme \<Rightarrow> 'a fs_state_scheme option) \<Rightarrow> u8 list \<Rightarrow> u32 option \<Rightarrow> bool" where
  "prints m f out b \<longleftrightarrow>
     tame True out \<and> (\<forall>s. report_state m s \<longrightarrow> f s = Some (set_boot b (fold putc out s)))"

lemma printsI:
  "tame True out \<Longrightarrow> (\<And>s. report_state m s \<Longrightarrow> f s = Some (set_boot b (fold putc out s))) \<Longrightarrow> prints m f out b"
  by (simp add: prints_def)

lemma prints_tame: "prints m f out b \<Longrightarrow> tame True out"
  by (simp add: prints_def)

lemma prints_bind:
  assumes "prints m f xs b" "prints m g ys c"
  shows "prints m (\<lambda>s. Option.bind (f s) g) (xs @ ys) (if c = None then b else c)"
proof (rule printsI)
  show "tame True (xs @ ys)" using assms by (simp add: prints_def tame_append)
  fix s :: "'a fs_state_scheme"
  assume s: "report_state m s"
  let ?t = "set_boot b (fold putc xs s)"
  have "f s = Some ?t" using assms(1) s by (simp add: prints_def)
  moreover have "report_state m ?t" using report_next [OF s, of xs] assms(1) by (simp add: prints_def)
  then have "g ?t = Some (set_boot c (fold putc ys ?t))" using assms(2) by (simp add: prints_def)
  ultimately show "Option.bind (f s) g = Some (set_boot (if c = None then b else c) (fold putc (xs @ ys) s))"
    unfolding putcs_set_boot by (auto simp: set_boot_def split: option.splits)
qed

lemma if_same_eq [simp]: "(if c = None then None else c) = c"
  by simp

lemma prints_then: "prints m f xs b \<Longrightarrow> prints m g ys None \<Longrightarrow> prints m (\<lambda>s. Option.bind (f s) g) (xs @ ys) b"
  using prints_bind [of m f xs b g ys None] by simp

section \<open>The text of the report\<close>

definition memory_text :: "multiboot_info_t \<Rightarrow> u8 list" where
  "memory_text mbi = (if CHECK_FLAG (mbi_flags mbi) 0 then str ''mem_lower = '' @ numeral_text 10 (unat (mem_lower mbi))
     @ str ''KB, mem_upper = '' @ numeral_text 10 (unat (mem_upper mbi)) @ str ''KB\<newline>'' else [])"

definition device_text :: "multiboot_info_t \<Rightarrow> u8 list" where
  "device_text mbi = (if CHECK_FLAG (mbi_flags mbi) 1 then str ''boot_device = 0x'' @ hex8 (boot_device mbi) @ str ''\<newline>'' else [])"

definition cmdline_text :: "multiboot_info_t \<Rightarrow> u8 list \<Rightarrow> u8 list" where
  "cmdline_text mbi cmd = (if CHECK_FLAG (mbi_flags mbi) 2 then str ''cmdline = '' @ cmd @ str ''\<newline>'' else [])"

definition byte_text :: "mem \<Rightarrow> u32 \<Rightarrow> nat \<Rightarrow> u8 list" where
  "byte_text m start i = str ''0x'' @ numeral_text 16 (unat (scast (m (start + of_nat i)) :: u32)) @ str '' ''"

definition module_text :: "mem \<Rightarrow> u32 \<Rightarrow> u32 \<Rightarrow> u8 list" where
  "module_text m k md =
     (let e = module_at m md
      in str ''Module '' @ int_text (sint k) @ str '' loaded at address: 0x'' @ hex8 (mod_start e) @ str ''\<newline>''
         @ str ''Module '' @ int_text (sint k) @ str '' ends at address: 0x'' @ hex8 (mod_end e) @ str ''\<newline>''
         @ str ''First few bytes of module:\<newline>''
         @ concat (map (byte_text m (mod_start e)) [0..<16]) @ str ''\<newline>'')"

definition module_no :: "multiboot_info_t \<Rightarrow> nat \<Rightarrow> u32" where
  "module_no mbi k = mods_addr mbi + of_nat k * 16"

definition modules_text :: "mem \<Rightarrow> multiboot_info_t \<Rightarrow> u8 list" where
  "modules_text m mbi = (if CHECK_FLAG (mbi_flags mbi) 3
     then concat (map (\<lambda>k. module_text m (of_nat k) (module_no mbi k)) [0..<unat (mods_count mbi)]) else [])"

definition elf_text :: "multiboot_info_t \<Rightarrow> u8 list" where
  "elf_text mbi = (if CHECK_FLAG (mbi_flags mbi) 5 then str ''elf_sec: num = '' @ numeral_text 10 (unat (elf_num (elf_sec mbi)))
     @ str '', size = 0x'' @ hex8 (elf_size (elf_sec mbi)) @ str '', addr = 0x'' @ hex8 (elf_addr (elf_sec mbi))
     @ str '', shndx = 0x'' @ hex8 (elf_shndx (elf_sec mbi)) @ str ''\<newline>'' else [])"

definition map_entry_text :: "mem \<Rightarrow> u32 \<Rightarrow> u8 list" where
  "map_entry_text m p =
     (let e = memory_map_at m p
      in str '' size = 0x'' @ numeral_text 16 (unat (map_size e)) @ str '',     base_addr = 0x'' @ hex8 (base_addr_high e)
         @ hex8 (base_addr_low e) @ str ''\<newline>     type = 0x'' @ numeral_text 16 (unat (map_type e))
         @ str '',  length    = 0x'' @ hex8 (length_high e) @ hex8 (length_low e) @ str ''\<newline>'')"

definition map_text :: "mem \<Rightarrow> multiboot_info_t \<Rightarrow> u32 list \<Rightarrow> u8 list" where
  "map_text m mbi ps = (if CHECK_FLAG (mbi_flags mbi) 6
     then str ''mmap_addr = 0x'' @ hex8 (mmap_addr mbi) @ str '', mmap_length = 0x''
       @ numeral_text 16 (unat (mmap_length mbi)) @ str ''\<newline>'' @ concat (map (map_entry_text m) ps) else [])"

text \<open>The whole report for a command line \<open>cmd\<close> and a memory map with entries at \<open>ps\<close>, whether it ends
  with the refusal, and the image it chooses.\<close>

definition both_bits :: "multiboot_info_t \<Rightarrow> bool" where
  "both_bits mbi \<longleftrightarrow> CHECK_FLAG (mbi_flags mbi) 4 \<and> CHECK_FLAG (mbi_flags mbi) 5"

definition report_text :: "mem \<Rightarrow> multiboot_info_t \<Rightarrow> u8 list \<Rightarrow> u32 list \<Rightarrow> u8 list" where
  "report_text m mbi cmd ps =
     (str ''flags = 0x'' @ hex8 (mbi_flags mbi) @ str ''\<newline>'') @ memory_text mbi @ device_text mbi @ cmdline_text mbi cmd
     @ modules_text m mbi
     @ (if both_bits mbi then str ''Both bits 4 and 5 are set.\<newline>'' else elf_text mbi @ map_text m mbi ps)"

definition last_module :: "mem \<Rightarrow> multiboot_info_t \<Rightarrow> u32 option" where
  "last_module m mbi = (if CHECK_FLAG (mbi_flags mbi) 3 \<and> mods_count mbi \<noteq> 0
     then Some (mod_start (module_at m (module_no mbi (unat (mods_count mbi) - 1)))) else None)"

text \<open>The structures lie off the screen, the command line is one line, and the entries of the memory
  map follow one another up to its end.\<close>

abbreviation off_screen :: "u32 \<Rightarrow> nat \<Rightarrow> bool" where
  "off_screen a n \<equiv> apart a n VIDEO 4160"

fun map_path :: "mem \<Rightarrow> u32 \<Rightarrow> u32 \<Rightarrow> u32 list \<Rightarrow> bool" where
  "map_path m fin p [] \<longleftrightarrow> \<not> p < fin"
| "map_path m fin p (q # qs) \<longleftrightarrow> q = p \<and> p < fin \<and> off_screen p 24 \<and> map_path m fin (p + ld32 m p + 4) qs"

definition boot_info :: "mem \<Rightarrow> u32 \<Rightarrow> u8 list \<Rightarrow> u32 list \<Rightarrow> bool" where
  "boot_info m addr cmd ps \<longleftrightarrow>
     (let mbi = mbi_at m addr
      in off_screen addr 52
         \<and> (CHECK_FLAG (mbi_flags mbi) 2 \<longrightarrow> cstring m (cmdline mbi) cmd \<and> 0x0A \<notin> set cmd \<and> 0x0D \<notin> set cmd
              \<and> off_screen (cmdline mbi) (length cmd + 1))
         \<and> (CHECK_FLAG (mbi_flags mbi) 3 \<longrightarrow> (\<forall>k < unat (mods_count mbi). off_screen (module_no mbi k) 16
              \<and> off_screen (mod_start (module_at m (module_no mbi k))) 16))
         \<and> (CHECK_FLAG (mbi_flags mbi) 6 \<longrightarrow> map_path m (mmap_addr mbi + mmap_length mbi) (mmap_addr mbi) ps))"

section \<open>Reading off the screen\<close>

lemma off_byte: "same_off m m' \<Longrightarrow> off_screen a n \<Longrightarrow> n \<le> 2 ^ 32 \<Longrightarrow> i < n \<Longrightarrow> m' (a + of_nat i) = m (a + of_nat i)"
proof -
  assume o: "same_off m m'" "off_screen a n" "n \<le> 2 ^ 32" "i < n"
  then have "a + of_nat i \<notin> boot_screen" using apart_region [OF o(2)] in_region [OF o(4,3), of a] by blast
  then show ?thesis using o(1) by (simp add: same_off_def)
qed

lemma ld32_cong: "(\<And>j. j < 4 \<Longrightarrow> m' (a + of_nat j) = m (a + of_nat j)) \<Longrightarrow> ld32 m' a = ld32 m a"
proof -
  assume e: "\<And>j. j < 4 \<Longrightarrow> m' (a + of_nat j) = m (a + of_nat j)"
  show ?thesis using e [of 0] e [of 1] e [of 2] e [of 3] by (simp add: ld32_def)
qed

lemma off_word:
  assumes "same_off m m'" "off_screen a n" "n \<le> 2 ^ 32" "i + 4 \<le> n"
  shows "ld32 m' (a + of_nat i) = ld32 m (a + of_nat i)"
proof (rule ld32_cong)
  show "m' (a + of_nat i + of_nat j) = m (a + of_nat i + of_nat j)" if "j < 4" for j
    using off_byte [OF assms(1-3), of "i + j"] that assms(4) by (simp add: add.assoc)
qed

lemma off_mbi: "same_off m m' \<Longrightarrow> off_screen a 52 \<Longrightarrow> mbi_at m' a = mbi_at m a"
proof -
  assume o: "same_off m m'" "off_screen a 52"
  have w: "ld32 m' (a + of_nat i) = ld32 m (a + of_nat i)" if "i \<le> 48" for i using off_word [OF o, of i] that by simp
  show ?thesis
    using w [of 0] w [of 4] w [of 8] w [of 12] w [of 16] w [of 20] w [of 24] w [of 28] w [of 32] w [of 36] w [of 40] w [of 44] w [of 48]
    by (simp add: mbi_at_def)
qed

lemma off_module: "same_off m m' \<Longrightarrow> off_screen a 16 \<Longrightarrow> module_at m' a = module_at m a"
  using off_word [of m m' a 16 0] off_word [of m m' a 16 4] off_word [of m m' a 16 8] off_word [of m m' a 16 12]
  by (simp add: module_at_def)

lemma off_map: "same_off m m' \<Longrightarrow> off_screen a 24 \<Longrightarrow> memory_map_at m' a = memory_map_at m a"
  using off_word [of m m' a 24 0] off_word [of m m' a 24 4] off_word [of m m' a 24 8] off_word [of m m' a 24 12]
    off_word [of m m' a 24 16] off_word [of m m' a 24 20]
  by (simp add: memory_map_at_def)

section \<open>The report prints its text\<close>

named_theorems report_simps "texts, formats and the structures they come from"

lemmas [report_simps] = str_def render.simps(2) conv_text_def tame_plain

lemma stateD: "report_state m s \<Longrightarrow> same_off m (ram s)"
  by (simp add: report_state_def)

text \<open>What each format of the report prints.\<close>

lemma say_texts:
  "say conv_buf ''flags = 0x%#x\<newline>'' [a] s
    = Some (fold putc (str ''flags = 0x'' @ hex8 a @ str ''\<newline>'') s)"
  "say conv_buf ''mem_lower = %uKB, mem_upper = %uKB\<newline>'' [a, b] s
    = Some (fold putc (str ''mem_lower = '' @ numeral_text 10 (unat a) @ str ''KB, mem_upper = ''
      @ numeral_text 10 (unat b) @ str ''KB\<newline>'') s)"
  "say conv_buf ''boot_device = 0x%#x\<newline>'' [a] s
    = Some (fold putc (str ''boot_device = 0x'' @ hex8 a @ str ''\<newline>'') s)"
  "say conv_buf ''Module %d loaded at address: 0x%#x\<newline>'' [a, b] s
    = Some (fold putc (str ''Module '' @ int_text (sint a) @ str '' loaded at address: 0x'' @ hex8 b
      @ str ''\<newline>'') s)"
  "say conv_buf ''Module %d ends at address: 0x%#x\<newline>'' [a, b] s
    = Some (fold putc (str ''Module '' @ int_text (sint a) @ str '' ends at address: 0x'' @ hex8 b
      @ str ''\<newline>'') s)"
  "say conv_buf ''First few bytes of module:\<newline>'' [] s
    = Some (fold putc (str ''First few bytes of module:\<newline>'') s)"
  "say conv_buf ''0x%x '' [a] s
    = Some (fold putc (str ''0x'' @ numeral_text 16 (unat a) @ str '' '') s)"
  "say conv_buf ''\<newline>'' [] s
    = Some (fold putc (str ''\<newline>'') s)"
  "say conv_buf ''Both bits 4 and 5 are set.\<newline>'' [] s
    = Some (fold putc (str ''Both bits 4 and 5 are set.\<newline>'') s)"
  "say conv_buf ''elf_sec: num = %u, size = 0x%#x, addr = 0x%#x, shndx = 0x%#x\<newline>'' [a, b, c, d] s
    = Some (fold putc (str ''elf_sec: num = '' @ numeral_text 10 (unat a) @ str '', size = 0x'' @ hex8 b
      @ str '', addr = 0x'' @ hex8 c @ str '', shndx = 0x'' @ hex8 d @ str ''\<newline>'') s)"
  "say conv_buf ''mmap_addr = 0x%#x, mmap_length = 0x%x\<newline>'' [a, b] s
    = Some (fold putc (str ''mmap_addr = 0x'' @ hex8 a @ str '', mmap_length = 0x'' @ numeral_text 16 (unat b)
      @ str ''\<newline>'') s)"
  "say conv_buf '' size = 0x%x,     base_addr = 0x%#x%#x\<newline>     type = 0x%x,  length    = 0x%#x%#x\<newline>'' [a, b, c, d, e, f] s
    = Some (fold putc (str '' size = 0x'' @ numeral_text 16 (unat a) @ str '',     base_addr = 0x'' @ hex8 b
      @ hex8 c @ str ''\<newline>     type = 0x'' @ numeral_text 16 (unat d) @ str '',  length    = 0x'' @ hex8 e
      @ hex8 f @ str ''\<newline>'') s)"
  by (rule say_render [where args' = "[]"]; simp add: report_simps)+

lemma prints_cong: "prints m g out b \<Longrightarrow> (\<And>s. report_state m s \<Longrightarrow> f s = g s) \<Longrightarrow> prints m f out b"
  by (simp add: prints_def)

lemma state_mbi: "report_state m s \<Longrightarrow> off_screen addr 52 \<Longrightarrow> mbi_at (ram s) addr = mbi_at m addr"
  by (simp add: off_mbi stateD)

lemma state_module: "report_state m s \<Longrightarrow> off_screen md 16 \<Longrightarrow> module_at (ram s) md = module_at m md"
  by (simp add: off_module stateD)

lemma prints_memory: "off_screen addr 52 \<Longrightarrow> prints m (report_memory conv_buf addr) (memory_text (mbi_at m addr)) None"
  by (rule printsI) (simp add: memory_text_def report_simps,
    simp add: report_memory_def memory_text_def Let_def state_mbi say_texts set_boot_def)

lemma prints_device: "off_screen addr 52 \<Longrightarrow> prints m (report_device conv_buf addr) (device_text (mbi_at m addr)) None"
  by (rule printsI) (simp add: device_text_def report_simps,
    simp add: report_device_def device_text_def Let_def state_mbi say_texts set_boot_def)

lemma prints_elf: "off_screen addr 52 \<Longrightarrow> prints m (report_elf conv_buf addr) (elf_text (mbi_at m addr)) None"
  by (rule printsI) (simp add: elf_text_def report_simps,
    simp add: report_elf_def elf_text_def Let_def state_mbi say_texts set_boot_def)

text \<open>The string of \<open>%s\<close> is read while it is printed.\<close>

lemma puts_off:
  "cstring m (p + i) cs \<Longrightarrow> 0x0A \<notin> set cs \<Longrightarrow> 0x0D \<notin> set cs \<Longrightarrow> report_state m s \<Longrightarrow>
   off_screen (p + i) (length cs + 1) \<Longrightarrow>
   puts_from ram p i s = Some (i + of_nat (length cs), fold putc cs s)"
proof (induction cs arbitrary: i s)
  case Nil
  then have "ram s (p + i) = 0" using off_byte [OF stateD, of m s "p + i" 1 0] by (simp add: cstring_Nil)
  then show ?case by (simp add: puts_from.simps)
next
  case (Cons c cs)
  have c: "cstring m (p + (i + 1)) cs" "m (p + i) = c" "c \<noteq> 0" "length cs < 2 ^ 31"
    using Cons.prems(1) cstringD(4) [OF Cons.prems(1)] by (simp_all add: cstring_Cons add.assoc)
  have r: "ram s (p + i) = c"
    using off_byte [OF stateD [OF Cons.prems(4)] Cons.prems(5), of 0] c by simp
  have "off_screen (p + i + 1) (length cs + 1)"
    using apart_sub [OF Cons.prems(5), of 1 "length cs + 1" 0 4160] c(4) by simp
  moreover have "report_state m (putc c s)" using report_next [OF Cons.prems(4), of "[c]"] Cons.prems(2,3) by auto
  ultimately show ?case
    using Cons.IH [of "i + 1" "putc c s"] c(1-3) r Cons.prems(2,3)
    by (subst puts_from.simps) (simp add: algebra_simps)
qed

lemma prints_cmdline:
  assumes "boot_info m addr cmd ps"
  shows "prints m (report_cmdline conv_buf addr) (cmdline_text (mbi_at m addr) cmd) None"
proof (cases "CHECK_FLAG (mbi_flags (mbi_at m addr)) 2")
  case True
  let ?mbi = "mbi_at m addr" and ?f = "''cmdline = %s\<newline>''"
  have i: "off_screen addr 52" "cstring m (cmdline ?mbi) cmd" "0x0A \<notin> set cmd" "0x0D \<notin> set cmd"
      "off_screen (cmdline ?mbi) (length cmd + 1)"
    using assms True by (simp_all add: boot_info_def Let_def)
  have f: "rd (lit ?f) 0 10 = str ''cmdline = ''" "lit ?f 10 = 0x25" "lit ?f 11 = 0x73" "lit ?f 12 = 0x0A" "lit ?f 13 = 0"
    by (simp_all add: lit_def wr_def str_def rd_def upt_rec)
  show ?thesis
  proof (rule printsI)
    show "tame True (cmdline_text ?mbi cmd)" using True i(3,4) by (simp add: cmdline_text_def report_simps)
    fix s :: "'a fs_state_scheme"
    assume s: "report_state m s"
    let ?s = "fold putc (str ''cmdline = '') s"
    have l: "length (str ''cmdline = '') = 10" "0 \<notin> set (str ''cmdline = '')"
        "render (str ''cmdline = '') [cmdline ?mbi] = Some (str ''cmdline = '', [cmdline ?mbi])"
      by (simp_all add: str_def render.simps(2))
    have t: "tame True (str ''cmdline = '')" by (simp add: str_def)
    have "puts ram (cmdline ?mbi) ?s = Some (of_nat (length cmd), fold putc cmd ?s)"
      using puts_off [of m "cmdline ?mbi" 0 cmd ?s] i(2-5) report_next [OF s t] by (simp add: puts_def)
    moreover have "printf_loop (lit ?f) conv_buf 0 [cmdline ?mbi] s = printf_loop (lit ?f) conv_buf 10 [cmdline ?mbi] ?s"
      using printf_render [of "lit ?f" 0 "str ''cmdline = ''" "[cmdline ?mbi]" "str ''cmdline = ''" "[cmdline ?mbi]" conv_buf s]
        f(1) l by simp
    ultimately have "say conv_buf ?f [cmdline ?mbi] s = Some (fold putc (str ''cmdline = '' @ cmd @ str ''\<newline>'') s)"
      using f by (simp add: say_def printf_def printf_loop.simps [of _ _ 10] printf_loop.simps [of _ _ 12]
          printf_loop.simps [of _ _ 13] skip_hash_stop convert_def) (simp add: str_def)
    then show "report_cmdline conv_buf addr s = Some (set_boot None (fold putc (cmdline_text ?mbi cmd) s))"
      using True by (simp add: report_cmdline_def Let_def state_mbi [OF s i(1)] cmdline_text_def set_boot_def)
  qed
next
  case False
  moreover have "off_screen addr 52" using assms by (simp add: boot_info_def Let_def)
  ultimately show ?thesis
    by (intro printsI) (simp_all add: cmdline_text_def report_cmdline_def Let_def state_mbi set_boot_def)
qed

text \<open>Modules.\<close>

lemma byte_tame: "tame True (byte_text m a i)"
  by (simp add: byte_text_def report_simps)

lemma report_bytes_run:
  assumes "off_screen md 16" "off_screen (mod_start (module_at m md)) 16"
  shows "report_state m s \<Longrightarrow> \<forall>i\<in>set is. i < 16 \<Longrightarrow>
    report_bytes conv_buf md is s = Some (fold putc (concat (map (byte_text m (mod_start (module_at m md))) is)) s)"
proof (induction "is" arbitrary: s)
  case (Cons i "is")
  let ?a = "mod_start (module_at m md)"
  have "ram s (?a + of_nat i) = m (?a + of_nat i)"
    using off_byte [OF stateD [OF Cons.prems(1)] assms(2), of i] Cons.prems(2) by simp
  then have "say conv_buf ''0x%x '' [scast (ram s (mod_start (module_at (ram s) md) + of_nat i))] s
      = Some (fold putc (byte_text m ?a i) s)"
    by (simp add: state_module [OF Cons.prems(1) assms(1)] say_texts byte_text_def)
  then show ?case
    using Cons.IH [OF report_next [OF Cons.prems(1) byte_tame [of m ?a i]]] Cons.prems(2) by simp
qed simp

lemma bytes_tame: "tame True (concat (map (byte_text m a) [0..<16]) @ str ''\<newline>'')"
proof -
  have "0x0A \<notin> set (byte_text m a i)" "0x0D \<notin> set (byte_text m a i)" "byte_text m a i \<noteq> []" for i
    by (simp_all add: byte_text_def str_def)
  then show ?thesis by (subst tame_plain) (auto simp: str_def intro!: exI [of _ 0])
qed

lemma prints_module:
  assumes "off_screen md 16" "off_screen (mod_start (module_at m md)) 16"
  shows "prints m (report_module conv_buf k md :: 'a fs_state_scheme \<Rightarrow> _) (module_text m k md) (Some (mod_start (module_at m md)))"
proof -
  let ?e = "module_at m md"
  have a: "prints m (\<lambda>s. say conv_buf ''Module %d loaded at address: 0x%#x\<newline>'' [k, mod_start (module_at (ram s) md)] s)
      (str ''Module '' @ int_text (sint k) @ str '' loaded at address: 0x'' @ hex8 (mod_start ?e) @ str ''\<newline>'') None"
    by (rule printsI) (simp add: report_simps, simp add: state_module [OF _ assms(1)] say_texts set_boot_def)
  have b: "prints m (\<lambda>s. say conv_buf ''Module %d ends at address: 0x%#x\<newline>'' [k, mod_end (module_at (ram s) md)] s)
      (str ''Module '' @ int_text (sint k) @ str '' ends at address: 0x'' @ hex8 (mod_end ?e) @ str ''\<newline>'') None"
    by (rule printsI) (simp add: report_simps, simp add: state_module [OF _ assms(1)] say_texts set_boot_def)
  have c: "prints m (say conv_buf ''First few bytes of module:\<newline>'' []) (str ''First few bytes of module:\<newline>'') None"
    by (rule printsI) (simp add: report_simps, simp add: say_texts set_boot_def)
  have d: "prints m (\<lambda>s :: 'a fs_state_scheme. Option.bind (report_bytes conv_buf md [0..<16] (s\<lparr>BOOT_BLOCK_PTR := mod_start (module_at (ram s) md)\<rparr>))
      (say conv_buf ''\<newline>'' [])) (concat (map (byte_text m (mod_start ?e)) [0..<16]) @ str ''\<newline>'') (Some (mod_start ?e))"
  proof (rule printsI)
    fix s :: "'a fs_state_scheme"
    assume s: "report_state m s"
    then have "report_state m (s\<lparr>BOOT_BLOCK_PTR := mod_start ?e\<rparr>)" using set_boot_state [of m "Some (mod_start ?e)" s] by (simp add: set_boot_def)
    from report_bytes_run [OF assms this, of "[0..<16]" conv_buf]
    show "Option.bind (report_bytes conv_buf md [0..<16] (s\<lparr>BOOT_BLOCK_PTR := mod_start (module_at (ram s) md)\<rparr>))
      (say conv_buf ''\<newline>'' []) = Some (set_boot (Some (mod_start ?e)) (fold putc (concat (map (byte_text m (mod_start ?e)) [0..<16]) @ str ''\<newline>'') s))"
      by (simp add: state_module [OF s assms(1)] set_boot_def say_texts putcs_boot del: upt_rec_numeral)
  qed (rule bytes_tame)
  show ?thesis
    using prints_bind [OF a prints_bind [OF b prints_bind [OF c d]]]
    by (simp add: report_module_def [abs_def] module_text_def Let_def del: upt_rec_numeral)
qed

lemma module_next: "module_no mbi k + 16 = module_no mbi (Suc k)"
  by (simp add: module_no_def algebra_simps)

lemma prints_modules:
  assumes "off_screen addr 52" "\<forall>k < unat (mods_count mbi). off_screen (module_no mbi k) 16
    \<and> off_screen (mod_start (module_at m (module_no mbi k))) 16" "mbi = mbi_at m addr" "k \<le> unat (mods_count mbi)"
  shows "prints m (report_modules conv_buf addr (of_nat k) (module_no mbi k) :: 'a fs_state_scheme \<Rightarrow> _)
    (concat (map (\<lambda>k. module_text m (of_nat k) (module_no mbi k)) [k..<unat (mods_count mbi)]))
    (if k = unat (mods_count mbi) then None else Some (mod_start (module_at m (module_no mbi (unat (mods_count mbi) - 1)))))"
  using assms(4)
proof (induction "unat (mods_count mbi) - k" arbitrary: k)
  case 0
  then have "k = unat (mods_count mbi)" by simp
  then show ?case
    using assms(1,3) by (intro printsI) (simp_all add: report_modules.simps [of _ _ _ _ "_ :: 'a fs_state_scheme"] state_mbi set_boot_def)
next
  case (Suc n)
  let ?c = "unat (mods_count mbi)"
  have k: "k < ?c" using Suc.hyps(2) by simp
  have kc: "of_nat k < mods_count mbi" using k unat_u32_lt [of "mods_count mbi"] by (simp add: word_less_nat_alt unat_of_nat_u32)
  have ih: "prints m (report_modules conv_buf addr (of_nat (Suc k)) (module_no mbi (Suc k)) :: 'a fs_state_scheme \<Rightarrow> _)
    (concat (map (\<lambda>k. module_text m (of_nat k) (module_no mbi k)) [Suc k..<?c]))
    (if Suc k = ?c then None else Some (mod_start (module_at m (module_no mbi (?c - 1)))))"
    using Suc k by (intro Suc.hyps(1)) simp_all
  have md: "prints m (report_module conv_buf (of_nat k) (module_no mbi k)) (module_text m (of_nat k) (module_no mbi k))
      (Some (mod_start (module_at m (module_no mbi k))))"
    using assms(2) k by (intro prints_module) simp_all
  have "prints m (report_modules conv_buf addr (of_nat k) (module_no mbi k) :: 'a fs_state_scheme \<Rightarrow> _)
      (module_text m (of_nat k) (module_no mbi k) @ concat (map (\<lambda>k. module_text m (of_nat k) (module_no mbi k)) [Suc k..<?c]))
      (Some (mod_start (module_at m (module_no mbi (?c - 1)))))"
  proof (rule prints_cong)
    show "prints m (\<lambda>s :: 'a fs_state_scheme. Option.bind (report_module conv_buf (of_nat k) (module_no mbi k) s)
          (report_modules conv_buf addr (of_nat (Suc k)) (module_no mbi (Suc k))))
        (module_text m (of_nat k) (module_no mbi k) @ concat (map (\<lambda>k. module_text m (of_nat k) (module_no mbi k)) [Suc k..<?c]))
        (Some (mod_start (module_at m (module_no mbi (?c - 1)))))"
    proof (cases "Suc k = ?c")
      case True
      then have "?c - 1 = k" by simp
      then show ?thesis using prints_bind [OF md ih] True by simp
    qed (use prints_bind [OF md ih] in simp)
    show "report_modules conv_buf addr (of_nat k) (module_no mbi k) s = Option.bind (report_module conv_buf (of_nat k) (module_no mbi k) s)
          (report_modules conv_buf addr (of_nat (Suc k)) (module_no mbi (Suc k)))" if "report_state m s" for s :: "'a fs_state_scheme"
      using kc assms(3) state_mbi [OF that assms(1)]
      by (subst report_modules.simps) (simp add: module_next add.commute)
  qed
  then show ?case using k by (simp add: upt_conv_Cons)
qed

text \<open>The memory map.\<close>

lemma entry_tame: "tame True (map_entry_text m p)"
  by (simp add: map_entry_text_def Let_def report_simps)

lemma prints_map_from:
  assumes "off_screen addr 52" "map_path m (mmap_addr (mbi_at m addr) + mmap_length (mbi_at m addr)) p ps"
  shows "prints m (report_map_from conv_buf addr p :: 'a fs_state_scheme \<Rightarrow> _) (concat (map (map_entry_text m) ps)) None"
  using assms(2)
proof (induction ps arbitrary: p)
  case Nil
  then show ?case
    using assms(1) by (intro printsI) (simp_all add: report_map_from.simps Let_def state_mbi set_boot_def)
next
  case (Cons q qs)
  let ?f = "\<lambda>s :: 'a fs_state_scheme. say conv_buf '' size = 0x%x,     base_addr = 0x%#x%#x\<newline>     type = 0x%x,  length    = 0x%#x%#x\<newline>''
    [map_size (memory_map_at m p), base_addr_high (memory_map_at m p), base_addr_low (memory_map_at m p),
     map_type (memory_map_at m p), length_high (memory_map_at m p), length_low (memory_map_at m p)] s"
  have p: "off_screen p 24" "q = p" "map_path m (mmap_addr (mbi_at m addr) + mmap_length (mbi_at m addr)) (p + ld32 m p + 4) qs"
    using Cons.prems by simp_all
  have e: "memory_map_at (ram s) p = memory_map_at m p" if "report_state m s" for s :: "'a fs_state_scheme"
    using off_map [OF stateD [OF that] p(1)] .
  have sz: "map_size (memory_map_at m p) = ld32 m p" by (simp add: memory_map_at_def)
  have f: "prints m ?f (map_entry_text m p) None"
    by (rule printsI) (rule entry_tame, simp add: say_texts map_entry_text_def Let_def set_boot_def)
  have "prints m (\<lambda>s. Option.bind (?f s) (report_map_from conv_buf addr (p + ld32 m p + 4)))
      (concat (map (map_entry_text m) (q # qs))) None"
    using prints_then [OF f Cons.IH [OF p(3)]] p(2) by simp
  moreover have "report_map_from conv_buf addr p s = Option.bind (?f s) (report_map_from conv_buf addr (p + ld32 m p + 4))"
    if s: "report_state m s" for s :: "'a fs_state_scheme"
  proof -
    have u: "?f s = Some (fold putc (map_entry_text m p) s)" using f s by (simp add: prints_def set_boot_def)
    have "memory_map_at (ram (fold putc (map_entry_text m p) s)) p = memory_map_at m p"
      using e [OF report_next [OF s entry_tame]] .
    then show ?thesis using Cons.prems u
      by (subst report_map_from.simps) (simp add: Let_def state_mbi [OF s assms(1)] e [OF s] sz)
  qed
  ultimately show ?case by (rule prints_cong)
qed

lemma prints_map:
  assumes "boot_info m addr cmd ps"
  shows "prints m (report_map conv_buf addr) (map_text m (mbi_at m addr) ps) None"
proof (cases "CHECK_FLAG (mbi_flags (mbi_at m addr)) 6")
  case True
  let ?mbi = "mbi_at m addr"
  let ?t = "str ''mmap_addr = 0x'' @ hex8 (mmap_addr ?mbi) @ str '', mmap_length = 0x''
    @ numeral_text 16 (unat (mmap_length ?mbi)) @ str ''\<newline>''"
  have i: "off_screen addr 52" "map_path m (mmap_addr ?mbi + mmap_length ?mbi) (mmap_addr ?mbi) ps"
    using assms True by (simp_all add: boot_info_def Let_def)
  have "prints m (\<lambda>s. Option.bind (say conv_buf ''mmap_addr = 0x%#x, mmap_length = 0x%x\<newline>'' [mmap_addr ?mbi, mmap_length ?mbi] s)
      (\<lambda>s. report_map_from conv_buf addr (mmap_addr (mbi_at (ram s) addr)) s)) (?t @ concat (map (map_entry_text m) ps)) None"
  proof (rule prints_then)
    show "prints m (say conv_buf ''mmap_addr = 0x%#x, mmap_length = 0x%x\<newline>'' [mmap_addr ?mbi, mmap_length ?mbi]) ?t None"
      by (rule printsI) (simp add: report_simps, simp add: say_texts set_boot_def)
    show "prints m (\<lambda>s. report_map_from conv_buf addr (mmap_addr (mbi_at (ram s) addr)) s) (concat (map (map_entry_text m) ps)) None"
      using prints_map_from [OF i] by (rule prints_cong) (simp add: state_mbi i(1))
  qed
  then show ?thesis using True
    by (simp add: map_text_def) (erule prints_cong, simp add: report_map_def state_mbi i(1))
next
  case False
  moreover have "off_screen addr 52" using assms by (simp add: boot_info_def Let_def)
  ultimately show ?thesis by (intro printsI) (simp_all add: map_text_def report_map_def state_mbi set_boot_def)
qed

lemma prints_all_modules:
  assumes "boot_info m addr cmd ps"
  shows "prints m (\<lambda>s. if CHECK_FLAG (mbi_flags (mbi_at (ram s) addr)) 3
      then report_modules conv_buf addr 0 (mods_addr (mbi_at (ram s) addr)) s else Some s)
    (modules_text m (mbi_at m addr)) (last_module m (mbi_at m addr))"
proof (cases "CHECK_FLAG (mbi_flags (mbi_at m addr)) 3")
  case True
  let ?mbi = "mbi_at m addr"
  have i: "off_screen addr 52" "\<forall>k < unat (mods_count ?mbi). off_screen (module_no ?mbi k) 16
      \<and> off_screen (mod_start (module_at m (module_no ?mbi k))) 16"
    using assms True by (simp_all add: boot_info_def Let_def)
  have first: "module_no ?mbi 0 = mods_addr ?mbi" by (simp add: module_no_def)
  have "0 = unat (mods_count ?mbi) \<longleftrightarrow> mods_count ?mbi = 0" by (metis unat_eq_zero)
  then have "prints m (report_modules conv_buf addr 0 (mods_addr ?mbi)) (modules_text m ?mbi) (last_module m ?mbi)"
    using prints_modules [OF i refl, of 0 conv_buf] True first
    by (cases "mods_count ?mbi = 0") (simp_all add: modules_text_def last_module_def)
  then show ?thesis by (rule prints_cong) (simp add: state_mbi i(1) True)
next
  case False
  moreover have "off_screen addr 52" using assms by (simp add: boot_info_def Let_def)
  ultimately show ?thesis
    by (intro printsI) (simp_all add: modules_text_def last_module_def state_mbi set_boot_def)
qed

lemma prints_flags:
  "off_screen addr 52 \<Longrightarrow> prints m (\<lambda>s. say conv_buf ''flags = 0x%#x\<newline>'' [mbi_flags (mbi_at (ram s) addr)] s)
     (str ''flags = 0x'' @ hex8 (mbi_flags (mbi_at m addr)) @ str ''\<newline>'') None"
  by (rule printsI) (simp add: report_simps, simp add: state_mbi say_texts set_boot_def)

lemma prints_both: "prints m (say conv_buf ''Both bits 4 and 5 are set.\<newline>'' []) (str ''Both bits 4 and 5 are set.\<newline>'') None"
  by (rule printsI) (simp add: str_def, simp add: say_texts set_boot_def)

lemma prints_run:
  assumes "prints m f out b" "report_state m s"
  shows "f s = Some (set_boot b (fold putc out s))" "report_state m (set_boot b (fold putc out s))"
  using assms report_next [OF assms(2), of out] by (simp_all add: prints_def)

lemma prints_tail:
  fixes s :: "'a fs_state_scheme"
  assumes "boot_info m addr cmd ps" "report_state m s" "mbi = mbi_at m addr"
  shows "(if both_bits mbi then Option.bind (say conv_buf ''Both bits 4 and 5 are set.\<newline>'' [] s) (\<lambda>s. Some (False, s))
      else Option.bind (report_elf conv_buf addr s) (\<lambda>s. Option.bind (report_map conv_buf addr s) (\<lambda>s. Some (True, s))))
    = Some (\<not> both_bits mbi, fold putc (if both_bits mbi then str ''Both bits 4 and 5 are set.\<newline>''
        else elf_text mbi @ map_text m mbi ps) s)"
proof -
  have "off_screen addr 52" using assms(1) by (simp add: boot_info_def Let_def)
  note elf = prints_run [OF prints_elf [OF this, of m conv_buf] assms(2)]
  note map = prints_run [OF prints_map [OF assms(1), of conv_buf] elf(2)]
  from elf(1) map(1) prints_run(1) [OF prints_both assms(2), of conv_buf] show ?thesis
    unfolding assms(3) by (simp add: set_boot_def)
qed

text \<open>The report up to the modules.\<close>

lemma prints_head:
  assumes "boot_info m addr cmd ps"
  defines "mbi \<equiv> mbi_at m addr"
  shows "prints m (\<lambda>s. do {
       s \<leftarrow> say conv_buf ''flags = 0x%#x\<newline>'' [mbi_flags (mbi_at (ram s) addr)] s;
       s \<leftarrow> report_memory conv_buf addr s;
       s \<leftarrow> report_device conv_buf addr s;
       s \<leftarrow> report_cmdline conv_buf addr s;
       if CHECK_FLAG (mbi_flags (mbi_at (ram s) addr)) 3
       then report_modules conv_buf addr 0 (mods_addr (mbi_at (ram s) addr)) s else Some s })
    ((str ''flags = 0x'' @ hex8 (mbi_flags mbi) @ str ''\<newline>'') @ memory_text mbi @ device_text mbi @ cmdline_text mbi cmd
      @ modules_text m mbi) (last_module m mbi)"
proof -
  have off: "off_screen addr 52" using assms(1) by (simp add: boot_info_def Let_def)
  show ?thesis
    unfolding mbi_def
    using prints_bind [OF prints_flags [OF off, of m conv_buf] prints_bind [OF prints_memory [OF off, of m conv_buf]
      prints_bind [OF prints_device [OF off, of m conv_buf] prints_bind [OF prints_cmdline [OF assms(1), of conv_buf]
        prints_all_modules [OF assms(1), of conv_buf]]]]]
    by (simp only: if_same_eq)
qed

lemma boot_report_run:
  assumes "boot_info m addr cmd ps" "report_state m s"
  defines "mbi \<equiv> mbi_at m addr"
  shows "boot_report conv_buf addr s
      = Some (\<not> both_bits mbi, set_boot (last_module m mbi) (fold putc (report_text m mbi cmd ps) s))"
    "report_state m (set_boot (last_module m mbi) (fold putc (report_text m mbi cmd ps) s))"
proof -
  have off: "off_screen addr 52" using assms(1) by (simp add: boot_info_def Let_def)
  note head = prints_run [OF prints_head [OF assms(1), of conv_buf] assms(2), folded mbi_def]
  define t where "t = set_boot (last_module m mbi) (fold putc ((str ''flags = 0x'' @ hex8 (mbi_flags mbi) @ str ''\<newline>'')
    @ memory_text mbi @ device_text mbi @ cmdline_text mbi cmd @ modules_text m mbi) s)"
  have t: "report_state m t" using head(2) unfolding t_def .
  let ?tail = "if both_bits mbi then str ''Both bits 4 and 5 are set.\<newline>'' else elf_text mbi @ map_text m mbi ps"
  have e: "fold putc ?tail t = set_boot (last_module m mbi) (fold putc (report_text m mbi cmd ps) s)"
    by (simp add: t_def putcs_set_boot report_text_def)
  have "boot_report conv_buf addr s = (if both_bits (mbi_at (ram t) addr)
      then Option.bind (say conv_buf ''Both bits 4 and 5 are set.\<newline>'' [] t) (\<lambda>s. Some (False, s))
      else Option.bind (report_elf conv_buf addr t) (\<lambda>s. Option.bind (report_map conv_buf addr s) (\<lambda>s. Some (True, s))))"
    using arg_cong [OF head(1) [folded t_def], of "\<lambda>r. Option.bind r (\<lambda>s. if both_bits (mbi_at (ram s) addr)
      then Option.bind (say conv_buf ''Both bits 4 and 5 are set.\<newline>'' [] s) (\<lambda>s. Some (False, s))
      else Option.bind (report_elf conv_buf addr s) (\<lambda>s. Option.bind (report_map conv_buf addr s) (\<lambda>s. Some (True, s))))"]
    unfolding boot_report_def both_bits_def Option.bind_assoc bind.bind_lunit by simp
  then show "boot_report conv_buf addr s
      = Some (\<not> both_bits mbi, set_boot (last_module m mbi) (fold putc (report_text m mbi cmd ps) s))"
    using prints_tail [OF assms(1) t meta_eq_to_obj_eq [OF mbi_def], of conv_buf] e state_mbi [OF t off, folded mbi_def]
    by simp
  have "tame True ?tail"
    using prints_tame [OF prints_elf [OF off]] prints_tame [OF prints_map [OF assms(1)]] prints_tame [OF prints_both]
    unfolding mbi_def by (simp add: tame_append)
  then show "report_state m (set_boot (last_module m mbi) (fold putc (report_text m mbi cmd ps) s))"
    using report_next [OF t] e by metis
qed

section \<open>Properties\<close>

text \<open>C27: the report ends for every boot loader's data that lies off the screen with a command line of one
  line and a memory map whose entries reach its end: it prints exactly the text that describes the
  data, takes the last module for the file system's image, goes on unless flags 4 and 5 are both
  set, and writes no memory but the screen and the row below it.\<close>

theorem boot_report_prints:
  assumes "boot_info (ram s) addr cmd ps" "boot_cursor True s"
  shows "\<exists>t. boot_report conv_buf addr s = Some (\<not> both_bits (mbi_at (ram s) addr), t)
    \<and> t = set_boot (last_module (ram s) (mbi_at (ram s) addr)) (fold putc (report_text (ram s) (mbi_at (ram s) addr) cmd ps) s)
    \<and> boot_cursor True t \<and> (\<forall>a. a \<notin> region VIDEO 4160 \<longrightarrow> ram t a = ram s a)"
proof -
  have "report_state (ram s) s" using assms(2) by (simp add: report_state_def same_off_def)
  from boot_report_run [OF assms(1) this] show ?thesis by (auto simp: report_state_def same_off_def)
qed

text \<open>A boot loader that passes one module, the example image.\<close>

definition boot_data :: mem where
  "boot_data = disk(0x9000 := 8, 0x9014 := 1, 0x9019 := 0xA0, 0xA002 := 0x41, 0xA006 := 0x42)"

lemma boot_data_words:
  "ld32 boot_data 0x9000 = 8" "ld32 boot_data 0x9014 = 1" "ld32 boot_data 0x9018 = 0xA000"
  "ld32 boot_data 0xA000 = 0x410000"
  by (simp_all add: ld32_def boot_data_def disk_def wr_def Let_def)

lemma boot_data_info: "boot_info boot_data 0x9000 [] []"
  by (simp add: boot_info_def Let_def mbi_at_def module_at_def module_no_def boot_data_words CHECK_FLAG_def apart_def VIDEO_def)

theorem boot_report_prints_witness:
  "\<exists>t. boot_report (\<lambda>_. 0) 0x9000 (fs_example\<lparr>ram := boot_data\<rparr>) = Some (True, t) \<and> BOOT_BLOCK_PTR t = 0x410000"
proof -
  have "boot_cursor True (fs_example\<lparr>ram := boot_data\<rparr>)" by (simp add: boot_cursor_def fs_example_def)
  moreover have "\<not> both_bits (mbi_at boot_data 0x9000)" "last_module boot_data (mbi_at boot_data 0x9000) = Some 0x410000"
    by (simp_all add: both_bits_def last_module_def mbi_at_def module_at_def module_no_def boot_data_words CHECK_FLAG_def)
  ultimately show ?thesis
    using boot_report_prints [of "fs_example\<lparr>ram := boot_data\<rparr>" "0x9000" "[]" "[]" "\<lambda>_. 0"] boot_data_info
    by (auto simp: set_boot_def)
qed

end
