(* ===== verification/Kernel.thy ===== *)
theory Kernel
  imports IDT Boot Process
begin

unbundle bit_operations_syntax

text \<open>
  The start of the kernel, \<open>entry\<close> in \<^verbatim>\<open>student-distrib/kernel.c\<close>: the report on the boot loader's data
  (\<open>Boot\<close>), the descriptors of the local descriptor table and of the task state segment
  (\<^verbatim>\<open>x86_desc.h\<close>, \<^verbatim>\<open>x86_desc.S\<close>), the initialisation of the devices in the code's order, and the first
  shell. The loads of the two registers fault (\<open>None\<close>) where the processor does. Where the linker puts
  the two segments and the handlers, and the contents of the local variables before they are
  assigned, are parameters.
\<close>

section \<open>Descriptors\<close>

type_synonym u4 = "4 word"

record seg_desc_t =
  seg_lim_15_00 :: u16
  base_15_00 :: u16
  base_23_16 :: u8
  seg_type :: u4
  seg_sys :: u1
  seg_dpl :: u2
  seg_present :: u1
  seg_lim_19_16 :: u4
  seg_avail :: u1
  seg_reserved :: u1
  seg_opsize :: u1
  seg_granularity :: u1
  base_31_24 :: u8

record kernel_state = sys_state +
  idt :: "idt_desc list"
  ldt_desc_ptr :: seg_desc_t
  tss_desc_ptr :: seg_desc_t
  ldt :: u32
  tss :: u32
  tss_ldt :: u16
  ldtr :: u16
  task_reg :: u16

definition KERNEL_TSS :: u16 where "KERNEL_TSS = 0x0030"
definition KERNEL_LDT :: u16 where "KERNEL_LDT = 0x0038"
definition TSS_SIZE :: u32 where "TSS_SIZE = 104"

text \<open>\<open>tss_bottom - tss - 1\<close> and \<open>ldt_bottom - ldt - 1\<close> of \<^verbatim>\<open>x86_desc.S\<close>.\<close>

definition tss_size :: u32 where "tss_size = 103"
definition ldt_size :: u32 where "ldt_size = 31"

lemmas kernel_consts = KERNEL_TSS_def KERNEL_LDT_def TSS_SIZE_def tss_size_def ldt_size_def

definition SET_LDT_PARAMS :: "u32 \<Rightarrow> u32 \<Rightarrow> seg_desc_t \<Rightarrow> seg_desc_t" where
  "SET_LDT_PARAMS addr lim d =
     d\<lparr>base_31_24 := ucast (drop_bit 24 (addr AND 0xFF000000)), base_23_16 := ucast (drop_bit 16 (addr AND 0x00FF0000)),
       base_15_00 := ucast (addr AND 0x0000FFFF), seg_lim_19_16 := ucast (drop_bit 16 (lim AND 0x000F0000)),
       seg_lim_15_00 := ucast (lim AND 0x0000FFFF)\<rparr>"

definition SET_TSS_PARAMS :: "u32 \<Rightarrow> u32 \<Rightarrow> seg_desc_t \<Rightarrow> seg_desc_t" where
  "SET_TSS_PARAMS addr lim d =
     d\<lparr>base_31_24 := ucast (drop_bit 24 (addr AND 0xFF000000)), base_23_16 := ucast (drop_bit 16 (addr AND 0x00FF0000)),
       base_15_00 := ucast (addr AND 0x0000FFFF), seg_lim_19_16 := ucast (drop_bit 16 (lim AND 0x000F0000)),
       seg_lim_15_00 := ucast (lim AND 0x0000FFFF)\<rparr>"

text \<open>The system segments of the global table by their selectors.\<close>

definition gdt_entry :: "u16 \<Rightarrow> 'a kernel_state_scheme \<Rightarrow> seg_desc_t option" where
  "gdt_entry sel s =
     (if sel = KERNEL_TSS then Some (tss_desc_ptr s) else if sel = KERNEL_LDT then Some (ldt_desc_ptr s) else None)"

text \<open>The processor takes a present descriptor of a local table; for the task register it takes a present
  and available 32-bit task state segment and marks it busy.\<close>

definition lldt :: "u16 \<Rightarrow> 'a kernel_state_scheme \<Rightarrow> 'a kernel_state_scheme option" where
  "lldt desc s =
     (case gdt_entry desc s of
        Some d \<Rightarrow> if seg_present d = 1 \<and> seg_sys d = 0 \<and> seg_type d = 2 then Some (s\<lparr>ldtr := desc\<rparr>) else None
      | None \<Rightarrow> None)"

definition ltr :: "u16 \<Rightarrow> 'a kernel_state_scheme \<Rightarrow> 'a kernel_state_scheme option" where
  "ltr desc s =
     (case gdt_entry desc s of
        Some d \<Rightarrow>
          if seg_present d = 1 \<and> seg_sys d = 0 \<and> seg_type d = 9
          then Some (s\<lparr>task_reg := desc, tss_desc_ptr := d\<lparr>seg_type := 0xB\<rparr>\<rparr>) else None
      | None \<Rightarrow> None)"

section \<open>The steps of \<open>entry\<close>\<close>

definition set_ldt :: "seg_desc_t \<Rightarrow> 'a kernel_state_scheme \<Rightarrow> 'a kernel_state_scheme option" where
  "set_ldt the_ldt_desc s =
     (let d = the_ldt_desc\<lparr>seg_granularity := 0, seg_opsize := 1, seg_reserved := 0, seg_avail := 0, seg_present := 1,
            seg_dpl := 0, seg_sys := 0, seg_type := 2\<rparr>;
          d = SET_LDT_PARAMS (ldt s) ldt_size d
      in lldt KERNEL_LDT (s\<lparr>ldt_desc_ptr := d\<rparr>))"

definition set_tss :: "seg_desc_t \<Rightarrow> 'a kernel_state_scheme \<Rightarrow> 'a kernel_state_scheme option" where
  "set_tss the_tss_desc s =
     (let d = the_tss_desc\<lparr>seg_granularity := 0, seg_opsize := 0, seg_reserved := 0, seg_avail := 0,
            seg_lim_19_16 := ucast (TSS_SIZE AND 0x000F0000), seg_present := 1, seg_dpl := 0, seg_sys := 0, seg_type := 9,
            seg_lim_15_00 := ucast (TSS_SIZE AND 0x0000FFFF)\<rparr>;
          d = SET_TSS_PARAMS (tss s) tss_size d;
          s = s\<lparr>tss_desc_ptr := d, tss_ldt := KERNEL_LDT, tss_ss0 := KERNEL_DS, tss_esp0 := 0x800000\<rparr>
      in ltr KERNEL_TSS s)"

definition init_devices :: "device \<Rightarrow> (isr \<Rightarrow> u32) \<Rightarrow> 'a kernel_state_scheme \<Rightarrow> 'a kernel_state_scheme" where
  "init_devices dev addr s =
     (let s = i8259_init s;
          s = s\<lparr>idt := init_idt addr (idt s)\<rparr>;
          s = fold (\<lambda>i. disable_irq (of_nat i)) [0..<16] s;
          s = paging_init s;
          s = rtc_init dev s;
          s = init_fs s;
          s = enable_irq 1 s;
          (_, s) = terminal_open 0 s;
          s = clear s
      in sti s)"

datatype boot_outcome =
    Boot_return        \<comment> \<open>\<open>entry\<close> returns: the boot loader's data is refused\<close>
  | Boot_hlt           \<comment> \<open>the endless \<open>hlt\<close>: \<open>execute\<close> returned\<close>
  | Boot_into outcome  \<comment> \<open>\<open>execute\<close> left for a program\<close>

definition entry :: "int \<Rightarrow> device \<Rightarrow> (isr \<Rightarrow> u32) \<Rightarrow> mem \<Rightarrow> seg_desc_t \<Rightarrow> u32 \<Rightarrow> u32 \<Rightarrow> u32 \<Rightarrow> u32
    \<Rightarrow> 'a kernel_state_scheme \<Rightarrow> (boot_outcome \<times> 'a kernel_state_scheme) option" where
  "entry junk dev addr conv_buf junk_desc esp ebp magic mbi s = do {
     let s = clear s;
     if magic \<noteq> MULTIBOOT_BOOTLOADER_MAGIC then do {
       s \<leftarrow> say conv_buf ''Invalid magic number: 0x%#x\<newline>'' [magic] s;
       Some (Boot_return, s)
     } else do {
       (ok, s) \<leftarrow> boot_report conv_buf mbi s;
       if \<not> ok then Some (Boot_return, s)
       else do {
         s \<leftarrow> set_ldt junk_desc s;
         s \<leftarrow> set_tss junk_desc s;
         let s = init_devices dev addr s;
         (r, s) \<leftarrow> execute junk dev esp ebp (wr (\<lambda>_. 0) 4 (str ''shell'')) 4 s;
         Some (case r of Ret _ \<Rightarrow> Boot_hlt | _ \<Rightarrow> Boot_into r, s)
       }
     }
   }"

section \<open>Descriptors as the processor reads them\<close>

definition seg_base :: "seg_desc_t \<Rightarrow> u32" where
  "seg_base d = push_bit 24 (ucast (base_31_24 d)) OR push_bit 16 (ucast (base_23_16 d)) OR ucast (base_15_00 d)"

definition seg_limit :: "seg_desc_t \<Rightarrow> u32" where
  "seg_limit d = push_bit 16 (ucast (seg_lim_19_16 d)) OR ucast (seg_lim_15_00 d)"

lemma base_join:
  "push_bit 24 (ucast (ucast (drop_bit 24 (a AND 0xFF000000 :: u32)) :: u8))
    OR push_bit 16 (ucast (ucast (drop_bit 16 (a AND 0x00FF0000 :: u32)) :: u8)) OR ucast (ucast (a AND 0xFFFF :: u32) :: u16) = a"
proof -
  have m: "(0xFF000000 :: u32) = push_bit 24 (mask 8)" "(0x00FF0000 :: u32) = push_bit 16 (mask 8)" "(0xFFFF :: u32) = mask 16"
    by (simp_all add: mask_eq_exp_minus_1)
  show ?thesis unfolding m by (rule bit_word_eqI, rename_tac n, case_tac "n < 24") (auto simp: bit_simps)
qed

lemma set_ldt_run:
  obtains e where "set_ldt d s = Some (s\<lparr>ldt_desc_ptr := e, ldtr := KERNEL_LDT\<rparr>)" "seg_base e = ldt s" "seg_limit e = 31"
proof
  let ?e = "SET_LDT_PARAMS (ldt s) ldt_size (d\<lparr>seg_granularity := 0, seg_opsize := 1, seg_reserved := 0, seg_avail := 0,
    seg_present := 1, seg_dpl := 0, seg_sys := 0, seg_type := 2\<rparr>)"
  show "set_ldt d s = Some (s\<lparr>ldt_desc_ptr := ?e, ldtr := KERNEL_LDT\<rparr>)"
    by (simp add: set_ldt_def lldt_def gdt_entry_def kernel_consts SET_LDT_PARAMS_def)
  show "seg_base ?e = ldt s" "seg_limit ?e = 31"
    using base_join [of "ldt s"]
    by (simp_all add: kernel_consts SET_LDT_PARAMS_def seg_base_def seg_limit_def del: drop_bit_and push_bit_and)
qed

lemma set_tss_run:
  obtains e where "set_tss d s = Some (s\<lparr>tss_desc_ptr := e, tss_ldt := KERNEL_LDT, tss_ss0 := KERNEL_DS, tss_esp0 := 0x800000,
    task_reg := KERNEL_TSS\<rparr>)" "seg_base e = tss s" "seg_limit e = 103"
proof
  let ?d = "SET_TSS_PARAMS (tss s) tss_size (d\<lparr>seg_granularity := 0, seg_opsize := 0, seg_reserved := 0, seg_avail := 0,
    seg_lim_19_16 := ucast (TSS_SIZE AND 0x000F0000), seg_present := 1, seg_dpl := 0, seg_sys := 0, seg_type := 9,
    seg_lim_15_00 := ucast (TSS_SIZE AND 0x0000FFFF)\<rparr>)"
  show "set_tss d s = Some (s\<lparr>tss_desc_ptr := ?d\<lparr>seg_type := 0xB\<rparr>, tss_ldt := KERNEL_LDT, tss_ss0 := KERNEL_DS,
      tss_esp0 := 0x800000, task_reg := KERNEL_TSS\<rparr>)"
    by (simp add: set_tss_def Let_def ltr_def gdt_entry_def kernel_consts SET_TSS_PARAMS_def)
  show "seg_base (?d\<lparr>seg_type := 0xB\<rparr>) = tss s" "seg_limit (?d\<lparr>seg_type := 0xB\<rparr>) = 103"
    using base_join [of "tss s"]
    by (simp_all add: kernel_consts SET_TSS_PARAMS_def seg_base_def seg_limit_def del: drop_bit_and push_bit_and)
qed

section \<open>What initialisation leaves\<close>

text \<open>The parts of the state that masking a line, paging and the console leave alone.\<close>

definition programs_part :: "'a kernel_state_scheme \<Rightarrow> _" where
  "programs_part s = (pcblock s, pcbs s, tasks s, fd_val s, fd_index s, tables_at s, BOOT_BLOCK_PTR s)"

definition segments_part :: "'a kernel_state_scheme \<Rightarrow> _" where
  "segments_part s = (idt s, ldt_desc_ptr s, tss_desc_ptr s, ldtr s, task_reg s)"

definition paging_part :: "'a paging_state_scheme \<Rightarrow> _" where
  "paging_part s = (cr0 s, cr4 s, directories s, tables s, tables_at s)"

lemmas part_defs = programs_part_def segments_part_def paging_part_def

lemma pic_more_parts:
  "pic_state.more t = pic_state.more s \<Longrightarrow> programs_part t = programs_part s \<and> segments_part t = segments_part s
     \<and> paging_part t = paging_part s \<and> text_buf t = text_buf s \<and> filesystem t = filesystem s \<and> pc t = pc s"
  for s t :: "'a kernel_state_scheme"
  by (cases s; cases t) (simp add: part_defs)

lemma paging_more_parts:
  "paging_state.more t = paging_state.more s \<Longrightarrow> tables_at t = tables_at s \<Longrightarrow>
     programs_part t = programs_part s \<and> segments_part t = segments_part s \<and> text_buf t = text_buf s"
  for s t :: "'a kernel_state_scheme"
  by (cases s; cases t) (simp add: part_defs)

lemma mask_frame [simp]:
  "cr3 (disable_irq n s) = cr3 s" "cr3 (enable_irq n s) = cr3 s"
  "screen_x (enable_irq n s) = screen_x s" "screen_y (enable_irq n s) = screen_y s"
  by (simp_all add: disable_irq_def enable_irq_def Let_def outb_def)

lemma disable_all_frame:
  "pic_state.more (fold disable_irq ns s) = pic_state.more s" "ram (fold disable_irq ns s) = ram s"
  by (induction ns arbitrary: s) simp_all

lemma set_task_frame [simp]:
  "paging_state.more (set_task d t page s) = paging_state.more s" "master_mask (set_task d t page s) = master_mask s"
  "slave_mask (set_task d t page s) = slave_mask s"
  by (simp_all add: set_task_def)

lemma load_cr3_frame [simp]:
  "paging_state.more (load_cr3 c s) = paging_state.more s" "master_mask (load_cr3 c s) = master_mask s"
  "slave_mask (load_cr3 c s) = slave_mask s"
  by (simp_all add: load_cr3_def Let_def)

lemma paging_init_frame:
  "paging_state.more (paging_init s) = paging_state.more s" "master_mask (paging_init s) = master_mask s"
  "slave_mask (paging_init s) = slave_mask s"
  unfolding paging_init_def Let_def by simp_all

lemma load_cr3_ram: "\<not> (0x08000000 \<le> a \<and> a < 0x08400000) \<Longrightarrow> ram (load_cr3 c s) a = ram s a"
  by (auto simp: load_cr3_def Let_def)

lemma paging_init_ram: "\<not> (0x08000000 \<le> a \<and> a < 0x08400000) \<Longrightarrow> ram (paging_init s) a = ram s a"
  unfolding paging_init_def Let_def by (simp add: load_cr3_ram)

lemma paging_init_paged:
  assumes "boot_tables s"
  shows "paged (paging_init s)"
proof -
  let ?s = "\<lparr>ram = ram s, out_log = [], int_on = True, cr3 = 0, screen_x = 0, screen_y = 0,
     master_mask = 0xFF, slave_mask = 0xFF, intr_flag = 0, shift_flag = 0, alt_flag = 0, caps_flag = 0,
     ctrl_flag = 0, l_shift = 0, r_shift = 0, tables_at = tables_at s, directories = directories s,
     tables = tables s, cr0 = 0, cr4 = 0, user_pages = user_pages s\<rparr>"
  have b: "boot_tables ?s" using assms by (simp add: boot_tables_def)
  have t: "tables (paging_init s) t i = tables (paging_init ?s) t i" for t i
  proof -
    obtain d where "t = dir_table d" by (cases t) (metis dir_table.simps)+
    then show ?thesis using init_entries(2) [OF assms assms] init_entries(2) [OF b b] by simp
  qed
  have d: "directories (paging_init s) = directories (paging_init ?s)" "tables_at (paging_init s) = tables_at ?s"
    using init_entries(1,3) [OF assms assms] init_entries(1) [OF b b] by (simp_all add: fun_eq_iff)
  have "tables (paging_init s) = tables (paging_init ?s)" using t by (intro ext)
  then show ?thesis unfolding paged_def using b d by blast
qed

lemma masked_cong: "master_mask t = master_mask s \<Longrightarrow> slave_mask t = slave_mask s \<Longrightarrow> masked t = masked s"
  by (simp add: masked_def)

lemma masked_rtc_init: "masked (rtc_init dev s) = masked s - {2, 8}"
proof -
  define t where "t = s\<lparr>int_on := int_on (rtc_init dev s), out_log := drop 2 (out_log (rtc_init dev s))\<rparr>"
  have "rtc_init dev s = fold enable_irq [2, 8] t"
    by (simp add: t_def rtc_init_run Let_def enable_irq_def outb_def pic_consts)
  moreover have "masked t = masked s" by (simp add: masked_def t_def)
  ultimately show ?thesis using pic.masked_enable_all [of "[2, 8]" t] by simp
qed

text \<open>Initialisation in two halves: up to the page directory, and after it.\<close>

lemma first_half:
  fixes s :: "'a kernel_state_scheme" and addr :: "isr \<Rightarrow> u32"
  assumes "boot_tables s"
  defines "t \<equiv> paging_init (fold (\<lambda>i. disable_irq (of_nat i)) [0..<16] ((i8259_init s)\<lparr>idt := init_idt addr (idt (i8259_init s))\<rparr>))"
  shows "programs_part t = programs_part s" "segments_part t = segments_part (s\<lparr>idt := init_idt addr (idt s)\<rparr>)"
    "text_buf t = text_buf s" "masked t = {0..<16}" "paged t" "bit (cr0 t) 31" "bit (cr4 t) 4"
    "cr3 t = dir_addr (tables_at s) page_directory"
    "\<And>a. \<not> (0x08000000 \<le> a \<and> a < 0x08400000) \<Longrightarrow> ram t a = ram s a"
proof -
  define u where "u = (i8259_init s)\<lparr>idt := init_idt addr (idt (i8259_init s))\<rparr>"
  define v where "v = fold disable_irq (map of_nat [0..<16]) u"
  have t: "t = paging_init v" unfolding t_def v_def u_def fold_map by (simp add: comp_def del: upt_rec_numeral)
  have u: "u = s\<lparr>out_log := out_log u, idt := init_idt addr (idt s)\<rparr>" by (simp add: u_def i8259_init_log)
  have parts_u: "programs_part u = programs_part s" "segments_part u = segments_part (s\<lparr>idt := init_idt addr (idt s)\<rparr>)"
      "text_buf u = text_buf s" "paging_part u = paging_part s" "ram u = ram s"
    by (subst u, simp add: part_defs)+
  have "pic_state.more v = pic_state.more u" "ram v = ram u" unfolding v_def by (rule disable_all_frame)+
  note pv = pic_more_parts [OF this(1)] this(2)
  have b: "boot_tables v" using assms(1) pv(1) parts_u(4) unfolding boot_tables_def paging_part_def by simp
  have "paging_state.more t = paging_state.more v" "tables_at t = tables_at v"
    unfolding t using paging_init_frame(1) [of v] init_entries(3) [OF b b] by simp_all
  note pt = paging_more_parts [OF this]
  show "programs_part t = programs_part s" "segments_part t = segments_part (s\<lparr>idt := init_idt addr (idt s)\<rparr>)"
    "text_buf t = text_buf s"
    using pt pv parts_u by simp_all
  have "\<forall>n\<in>set (map of_nat [0..<16]). n < (16 :: u32)" by (simp add: word_less_nat_alt unat_of_nat_u32 upt_rec)
  moreover have "unat ` set (map of_nat [0..<16] :: u32 list) = {0..<16}"
    by (simp add: image_image unat_of_nat_u32 del: upt_rec_numeral)
  ultimately have "masked v = masked u \<union> {0..<16}" unfolding v_def using pic.masked_disable_all by metis
  moreover have "masked u \<subseteq> {0..<16}" by (auto simp: masked_def)
  ultimately show "masked t = {0..<16}" unfolding t using masked_cong [OF paging_init_frame(2,3), of v] by auto
  show "paged t" unfolding t by (rule paging_init_paged [OF b])
  show "bit (cr0 t) 31" "bit (cr4 t) 4" "cr3 t = dir_addr (tables_at s) page_directory"
    using pv(1) parts_u(4) unfolding t paging_init_regs by (simp_all add: bit_or_iff paging_part_def bit_simps)
  show "ram t a = ram s a" if "\<not> (0x08000000 \<le> a \<and> a < 0x08400000)" for a
    unfolding t using paging_init_ram [OF that, of v] pv(2) parts_u(5) by simp
qed

lemma second_half:
  fixes s :: "'a kernel_state_scheme" and dev :: device
  defines "t \<equiv> sti (clear (snd (terminal_open 0 (enable_irq 1 (init_fs (rtc_init dev s))))))"
  shows "programs_part t = programs_part s" "segments_part t = segments_part s" "length (text_buf t) = BUF_MAX"
    "masked t = masked s - {1, 2, 8}" "paging_part t = paging_part s" "cr3 t = cr3 s" "int_on t" "pc t = 0"
    "ram t = ram (clear s)" "filesystem t = filesystem (init_fs s)"
proof -
  define u where "u = init_fs (rtc_init dev s)"
  define v where "v = set_cursor 0 0 ((enable_irq 1 u)\<lparr>text_buf := replicate BUF_MAX 0, counter := 0\<rparr>)"
  define w where "w = enable_irq 1 (v\<lparr>term2_press := 0, term3_press := 0\<rparr>)"
  have t: "t = sti (clear w)" by (simp add: t_def w_def v_def u_def terminal_open_def Let_def)
  have u: "programs_part u = programs_part s" "segments_part u = segments_part s" "paging_part u = paging_part s"
      "cr3 u = cr3 s" "ram u = ram s" "filesystem u = filesystem (init_fs s)" "pc u = 0"
    by (simp_all add: u_def init_fs_def rtc_init_run Let_def part_defs)
  have mu: "masked u = masked s - {2, 8}" using masked_cong [of u "rtc_init dev s"] by (simp add: u_def init_fs_def Let_def masked_rtc_init)
  note e = pic_more_parts [OF pic_more(1) [of 1 u]]
  have v: "programs_part v = programs_part u" "segments_part v = segments_part u" "paging_part v = paging_part u"
      "cr3 v = cr3 u" "ram v = ram u" "filesystem v = filesystem u" "pc v = pc u" "text_buf v = replicate BUF_MAX 0"
    using e by (simp_all add: v_def set_cursor_eq part_defs)
  have mv: "masked v = masked u - {1}"
    using masked_cong [of v "enable_irq 1 u"] pic.masked_enable [of 1 u] by (simp add: v_def set_cursor_eq)
  note f = pic_more_parts [OF pic_more(1) [of 1 "v\<lparr>term2_press := 0, term3_press := 0\<rparr>"]]
  have w: "programs_part w = programs_part v" "segments_part w = segments_part v" "paging_part w = paging_part v"
      "cr3 w = cr3 v" "ram w = ram v" "filesystem w = filesystem v" "pc w = pc v" "text_buf w = text_buf v"
    using f by (simp_all add: w_def part_defs)
  have "masked (v\<lparr>term2_press := 0, term3_press := 0\<rparr>) = masked v" by (simp add: masked_def)
  then have mw: "masked w = masked v - {1}"
    unfolding w_def using pic.masked_enable [of 1 "v\<lparr>term2_press := 0, term3_press := 0\<rparr>"] by simp
  have c: "programs_part t = programs_part w" "segments_part t = segments_part w" "paging_part t = paging_part w"
      "cr3 t = cr3 w" "ram t = ram (clear w)" "filesystem t = filesystem w" "pc t = pc w" "text_buf t = text_buf w" "int_on t"
      "masked t = masked w"
    by (simp_all add: t sti_def clear_def part_defs masked_def)
  show "programs_part t = programs_part s" "segments_part t = segments_part s" "length (text_buf t) = BUF_MAX"
    "paging_part t = paging_part s" "cr3 t = cr3 s" "int_on t" "pc t = 0" "filesystem t = filesystem (init_fs s)"
    using u v w c by simp_all
  show "masked t = masked s - {1, 2, 8}" using mu mv mw c(10) by auto
  show "ram t = ram (clear s)" unfolding c(5) clear_wr using u v w by simp
qed

text \<open>All of it.\<close>

lemma init_devices_run:
  fixes s :: "'a kernel_state_scheme" and dev :: device and addr :: "isr \<Rightarrow> u32"
  assumes "boot_tables s" "sys_ok s"
  defines "t \<equiv> init_devices dev addr s"
  shows "programs_part t = programs_part s" "segments_part t = segments_part (s\<lparr>idt := init_idt addr (idt s)\<rparr>)"
    "masked t = {0..<16} - {1, 2, 8}" "paged t" "bit (cr0 t) 31" "bit (cr4 t) 4" "int_on t" "pc t = 0"
    "cr3 t = dir_addr (tables_at s) page_directory" "sys_ok t"
    "\<exists>m. (\<forall>a. \<not> (0x08000000 \<le> a \<and> a < 0x08400000) \<longrightarrow> m a = ram s a)
      \<and> filesystem t = filesystem (init_fs (s\<lparr>ram := m\<rparr>)) \<and> ram t = ram (clear (s\<lparr>ram := m\<rparr>))"
proof -
  define u where "u = paging_init (fold (\<lambda>i. disable_irq (of_nat i)) [0..<16] ((i8259_init s)\<lparr>idt := init_idt addr (idt (i8259_init s))\<rparr>))"
  note f = first_half [OF assms(1), where addr = addr, folded u_def]
  have t: "t = sti (clear (snd (terminal_open 0 (enable_irq 1 (init_fs (rtc_init dev u))))))"
    unfolding t_def init_devices_def Let_def u_def by (simp add: split_beta del: upt_rec_numeral)
  note g = second_half [where dev = dev and s = u, folded t]
  show "programs_part t = programs_part s" "segments_part t = segments_part (s\<lparr>idt := init_idt addr (idt s)\<rparr>)"
    "masked t = {0..<16} - {1, 2, 8}" "int_on t" "pc t = 0" "cr3 t = dir_addr (tables_at s) page_directory"
    using f g by simp_all
  show "paged t" "bit (cr0 t) 31" "bit (cr4 t) 4" using f(5-7) g(5) by (simp_all add: paging_part_def paged_def)
  show "sys_ok t" using assms(2) g(1,3) f(1) by (simp add: sys_ok_def programs_part_def)
  have "BOOT_BLOCK_PTR u = BOOT_BLOCK_PTR s" using f(1) by (simp add: programs_part_def)
  then have "filesystem (init_fs u) = filesystem (init_fs (s\<lparr>ram := ram u\<rparr>))" by (simp add: init_fs_def Let_def)
  moreover have "ram (clear u) = ram (clear (s\<lparr>ram := ram u\<rparr>))" by (simp add: clear_wr)
  ultimately show "\<exists>m. (\<forall>a. \<not> (0x08000000 \<le> a \<and> a < 0x08400000) \<longrightarrow> m a = ram s a)
      \<and> filesystem t = filesystem (init_fs (s\<lparr>ram := m\<rparr>)) \<and> ram t = ram (clear (s\<lparr>ram := m\<rparr>))"
    using f(9) g(9,10) by (intro exI [of _ "ram u"]) auto
qed

section \<open>What \<open>execute\<close> leaves alone\<close>

definition machine_part :: "'a kernel_state_scheme \<Rightarrow> _" where
  "machine_part s = (master_mask s, slave_mask s, paging_part s, segments_part s)"

lemma loader_keeps:
  "master_mask (snd (loader fm name s)) = master_mask s" "slave_mask (snd (loader fm name s)) = slave_mask s"
  "paging_part (snd (loader fm name s)) = paging_part s"
proof -
  have r: "master_mask (snd (read_data i off buf n s)) = master_mask s" "slave_mask (snd (read_data i off buf n s)) = slave_mask s"
      "paging_part (snd (read_data i off buf n s)) = paging_part s" for i off buf n and s :: "'a fs_state_scheme"
    by (simp_all add: read_data_eq Let_def upd_file_def paging_part_def)
  have l: "master_mask (load_task s) = master_mask s" "slave_mask (load_task s) = slave_mask s"
      "paging_part (load_task s) = paging_part s" for s :: "'a fs_state_scheme"
    by (simp_all add: load_task_def Let_def paging_part_def)
  have d: "paging_part (s\<lparr>dentry1 := e\<rparr>) = paging_part s" "paging_part (s\<lparr>ram := m\<rparr>) = paging_part s"
    for e m and s :: "'a fs_state_scheme"
    by (simp_all add: paging_part_def)
  show "master_mask (snd (loader fm name s)) = master_mask s" "slave_mask (snd (loader fm name s)) = slave_mask s"
    "paging_part (snd (loader fm name s)) = paging_part s"
    by (simp_all add: loader_def Let_def split_beta r l d)
qed

lemma fs_more_segments: "fs_state.more t = fs_state.more s \<Longrightarrow> segments_part t = segments_part s"
  for s t :: "'a kernel_state_scheme"
  by (cases s; cases t) (simp add: segments_part_def)

lemma machine_updates [simp]:
  "machine_part (s\<lparr>pcblock := p\<rparr>) = machine_part s"
  "machine_part (new_task fm command s) = machine_part s" "machine_part (leave_caller esp ebp c s) = machine_part s"
  "machine_part (set_up_task c s) = machine_part s" "machine_part (snd (enter_user eip s)) = machine_part s"
  "machine_part (snd (loader fm name s)) = machine_part s"
proof -
  show "machine_part (s\<lparr>pcblock := p\<rparr>) = machine_part s" by (simp add: machine_part_def part_defs)
  show "machine_part (new_task fm command s) = machine_part s"
    unfolding new_task_def Let_def by (simp add: machine_part_def part_defs)
  show "machine_part (leave_caller esp ebp c s) = machine_part s"
    by (simp add: leave_caller_def Let_def save_pcb_def machine_part_def part_defs)
  show "machine_part (set_up_task c s) = machine_part s"
    by (simp add: set_up_task_def Let_def save_pcb_def load_cr3_def machine_part_def part_defs)
  show "machine_part (snd (enter_user eip s)) = machine_part s"
    by (simp add: enter_user_def sti_def cli_def machine_part_def part_defs)
  show "machine_part (snd (loader fm name s)) = machine_part s"
    using loader_keeps [of fm name s] fs_more_segments [OF loader_frame(1) [of fm name s]]
    by (simp add: machine_part_def)
qed

lemma start_program_machine:
  assumes "start_program c eip s = Some (User_mode e sp, t)"
  shows "machine_part t = machine_part s"
proof -
  have "machine_part t = machine_part s" if "enter_user eip ((set_up_task c s)\<lparr>pcblock := p\<rparr>) = (User_mode e sp, t)" for p
    using that machine_updates(5) [of eip "(set_up_task c s)\<lparr>pcblock := p\<rparr>"] by simp
  moreover have "machine_part t = machine_part s" if "enter_user eip (fold putc cs (set_up_task c s)) = (User_mode e sp, t)" for cs
  proof -
    have "machine_part (putc x u) = machine_part u" for x and u :: "'a kernel_state_scheme"
      by (simp add: putc_def Let_def machine_part_def part_defs)
    then have "machine_part (fold putc cs (set_up_task c s)) = machine_part (set_up_task c s)" by (rule fold_keeps)
    then show ?thesis using that machine_updates(5) [of eip "fold putc cs (set_up_task c s)"] by simp
  qed
  moreover have "printf (lit ''I don't think you should ever be here'') (\<lambda>_. 0) [] (set_up_task c s)
      = Some (of_nat (length ''I don't think you should ever be here''),
          fold putc (str ''I don't think you should ever be here'') (set_up_task c s))"
    by (rule printf_plain) (simp_all add: str_def)
  ultimately show ?thesis
    using assms unfolding start_program_def Let_def by (auto split: if_splits)
qed

lemma execute_machine:
  assumes "execute junk dev esp ebp fm command s = Some (User_mode e sp, t)"
  shows "machine_part t = machine_part s"
proof -
  define u where "u = leave_caller esp ebp (caller_pid s) (new_task fm command (s\<lparr>pcblock := (pcblock s)\<lparr>pcb_cr3 := cr3 s\<rparr>\<rparr>))"
  have u: "machine_part u = machine_part s" by (simp add: u_def)
  have run: "run_program fm command (caller_pid s) u = Some (User_mode e sp, t)"
    using assms unfolding execute_def Let_def u_def by (auto split: if_splits)
  then obtain p where p: "parse_cmd fm command (pcblock u) = Some p" by (auto simp: run_program_def split: Option.bind_splits)
  let ?l = "loader (wr (\<lambda>_. 0) 0 (cmd_name p)) 0 (u\<lparr>pcblock := p\<rparr>)"
  have "start_program (caller_pid s) (of_int (fst ?l)) (snd ?l) = Some (User_mode e sp, t)"
    using run p by (auto simp: run_program_def Let_def split_beta split: if_splits)
  from start_program_machine [OF this] u show ?thesis by simp
qed

section \<open>The image in the kernel's page\<close>

lemma kernel_page:
  assumes "0x400000 \<le> (a :: u32)" "a < 0x800000"
  shows "a \<notin> boot_screen" "a \<notin> video_region" "\<not> (0x08000000 \<le> a \<and> a < 0x08400000)"
proof -
  have u: "0x400000 \<le> unat a" "unat a < 0x800000" using assms by (simp_all add: word_le_nat_alt word_less_nat_alt)
  then show "a \<notin> boot_screen" "a \<notin> video_region" by (simp_all add: region_def VIDEO_def unat_u32_sub)
  show "\<not> (0x08000000 \<le> a \<and> a < 0x08400000)" using u by (simp add: word_le_nat_alt)
qed

lemma region_page:
  assumes "a \<in> region b n" "0x400000 \<le> b" "unat b + n \<le> 0x800000"
  shows "0x400000 \<le> a" "a < 0x800000"
proof -
  have "unat (a - b) < n" using assms(1) by (simp add: region_def)
  moreover have "0x400000 \<le> unat b" using assms(2) by (simp add: word_le_nat_alt)
  ultimately have "0x400000 \<le> unat a \<and> unat a < 0x800000"
    using assms(3) unat_u32_lt [of a] unat_u32_lt [of b] by (simp add: unat_u32_sub split: if_splits)
  then show "0x400000 \<le> a" "a < 0x800000" by (simp_all add: word_le_nat_alt word_less_nat_alt)
qed

text \<open>States that agree on the image have the same programs.\<close>

lemma image_byte:
  "same_image s m \<Longrightarrow> i < image_len s \<Longrightarrow> image_len s \<le> 2 ^ 32 \<Longrightarrow>
   m (BOOT_BLOCK_PTR s + of_nat i) = ram s (BOOT_BLOCK_PTR s + of_nat i)"
  using in_region [of i "image_len s" "BOOT_BLOCK_PTR s"] by (simp add: same_image_def)

lemma image_file:
  assumes "file_ok s inode" "same_image s (ram t)" "filesystem t = filesystem s" "BOOT_BLOCK_PTR t = BOOT_BLOCK_PTR s"
  shows "file_size t inode = file_size s inode" "k < 1023 \<Longrightarrow> block_no t inode k = block_no s inode k" "file_ok t inode"
    "off + n \<le> file_size s inode \<Longrightarrow> file_bytes t inode off n = file_bytes s inode off n"
proof -
  have at: "inode_at t inode = inode_at s inode" by (simp add: inode_at_def assms(4))
  show size: "file_size t inode = file_size s inode"
    using inode_ld32 [OF assms(1,2), of 0] by (simp add: file_size_def at)
  show no: "block_no t inode k = block_no s inode k" if "k < 1023" for k
    using block_no_same [OF assms(1,2) that] by (simp add: block_no_def at)
  have "image_len t = image_len s" by (simp add: image_len_def assms(3))
  then show "file_ok t inode" using assms(1) unfolding file_ok_def assms(3,4) size by (simp add: no)
  show "file_bytes t inode off n = file_bytes s inode off n" if n: "off + n \<le> file_size s inode"
    unfolding file_bytes_def
  proof (rule map_cong [OF refl])
    fix k assume "k \<in> set [off..<off + n]"
    then have k: "k < file_size s inode" "k div 4096 * 4096 < file_size s inode" "k div 4096 < 1023"
      using n size_le [OF assms(1)] by auto
    have "block_at t inode (k div 4096) = block_at s inode (k div 4096)" using no [OF k(3)] by (simp add: block_at_def assms(3))
    moreover have "4096 * (1 + unat (num_inodes (filesystem s)) + unat (block_no s inode (k div 4096))) + k mod 4096 < image_len s"
      using block_in [OF assms(1) k(3,2), of "k mod 4096" 1] mod_less_divisor [of 4096 k] by linarith
    ultimately show "ram t (block_at t inode (k div 4096) + of_nat (k mod 4096)) = ram s (block_at s inode (k div 4096) + of_nat (k mod 4096))"
      using image_byte [OF assms(2)] image_len_le [OF assms(1)] by (simp add: block_byte [OF assms(1)] del: of_nat_add of_nat_mult)
  qed
qed

lemma image_entry:
  assumes "same_image s (ram t)" "filesystem t = filesystem s" "dentry_begin (filesystem s) = BOOT_BLOCK_PTR s + 64"
    "image_len s \<le> 2 ^ 32" "i < 62"
  shows "entry_name t i = entry_name s i" "ld32 (ram t) (entry_at t i + 36) = ld32 (ram s) (entry_at s i + 36)"
proof -
  have b: "ram t (entry_at s i + of_nat j) = ram s (entry_at s i + of_nat j)" if "j < 64" for j
  proof -
    have "entry_at s i + of_nat j = BOOT_BLOCK_PTR s + of_nat (64 + i * 64 + j)" by (simp add: entry_at_def assms(3))
    moreover have "64 + i * 64 + j < image_len s" using assms(5) that by (simp add: image_len_def)
    ultimately show ?thesis using image_byte [OF assms(1) _ assms(4)] by metis
  qed
  have at: "entry_at t i = entry_at s i" by (simp add: entry_at_def assms(2))
  have "rd (ram t) (entry_at s i) 32 = rd (ram s) (entry_at s i) 32" by (rule rd_cong) (simp add: b)
  then show "entry_name t i = entry_name s i" by (simp add: entry_name_def cbytes_def at)
  show "ld32 (ram t) (entry_at t i + 36) = ld32 (ram s) (entry_at s i + 36)"
  proof -
    have "ram t (entry_at s i + 36 + of_nat j) = ram s (entry_at s i + 36 + of_nat j)" if "j < 4" for j
      using b [of "36 + j"] that by (simp add: add.assoc)
    then show ?thesis unfolding at by (rule ld32_cong)
  qed
qed

lemma image_runnable:
  assumes "runnable s cmd inode" "same_image s (ram t)" "filesystem t = filesystem s" "BOOT_BLOCK_PTR t = BOOT_BLOCK_PTR s"
    "dentry_begin (filesystem s) = BOOT_BLOCK_PTR s + 64"
  shows "runnable t cmd inode" "file_size t inode = file_size s inode"
    "file_bytes t inode 0 (file_size s inode) = file_bytes s inode 0 (file_size s inode)"
proof -
  have ok: "file_ok s inode" "28 \<le> file_size s inode" using assms(1) by (simp_all add: runnable_def)
  note f = image_file [OF ok(1) assms(2-4)] and e = image_entry [OF assms(2,3,5) image_len_le [OF ok(1)]]
  show "file_size t inode = file_size s inode"
    "file_bytes t inode 0 (file_size s inode) = file_bytes s inode 0 (file_size s inode)"
    using f(1) f(4) [of 0 "file_size s inode"] by simp_all
  moreover have "file_bytes t inode 0 4 = file_bytes s inode 0 4" using f(4) [of 0 4] ok(2) by simp
  moreover have "image_len t = image_len s" by (simp add: image_len_def assms(3))
  moreover have "\<exists>i<62. entry_name t i = take 32 cmd \<and> (\<forall>j<i. entry_name t j \<noteq> take 32 cmd) \<and> ld32 (ram t) (entry_at t i + 36) = inode"
  proof -
    obtain i where "i < 62" "entry_name s i = take 32 cmd" "\<forall>j<i. entry_name s j \<noteq> take 32 cmd" "ld32 (ram s) (entry_at s i + 36) = inode"
      using assms(1) by (auto simp: runnable_def)
    then show ?thesis using e by (intro exI [of _ i]) auto
  qed
  ultimately show "runnable t cmd inode" using assms(1) f(3) unfolding runnable_def assms(3,4) by simp
qed

section \<open>Booting\<close>

text \<open>The image of a boot: the last module, inside the page that maps the kernel, with a shell.\<close>

definition boot_image :: "'a fs_state_scheme \<Rightarrow> u32 \<Rightarrow> 'a fs_state_scheme" where
  "boot_image s b = init_fs (s\<lparr>BOOT_BLOCK_PTR := b\<rparr>)"

definition image_ok :: "'a fs_state_scheme \<Rightarrow> u32 \<Rightarrow> u32 \<Rightarrow> bool" where
  "image_ok s b inode \<longleftrightarrow> 0x400000 \<le> b \<and> unat b + image_len (boot_image s b) \<le> 0x800000
     \<and> runnable (boot_image s b) (str ''shell'') inode"

lemma boot_image_simps [simp]:
  "BOOT_BLOCK_PTR (boot_image s b) = b" "ram (boot_image s b) = ram s"
  "dentry_begin (filesystem (boot_image s b)) = b + 64"
  by (simp_all add: boot_image_def init_fs_def Let_def)

lemma shell_line: "command_line (wr (\<lambda>_. 0) 4 (str ''shell'')) 4 (str ''shell'') (str ''shell'') []"
proof -
  have "cstring (wr (\<lambda>_. 0) 4 (str ''shell'')) 4 (str ''shell'')"
    by (simp add: cstring_def rd_def str_def wr_def Let_def upt_rec)
  then show ?thesis by (simp add: command_line_def str_def)
qed

text \<open>Before \<open>execute\<close> the image is the one that was loaded.\<close>

lemma boot_files:
  assumes "image_ok s b inode" "BOOT_BLOCK_PTR u = b" "\<And>a. 0x400000 \<le> a \<Longrightarrow> a < 0x800000 \<Longrightarrow> m a = ram s a"
    "filesystem u = filesystem (init_fs (v\<lparr>ram := m\<rparr>))" "BOOT_BLOCK_PTR v = b" "ram u = ram (clear (v\<lparr>ram := m\<rparr>))"
  shows "runnable u (str ''shell'') inode" "file_size u inode = file_size (boot_image s b) inode"
    "file_bytes u inode 0 (file_size u inode) = file_bytes (boot_image s b) inode 0 (file_size (boot_image s b) inode)"
proof -
  let ?f = "boot_image s b"
  have i: "0x400000 \<le> b" "unat b + image_len ?f \<le> 0x800000" "runnable ?f (str ''shell'') inode"
    using assms(1) by (simp_all add: image_ok_def)
  have page: "m a = ram s a" if "a \<in> region b (image_len ?f)" for a
    using assms(3) region_page [OF that i(1,2)] by simp
  have same: "m (b + of_nat j) = ram s (b + of_nat j)" if "j < 4096" for j
    using that i(2) by (intro page in_region) (simp_all add: image_len_def)
  have "ld32 m (b + of_nat j) = ld32 (ram s) (b + of_nat j)" if "j + 4 \<le> 4096" for j
  proof (rule ld32_cong)
    show "m (b + of_nat j + of_nat k) = ram s (b + of_nat j + of_nat k)" if "k < 4" for k
      using same [of "j + k"] that \<open>j + 4 \<le> 4096\<close> by (simp add: add.assoc)
  qed
  from this [of 0] this [of 4] this [of 8] have fs: "filesystem u = filesystem ?f"
    by (simp add: assms(4,5) boot_image_def init_fs_def Let_def)
  have "ram u a = ram ?f a" if "a \<in> region b (image_len ?f)" for a
    using kernel_page(2) [OF region_page [OF that i(1,2)]] page [OF that] by (simp add: assms(6) clear_wr wr_out)
  then have "same_image ?f (ram u)" by (simp add: same_image_def)
  note r = image_runnable [OF i(3) this fs]
  show "runnable u (str ''shell'') inode" "file_size u inode = file_size ?f inode"
    "file_bytes u inode 0 (file_size u inode) = file_bytes ?f inode 0 (file_size ?f inode)"
    using r assms(2) by simp_all
qed

lemma lib_more_pic: "lib_state.more t = lib_state.more s \<Longrightarrow> pic_state.more t = pic_state.more s"
  for s t :: "'a pic_state_scheme"
  by (cases s; cases t) simp

text \<open>The machine as the kernel means to leave it: every vector has its gate, only the keyboard's and the
  clock's lines are unmasked (with line 2 for the second controller), paging is on with the
  intended tables, and the two system segments are loaded.\<close>

definition segments_ready :: "u32 \<Rightarrow> u32 \<Rightarrow> 'a kernel_state_scheme \<Rightarrow> bool" where
  "segments_ready ldt_base tss_base t \<longleftrightarrow> ldtr t = KERNEL_LDT \<and> seg_base (ldt_desc_ptr t) = ldt_base \<and> seg_limit (ldt_desc_ptr t) = 31
     \<and> task_reg t = KERNEL_TSS \<and> seg_base (tss_desc_ptr t) = tss_base \<and> seg_limit (tss_desc_ptr t) = 103"

definition machine_ready :: "(isr \<Rightarrow> u32) \<Rightarrow> 'a kernel_state_scheme \<Rightarrow> bool" where
  "machine_ready addr t \<longleftrightarrow> (\<forall>n<256. is_gate (fst (idt_spec n)) (addr (snd (idt_spec n))) (idt t ! n))
     \<and> masked t = {0..<16} - {1, 2, 8} \<and> bit (cr0 t) 31 \<and> bit (cr4 t) 4 \<and> paged t"

lemma ready_machine:
  assumes "machine_part t = machine_part s"
  shows "machine_ready addr t = machine_ready addr s" "segments_ready l b t = segments_ready l b s"
proof -
  have "idt t = idt s" "masked t = masked s" "cr0 t = cr0 s" "cr4 t = cr4 s" "paged t = paged s"
    using assms by (simp_all add: machine_part_def part_defs paged_def masked_def)
  then show "machine_ready addr t = machine_ready addr s" by (simp add: machine_ready_def)
  show "segments_ready l b t = segments_ready l b s" using assms by (simp add: machine_part_def part_defs segments_ready_def)
qed

lemma segments_run:
  fixes s :: "'a kernel_state_scheme"
  obtains t where "Option.bind (set_ldt d s) (set_tss d) = Some t" "programs_part t = programs_part s" "paging_part t = paging_part s"
    "text_buf t = text_buf s" "ram t = ram s" "idt t = idt s" "segments_ready (ldt s) (tss s) t"
proof -
  obtain e where e: "set_ldt d s = Some (s\<lparr>ldt_desc_ptr := e, ldtr := KERNEL_LDT\<rparr>)" "seg_base e = ldt s" "seg_limit e = 31"
    by (rule set_ldt_run)
  let ?u = "s\<lparr>ldt_desc_ptr := e, ldtr := KERNEL_LDT\<rparr>"
  obtain f where f: "set_tss d ?u = Some (?u\<lparr>tss_desc_ptr := f, tss_ldt := KERNEL_LDT, tss_ss0 := KERNEL_DS, tss_esp0 := 0x800000,
      task_reg := KERNEL_TSS\<rparr>)" "seg_base f = tss ?u" "seg_limit f = 103"
    by (rule set_tss_run)
  have "Option.bind (set_ldt d s) (set_tss d) = set_tss d ?u" using e(1) by simp
  then show thesis unfolding f(1) by (rule that) (use e(2,3) f(2,3) in \<open>simp_all add: part_defs segments_ready_def\<close>)
qed

lemma report_start: "boot_cursor True s \<Longrightarrow> report_state (ram s) (clear s)"
proof -
  assume "boot_cursor True s"
  then have "boot_cursor True (clear s)" by (simp add: boot_cursor_def)
  moreover have "a \<in> boot_screen" if "a \<in> video_region" for a using that by (simp add: region_def)
  ultimately show ?thesis by (auto simp: report_state_def same_off_def clear_wr intro!: wr_out)
qed

lemma machine_report:
  fixes s :: "'a kernel_state_scheme"
  shows "machine_part (fold putc cs (clear s)) = machine_part s" "tasks (fold putc cs (clear s)) = tasks s"
    "machine_part (set_boot b s) = machine_part s" "tasks (set_boot b s) = tasks s"
proof -
  have c: "machine_part (clear s) = machine_part s" "tasks (clear s) = tasks s" by (simp_all add: clear_def machine_part_def part_defs)
  show "machine_part (fold putc cs (clear s)) = machine_part s"
    unfolding c(1) [symmetric] by (rule fold_keeps) (simp add: putc_def Let_def machine_part_def part_defs)
  show "tasks (fold putc cs (clear s)) = tasks s"
    unfolding c(2) [symmetric] by (rule fold_keeps) (simp add: putc_def Let_def)
  show "machine_part (set_boot b s) = machine_part s" "tasks (set_boot b s) = tasks s"
    by (simp_all add: set_boot_def machine_part_def part_defs split: option.split)
qed

text \<open>Printing and the image's address, as far as the rest of the start sees them.\<close>

lemma report_parts:
  fixes s :: "'a kernel_state_scheme" and cs :: "u8 list" and b :: u32
  defines "t \<equiv> set_boot (Some b) (fold putc cs (clear s))"
  shows "programs_part t = programs_part (s\<lparr>BOOT_BLOCK_PTR := b\<rparr>)" "paging_part t = paging_part s" "text_buf t = text_buf s"
    "idt t = idt s" "ldt t = ldt s" "tss t = tss s"
proof -
  have "lib_state.more (fold putc cs (clear s)) = lib_state.more s" using fold_putc_more [of cs "clear s"] by simp
  then have "\<exists>m x y l i c. fold putc cs (clear s) = s\<lparr>ram := m, screen_x := x, screen_y := y, out_log := l, int_on := i, cr3 := c\<rparr>"
    by (cases s; cases "fold putc cs (clear s)") auto
  then show "programs_part t = programs_part (s\<lparr>BOOT_BLOCK_PTR := b\<rparr>)" "paging_part t = paging_part s" "text_buf t = text_buf s"
    "idt t = idt s" "ldt t = ldt s" "tss t = tss s"
    by (auto simp: t_def set_boot_def part_defs)
qed

text \<open>Up to \<open>execute\<close>.\<close>

lemma entry_until_execute:
  fixes s :: "'a kernel_state_scheme" and dev :: device
  assumes "boot_info (ram s) mbi cmd ps" "\<not> both_bits (mbi_at (ram s) mbi)"
    "last_module (ram s) (mbi_at (ram s) mbi) = Some b" "image_ok s b inode" "boot_tables s" "length (idt s) = 256" "sys_ok s"
    "boot_cursor True s"
  obtains u where "entry junk dev addr conv_buf d esp ebp MULTIBOOT_BOOTLOADER_MAGIC mbi s
      = Option.bind (execute junk dev esp ebp (wr (\<lambda>_. 0) 4 (str ''shell'')) 4 u)
          (\<lambda>(r, s). Some (case r of Ret _ \<Rightarrow> Boot_hlt | _ \<Rightarrow> Boot_into r, s))"
    "programs_part u = programs_part (s\<lparr>BOOT_BLOCK_PTR := b\<rparr>)" "machine_ready addr u" "segments_ready (ldt s) (tss s) u"
    "pc u = 0" "cr3 u = dir_addr (tables_at s) page_directory" "sys_ok u"
    "runnable u (str ''shell'') inode" "file_size u inode = file_size (boot_image s b) inode"
    "file_bytes u inode 0 (file_size u inode) = file_bytes (boot_image s b) inode 0 (file_size (boot_image s b) inode)"
proof -
  note rep = boot_report_run [OF assms(1) report_start [OF assms(8)], unfolded assms(3)]
  define v where "v = set_boot (Some b) (fold putc (report_text (ram s) (mbi_at (ram s) mbi) cmd ps) (clear s))"
  note vp = report_parts [of b "report_text (ram s) (mbi_at (ram s) mbi) cmd ps" s, folded v_def]
  obtain w where w: "Option.bind (set_ldt d v) (set_tss d) = Some w" "programs_part w = programs_part v" "paging_part w = paging_part v"
      "text_buf w = text_buf v" "ram w = ram v" "idt w = idt v" "segments_ready (ldt v) (tss v) w"
    by (rule segments_run)
  have "boot_tables w" using assms(5) vp(2) w(3) by (simp add: boot_tables_def paging_part_def)
  moreover have "sys_ok w" using assms(7) vp(1,3) w(2,4) by (simp add: sys_ok_def programs_part_def)
  ultimately have ok: "boot_tables w" "sys_ok w" .
  define u where "u = init_devices dev addr w"
  note up = init_devices_run [OF ok, where dev = dev and addr = addr, folded u_def]
  obtain m where m: "\<And>a. \<not> (0x08000000 \<le> a \<and> a < 0x08400000) \<Longrightarrow> m a = ram w a" "filesystem u = filesystem (init_fs (w\<lparr>ram := m\<rparr>))"
      "ram u = ram (clear (w\<lparr>ram := m\<rparr>))"
    using up(11) by blast
  have pw: "programs_part w = programs_part (s\<lparr>BOOT_BLOCK_PTR := b\<rparr>)" using w(2) vp(1) by simp
  have bbp: "BOOT_BLOCK_PTR u = b" "BOOT_BLOCK_PTR w = b" "tables_at w = tables_at s"
    using up(1) pw by (simp_all add: programs_part_def)
  have "m a = ram s a" if "0x400000 \<le> a" "a < 0x800000" for a
    using m(1) [OF kernel_page(3) [OF that]] kernel_page(1) [OF that] rep(2) w(5)
    by (simp add: v_def report_state_def same_off_def)
  note files = boot_files [OF assms(4) bbp(1) this m(2) bbp(2) m(3)]
  have "Option.bind (boot_report conv_buf mbi (clear s)) (\<lambda>(ok, s). if \<not> ok then Some (Boot_return, s)
      else Option.bind (set_ldt d s) (\<lambda>s. Option.bind (set_tss d s) k)) = k w" for k
    using rep(1) [of conv_buf] assms(2) w(1) by (simp add: v_def flip: Option.bind_assoc)
  then have e: "entry junk dev addr conv_buf d esp ebp MULTIBOOT_BOOTLOADER_MAGIC mbi s
      = Option.bind (execute junk dev esp ebp (wr (\<lambda>_. 0) 4 (str ''shell'')) 4 u)
          (\<lambda>(r, s). Some (case r of Ret _ \<Rightarrow> Boot_hlt | _ \<Rightarrow> Boot_into r, s))"
    by (simp add: entry_def Let_def u_def)
  have "idt u = init_idt addr (idt s)" using up(2) w(6) vp(4) by (simp add: segments_part_def)
  then have "machine_ready addr u" using up(3-6) idt_gate [OF assms(6)] by (simp add: machine_ready_def)
  moreover have "segments_ready (ldt s) (tss s) u"
    using up(2) w(7) vp(5,6) by (simp add: segments_part_def segments_ready_def)
  ultimately show thesis
    using that [OF e] up(1,8,9,10) pw bbp(3) files by simp
qed

lemma boot_slot: "pc u = 0 \<Longrightarrow> new_pid (new_task fm command u) = of_nat 1"
  unfolding new_task_def Let_def by simp

section \<open>Properties\<close>

text \<open>C1: with a boot loader's data that is well formed and an image in the kernel's page that holds a shell,
  \<open>entry\<close> starts that shell: it enters user mode at the shell's entry point with the program in
  place, as task 1 with its own directory and kernel stack and the two terminal descriptors open,
  interrupts are on, every vector has its gate, exactly the lines 1, 2 and 8 are unmasked, paging
  is on with the intended tables, and the descriptors of the local table and the task state
  segment are loaded with their bases and limits.\<close>

theorem entry_boots:
  fixes s :: "'a kernel_state_scheme"
  assumes "boot_info (ram s) mbi cmd ps" "\<not> both_bits (mbi_at (ram s) mbi)"
    "last_module (ram s) (mbi_at (ram s) mbi) = Some b" "image_ok s b inode" "boot_tables s" "length (idt s) = 256" "sys_ok s"
    "boot_cursor True s"
  shows "\<exists>t. entry junk dev addr conv_buf d esp ebp MULTIBOOT_BOOTLOADER_MAGIC mbi s
      = Some (Boot_into (User_mode (elf_entry (file_bytes (boot_image s b) inode 0 (file_size (boot_image s b) inode))) 0x083FFFFC), t)
    \<and> rd (ram t) PROGRAM_IMG (file_size (boot_image s b) inode) = file_bytes (boot_image s b) inode 0 (file_size (boot_image s b) inode)
    \<and> find_pid t = 1 \<and> tasks t = (tasks s)[1 := 1] \<and> tss_esp0 t = kernel_stack 1 \<and> int_on t
    \<and> (\<forall>i<8. flags (file_struct (pcblock t) ! i) = (if i < 2 then 1 else 0))
    \<and> machine_ready addr t \<and> segments_ready (ldt s) (tss s) t"
proof -
  obtain u where u: "entry junk dev addr conv_buf d esp ebp MULTIBOOT_BOOTLOADER_MAGIC mbi s
      = Option.bind (execute junk dev esp ebp (wr (\<lambda>_. 0) 4 (str ''shell'')) 4 u)
          (\<lambda>(r, s). Some (case r of Ret _ \<Rightarrow> Boot_hlt | _ \<Rightarrow> Boot_into r, s))"
    "programs_part u = programs_part (s\<lparr>BOOT_BLOCK_PTR := b\<rparr>)" "machine_ready addr u" "segments_ready (ldt s) (tss s) u"
    "pc u = 0" "cr3 u = dir_addr (tables_at s) page_directory" "sys_ok u"
    "runnable u (str ''shell'') inode" "file_size u inode = file_size (boot_image s b) inode"
    "file_bytes u inode 0 (file_size u inode) = file_bytes (boot_image s b) inode 0 (file_size (boot_image s b) inode)"
    by (rule entry_until_execute [OF assms])
  have p: "tables_at u = tables_at s" "tasks u = tasks s" using u(2) by (simp_all add: programs_part_def)
  have "find_pid u = 0" using u(6) p(1) by (simp add: find_pid_def)
  then have caller: "caller_pid u = 1" by (simp add: caller_pid_def)
  obtain t where t: "execute junk dev esp ebp (wr (\<lambda>_. 0) 4 (str ''shell'')) 4 u
      = Some (User_mode (elf_entry (file_bytes u inode 0 (file_size u inode))) 0x083FFFFC, t)"
    "rd (ram t) PROGRAM_IMG (file_size u inode) = file_bytes u inode 0 (file_size u inode)" "new_pid t = of_nat 1"
    using execute_runs [OF shell_line u(8) boot_slot [OF u(5)], of junk dev esp ebp] by auto
  obtain q where q: "q \<le> 6" "new_pid t = of_nat q" "tasks t = (tasks u)[q := caller_pid u]"
      "cr3 t = dir_addr (tables_at t) (task_dir q)" "int_on t" "tss_esp0 t = kernel_stack (of_nat q)"
      "\<exists>fs. file_struct (pcblock t) = start_files fs"
    using execute_user [OF t(1)] by metis
  have "unat (of_nat q :: u32) = unat (of_nat 1 :: u32)" using q(2) t(3) by simp
  then have q1: "q = 1" using q(1) by (simp add: unat_of_nat_u32)
  obtain fs where fs: "file_struct (pcblock t) = start_files fs" using q(7) by blast
  have "sys_ok t" using ok_execute [OF u(7) t(1)] .
  then have "length fs = 8" using fs by (simp add: sys_ok_def pcb_ok_def)
  then have "\<forall>i<8. flags (file_struct (pcblock t) ! i) = (if i < 2 then 1 else 0)"
    using start_files_flags [of fs] fs by auto
  then show ?thesis
    using u t(1,2) q q1 caller p(2) find_pid_dir [OF q(1,4)] ready_machine [OF execute_machine [OF t(1)]] by auto
qed

text \<open>The example machine: the boot loader's data with an image whose first file is the shell.\<close>

definition shell_ram :: mem where
  "shell_ram = wr boot_data 0x410040 (str ''shell'')"

definition zero_gate :: idt_desc where
  "zero_gate = \<lparr>offset_15_00 = 0, seg_selector = 0, reserved4 = 0, reserved3 = 0, reserved2 = 0, reserved1 = 0, gate_size = 0,
     reserved0 = 0, dpl = 0, present = 0, offset_31_16 = 0\<rparr>"

definition zero_seg :: seg_desc_t where
  "zero_seg = \<lparr>seg_lim_15_00 = 0, base_15_00 = 0, base_23_16 = 0, seg_type = 0, seg_sys = 0, seg_dpl = 0, seg_present = 0,
     seg_lim_19_16 = 0, seg_avail = 0, seg_reserved = 0, seg_opsize = 0, seg_granularity = 0, base_31_24 = 0\<rparr>"

definition kernel_example :: kernel_state where
  "kernel_example = \<lparr>ram = shell_ram, out_log = [], int_on = False, cr3 = 0, screen_x = 0, screen_y = 0,
     master_mask = 0xFF, slave_mask = 0xFF, intr_flag = 0, shift_flag = 0, alt_flag = 0, caps_flag = 0,
     ctrl_flag = 0, l_shift = 0, r_shift = 0, tables_at = 0x440000, directories = (\<lambda>_ _. 0),
     tables = (\<lambda>_ _. 0), cr0 = 1, cr4 = 0, user_pages = (\<lambda>_ _. 0),
     filesystem = filesystem fs_example, BOOT_BLOCK_PTR = 0, pc = 0, fd_val = 0, fd_index = 2, new_pid = 0,
     dentry1 = empty_dentry, pcblock = empty_pcb, text_buf = replicate 128 0, counter = 0, entered = 0,
     cur_terminal = 1, term2_flag = 0, term3_flag = 0, term_pcb = empty_pcb, terminals = [], term2_press = 0,
     term3_press = 0, tasks = [1, 0, 0, 0, 0, 0, 0], fd_rtc = 0, term1_rst = 0, term2_rst = 0, term3_rst = 0,
     pcbs = (\<lambda>_. empty_pcb), tss_ss0 = 0, tss_esp0 = 0,
     idt = replicate 256 zero_gate, ldt_desc_ptr = zero_seg, tss_desc_ptr = zero_seg, ldt = 0x402000, tss = 0x401000,
     tss_ldt = 0, ldtr = 0, task_reg = 0\<rparr>"

lemma shell_words:
  "ld32 shell_ram 0x9000 = 8" "ld32 shell_ram 0x9014 = 1" "ld32 shell_ram 0x9018 = 0xA000" "ld32 shell_ram 0xA000 = 0x410000"
  "ld32 shell_ram 0x410000 = 2" "ld32 shell_ram 0x410004 = 3" "ld32 shell_ram 0x410008 = 3" "ld32 shell_ram 0x410064 = 0"
  "ld32 shell_ram 0x411000 = 28" "ld32 shell_ram 0x411004 = 0"
  by (simp_all add: ld32_def shell_ram_def boot_data_def disk_def wr_def Let_def str_def)

lemma shell_info:
  "boot_info shell_ram 0x9000 [] []" "\<not> both_bits (mbi_at shell_ram 0x9000)"
  "last_module shell_ram (mbi_at shell_ram 0x9000) = Some 0x410000"
  by (simp_all add: boot_info_def Let_def mbi_at_def module_at_def module_no_def shell_words CHECK_FLAG_def apart_def VIDEO_def
      both_bits_def last_module_def)

lemma shell_file:
  defines "f \<equiv> boot_image kernel_example 0x410000"
  shows "file_size f 0 = 28" "file_ok f 0" "file_bytes f 0 0 4 = elf_magic" "elf_entry (file_bytes f 0 0 28) = 0x08048074"
    "entry_name f 0 = str ''shell''" "image_len f = 0x7000"
proof -
  have f: "filesystem f = \<lparr>num_dir_entries = 2, num_inodes = 3, num_data_blocks = 3, dentry_begin = 0x410040, data_start = 0x414000\<rparr>"
      "ram f = shell_ram" "BOOT_BLOCK_PTR f = 0x410000"
    by (simp_all add: f_def boot_image_def init_fs_def Let_def kernel_example_def shell_words)
  show size: "file_size f 0 = 28" by (simp add: file_size_def inode_at_def f shell_words)
  show len: "image_len f = 0x7000" by (simp add: image_len_def f)
  have z: "k = 0" if "k * 4096 < 28" for k :: nat using that by arith
  have "block_no f 0 k < 3" if "k * 4096 < 28" for k using z [OF that] by (simp add: block_no_def inode_at_def f shell_words)
  then show "file_ok f 0" by (simp add: file_ok_def size len f)
  show "file_bytes f 0 0 4 = elf_magic"
    by (simp add: file_bytes_def upt_rec block_at_def block_no_def inode_at_def f shell_words elf_magic_def)
      (simp add: shell_ram_def boot_data_def disk_def wr_def Let_def str_def)
  show "elf_entry (file_bytes f 0 0 28) = 0x08048074"
    by (simp add: elf_entry_def file_bytes_def upt_rec block_at_def block_no_def inode_at_def f shell_words)
      (simp add: shell_ram_def boot_data_def disk_def wr_def Let_def str_def)
  have "cstring shell_ram 0x410040 (str ''shell'')"
    by (simp add: cstring_def rd_def upt_rec str_def shell_ram_def boot_data_def disk_def wr_def Let_def)
  then show "entry_name f 0 = str ''shell''"
    using cbytes_cstring [of shell_ram "0x410040" "str ''shell''" 32] by (simp add: entry_name_def entry_at_def f str_def)
qed

lemma shell_image: "image_ok kernel_example 0x410000 0"
proof -
  let ?f = "boot_image kernel_example 0x410000"
  have "\<exists>i<62. P i" if "P (0 :: nat)" for P using that by (auto intro: exI [of _ 0])
  moreover have "ld32 (ram ?f) (entry_at ?f 0 + 36) = 0" by (simp add: entry_at_def kernel_example_def shell_words)
  moreover have "num_inodes (filesystem ?f) = 3" by (simp add: boot_image_def init_fs_def Let_def kernel_example_def shell_words)
  moreover have "apart NEW_LOAD 28 0x410000 0x7000" by (simp add: apart_def NEW_LOAD_def)
  ultimately have "runnable ?f (str ''shell'') 0"
    using shell_file by (simp add: runnable_def str_def)
  then show ?thesis using shell_file(6) by (simp add: image_ok_def)
qed

theorem entry_boots_witness:
  "\<exists>t. entry 0 (\<lambda>_ _. 0) (\<lambda>_. 0x400100) (\<lambda>_. 0) zero_seg 0x7FFFF0 0x7FFFF8 0x2BADB002 0x9000 kernel_example
      = Some (Boot_into (User_mode 0x08048074 0x083FFFFC), t) \<and> find_pid t = 1 \<and> int_on t
    \<and> masked t = {0..<16} - {1, 2, 8}"
proof -
  have "boot_tables kernel_example" "length (idt kernel_example) = 256" "sys_ok kernel_example" "boot_cursor True kernel_example"
      "ram kernel_example = shell_ram"
    by (simp_all add: boot_tables_def kernel_example_def take_bit_eq_mod sys_ok_def pcb_ok_def empty_pcb_def empty_dentry_def BUF_MAX_def
        boot_cursor_def)
  with entry_boots [of kernel_example "0x9000" "[]" "[]" "0x410000" 0 0 "\<lambda>_ _. 0" "\<lambda>_. 0x400100" "\<lambda>_. 0" zero_seg "0x7FFFF0" "0x7FFFF8"]
  show ?thesis using shell_info shell_image shell_file
    by (simp add: MULTIBOOT_BOOTLOADER_MAGIC_def machine_ready_def) blast
qed

text \<open>\<open>entry\<close> returns without starting anything when the boot loader's magic number is wrong, with exactly
  its message on the cleared screen, and when the flags 4 and 5 are both set, after the report on
  the data; memory off the screen, the descriptors, the masks, paging and the tasks are as they were.\<close>

theorem entry_refuses:
  fixes s :: "'a kernel_state_scheme"
  assumes "boot_cursor True s"
    "magic \<noteq> MULTIBOOT_BOOTLOADER_MAGIC \<or> boot_info (ram s) mbi cmd ps \<and> both_bits (mbi_at (ram s) mbi)"
  shows "\<exists>t out. entry junk dev addr conv_buf d esp ebp magic mbi s = Some (Boot_return, t)
    \<and> out = (if magic \<noteq> MULTIBOOT_BOOTLOADER_MAGIC then str ''Invalid magic number: 0x'' @ hex8 magic @ str ''\<newline>''
        else report_text (ram s) (mbi_at (ram s) mbi) cmd ps)
    \<and> screen_x t = screen_x (fold putc out (clear s)) \<and> screen_y t = screen_y (fold putc out (clear s))
    \<and> ram t = ram (fold putc out (clear s)) \<and> (\<forall>a. a \<notin> region VIDEO 4160 \<longrightarrow> ram t a = ram s a)
    \<and> machine_part t = machine_part s \<and> tasks t = tasks s"
proof -
  let ?bad = "magic \<noteq> MULTIBOOT_BOOTLOADER_MAGIC" and ?mbi = "mbi_at (ram s) mbi"
  let ?out = "if ?bad then str ''Invalid magic number: 0x'' @ hex8 magic @ str ''\<newline>'' else report_text (ram s) ?mbi cmd ps"
  define t where "t = (if ?bad then fold putc ?out (clear s) else set_boot (last_module (ram s) ?mbi) (fold putc ?out (clear s)))"
  have start: "report_state (ram s) (clear s)" using assms(1) by (rule report_start)
  have "entry junk dev addr conv_buf d esp ebp magic mbi s = Some (Boot_return, t) \<and> report_state (ram s) t"
  proof (cases ?bad)
    case True
    have "say conv_buf ''Invalid magic number: 0x%#x\<newline>'' [magic] (clear s) = Some t"
      unfolding t_def using True by (simp add: say_render [where args' = "[]"] report_simps)
    moreover have "tame True ?out" using True by (simp add: report_simps)
    ultimately show ?thesis using True report_next [OF start, of ?out] by (simp add: entry_def t_def)
  next
    case False
    then show ?thesis
      using assms(2) boot_report_run [of "ram s" mbi cmd ps "clear s"] start by (simp add: entry_def t_def)
  qed
  moreover have "machine_part t = machine_part s \<and> tasks t = tasks s"
    using machine_report(1,2) [of ?out s] unfolding t_def by (auto simp only: machine_report(3,4) split: if_split)
  moreover have "screen_x t = screen_x (fold putc ?out (clear s))" "screen_y t = screen_y (fold putc ?out (clear s))"
      "ram t = ram (fold putc ?out (clear s))"
    by (simp_all add: t_def set_boot_def split: option.split)
  ultimately show ?thesis by (intro exI [of _ t] exI [of _ ?out]) (auto simp: report_state_def same_off_def)
qed

theorem entry_refuses_witness:
  "\<exists>t. entry 0 (\<lambda>_ _. 0) (\<lambda>_. 0x400100) (\<lambda>_. 0) zero_seg 0x7FFFF0 0x7FFFF8 0x2BADB003 0x9000 kernel_example = Some (Boot_return, t)
    \<and> tasks t = [1, 0, 0, 0, 0, 0, 0]"
proof -
  have "boot_cursor True kernel_example" "tasks kernel_example = [1, 0, 0, 0, 0, 0, 0]"
    by (simp_all add: kernel_example_def boot_cursor_def)
  with entry_refuses [of kernel_example "0x2BADB003" "0x9000" "[]" "[]" 0 "\<lambda>_ _. 0" "\<lambda>_. 0x400100" "\<lambda>_. 0" zero_seg "0x7FFFF0" "0x7FFFF8"]
  show ?thesis by (auto simp: MULTIBOOT_BOOTLOADER_MAGIC_def)
qed

end
