(* ===== verification/Shell.thy ===== *)
theory Shell
  imports Programs
begin

text \<open>
  The shell, \<^verbatim>\<open>syscalls/ece391shell.c\<close>, on the system calls of \<open>Syscalls\<close>. The program that a
  command starts is a parameter: entered at an address with a stack pointer, it runs until it calls
  \<open>halt\<close>, and gives its exit status, the kernel stack and base pointer at that call, and the state.
\<close>

section \<open>The program\<close>

type_synonym 'a program = "u32 \<Rightarrow> u32 \<Rightarrow> 'a sys_state_scheme \<Rightarrow> ((u8 \<times> u32 \<times> u32) \<times> 'a sys_state_scheme) option"

text \<open>
  \<open>ece391_execute\<close>: the call comes back when \<open>execute\<close> refuses the command, and when the program it
  started halts and \<open>halt\<close> goes back to the stack of this call, with the value that \<open>halt\<close> leaves in
  \<open>eax\<close>. A program whose \<open>halt\<close> goes elsewhere does not come back.
\<close>

definition ece391_execute :: "int \<Rightarrow> device \<Rightarrow> u32 \<Rightarrow> u32 \<Rightarrow> 'a program \<Rightarrow> u32 \<Rightarrow> 'a sys_state_scheme
    \<Rightarrow> (int \<times> 'a sys_state_scheme) option" where
  "ece391_execute junk dev esp ebp prog command s =
     Option.bind (execute junk dev esp ebp (ram s) command s) (\<lambda>(r, s).
       case r of
         Ret n \<Rightarrow> Some (n, s)
       | Resume e b n \<Rightarrow> None
       | User_mode eip sp \<Rightarrow>
           Option.bind (prog eip sp s) (\<lambda>((status, esp', ebp'), s).
           Option.bind (halt junk dev esp' ebp' status s) (\<lambda>(r, s).
             case r of Resume e b n \<Rightarrow> if e = esp \<and> b = ebp then Some (n, s) else None | _ \<Rightarrow> None)))"

text \<open>What the shell says about the value of \<open>ece391_execute\<close>.\<close>

definition shell_report :: "int \<Rightarrow> device \<Rightarrow> int \<Rightarrow> 'a sys_state_scheme \<Rightarrow> 'a sys_state_scheme option" where
  "shell_report junk dev rval s =
     (if rval = -1 then say junk dev ''no such command\<newline>'' s
      else if rval = 256 then say junk dev ''program terminated by exception\<newline>'' s
      else if rval \<noteq> 0 then say junk dev ''program terminated abnormally\<newline>'' s
      else Some s)"

text \<open>The loop: the prompt is the \<open>k\<close>-th call, then come the read, the command and the report.\<close>

partial_function (option) shell_loop :: "'a world \<Rightarrow> device \<Rightarrow> u32 \<Rightarrow> u32 \<Rightarrow> 'a program \<Rightarrow> u32 \<Rightarrow> nat
    \<Rightarrow> 'a sys_state_scheme \<Rightarrow> (int \<times> 'a sys_state_scheme) option" where
  "shell_loop w dev esp ebp prog buf k s =
     Option.bind (say (fst (w k)) dev ''391OS> '' s) (\<lambda>s.
     Option.bind (sys_read (fst (w (k + 1))) (snd (w (k + 1))) 0 buf 1023 s) (\<lambda>(cnt, s).
       if cnt = -1 then map_option (Pair 3) (say (fst (w (k + 2))) dev ''read from keyboard failed\<newline>'' s)
       else
         let cnt = (if cnt > 0 \<and> ram s (buf + of_int (cnt - 1)) = 0x0A then cnt - 1 else cnt);
             s = s\<lparr>ram := (ram s)(buf + of_int cnt := 0)\<rparr>
         in Option.bind (ece391_strcmp (ram s) buf (wr (\<lambda>_. 0) 4 (str ''exit'')) 4) (\<lambda>c.
              if c = 0 then Some (0, s)
              else if ram s buf = 0 then shell_loop w dev esp ebp prog buf (k + 4) s
              else Option.bind (ece391_execute (fst (w (k + 2))) dev esp ebp prog buf s) (\<lambda>(rval, s).
                   Option.bind (shell_report (fst (w (k + 3))) dev rval s) (\<lambda>s.
                   shell_loop w dev esp ebp prog buf (k + 4) s)))))"

definition shell_main :: "'a world \<Rightarrow> device \<Rightarrow> u32 \<Rightarrow> u32 \<Rightarrow> 'a program \<Rightarrow> u32
    \<Rightarrow> 'a sys_state_scheme \<Rightarrow> (int \<times> 'a sys_state_scheme) option" where
  "shell_main w dev esp ebp prog buf s =
     Option.bind (say (fst (w 0)) dev ''Starting 391 Shell\<newline>'' s) (\<lambda>s.
     shell_loop w dev esp ebp prog buf 1 s)"

section \<open>Comparing strings\<close>

lemma strcmp_strings:
  assumes "cstring m1 a xs" "cstring m2 b ys"
  shows "\<exists>c. ece391_strcmp m1 a m2 b = Some c \<and> (c = 0 \<longleftrightarrow> xs = ys)"
  using assms
proof (induction xs arbitrary: a b ys)
  case Nil
  then show ?case by (cases ys) (auto simp: cstring_Nil cstring_Cons ece391_strcmp.simps word_uint_eq_iff)
next
  case (Cons x xs)
  show ?case
  proof (cases ys)
    case Nil
    then show ?thesis using Cons.prems
      by (auto simp: cstring_Nil cstring_Cons ece391_strcmp.simps [of m1 a] word_uint_eq_iff)
  next
    case (Cons y ys')
    then show ?thesis using Cons.prems Cons.IH [of "a + 1" "b + 1" ys']
      by (auto simp: cstring_Cons ece391_strcmp.simps [of m1 a] word_uint_eq_iff)
  qed
qed

section \<open>A round of the shell\<close>

definition report_of :: "int \<Rightarrow> string" where
  "report_of rval = (if rval = -1 then ''no such command\<newline>'' else if rval = 256 then ''program terminated by exception\<newline>''
     else if rval \<noteq> 0 then ''program terminated abnormally\<newline>'' else [])"

lemma shell_report_prints:
  assumes "can_print s" "junk \<noteq> -2"
  obtains t where "shell_report junk dev rval s = Some t" "printed s t \<or> t = s" "can_print t"
    "display_of t = fold emit (str (report_of rval)) (display_of s)"
proof (cases "rval = 0")
  case True
  then show thesis using that [of s] assms(1) by (simp add: shell_report_def report_of_def str_def)
next
  case False
  have "shell_report junk dev rval s = say junk dev (report_of rval) s"
    using False by (simp add: shell_report_def report_of_def)
  moreover have "0 \<notin> set (str (report_of rval))" "length (report_of rval) < 2 ^ 31"
    using False by (cases "rval = -1"; cases "rval = 256"; simp add: report_of_def str_def)+
  ultimately show thesis using that say_prints [OF assms, of "report_of rval" dev] by auto
qed

text \<open>The shell's line: as typed, with a NUL in place of the line break.\<close>

lemma shell_reads:
  assumes "can_read a" "buf \<noteq> 0" "await (\<lambda>s. entered s = 1) irqs a = Some t" "line_entered t line"
  obtains b where "sys_read junk irqs 0 buf 1023 a = Some (int (length line), b)"
    "\<not> (int (length line) > 0 \<and> ram b (buf + of_int (int (length line) - 1)) = 0x0A)"
    "b\<lparr>ram := (ram b)(buf + of_int (int (length line)) := 0)\<rparr> = with_line buf line t"
proof -
  have n: "length line < 128" "0x0A \<notin> set line" using assms(4) by (simp_all add: line_entered_def BUF_MAX_def)
  let ?b = "t\<lparr>ram := wr (ram t) buf (line @ [0x0A]), entered := 0\<rparr>"
  have run: "sys_read junk irqs 0 buf 1023 a = Some (int (length line), ?b)"
    using reads_typed [OF assms, of 1023] n(1) by simp
  have "\<not> (int (length line) > 0 \<and> ram ?b (buf + of_int (int (length line) - 1)) = 0x0A)"
  proof
    assume h: "int (length line) > 0 \<and> ram ?b (buf + of_int (int (length line) - 1)) = 0x0A"
    then have l: "length line \<noteq> 0" by simp
    then have "of_int (int (length line) - 1) = (of_nat (length line - 1) :: u32)" by (cases line) simp_all
    moreover have "length line - 1 < length (line @ [0x0A])" using l by simp
    moreover have "unat (of_nat (length line - 1) :: u32) = length line - 1" using n(1) by (simp add: unat_of_nat_u32)
    ultimately have "ram ?b (buf + of_int (int (length line) - 1)) = (line @ [0x0A]) ! (length line - 1)"
      using n(1) by (simp add: wr_def Let_def)
    also have "\<dots> = line ! (length line - 1)" using l by (simp add: nth_append)
    finally show False using h n(2) l by (metis diff_less length_greater_0_conv nth_mem zero_less_one list.size(3))
  qed
  moreover have "(wr (ram t) buf (line @ [0x0A]))(buf + of_nat (length line) := 0) = wr (ram t) buf (line @ [0])"
    using n(1) by (simp add: wr_snoc)
  ultimately show thesis using that [OF run] by (simp add: with_line_def)
qed

lemma shell_round_line:
  assumes "can_read a" "say (fst (w k)) dev ''391OS> '' s = Some a" "buf \<noteq> 0" "apart buf 1024 VIDEO 4000"
    "await (\<lambda>s. entered s = 1) (snd (w (k + 1))) a = Some t" "line_entered t line" "can_print t"
  shows "shell_loop w dev esp ebp prog buf k s =
    (let u = with_line buf line t
     in if line = str ''exit'' then Some (0, u)
        else if line = [] then shell_loop w dev esp ebp prog buf (k + 4) u
        else Option.bind (ece391_execute (fst (w (k + 2))) dev esp ebp prog buf u) (\<lambda>(rval, s).
             Option.bind (shell_report (fst (w (k + 3))) dev rval s) (shell_loop w dev esp ebp prog buf (k + 4))))"
proof -
  let ?u = "with_line buf line t"
  obtain b where b: "sys_read (fst (w (k + 1))) (snd (w (k + 1))) 0 buf 1023 a = Some (int (length line), b)"
      "\<not> (int (length line) > 0 \<and> ram b (buf + of_int (int (length line) - 1)) = 0x0A)"
      "b\<lparr>ram := (ram b)(buf + of_int (int (length line)) := 0)\<rparr> = ?u"
    by (rule shell_reads [OF assms(1,3,5,6)])
  have cs: "cstring (ram ?u) buf line" using with_line_prints(3) [OF assms(7,6,4)] .
  have "cstring (wr (\<lambda>_. 0) 4 (str ''exit'')) 4 (str ''exit'')" by (rule literal_string) (simp_all add: str_def)
  then obtain c where c: "ece391_strcmp (ram ?u) buf (wr (\<lambda>_. 0) 4 (str ''exit'')) 4 = Some c"
      "c = 0 \<longleftrightarrow> line = str ''exit''"
    using strcmp_strings [OF cs] by blast
  have n: "int (length line) \<noteq> -1" by simp
  have e: "ram ?u buf = 0 \<longleftrightarrow> line = []" using cs by (cases line) (auto simp: cstring_Nil cstring_Cons)
  have "shell_loop w dev esp ebp prog buf k s =
      Option.bind (ece391_strcmp (ram ?u) buf (wr (\<lambda>_. 0) 4 (str ''exit'')) 4) (\<lambda>c.
        if c = 0 then Some (0, ?u)
        else if ram ?u buf = 0 then shell_loop w dev esp ebp prog buf (k + 4) ?u
        else Option.bind (ece391_execute (fst (w (k + 2))) dev esp ebp prog buf ?u) (\<lambda>(rval, s).
             Option.bind (shell_report (fst (w (k + 3))) dev rval s) (shell_loop w dev esp ebp prog buf (k + 4))))"
    using eq_False [THEN iffD2, OF b(2)] eq_False [THEN iffD2, OF n]
    by (subst shell_loop.simps) (simp only: assms(2) b(1,3) bind.bind_lunit prod.case Let_def if_False)
  then show ?thesis unfolding c(1) Let_def by (simp add: c(2) e)
qed

section \<open>Commands that come back\<close>

text \<open>\<open>execute\<close> returns only to refuse.\<close>

lemma start_program_ret: "start_program c eip s = Some (Ret r, t) \<Longrightarrow> r = -1"
  by (auto simp: start_program_def enter_user_def Let_def split: if_splits)

lemma execute_ret: "execute junk dev esp ebp fm command s = Some (Ret r, t) \<Longrightarrow> r = -1"
  by (auto simp: execute_def run_program_def Let_def split_beta split: if_splits Option.bind_splits dest: start_program_ret)

text \<open>The parts of the state that what happens before the loader does not change.\<close>

lemma new_task_screen:
  "screen_x (new_task fm command s) = screen_x s" "screen_y (new_task fm command s) = screen_y s"
  "file_struct (pcblock (new_task fm command s)) = file_struct (pcblock s)"
  unfolding new_task_def Let_def by simp_all

lemma leave_caller_screen:
  "screen_x (leave_caller esp ebp c s) = screen_x s" "screen_y (leave_caller esp ebp c s) = screen_y s"
  "file_struct (pcblock (leave_caller esp ebp c s)) = file_struct (pcblock s)"
  unfolding leave_caller_def Let_def save_pcb_def by simp_all

lemma execute_unknown:
  assumes "command_line fm command line cmd arg" "\<forall>j<62. entry_name s j \<noteq> take 32 cmd"
    "new_pid (new_task fm command s) = of_nat q" "q \<le> 6"
  obtains t where "execute junk dev esp ebp fm command s = Some (Ret (-1), t)" "display_of t = display_of s"
    "can_print t = can_print s" "can_read t = can_read s"
proof -
  define u where "u = new_task fm command (s\<lparr>pcblock := (pcblock s)\<lparr>pcb_cr3 := cr3 s\<rparr>\<rparr>)"
  define v where "v = leave_caller esp ebp (caller_pid s) u"
  have cl: "command \<noteq> 0" "cstring fm command line" "line \<noteq> []" "hd line \<noteq> 0x20" "length line < 256"
      "cmd = takeWhile (\<lambda>c. c \<noteq> 0x20) line" "arg = no_spaces (dropWhile (\<lambda>c. c \<noteq> 0x20) line)" "length cmd \<le> 40" "length arg \<le> 40"
    using assms(1) unfolding command_line_def by blast+
  obtain p where p: "parse_cmd fm command (pcblock v) = Some p" "cmd_name p = cmd @ replicate (40 - length cmd) 0"
      "file_struct p = file_struct (pcblock v)"
    using parse_cmd_words [OF cl(2) _ cl(5), of "pcblock v"] cl(3,4,6-9) by simp
  have "new_pid u = new_pid (new_task fm command s)" unfolding u_def new_task_def Let_def by auto
  then have pu: "new_pid u = of_nat q" using assms(3) by simp
  have "new_pid u \<noteq> of_nat MAX_TASKS"
  proof
    assume "new_pid u = of_nat MAX_TASKS"
    then have "unat (of_nat q :: u32) = 7" using pu by (simp add: MAX_TASKS_def)
    then show False using assms(4) by (simp add: unat_of_nat_u32)
  qed
  let ?v = "v\<lparr>pcblock := p\<rparr>" and ?m = "wr (\<lambda>_. 0) 0 (cmd_name p)"
  have v: "ram v = ram s" "filesystem v = filesystem s" "screen_x v = screen_x s" "screen_y v = screen_y s"
      "file_struct (pcblock v) = file_struct (pcblock s)"
    by (simp_all add: v_def leave_caller_screen leave_caller_files) (simp_all add: u_def new_task_screen new_task_files)
  have "0 \<notin> set cmd" using cstringD(3) [OF cl(2)] set_takeWhileD unfolding cl(6) by fast
  then have "cbytes ?m 0 32 = take 32 cmd" unfolding p(2) using cl(8) by (rule cmd_cbytes)
  then have "read_dentry_by_name ?m 0 (dentry1 ?v) ?v = (-1, dentry1 ?v)"
    using assms(2) by (intro lookup_missing) (simp add: entry_name_def entry_at_def v)
  then have "loader ?m 0 ?v = (-1, ?v)" by (simp add: loader_def)
  then have "execute junk dev esp ebp fm command s = Some (Ret (-1), ?v)"
    using cl(1) \<open>new_pid u \<noteq> of_nat MAX_TASKS\<close> p(1)
    unfolding execute_def Let_def u_def [symmetric] v_def [symmetric] run_program_def by simp
  moreover have "display_of ?v = display_of s" "term_ok ?v = term_ok s" by (intro display_cong; simp add: v)+
  ultimately show thesis by (intro that [of ?v]) (simp_all add: can_print_def can_read_def p(3) v)
qed

text \<open>So the value of a command is 0 or -1: the other reports of the shell are never given.\<close>

lemma execute_no_resume: "execute junk dev esp ebp fm command s \<noteq> Some (Resume e b n, t)"
  by (auto simp: execute_def run_program_def start_program_def enter_user_def Let_def split_beta
      split: if_splits Option.bind_splits)

lemma halt_resume:
  assumes "halt junk dev esp ebp status s = Some (Resume e b n, t)"
  obtains c u where "n = 0" "u = fold (\<lambda>i s. snd (sys_close (int i) s)) [2..<8] (s\<lparr>pc := pc s - 1, tasks := (tasks s)[nat (find_pid s) := 0]\<rparr>)"
    "t = (load_cr3 c u)\<lparr>tss_esp0 := kernel_stack (of_int (find_pid (load_cr3 c u)))\<rparr>"
proof -
  have "\<not> find_pid s \<le> T_SHELL_MAX"
  proof
    assume "find_pid s \<le> T_SHELL_MAX"
    then obtain r u where "execute junk dev esp ebp (wr (\<lambda>_. 0) 4 (str ''shell'')) 4 (end_shell (find_pid s) s) = Some (r, u)"
        "(case r of Ret _ \<Rightarrow> Ret 0 | _ \<Rightarrow> r) = Resume e b n"
      using assms by (auto simp: halt_def Let_def split: if_splits)
    then show False by (cases r) (auto simp: execute_no_resume)
  qed
  then show thesis using assms that by (auto simp: halt_def Let_def simp del: upt_rec_numeral split: if_splits)
qed

lemma halt_value: "halt junk dev esp ebp status s = Some (Resume e b n, t) \<Longrightarrow> n = 0"
  by (erule halt_resume)

lemma execute_value:
  assumes "ece391_execute junk dev esp ebp prog command s = Some (r, t)"
  shows "r = -1 \<or> r = 0"
  using assms execute_ret [of junk dev esp ebp "ram s" command s r t]
  by (auto simp: ece391_execute_def split: Option.bind_splits outcome.splits if_splits dest!: halt_value)

text \<open>\<open>halt\<close> leaves the screen as the program left it.\<close>

lemma halt_display:
  assumes "halt junk dev esp ebp status s = Some (Resume e b n, t)"
  shows "display_of t = display_of s"
proof -
  obtain c u where u_def: "u = fold (\<lambda>i s. snd (sys_close (int i) s)) [2..<8] (s\<lparr>pc := pc s - 1, tasks := (tasks s)[nat (find_pid s) := 0]\<rparr>)"
    and t: "t = (load_cr3 c u)\<lparr>tss_esp0 := kernel_stack (of_int (find_pid (load_cr3 c u)))\<rparr>"
    using assms by (rule halt_resume)
  have u: "ram u = ram s" "screen_x u = screen_x s" "screen_y u = screen_y s"
    unfolding u_def by (subst fold_keeps, simp_all add: sys_close_screen)+
  have "rd (ram (load_cr3 c u)) VIDEO 4000 = rd (ram u) VIDEO 4000" by (rule rd_load_cr3) (simp add: VIDEO_def)
  then show ?thesis by (intro display_cong) (simp_all add: t u load_cr3_def Let_def)
qed

section \<open>Properties\<close>

text \<open>A round of the shell: it prompts, waits for a line, and then ends with 0 if the line is \<open>exit\<close>,
  prompts again if it is empty, and otherwise executes it and, once that call has come back, reports
  on the value and prompts again. Only the value -1 has the report \<open>no such command\<close>.\<close>

theorem shell_round:
  assumes "can_print s" "can_read s" "buf \<noteq> 0" "apart buf 1024 VIDEO 4000" "\<forall>k. fst (w k) \<noteq> -2"
  shows "\<exists>a. printed s a \<and> can_print a \<and> display_of a = fold emit (str ''391OS> '') (display_of s)
    \<and> (\<forall>t line. await (\<lambda>s. entered s = 1) (snd (w (k + 1))) a = Some t \<and> line_entered t line \<and> can_print t \<longrightarrow>
        (line = str ''exit'' \<longrightarrow> shell_loop w dev esp ebp prog buf k s = Some (0, with_line buf line t))
      \<and> (line = [] \<longrightarrow> shell_loop w dev esp ebp prog buf k s
            = shell_loop w dev esp ebp prog buf (k + 4) (with_line buf line t))
      \<and> (\<forall>r u. line \<noteq> str ''exit'' \<and> line \<noteq> []
            \<and> ece391_execute (fst (w (k + 2))) dev esp ebp prog buf (with_line buf line t) = Some (r, u) \<and> can_print u \<longrightarrow>
          (\<exists>v. shell_loop w dev esp ebp prog buf k s = shell_loop w dev esp ebp prog buf (k + 4) v \<and> can_print v
             \<and> display_of v = fold emit (str (report_of r)) (display_of u))))"
proof -
  have w: "fst (w k) \<noteq> -2" for k using assms(5) by simp
  obtain a where a: "say (fst (w k)) dev ''391OS> '' s = Some a" "printed s a" "can_print a"
      "display_of a = fold emit (str ''391OS> '') (display_of s)"
    using say_prints [OF assms(1) w, of "''391OS> ''" k dev] by (auto simp: str_def)
  have "can_read a" using assms(2) printed_fields(1) [OF a(2)] by (simp add: can_read_def)
  note round = shell_round_line [where w = w and k = k, OF this a(1) assms(3,4)]
  have "\<exists>v. shell_loop w dev esp ebp prog buf k s = shell_loop w dev esp ebp prog buf (k + 4) v \<and> can_print v
      \<and> display_of v = fold emit (str (report_of r)) (display_of u)"
    if t: "await (\<lambda>s. entered s = 1) (snd (w (k + 1))) a = Some t" "line_entered t line" "can_print t"
      and "line \<noteq> str ''exit''" "line \<noteq> []"
      and u: "ece391_execute (fst (w (k + 2))) dev esp ebp prog buf (with_line buf line t) = Some (r, u)" "can_print u"
    for t line r u
  proof -
    obtain v where "shell_report (fst (w (k + 3))) dev r u = Some v" "can_print v"
        "display_of v = fold emit (str (report_of r)) (display_of u)"
      by (rule shell_report_prints [OF u(2) w])
    then show ?thesis using round [OF t, of esp ebp prog] that(4,5) u(1) by auto
  qed
  moreover have "str ''exit'' \<noteq> []" by (simp add: str_def)
  ultimately show ?thesis using a(2-4) round by (intro exI [of _ a]) (auto simp: Let_def)
qed

lemma exit_wait:
  "printed user_example a \<Longrightarrow> can_print a \<Longrightarrow> \<exists>t. await (\<lambda>s. entered s = 1) [enter_line (str ''exit'')] a = Some t
    \<and> line_entered t (str ''exit'') \<and> can_print t"
  using enter_line_wait [OF _ _ user_example_wait(1), of a "str ''exit''"] by (simp add: str_def)

theorem shell_round_witness:
  "\<exists>t. shell_loop (typing (str ''exit'')) (\<lambda>_ _. 0) 0 0 (\<lambda>_ _ _. None) 0x8000000 1 user_example
    = Some (0, with_line 0x8000000 (str ''exit'') t)"
proof -
  let ?w = "typing (str ''exit'')"
  note round = shell_round [OF user_example_ok(3,5) _ user_example_wait(2), of ?w 1 "\<lambda>_ _. 0" 0 0 "\<lambda>_ _ _. None", simplified]
  then obtain a where a: "printed user_example a" "can_print a"
    and run: "\<And>t line. await (\<lambda>s. entered s = 1) (snd (?w 2)) a = Some t \<and> line_entered t line \<and> can_print t \<Longrightarrow>
      line = str ''exit'' \<longrightarrow> shell_loop ?w (\<lambda>_ _. 0) 0 0 (\<lambda>_ _ _. None) 0x8000000 1 user_example
        = Some (0, with_line 0x8000000 line t)"
    by auto
  then show ?thesis using exit_wait [OF a] by fastforce
qed

text \<open>C26: a line whose command the directory does not have, typed while a task slot is free, is answered
  \<open>no such command\<close> after what the screen showed when the line was entered, and the shell prompts
  again, still able to read and to print.\<close>

theorem shell_unknown_command:
  assumes "can_read a" "say (fst (w k)) dev ''391OS> '' s = Some a" "buf \<noteq> 0" "apart buf 1024 VIDEO 4000"
    "\<forall>k. fst (w k) \<noteq> -2"
    "await (\<lambda>s. entered s = 1) (snd (w (k + 1))) a = Some t" "line_entered t line" "can_print t" "can_read t"
    "line \<noteq> str ''exit''" "command_line (ram (with_line buf line t)) buf line cmd arg"
    "\<forall>j<62. entry_name (with_line buf line t) j \<noteq> take 32 cmd"
    "new_pid (new_task (ram (with_line buf line t)) buf (with_line buf line t)) = of_nat q" "q \<le> 6"
  shows "\<exists>v. shell_loop w dev esp ebp prog buf k s = shell_loop w dev esp ebp prog buf (k + 4) v \<and> can_print v \<and> can_read v
    \<and> display_of v = fold emit (str ''no such command\<newline>'') (display_of t)"
proof -
  let ?u = "with_line buf line t"
  have w: "fst (w k) \<noteq> -2" for k using assms(5) by simp
  note l = with_line_prints [OF assms(8,7,4)]
  obtain x where x: "execute (fst (w (k + 2))) dev esp ebp (ram ?u) buf ?u = Some (Ret (-1), x)" "display_of x = display_of ?u"
      "can_print x = can_print ?u" "can_read x = can_read ?u"
    by (rule execute_unknown [OF assms(11-14)])
  then have ex: "ece391_execute (fst (w (k + 2))) dev esp ebp prog buf ?u = Some (-1, x)" "can_print x"
    using l(1) by (simp_all add: ece391_execute_def)
  obtain v where v: "shell_report (fst (w (k + 3))) dev (-1) x = Some v" "printed x v \<or> v = x" "can_print v"
      "display_of v = fold emit (str (report_of (-1))) (display_of x)"
    by (rule shell_report_prints [OF ex(2) w])
  have "line \<noteq> []" using assms(11) by (simp add: command_line_def)
  then have "shell_loop w dev esp ebp prog buf k s = shell_loop w dev esp ebp prog buf (k + 4) v"
    using shell_round_line [where w = w and k = k, OF assms(1-4,6-8), of esp ebp prog] assms(10) ex(1) v(1) by simp
  moreover have "pcblock v = pcblock x" using v(2) printed_fields(1) by blast
  then have "can_read v" using x(4) assms(9) by (simp add: can_read_def with_line_def)
  ultimately show ?thesis using v(3,4) x(2) l(2) by (auto simp: report_of_def)
qed

text \<open>The example: one character is typed, and the directory has only \<open>a\<close>.\<close>

definition entered_char :: "u8 \<Rightarrow> sys_state \<Rightarrow> sys_state" where
  "entered_char c a = a\<lparr>text_buf := [c, 0x0A] @ replicate 126 0, entered := 1\<rparr>"

definition typed :: "u8 \<Rightarrow> sys_state \<Rightarrow> sys_state" where
  "typed c a = with_line 0x8000000 [c] (entered_char c a)"

lemma typed_files:
  assumes "printed user_example a"
  shows "same_image user_example (ram (typed c a))" "filesystem (typed c a) = filesystem user_example"
    "BOOT_BLOCK_PTR (typed c a) = BOOT_BLOCK_PTR user_example"
proof -
  have a: "filesystem a = filesystem user_example" "BOOT_BLOCK_PTR a = BOOT_BLOCK_PTR user_example"
    using printed_fields [OF assms(1)] by simp_all
  have ap: "apart 0x8000000 2 (BOOT_BLOCK_PTR user_example) (image_len user_example)"
      "apart VIDEO 4000 (BOOT_BLOCK_PTR user_example) (image_len user_example)"
    using user_example_buffer [of 2] by (simp_all add: user_buffer_def)
  have "same_image user_example (ram a)" using printed_image [OF assms(1) ap(2)] .
  moreover have "same_image a (ram (typed c a))" unfolding typed_def with_line_def entered_char_def
    using ap(1) by simp (intro same_image_wr, simp_all add: image_len_def a numeral_2_eq_2)
  ultimately show "same_image user_example (ram (typed c a))" by (simp add: same_image_def image_len_def a)
  show "filesystem (typed c a) = filesystem user_example" "BOOT_BLOCK_PTR (typed c a) = BOOT_BLOCK_PTR user_example"
    using a by (simp_all add: typed_def with_line_def entered_char_def)
qed

lemma typed_names:
  assumes "printed user_example a" "j < 62"
  shows "entry_name (typed c a) j = entry_name user_example j"
  using same_entries(3) [OF user_example_file(3) typed_files [OF assms(1)]] assms(2) by simp

lemma typed_slot:
  assumes "printed user_example a"
  shows "new_pid (new_task (ram (typed c a)) 0x8000000 (typed c a)) = of_nat 4"
proof -
  have "tasks (typed c a) = [1, 1, 0, 0, 0, 0, 0]" "pc (typed c a) = pc user_example" "term1_rst (typed c a) = 0"
      "term2_rst (typed c a) = 0" "term3_rst (typed c a) = 0" "term2_press (typed c a) = 0" "term3_press (typed c a) = 0"
    using assms by (cases a; simp add: printed_def typed_def with_line_def entered_char_def user_example_def sys_example_def)+
  then show ?thesis unfolding new_task_def Let_def free_task_slots by (simp add: user_example_def sys_example_def)
qed

lemma typed_command: "c \<noteq> 0 \<Longrightarrow> c \<noteq> 0x20 \<Longrightarrow> command_line (ram (typed c a)) 0x8000000 [c] [c] []"
  using cstring_wr [of "[c]" "ram a" "0x8000000"]
  by (simp add: command_line_def typed_def with_line_def entered_char_def)

text \<open>The prompt and the line.\<close>

lemma typed_prompt:
  assumes "c \<noteq> 0x0A" "c \<noteq> 0"
  obtains a where "say (fst (typing [c] 1)) (\<lambda>_ _. 0) ''391OS> '' user_example = Some a" "printed user_example a"
    "can_read a" "await (\<lambda>s. entered s = 1) [enter_line [c]] a = Some (entered_char c a)"
    "line_entered (entered_char c a) [c]" "can_print (entered_char c a)"
proof -
  obtain a where a: "say (fst (typing [c] 1)) (\<lambda>_ _. 0) ''391OS> '' user_example = Some a" "printed user_example a" "can_print a"
    using say_prints [OF user_example_ok(3), of 0 "''391OS> ''" "\<lambda>_ _. 0"] by (auto simp: str_def)
  have read: "can_read a" using user_example_ok(5) printed_fields(1) [OF a(2)] by (simp add: can_read_def)
  obtain t where t: "await (\<lambda>s. entered s = 1) [enter_line [c]] a = Some t" "line_entered t [c]" "can_print t"
    using enter_line_wait [OF a(2,3) user_example_wait(1), of "[c]"] assms by auto
  moreover have "await (\<lambda>s. entered s = 1) [enter_line [c]] a = Some (entered_char c a)"
    using printed_fields(5) [OF a(2)] user_example_wait(1) a(2)
    by (simp add: deliver_def enter_line_def sti_def cli_def printed_def entered_char_def)
  ultimately have "t = entered_char c a" by simp
  then show thesis using that a(1,2) read t by blast
qed

theorem shell_unknown_command_witness:
  "\<exists>a v. say 0 (\<lambda>_ _. 0) ''391OS> '' user_example = Some a
   \<and> shell_loop (typing [0x78]) (\<lambda>_ _. 0) 0 0 (\<lambda>_ _ _. None) 0x8000000 1 user_example
     = shell_loop (typing [0x78]) (\<lambda>_ _. 0) 0 0 (\<lambda>_ _ _. None) 0x8000000 5 v
   \<and> can_print v \<and> display_of v = fold emit (str ''no such command\<newline>'') (display_of (entered_char 0x78 a))"
proof -
  obtain a where a: "say (fst (typing [0x78] 1)) (\<lambda>_ _. 0) ''391OS> '' user_example = Some a" "printed user_example a"
    "can_read a" "await (\<lambda>s. entered s = 1) [enter_line [0x78]] a = Some (entered_char 0x78 a)"
    "line_entered (entered_char 0x78 a) [0x78]" "can_print (entered_char 0x78 a)"
    using typed_prompt [of "0x78"] by auto
  have "disk b \<noteq> 0x78" for b by (simp add: disk_def wr_def Let_def)
  then have "entry_name (typed 0x78 a) j \<noteq> [0x78]" if "j < 62" for j
    using typed_names [OF a(2) that, of "0x78"] cbytes_Suc [of disk "entry_at user_example j" 31] by (simp add: entry_name_def)
  moreover have "can_read (entered_char 0x78 a)" using a(3) by (simp add: can_read_def entered_char_def)
  moreover have "[0x78] \<noteq> str ''exit''" by (simp add: str_def)
  ultimately show ?thesis
    using shell_unknown_command [where w = "typing [0x78]" and k = 1 and t = "entered_char 0x78 a" and q = 4 and line = "[0x78]"
        and cmd = "[0x78]" and arg = "[]" and esp = 0 and ebp = 0 and prog = "\<lambda>_ _ _. None", OF a(3,1) _ user_example_wait(2)]
      a(1,4-6) typed_slot [OF a(2), of "0x78"] typed_command [of "0x78" a] unfolding typed_def by auto
qed

text \<open>C14: a line typed to the shell of task \<open>p\<close> that names an executable runs it: \<open>execute\<close> enters the program in
  a slot \<open>q\<close> of its own, and once the program has halted the shell prompts again, without a report
  whatever the status was, with the screen as the program left it, the shell's task running and the
  slot free. The program may do anything that ends in \<open>halt\<close> and leaves the task table, the location
  of the page directories, its own page directory and the shell's saved control block alone.\<close>

theorem shell_runs_program:
  assumes "can_read a" "say (fst (w k)) dev ''391OS> '' s = Some a" "buf \<noteq> 0" "apart buf 1024 VIDEO 4000"
    "await (\<lambda>s. entered s = 1) (snd (w (k + 1))) a = Some t" "line_entered t line" "can_print t" "line \<noteq> str ''exit''"
    and u: "u = with_line buf line t"
    and cmd: "command_line (ram u) buf line cmd arg" "runnable u cmd inode"
    and slot: "new_pid (new_task (ram u) buf u) = of_nat q" "4 \<le> q" "q \<le> 6"
    and shell: "cr3 u = dir_addr (tables_at u) (task_dir p)" "1 \<le> p" "p \<le> 6" "p \<noteq> q" "length (tasks u) = 7"
    and entry: "eip = elf_entry (file_bytes u inode 0 (file_size u inode))"
    and prog: "\<And>x. \<exists>status e b y. prog eip 0x083FFFFC x = Some ((status, e, b), y) \<and> cr3 y = cr3 x
      \<and> tables_at y = tables_at x \<and> tasks y = tasks x \<and> pcbs y (pcb_at (of_nat p)) = pcbs x (pcb_at (of_nat p))"
  shows "\<exists>x status e b y v. execute (fst (w (k + 2))) dev esp ebp (ram u) buf u = Some (User_mode eip 0x083FFFFC, x)
    \<and> prog eip 0x083FFFFC x = Some ((status, e, b), y)
    \<and> shell_loop w dev esp ebp prog buf k s = shell_loop w dev esp ebp prog buf (k + 4) v
    \<and> display_of v = display_of y \<and> find_pid v = int p \<and> cr3 v = cr3 u \<and> tasks v = (tasks u)[q := 0]"
proof -
  obtain x where x: "execute (fst (w (k + 2))) dev esp ebp (ram u) buf u = Some (User_mode eip 0x083FFFFC, x)" "new_pid x = of_nat q"
    using execute_runs [OF cmd slot(1,3)] entry by blast
  obtain status e b y where y: "prog eip 0x083FFFFC x = Some ((status, e, b), y)" "cr3 y = cr3 x" "tables_at y = tables_at x"
      "tasks y = tasks x" "pcbs y (pcb_at (of_nat p)) = pcbs x (pcb_at (of_nat p))"
    using prog by blast
  obtain v where v: "halt (fst (w (k + 2))) dev e b status y = Some (Resume esp ebp 0, v)" "cr3 v = cr3 u" "find_pid v = int p"
      "tasks v = (tasks u)[q := 0]"
    using halt_resumes [OF x(1) shell(1-3) x(2) slot(2,3) shell(4,5) y(2-5)] by blast
  have "ece391_execute (fst (w (k + 2))) dev esp ebp prog buf u = Some (0, v)"
    using x(1) y(1) v(1) by (simp add: ece391_execute_def)
  moreover have "line \<noteq> []" using cmd(1) by (simp add: command_line_def)
  ultimately have "shell_loop w dev esp ebp prog buf k s = shell_loop w dev esp ebp prog buf (k + 4) v"
    using shell_round_line [where w = w and k = k, OF assms(1-7), of esp ebp prog] assms(8) u by (simp add: shell_report_def)
  then show ?thesis using x(1) y(1) v(2-4) halt_display [OF v(1)] by blast
qed

text \<open>The example: \<open>a\<close> is typed, and the program ends at once with status 5.\<close>

lemma runnable_same:
  assumes "runnable s cmd inode" "directory_ok s" "same_image s (ram t)" "filesystem t = filesystem s" "BOOT_BLOCK_PTR t = BOOT_BLOCK_PTR s"
  shows "runnable t cmd inode" "file_bytes t inode 0 (file_size t inode) = file_bytes s inode 0 (file_size s inode)"
proof -
  have ok: "file_ok s inode" "28 \<le> file_size s inode" using assms(1) by (simp_all add: runnable_def)
  note sf = same_files [OF ok(1) assms(3-5)] and se = same_entries [OF assms(2-5)]
  show fb: "file_bytes t inode 0 (file_size t inode) = file_bytes s inode 0 (file_size s inode)" using sf by simp
  have "file_bytes t inode 0 4 = file_bytes s inode 0 4" using sf(4) ok(2) by simp
  moreover obtain i where i: "i < 62" "entry_name s i = take 32 cmd" "\<forall>j<i. entry_name s j \<noteq> take 32 cmd"
      "ld32 (ram s) (entry_at s i + 36) = inode"
    using assms(1) by (auto simp: runnable_def)
  then have "entry_name t i = take 32 cmd" "\<forall>j<i. entry_name t j \<noteq> take 32 cmd" "ld32 (ram t) (entry_at t i + 36) = inode"
    using se(3,5) by (simp_all add: entry_inode_def)
  ultimately show "runnable t cmd inode"
    using assms(1) i(1) fb unfolding runnable_def sf(1,3) assms(4,5) using sf(2) by auto
qed

theorem shell_runs_program_witness:
  "\<exists>a x v. execute 0 (\<lambda>_ _. 0) 0x7FFF00 0x7FFF80 (ram (typed 0x61 a)) 0x8000000 (typed 0x61 a)
       = Some (User_mode 0x08048074 0x083FFFFC, x)
   \<and> shell_loop (typing [0x61]) (\<lambda>_ _. 0) 0x7FFF00 0x7FFF80 (\<lambda>_ _ s. Some ((5, 0x7F9F00, 0x7F9F80), s)) 0x8000000 1 user_example
     = shell_loop (typing [0x61]) (\<lambda>_ _. 0) 0x7FFF00 0x7FFF80 (\<lambda>_ _ s. Some ((5, 0x7F9F00, 0x7F9F80), s)) 0x8000000 5 v
   \<and> display_of v = display_of x \<and> find_pid v = 1 \<and> tasks v = [1, 1, 0, 0, 0, 0, 0]"
proof -
  obtain a where a: "say (fst (typing [0x61] 1)) (\<lambda>_ _. 0) ''391OS> '' user_example = Some a" "printed user_example a"
    "can_read a" "await (\<lambda>s. entered s = 1) [enter_line [0x61]] a = Some (entered_char 0x61 a)"
    "line_entered (entered_char 0x61 a) [0x61]" "can_print (entered_char 0x61 a)"
    using typed_prompt [of "0x61"] by auto
  have "runnable user_example [0x61] 0"
    using runnable_cong(1) [of user_example sys_example "[0x61]" 0] runnable_a by (simp add: sys_example_files)
  note same = runnable_same [OF this user_example_file(3) typed_files [OF a(2), of "0x61"]]
  have "elf_entry (file_bytes user_example 0 0 28) = 0x08048074"
    using entry_a by (simp add: file_bytes_def block_at_def block_no_def inode_at_def)
  then have e: "0x08048074 = elf_entry (file_bytes (typed 0x61 a) 0 0 (file_size (typed 0x61 a) 0))"
    by (simp add: same(2) user_example_file(2))
  have st: "cr3 (typed 0x61 a) = dir_addr (tables_at (typed 0x61 a)) (task_dir 1)" "tasks (typed 0x61 a) = [1, 1, 0, 0, 0, 0, 0]"
    using a(2) by (cases a; simp add: printed_def typed_def with_line_def entered_char_def user_example_def sys_example_def)+
  have "[0x61] \<noteq> str ''exit''" by (simp add: str_def)
  from shell_runs_program [where w = "typing [0x61]" and k = 1 and dev = "\<lambda>_ _. 0" and u = "typed 0x61 a" and q = 4 and p = 1
      and esp = "0x7FFF00" and ebp = "0x7FFF80" and prog = "\<lambda>_ _ s. Some ((5, 0x7F9F00, 0x7F9F80), s)",
      OF a(3,1) _ user_example_wait(2) _ a(5,6) this typed_def typed_command same(1) typed_slot [OF a(2)] _ _ st(1) _ _ _ _ e]
  show ?thesis using a(4) st(2) by auto
qed

end
