(* ===== verification/Pingpong.thy ===== *)
theory Pingpong
  imports Programs
begin

text \<open>
  The program \<open>pingpong\<close>, \<^verbatim>\<open>syscalls/ece391pingpong.c\<close>: a letter that moves between two walls, one
  frame for every tick of the clock. The program does not end, so its \<open>main\<close> takes the number of
  rounds of its endless loop and gives the state after them. The buffer and the locals whose address
  it passes to the system calls are at addresses of their own.
\<close>

section \<open>The program\<close>

definition BUFMAX :: nat where "BUFMAX = 79 + 2"
definition STARTLOOP :: nat where "STARTLOOP = 1 + 1"
definition LOOPMAX :: nat where "LOOPMAX = 79 + 2 - 2 - 1"
definition STARTCHAR :: u8 where "STARTCHAR = 0x41"
definition ENDCHAR :: u8 where "ENDCHAR = 0x5A"

lemma pingpong_consts: "BUFMAX = 81" "STARTLOOP = 2" "LOOPMAX = 78" "STARTCHAR = 0x41" "ENDCHAR = 0x5A"
  by (simp_all add: BUFMAX_def STARTLOOP_def LOOPMAX_def STARTCHAR_def ENDCHAR_def)

text \<open>The loop that puts blanks into \<open>buf[lo]\<close> to \<open>buf[hi - 1]\<close>.\<close>

definition blank :: "u32 \<Rightarrow> nat \<Rightarrow> nat \<Rightarrow> mem \<Rightarrow> mem" where
  "blank buf lo hi m = fold (\<lambda>i m. m(buf + of_nat i := 0x20)) [lo..<hi] m"

definition pingpong_walls :: "u32 \<Rightarrow> mem \<Rightarrow> mem" where
  "pingpong_walls buf m = (blank buf 0 BUFMAX m)(buf + of_nat (BUFMAX - 1) := 0, buf + of_nat (BUFMAX - 2) := 0x0A,
     buf + of_nat (BUFMAX - 3) := 0x7C, buf + 1 := 0x7C)"

text \<open>A frame: the inner part is cleared, the letter drawn, the line printed, and a tick awaited.\<close>

definition pingpong_frame :: "'a world \<Rightarrow> device \<Rightarrow> int \<Rightarrow> u32 \<Rightarrow> u32 \<Rightarrow> u8 \<Rightarrow> nat \<Rightarrow> nat \<Rightarrow> 'a sys_state_scheme
    \<Rightarrow> 'a sys_state_scheme option" where
  "pingpong_frame w dev rtc_fd buf garbage curchar j k s =
     (let m = blank buf STARTLOOP LOOPMAX (ram s);
          m = m(buf + of_nat j := curchar)
      in Option.bind (ece391_fdputs (fst (w k)) ram dev 1 buf (s\<lparr>ram := m\<rparr>)) (\<lambda>s.
         map_option snd (sys_read (fst (w (k + 1))) (snd (w (k + 1))) rtc_fd garbage 4 s)))"

fun pingpong_frames :: "'a world \<Rightarrow> device \<Rightarrow> int \<Rightarrow> u32 \<Rightarrow> u32 \<Rightarrow> u8 \<Rightarrow> nat list \<Rightarrow> nat \<Rightarrow> 'a sys_state_scheme
    \<Rightarrow> 'a sys_state_scheme option" where
  "pingpong_frames w dev rtc_fd buf garbage curchar [] k s = Some s"
| "pingpong_frames w dev rtc_fd buf garbage curchar (j # js) k s =
     Option.bind (pingpong_frame w dev rtc_fd buf garbage curchar j k s)
       (pingpong_frames w dev rtc_fd buf garbage curchar js (k + 2))"

text \<open>The endless loop: out, back, and the next letter; \<open>n\<close> rounds of it.\<close>

definition next_char :: "u8 \<Rightarrow> u8" where
  "next_char curchar = (if curchar = ENDCHAR then STARTCHAR else curchar + 1)"

fun pingpong_rounds :: "nat \<Rightarrow> 'a world \<Rightarrow> device \<Rightarrow> int \<Rightarrow> u32 \<Rightarrow> u32 \<Rightarrow> u8 \<Rightarrow> nat \<Rightarrow> 'a sys_state_scheme
    \<Rightarrow> 'a sys_state_scheme option" where
  "pingpong_rounds 0 w dev rtc_fd buf garbage curchar k s = Some s"
| "pingpong_rounds (Suc n) w dev rtc_fd buf garbage curchar k s =
     Option.bind (pingpong_frames w dev rtc_fd buf garbage curchar [STARTLOOP..<LOOPMAX] k s) (\<lambda>s.
     Option.bind (pingpong_frames w dev rtc_fd buf garbage curchar (rev [STARTLOOP..<LOOPMAX]) (k + 2 * (LOOPMAX - STARTLOOP)) s)
       (pingpong_rounds n w dev rtc_fd buf garbage (next_char curchar) (k + 4 * (LOOPMAX - STARTLOOP))))"

definition pingpong_main :: "nat \<Rightarrow> 'a world \<Rightarrow> device \<Rightarrow> u32 \<Rightarrow> u32 \<Rightarrow> u32 \<Rightarrow> 'a sys_state_scheme
    \<Rightarrow> 'a sys_state_scheme option" where
  "pingpong_main n w dev buf ret_val garbage s =
     (let s = s\<lparr>ram := pingpong_walls buf (ram s)\<rparr>
      in Option.bind (sys_open dev (wr (\<lambda>_. 0) 4 (str ''rtc'')) 4 s) (\<lambda>(rtc_fd, s).
           let s = s\<lparr>ram := wr (ram s) ret_val (le_bytes 32)\<rparr>
           in Option.bind (sys_write (fst (w 0)) ram dev rtc_fd ret_val 4 s) (\<lambda>(r, s).
                let s = s\<lparr>ram := wr (ram s) ret_val (le_bytes (of_int r))\<rparr>
                in pingpong_rounds n w dev rtc_fd buf garbage STARTCHAR 1 s)))"

section \<open>The line that a frame prints\<close>

definition empty_row :: "u8 list" where
  "empty_row = [0x20, 0x7C] @ replicate 76 0x20 @ [0x7C, 0x0A]"

definition frame_text :: "u8 \<Rightarrow> nat \<Rightarrow> u8 list" where
  "frame_text c j = empty_row[j := c]"

lemma empty_row_nth: "empty_row ! 0 = 0x20" "empty_row ! Suc 0 = 0x7C" "2 \<le> i \<Longrightarrow> i < 78 \<Longrightarrow> empty_row ! i = 0x20"
  "empty_row ! 78 = 0x7C" "empty_row ! 79 = 0x0A" "length empty_row = 80"
proof -
  show "empty_row ! i = 0x20" if i: "2 \<le> i" "i < 78"
  proof -
    have "i = Suc (Suc (i - 2))" "i - 2 < 76" using i by simp_all
    then show ?thesis unfolding empty_row_def by (metis append_Cons append_Nil length_replicate nth_Cons_Suc nth_append nth_replicate)
  qed
qed (simp_all add: empty_row_def nth_append)

lemma frame_length [simp]: "length (frame_text c j) = 80"
  by (simp add: frame_text_def empty_row_nth)

lemma blank_at:
  assumes "i < 2 ^ 32" "hi \<le> 2 ^ 32"
  shows "blank buf lo hi m (buf + of_nat i) = (if lo \<le> i \<and> i < hi then 0x20 else m (buf + of_nat i))"
proof -
  have "fold (\<lambda>i m. m(buf + of_nat i := 0x20)) ks m (buf + of_nat i :: u32) = (if i \<in> set ks then 0x20 else m (buf + of_nat i))"
    if "\<forall>k\<in>set ks. k < 2 ^ 32" for ks and m :: mem
    using that
  proof (induction ks arbitrary: m)
    case (Cons k ks)
    have "buf + of_nat i = buf + of_nat k \<longleftrightarrow> i = k" using Cons.prems by (intro index_inj assms(1)) simp
    then show ?case using Cons.IH Cons.prems by (simp del: add_left_cancel)
  qed simp
  from this [of "[lo..<hi]" m] show ?thesis unfolding blank_def using assms(2) by simp
qed

lemma blank_out: "a \<notin> region buf hi \<Longrightarrow> hi \<le> 2 ^ 32 \<Longrightarrow> blank buf lo hi m a = m a"
proof -
  assume a: "a \<notin> region buf hi" "hi \<le> 2 ^ 32"
  have "fold (\<lambda>i m. m(buf + of_nat i := 0x20)) ks m a = m a" if "\<forall>k\<in>set ks. k < hi" for ks and m :: mem
    using that
  proof (induction ks arbitrary: m)
    case (Cons k ks)
    then have "buf + of_nat k \<in> region buf hi" using a(2) by (intro in_region) simp_all
    then show ?case using Cons a(1) by auto
  qed simp
  then show ?thesis by (simp add: blank_def del: upt_rec_numeral)
qed

text \<open>The walls, the line break and the end of the string.\<close>

definition walls :: "u32 \<Rightarrow> mem \<Rightarrow> bool" where
  "walls buf m \<longleftrightarrow> m buf = 0x20 \<and> m (buf + 1) = 0x7C \<and> m (buf + 78) = 0x7C \<and> m (buf + 79) = 0x0A \<and> m (buf + 80) = 0"

lemma walls_drawn: "walls buf (pingpong_walls buf m)"
  using blank_at [of 0 81 buf 0 m] by (simp add: walls_def pingpong_walls_def pingpong_consts)

lemma walls_out: "a \<notin> region buf 81 \<Longrightarrow> pingpong_walls buf m a = m a"
proof -
  assume a: "a \<notin> region buf 81"
  have "a \<noteq> buf + of_nat i" if "i < 81" for i using a in_region [of i 81 buf] that by auto
  from this [of 80] this [of 79] this [of 78] this [of 1] show ?thesis
    using blank_out [OF a, of 0 m] by (simp add: pingpong_walls_def pingpong_consts)
qed

lemma frame_bytes:
  fixes buf :: u32 and m :: mem and c :: u8 and j :: nat
  assumes "walls buf m" "2 \<le> j" "j < 78"
  defines "m' \<equiv> (blank buf 2 78 m)(buf + of_nat j := c)"
  shows "rd m' buf 81 = frame_text c j @ [0]" "walls buf m'"
proof -
  have at: "m' (buf + of_nat i) = (if i = j then c else if 2 \<le> i \<and> i < 78 then 0x20 else m (buf + of_nat i))" if "i < 81" for i
  proof -
    have "buf + of_nat i = buf + of_nat j \<longleftrightarrow> i = j" using that assms(3) by (intro index_inj) simp_all
    then show ?thesis using blank_at [of i 78 buf 2 m] that by (simp add: m'_def)
  qed
  have w: "m' buf = 0x20" "m' (buf + 1) = 0x7C" "m' (buf + 78) = 0x7C" "m' (buf + 79) = 0x0A" "m' (buf + 80) = 0"
    using at [of 0] at [of 1] at [of 78] at [of 79] at [of 80] assms(1-3) by (simp_all add: walls_def)
  then show "walls buf m'" by (simp add: walls_def)
  show "rd m' buf 81 = frame_text c j @ [0]"
  proof (rule nth_equalityI)
    fix i assume "i < length (rd m' buf 81)"
    then have i: "i < 81" by simp
    consider "i = 0" | "i = 1" | "2 \<le> i" "i < 78" | "i = 78" | "i = 79" | "i = 80" using i by linarith
    then have "m' (buf + of_nat i) = (frame_text c j @ [0]) ! i"
    proof cases
      case 3
      then show ?thesis using at [OF i] by (simp add: nth_append) (simp add: frame_text_def nth_list_update empty_row_nth)
    qed (use w assms(2,3) in \<open>simp_all add: nth_append\<close>, simp_all add: frame_text_def nth_list_update empty_row_nth)
    then show "rd m' buf 81 ! i = (frame_text c j @ [0]) ! i" using i by simp
  qed simp
qed

lemma frame_nonzero: "c \<noteq> 0 \<Longrightarrow> 0 \<notin> set (frame_text c j)"
  using set_update_subset_insert [of empty_row j c] by (auto simp: frame_text_def empty_row_def simp del: list_update.simps)

section \<open>Frames\<close>

text \<open>Every wait meets a tick of the clock.\<close>

definition ticking :: "device \<Rightarrow> 'a world \<Rightarrow> bool" where
  "ticking dev w \<longleftrightarrow> (\<forall>k. fst (w k) \<noteq> -2 \<and> (\<exists>irqs. snd (w k) = (\<lambda>t. Some (rtc_interrupt dev t)) # irqs))"

definition frames_ready :: "nat \<Rightarrow> u32 \<Rightarrow> u32 \<Rightarrow> 'a sys_state_scheme \<Rightarrow> bool" where
  "frames_ready fd buf garbage s \<longleftrightarrow> can_print s \<and> walls buf (ram s) \<and> fd < 8 \<and> flags (file_struct (pcblock s) ! fd) \<noteq> 0
     \<and> fops_ptr (file_struct (pcblock s) ! fd) = rtc_fops \<and> buf \<noteq> 0 \<and> garbage \<noteq> 0 \<and> apart buf 81 VIDEO 4000"

lemma frames_readyD:
  assumes "frames_ready fd buf garbage s"
  shows "can_print s" "walls buf (ram s)" "fd < 8" "flags (file_struct (pcblock s) ! fd) \<noteq> 0"
    "fops_ptr (file_struct (pcblock s) ! fd) = rtc_fops" "buf \<noteq> 0" "garbage \<noteq> 0" "apart buf 81 VIDEO 4000"
  using assms by (simp_all add: frames_ready_def)

lemma walls_cong: "rd m' buf 81 = rd m buf 81 \<Longrightarrow> walls buf m' = walls buf m"
proof -
  assume eq: "rd m' buf 81 = rd m buf 81"
  have "m' (buf + of_nat i) = m (buf + of_nat i)" if "i < 81" for i
    using arg_cong [OF eq, of "\<lambda>xs. xs ! i"] that by simp
  from this [of 0] this [of 1] this [of 78] this [of 79] this [of 80] show ?thesis by (simp add: walls_def)
qed

text \<open>A tick ends a read of the clock and changes nothing that is seen.\<close>

lemma clock_read:
  assumes "fd < 8" "flags (file_struct (pcblock s) ! fd) \<noteq> 0" "fops_ptr (file_struct (pcblock s) ! fd) = rtc_fops" "garbage \<noteq> 0"
    "int_on s" "irqs = (\<lambda>t. Some (rtc_interrupt dev t)) # irqs'"
  obtains t where "sys_read junk irqs (int fd) garbage 4 s = Some (0, t)" "int_on t" "ram t = ram s" "pcblock t = pcblock s"
    "screen_x t = screen_x s" "screen_y t = screen_y s" "filesystem t = filesystem s" "BOOT_BLOCK_PTR t = BOOT_BLOCK_PTR s"
proof -
  let ?t = "sti (rtc_interrupt dev (cli (s\<lparr>intr_flag := 0\<rparr>)))"
  have "intr_flag ?t \<noteq> 0" by (simp add: sti_def cli_def)
  then have "await (\<lambda>s. intr_flag s \<noteq> 0) irqs (s\<lparr>intr_flag := 0\<rparr>) = Some ?t"
    using assms(5) by (cases irqs') (simp_all add: assms(6) deliver_def)
  then have run: "sys_read junk irqs (int fd) garbage 4 s = Some (0, ?t)"
    using assms(1-4) by (simp add: sys_read_def fops_read_def rtc_read_def FD_MAX_def)
  show thesis by (rule that [OF run]) (simp_all add: rtc_interrupt_def Let_def send_eoi_def machine_defs)
qed

lemma clock_tick:
  assumes "frames_ready fd buf garbage s" "int_on s" "irqs = (\<lambda>t. Some (rtc_interrupt dev t)) # irqs'"
  obtains t where "sys_read junk irqs (int fd) garbage 4 s = Some (0, t)" "frames_ready fd buf garbage t"
    "display_of t = display_of s"
proof -
  note h = frames_readyD [OF assms(1)]
  obtain t where t: "sys_read junk irqs (int fd) garbage 4 s = Some (0, t)" "ram t = ram s" "pcblock t = pcblock s"
      "screen_x t = screen_x s" "screen_y t = screen_y s"
    using clock_read [OF h(3-5,7) assms(2,3)] by metis
  then have "display_of t = display_of s" "term_ok t = term_ok s" by (intro display_cong; simp)+
  moreover from this have "frames_ready fd buf garbage t" using h t unfolding frames_ready_def can_print_def by simp
  ultimately show thesis using that t(1) by blast
qed

lemma frame_shows:
  assumes "frames_ready fd buf garbage s" "ticking dev w" "2 \<le> j" "j < 78" "c \<noteq> 0"
  obtains t where "pingpong_frame w dev (int fd) buf garbage c j k s = Some t" "frames_ready fd buf garbage t"
    "display_of t = fold emit (frame_text c j) (display_of s)"
proof -
  note h = frames_readyD [OF assms(1)]
  let ?m = "(blank buf 2 78 (ram s))(buf + of_nat j := c)"
  let ?s = "s\<lparr>ram := ?m\<rparr>"
  note b = frame_bytes [OF h(2) assms(3,4), of c]
  have "?m a = ram s a" if "a \<notin> region buf 81" for a
  proof -
    have "region buf 78 \<subseteq> region buf 81" using region_sub [of 0 78 81 buf] by simp
    moreover have "buf + of_nat j \<in> region buf 81" using assms(4) by (intro in_region) simp_all
    ultimately show ?thesis using that blank_out [of a buf 78] by auto
  qed
  then have "rd ?m VIDEO 4000 = rd (ram s) VIDEO 4000" using h(8) by (rule same_outside(1))
  then have disp: "display_of ?s = display_of s" "term_ok ?s = term_ok s" by (intro display_cong; simp)+
  have cs: "cstring (ram ?s) buf (frame_text c j)"
    using b(1) frame_nonzero [OF assms(5)] by (simp add: cstring_alt)
  have "can_print ?s" using h(1) disp(2) by (simp add: can_print_def)
  moreover have "steady ram buf 80 ?s" using apart_sub [OF h(8), of 0 80 0 4000] by (intro steady_ram) simp
  ultimately obtain u where u: "ece391_fdputs (fst (w k)) ram dev 1 buf ?s = Some u" "printed ?s u" "can_print u"
      "display_of u = fold emit (frame_text c j) (display_of ?s)"
    using fdputs_prints [of ?s "fst (w k)" buf ram "frame_text c j" dev] cs h(6) assms(2) by (auto simp: ticking_def)
  have "walls buf (ram u)" using walls_cong [OF printed_rd [OF u(2) h(8)]] b(2) by simp
  then have ready: "frames_ready fd buf garbage u"
    using h u(3) printed_fields(1) [OF u(2)] by (simp add: frames_ready_def)
  have "int_on u" using u(2) by (simp add: printed_def)
  moreover obtain irqs where "snd (w (k + 1)) = (\<lambda>t. Some (rtc_interrupt dev t)) # irqs"
    using assms(2) unfolding ticking_def by blast
  ultimately obtain t where t: "sys_read (fst (w (k + 1))) (snd (w (k + 1))) (int fd) garbage 4 u = Some (0, t)"
      "frames_ready fd buf garbage t" "display_of t = display_of u"
    using clock_tick [OF ready] by metis
  have "pingpong_frame w dev (int fd) buf garbage c j k s = Some t"
    using u(1) t(1) by (simp add: pingpong_frame_def Let_def pingpong_consts)
  then show thesis using that t(2,3) u(4) disp(1) by simp
qed

lemma frames_show:
  assumes "frames_ready fd buf garbage s" "ticking dev w" "\<forall>j\<in>set js. 2 \<le> j \<and> j < 78" "c \<noteq> 0"
  shows "\<exists>t. pingpong_frames w dev (int fd) buf garbage c js k s = Some t \<and> frames_ready fd buf garbage t
    \<and> display_of t = fold (\<lambda>j. fold emit (frame_text c j)) js (display_of s)"
  using assms(1,3)
proof (induction js arbitrary: k s)
  case (Cons j js)
  obtain u where u: "pingpong_frame w dev (int fd) buf garbage c j k s = Some u" "frames_ready fd buf garbage u"
      "display_of u = fold emit (frame_text c j) (display_of s)"
    using frame_shows [OF Cons.prems(1) assms(2) _ _ assms(4), of j k] Cons.prems(2) by auto
  then show ?case using Cons.IH [OF u(2), of "k + 2"] Cons.prems(2) by auto
qed simp

section \<open>Rounds\<close>

text \<open>The letter of round \<open>r\<close>, and the frames of \<open>n\<close> rounds from round \<open>r\<close> on: out, and back.\<close>

definition letter :: "nat \<Rightarrow> u8" where
  "letter r = 0x41 + of_nat (r mod 26)"

definition path :: "nat list" where
  "path = [2..<78] @ rev [2..<78]"

definition script :: "nat \<Rightarrow> nat \<Rightarrow> (u8 \<times> nat) list" where
  "script r n = concat (map (\<lambda>q. map (Pair (letter q)) path) [r..<r + n])"

lemma letter_next: "letter 0 = STARTCHAR" "next_char (letter r) = letter (r + 1)" "letter r \<noteq> 0"
proof -
  have lt: "r mod 26 < 26" by simp
  have "letter r = of_nat (0x41 + r mod 26)" by (simp add: letter_def)
  then have u: "unat (letter r) = 0x41 + r mod 26"
    using lt by (simp only: unat_of_nat) (simp add: take_bit_eq_mod)
  then show "letter r \<noteq> 0" by auto
  show "letter 0 = STARTCHAR" by (simp add: letter_def pingpong_consts)
  have "letter r = ENDCHAR \<longleftrightarrow> r mod 26 = 25"
    using u by (simp add: word_unat_eq_iff pingpong_consts)
  then show "next_char (letter r) = letter (r + 1)"
    using mod_Suc [of r 26] by (auto simp: next_char_def letter_def pingpong_consts)
qed

abbreviation show_frame :: "u8 \<times> nat \<Rightarrow> display \<Rightarrow> display" where
  "show_frame \<equiv> \<lambda>(c, j). fold emit (frame_text c j)"

lemma rounds_show:
  assumes "frames_ready fd buf garbage s" "ticking dev w"
  shows "\<exists>t. pingpong_rounds n w dev (int fd) buf garbage (letter r) k s = Some t \<and> frames_ready fd buf garbage t
    \<and> display_of t = fold show_frame (script r n) (display_of s)"
  using assms(1)
proof (induction n arbitrary: r k s)
  case (Suc n)
  have path: "\<forall>j\<in>set [2..<78]. 2 \<le> j \<and> j < 78" "\<forall>j\<in>set (rev [2..<78]). 2 \<le> j \<and> j < 78"
    by (simp_all del: upt_rec_numeral)
  obtain u where u: "pingpong_frames w dev (int fd) buf garbage (letter r) [2..<78] k s = Some u" "frames_ready fd buf garbage u"
      "display_of u = fold (\<lambda>j. fold emit (frame_text (letter r) j)) [2..<78] (display_of s)"
    using frames_show [OF Suc.prems assms(2) path(1) letter_next(3)] by blast
  obtain v where v: "pingpong_frames w dev (int fd) buf garbage (letter r) (rev [2..<78]) (k + 2 * (78 - 2)) u = Some v"
      "frames_ready fd buf garbage v"
      "display_of v = fold (\<lambda>j. fold emit (frame_text (letter r) j)) (rev [2..<78]) (display_of u)"
    using frames_show [OF u(2) assms(2) path(2) letter_next(3)] by blast
  obtain t where t: "pingpong_rounds n w dev (int fd) buf garbage (letter (r + 1)) (k + 4 * (78 - 2)) v = Some t"
      "frames_ready fd buf garbage t" "display_of t = fold show_frame (script (r + 1) n) (display_of v)"
    using Suc.IH [OF v(2)] by blast
  have "pingpong_rounds (Suc n) w dev (int fd) buf garbage (letter r) k s = Some t"
    using u(1) v(1) t(1) unfolding pingpong_rounds.simps pingpong_consts letter_next(2) by (simp del: upt_rec_numeral)
  moreover have "script r (Suc n) = map (Pair (letter r)) path @ script (r + 1) n"
    by (simp add: script_def upt_conv_Cons del: upt_Suc)
  ultimately show ?case using t(2,3) v(3) u(3)
    by (simp add: path_def fold_map comp_def del: upt_rec_numeral)
qed (simp add: script_def)

section \<open>Opening the clock\<close>

lemma open_entry_rtc:
  assumes "fm filename \<noteq> 0" "read_dentry_by_name fm filename d s = (0, e)" "file_type e = 0" "sys_ok s" "i < 8"
  obtains t where "open_entry dev fm filename p i s = (int i, t)"
    "file_struct (pcblock t) = (file_struct (pcblock s))[i := (file_struct (pcblock s) ! i)\<lparr>flags := 1, fops_ptr := rtc_fops\<rparr>]"
    "ram t = ram s"
proof -
  define s1 where "s1 = upd_file i (\<lambda>f. f\<lparr>flags := 1\<rparr>) s"
  define s2 where "s2 = upd_dentry i (\<lambda>d. snd (read_dentry_by_name fm filename d s1)) s1"
  define s3 where "s3 = snd (filesystem_open fm filename s2)"
  have look: "read_dentry_by_name fm filename d' t = (0, over_entry e d')"
    if "ram t = ram s" "filesystem t = filesystem s" for t d'
    using lookup_entry [OF assms(2)] lookup_depends [OF that] by (simp add: over_entry_def)
  have len: "length (file_struct (pcblock s)) = 8" "length (dentries (pcblock s)) = 8" "fd_val s < 8"
    using assms(4) by (simp_all add: sys_ok_def pcb_ok_def)
  have s1: "ram s1 = ram s" "filesystem s1 = filesystem s" by (simp_all add: s1_def)
  have s2: "s2 = upd_dentry i (over_entry e) s1" "ram s2 = ram s" "filesystem s2 = filesystem s" "fd_val s2 = fd_val s"
    by (simp_all add: s2_def look [OF s1] s1) (simp add: s1_def)
  have o: "filesystem_open fm filename s2 = (0, upd_dentry (fd_val s) (\<lambda>_. over_entry e (dentries (pcblock s2) ! fd_val s)) s2)"
    by (simp add: filesystem_open_def nonempty_name assms(1) look [OF s2(2,3)] s2(4))
  then have s3: "s3 = upd_dentry (fd_val s) (\<lambda>_. over_entry e (dentries (pcblock s2) ! fd_val s)) s2" by (simp add: s3_def)
  have ty: "file_type (dentries (pcblock s3) ! i) = 0"
    using assms(3,5) len by (auto simp: s3 s2(1) s1_def nth_list_update)
  let ?t = "save_pcb p (upd_file i (\<lambda>f. f\<lparr>fops_ptr := rtc_fops\<rparr>) (upd_file i (\<lambda>f. f\<lparr>flags := 1\<rparr>)
    (snd (rtc_open dev filename (s3\<lparr>fd_rtc := i\<rparr>)))))"
  have ro: "pcblock (snd (rtc_open dev filename u)) = pcblock u" "ram (snd (rtc_open dev filename u)) = ram u"
      "fd_rtc (snd (rtc_open dev filename u)) = fd_rtc u" for u :: "'a sys_state_scheme"
    by (simp_all add: rtc_open_def rtc_init_run Let_def)
  have run: "open_entry dev fm filename p i s = (int i, ?t)"
    using ty ro(3) by (simp add: open_entry_def Let_def split_beta nonempty_name assms(1) s1_def [symmetric] s2_def [symmetric]
        s3_def [symmetric]) (simp add: o)
  show thesis
    by (rule that [OF run]) (use len assms(5) in \<open>simp_all add: ro s3 s2(1) s1_def\<close>)
qed

lemma open_clock_files:
  assumes "sys_ok s" "free_fd (pcblock s) = Some fd" "fd < 8" "entry_of s (str ''rtc'') i" "entry_type s i = 0"
  obtains t where "sys_open dev (wr (\<lambda>_. 0) 4 (str ''rtc'')) 4 s = Some (int fd, t)" "ram t = ram s"
    "file_struct (pcblock t) = (file_struct (pcblock s))[fd := (file_struct (pcblock s) ! fd)\<lparr>flags := 1, fops_ptr := rtc_fops\<rparr>]"
proof -
  let ?fm = "wr (\<lambda>_. 0) 4 (str ''rtc'')" and ?s = "s\<lparr>fd_index := fd\<rparr>" and ?p = "pcb_at (of_int (find_pid s))"
  have name: "cstring ?fm 4 (str ''rtc'')" by (rule literal_string) (simp_all add: str_def)
  then have a: "?fm 4 \<noteq> 0" by (simp add: str_def cstring_Cons)
  have e: "i < 62" "entry_name s i = cbytes ?fm 4 32" "\<forall>j<i. entry_name s j \<noteq> cbytes ?fm 4 32"
    using assms(4) name by (simp_all add: entry_of_def cbytes_cstring)
  let ?e = "load_dentry (ram s) (entry_at s i) empty_dentry"
  have look: "read_dentry_by_name ?fm 4 empty_dentry ?s = (0, ?e)"
    using lookup_found [OF e, of empty_dentry] lookup_depends [of ?s s ?fm 4 empty_dentry] by simp
  have ty: "file_type ?e = 0" using assms(5) by (simp add: load_dentry_def entry_type_def)
  have ok: "sys_ok ?s" using assms(1,3) by (simp add: sys_ok_def)
  obtain t where t: "open_entry dev ?fm 4 ?p fd ?s = (int fd, t)"
      "file_struct (pcblock t) = (file_struct (pcblock s))[fd := (file_struct (pcblock s) ! fd)\<lparr>flags := 1, fops_ptr := rtc_fops\<rparr>]"
      "ram t = ram s"
    using open_entry_rtc [OF a look ty ok assms(3), of dev ?p] by auto
  then show thesis using that sys_open_slot [OF _ assms(2,3), of 4 dev ?fm] by simp
qed

lemma open_clock:
  assumes "sys_ok s" "can_print s" "free_fd (pcblock s) = Some fd" "fd < 8" "entry_of s (str ''rtc'') i" "entry_type s i = 0"
  obtains t where "sys_open dev (wr (\<lambda>_. 0) 4 (str ''rtc'')) 4 s = Some (int fd, t)" "can_print t" "display_of t = display_of s"
    "ram t = ram s" "2 \<le> fd" "flags (file_struct (pcblock t) ! fd) = 1" "fops_ptr (file_struct (pcblock t) ! fd) = rtc_fops"
proof -
  obtain t where run: "sys_open dev (wr (\<lambda>_. 0) 4 (str ''rtc'')) 4 s = Some (int fd, t)" and ram: "ram t = ram s"
    and fs: "file_struct (pcblock t) = (file_struct (pcblock s))[fd := (file_struct (pcblock s) ! fd)\<lparr>flags := 1, fops_ptr := rtc_fops\<rparr>]"
    using open_clock_files [OF assms(1,3-6), of dev] by metis
  have fd: "2 \<le> fd" using free_fd_first(1) [OF assms(3,4)] .
  have len: "length (file_struct (pcblock s)) = 8" using assms(1) by (simp add: sys_ok_def pcb_ok_def)
  note disp = display_cong [OF sys_open_screen [OF run] arg_cong [OF ram, of "\<lambda>m. rd m VIDEO 4000"]]
  have "can_print t" using assms(2) fd disp(2) by (simp add: can_print_def fs)
  then show thesis using that [OF run] ram fs fd len disp(1) assms(4) by simp
qed

lemma clock_32:
  assumes "fd < 8" "flags (file_struct (pcblock s) ! fd) \<noteq> 0" "fops_ptr (file_struct (pcblock s) ! fd) = rtc_fops" "a \<noteq> 0"
    "rd (ram s) a 4 = le_bytes 32"
  obtains r where "sys_write junk src dev (int fd) a 4 s = Some (0, s\<lparr>int_on := True,
      out_log := [(0x71, reg_a dev (out_log s) r), (0x70, 0x8A), (0x70, 0x8A)] @ out_log s\<rparr>)" "rate_hz r = 32"
proof -
  have "rd (ram s) a 4 = [ram s a, ram s (a + 1), ram s (a + 2), ram s (a + 3)]" by (simp add: rd_def upt_rec)
  moreover have "le_bytes 32 = [32, 0, 0, 0]" by (simp add: le_bytes_def)
  ultimately have "ld32 (ram s) a = 32" using assms(5) by (simp add: ld32_def)
  then have f: "sint (ld32 (ram s) a) = 32" by simp
  obtain r where r: "rtc_rate 32 2 RTC_BASE_FREQ = Some r" "rate_hz r = 32" using rtc_rate_exact [of 32] by auto
  have "rtc_write dev (int fd) a 4 s = Some (0, s\<lparr>int_on := True,
      out_log := [(0x71, reg_a dev (out_log s) r), (0x70, 0x8A), (0x70, 0x8A)] @ out_log s\<rparr>)"
    using rtc_set_run [OF _ _ r(1), of dev s] assms(4) by (simp add: rtc_write_def f rtc_po2_run NBYTE_4_def)
  then show thesis using that r(2) assms(1-4) by (simp add: sys_write_def fops_write_def FD_MAX_def)
qed

section \<open>Properties\<close>

text \<open>C16: with the clock in the directory and ticks arriving, \<open>pingpong\<close> plays its animation for as long as it
  runs: after any number of rounds the screen has shown, for every round in turn, the letter of that
  round, \<open>A\<close> to \<open>Z\<close> and again, at the columns 2 to 77 and back, each time a line of 80 characters
  between two walls.\<close>

theorem pingpong_animates:
  assumes "sys_ok s" "can_print s" "free_fd (pcblock s) = Some fd" "fd < 8" "entry_of s (str ''rtc'') i" "entry_type s i = 0"
    "user_buffer buf 81 s" "ret_val \<noteq> 0" "garbage \<noteq> 0" "apart ret_val 4 VIDEO 4000" "apart ret_val 4 buf 81" "ticking dev w"
  shows "\<exists>t. pingpong_main n w dev buf ret_val garbage s = Some t
    \<and> display_of t = fold show_frame (script 0 n) (display_of s)"
proof -
  let ?s = "s\<lparr>ram := pingpong_walls buf (ram s)\<rparr>"
  have ub: "buf \<noteq> 0" "apart buf 81 (BOOT_BLOCK_PTR s) (image_len s)" "apart buf 81 VIDEO 4000"
    using assms(7) by (simp_all add: user_buffer_def)
  note out = walls_out [of _ buf "ram s"]
  have "rd (ram ?s) VIDEO 4000 = rd (ram s) VIDEO 4000" using same_outside(1) [OF out ub(3)] by simp
  then have disp: "display_of ?s = display_of s" "term_ok ?s = term_ok s" by (intro display_cong; simp)+
  have img: "same_image s (ram ?s)" using same_outside(2) [OF out ub(2)] by simp
  have dir: "directory_ok s" "i < 62" using assms(5) by (simp_all add: entry_of_def)
  note ents = same_entries [OF dir(1) img, simplified]
  have "sys_ok ?s" "can_print ?s" using assms(1,2) disp(2) by (simp_all add: sys_ok_def can_print_def)
  moreover have "entry_of ?s (str ''rtc'') i" "entry_type ?s i = 0"
    using assms(5,6) dir(2) ents by (simp_all add: entry_of_def)
  ultimately obtain t where t: "sys_open dev (wr (\<lambda>_. 0) 4 (str ''rtc'')) 4 ?s = Some (int fd, t)" "can_print t"
      "display_of t = display_of ?s" "ram t = ram ?s" "2 \<le> fd" "flags (file_struct (pcblock t) ! fd) = 1"
      "fops_ptr (file_struct (pcblock t) ! fd) = rtc_fops"
    using open_clock [of ?s fd i dev] assms(3,4) by auto
  let ?t = "t\<lparr>ram := wr (ram t) ret_val (le_bytes 32)\<rparr>"
  have "rd (ram ?t) ret_val 4 = le_bytes 32" by (simp add: rd_wr_same le_bytes_def)
  then obtain r where r: "sys_write (fst (w 0)) ram dev (int fd) ret_val 4 ?t = Some (0, ?t\<lparr>int_on := True,
      out_log := [(0x71, reg_a dev (out_log ?t) r), (0x70, 0x8A), (0x70, 0x8A)] @ out_log ?t\<rparr>)"
    using clock_32 [of fd ?t ret_val "fst (w 0)" ram dev] assms(4,8) t(6,7) by auto
  define u where "u = t\<lparr>int_on := True, out_log := [(0x71, reg_a dev (out_log ?t) r), (0x70, 0x8A), (0x70, 0x8A)] @ out_log ?t,
      ram := wr (wr (ram t) ret_val (le_bytes 32)) ret_val (le_bytes 0)\<rparr>"
  have lb: "length (le_bytes x) = 4" for x by (simp add: le_bytes_def)
  have "rd (ram u) VIDEO 4000 = rd (ram t) VIDEO 4000" "rd (ram u) buf 81 = rd (ram t) buf 81"
    using assms(10,11) by (simp_all add: u_def rd_wr_apart lb apart_sym)
  then have du: "display_of u = display_of t" "term_ok u = term_ok t" "walls buf (ram u) = walls buf (ram t)"
    by (intro display_cong walls_cong; simp add: u_def)+
  have "frames_ready fd buf garbage u"
    unfolding frames_ready_def using t(2,4,6,7) du(2,3) ub assms(4,9) walls_drawn [of buf "ram s"]
    by (simp add: can_print_def) (simp add: u_def)
  then obtain v where "pingpong_rounds n w dev (int fd) buf garbage (letter 0) 1 u = Some v"
      "display_of v = fold show_frame (script 0 n) (display_of u)"
    using rounds_show [OF _ assms(12)] by blast
  moreover have "pingpong_main n w dev buf ret_val garbage s = pingpong_rounds n w dev (int fd) buf garbage (letter 0) 1 u"
    using t(1) r by (simp add: pingpong_main_def letter_next(1) u_def)
  ultimately show ?thesis using du(1) t(3) disp(1) by simp
qed

text \<open>The example's directory with the clock as its second entry.\<close>

definition clock_example :: sys_state where
  "clock_example = user_example\<lparr>ram := wr (wr disk 0x410080 [0x72, 0x74, 0x63, 0]) 0x4100A0 [0, 0, 0, 0]\<rparr>"

lemma clock_example_simps [simp]:
  "ram clock_example = wr (wr disk 0x410080 [0x72, 0x74, 0x63, 0]) 0x4100A0 [0, 0, 0, 0]"
  "filesystem clock_example = filesystem fs_example"
  "BOOT_BLOCK_PTR clock_example = 0x410000" "pcblock clock_example = pcblock user_example"
  by (simp_all add: clock_example_def)

lemma clock_example_ok: "sys_ok clock_example" "can_print clock_example" "user_buffer 0x8000000 81 clock_example"
proof -
  show "sys_ok clock_example" using user_example_ok(1) by (simp add: clock_example_def sys_ok_def)
  have "disk a \<noteq> 0x0A \<and> disk a \<noteq> 0x0D" for a by (simp add: disk_def wr_def Let_def)
  then have "ram clock_example a \<noteq> 0x0A \<and> ram clock_example a \<noteq> 0x0D" for a by (simp add: wr_def Let_def nth_Cons')
  then have "term_ok clock_example" by (simp add: term_ok_def plain_cells_def get_char_def clock_example_def)
  then show "can_print clock_example" using shell_files_nth(2) by (simp add: can_print_def)
  show "user_buffer 0x8000000 81 clock_example" by (simp add: user_buffer_def apart_def VIDEO_def image_len_def)
qed

lemma clock_example_entry: "entry_of clock_example (str ''rtc'') 1" "entry_type clock_example 1 = 0"
proof -
  have name: "take 32 (str ''rtc'') = str ''rtc''" by (rule take_all) (simp add: str_def)
  have "entry_name clock_example 0 = [0x61]" unfolding entry_name_def
    by (rule cbytes_char) (simp_all add: entry_at_def disk_def wr_def Let_def)
  moreover have "cstring (ram clock_example) (entry_at clock_example 1) (str ''rtc'')"
    by (simp add: cstring_Cons cstring_Nil str_def entry_at_def wr_def Let_def)
  then have "entry_name clock_example 1 = str ''rtc''" unfolding entry_name_def
    using name by (metis cbytes_cstring)
  ultimately show "entry_of clock_example (str ''rtc'') 1"
    unfolding entry_of_def name by (simp add: directory_ok_def image_len_def str_def)
  show "entry_type clock_example 1 = 0" by (simp add: entry_type_def entry_at_def ld32_def wr_def Let_def)
qed

theorem pingpong_animates_witness:
  "\<exists>t. pingpong_main 3 (\<lambda>_. (0, [\<lambda>t. Some (rtc_interrupt (\<lambda>_ _. 0) t)])) (\<lambda>_ _. 0) 0x8000000 0x8000100 0x8000200 clock_example = Some t
    \<and> display_of t = fold show_frame (script 0 3) (display_of clock_example)"
proof -
  have "ticking (\<lambda>_ _. 0) ((\<lambda>_. (0, [\<lambda>t. Some (rtc_interrupt (\<lambda>_ _. 0) t)])) :: nat \<Rightarrow> int \<times> sys_state handler list)"
    by (simp add: ticking_def)
  moreover have "apart 0x8000100 4 VIDEO 4000" "apart 0x8000100 4 0x8000000 81" by (simp_all add: apart_def VIDEO_def)
  ultimately show ?thesis
    using pingpong_animates [OF clock_example_ok(1,2) _ _ clock_example_entry clock_example_ok(3), of 2 "0x8000100" "0x8000200"
        "\<lambda>_ _. 0" "\<lambda>_. (0, [\<lambda>t. Some (rtc_interrupt (\<lambda>_ _. 0) t)])" 3] user_example_ok(2) by simp
qed

end
