(* ===== verification/Grep.thy ===== *)
theory Grep
  imports Programs "HOL-Library.Sublist"
begin

text \<open>
  The program \<open>grep\<close>, \<^verbatim>\<open>syscalls/ece391grep.c\<close>: it searches every file of the directory for a string
  and prints the lines that have it. The addresses of the buffers are parameters; the locals that
  are indices are signed (\<open>last\<close> is \<open>last'\<close> here), and the position of the next system call among those of the run goes
  through the calls as \<open>k\<close>.
\<close>

section \<open>The program\<close>

text \<open>The loop that looks for the end of a line.\<close>

function line_end_from :: "mem \<Rightarrow> u32 \<Rightarrow> int \<Rightarrow> int \<Rightarrow> int" where
  "line_end_from m data last' line_end =
     (if line_end < last' \<and> m (data + of_int line_end) \<noteq> 0x0A then line_end_from m data last' (line_end + 1) else line_end)"
  by pat_completeness auto

termination line_end_from
  by (relation "measure (\<lambda>(m, data, last', line_end). nat (last' - line_end))") auto

declare line_end_from.simps [simp del]

text \<open>Whether the string is at \<open>data[check]\<close>: its first character is a signed \<open>char\<close>, the data's are
  unsigned.\<close>

definition found_at :: "mem \<Rightarrow> u32 \<Rightarrow> u32 \<Rightarrow> int \<Rightarrow> int \<Rightarrow> bool" where
  "found_at m data s s_len check \<longleftrightarrow>
     sint (m s) = uint (m (data + of_int check)) \<and> ece391_strncmp m (data + of_int check) m s (of_int s_len) = 0"

definition print_line :: "'a world \<Rightarrow> device \<Rightarrow> u32 \<Rightarrow> u32 \<Rightarrow> int \<Rightarrow> nat \<Rightarrow> 'a sys_state_scheme \<Rightarrow> 'a sys_state_scheme option" where
  "print_line w dev data fname line_start k st =
     Option.bind (ece391_fdputs (fst (w k)) ram dev 1 fname st) (\<lambda>st.
     Option.bind (say (fst (w (k + 1))) dev '':'' st) (\<lambda>st.
     Option.bind (ece391_fdputs (fst (w (k + 2))) ram dev 1 (data + of_int line_start) st) (\<lambda>st.
     say (fst (w (k + 3))) dev ''\<newline>'' st)))"

text \<open>The loop over the positions of a line, which stops at the first match.\<close>

definition search_line :: "'a world \<Rightarrow> device \<Rightarrow> u32 \<Rightarrow> u32 \<Rightarrow> int \<Rightarrow> u32 \<Rightarrow> int \<Rightarrow> int \<Rightarrow> nat
    \<Rightarrow> 'a sys_state_scheme \<Rightarrow> 'a sys_state_scheme option" where
  "search_line w dev data s s_len fname line_start line_end k st =
     (case find (found_at (ram st) data s s_len) [line_start..line_end - 1] of
        Some check \<Rightarrow> print_line w dev data fname line_start k st
      | None \<Rightarrow> Some st)"

text \<open>The loop over the lines in \<open>data\<close>: what is left in it, the next call's position, and the state.\<close>

partial_function (option) search_data :: "'a world \<Rightarrow> device \<Rightarrow> u32 \<Rightarrow> u32 \<Rightarrow> int \<Rightarrow> u32 \<Rightarrow> int \<Rightarrow> int \<Rightarrow> int \<Rightarrow> nat
    \<Rightarrow> 'a sys_state_scheme \<Rightarrow> (int \<times> nat \<times> 'a sys_state_scheme) option" where
  "search_data w dev data s s_len fname cnt last' line_start k st =
     (let line_end = line_end_from (ram st) data last' line_start
      in if ram st (data + of_int line_end) \<noteq> 0x0A \<and> cnt \<noteq> 0 \<and> line_start \<noteq> 0 then
           let m = (ram st)(data + of_int line_end := 0)
           in Option.bind (ece391_strcpy m data (data + of_int line_start)) (\<lambda>m.
                Some (last' - line_start, k, st\<lparr>ram := m\<rparr>))
         else
           Option.bind (search_line w dev data s s_len fname line_start line_end k
               (st\<lparr>ram := (ram st)(data + of_int line_end := 0)\<rparr>)) (\<lambda>st.
             let line_start = line_end + 1
             in if line_start \<ge> last' then Some (0, k + 4, st)
                else search_data w dev data s s_len fname cnt last' line_start (k + 4) st))"

text \<open>The loop that reads the file, and closes it at the end.\<close>

partial_function (option) search_file :: "'a world \<Rightarrow> device \<Rightarrow> u32 \<Rightarrow> u32 \<Rightarrow> int \<Rightarrow> u32 \<Rightarrow> int \<Rightarrow> int \<Rightarrow> nat
    \<Rightarrow> 'a sys_state_scheme \<Rightarrow> (int \<times> nat \<times> 'a sys_state_scheme) option" where
  "search_file w dev data s s_len fname fd last' k st =
     Option.bind (sys_read (fst (w k)) (snd (w k)) fd (data + of_int last') (1024 - last') st) (\<lambda>(cnt, st).
       if cnt = -1 then map_option (\<lambda>st. (-1, k + 2, st)) (say (fst (w (k + 1))) dev ''file read failed\<newline>'' st)
       else Option.bind (search_data w dev data s s_len fname cnt (last' + cnt) 0 (k + 1) st) (\<lambda>(last', k, st).
         if cnt = 0 then
           let (r, st) = sys_close fd st
           in if r = -1 then map_option (\<lambda>st. (-1, k + 1, st)) (say (fst (w k)) dev ''file close failed\<newline>'' st)
              else Some (0, k, st)
         else search_file w dev data s s_len fname fd last' k st))"

definition do_one_file :: "'a world \<Rightarrow> device \<Rightarrow> u32 \<Rightarrow> u32 \<Rightarrow> u32 \<Rightarrow> nat \<Rightarrow> 'a sys_state_scheme
    \<Rightarrow> (int \<times> nat \<times> 'a sys_state_scheme) option" where
  "do_one_file w dev data s fname k st =
     Option.bind (ece391_strlen (ram st) s) (\<lambda>s_len.
     Option.bind (sys_open dev (ram st) fname st) (\<lambda>(fd, st).
       if fd = -1 then map_option (\<lambda>st. (-1, k + 1, st)) (say (fst (w k)) dev ''file open failed\<newline>'' st)
       else search_file w dev data s (sint s_len) fname fd 0 (k + 1) st))"

partial_function (option) grep_loop :: "'a world \<Rightarrow> device \<Rightarrow> u32 \<Rightarrow> u32 \<Rightarrow> u32 \<Rightarrow> int \<Rightarrow> nat \<Rightarrow> 'a sys_state_scheme
    \<Rightarrow> (int \<times> 'a sys_state_scheme) option" where
  "grep_loop w dev data search buf fd k st =
     Option.bind (sys_read (fst (w k)) (snd (w k)) fd buf 32 st) (\<lambda>(cnt, st).
       if cnt = 0 then Some (0, st)
       else if cnt = -1 then map_option (Pair 3) (say (fst (w (k + 1))) dev ''directory entry read failed\<newline>'' st)
       else if ram st buf = 0x2E then grep_loop w dev data search buf fd (k + 1) st
       else
         let st = st\<lparr>ram := (ram st)(buf + of_int cnt := 0)\<rparr>
         in Option.bind (do_one_file w dev data search buf (k + 1) st) (\<lambda>(r, k, st).
              if r \<noteq> 0 then Some (3, st) else grep_loop w dev data search buf fd k st))"

definition grep_main :: "'a world \<Rightarrow> device \<Rightarrow> u32 \<Rightarrow> u32 \<Rightarrow> u32 \<Rightarrow> 'a sys_state_scheme \<Rightarrow> (int \<times> 'a sys_state_scheme) option" where
  "grep_main w dev data search buf st =
     Option.bind (getargs search 1024 st) (\<lambda>(r, st).
       if r \<noteq> 0 then map_option (Pair 3) (say (fst (w 0)) dev ''could not read argument\<newline>'' st)
       else Option.bind (sys_open dev (wr (\<lambda>_. 0) 4 (str ''.'')) 4 st) (\<lambda>(fd, st).
         if fd = -1 then map_option (Pair 2) (say (fst (w 0)) dev ''directory open failed\<newline>'' st)
         else grep_loop w dev data search buf fd 1 st))"

section \<open>Lines\<close>

text \<open>The lines of a text; what follows the last line break is a line unless it is empty.\<close>

function lines_of :: "u8 list \<Rightarrow> u8 list list" where
  "lines_of cs = (case dropWhile (\<lambda>c. c \<noteq> 0x0A) cs of
      [] \<Rightarrow> if cs = [] then [] else [cs]
    | _ # rest \<Rightarrow> takeWhile (\<lambda>c. c \<noteq> 0x0A) cs # lines_of rest)"
  by pat_completeness auto

termination lines_of
proof (relation "measure length")
  fix cs x rest assume "dropWhile (\<lambda>c. c \<noteq> 0x0A) cs = x # rest"
  then show "(rest, cs) \<in> measure length" using length_dropWhile_le [of "\<lambda>c. c \<noteq> 0x0A" cs] by simp
qed simp

declare lines_of.simps [simp del]

lemma lines_of_simps [simp]:
  "lines_of [] = []" "0x0A \<notin> set l \<Longrightarrow> lines_of (l @ 0x0A # rest) = l # lines_of rest"
  "0x0A \<notin> set l \<Longrightarrow> l \<noteq> [] \<Longrightarrow> lines_of l = [l]"
proof -
  show "lines_of [] = []" by (simp add: lines_of.simps)
  assume l: "0x0A \<notin> set l"
  then have "dropWhile (\<lambda>c. c \<noteq> 0x0A) (l @ 0x0A # rest) = 0x0A # rest" "takeWhile (\<lambda>c. c \<noteq> 0x0A) (l @ 0x0A # rest) = l"
    by (subst dropWhile_append2, auto) (subst takeWhile_append2, auto)
  then show "lines_of (l @ 0x0A # rest) = l # lines_of rest" by (simp add: lines_of.simps [of "l @ 0x0A # rest"])
  assume "l \<noteq> []"
  moreover have d: "dropWhile (\<lambda>c. c \<noteq> 0x0A) l = []" using l by auto
  ultimately show "lines_of l = [l]" unfolding lines_of.simps [of l] d by simp
qed

text \<open>A text as the lines that are searched in a piece of it, and what is kept for the next piece.
  \<open>keep\<close> says that the end of the piece, if it has no line break, is kept, and \<open>later\<close> that it is
  from the second line on.\<close>

function pieces :: "bool \<Rightarrow> bool \<Rightarrow> u8 list \<Rightarrow> u8 list list \<times> u8 list" where
  "pieces later keep cs = (case dropWhile (\<lambda>c. c \<noteq> 0x0A) cs of
      [] \<Rightarrow> if keep then ([], cs) else ([cs], [])
    | _ # rest \<Rightarrow>
        let l = takeWhile (\<lambda>c. c \<noteq> 0x0A) cs
        in if rest = [] then ([l], []) else let (ls, p) = pieces later later rest in (l # ls, p))"
  by pat_completeness auto

termination pieces
proof (relation "measure (\<lambda>(later, keep, cs). length cs)")
  fix later keep :: bool and cs x rest assume "dropWhile (\<lambda>c. c \<noteq> (0x0A :: u8)) cs = x # rest"
  then show "((later, later, rest), (later, keep, cs)) \<in> measure (\<lambda>(later, keep, cs). length cs)"
    using length_dropWhile_le [of "\<lambda>c. c \<noteq> 0x0A" cs] by simp
qed simp

declare pieces.simps [simp del]

lemma pieces_simps [simp]:
  "0x0A \<notin> set l \<Longrightarrow> pieces later keep l = (if keep then ([], l) else ([l], []))"
  "0x0A \<notin> set l \<Longrightarrow> pieces later keep (l @ 0x0A # rest)
    = (if rest = [] then ([l], []) else let (ls, p) = pieces later later rest in (l # ls, p))"
proof -
  assume l: "0x0A \<notin> set l"
  have d: "dropWhile (\<lambda>c. c \<noteq> 0x0A) l = []" using l by auto
  show "pieces later keep l = (if keep then ([], l) else ([l], []))" unfolding pieces.simps [of later keep l] d by simp
  have "dropWhile (\<lambda>c. c \<noteq> 0x0A) (l @ 0x0A # rest) = 0x0A # rest" "takeWhile (\<lambda>c. c \<noteq> 0x0A) (l @ 0x0A # rest) = l"
    using l by (subst dropWhile_append2, auto) (subst takeWhile_append2, auto)
  then show "pieces later keep (l @ 0x0A # rest)
    = (if rest = [] then ([l], []) else let (ls, p) = pieces later later rest in (l # ls, p))"
    by (simp add: pieces.simps [of later keep "l @ 0x0A # rest"])
qed

text \<open>A text starts with a line break-free part.\<close>

lemma first_line:
  obtains (last) "0x0A \<notin> set cs" | (line) l rest where "cs = l @ 0x0A # rest" "0x0A \<notin> set l"
  using split_list_first [of "0x0A" cs] by (cases "0x0A \<in> set cs") auto

lemma pieces_later:
  "lines_of (cs @ rest) = fst (pieces True True cs) @ lines_of (snd (pieces True True cs) @ rest)
   \<and> 0x0A \<notin> set (snd (pieces True True cs)) \<and> set (snd (pieces True True cs)) \<subseteq> set cs \<and> length (snd (pieces True True cs)) \<le> length cs"
proof (induction cs rule: length_induct)
  case (1 cs)
  show ?case
  proof (cases cs rule: first_line)
    case (line l r)
    then have "length r < length cs" by simp
    with "1.IH" have "lines_of (r @ rest) = fst (pieces True True r) @ lines_of (snd (pieces True True r) @ rest)
      \<and> 0x0A \<notin> set (snd (pieces True True r)) \<and> set (snd (pieces True True r)) \<subseteq> set r \<and> length (snd (pieces True True r)) \<le> length r" by blast
    then show ?thesis using line by (auto simp: split_beta Let_def)
  qed simp
qed

lemma pieces_first:
  assumes "0x0A \<in> set cs \<or> rest = []" "cs \<noteq> []"
  shows "lines_of (cs @ rest) = fst (pieces True False cs) @ lines_of (snd (pieces True False cs) @ rest)
   \<and> 0x0A \<notin> set (snd (pieces True False cs)) \<and> set (snd (pieces True False cs)) \<subseteq> set cs \<and> length (snd (pieces True False cs)) < length cs"
proof (cases cs rule: first_line)
  case last
  then show ?thesis using assms by simp
next
  case (line l r)
  then show ?thesis using pieces_later [of r rest] by (auto simp: split_beta Let_def)
qed

text \<open>The lines that are printed.\<close>

definition matching :: "u8 list \<Rightarrow> u8 list \<Rightarrow> bool" where
  "matching key l \<longleftrightarrow> key \<noteq> [] \<and> hd key < 0x80 \<and> sublist key l"

definition shown_lines :: "u8 list \<Rightarrow> u8 list \<Rightarrow> u8 list list \<Rightarrow> u8 list" where
  "shown_lines name key ls = concat (map (\<lambda>l. name @ [0x3A] @ l @ [0x0A]) (filter (matching key) ls))"

lemma shown_lines_append [simp]:
  "shown_lines name key [] = []" "shown_lines name key (ls @ ms) = shown_lines name key ls @ shown_lines name key ms"
  "shown_lines name key [[]] = []"
  by (simp_all add: shown_lines_def matching_def)

lemma shown_lines_Cons: "shown_lines name key (l # ms) = shown_lines name key [l] @ shown_lines name key ms"
  by (simp add: shown_lines_def)

section \<open>Finding the end and the string\<close>

lemma line_end_found:
  assumes "rd m (data + of_nat i) (length cs) = cs" "i + length cs < 2 ^ 31"
  shows "line_end_from m data (int (i + length cs)) (int i) = int (i + length (takeWhile (\<lambda>c. c \<noteq> 0x0A) cs))"
  using assms
proof (induction cs arbitrary: i)
  case (Cons c cs)
  have c: "m (data + of_nat i) = c" "rd m (data + of_nat (i + 1)) (length cs) = cs"
    using Cons.prems(1) by (simp_all add: rd_Suc ac_simps)
  show ?case
  proof (cases "c = 0x0A")
    case True
    then show ?thesis using c(1) by (subst line_end_from.simps) simp
  next
    case False
    then have "line_end_from m data (int (i + length (c # cs))) (int i) = line_end_from m data (int (i + 1 + length cs)) (int (i + 1))"
      using c(1) by (subst line_end_from.simps) (simp add: add.commute)
    also have "\<dots> = int (i + 1 + length (takeWhile (\<lambda>c. c \<noteq> 0x0A) cs))" using c(2) Cons.prems(2) by (intro Cons.IH) simp_all
    finally show ?thesis using False by simp
  qed
qed (simp add: line_end_from.simps)

text \<open>The bytes of a line from one of its positions on.\<close>

lemma cstring_drop: "cstring m a l \<Longrightarrow> i \<le> length l \<Longrightarrow> cstring m (a + of_nat i) (drop i l)"
proof (induction i arbitrary: a l)
  case (Suc i)
  then obtain x xs where l: "l = x # xs" by (cases l) auto
  then have "cstring m (a + 1 + of_nat i) (drop i xs)" using Suc by (intro Suc.IH) (auto simp: cstring_Cons)
  then show ?case by (simp add: l ac_simps)
qed simp

lemma take_prefix: "take (length key) xs = key \<longleftrightarrow> prefix key xs"
  by (metis append_take_drop_id prefix_def append_eq_conv_conj)

lemma char_signed: "sint (c :: u8) = uint c \<longleftrightarrow> c < 0x80"
proof -
  have "uint c = sint c mod 256" using uint_word_of_int [of "sint c", where 'a = 8] by simp
  moreover have "- 128 \<le> sint c" "sint c < 128" using sint_greater_eq [of c] sint_less [of c] by simp_all
  moreover have "sint c mod 256 = sint c + 256" if "sint c < 0"
    using that calculation(2) mod_pos_pos_trivial [of "sint c + 256" 256] by simp
  ultimately have "sint c = uint c \<longleftrightarrow> uint c < 128" by (cases "sint c < 0") simp_all
  then show ?thesis by (simp add: word_less_def)
qed

lemma found_prefix:
  assumes "cstring m (data + of_int check) rest" "cstring m s key" "rest \<noteq> []"
  shows "found_at m data s (int (length key)) check \<longleftrightarrow> key \<noteq> [] \<and> hd key < 0x80 \<and> prefix key rest"
proof -
  have n: "unat (of_nat (length key) :: u32) = length key" using cstringD(4) [OF assms(2)] by (simp add: unat_of_nat_u32)
  have cmp: "ece391_strncmp m (data + of_int check) m s (of_int (int (length key))) = 0 \<longleftrightarrow> prefix key rest"
    using ulib.ncmp_string [of m "data + of_int check" m s "of_nat (length key)"] cbytes_cstring [OF assms(1)] cbytes_cstring [OF assms(2)]
    by (simp add: n take_prefix)
  obtain r rs where r: "rest = r # rs" using assms(3) by (cases rest) auto
  then have d: "m (data + of_int check) = r" "r \<noteq> 0" using assms(1) by (simp_all add: cstring_Cons)
  show ?thesis
  proof (cases key)
    case Nil
    then have "m s = 0" using assms(2) by (simp add: cstring_Nil)
    moreover have "uint r \<noteq> 0" using d(2) by (simp add: word_uint_eq_iff)
    ultimately show ?thesis using d Nil by (simp add: found_at_def)
  next
    case (Cons c cs)
    then have "m s = c" using assms(2) by (simp add: cstring_Cons)
    then show ?thesis using d cmp Cons r char_signed [of c] by (auto simp: found_at_def)
  qed
qed

lemma sublist_drop: "key \<noteq> [] \<Longrightarrow> sublist key l \<longleftrightarrow> (\<exists>i<length l. prefix key (drop i l))"
proof
  assume "key \<noteq> []" "sublist key l"
  then obtain ps ss where "l = ps @ key @ ss" by (auto simp: sublist_def)
  with \<open>key \<noteq> []\<close> show "\<exists>i<length l. prefix key (drop i l)" by (intro exI [of _ "length ps"]) simp
next
  assume "\<exists>i<length l. prefix key (drop i l)"
  then obtain i ss where "drop i l = key @ ss" by (auto simp: prefix_def)
  then have "l = take i l @ key @ ss" by (metis append_take_drop_id)
  then show "sublist key l" by (metis sublist_def)
qed

lemma search_decides:
  assumes "cstring m (data + of_nat i) l" "cstring m s key"
  shows "find (found_at m data s (int (length key))) [int i..int (i + length l) - 1] = None \<longleftrightarrow> \<not> matching key l"
proof -
  have "found_at m data s (int (length key)) (int (i + j)) \<longleftrightarrow> key \<noteq> [] \<and> hd key < 0x80 \<and> prefix key (drop j l)"
    if "j < length l" for j
    using that cstring_drop [OF assms(1), of j] by (intro found_prefix [OF _ assms(2)]) (simp_all add: ac_simps)
  moreover have "set [int i..int (i + length l) - 1] = (\<lambda>j. int (i + j)) ` {..<length l}"
  proof -
    have "x \<in> (\<lambda>j. int (i + j)) ` {..<length l}" if "int i \<le> x" "x < int (i + length l)" for x
      using that by (intro image_eqI [of _ _ "nat (x - int i)"]) auto
    then show ?thesis by auto
  qed
  ultimately show ?thesis unfolding find_None_iff matching_def using sublist_drop [of key l] by auto
qed

text \<open>Copying a string down, over its own beginning.\<close>

lemma strcpy_down:
  assumes "cstring m src xs" "src = dest + of_nat d" "0 < d" "d + length xs < 2 ^ 32"
  shows "ece391_strcpy m dest src = Some (wr m dest (xs @ [0]))"
  using assms
proof (induction xs arbitrary: m src dest)
  case Nil
  then show ?case by (simp add: cstring_Nil ece391_strcpy.simps wr_one fun_eq_iff)
next
  case (Cons x xs)
  let ?m = "m(dest := x)"
  have h: "m src = x" "x \<noteq> 0" "cstring m (src + 1) xs" using Cons.prems(1) by (auto simp: cstring_Cons)
  have "dest \<notin> region (src + 1) (length xs + 1)"
  proof
    assume "dest \<in> region (src + 1) (length xs + 1)"
    then have j: "unat (dest - (src + 1)) < length xs + 1" by (simp add: region_def)
    have "(of_nat (unat (dest - (src + 1)) + (d + 1)) :: u32) = 0" using Cons.prems(2) by simp
    moreover have "unat (dest - (src + 1)) + (d + 1) < 2 ^ 32" using j Cons.prems(4) by simp
    ultimately have "unat (dest - (src + 1)) + (d + 1) = 0" by (metis unat_of_nat_u32 unat_0)
    then show False by simp
  qed
  with h(3) have cs: "cstring ?m (src + 1) xs" by (rule cstring_upd)
  have "src + 1 = dest + 1 + of_nat d" "d + length xs < 2 ^ 32" using Cons.prems(2,4) by simp_all
  from Cons.IH [OF cs this(1) Cons.prems(3) this(2)]
  have "ece391_strcpy ?m (dest + 1) (src + 1) = Some (wr ?m (dest + 1) (xs @ [0]))" .
  then show ?case
    using h wr_Cons [of "xs @ [0]" m dest x] Cons.prems(4) by (subst ece391_strcpy.simps) (simp add: Let_def)
qed

section \<open>A state of the search\<close>

text \<open>The memory of the search: \<open>data\<close> is a buffer of 1025 bytes, and the two strings are there, all apart.\<close>

definition grep_memory :: "u32 \<Rightarrow> u32 \<Rightarrow> u8 list \<Rightarrow> u32 \<Rightarrow> u8 list \<Rightarrow> 'a fs_state_scheme \<Rightarrow> bool" where
  "grep_memory data s key fname name st \<longleftrightarrow> data \<noteq> 0 \<and> unat data + 1025 \<le> 2 ^ 32
     \<and> apart data 1025 (BOOT_BLOCK_PTR st) (image_len st) \<and> apart data 1025 VIDEO 4000
     \<and> cstring (ram st) s key \<and> apart s (length key + 1) data 1025 \<and> apart s (length key + 1) VIDEO 4000
     \<and> fname \<noteq> 0 \<and> cstring (ram st) fname name \<and> apart fname (length name + 1) data 1025 \<and> apart fname (length name + 1) VIDEO 4000"

definition searching :: "'a world \<Rightarrow> nat \<Rightarrow> u32 \<Rightarrow> u32 \<Rightarrow> u32 \<Rightarrow> u8 list \<Rightarrow> u32 \<Rightarrow> u8 list \<Rightarrow> 'a sys_state_scheme \<Rightarrow> bool" where
  "searching w fd inode data s key fname name st \<longleftrightarrow> (\<forall>k. fst (w k) \<noteq> -2) \<and> reading fd inode st
     \<and> flags (file_struct (pcblock st) ! fd) = 1 \<and> grep_memory data s key fname name st"

lemma searchingD:
  assumes "searching w fd inode data s key fname name st"
  shows "fst (w k) \<noteq> -2" "reading fd inode st" "data \<noteq> 0" "unat data + 1025 \<le> 2 ^ 32"
    "apart data 1025 (BOOT_BLOCK_PTR st) (image_len st)" "apart data 1025 VIDEO 4000"
    "cstring (ram st) s key" "apart s (length key + 1) data 1025" "apart s (length key + 1) VIDEO 4000"
    "fname \<noteq> 0" "cstring (ram st) fname name" "apart fname (length name + 1) data 1025" "apart fname (length name + 1) VIDEO 4000"
    "flags (file_struct (pcblock st) ! fd) = 1"
  using assms unfolding searching_def grep_memory_def by blast+

text \<open>Changes of the buffer and of the screen keep it.\<close>

lemma rd_outside:
  assumes "\<And>x. x \<notin> region data n \<Longrightarrow> x \<notin> video_region \<Longrightarrow> m' x = m x" "apart a k data n" "apart a k VIDEO 4000"
  shows "rd m' a k = rd m a k"
proof (cases "k = 0")
  case False
  have "k \<le> 2 ^ 32" using apart_bound [OF assms(3)] False by simp
  then have "a + of_nat i \<in> region a k" if "i < k" for i using that by simp
  then show ?thesis
    using apart_region [OF assms(2)] apart_region [OF assms(3)]
    by (intro rd_cong assms(1)) (auto simp: disjoint_iff)
qed simp

lemma searching_same:
  assumes "searching w fd inode data s key fname name st" "can_print t" "pcblock t = pcblock st" "filesystem t = filesystem st"
    "BOOT_BLOCK_PTR t = BOOT_BLOCK_PTR st"
    "\<And>a. a \<notin> region data 1025 \<Longrightarrow> a \<notin> video_region \<Longrightarrow> ram t a = ram st a"
  shows "searching w fd inode data s key fname name t" "unread fd inode t = unread fd inode st"
proof -
  note h = searchingD [OF assms(1)]
  have "same_image st (ram t)"
    using apart_region [OF h(5)] apart_region [OF readingD(8) [OF h(2)]] assms(6)
    by (auto simp: same_image_def disjoint_iff)
  note same = reading_same [OF h(2) assms(2) this assms(3-5)]
  have "cstring (ram t) s key" using cstring_cong [OF rd_outside [of data 1025 "ram t" "ram st", OF assms(6) h(8,9)]] h(7) by blast
  moreover have "cstring (ram t) fname name" using cstring_cong [OF rd_outside [of data 1025 "ram t" "ram st", OF assms(6) h(12,13)]] h(11) by blast
  ultimately show "searching w fd inode data s key fname name t"
    unfolding searching_def grep_memory_def using h same(1) by (simp add: assms(3-5) image_len_def)
  show "unread fd inode t = unread fd inode st" by (rule same(2))
qed

section \<open>Printing a line\<close>

lemma puts_string:
  assumes "can_print st" "junk \<noteq> -2" "a \<noteq> 0" "cstring (ram st) a xs" "apart a (length xs + 1) VIDEO 4000"
  obtains t where "ece391_fdputs junk ram dev 1 a st = Some t" "printed st t" "can_print t"
    "display_of t = fold emit xs (display_of st)"
proof -
  have n: "length xs + 1 \<le> 2 ^ 32" using cstringD(4) [OF assms(4)] by simp
  have "apart a (length xs) VIDEO 4000" using apart_sub [OF assms(5), of 0 "length xs" 0 4000] n by simp
  then show thesis using that fdputs_prints [OF assms(1-4) steady_ram] by blast
qed

lemma print_line_shows:
  assumes "can_print st" "\<forall>k. fst (w k) \<noteq> -2" "fname \<noteq> 0" "cstring (ram st) fname name" "apart fname (length name + 1) VIDEO 4000"
    "data + of_nat i \<noteq> 0" "cstring (ram st) (data + of_nat i) l" "apart (data + of_nat i) (length l + 1) VIDEO 4000"
  obtains t where "print_line w dev data fname (int i) k st = Some t" "printed st t" "can_print t"
    "display_of t = fold emit (name @ [0x3A] @ l @ [0x0A]) (display_of st)"
proof -
  have w: "fst (w k) \<noteq> -2" for k using assms(2) by blast
  obtain a where a: "ece391_fdputs (fst (w k)) ram dev 1 fname st = Some a" "printed st a" "can_print a"
      "display_of a = fold emit name (display_of st)"
    by (rule puts_string [OF assms(1) w assms(3-5)])
  obtain b where b: "say (fst (w (k + 1))) dev '':'' a = Some b" "printed a b" "can_print b"
      "display_of b = fold emit [0x3A] (display_of a)"
    using say_prints [OF a(3) w, of "'':''" "k + 1" dev] by (auto simp: str_def)
  have "cstring (ram b) (data + of_nat i) l"
    using assms(7) cstring_cong [OF printed_rd [OF printed_trans [OF a(2) b(2)] assms(8)]] by simp
  then obtain c where c: "ece391_fdputs (fst (w (k + 2))) ram dev 1 (data + of_nat i) b = Some c" "printed b c" "can_print c"
      "display_of c = fold emit l (display_of b)"
    by (rule puts_string [OF b(3) w assms(6) _ assms(8)])
  obtain t where t: "say (fst (w (k + 3))) dev ''\<newline>'' c = Some t" "printed c t" "can_print t"
      "display_of t = fold emit [0x0A] (display_of c)"
    using say_prints [OF c(3) w, of "''\<newline>''" "k + 3" dev] by (auto simp: str_def)
  have "print_line w dev data fname (int i) k st = Some t"
    using a(1) b(1) c(1) t(1) by (simp add: print_line_def)
  then show thesis
    using that printed_trans [OF printed_trans [OF printed_trans [OF a(2) b(2)] c(2)] t(2)] t(3,4) a(4) b(4) c(4) by simp
qed

lemma data_nonnull: "unat data + 1025 \<le> 2 ^ 32 \<Longrightarrow> data \<noteq> 0 \<Longrightarrow> i \<le> 1024 \<Longrightarrow> data + of_nat i \<noteq> (0 :: u32)"
proof
  assume h: "unat data + 1025 \<le> 2 ^ 32" "data \<noteq> 0" "i \<le> 1024" "data + of_nat i = 0"
  then have "unat (of_nat (unat data + i) :: u32) = unat data + i" by (intro unat_of_nat_u32) simp
  then show False using h by (simp add: unat_eq_zero)
qed

lemma search_line_shows:
  assumes "searching w fd inode data s key fname name st" "cstring (ram st) (data + of_nat i) l" "i + length l \<le> 1024"
  obtains t where "search_line w dev data s (int (length key)) fname (int i) (int (i + length l)) k st = Some t"
    "searching w fd inode data s key fname name t" "unread fd inode t = unread fd inode st"
    "\<And>a. a \<in> region data 1025 \<Longrightarrow> ram t a = ram st a"
    "display_of t = fold emit (shown_lines name key [l]) (display_of st)"
proof (cases "matching key l")
  case True
  note h = searchingD [OF assms(1)]
  have ap: "apart (data + of_nat i) (length l + 1) VIDEO 4000"
    using apart_sub [OF h(6), of i "length l + 1" 0 4000] assms(3) by simp
  obtain c where "find (found_at (ram st) data s (int (length key))) [int i..int (i + length l) - 1] = Some c"
    using search_decides [OF assms(2) h(7)] True by blast
  then have run: "search_line w dev data s (int (length key)) fname (int i) (int (i + length l)) k st
      = print_line w dev data fname (int i) k st"
    by (simp add: search_line_def)
  have nn: "data + of_nat i \<noteq> 0" using assms(3) by (intro data_nonnull h(3,4)) simp
  have w: "\<forall>k. fst (w k) \<noteq> -2" using h(1) by blast
  obtain t where t: "print_line w dev data fname (int i) k st = Some t" "printed st t" "can_print t"
    "display_of t = fold emit (name @ [0x3A] @ l @ [0x0A]) (display_of st)"
    by (rule print_line_shows [OF readingD(1) [OF h(2)] w h(10,11,13) nn assms(2) ap])
  have out: "ram t a = ram st a" if "a \<notin> video_region" for a using t(2) that by (simp add: printed_def)
  note same = searching_same [OF assms(1) t(3) printed_fields(1-3) [OF t(2)] out]
  show thesis
  proof (rule that [OF _ same])
    show "ram t a = ram st a" if "a \<in> region data 1025" for a
      using that apart_region [OF h(6)] by (intro out) auto
    show "display_of t = fold emit (shown_lines name key [l]) (display_of st)"
      using t(4) True by (simp add: shown_lines_def)
  qed (use run t(1) in simp_all)
next
  case False
  note h = searchingD [OF assms(1)]
  have "find (found_at (ram st) data s (int (length key))) [int i..int (i + length l) - 1] = None"
    using search_decides [OF assms(2) h(7)] False by blast
  then have "search_line w dev data s (int (length key)) fname (int i) (int (i + length l)) k st = Some st"
    by (simp add: search_line_def)
  then show thesis using that assms(1) False by (simp add: shown_lines_def)
qed

section \<open>Searching the lines in the buffer\<close>

lemma searching_mem:
  assumes "searching w fd inode data s key fname name st" "\<And>a. a \<notin> region data 1025 \<Longrightarrow> m a = ram st a"
  shows "searching w fd inode data s key fname name (st\<lparr>ram := m\<rparr>)" "unread fd inode (st\<lparr>ram := m\<rparr>) = unread fd inode st"
    "display_of (st\<lparr>ram := m\<rparr>) = display_of st"
proof -
  note h = searchingD [OF assms(1)]
  have "rd m VIDEO 4000 = rd (ram st) VIDEO 4000" using assms(2) h(6) by (rule same_outside(1))
  then have disp: "display_of (st\<lparr>ram := m\<rparr>) = display_of st" "term_ok (st\<lparr>ram := m\<rparr>) = term_ok st" by (intro display_cong; simp)+
  then have "can_print (st\<lparr>ram := m\<rparr>)" using readingD(1) [OF h(2)] by (simp add: can_print_def)
  from searching_same [OF assms(1) this] assms(2)
  show "searching w fd inode data s key fname name (st\<lparr>ram := m\<rparr>)" "unread fd inode (st\<lparr>ram := m\<rparr>) = unread fd inode st"
    by simp_all
  show "display_of (st\<lparr>ram := m\<rparr>) = display_of st" by (rule disp(1))
qed

text \<open>Ending a line with a NUL.\<close>

lemma end_line:
  assumes "searching w fd inode data s key fname name st" "i + length l \<le> 1024" "rd (ram st) (data + of_nat i) (length l) = l" "0 \<notin> set l"
  defines "u \<equiv> st\<lparr>ram := (ram st)(data + of_nat (i + length l) := 0)\<rparr>"
  shows "searching w fd inode data s key fname name u" "unread fd inode u = unread fd inode st" "display_of u = display_of st"
    "cstring (ram u) (data + of_nat i) l"
proof -
  have "data + of_nat (i + length l) \<in> region data 1025" using assms(2) by (intro in_region) simp_all
  then have "\<And>a. a \<notin> region data 1025 \<Longrightarrow> ((ram st)(data + of_nat (i + length l) := 0)) a = ram st a" by auto
  from searching_mem [where m = "(ram st)(data + of_nat (i + length l) := 0)", OF assms(1) this]
  show "searching w fd inode data s key fname name u" "unread fd inode u = unread fd inode st" "display_of u = display_of st"
    by (simp_all add: u_def)
  have a: "data + of_nat (i + length l) = data + of_nat i + of_nat (length l)" by simp
  have "data + of_nat i + of_nat (length l) \<notin> region (data + of_nat i) (length l)"
    using assms(2) by (simp add: region_def unat_of_nat_u32)
  then have "rd (ram u) (data + of_nat i) (length l) = l"
    unfolding u_def a using assms(2,3) by (simp add: rd_upd)
  then show "cstring (ram u) (data + of_nat i) l"
    unfolding cstring_def using assms(2,4) by (simp add: u_def add.assoc)
qed

lemma byte_kept: "i \<noteq> j \<Longrightarrow> i \<le> 1024 \<Longrightarrow> j \<le> 1024 \<Longrightarrow> (m(data + of_nat j := b)) (data + of_nat i :: u32) = m (data + of_nat i)"
  using index_inj [of i j data] by (simp del: add_left_cancel)

text \<open>Moving an unfinished line to the front of the buffer.\<close>

lemma keep_line:
  assumes "searching w fd inode data s key fname name st" "i + length l \<le> 1024" "rd (ram st) (data + of_nat i) (length l) = l"
    "0 \<notin> set l" "0 < i" "ram st (data + 1024) \<noteq> 0x0A"
  obtains m where "ece391_strcpy ((ram st)(data + of_nat (i + length l) := 0)) data (data + of_nat i) = Some m"
    "searching w fd inode data s key fname name (st\<lparr>ram := m\<rparr>)" "unread fd inode (st\<lparr>ram := m\<rparr>) = unread fd inode st"
    "display_of (st\<lparr>ram := m\<rparr>) = display_of st" "rd m data (length l) = l" "m (data + 1024) \<noteq> 0x0A"
proof -
  let ?m = "(ram st)(data + of_nat (i + length l) := 0)"
  have n: "i + length l < 2 ^ 32" using assms(2) by (rule le_less_trans) simp
  have "cstring ?m (data + of_nat i) l" using end_line(4) [OF assms(1-4)] by simp
  then have copy: "ece391_strcpy ?m data (data + of_nat i) = Some (wr ?m data (l @ [0]))"
    using n assms(5) by (intro strcpy_down [of _ _ _ _ i]) simp_all
  have in1: "data + of_nat (i + length l) \<in> region data 1025" using assms(2) by (intro in_region) simp_all
  have sub: "region data (length (l @ [0])) \<subseteq> region data 1024"
    using region_sub [of 0 "length (l @ [0])" 1024 data] assms(2,5) by simp
  have "region data 1024 \<subseteq> region data 1025" using region_sub [of 0 1024 1025 data] by simp
  then have "wr ?m data (l @ [0]) a = ram st a" if "a \<notin> region data 1025" for a
  proof -
    have a: "a \<noteq> data + of_nat (i + length l)" "a \<notin> region data (length (l @ [0]))"
      using that in1 sub \<open>region data 1024 \<subseteq> region data 1025\<close> by blast+
    show ?thesis unfolding wr_out [OF a(2)] by (rule fun_upd_other [OF a(1)])
  qed
  note same = searching_mem [OF assms(1) this]
  have "data + 1024 \<notin> region data 1024" by (simp add: region_def)
  then have "wr ?m data (l @ [0]) (data + 1024) = ?m (data + 1024)" using sub by (intro wr_out) auto
  moreover have "?m (data + 1024) \<noteq> 0x0A" using assms(6) by auto
  moreover have "rd (wr ?m data (l @ [0])) data (length l) = l" using rd_wr_prefix [of l "[0]" ?m data] assms(2) by simp
  ultimately show thesis using that [OF copy same] by simp
qed

text \<open>Searching one line of the buffer.\<close>

lemma scan_line:
  assumes "searching w fd inode data s key fname name st" "i + length l \<le> 1024" "rd (ram st) (data + of_nat i) (length l) = l"
    "0 \<notin> set l" "ram st (data + 1024) \<noteq> 0x0A"
  obtains t where "search_line w dev data s (int (length key)) fname (int i) (int (i + length l)) k
      (st\<lparr>ram := (ram st)(data + of_nat (i + length l) := 0)\<rparr>) = Some t"
    "searching w fd inode data s key fname name t" "unread fd inode t = unread fd inode st"
    "display_of t = fold emit (shown_lines name key [l]) (display_of st)" "ram t (data + 1024) \<noteq> 0x0A"
    "\<And>j. j \<noteq> i + length l \<Longrightarrow> j \<le> 1024 \<Longrightarrow> ram t (data + of_nat j) = ram st (data + of_nat j)"
proof -
  let ?u = "st\<lparr>ram := (ram st)(data + of_nat (i + length l) := 0)\<rparr>"
  note u = end_line [OF assms(1-4)]
  show thesis
  proof (rule search_line_shows [OF u(1,4) assms(2), of dev k])
    fix t assume t: "search_line w dev data s (int (length key)) fname (int i) (int (i + length l)) k ?u = Some t"
      "searching w fd inode data s key fname name t" "unread fd inode t = unread fd inode ?u"
      "\<And>a. a \<in> region data 1025 \<Longrightarrow> ram t a = ram ?u a"
      "display_of t = fold emit (shown_lines name key [l]) (display_of ?u)"
    have at: "ram t (data + of_nat j) = ((ram st)(data + of_nat (i + length l) := 0)) (data + of_nat j)" if "j \<le> 1024" for j
      using that t(4) [of "data + of_nat j"] in_region [of j 1025 data] by simp
    have mem: "ram t (data + of_nat j) = ram st (data + of_nat j)" if "j \<noteq> i + length l" "j \<le> 1024" for j
      using at [OF that(2)] byte_kept [OF that(1,2) assms(2), of "ram st" data 0] by (rule trans)
    have end1024: "ram t (data + 1024) \<noteq> 0x0A"
    proof (cases "i + length l = 1024")
      case True
      then show ?thesis using at [of 1024] by simp
    next
      case False
      then show ?thesis using mem [of 1024] assms(5) by simp
    qed
    have same: "unread fd inode t = unread fd inode st" using t(3) u(2) by (rule trans)
    have "display_of t = fold emit (shown_lines name key [l]) (display_of st)" using t(5) unfolding u(3) .
    from that [OF t(1,2) same this end1024 mem] show thesis .
  qed
qed

text \<open>The loop over the lines in the buffer, from position \<open>i\<close> on: what it has printed, and what it keeps.\<close>

definition scanned :: "'a world \<Rightarrow> nat \<Rightarrow> u32 \<Rightarrow> u32 \<Rightarrow> u32 \<Rightarrow> u8 list \<Rightarrow> u32 \<Rightarrow> u8 list \<Rightarrow> u8 list list \<times> u8 list
    \<Rightarrow> 'a sys_state_scheme \<Rightarrow> (int \<times> nat \<times> 'a sys_state_scheme) option \<Rightarrow> bool" where
  "scanned w fd inode data s key fname name ps st res \<longleftrightarrow>
     (\<exists>k t. res = Some (int (length (snd ps)), k, t) \<and> searching w fd inode data s key fname name t
        \<and> unread fd inode t = unread fd inode st \<and> rd (ram t) data (length (snd ps)) = snd ps \<and> ram t (data + 1024) \<noteq> 0x0A
        \<and> display_of t = fold emit (shown_lines name key (fst ps)) (display_of st))"

lemma scanned_Cons:
  assumes "scanned w fd inode data s key fname name (ls, p) t res" "unread fd inode t = unread fd inode st"
    "display_of t = fold emit (shown_lines name key [l]) (display_of st)"
  shows "scanned w fd inode data s key fname name (l # ls, p) st res"
  unfolding scanned_def fst_conv shown_lines_Cons [of name key l ls] using assms by (auto simp: scanned_def)

lemma search_data_last:
  assumes "searching w fd inode data s key fname name st" "i + length l \<le> 1024" "rd (ram st) (data + of_nat i) (length l) = l"
    "0 \<notin> set l" "ram st (data + 1024) \<noteq> 0x0A" "0x0A \<notin> set l" "ram st (data + of_nat (i + length l)) \<noteq> 0x0A"
  shows "scanned w fd inode data s key fname name (pieces (cnt \<noteq> 0) (cnt \<noteq> 0 \<and> i \<noteq> 0) l) st
    (search_data w dev data s (int (length key)) fname cnt (int (i + length l)) (int i) k st)"
proof -
  have "i + length l < 2 ^ 31" using assms(2) by (rule le_less_trans) simp
  moreover have full: "takeWhile (\<lambda>c. c \<noteq> 0x0A) l = l" using assms(6) by auto
  ultimately have e: "line_end_from (ram st) data (int (i + length l)) (int i) = int (i + length l)"
    using line_end_found [OF assms(3)] unfolding full by blast
  have a: "data + of_int (int (i + length l)) = data + of_nat (i + length l)" by (simp only: of_int_of_nat_eq)
  show ?thesis
  proof (cases "cnt \<noteq> 0 \<and> i \<noteq> 0")
    case True
    then have "0 < i" by simp
    then obtain m where m: "ece391_strcpy ((ram st)(data + of_nat (i + length l) := 0)) data (data + of_nat i) = Some m"
        "searching w fd inode data s key fname name (st\<lparr>ram := m\<rparr>)" "unread fd inode (st\<lparr>ram := m\<rparr>) = unread fd inode st"
        "display_of (st\<lparr>ram := m\<rparr>) = display_of st" "rd m data (length l) = l" "m (data + 1024) \<noteq> 0x0A"
      by (rule keep_line [OF assms(1-4) _ assms(5)])
    have "search_data w dev data s (int (length key)) fname cnt (int (i + length l)) (int i) k st
        = Some (int (length l), k, st\<lparr>ram := m\<rparr>)"
      using True assms(7) m(1) by (subst search_data.simps) (simp add: e a Let_def del: of_nat_add)
    then show ?thesis using True m(2-6) assms(6) by (simp add: scanned_def)
  next
    case False
    obtain t where t: "search_line w dev data s (int (length key)) fname (int i) (int (i + length l)) k
          (st\<lparr>ram := (ram st)(data + of_nat (i + length l) := 0)\<rparr>) = Some t"
        "searching w fd inode data s key fname name t" "unread fd inode t = unread fd inode st"
        "display_of t = fold emit (shown_lines name key [l]) (display_of st)" "ram t (data + 1024) \<noteq> 0x0A"
      by (rule scan_line [OF assms(1-5)])
    have "search_data w dev data s (int (length key)) fname cnt (int (i + length l)) (int i) k st = Some (0, k + 4, t)"
      using False t(1) by (subst search_data.simps) (auto simp: e a Let_def simp del: of_nat_add)
    then show ?thesis using False t(2-5) assms(6) by (auto simp: scanned_def)
  qed
qed

lemma search_data_shows:
  assumes "searching w fd inode data s key fname name st" "i + length cs \<le> 1024" "rd (ram st) (data + of_nat i) (length cs) = cs"
    "0 \<notin> set cs" "ram st (data + 1024) \<noteq> 0x0A" "ram st (data + of_nat (i + length cs)) \<noteq> 0x0A"
  shows "scanned w fd inode data s key fname name (pieces (cnt \<noteq> 0) (cnt \<noteq> 0 \<and> i \<noteq> 0) cs) st
    (search_data w dev data s (int (length key)) fname cnt (int (i + length cs)) (int i) k st)"
  using assms
proof (induction cs arbitrary: i k st rule: length_induct)
  case (1 cs)
  note prems = "1.prems"
  show ?case
  proof (cases cs rule: first_line)
    case last
    show ?thesis by (rule search_data_last [OF prems(1-5) last prems(6)])
  next
    case (line l r)
    let ?run = "search_data w dev data s (int (length key)) fname cnt" and ?i = "i + length l + 1"
    have n: "i + length l + 1 + length r = i + length cs" "i + length l \<le> 1024" "?i + length r \<le> 1024" "length r < length cs"
      using prems(2) line(1) by simp_all
    have "rd (ram st) (data + of_nat i) (length l + (1 + length r)) = l @ 0x0A # r" using prems(3) line(1) by simp
    then have rl: "rd (ram st) (data + of_nat i) (length l) = l" "ram st (data + of_nat (i + length l)) = 0x0A"
        "rd (ram st) (data + of_nat ?i) (length r) = r"
      unfolding rd_add [of _ _ "length l"] by (simp_all add: rd_Suc ac_simps)
    have "i + length cs < 2 ^ 31" using prems(2) by (rule le_less_trans) simp
    moreover have first: "takeWhile (\<lambda>c. c \<noteq> 0x0A) cs = l" unfolding line(1) using line(2) by (subst takeWhile_append2) auto
    ultimately have e: "line_end_from (ram st) data (int (i + length cs)) (int i) = int (i + length l)"
      using line_end_found [OF prems(3)] unfolding first by blast
    have a: "data + of_int (int (i + length l)) = data + of_nat (i + length l)" by (simp only: of_int_of_nat_eq)
    have nz: "0 \<notin> set l" "0 \<notin> set r" using prems(4) line(1) by simp_all
    obtain t where t: "search_line w dev data s (int (length key)) fname (int i) (int (i + length l)) k
          (st\<lparr>ram := (ram st)(data + of_nat (i + length l) := 0)\<rparr>) = Some t"
        "searching w fd inode data s key fname name t" "unread fd inode t = unread fd inode st"
        "display_of t = fold emit (shown_lines name key [l]) (display_of st)" "ram t (data + 1024) \<noteq> 0x0A"
        "\<And>j. j \<noteq> i + length l \<Longrightarrow> j \<le> 1024 \<Longrightarrow> ram t (data + of_nat j) = ram st (data + of_nat j)"
      by (rule scan_line [OF prems(1) n(2) rl(1) nz(1) prems(5)]) blast
    have c: "int (i + length cs) \<le> int (i + length l) + 1 \<longleftrightarrow> r = []" unfolding n(1) [symmetric] by simp
    have "?run (int (i + length cs)) (int i) k st
        = (if r = [] then Some (0, k + 4, t) else ?run (int (i + length cs)) (int (i + length l) + 1) (k + 4) t)"
      by (subst search_data.simps) (simp add: e a Let_def rl(2) t(1) c del: of_nat_add)
    moreover have "int (i + length l) + 1 = int ?i" by simp
    ultimately have run: "?run (int (i + length cs)) (int i) k st
        = (if r = [] then Some (0, k + 4, t) else ?run (int (?i + length r)) (int ?i) (k + 4) t)"
      unfolding n(1) by (simp only:)
    show ?thesis
    proof (cases "r = []")
      case True
      then show ?thesis using run t(2-5) line by (simp add: scanned_def)
    next
      case False
      have "rd (ram t) (data + of_nat ?i) (length r) = rd (ram st) (data + of_nat ?i) (length r)"
      proof (rule rd_cong)
        fix j assume "j < length r"
        then show "ram t (data + of_nat ?i + of_nat j) = ram st (data + of_nat ?i + of_nat j)"
          using t(6) [of "?i + j"] n(3) by (simp add: ac_simps)
      qed
      then have "rd (ram t) (data + of_nat ?i) (length r) = r" using rl(3) by simp
      moreover have "ram t (data + of_nat (?i + length r)) \<noteq> 0x0A"
        using t(6) [of "?i + length r"] n(3) prems(6) unfolding n(1) by (simp add: line(1))
      ultimately have "scanned w fd inode data s key fname name (pieces (cnt \<noteq> 0) (cnt \<noteq> 0 \<and> ?i \<noteq> 0) r) t
          (?run (int (?i + length r)) (int ?i) (k + 4) t)"
        using "1.IH" n(3,4) t(2,5) nz(2) by blast
      then have "scanned w fd inode data s key fname name (pieces (cnt \<noteq> 0) (cnt \<noteq> 0) r) t (?run (int (i + length cs)) (int i) k st)"
        unfolding run using False by simp
      then have "scanned w fd inode data s key fname name (l # fst (pieces (cnt \<noteq> 0) (cnt \<noteq> 0) r), snd (pieces (cnt \<noteq> 0) (cnt \<noteq> 0) r)) st
          (?run (int (i + length cs)) (int i) k st)"
        by (intro scanned_Cons [OF _ t(3,4)]) simp
      then show ?thesis using line False by (simp add: split_beta Let_def)
    qed
  qed
qed

section \<open>Searching a file\<close>

definition short_lines :: "u8 list \<Rightarrow> bool" where
  "short_lines cs \<longleftrightarrow> 0 \<notin> set cs \<and> (\<forall>l\<in>set (lines_of cs). length l < 1024)"

lemma long_line:
  assumes "0x0A \<notin> set b" "b \<noteq> []"
  shows "\<exists>l\<in>set (lines_of (b @ rest)). length b \<le> length l"
proof (cases rest rule: first_line)
  case last
  then have "lines_of (b @ rest) = [b @ rest]" using assms by (intro lines_of_simps(3)) simp_all
  then show ?thesis by simp
next
  case (line l r)
  then have "lines_of (b @ rest) = (b @ l) # lines_of r" using assms(1) lines_of_simps(2) [of "b @ l" r] by simp
  then show ?thesis by simp
qed

lemma outside_index:
  assumes "j < i \<or> i + n \<le> j" "j < 2 ^ 32" "i + n \<le> 2 ^ 32"
  shows "data + of_nat j \<notin> region (data + of_nat i) n"
proof
  assume "data + of_nat j \<in> region (data + of_nat i) n"
  then have k: "unat (data + of_nat j - (data + of_nat i)) < n" by (simp add: region_def)
  define d where "d = unat (data + of_nat j - (data + of_nat i))"
  have "data + of_nat (i + d) = data + of_nat j" by (simp add: d_def)
  moreover have "i + d < 2 ^ 32" using k assms(3) unfolding d_def by linarith
  ultimately have "i + d = j" using index_inj [of "i + d" j data] assms(2) by blast
  then show False using assms(1) k unfolding d_def by linarith
qed

text \<open>A read behind the part of a line that is in the buffer.\<close>

lemma fill_buffer:
  assumes "searching w fd inode data s key fname name st" "length p < 1024" "rd (ram st) data (length p) = p"
    "ram st (data + 1024) \<noteq> 0x0A"
  obtains c u where "sys_read junk irqs (int fd) (data + of_nat (length p)) (1024 - int (length p)) st = Some (int (length c), u)"
    "searching w fd inode data s key fname name u" "unread fd inode st = c @ unread fd inode u" "c = [] \<longleftrightarrow> unread fd inode st = []"
    "length (p @ c) \<le> 1024" "length (p @ c) < 1024 \<Longrightarrow> unread fd inode u = []" "rd (ram u) data (length (p @ c)) = p @ c"
    "ram u (data + of_nat (length (p @ c))) \<noteq> 0x0A" "ram u (data + 1024) \<noteq> 0x0A" "display_of u = display_of st"
proof -
  note h = searchingD [OF assms(1)]
  let ?a = "data + of_nat (length p)" and ?n = "1024 - length p"
  have a: "?a \<noteq> 0" using assms(2) by (intro data_nonnull h(3,4)) simp
  have img: "image_len st \<le> 2 ^ 32" using image_len_le [OF readingD(4) [OF h(2)]] .
  have ap: "apart ?a ?n (BOOT_BLOCK_PTR st) (image_len st)" "apart ?a ?n VIDEO 4000"
    using apart_sub [OF h(5), of "length p" ?n 0 "image_len st"] apart_sub [OF h(6), of "length p" ?n 0 4000] assms(2) img by simp_all
  have n: "int ?n = 1024 - int (length p)" "0 < ?n" "?n \<le> 4096" using assms(2) by simp_all
  show thesis
  proof (rule reads_piece [OF h(2) a n(2,3) ap, of junk irqs])
    fix c u assume u: "sys_read junk irqs (int fd) ?a (int ?n) st = Some (int (length c), u)" "length c \<le> ?n"
      "ram u = wr (ram st) ?a (c @ replicate (?n - length c) 0)" "reading fd inode u" "unread fd inode st = c @ unread fd inode u"
      "c = [] \<longleftrightarrow> unread fd inode st = []" "length c < ?n \<Longrightarrow> unread fd inode u = []" "display_of u = display_of st"
      "filesystem u = filesystem st" "BOOT_BLOCK_PTR u = BOOT_BLOCK_PTR st"
      "flags (file_struct (pcblock u) ! fd) = flags (file_struct (pcblock st) ! fd)"
    let ?bs = "c @ replicate (?n - length c) 0"
    have len: "length ?bs = ?n" using u(2) by simp
    have out: "ram u (data + of_nat j) = ram st (data + of_nat j)" if "j < length p \<or> j = 1024" for j
    proof -
      have "data + of_nat j \<notin> region ?a (length ?bs)" unfolding len using that assms(2) by (intro outside_index) auto
      then show ?thesis unfolding u(3) by (rule wr_out)
    qed
    have inside: "ram u (data + of_nat (length p + j)) = ?bs ! j" if "j < ?n" for j
      using wr_in [of j ?bs "ram st" ?a] len that unfolding u(3) by (simp add: add.assoc)
    have pc: "rd (ram u) data (length (p @ c)) = p @ c"
    proof -
      have "rd (ram u) data (length p) = rd (ram st) data (length p)" by (rule rd_cong) (simp add: out)
      moreover have "rd (ram u) ?a (length c) = c" unfolding u(3) using len by (intro rd_wr_prefix) simp
      ultimately show ?thesis using assms(3) by (simp add: rd_add)
    qed
    have end1024: "ram u (data + 1024) \<noteq> 0x0A" using out [of 1024] assms(4) by simp
    have ending: "ram u (data + of_nat (length (p @ c))) \<noteq> 0x0A"
    proof (cases "length c = ?n")
      case True
      then have "length (p @ c) = 1024" using assms(2) by simp
      then show ?thesis using end1024 by simp
    next
      case False
      then have "length c < ?n" using u(2) by simp
      then show ?thesis using inside [of "length c"] by (simp add: nth_append)
    qed
    have sub: "region ?a ?n \<subseteq> region data 1025" using region_sub [of "length p" ?n 1025 data] assms(2) by simp
    have same: "ram u x = ram st x" if "x \<notin> region data 1025" "x \<notin> video_region" for x
    proof -
      have "x \<notin> region ?a (length ?bs)" unfolding len using that(1) sub by blast
      then show ?thesis unfolding u(3) by (rule wr_out)
    qed
    have "cstring (ram u) s key" "cstring (ram u) fname name"
      using cstring_cong [OF rd_outside [of data 1025 "ram u" "ram st", OF same h(8,9)]] h(7)
        cstring_cong [OF rd_outside [of data 1025 "ram u" "ram st", OF same h(12,13)]] h(11) by blast+
    then have ready: "searching w fd inode data s key fname name u"
      unfolding searching_def grep_memory_def using h u(4) by (simp add: u(9-11) image_len_def)
    have pcl: "length (p @ c) \<le> 1024" "length (p @ c) < 1024 \<Longrightarrow> length c < ?n" using u(2) assms(2) by simp_all
    from that [OF u(1) [unfolded n(1)] ready u(5,6) pcl(1) u(7) [OF pcl(2)] pc ending end1024 u(8)] show thesis .
  qed
qed

text \<open>Closing the file shows nothing.\<close>

lemma close_quiet:
  assumes "2 \<le> fd" "fd < 8" "flags (file_struct (pcblock st) ! fd) = 1"
  obtains t where "sys_close (int fd) st = (0, t)" "display_of t = display_of st"
proof -
  obtain r t where t: "sys_close (int fd) st = (r, t)" by fastforce
  then have "r = 0" using assms by (auto simp: sys_close_def Let_def FD_MAX_def FD_MIN_def)
  have "ram t = ram st" "screen_x t = screen_x st" "screen_y t = screen_y st"
    using sys_close_screen [of "int fd" st] unfolding t by simp_all
  then have "display_of t = display_of st" by (intro display_cong) simp_all
  then show thesis using that t \<open>r = 0\<close> by simp
qed

lemma search_file_shows:
  assumes "searching w fd inode data s key fname name st" "length p < 1024" "rd (ram st) data (length p) = p" "0x0A \<notin> set p"
    "ram st (data + 1024) \<noteq> 0x0A" "short_lines (p @ unread fd inode st)"
  shows "\<exists>k' t. search_file w dev data s (int (length key)) fname (int fd) (int (length p)) k st = Some (0, k', t)
    \<and> display_of t = fold emit (shown_lines name key (lines_of (p @ unread fd inode st))) (display_of st)"
  using assms
proof (induction "length (unread fd inode st)" arbitrary: p k st rule: less_induct)
  case less
  let ?run = "search_file w dev data s (int (length key)) fname (int fd)"
  obtain c u where u: "sys_read (fst (w k)) (snd (w k)) (int fd) (data + of_nat (length p)) (1024 - int (length p)) st = Some (int (length c), u)"
      "searching w fd inode data s key fname name u" "unread fd inode st = c @ unread fd inode u" "c = [] \<longleftrightarrow> unread fd inode st = []"
      "length (p @ c) \<le> 1024" "length (p @ c) < 1024 \<Longrightarrow> unread fd inode u = []" "rd (ram u) data (length (p @ c)) = p @ c"
      "ram u (data + of_nat (length (p @ c))) \<noteq> 0x0A" "ram u (data + 1024) \<noteq> 0x0A" "display_of u = display_of st"
    by (rule fill_buffer [OF less.prems(1-3,5)]) blast
  have nz: "0 \<notin> set (p @ c)" using less.prems(6) u(3) by (auto simp: short_lines_def)
  have "scanned w fd inode data s key fname name (pieces (int (length c) \<noteq> 0) (int (length c) \<noteq> 0 \<and> 0 \<noteq> (0 :: nat)) (p @ c)) u
      (search_data w dev data s (int (length key)) fname (int (length c)) (int (0 + length (p @ c))) (int 0) (k + 1) u)"
    using u(2,5,7-9) nz by (intro search_data_shows) simp_all
  then obtain k' t where t: "search_data w dev data s (int (length key)) fname (int (length c)) (int (length (p @ c))) 0 (k + 1) u
        = Some (int (length (snd (pieces (c \<noteq> []) False (p @ c)))), k', t)"
      "searching w fd inode data s key fname name t" "unread fd inode t = unread fd inode u"
      "rd (ram t) data (length (snd (pieces (c \<noteq> []) False (p @ c)))) = snd (pieces (c \<noteq> []) False (p @ c))"
      "ram t (data + 1024) \<noteq> 0x0A"
      "display_of t = fold emit (shown_lines name key (fst (pieces (c \<noteq> []) False (p @ c)))) (display_of u)"
    unfolding scanned_def by auto
  have add: "int (length p) + int (length c) = int (length (p @ c))" by simp
  have neg: "(int (length c) = -1) = False" and cond: "(int (length c) = 0) = (c = [])" by simp_all
  have run: "?run (int (length p)) k st = (if c = [] then
      let (r, st) = sys_close (int fd) t
      in if r = -1 then map_option (\<lambda>st. (-1, k' + 1, st)) (say (fst (w k')) dev ''file close failed\<newline>'' st) else Some (0, k', st)
      else ?run (int (length (snd (pieces (c \<noteq> []) False (p @ c))))) k' t)"
    by (subst search_file.simps) (simp only: of_int_of_nat_eq u(1) bind.bind_lunit prod.case add t(1) neg cond if_False)
  show ?case
  proof (cases "c = []")
    case True
    note h = searchingD [OF t(2)]
    obtain v where v: "sys_close (int fd) t = (0, v)" "display_of v = display_of t"
      by (rule close_quiet [OF readingD(2,3) [OF h(2)] h(14)])
    then have "?run (int (length p)) k st = Some (0, k', v)" using run True by simp
    moreover have "pieces False False p = ([p], [])" using less.prems(4) by simp
    moreover have "unread fd inode st = []" using u(4) True by blast
    moreover have "shown_lines name key (lines_of p) = shown_lines name key [p]"
      using less.prems(4) by (cases "p = []") simp_all
    ultimately show ?thesis using v(2) t(6) u(10) True by simp
  next
    case False
    let ?ps = "pieces True False (p @ c)"
    have "0x0A \<in> set (p @ c) \<or> unread fd inode u = []"
    proof (rule ccontr)
      assume n: "\<not> (0x0A \<in> set (p @ c) \<or> unread fd inode u = [])"
      then have "length (p @ c) = 1024" using u(5,6) by linarith
      moreover obtain l where "l \<in> set (lines_of ((p @ c) @ unread fd inode u))" "length (p @ c) \<le> length l"
        using long_line [of "p @ c" "unread fd inode u"] n False by auto
      ultimately show False using less.prems(6) u(3) by (auto simp: short_lines_def)
    qed
    have ps: "lines_of ((p @ c) @ unread fd inode u) = fst ?ps @ lines_of (snd ?ps @ unread fd inode u)"
        "0x0A \<notin> set (snd ?ps)" "set (snd ?ps) \<subseteq> set (p @ c)" "length (snd ?ps) < length (p @ c)"
      using pieces_first [OF \<open>0x0A \<in> set (p @ c) \<or> unread fd inode u = []\<close>] False by auto
    have "length (unread fd inode t) < length (unread fd inode st)" using u(3) t(3) False by simp
    moreover have "short_lines (snd ?ps @ unread fd inode t)"
      using less.prems(6) ps(1,3) nz u(3) t(3) by (auto simp: short_lines_def)
    moreover have "length (snd ?ps) < 1024" using ps(4) u(5) by linarith
    ultimately obtain k'' v where "?run (int (length (snd ?ps))) k' t = Some (0, k'', v)"
        "display_of v = fold emit (shown_lines name key (lines_of (snd ?ps @ unread fd inode t))) (display_of t)"
      using less.hyps [of t "snd ?ps" k'] t(2,4,5) ps(2) False by auto
    then show ?thesis using run False t(3,6) u(3,10) ps(1) by simp
  qed
qed

section \<open>Properties\<close>

text \<open>C15: \<open>do_one_file\<close> on a text file whose lines are shorter than the buffer opens it, reads it in pieces, and
  prints, for every line that has the string and in their order, the file's name, a colon and the
  line; a line that two reads share is put together before it is searched. It returns 0. The byte
  behind the buffer, which the code reads before it has written it, is assumed not to be a line
  break, and a string that starts with a character above 127 is never found.\<close>

theorem grep_file_prints:
  assumes "sys_ok st" "can_print st" "free_fd (pcblock st) = Some fd" "fd < 8" "name \<noteq> []"
    "entry_of st name i" "entry_type st i = 2" "file_ok st (entry_inode st i)" "entry_inode st i < num_inodes (filesystem st) - 1"
    "grep_memory data s key fname name st" "apart VIDEO 4000 (BOOT_BLOCK_PTR st) (image_len st)"
    "ram st (data + 1024) \<noteq> 0x0A" "\<forall>k. fst (w k) \<noteq> -2"
    "short_lines (file_bytes st (entry_inode st i) 0 (file_size st (entry_inode st i)))"
  shows "\<exists>k' t. do_one_file w dev data s fname k st = Some (0, k', t) \<and> display_of t = fold emit (shown_lines name key
      (lines_of (file_bytes st (entry_inode st i) 0 (file_size st (entry_inode st i))))) (display_of st)"
proof -
  let ?n = "entry_inode st i"
  have m: "cstring (ram st) s key" "fname \<noteq> 0" "cstring (ram st) fname name" using assms(10) by (simp_all add: grep_memory_def)
  have dir: "i < 62" using assms(6) by (simp add: entry_of_def)
  obtain t where t: "sys_open dev (ram st) fname st = Some (int fd, t)" "can_print t" "display_of t = display_of st"
      "ram t = ram st" "filesystem t = filesystem st" "BOOT_BLOCK_PTR t = BOOT_BLOCK_PTR st" "2 \<le> fd"
      "length (file_struct (pcblock t)) = 8" "flags (file_struct (pcblock t) ! fd) = 1" "fpos (file_struct (pcblock t) ! fd) = 0"
      "fops_ptr (file_struct (pcblock t) ! fd) = filesystem_fops" "file_type (dentries (pcblock t) ! fd) = 2"
      "inode_number (dentries (pcblock t) ! fd) = ?n"
    using open_named [OF assms(1-4) m(2,3) assms(5,6), of dev] assms(7) by auto
  have "same_image st (ram t)" by (simp add: t(4))
  note sf = same_files [OF assms(8) this t(5,6)]
  have at: "open_at t fd ?n 0" using t assms(4) by (simp add: open_at_def)
  have "reading fd ?n t" unfolding reading_def using t assms(4,9,11) sf at by (auto simp: image_len_def)
  moreover have "grep_memory data s key fname name t" using assms(10) by (simp add: grep_memory_def t(4-6) image_len_def)
  ultimately have ready: "searching w fd ?n data s key fname name t" using assms(13) t(9) by (simp add: searching_def)
  have rest: "unread fd ?n t = file_bytes st ?n 0 (file_size st ?n)" using unread_at [OF at _ sf(2)] sf(1,4) by simp
  obtain k' v where "search_file w dev data s (int (length key)) fname (int fd) (int (length ([] :: u8 list))) (k + 1) t = Some (0, k', v)"
      "display_of v = fold emit (shown_lines name key (lines_of ([] @ unread fd ?n t))) (display_of t)"
    using search_file_shows [OF ready, of "[]" dev "k + 1"] assms(12,14) by (auto simp: rest t(4))
  moreover have "sint (of_nat (length key) :: u32) = int (length key)"
    using cstringD(4) [OF m(1)] by (simp add: sint_u32 unat_of_nat_u32)
  ultimately have "do_one_file w dev data s fname k st = Some (0, k', v)"
    using ulib.len_string [OF m(1)] t(1) by (simp add: do_one_file_def)
  then show ?thesis
    using \<open>display_of v = fold emit (shown_lines name key (lines_of ([] @ unread fd ?n t))) (display_of t)\<close> rest t(3) by simp
qed

text \<open>The example: the file \<open>a\<close> has the lines \<open>cab\<close>, \<open>xy\<close> and \<open>ab\<close>, the last without a line break.\<close>

definition text_bytes :: "u8 list" where
  "text_bytes = [0x63, 0x61, 0x62, 0x0A, 0x78, 0x79, 0x0A, 0x61, 0x62]"

definition grep_example :: sys_state where
  "grep_example = user_example\<lparr>ram := wr (wr (wr (disk(0x411000 := 9)) 0x414000 text_bytes) 0x8001000 [0x61, 0x62, 0]) 0x8002000 [0x61, 0]\<rparr>"

lemma grep_example_simps [simp]:
  "filesystem grep_example = filesystem fs_example" "BOOT_BLOCK_PTR grep_example = 0x410000"
  "pcblock grep_example = pcblock user_example"
  by (simp_all add: grep_example_def)

lemma grep_example_ram: "ram grep_example = wr (wr (wr (disk(0x411000 := 9)) 0x414000 text_bytes) 0x8001000 [0x61, 0x62, 0]) 0x8002000 [0x61, 0]"
  by (simp add: grep_example_def)

lemma grep_example_file: "file_size grep_example 0 = 9" "file_ok grep_example 0" "file_bytes grep_example 0 0 9 = text_bytes"
proof -
  have b: "ld32 (ram grep_example) 0x411004 = 0"
    by (simp add: ld32_def grep_example_ram text_bytes_def disk_def wr_def Let_def)
  show n: "file_size grep_example 0 = 9"
    by (simp add: file_size_def inode_at_def ld32_def grep_example_ram wr_def Let_def text_bytes_def) (simp add: disk_def wr_def Let_def)
  have z: "k = 0" if "k * 4096 < 9" for k :: nat using that by arith
  have "block_no grep_example 0 k < 3" if "k * 4096 < 9" for k
    using z [OF that] b by (auto simp: block_no_def inode_at_def)
  then show "file_ok grep_example 0" by (simp add: file_ok_def n image_len_def)
  show "file_bytes grep_example 0 0 9 = text_bytes"
    by (simp add: file_bytes_def upt_rec block_at_def block_no_def inode_at_def b)
      (simp add: grep_example_ram wr_def Let_def text_bytes_def)
qed

lemma grep_example_entry: "entry_of grep_example [0x61] 0" "entry_type grep_example 0 = 2" "entry_inode grep_example 0 = 0"
proof -
  have "entry_name grep_example 0 = [0x61]" unfolding entry_name_def
    by (rule cbytes_char) (simp_all add: entry_at_def grep_example_ram text_bytes_def disk_def wr_def Let_def)
  then show "entry_of grep_example [0x61] 0" by (simp add: entry_of_def directory_ok_def image_len_def)
  show "entry_type grep_example 0 = 2" "entry_inode grep_example 0 = 0"
    by (simp_all add: entry_type_def entry_inode_def entry_at_def ld32_def grep_example_ram text_bytes_def disk_def wr_def Let_def)
qed

lemma grep_example_ok: "sys_ok grep_example" "can_print grep_example" "grep_memory 0x8000000 0x8001000 [0x61, 0x62] 0x8002000 [0x61] grep_example"
proof -
  show "sys_ok grep_example" using user_example_ok(1) by (simp add: grep_example_def sys_ok_def)
  have ap: "apart VIDEO 4000 0x414000 (length text_bytes)" "apart VIDEO 4000 0x8001000 (length [0x61, 0x62, 0 :: u8])"
      "apart VIDEO 4000 0x8002000 (length [0x61, 0 :: u8])" "(0x411000 :: u32) \<notin> region VIDEO 4000"
    by (simp_all add: apart_def region_def VIDEO_def text_bytes_def)
  have "rd (ram grep_example) VIDEO 4000 = rd (ram user_example) VIDEO 4000"
    unfolding grep_example_ram rd_wr_apart [OF ap(3)] rd_wr_apart [OF ap(2)] rd_wr_apart [OF ap(1)] using ap(4) by (simp add: rd_upd)
  then have "term_ok grep_example = term_ok user_example" by (intro display_cong) (simp_all add: grep_example_def)
  then show "can_print grep_example" using user_example_ok(3) by (simp add: can_print_def)
  have "cstring (ram grep_example) 0x8001000 [0x61, 0x62]" "cstring (ram grep_example) 0x8002000 [0x61]"
    by (simp_all add: cstring_Cons cstring_Nil grep_example_ram wr_def Let_def)
  then show "grep_memory 0x8000000 0x8001000 [0x61, 0x62] 0x8002000 [0x61] grep_example"
    by (simp add: grep_memory_def apart_def VIDEO_def image_len_def)
qed

theorem grep_file_prints_witness:
  "\<exists>k' t. do_one_file calm (\<lambda>_ _. 0) 0x8000000 0x8001000 0x8002000 0 grep_example = Some (0, k', t)
    \<and> display_of t = fold emit (str ''a:cab\<newline>a:ab\<newline>'') (display_of grep_example)"
proof -
  have lines: "lines_of text_bytes = [[0x63, 0x61, 0x62], [0x78, 0x79], [0x61, 0x62]]"
    by (simp add: text_bytes_def lines_of.simps)
  have "short_lines text_bytes" unfolding short_lines_def lines by (simp add: text_bytes_def)
  moreover have "shown_lines [0x61] [0x61, 0x62] (lines_of text_bytes) = str ''a:cab\<newline>a:ab\<newline>''"
    unfolding lines by (simp add: shown_lines_def matching_def sublist_code str_def)
  moreover have "ram grep_example (0x8000000 + 1024) \<noteq> 0x0A" 
    by (simp add: grep_example_ram text_bytes_def disk_def wr_def Let_def)
  moreover have "apart VIDEO 4000 (BOOT_BLOCK_PTR grep_example) (image_len grep_example)" by (simp add: apart_def VIDEO_def image_len_def)
  ultimately show ?thesis
    using grep_file_prints [OF grep_example_ok(1,2) _ _ _ grep_example_entry(1,2) _ _ grep_example_ok(3), of 2 calm "\<lambda>_ _. 0" 0]
      grep_example_file user_example_ok(2) by (simp add: grep_example_entry(3))
qed

end
