(* ===== verification/Sigtest.thy ===== *)
theory Sigtest
  imports Programs IDT
begin

text \<open>
  The program \<open>sigtest\<close>, \<^verbatim>\<open>syscalls/ece391sigtest.c\<close>: it asks for handlers of the two signals and then
  stores through a null pointer. Its static variables \<open>badbuf\<close> and \<open>charbuf\<close> are at addresses of
  their own. A store is translated by the page directory in \<open>cr3\<close>; where that does not give the page
  to user programs, the processor goes through gate 14 of the interrupt descriptor table. The table
  \<open>idt\<close> and the addresses \<open>addr\<close> of the handlers are parameters, as in \<open>IDT\<close>.
\<close>

section \<open>The program\<close>

definition SEGFAULT :: int where "SEGFAULT = 1"
definition ALARM :: int where "ALARM = 3"

text \<open>How a program ends: it returns, or the processor stays in the handler of an exception.\<close>

datatype 's ending = Returned int 's | Halted 's

text \<open>
  The processor: the directory that \<open>cr3\<close> points to, and the exception \<open>n\<close>, which runs the handler whose
  address the present gate \<open>n\<close> has. \<open>conv_buf\<close> is the local array of the handler's \<open>printf\<close>.
\<close>

definition cur_dir :: "'a paging_state_scheme \<Rightarrow> pdir option" where
  "cur_dir s = find (\<lambda>d. dir_addr (tables_at s) d = cr3 s)
     [page_directory, task1_page_directory, task2_page_directory, task3_page_directory, task4_page_directory,
      task5_page_directory, task6_page_directory, terminal_page_directory]"

definition isrs :: "isr list" where
  "isrs = [divide_by_0, debug, non_mask_intr, breakpoint, overflow, out_of_bounds, invalid_op, no_coprocessor, double_fault,
     coprocessor_segment_overrun, bad_TSS, no_segment, stack_fault, general_protection, page_fault, coprocessor_fault,
     alignment_check, machine_check, simd_coprocessor_error, ignore_int, keyboard_handler, rtc_handler, isr.syscall_handler]"

definition take_exception :: "(isr \<Rightarrow> u32) \<Rightarrow> idt_desc list \<Rightarrow> mem \<Rightarrow> nat \<Rightarrow> 'a lib_state_scheme \<Rightarrow> 'a lib_state_scheme option" where
  "take_exception addr idt conv_buf n s =
     (if n < length idt \<and> present (idt ! n) = 1
      then Option.bind (find (\<lambda>e. addr e = gate_handler (idt ! n)) isrs) (\<lambda>e. exception_stop conv_buf e s)
      else None)"

text \<open>A store of a byte by a user program.\<close>

definition user_store :: "(isr \<Rightarrow> u32) \<Rightarrow> idt_desc list \<Rightarrow> mem \<Rightarrow> u32 \<Rightarrow> u8 \<Rightarrow> 'a sys_state_scheme
    \<Rightarrow> 'a sys_state_scheme ending option" where
  "user_store addr idt conv_buf a b s =
     Option.bind (cur_dir s) (\<lambda>d.
       case translate s d a of
         Some (_, True) \<Rightarrow> Some (Returned 0 (s\<lparr>ram := (ram s)(a := b)\<rparr>))
       | _ \<Rightarrow> map_option Halted (take_exception addr idt conv_buf 14 s))"

text \<open>\<open>main\<close> after the name has been read.\<close>

definition sigtest_store :: "'a world \<Rightarrow> device \<Rightarrow> (isr \<Rightarrow> u32) \<Rightarrow> idt_desc list \<Rightarrow> mem \<Rightarrow> u32 \<Rightarrow> u32 \<Rightarrow> u32 \<Rightarrow> int \<Rightarrow> 'a sys_state_scheme
    \<Rightarrow> 'a sys_state_scheme ending option" where
  "sigtest_store w dev addr idt conv_buf buf badbuf charbuf cnt s =
     Option.bind (user_store addr idt conv_buf (ld32 (ram s) badbuf) 1 s) (\<lambda>e.
       case e of
         Halted s \<Rightarrow> Some (Halted s)
       | Returned _ s \<Rightarrow>
           let s = s\<lparr>ram := (ram s)(buf + of_int cnt := 0)\<rparr>
           in Option.bind (say (fst (w 3)) dev ''Hello, '' s) (\<lambda>s.
              Option.bind (ece391_fdputs (fst (w 4)) ram dev 1 buf s) (\<lambda>s.
              map_option (Returned 0)
                (if ram s charbuf = 1 then say (fst (w 5)) dev ''success\<newline>'' s
                 else say (fst (w 5)) dev ''failure\<newline>'' s))))"

definition sigtest_main :: "'a world \<Rightarrow> device \<Rightarrow> (isr \<Rightarrow> u32) \<Rightarrow> idt_desc list \<Rightarrow> mem \<Rightarrow> u32 \<Rightarrow> u32 \<Rightarrow> u32 \<Rightarrow> u32 \<Rightarrow> u32 \<Rightarrow> 'a sys_state_scheme
    \<Rightarrow> 'a sys_state_scheme ending option" where
  "sigtest_main w dev addr idt conv_buf segfault alarm buf badbuf charbuf s =
     Option.bind (getargs buf 1024 s) (\<lambda>(r, s).
       if r \<noteq> 0 then map_option (Returned 3) (say (fst (w 0)) dev ''could not read argument\<newline>'' s)
       else
         Option.bind (if ram s buf = 0x31 then
             Option.bind (say (fst (w 0)) dev ''Installing signal handlers\<newline>'' s) (\<lambda>s.
               let (_, s) = set_handler SEGFAULT segfault s;
                   (_, s) = set_handler ALARM alarm s
               in Some s)
           else Some s) (\<lambda>s.
         Option.bind (say (fst (w 1)) dev ''Hi, what's your name? '' s) (\<lambda>s.
         Option.bind (sys_read (fst (w 2)) (snd (w 2)) 0 buf 1023 s) (\<lambda>(cnt, s).
           if cnt = -1 then map_option (Returned 3) (say (fst (w 3)) dev ''Can't read name from keyboard.\<newline>'' s)
           else sigtest_store w dev addr idt conv_buf buf badbuf charbuf cnt s))))"

text \<open>The handlers. \<open>signum\<close> is at an address on the stack, and the word seven words behind it is
  where the saved \<open>eax\<close> of the interrupted code is expected.\<close>

definition say_signum :: "int \<Rightarrow> device \<Rightarrow> int \<Rightarrow> 'a sys_state_scheme \<Rightarrow> 'a sys_state_scheme option" where
  "say_signum junk dev signum s =
     (if signum = 0 then say junk dev ''0\<newline>'' s
      else if signum = 1 then say junk dev ''1\<newline>'' s
      else if signum = 2 then say junk dev ''2\<newline>'' s
      else if signum = 3 then say junk dev ''3\<newline>'' s
      else say junk dev ''invalid\<newline>'' s)"

definition segfault_sighandler :: "'a world \<Rightarrow> device \<Rightarrow> u32 \<Rightarrow> u32 \<Rightarrow> u32 \<Rightarrow> u32 \<Rightarrow> 'a sys_state_scheme
    \<Rightarrow> 'a sys_state_scheme option" where
  "segfault_sighandler w dev buf badbuf charbuf signum s =
     Option.bind (say (fst (w 0)) dev ''Segfault signal handler called, signum: '' s) (\<lambda>s.
     Option.bind (say_signum (fst (w 1)) dev (sint (ld32 (ram s) signum)) s) (\<lambda>s.
     Option.bind (say (fst (w 2)) dev ''Press enter to continue...\<newline>'' s) (\<lambda>s.
     Option.bind (sys_read (fst (w 3)) (snd (w 3)) 0 buf 1 s) (\<lambda>(_, s).
       let s = s\<lparr>ram := wr (ram s) badbuf (le_bytes charbuf)\<rparr>;
           eax = signum + 7 * 4;
           s = s\<lparr>ram := wr (ram s) eax (le_bytes charbuf)\<rparr>
       in say (fst (w 4)) dev ''Signal handler returning\<newline>'' s))))"

definition alarm_sighandler :: "'a world \<Rightarrow> device \<Rightarrow> u32 \<Rightarrow> 'a sys_state_scheme \<Rightarrow> 'a sys_state_scheme option" where
  "alarm_sighandler w dev signum s =
     Option.bind (say (fst (w 0)) dev ''Alarm signal handler called, signum: '' s) (\<lambda>s.
     say_signum (fst (w 1)) dev (sint (ld32 (ram s) signum)) s)"

section \<open>The handlers\<close>

definition signum_name :: "int \<Rightarrow> string" where
  "signum_name n = (if n = 0 then ''0\<newline>'' else if n = 1 then ''1\<newline>'' else if n = 2 then ''2\<newline>''
     else if n = 3 then ''3\<newline>'' else ''invalid\<newline>'')"

lemma say_signum_prints:
  assumes "can_print s" "junk \<noteq> -2"
  obtains t where "say_signum junk dev n s = Some t" "printed s t" "can_print t"
    "display_of t = fold emit (str (signum_name n)) (display_of s)"
proof -
  have "say_signum junk dev n s = say junk dev (signum_name n) s" by (simp add: say_signum_def signum_name_def)
  moreover have "0 \<notin> set (str (signum_name n))" "length (signum_name n) < 2 ^ 31" by (auto simp: signum_name_def str_def)
  ultimately show thesis using that say_prints [OF assms, of "signum_name n" dev] by auto
qed

text \<open>The handler of \<open>ALARM\<close> says its signal's number.\<close>

lemma alarm_says:
  assumes "can_print s" "\<forall>k. fst (w k) \<noteq> -2" "apart signum 4 VIDEO 4000"
  shows "\<exists>t. alarm_sighandler w dev signum s = Some t \<and> printed s t \<and> display_of t
    = fold emit (str (''Alarm signal handler called, signum: '' @ signum_name (sint (ld32 (ram s) signum)))) (display_of s)"
proof -
  have w: "fst (w k) \<noteq> -2" for k using assms(2) by blast
  obtain a where a: "say (fst (w 0)) dev ''Alarm signal handler called, signum: '' s = Some a" "printed s a" "can_print a"
      "display_of a = fold emit (str ''Alarm signal handler called, signum: '') (display_of s)"
    using say_prints [OF assms(1) w, of "''Alarm signal handler called, signum: ''" 0 dev] by (auto simp: str_def)
  have n: "ld32 (ram a) signum = ld32 (ram s) signum" by (rule ld32_rd [OF printed_rd [OF a(2) assms(3)]])
  obtain t where "say_signum (fst (w 1)) dev (sint (ld32 (ram s) signum)) a = Some t" "printed a t"
      "display_of t = fold emit (str (signum_name (sint (ld32 (ram s) signum)))) (display_of a)"
    by (rule say_signum_prints [OF a(3) w])
  then show ?thesis using a(1,4) printed_trans [OF a(2)] n by (auto simp: alarm_sighandler_def str_def)
qed

text \<open>The handler of \<open>SEGFAULT\<close>, once Enter is pressed, makes \<open>badbuf\<close> and the saved register point to \<open>charbuf\<close>.\<close>

lemma segfault_repairs:
  assumes "can_print s" "can_read s" "buf \<noteq> 0" "\<forall>k. fst (w k) \<noteq> -2" "apart badbuf 4 VIDEO 4000" "apart (signum + 28) 4 VIDEO 4000"
    "apart badbuf 4 (signum + 28) 4"
  shows "\<exists>a. printed s a \<and> (\<forall>t. await (\<lambda>s. entered s = 1) (snd (w 3)) a = Some t \<and> line_entered t [] \<and> can_print t
      \<and> apart buf 1 VIDEO 4000 \<longrightarrow>
      (\<exists>u. segfault_sighandler w dev buf badbuf charbuf signum s = Some u
         \<and> rd (ram u) badbuf 4 = le_bytes charbuf \<and> rd (ram u) (signum + 28) 4 = le_bytes charbuf))"
proof -
  have w: "fst (w k) \<noteq> -2" for k using assms(4) by blast
  obtain a where a: "say (fst (w 0)) dev ''Segfault signal handler called, signum: '' s = Some a" "printed s a" "can_print a"
    using say_prints [OF assms(1) w, of "''Segfault signal handler called, signum: ''" 0 dev] by (auto simp: str_def)
  obtain b where b: "say_signum (fst (w 1)) dev (sint (ld32 (ram a) signum)) a = Some b" "printed a b" "can_print b"
    by (rule say_signum_prints [OF a(3) w])
  obtain c where c: "say (fst (w 2)) dev ''Press enter to continue...\<newline>'' b = Some c" "printed b c" "can_print c"
    using say_prints [OF b(3) w, of "''Press enter to continue...\<newline>''" 2 dev] by (auto simp: str_def)
  have pc: "printed s c" using a(2) b(2) c(2) printed_trans by blast
  have read: "can_read c" using assms(2) printed_fields(1) [OF pc] by (simp add: can_read_def)
  have lb: "length (le_bytes x) = 4" for x by (simp add: le_bytes_def)
  have "\<exists>u. segfault_sighandler w dev buf badbuf charbuf signum s = Some u
      \<and> rd (ram u) badbuf 4 = le_bytes charbuf \<and> rd (ram u) (signum + 28) 4 = le_bytes charbuf"
    if t: "await (\<lambda>s. entered s = 1) (snd (w 3)) c = Some t" "line_entered t []" "can_print t" "apart buf 1 VIDEO 4000" for t
  proof -
    let ?r = "t\<lparr>ram := wr (ram t) buf ([] @ [0x0A]), entered := 0\<rparr>"
    have run: "sys_read (fst (w 3)) (snd (w 3)) 0 buf 1 c = Some (int (length ([] :: u8 list)), ?r)"
      by (rule reads_typed [OF read assms(3) t(1,2)]) simp
    let ?m = "wr (wr (ram ?r) badbuf (le_bytes charbuf)) (signum + 28) (le_bytes charbuf)"
    let ?u = "?r\<lparr>ram := ?m\<rparr>"
    have "rd ?m VIDEO 4000 = rd (ram t) VIDEO 4000"
      using assms(5,6) t(4) by (simp add: rd_wr_apart apart_sym lb)
    then have "term_ok ?u = term_ok t" by (intro display_cong) simp_all
    then have "can_print ?u" using t(3) by (simp add: can_print_def)
    then obtain v where v: "say (fst (w 4)) dev ''Signal handler returning\<newline>'' ?u = Some v" "printed ?u v"
      using say_prints [OF _ w, of ?u "''Signal handler returning\<newline>''" 4 dev] by (auto simp: str_def)
    have "segfault_sighandler w dev buf badbuf charbuf signum s = Some v"
      using a(1) b(1) c(1) run v(1) by (simp add: segfault_sighandler_def Let_def)
    moreover have "rd (ram v) badbuf 4 = le_bytes charbuf" "rd (ram v) (signum + 28) 4 = le_bytes charbuf"
      using printed_rd [OF v(2) assms(5)] printed_rd [OF v(2) assms(6)] assms(7) by (simp_all add: rd_wr_apart rd_wr_same lb)
    ultimately show ?thesis by blast
  qed
  then show ?thesis using pc by blast
qed

section \<open>Properties\<close>

text \<open>What is on the screen when \<open>sigtest\<close> waits for the name.\<close>

definition sigtest_asks :: "u8 list \<Rightarrow> string" where
  "sigtest_asks arg = (if arg \<noteq> [] \<and> hd arg = 0x31 then ''Installing signal handlers\<newline>'' else []) @ ''Hi, what's your name? ''"

lemma sigtest_start:
  assumes "can_print s" "can_read s" "has_arg (pcblock s) arg" "user_buffer buf 1024 s" "\<forall>k. fst (w k) \<noteq> -2"
  obtains a where "sigtest_main w dev addr idt conv_buf segfault alarm buf badbuf charbuf s
      = Option.bind (sys_read (fst (w 2)) (snd (w 2)) 0 buf 1023 a) (\<lambda>(cnt, s).
          if cnt = -1 then map_option (Returned 3) (say (fst (w 3)) dev ''Can't read name from keyboard.\<newline>'' s)
          else sigtest_store w dev addr idt conv_buf buf badbuf charbuf cnt s)"
    "can_print a" "can_read a" "display_of a = fold emit (str (sigtest_asks arg)) (display_of s)"
    "printed (s\<lparr>ram := wr (ram s) buf (arg @ replicate (1024 - length arg) 0)\<rparr>) a"
proof -
  have w: "fst (w k) \<noteq> -2" for k using assms(5) by simp
  have ub: "buf \<noteq> 0" "apart buf 1024 VIDEO 4000" using assms(4) by (simp_all add: user_buffer_def)
  have arg: "length arg \<le> 40" using assms(3) by (simp add: has_arg_def)
  let ?bs = "arg @ replicate (1024 - length arg) 0"
  let ?s = "s\<lparr>ram := wr (ram s) buf ?bs\<rparr>"
  have "rd (ram ?s) VIDEO 4000 = rd (ram s) VIDEO 4000" using ub(2) arg by (simp add: rd_wr_apart apart_sym)
  note disp = display_cong [OF _ _ this, simplified]
  have ok: "can_print ?s" "can_read ?s" using assms(1,2) disp(2) by (simp_all add: can_print_def can_read_def)
  have first: "ram ?s buf = 0x31 \<longleftrightarrow> arg \<noteq> [] \<and> hd arg = 0x31"
    using wr_in [of 0 ?bs "ram s" buf] arg by (cases arg) simp_all
  obtain b where b: "(if ram ?s buf = 0x31 then Option.bind (say (fst (w 0)) dev ''Installing signal handlers\<newline>'' ?s) (\<lambda>s.
        let (_, s) = set_handler SEGFAULT segfault s; (_, s) = set_handler ALARM alarm s in Some s) else Some ?s) = Some b"
      "can_print b" "printed ?s b \<or> b = ?s" "display_of b = fold emit (str (if arg \<noteq> [] \<and> hd arg = 0x31 then ''Installing signal handlers\<newline>'' else [])) (display_of s)"
  proof (cases "ram ?s buf = 0x31")
    case True
    obtain b where "say (fst (w 0)) dev ''Installing signal handlers\<newline>'' ?s = Some b" "printed ?s b" "can_print b"
        "display_of b = fold emit (str ''Installing signal handlers\<newline>'') (display_of ?s)"
      using say_prints [OF ok(1) w, of "''Installing signal handlers\<newline>''" 0 dev] by (auto simp: str_def)
    then show thesis using that [of b] True first disp(1) by (simp add: set_handler_def)
  next
    case False
    then have "(arg \<noteq> [] \<and> hd arg = 0x31) = False" using first by simp
    then show thesis using that [of ?s] False ok(1) disp(1) by (simp only: if_False str_def list.map fold_simps) simp
  qed
  obtain a where a: "say (fst (w 1)) dev ''Hi, what's your name? '' b = Some a" "printed b a" "can_print a"
      "display_of a = fold emit (str ''Hi, what's your name? '') (display_of b)"
    using say_prints [OF b(2) w, of "''Hi, what's your name? ''" 1 dev] by (auto simp: str_def)
  have pa: "printed ?s a" using b(3) a(2) printed_trans by blast
  have "can_read a" using ok(2) printed_fields(1) [OF pa] by (simp add: can_read_def)
  moreover have "display_of a = fold emit (str (sigtest_asks arg)) (display_of s)"
    using a(4) b(4) by (simp add: sigtest_asks_def str_def)
  ultimately show thesis
    using that [OF _ a(3) _ _ pa] getargs_run [OF assms(3) ub(1)] b(1) a(1) by (simp add: sigtest_main_def)
qed

text \<open>A user program's store to address 0 under the kernel's tables.\<close>

lemma cur_dir_cr3: "cr3 s = dir_addr (tables_at s) d \<Longrightarrow> cur_dir s = Some d"
  by (cases d) (simp_all add: cur_dir_def dir_addr_inj)

lemma page_fault_gate:
  assumes "length idt = 256" "inj addr"
  shows "take_exception addr (init_idt addr idt) conv_buf 14 s = Some (cli (fold putc (str ''page_fault exception\<newline>'') s))"
proof -
  have g: "is_gate Interrupt (addr page_fault) (init_idt addr idt ! 14)"
    using idt_gate [OF assms(1), of 14 addr] by (simp add: idt_spec_def)
  have "length (init_idt addr idt) = 256" using assms(1) by (simp add: init_idt_def Let_def del: upt_rec_numeral)
  moreover have "find (\<lambda>e. addr e = addr page_fault) isrs = Some page_fault"
    using assms(2) by (simp add: isrs_def inj_eq)
  ultimately show ?thesis
    using g by (simp add: take_exception_def is_gate_def exception_stop_def printf_plain str_def)
qed

lemma null_store_faults:
  assumes "paged s" "cr3 s = dir_addr (tables_at s) d" "length idt = 256" "inj addr"
  shows "user_store addr (init_idt addr idt) conv_buf 0 b s = Some (Halted (cli (fold putc (str ''page_fault exception\<newline>'') s)))"
proof -
  have "translate s d 0 = None" by (simp add: translate_paged [OF assms(1)])
  then show ?thesis using cur_dir_cr3 [OF assms(2)] page_fault_gate [OF assms(3,4)] by (simp add: user_store_def)
qed

text \<open>C34: whatever its argument, \<open>sigtest\<close> never greets: with or without the request for signal handlers,
  which \<open>set_handler\<close> accepts and forgets, it stops as soon as a name has been read. Under the page
  tables of \<open>paging_init\<close>, whichever task's directory is loaded, address 0 is not mapped, so the store
  through the null pointer goes through gate 14 of the table of \<open>init_idt\<close>, and the processor stays
  in \<open>page_fault\<close>, with interrupts off and its message on the screen. The handlers have different
  addresses, \<open>badbuf\<close> is 0 and apart from the buffer, and the interrupts during the read leave the
  page tables alone.\<close>

theorem sigtest_faults:
  assumes "can_print s" "can_read s" "has_arg (pcblock s) arg" "user_buffer buf 1024 s" "\<forall>k. fst (w k) \<noteq> -2"
    "length idt = 256" "inj addr"
  shows "\<exists>a. can_print a \<and> printed (s\<lparr>ram := wr (ram s) buf (arg @ replicate (1024 - length arg) 0)\<rparr>) a
    \<and> display_of a = fold emit (str (sigtest_asks arg)) (display_of s)
    \<and> (\<forall>t name d. await (\<lambda>s. entered s = 1) (snd (w 2)) a = Some t \<and> line_entered t name
         \<and> apart badbuf 4 buf 1024 \<and> ld32 (ram t) badbuf = 0 \<and> paged t \<and> cr3 t = dir_addr (tables_at t) d \<longrightarrow>
         (\<exists>u v. sigtest_main w dev addr (init_idt addr idt) conv_buf segfault alarm buf badbuf charbuf s = Some (Halted v)
            \<and> \<not> int_on v \<and> screen_x u = screen_x t \<and> screen_y u = screen_y t \<and> ram u = wr (ram t) buf (name @ [0x0A])
            \<and> v = cli (fold putc (str ''page_fault exception\<newline>'') u)))"
proof -
  let ?main = "sigtest_main w dev addr (init_idt addr idt) conv_buf segfault alarm buf badbuf charbuf s"
  obtain a where a: "?main = Option.bind (sys_read (fst (w 2)) (snd (w 2)) 0 buf 1023 a) (\<lambda>(cnt, s).
          if cnt = -1 then map_option (Returned 3) (say (fst (w 3)) dev ''Can't read name from keyboard.\<newline>'' s)
          else sigtest_store w dev addr (init_idt addr idt) conv_buf buf badbuf charbuf cnt s)"
      "can_print a" "can_read a" "display_of a = fold emit (str (sigtest_asks arg)) (display_of s)"
      "printed (s\<lparr>ram := wr (ram s) buf (arg @ replicate (1024 - length arg) 0)\<rparr>) a"
    by (rule sigtest_start [OF assms(1-5)])
  have "buf \<noteq> 0" using assms(4) by (simp add: user_buffer_def)
  have "\<exists>u v. ?main = Some (Halted v) \<and> \<not> int_on v
      \<and> screen_x u = screen_x t \<and> screen_y u = screen_y t \<and> ram u = wr (ram t) buf (name @ [0x0A])
      \<and> v = cli (fold putc (str ''page_fault exception\<newline>'') u)"
    if t: "await (\<lambda>s. entered s = 1) (snd (w 2)) a = Some t" "line_entered t name" "apart badbuf 4 buf 1024"
      "ld32 (ram t) badbuf = 0" "paged t" "cr3 t = dir_addr (tables_at t) d" for t name d
  proof -
    let ?u = "t\<lparr>ram := wr (ram t) buf (name @ [0x0A]), entered := 0\<rparr>"
    have n: "length name < 128" using t(2) by (simp add: line_entered_def BUF_MAX_def)
    have run: "sys_read (fst (w 2)) (snd (w 2)) 0 buf 1023 a = Some (int (length name), ?u)"
      using reads_typed [OF a(3) \<open>buf \<noteq> 0\<close> t(1,2), of 1023] n by simp
    have "apart badbuf 4 buf (length (name @ [0x0A]))" using apart_sub [OF t(3), of 0 4 0 "length name + 1"] n by simp
    then have "rd (ram ?u) badbuf 4 = rd (ram t) badbuf 4" by (simp add: rd_wr_apart)
    then have "ld32 (ram ?u) badbuf = ld32 (ram t) badbuf" by (rule ld32_rd)
    moreover have "paged ?u" "cr3 ?u = dir_addr (tables_at ?u) d" using t(5,6) by (simp_all add: paged_def)
    note null_store_faults [OF this assms(6,7)]
    ultimately have "sigtest_store w dev addr (init_idt addr idt) conv_buf buf badbuf charbuf (int (length name)) ?u
        = Some (Halted (cli (fold putc (str ''page_fault exception\<newline>'') ?u)))"
      using t(4) by (simp add: sigtest_store_def)
    then show ?thesis using a(1) run
      by (intro exI [of _ ?u] exI [of _ "cli (fold putc (str ''page_fault exception\<newline>'') ?u)"]) (simp add: cli_def)
  qed
  then show ?thesis using a(2,4,5) by blast
qed

text \<open>The example: a program with the argument \<open>1\<close>, in the address space of the first task.\<close>

definition sig_example :: sys_state where
  "sig_example = user_example\<lparr>pcblock := (pcblock user_example)\<lparr>arg_name := 0x31 # replicate 39 0\<rparr>, tables_at := 0x410000,
     directories := directories (paging_init paging_example), tables := tables (paging_init paging_example),
     cr3 := dir_addr 0x410000 task1_page_directory\<rparr>"

lemma sig_example_ok: "can_print sig_example" "can_read sig_example" "has_arg (pcblock sig_example) [0x31]"
  "user_buffer 0x8000000 1024 sig_example" "paged sig_example" "entered sig_example = 0"
  "cr3 sig_example = dir_addr (tables_at sig_example) task1_page_directory"
proof -
  have "term_ok sig_example = term_ok user_example" by (rule display_cong) (simp_all add: sig_example_def)
  then show "can_print sig_example" using user_example_ok(3) by (simp add: can_print_def sig_example_def)
  show "can_read sig_example" using user_example_ok(5) by (simp add: can_read_def sig_example_def)
  show "has_arg (pcblock sig_example) [0x31]" by (simp add: has_arg_def sig_example_def user_example_def)
  show "user_buffer 0x8000000 1024 sig_example"
    using user_example_buffer [of 1024] by (simp add: user_buffer_def sig_example_def image_len_def)
  have "boot_tables paging_example" by (simp add: boot_tables_def take_bit_eq_mod)
  then show "paged sig_example"
    unfolding paged_def by (intro exI [of _ paging_example]) (simp add: sig_example_def)
  show "entered sig_example = 0" "cr3 sig_example = dir_addr (tables_at sig_example) task1_page_directory"
    by (simp_all add: sig_example_def user_example_def sys_example_def)
qed

text \<open>Handlers one after the other in memory.\<close>

definition sig_addr :: "isr \<Rightarrow> u32" where
  "sig_addr e = 0x400000 + 16 * of_nat (length (takeWhile (\<lambda>x. x \<noteq> e) isrs))"

lemma sig_addr_inj: "inj sig_addr"
proof (rule injI)
  fix x y assume "sig_addr x = sig_addr y"
  then show "x = y" by (cases x; cases y) (simp_all add: sig_addr_def isrs_def)
qed

theorem sigtest_faults_witness:
  "\<exists>idt v. sigtest_main (typing [0x78]) (\<lambda>_ _. 0) sig_addr (init_idt sig_addr idt) (\<lambda>_. 0) 0 0 0x8000000 0x8010000 0x8010004 sig_example
      = Some (Halted v) \<and> \<not> int_on v"
proof -
  let ?s = "sig_example\<lparr>ram := wr (ram sig_example) 0x8000000 ([0x31] @ replicate (1024 - length [0x31 :: u8]) 0)\<rparr>"
  let ?idt = "replicate 256 undefined"
  have w: "\<forall>k. fst (typing [0x78] k) \<noteq> -2" by simp
  obtain a where a: "can_print a" "printed ?s a"
    and run: "\<And>t name d. await (\<lambda>s. entered s = 1) (snd (typing [0x78] 2)) a = Some t \<and> line_entered t name
         \<and> apart 0x8010000 4 0x8000000 1024 \<and> ld32 (ram t) 0x8010000 = 0 \<and> paged t \<and> cr3 t = dir_addr (tables_at t) d \<Longrightarrow>
         \<exists>v. sigtest_main (typing [0x78]) (\<lambda>_ _. 0) sig_addr (init_idt sig_addr ?idt) (\<lambda>_. 0) 0 0 0x8000000 0x8010000 0x8010004 sig_example
            = Some (Halted v) \<and> \<not> int_on v"
    using sigtest_faults [OF sig_example_ok(1-4) w _ sig_addr_inj, of ?idt "0x8010000" "\<lambda>_ _. 0" "\<lambda>_. 0" 0 0 "0x8010004"]
    unfolding length_replicate by blast
  let ?t = "a\<lparr>text_buf := [0x78] @ [0x0A] @ replicate (127 - length [0x78 :: u8]) 0, entered := 1\<rparr>"
  have "entered a = 0" "int_on a" using printed_fields(5) [OF a(2)] sig_example_ok(6) a(2) by (simp_all add: printed_def)
  then have "await (\<lambda>s. entered s = 1) [enter_line [0x78]] a = Some ?t"
    by (simp add: deliver_def enter_line_def sti_def cli_def)
  moreover have "line_entered ?t [0x78]" by (simp add: line_entered_def BUF_MAX_def)
  moreover have ap: "apart 0x8010000 4 0x8000000 1024" "apart 0x8010000 4 VIDEO 4000" by (simp_all add: apart_def VIDEO_def)
  moreover have "ld32 (ram ?t) 0x8010000 = 0"
  proof -
    have "rd (ram a) 0x8010000 4 = rd (ram ?s) 0x8010000 4" using a(2) ap(2) by (rule printed_rd)
    also have "\<dots> = rd disk 0x8010000 4"
      using ap(1) by (simp add: rd_wr_apart) (simp add: sig_example_def)
    finally have "ld32 (ram a) 0x8010000 = ld32 disk 0x8010000" by (rule ld32_rd)
    then show ?thesis by (simp add: ld32_def disk_def wr_def Let_def)
  qed
  moreover have "directories a = directories sig_example" "tables a = tables sig_example" "tables_at a = tables_at sig_example"
      "cr3 a = cr3 sig_example"
    using a(2) by (cases a; simp add: printed_def sig_example_def user_example_def sys_example_def)+
  then have "paged ?t" "cr3 ?t = dir_addr (tables_at ?t) task1_page_directory"
    using sig_example_ok(5,7) by (simp_all add: paged_def)
  ultimately show ?thesis using run [of ?t "[0x78]" task1_page_directory] by auto
qed

end
