(* ===== verification/Blink.thy ===== *)
theory Blink
  imports Lib_Mem
begin

text \<open>
  The blinking characters of \<^verbatim>\<open>fish/blink.S\<close>, with the allocator that \<^verbatim>\<open>fish/fish.c\<close> gives them. The items
  are structures in an array of 2000 slots, linked into a list through their field \<open>next\<close>; the
  operations are functions on memory, over the addresses that the linker gives the variables. A loop
  along the list is a \<open>partial_function\<close>, since a list with a cycle keeps it running. The temporary
  structure that a call keeps on its stack is at \<open>tmp\<close>. \<open>ece391_memcpy\<close> always answers 0, so the
  tests of its result are left out.
\<close>

section \<open>The model\<close>

text \<open>An item; its field \<open>next\<close> is the link of the list, and is read where the code follows it.\<close>

record mp1_blink_struct =
  location :: u16
  on_char :: u8
  off_char :: u8
  on_length :: u16
  off_length :: u16
  countdown :: u16
  status :: u16

text \<open>Offsets of the fields.\<close>

definition LOCATION :: u32 where "LOCATION = 0"
definition ON_CHAR :: u32 where "ON_CHAR = 2"
definition OFF_CHAR :: u32 where "OFF_CHAR = 3"
definition ON_LENGTH :: u32 where "ON_LENGTH = 4"
definition OFF_LENGTH :: u32 where "OFF_LENGTH = 6"
definition COUNTDOWN :: u32 where "COUNTDOWN = 8"
definition STATUS :: u32 where "STATUS = 10"
definition NEXT :: u32 where "NEXT = 12"
definition STRUCT_SIZE :: u32 where "STRUCT_SIZE = 16"

lemmas blink_offsets = LOCATION_def ON_CHAR_def OFF_CHAR_def ON_LENGTH_def OFF_LENGTH_def COUNTDOWN_def STATUS_def
  NEXT_def STRUCT_SIZE_def

definition RTC_ADD :: u32 where "RTC_ADD = 0"
definition RTC_REMOVE :: u32 where "RTC_REMOVE = 1"
definition RTC_FIND :: u32 where "RTC_FIND = 2"
definition RTC_SYNC :: u32 where "RTC_SYNC = 3"

lemmas blink_commands = RTC_ADD_def RTC_REMOVE_def RTC_FIND_def RTC_SYNC_def

text \<open>Where the variables are.\<close>

record fish_symbols =
  blink_array :: u32
  mp1_list_head :: u32
  vmem_base_addr :: u32

text \<open>The slot allocator: a slot is free when its location is 0.\<close>

definition mp1_malloc :: "fish_symbols \<Rightarrow> mem \<Rightarrow> u32" where
  "mp1_malloc F m =
     (case find (\<lambda>i. ld16 m (blink_array F + STRUCT_SIZE * of_nat i + LOCATION) = 0) [0..<80 * 25] of
        Some i \<Rightarrow> blink_array F + STRUCT_SIZE * of_nat i
      | None \<Rightarrow> 0)"

definition mp1_free :: "mem \<Rightarrow> u32 \<Rightarrow> mem" where
  "mp1_free m memory = ece391_memset m memory 0 STRUCT_SIZE"

definition mp1_poke :: "fish_symbols \<Rightarrow> mem \<Rightarrow> u32 \<Rightarrow> u8 \<Rightarrow> mem" where
  "mp1_poke F m eax cl = m(ld32 m (vmem_base_addr F) + eax := cl)"

text \<open>One item at a tick: the countdown is compared as a signed number.\<close>

definition tick_item :: "fish_symbols \<Rightarrow> mem \<Rightarrow> u32 \<Rightarrow> mem" where
  "tick_item F m ebx =
     (let m = st16 m (ebx + COUNTDOWN) (ld16 m (ebx + COUNTDOWN) - 1)
      in if 0 < sint (ld16 m (ebx + COUNTDOWN)) then m
         else
           let eax = push_bit 1 (ucast (ld16 m (ebx + LOCATION)));
               (m, dx) =
                 (if ld16 m (ebx + STATUS) AND 1 \<noteq> 0 then
                    let m = mp1_poke F m eax (m (ebx + OFF_CHAR)) in (m, ld16 m (ebx + OFF_LENGTH))
                  else
                    let m = mp1_poke F m eax (m (ebx + ON_CHAR)) in (m, ld16 m (ebx + ON_LENGTH)));
               m = st16 m (ebx + COUNTDOWN) dx
           in st16 m (ebx + STATUS) (ld16 m (ebx + STATUS) XOR 1))"

partial_function (option) tasklet_loop :: "fish_symbols \<Rightarrow> mem \<Rightarrow> u32 \<Rightarrow> mem option" where
  "tasklet_loop F m ebx =
     (if ebx = 0 then Some m
      else let m = tick_item F m ebx in tasklet_loop F m (ld32 m (ebx + NEXT)))"

definition mp1_rtc_tasklet :: "fish_symbols \<Rightarrow> mem \<Rightarrow> mem option" where
  "mp1_rtc_tasklet F m = tasklet_loop F m (ld32 m (mp1_list_head F))"

partial_function (option) find_loop :: "mem \<Rightarrow> u16 \<Rightarrow> u32 \<Rightarrow> u32 option" where
  "find_loop m ax ebx =
     (if ebx = 0 then Some 0
      else if ld16 m (ebx + LOCATION) = ax then Some ebx
      else find_loop m ax (ld32 m (ebx + NEXT)))"

definition mp1_find_helper :: "fish_symbols \<Rightarrow> mem \<Rightarrow> u32 \<Rightarrow> u32 option" where
  "mp1_find_helper F m loc = find_loop m (ucast loc) (ld32 m (mp1_list_head F))"

definition mp1_ioctl_add :: "fish_symbols \<Rightarrow> u32 \<Rightarrow> mem \<Rightarrow> u32 \<Rightarrow> int \<times> mem" where
  "mp1_ioctl_add F tmp m arg =
     (let m = ece391_memcpy m tmp arg STRUCT_SIZE
      in if ld16 m (tmp + LOCATION) \<ge> 80 * 25 then (-1, m)
         else
           let m = st16 m (tmp + STATUS) 1;
               m = st16 m (tmp + COUNTDOWN) (ld16 m (tmp + ON_LENGTH));
               eax = mp1_malloc F m
           in if eax = 0 then (-1, m)
              else
                let m = ece391_memcpy m eax tmp STRUCT_SIZE;
                    m = st32 m (eax + NEXT) (ld32 m (mp1_list_head F));
                    m = st32 m (mp1_list_head F) eax;
                    m = mp1_poke F m (push_bit 1 (ucast (ld16 m (eax + LOCATION)))) (m (eax + ON_CHAR))
                in (0, m))"

text \<open>The address of the pointer to the item \<open>eax\<close>: the head, or a field \<open>next\<close>.\<close>

partial_function (option) find_prev :: "mem \<Rightarrow> u32 \<Rightarrow> u32 \<Rightarrow> u32 option" where
  "find_prev m eax edx =
     (if ld32 m edx = eax then Some edx else find_prev m eax (ld32 m edx + NEXT))"

definition mp1_ioctl_remove :: "fish_symbols \<Rightarrow> mem \<Rightarrow> u32 \<Rightarrow> (int \<times> mem) option" where
  "mp1_ioctl_remove F m arg =
     Option.bind (mp1_find_helper F m arg) (\<lambda>eax.
       if eax = 0 then Some (-1, m)
       else Option.bind (find_prev m eax (mp1_list_head F)) (\<lambda>edx.
         let m = st32 m edx (ld32 m (eax + NEXT))
         in Some (0, mp1_free m eax)))"

text \<open>\<open>sync\<close> chooses the character with \<open>cmovl\<close> after \<open>testb\<close>: the test leaves the overflow flag clear
  and the sign flag is that of the tested bits, so the condition is that the byte \<open>1 AND STATUS\<close> is
  negative.\<close>

definition mp1_ioctl_sync :: "fish_symbols \<Rightarrow> mem \<Rightarrow> u32 \<Rightarrow> (int \<times> mem) option" where
  "mp1_ioctl_sync F m arg =
     Option.bind (mp1_find_helper F m (drop_bit 16 arg)) (\<lambda>esi.
       if esi = 0 then Some (-1, m)
       else Option.bind (mp1_find_helper F m (arg AND 0xFFFF)) (\<lambda>edi.
         if edi = 0 then Some (-1, m)
         else
           let m = st16 m (edi + ON_LENGTH) (ld16 m (esi + ON_LENGTH));
               m = st16 m (edi + OFF_LENGTH) (ld16 m (esi + OFF_LENGTH));
               m = st16 m (edi + COUNTDOWN) (ld16 m (esi + COUNTDOWN));
               m = st16 m (edi + STATUS) (ld16 m (esi + STATUS));
               cl = (if sint (1 AND m (edi + STATUS)) < 0 then m (edi + ON_CHAR) else m (edi + OFF_CHAR))
           in Some (0, mp1_poke F m (push_bit 1 (ucast (ld16 m (edi + LOCATION)))) cl)))"

definition mp1_ioctl_find :: "fish_symbols \<Rightarrow> u32 \<Rightarrow> mem \<Rightarrow> u32 \<Rightarrow> (int \<times> mem) option" where
  "mp1_ioctl_find F tmp m arg =
     (let m = ece391_memcpy m tmp arg 2
      in Option.bind (mp1_find_helper F m (ucast (ld16 m tmp))) (\<lambda>eax.
           if eax = 0 then Some (-1, m)
           else Some (0, ece391_memcpy m arg eax STRUCT_SIZE)))"

text \<open>The call through the table of four; there is no test of the command.\<close>

definition mp1_ioctl :: "fish_symbols \<Rightarrow> u32 \<Rightarrow> mem \<Rightarrow> u32 \<Rightarrow> u32 \<Rightarrow> (int \<times> mem) option" where
  "mp1_ioctl F tmp m arg cmd =
     (if cmd = 0 then Some (mp1_ioctl_add F tmp m arg)
      else if cmd = 1 then mp1_ioctl_remove F m arg
      else if cmd = 2 then mp1_ioctl_find F tmp m arg
      else if cmd = 3 then mp1_ioctl_sync F m arg
      else None)"

section \<open>The list and the screen\<close>

definition item_at :: "mem \<Rightarrow> u32 \<Rightarrow> mp1_blink_struct" where
  "item_at m p = \<lparr>location = ld16 m (p + LOCATION), on_char = m (p + ON_CHAR), off_char = m (p + OFF_CHAR),
     on_length = ld16 m (p + ON_LENGTH), off_length = ld16 m (p + OFF_LENGTH),
     countdown = ld16 m (p + COUNTDOWN), status = ld16 m (p + STATUS)\<rparr>"

definition slot :: "fish_symbols \<Rightarrow> nat \<Rightarrow> u32" where
  "slot F i = blink_array F + of_nat (16 * i)"

text \<open>The list from \<open>p\<close> has the slots \<open>is\<close> in this order.\<close>

fun linked :: "fish_symbols \<Rightarrow> mem \<Rightarrow> u32 \<Rightarrow> nat list \<Rightarrow> bool" where
  "linked F m p [] \<longleftrightarrow> p = 0"
| "linked F m p (i # is) \<longleftrightarrow> p = slot F i \<and> linked F m (ld32 m (p + NEXT)) is"

text \<open>The 2000 characters from \<open>vm\<close> on, every other byte.\<close>

definition screen_cells :: "mem \<Rightarrow> u32 \<Rightarrow> u8 list" where
  "screen_cells m vm = map (\<lambda>l. m (vm + of_nat (2 * l))) [0..<2000]"

text \<open>The variables, the array and video memory are apart.\<close>

definition layout :: "fish_symbols \<Rightarrow> u32 \<Rightarrow> bool" where
  "layout F vm \<longleftrightarrow> blink_array F \<noteq> 0 \<and> unat (blink_array F) + 32000 \<le> 2 ^ 32
     \<and> apart (blink_array F) 32000 vm 4000 \<and> apart (blink_array F) 32000 (mp1_list_head F) 4
     \<and> apart (blink_array F) 32000 (vmem_base_addr F) 4 \<and> apart (mp1_list_head F) 4 vm 4000
     \<and> apart (vmem_base_addr F) 4 vm 4000 \<and> apart (mp1_list_head F) 4 (vmem_base_addr F) 4"

text \<open>The invariant of the device: the list's slots are the slots with a location, each once.\<close>

definition slots_ok :: "fish_symbols \<Rightarrow> u32 \<Rightarrow> mem \<Rightarrow> nat list \<Rightarrow> bool" where
  "slots_ok F vm m is \<longleftrightarrow> layout F vm \<and> ld32 m (vmem_base_addr F) = vm \<and> linked F m (ld32 m (mp1_list_head F)) is
     \<and> distinct is \<and> set is = {i. i < 2000 \<and> ld16 m (slot F i) \<noteq> 0} \<and> (\<forall>i\<in>set is. ld16 m (slot F i) < 2000)"

section \<open>Reading after writing\<close>

lemma st16_other: "x \<noteq> a \<Longrightarrow> x \<noteq> a + 1 \<Longrightarrow> st16 m a v x = m x"
  by (simp add: st16_def)

lemma ld16_other: "a \<noteq> b \<Longrightarrow> a + 1 \<noteq> b \<Longrightarrow> a \<noteq> b + 1 \<Longrightarrow> ld16 (st16 m b v) a = ld16 m a"
  by (simp add: ld16_def st16_def)

lemma ld16_upd: "a \<noteq> x \<Longrightarrow> a + 1 \<noteq> x \<Longrightarrow> ld16 (m(x := c)) a = ld16 m a"
  by (simp add: ld16_def)

lemmas field_simps16 = ld16_st16 ld16_other ld16_upd st16_other add.assoc

lemma st16_out: "x \<notin> region a 2 \<Longrightarrow> st16 m a v x = m x"
  using in_region [of 0 2 a] in_region [of 1 2 a] by (intro st16_other) auto

lemma item_at_12:
  assumes "rd m' q 12 = rd m p 12"
  shows "item_at m' q = item_at m p"
proof -
  have b: "m' (q + of_nat i) = m (p + of_nat i)" if "i < 12" for i
    using arg_cong [OF assms, of "\<lambda>xs. xs ! i"] that by simp
  note bs = b [of 0] b [of 1] b [of 2] b [of 3] b [of 4] b [of 5] b [of 6] b [of 7] b [of 8] b [of 9] b [of 10] b [of 11]
  show ?thesis using bs by (simp add: item_at_def ld16_def blink_offsets add.assoc)
qed

lemma location_item [simp]: "location (item_at m p) = ld16 m p"
  by (simp add: item_at_def blink_offsets)

lemma item_at_rd:
  assumes "rd m' q 16 = rd m p 16"
  shows "item_at m' q = item_at m p" "ld32 m' (q + NEXT) = ld32 m (p + NEXT)" "ld16 m' q = ld16 m p"
proof -
  have "rd m' q 12 = rd m p 12" "rd m' (q + 12) 4 = rd m (p + 12) 4"
    using arg_cong [OF assms, of "take 12"] arg_cong [OF assms, of "drop 12"] by (simp_all add: take_rd drop_rd)
  then show "item_at m' q = item_at m p" "ld32 m' (q + NEXT) = ld32 m (p + NEXT)"
    by (auto simp: blink_offsets intro: item_at_12 ld32_rd)
  then show "ld16 m' q = ld16 m p" using location_item by metis
qed

lemma slot_byte:
  assumes "x \<in> region (slot F i) 16" "i < 2000"
  shows "unat (x - blink_array F) div 16 = i" "x \<in> region (blink_array F) 32000"
proof -
  have k: "unat (x - slot F i) < 16" using assms(1) by (simp add: region_def)
  then have "unat (x - blink_array F) = 16 * i + unat (x - slot F i)"
    unfolding slot_def using assms(2) by (intro unat_diff_shift) (simp add: slot_def)
  then show "unat (x - blink_array F) div 16 = i" "x \<in> region (blink_array F) 32000"
    using k assms(2) by (simp_all add: region_def)
qed

lemma slots_apart: "i < 2000 \<Longrightarrow> j < 2000 \<Longrightarrow> i \<noteq> j \<Longrightarrow> region (slot F i) 16 \<inter> region (slot F j) 16 = {}"
  using slot_byte(1) by blast

lemma layoutD:
  assumes "layout F vm"
  shows "blink_array F \<noteq> 0" "unat (blink_array F) + 32000 \<le> 2 ^ 32"
    "region (blink_array F) 32000 \<inter> region vm 4000 = {}" "region (blink_array F) 32000 \<inter> region (mp1_list_head F) 4 = {}"
    "region (blink_array F) 32000 \<inter> region (vmem_base_addr F) 4 = {}" "region (mp1_list_head F) 4 \<inter> region vm 4000 = {}"
    "region (vmem_base_addr F) 4 \<inter> region vm 4000 = {}" "region (mp1_list_head F) 4 \<inter> region (vmem_base_addr F) 4 = {}"
  using assms by (simp_all add: layout_def apart_region)

lemma slot_far:
  assumes "layout F vm" "i < 2000"
  shows "region (slot F i) 16 \<inter> region vm 4000 = {}" "region (slot F i) 16 \<inter> region (mp1_list_head F) 4 = {}"
    "region (slot F i) 16 \<inter> region (vmem_base_addr F) 4 = {}"
  using slot_byte(2) [OF _ assms(2)] layoutD [OF assms(1)] by blast+

lemma slot_nonzero: "layout F vm \<Longrightarrow> i < 2000 \<Longrightarrow> slot F i \<noteq> 0"
proof
  assume h: "layout F vm" "i < 2000" "slot F i = 0"
  then have "- blink_array F = of_nat (16 * i)" by (simp add: slot_def neg_eq_iff_add_eq_0)
  moreover have "unat (of_nat (16 * i) :: u32) = 16 * i" using h(2) by (intro unat_of_nat_u32) simp
  ultimately have "unat (- blink_array F) = 16 * i" by simp
  moreover have "unat (blink_array F) \<noteq> 0" using layoutD(1) [OF h(1)] by (simp add: unat_eq_zero)
  ultimately show False using layoutD(2) [OF h(1)] h(2) unat_u32_sub [of 0 "blink_array F"] by simp
qed

text \<open>Memories that agree outside a set of addresses.\<close>

definition same_but :: "u32 set \<Rightarrow> mem \<Rightarrow> mem \<Rightarrow> bool" where
  "same_but X m m' \<longleftrightarrow> (\<forall>x. x \<notin> X \<longrightarrow> m' x = m x)"

lemma same_butI: "(\<And>x. x \<notin> X \<Longrightarrow> m' x = m x) \<Longrightarrow> same_but X m m'"
  by (simp add: same_but_def)

lemma same_butD: "same_but X m m' \<Longrightarrow> x \<notin> X \<Longrightarrow> m' x = m x"
  by (simp add: same_but_def)

lemma same_but_trans: "same_but X m m' \<Longrightarrow> same_but X m' m'' \<Longrightarrow> same_but X m m''"
  by (simp add: same_but_def)

lemma same_but_mono: "same_but X m m' \<Longrightarrow> X \<subseteq> Y \<Longrightarrow> same_but Y m m'"
  by (auto simp: same_but_def)

lemma same_but_rd:
  assumes "same_but X m m'" "region a n \<inter> X = {}" "n \<le> 2 ^ 32"
  shows "rd m' a n = rd m a n"
  using assms by (intro rd_same) (blast dest: same_butD)+

lemma same_but_cells:
  assumes "same_but X m m'" "region vm 4000 \<inter> X = {}"
  shows "screen_cells m' vm = screen_cells m vm"
  unfolding screen_cells_def
proof (rule map_cong [OF refl])
  fix l assume "l \<in> set [0..<2000]"
  then have "vm + of_nat (2 * l) \<in> region vm 4000" by (intro in_region) simp_all
  then show "m' (vm + of_nat (2 * l)) = m (vm + of_nat (2 * l))" using assms by (blast dest: same_butD)
qed

lemma length_screen_cells [simp]: "length (screen_cells m vm) = 2000"
  by (simp add: screen_cells_def)

lemma cells_poke:
  assumes "l < 2000"
  shows "screen_cells (m(vm + of_nat (2 * l) := c)) vm = (screen_cells m vm)[l := c]"
proof (rule nth_equalityI)
  fix j assume j: "j < length (screen_cells (m(vm + of_nat (2 * l) := c)) vm)"
  have "vm + of_nat (2 * j) = vm + of_nat (2 * l) \<longleftrightarrow> j = l"
    using j assms by (subst index_inj) auto
  then show "screen_cells (m(vm + of_nat (2 * l) := c)) vm ! j = (screen_cells m vm)[l := c] ! j"
    using j by (simp add: screen_cells_def nth_list_update)
qed simp

section \<open>A tick\<close>

text \<open>What a tick does to an item, and what it shows of it.\<close>

definition tick :: "mp1_blink_struct \<Rightarrow> mp1_blink_struct" where
  "tick e = (if 0 < sint (countdown e - 1) then e\<lparr>countdown := countdown e - 1\<rparr>
     else e\<lparr>countdown := (if status e AND 1 \<noteq> 0 then off_length e else on_length e), status := status e XOR 1\<rparr>)"

definition show_tick :: "mp1_blink_struct \<Rightarrow> u8 list \<Rightarrow> u8 list" where
  "show_tick e scr = (if 0 < sint (countdown e - 1) then scr
     else scr[unat (location e) := if status e AND 1 \<noteq> 0 then off_char e else on_char e])"

lemma vm_cell: "l < 2000 \<Longrightarrow> vm + push_bit 1 (ucast (l :: u16)) = vm + of_nat (2 * unat l)" "l < 2000 \<Longrightarrow> unat l < 2000"
  by (simp_all add: push_bit_eq_mult word_less_nat_alt)

lemma poke_far:
  assumes "region p 16 \<inter> region vm 4000 = {}" "l < 2000"
  shows "\<forall>k\<in>{0..<16}. p + of_nat k \<noteq> vm + of_nat (2 * l)"
proof
  fix k :: nat assume "k \<in> {0..<16}"
  then have "p + of_nat k \<in> region p 16" by simp
  moreover have "vm + of_nat (2 * l) \<in> region vm 4000" using assms(2) by (intro in_region) simp_all
  ultimately show "p + of_nat k \<noteq> vm + of_nat (2 * l)" using assms(1) by (metis disjoint_iff)
qed

lemma tick_item_at:
  assumes "region p 16 \<inter> region vm 4000 = {}" "region p 16 \<inter> region (vmem_base_addr F) 4 = {}"
    "ld32 m (vmem_base_addr F) = vm" "ld16 m p < 2000"
  shows "item_at (tick_item F m p) p = tick (item_at m p)" "screen_cells (tick_item F m p) vm = show_tick (item_at m p) (screen_cells m vm)"
    "same_but (region p 12 \<union> region vm 4000) m (tick_item F m p)"
proof -
  let ?m = "st16 m (p + COUNTDOWN) (ld16 m (p + COUNTDOWN) - 1)" and ?x = "vm + ucast (ld16 m p) * 2"
  let ?c = "if ld16 m (p + STATUS) AND 1 \<noteq> 0 then m (p + OFF_CHAR) else m (p + ON_CHAR)"
  let ?d = "if ld16 m (p + STATUS) AND 1 \<noteq> 0 then ld16 m (p + OFF_LENGTH) else ld16 m (p + ON_LENGTH)"
  have sub: "region (p + 8) 2 \<subseteq> region p 12" "region (p + 10) 2 \<subseteq> region p 12" "region p 12 \<subseteq> region p 16"
    using region_sub [of 8 2 12 p] region_sub [of 10 2 12 p] region_sub [of 0 12 16 p] by simp_all
  have "rd ?m (vmem_base_addr F) 4 = rd m (vmem_base_addr F) 4"
    using assms(2) sub(1,3) by (intro same_but_rd [where X = "region p 16"] same_butI) (auto simp: blink_offsets intro!: st16_out)
  then have vm: "ld32 ?m (vmem_base_addr F) = vm" using ld32_rd assms(3) by metis
  note l = vm_cell(2) [OF assms(4)]
  have x: "?x = vm + of_nat (2 * unat (ld16 m p))" by simp
  have far: "p \<noteq> ?x" "p + 1 \<noteq> ?x" "p + 2 \<noteq> ?x" "p + 3 \<noteq> ?x" "p + 4 \<noteq> ?x" "p + 5 \<noteq> ?x" "p + 6 \<noteq> ?x" "p + 7 \<noteq> ?x"
      "p + 8 \<noteq> ?x" "p + 9 \<noteq> ?x" "p + 10 \<noteq> ?x" "p + 11 \<noteq> ?x"
    using poke_far [OF assms(1) l] by (simp_all add: atLeastLessThan_nat_numeral x)
  have run: "tick_item F m p = (if 0 < sint (ld16 m (p + COUNTDOWN) - 1) then ?m
      else st16 (st16 (?m(?x := ?c)) (p + COUNTDOWN) ?d) (p + STATUS) (ld16 m (p + STATUS) XOR 1))"
    using far vm
    by (simp add: tick_item_def Let_def mp1_poke_def blink_offsets field_simps16)
  show "item_at (tick_item F m p) p = tick (item_at m p)"
    unfolding run using far by (simp add: item_at_def tick_def blink_offsets field_simps16)
  have out: "st16 n (p + COUNTDOWN) v y = n y" "st16 n (p + STATUS) v y = n y" if "y \<notin> region p 12" for n v y
    using that sub by (auto simp: blink_offsets intro!: st16_out)
  have "?x \<in> region vm 4000" unfolding x using l by (intro in_region) simp_all
  then show "same_but (region p 12 \<union> region vm 4000) m (tick_item F m p)"
    by (intro same_butI) (auto simp: run out)
  have keep: "screen_cells (st16 n (p + COUNTDOWN) v) vm = screen_cells n vm" "screen_cells (st16 n (p + STATUS) v) vm = screen_cells n vm" for n v
    using assms(1) sub(3) out by (auto intro!: same_but_cells [where X = "region p 12"] same_butI)
  show "screen_cells (tick_item F m p) vm = show_tick (item_at m p) (screen_cells m vm)"
    unfolding run x using l by (simp add: keep [unfolded blink_offsets] cells_poke show_tick_def item_at_def blink_offsets del: of_nat_mult)
qed

lemma slot_rd:
  assumes "same_but (region (slot F i) n \<union> region vm 4000) m m'" "layout F vm" "i < 2000" "j < 2000" "j \<noteq> i" "n \<le> 16"
  shows "rd m' (slot F j) 16 = rd m (slot F j) 16"
proof -
  have "region (slot F i) n \<subseteq> region (slot F i) 16" using assms(6) by (auto simp: region_def)
  then show ?thesis
    using slots_apart [OF assms(4,3,5), of F] slot_far(1) [OF assms(2,4)] by (intro same_but_rd [OF assms(1)]) auto
qed

lemma next_region: "region (p + NEXT) 4 \<inter> region p 12 = {}" "region (p + NEXT) 4 \<subseteq> region p 16"
proof -
  have "unat (x - p) = 12 + unat (x - (p + NEXT))" if "x \<in> region (p + NEXT) 4" for x
    using that unat_diff_shift [of 12 x p] by (simp add: region_def blink_offsets)
  then show "region (p + NEXT) 4 \<inter> region p 12 = {}" "region (p + NEXT) 4 \<subseteq> region p 16"
    by (fastforce simp: region_def)+
qed

lemma next_kept:
  assumes "same_but (region (slot F i) 12 \<union> region vm 4000) m m'" "layout F vm" "i < 2000"
  shows "ld32 m' (slot F i + NEXT) = ld32 m (slot F i + NEXT)"
  using next_region [of "slot F i"] slot_far(1) [OF assms(2,3)] by (intro ld32_rd same_but_rd [OF assms(1)]) auto

lemma linked_cong: "(\<And>i. i \<in> set is \<Longrightarrow> ld32 m' (slot F i + NEXT) = ld32 m (slot F i + NEXT)) \<Longrightarrow> linked F m' p is = linked F m p is"
  by (induction "is" arbitrary: p) auto

abbreviation items :: "fish_symbols \<Rightarrow> mem \<Rightarrow> nat list \<Rightarrow> mp1_blink_struct list" where
  "items F m is \<equiv> map (\<lambda>i. item_at m (slot F i)) is"

definition ticked :: "fish_symbols \<Rightarrow> u32 \<Rightarrow> mem \<Rightarrow> nat list \<Rightarrow> mem \<Rightarrow> bool" where
  "ticked F vm m is m' \<longleftrightarrow> items F m' is = map tick (items F m is) \<and> screen_cells m' vm = fold show_tick (items F m is) (screen_cells m vm)
     \<and> same_but ((\<Union>i\<in>set is. region (slot F i) 12) \<union> region vm 4000) m m'"

lemma slot_12: "region p 12 \<subseteq> region p 16"
  by (auto simp: region_def)

lemma tasklet_loop_ticks:
  assumes "layout F vm" "ld32 m (vmem_base_addr F) = vm" "linked F m p is" "distinct is"
    "\<forall>i\<in>set is. i < 2000 \<and> ld16 m (slot F i) < 2000"
  shows "\<exists>m'. tasklet_loop F m p = Some m' \<and> ticked F vm m is m'"
  using assms
proof (induction "is" arbitrary: m p)
  case Nil
  then show ?case by (simp add: tasklet_loop.simps ticked_def same_but_def)
next
  case (Cons i "is")
  have i: "i < 2000" "ld16 m p < 2000" "p = slot F i" using Cons.prems(3,5) by auto
  let ?m = "tick_item F m p"
  note far = slot_far [OF Cons.prems(1) i(1), folded i(3)]
  note t = tick_item_at [OF far(1,3) Cons.prems(2) i(2)]
  have same: "rd ?m (slot F j) 16 = rd m (slot F j) 16" if "j \<in> set is" for j
    using slot_rd [OF t(3) [unfolded i(3)] Cons.prems(1) i(1), of j] Cons.prems(4,5) that i(3) by auto
  note same = item_at_rd [OF same]
  have "rd ?m (vmem_base_addr F) 4 = rd m (vmem_base_addr F) 4"
    using far(3) layoutD(7) [OF Cons.prems(1)] slot_12 [of p] by (intro same_but_rd [OF t(3)]) auto
  then have vm: "ld32 ?m (vmem_base_addr F) = vm" using ld32_rd Cons.prems(2) by metis
  have rest: "linked F ?m (ld32 ?m (p + NEXT)) is"
    using Cons.prems(3) linked_cong [of "is" ?m F m] same(2) next_kept [OF t(3) [unfolded i(3)] Cons.prems(1) i(1)] i(3) by simp
  obtain m' where m': "tasklet_loop F ?m (ld32 ?m (p + NEXT)) = Some m'" "ticked F vm ?m is m'"
    using Cons.IH [OF Cons.prems(1) vm rest] Cons.prems(4,5) same(3) by auto
  have run: "tasklet_loop F m p = Some m'"
    using m'(1) slot_nonzero [OF Cons.prems(1) i(1)] i(3) by (subst tasklet_loop.simps) (simp add: Let_def)
  have "region p 16 \<inter> ((\<Union>j\<in>set is. region (slot F j) 12) \<union> region vm 4000) = {}"
    using slots_apart [OF i(1)] slot_12 far(1) i(3) Cons.prems(4,5) by fastforce
  then have "rd m' p 16 = rd ?m p 16" using m'(2) by (intro same_but_rd) (auto simp: ticked_def)
  then have "item_at m' p = tick (item_at m p)" using item_at_rd(1) t(1) by metis
  moreover have "same_but ((\<Union>j\<in>set (i # is). region (slot F j) 12) \<union> region vm 4000) m m'"
    by (rule same_but_trans [OF same_but_mono [OF t(3)] same_but_mono]) (use m'(2) i(3) in \<open>auto simp: ticked_def\<close>)
  ultimately show ?case using run m'(2) t(2) same(1) i(3) by (simp add: ticked_def cong: map_cong)
qed

section \<open>The device\<close>

text \<open>The device blinks the items \<open>es\<close>, in the order of its list, on the screen \<open>scr\<close>.\<close>

definition blinking :: "fish_symbols \<Rightarrow> u32 \<Rightarrow> mem \<Rightarrow> mp1_blink_struct list \<Rightarrow> u8 list \<Rightarrow> bool" where
  "blinking F vm m es scr \<longleftrightarrow> (\<exists>is. slots_ok F vm m is \<and> es = items F m is) \<and> scr = screen_cells m vm"

lemma slots_okD:
  assumes "slots_ok F vm m is"
  shows "layout F vm" "ld32 m (vmem_base_addr F) = vm" "linked F m (ld32 m (mp1_list_head F)) is" "distinct is"
    "i \<in> set is \<longleftrightarrow> i < 2000 \<and> ld16 m (slot F i) \<noteq> 0" "i \<in> set is \<Longrightarrow> ld16 m (slot F i) < 2000"
  using assms by (simp_all add: slots_ok_def)

text \<open>Memory in which the locations and the links are as before.\<close>

lemma slots_ok_kept:
  assumes "slots_ok F vm m is" "same_but (region (blink_array F) 32000 \<union> region vm 4000) m m'"
    "\<And>i. i < 2000 \<Longrightarrow> ld16 m' (slot F i) = ld16 m (slot F i)"
    "\<And>i. i \<in> set is \<Longrightarrow> ld32 m' (slot F i + NEXT) = ld32 m (slot F i + NEXT)"
  shows "slots_ok F vm m' is"
proof -
  note h = slots_okD [OF assms(1)] and l = layoutD [OF slots_okD(1) [OF assms(1)]]
  have "rd m' (vmem_base_addr F) 4 = rd m (vmem_base_addr F) 4" "rd m' (mp1_list_head F) 4 = rd m (mp1_list_head F) 4"
    using l by (auto intro!: same_but_rd [OF assms(2)])
  then have "ld32 m' (vmem_base_addr F) = vm" "ld32 m' (mp1_list_head F) = ld32 m (mp1_list_head F)"
    using ld32_rd h(2) by metis+
  moreover have "linked F m' p is = linked F m p is" for p using assms(4) by (rule linked_cong)
  ultimately show ?thesis using assms(1,3) unfolding slots_ok_def by (auto cong: conj_cong)
qed

text \<open>Memory that differs elsewhere only.\<close>

lemma slots_ok_elsewhere:
  assumes "slots_ok F vm m is" "same_but X m m'"
    "X \<inter> (region (blink_array F) 32000 \<union> region vm 4000 \<union> region (mp1_list_head F) 4 \<union> region (vmem_base_addr F) 4) = {}"
  shows "slots_ok F vm m' is" "items F m' is = items F m is" "screen_cells m' vm = screen_cells m vm"
proof -
  note h = slots_okD [OF assms(1)]
  have "rd m' (vmem_base_addr F) 4 = rd m (vmem_base_addr F) 4" "rd m' (mp1_list_head F) 4 = rd m (mp1_list_head F) 4"
    using assms(3) by (auto intro!: same_but_rd [OF assms(2)])
  then have vars: "ld32 m' (vmem_base_addr F) = vm" "ld32 m' (mp1_list_head F) = ld32 m (mp1_list_head F)"
    using ld32_rd h(2) by metis+
  have "rd m' (slot F i) 16 = rd m (slot F i) 16" if "i < 2000" for i
    using assms(3) slot_byte(2) [OF _ that] by (intro same_but_rd [OF assms(2)]) auto
  note same = item_at_rd [OF this]
  have "linked F m' p is = linked F m p is" for p using same(2) h(5) by (intro linked_cong) auto
  then show "slots_ok F vm m' is" using assms(1) vars same(3) unfolding slots_ok_def by (auto cong: conj_cong)
  show "items F m' is = items F m is" using same(1) h(5) by auto
  show "screen_cells m' vm = screen_cells m vm" using assms(3) by (intro same_but_cells [OF assms(2)]) auto
qed

lemma blinking_places:
  assumes "blinking F vm m es scr"
  shows "length scr = 2000" "\<forall>e\<in>set es. unat (location e) < length scr" "\<forall>e\<in>set es. location e \<noteq> 0"
proof -
  obtain "is" where i: "slots_ok F vm m is" "es = items F m is" "scr = screen_cells m vm" using assms by (auto simp: blinking_def)
  show "length scr = 2000" using i(3) by simp
  show "\<forall>e\<in>set es. unat (location e) < length scr" "\<forall>e\<in>set es. location e \<noteq> 0"
    using i(2,3) slots_okD(5,6) [OF i(1)] by (auto simp: word_less_nat_alt)
qed

lemma next_far: "i < 2000 \<Longrightarrow> j < 2000 \<Longrightarrow> region (slot F i + NEXT) 4 \<inter> region (slot F j) 12 = {}"
  using next_region [of "slot F i"] slots_apart [of i j F] slot_12 [of "slot F j"] by (cases "i = j") blast+

lemma tick_location [simp]: "location (tick e) = location e"
  by (simp add: tick_def)

lemma tasklet_ticks:
  assumes "blinking F vm m es scr"
  shows "\<exists>m'. mp1_rtc_tasklet F m = Some m' \<and> blinking F vm m' (map tick es) (fold show_tick es scr)
    \<and> same_but (region (blink_array F) 32000 \<union> region vm 4000) m m'"
proof -
  obtain "is" where i: "slots_ok F vm m is" "es = items F m is" "scr = screen_cells m vm" using assms by (auto simp: blinking_def)
  note h = slots_okD [OF i(1)]
  obtain m' where m': "mp1_rtc_tasklet F m = Some m'" "ticked F vm m is m'"
    using tasklet_loop_ticks [OF h(1-4)] h(5,6) by (auto simp: mp1_rtc_tasklet_def)
  let ?X = "(\<Union>i\<in>set is. region (slot F i) 12) \<union> region vm 4000"
  have t: "items F m' is = map tick (items F m is)" "same_but ?X m m'" using m'(2) by (simp_all add: ticked_def)
  have "?X \<subseteq> region (blink_array F) 32000 \<union> region vm 4000" using slot_byte(2) slot_12 h(5) by blast
  with t(2) have out: "same_but (region (blink_array F) 32000 \<union> region vm 4000) m m'" by (rule same_but_mono)
  have "slots_ok F vm m' is"
  proof (rule slots_ok_kept [OF i(1) out])
    fix i :: nat assume i: "i < 2000"
    show "ld16 m' (slot F i) = ld16 m (slot F i)"
    proof (cases "i \<in> set is")
      case True
      with t(1) have "item_at m' (slot F i) = tick (item_at m (slot F i))" by simp
      then show ?thesis using location_item tick_location by metis
    next
      case False
      then have "region (slot F i) 16 \<inter> ?X = {}"
        using slots_apart [OF i] slot_12 slot_far(1) [OF h(1) i] h(5) by fastforce
      then show ?thesis by (intro item_at_rd(3) same_but_rd [OF t(2)]) auto
    qed
  next
    fix i :: nat assume i: "i \<in> set is"
    then have "region (slot F i + NEXT) 4 \<inter> ?X = {}"
      using next_far [of i _ F] next_region(2) [of "slot F i"] slot_far(1) [OF h(1), of i] h(5) by blast
    then show "ld32 m' (slot F i + NEXT) = ld32 m (slot F i + NEXT)" by (intro ld32_rd same_but_rd [OF t(2)]) auto
  qed
  then show ?thesis using m' i(2,3) out by (auto simp: blinking_def ticked_def)
qed

section \<open>Adding an item\<close>

definition added :: "mp1_blink_struct \<Rightarrow> mp1_blink_struct" where
  "added e = e\<lparr>countdown := on_length e, status := 1\<rparr>"

text \<open>The stack is apart from the device's memory.\<close>

definition stack_at :: "fish_symbols \<Rightarrow> u32 \<Rightarrow> u32 \<Rightarrow> bool" where
  "stack_at F vm tmp \<longleftrightarrow> apart tmp 16 (blink_array F) 32000 \<and> apart tmp 16 vm 4000 \<and> apart tmp 16 (mp1_list_head F) 4
     \<and> apart tmp 16 (vmem_base_addr F) 4"

lemma stack_atD:
  assumes "stack_at F vm tmp"
  shows "region tmp 16 \<inter> (region (blink_array F) 32000 \<union> region vm 4000 \<union> region (mp1_list_head F) 4 \<union> region (vmem_base_addr F) 4) = {}"
  using assms unfolding stack_at_def by (metis Int_Un_distrib Un_empty apart_region)

lemma malloc_finds:
  assumes "slots_ok F vm m is" "length is < 2000"
  obtains i where "i < 2000" "i \<notin> set is" "mp1_malloc F m = slot F i"
proof -
  note h = slots_okD [OF assms(1)]
  let ?P = "\<lambda>i. ld16 m (blink_array F + STRUCT_SIZE * of_nat i + LOCATION) = 0"
  have P: "?P i \<longleftrightarrow> ld16 m (slot F i) = 0" for i by (simp add: slot_def blink_offsets)
  have "card (set is) < card {..<2000::nat}" using assms(2) h(4) by (simp add: distinct_card)
  then obtain j where j: "j < 2000" "j \<notin> set is" by (metis card_mono finite_set lessThan_iff linorder_not_le subsetI)
  then have "find ?P [0..<80 * 25] \<noteq> None" using h(5) by (auto simp: find_None_iff P simp del: upt_rec_numeral)
  then obtain i where i: "find ?P [0..<80 * 25] = Some i" by auto
  then have "i < 2000" "?P i" by (auto simp: find_Some_iff simp del: upt_rec_numeral)
  then show thesis using that [of i] i h(5) by (simp add: P mp1_malloc_def slot_def blink_offsets del: upt_rec_numeral)
qed

lemma malloc_full:
  assumes "slots_ok F vm m is" "length is = 2000"
  shows "mp1_malloc F m = 0"
proof -
  note h = slots_okD [OF assms(1)]
  have "set is \<subseteq> {..<2000}" using h(5) by auto
  moreover have "card (set is) = card {..<2000::nat}" using assms(2) h(4) by (simp add: distinct_card)
  ultimately have "set is = {..<2000}" by (intro card_subset_eq) auto
  then have "ld16 m (slot F i) \<noteq> 0" if "i < 2000" for i using h(5) that by auto
  then have "find (\<lambda>i. ld16 m (blink_array F + STRUCT_SIZE * of_nat i + LOCATION) = 0) [0..<80 * 25] = None"
    by (auto simp: find_None_iff slot_def blink_offsets simp del: upt_rec_numeral)
  then show ?thesis by (simp add: mp1_malloc_def)
qed

text \<open>The copy on the stack, with its countdown and status set.\<close>

definition staged :: "u32 \<Rightarrow> mem \<Rightarrow> u32 \<Rightarrow> mem" where
  "staged tmp m arg = (let m = ece391_memcpy m tmp arg STRUCT_SIZE; m = st16 m (tmp + STATUS) 1
     in st16 m (tmp + COUNTDOWN) (ld16 m (tmp + ON_LENGTH)))"

lemma copy_struct: "region d 16 \<inter> region s 16 = {} \<Longrightarrow> ece391_memcpy m d s STRUCT_SIZE = wr m d (rd m s 16)"
  using fold_copy_eq [of d 16 s m] by (simp add: ece391_memcpy_def STRUCT_SIZE_def)

lemma copied_location: "region d 16 \<inter> region s 16 = {} \<Longrightarrow> ld16 (ece391_memcpy m d s STRUCT_SIZE) d = ld16 m s"
  unfolding copy_struct by (rule item_at_rd(3)) (simp add: rd_wr_same)

lemma staged_item:
  assumes "apart tmp 16 arg 16"
  shows "item_at (staged tmp m arg) tmp = added (item_at m arg)" "same_but (region tmp 16) m (staged tmp m arg)"
proof -
  let ?m = "wr m tmp (rd m arg 16)"
  have m: "staged tmp m arg = st16 (st16 ?m (tmp + STATUS) 1) (tmp + COUNTDOWN) (ld16 (st16 ?m (tmp + STATUS) 1) (tmp + ON_LENGTH))"
    using copy_struct [OF apart_region [OF assms]] by (simp add: staged_def Let_def)
  have "item_at ?m tmp = item_at m arg" by (rule item_at_rd(1)) (simp add: rd_wr_same)
  moreover have "item_at (staged tmp m arg) tmp = added (item_at ?m tmp)"
    by (simp add: m item_at_def added_def blink_offsets field_simps16)
  ultimately show "item_at (staged tmp m arg) tmp = added (item_at m arg)" by simp
  have "region (tmp + 10) 2 \<subseteq> region tmp 16" "region (tmp + 8) 2 \<subseteq> region tmp 16"
    using region_sub [of 10 2 16 tmp] region_sub [of 8 2 16 tmp] by simp_all
  then show "same_but (region tmp 16) m (staged tmp m arg)"
    by (intro same_butI) (simp add: m blink_offsets, subst st16_out st16_out, blast, subst st16_out, blast, simp add: wr_out)
qed

text \<open>Writing a character to the screen.\<close>

lemma poke_shows:
  fixes c :: u8 and l :: u16
  assumes "slots_ok F vm m is" "l < 2000"
  defines "m' \<equiv> mp1_poke F m (push_bit 1 (ucast l)) c"
  shows "slots_ok F vm m' is" "items F m' is = items F m is" "screen_cells m' vm = (screen_cells m vm)[unat l := c]"
    "same_but (region vm 4000) m m'"
proof -
  note h = slots_okD [OF assms(1)] and u = vm_cell(2) [OF assms(2)]
  have m': "m' = m(vm + of_nat (2 * unat l) := c)" unfolding m'_def mp1_poke_def h(2) vm_cell(1) [OF assms(2)] ..
  have "vm + of_nat (2 * unat l) \<in> region vm 4000" using u by (intro in_region) simp_all
  then show out: "same_but (region vm 4000) m m'" by (intro same_butI) (auto simp: m')
  have "rd m' (slot F i) 16 = rd m (slot F i) 16" if "i < 2000" for i
    using slot_far(1) [OF h(1) that] by (intro same_but_rd [OF out]) auto
  note same = item_at_rd [OF this]
  show "slots_ok F vm m' is"
    by (rule slots_ok_kept [OF assms(1) same_but_mono [OF out]]) (use same(2,3) h(5) in auto)
  show "items F m' is = items F m is" using same(1) h(5) by auto
  show "screen_cells m' vm = (screen_cells m vm)[unat l := c]" unfolding m' by (rule cells_poke [OF u])
qed

text \<open>The free slot at \<open>p\<close> filled from the stack and put in front of the list.\<close>

definition queued :: "fish_symbols \<Rightarrow> u32 \<Rightarrow> u32 \<Rightarrow> mem \<Rightarrow> mem" where
  "queued F tmp p m = (let m = ece391_memcpy m p tmp STRUCT_SIZE; m = st32 m (p + NEXT) (ld32 m (mp1_list_head F))
     in st32 m (mp1_list_head F) p)"

lemma add_unfold: "mp1_ioctl_add F tmp m arg =
    (let m1 = ece391_memcpy m tmp arg STRUCT_SIZE; m2 = staged tmp m arg; p = mp1_malloc F m2; m3 = queued F tmp p m2
     in if ld16 m1 (tmp + LOCATION) \<ge> 80 * 25 then (-1, m1)
        else if p = 0 then (-1, m2)
        else (0, mp1_poke F m3 (push_bit 1 (ucast (ld16 m3 (p + LOCATION)))) (m3 (p + ON_CHAR))))"
  by (simp add: mp1_ioctl_add_def staged_def queued_def Let_def)

lemma st32_out: "x \<notin> region a 4 \<Longrightarrow> st32 m a v x = m x"
  by (simp add: st32_def wr_out)

lemma queued_steps:
  fixes m :: mem
  assumes "layout F vm" "i < 2000" "stack_at F vm tmp"
  defines "p \<equiv> slot F i" and "m' \<equiv> queued F tmp (slot F i) m"
  shows "item_at m' p = item_at m tmp" "ld32 m' (p + NEXT) = ld32 m (mp1_list_head F)" "ld32 m' (mp1_list_head F) = p"
    "same_but (region p 16 \<union> region (mp1_list_head F) 4) m m'"
proof -
  note l = layoutD [OF assms(1)] and far = slot_far [OF assms(1,2), folded p_def] and nx = next_region [of p]
  have arr: "region p 16 \<subseteq> region (blink_array F) 32000" using slot_byte(2) [OF _ assms(2)] by (auto simp: p_def)
  define m4 where "m4 = wr m p (rd m tmp 16)"
  define m5 where "m5 = st32 m4 (p + NEXT) (ld32 m4 (mp1_list_head F))"
  have "ece391_memcpy m p tmp STRUCT_SIZE = m4" unfolding m4_def using arr stack_atD [OF assms(3)] by (intro copy_struct) blast
  then have m': "m' = st32 m5 (mp1_list_head F) p" by (simp add: m'_def queued_def Let_def m5_def p_def)
  have s4: "same_but (region p 16) m m4" by (rule same_butI) (simp add: m4_def wr_out)
  have s5: "same_but (region (p + NEXT) 4) m4 m5" by (rule same_butI) (simp add: m5_def st32_out)
  have s6: "same_but (region (mp1_list_head F) 4) m5 m'" by (rule same_butI) (simp add: m' st32_out)
  have "rd m4 p 16 = rd m tmp 16" by (simp add: m4_def rd_wr_same)
  then have "rd m4 p 12 = rd m tmp 12" using take_rd [of 12 m4 p 16] take_rd [of 12 m tmp 16] by simp
  moreover have "rd m5 p 12 = rd m4 p 12" using nx by (intro same_but_rd [OF s5]) auto
  moreover have "rd m' p 12 = rd m5 p 12" using far(2) slot_12 [of p] by (intro same_but_rd [OF s6]) auto
  ultimately show "item_at m' p = item_at m tmp" by (intro item_at_12) simp
  have "rd m4 (mp1_list_head F) 4 = rd m (mp1_list_head F) 4" using far(2) by (intro same_but_rd [OF s4]) auto
  then have "ld32 m4 (mp1_list_head F) = ld32 m (mp1_list_head F)" by (rule ld32_rd)
  then have "ld32 m5 (p + NEXT) = ld32 m (mp1_list_head F)" by (simp add: m5_def ld32_st32)
  moreover have "rd m' (p + NEXT) 4 = rd m5 (p + NEXT) 4" using nx(2) far(2) by (intro same_but_rd [OF s6]) auto
  ultimately show "ld32 m' (p + NEXT) = ld32 m (mp1_list_head F)" using ld32_rd by metis
  show "ld32 m' (mp1_list_head F) = p" by (simp add: m' ld32_st32)
  show "same_but (region p 16 \<union> region (mp1_list_head F) 4) m m'"
    by (rule same_but_trans [OF same_but_mono [OF s4] same_but_trans [OF same_but_mono [OF s5] same_but_mono [OF s6]]])
      (use nx(2) in auto)
qed

lemma queued_slots:
  assumes "slots_ok F vm m is" "i < 2000" "i \<notin> set is" "stack_at F vm tmp" "ld16 m tmp \<noteq> 0" "ld16 m tmp < 2000"
  defines "m' \<equiv> queued F tmp (slot F i) m"
  shows "slots_ok F vm m' (i # is)" "items F m' (i # is) = item_at m tmp # items F m is" "screen_cells m' vm = screen_cells m vm"
    "same_but (region (blink_array F) 32000 \<union> region (mp1_list_head F) 4) m m'"
proof -
  note h = slots_okD [OF assms(1)] and l = layoutD [OF slots_okD(1) [OF assms(1)]]
  note q = queued_steps [OF h(1) assms(2,4), of m, folded m'_def]
  show out: "same_but (region (blink_array F) 32000 \<union> region (mp1_list_head F) 4) m m'"
    using slot_byte(2) [OF _ assms(2)] by (intro same_but_mono [OF q(4)]) auto
  show "screen_cells m' vm = screen_cells m vm" using l by (intro same_but_cells [OF out]) auto
  have "rd m' (slot F j) 16 = rd m (slot F j) 16" if "j < 2000" "j \<noteq> i" for j
    using slots_apart [OF that(1) assms(2) that(2), of F] slot_far(2) [OF h(1) that(1)] by (intro same_but_rd [OF q(4)]) auto
  note same = item_at_rd [OF this]
  have "ld16 m' (slot F i) = ld16 m tmp" using q(1) location_item by metis
  then have loc: "ld16 m' (slot F j) = (if j = i then ld16 m tmp else ld16 m (slot F j))" if "j < 2000" for j
    using same(3) that by simp
  have "set (i # is) = {j. j < 2000 \<and> ld16 m' (slot F j) \<noteq> 0}" "\<forall>j\<in>set (i # is). ld16 m' (slot F j) < 2000"
    using loc assms(2,5,6) h(5,6) by (auto split: if_splits)
  moreover have "rd m' (vmem_base_addr F) 4 = rd m (vmem_base_addr F) 4" using l by (intro same_but_rd [OF out]) auto
  then have "ld32 m' (vmem_base_addr F) = vm" using ld32_rd h(2) by metis
  moreover have "linked F m' p is = linked F m p is" for p using same(2) h(5) assms(3) by (intro linked_cong) auto
  ultimately show "slots_ok F vm m' (i # is)"
    unfolding slots_ok_def using h(1,3,4) assms(3) q(2,3) by simp
  show "items F m' (i # is) = item_at m tmp # items F m is" using q(1) same(1) h(5) assms(3) by auto
qed

lemma add_refuses:
  assumes "apart tmp 16 arg 16" "ld16 m arg \<ge> 2000 \<or> slots_ok F vm m is \<and> length is = 2000 \<and> stack_at F vm tmp"
  shows "\<exists>m'. mp1_ioctl_add F tmp m arg = (-1, m') \<and> same_but (region tmp 16) m m'"
proof -
  note copy = copy_struct [OF apart_region [OF assms(1)], of m] and loc = copied_location [OF apart_region [OF assms(1)], of m]
  note st = staged_item [OF assms(1), of m]
  show ?thesis
  proof (cases "ld16 m arg \<ge> 2000")
    case True
    moreover have "same_but (region tmp 16) m (ece391_memcpy m tmp arg STRUCT_SIZE)" by (rule same_butI) (simp add: copy wr_out)
    ultimately show ?thesis using loc by (simp add: add_unfold Let_def LOCATION_def)
  next
    case False
    then have "slots_ok F vm (staged tmp m arg) is" "length is = 2000"
      using assms(2) slots_ok_elsewhere(1) [OF _ st(2) stack_atD] by auto
    from malloc_full [OF this] show ?thesis using False loc st(2) by (simp add: add_unfold Let_def LOCATION_def)
  qed
qed

lemma add_adds:
  assumes "blinking F vm m es scr" "length es < 2000" "stack_at F vm tmp" "apart tmp 16 arg 16" "ld16 m arg \<noteq> 0" "ld16 m arg < 2000"
  shows "\<exists>m'. mp1_ioctl_add F tmp m arg = (0, m')
    \<and> blinking F vm m' (added (item_at m arg) # es) (scr[unat (ld16 m arg) := on_char (item_at m arg)])
    \<and> same_but (region (blink_array F) 32000 \<union> region (mp1_list_head F) 4 \<union> region vm 4000 \<union> region tmp 16) m m'"
proof -
  obtain "is" where i: "slots_ok F vm m is" "es = items F m is" "scr = screen_cells m vm" using assms(1) by (auto simp: blinking_def)
  let ?m = "staged tmp m arg"
  note loc = copied_location [OF apart_region [OF assms(4)], of m]
  note st = staged_item [OF assms(4), of m] and ok = slots_ok_elsewhere [OF i(1) staged_item(2) [OF assms(4), of m] stack_atD [OF assms(3)]]
  have l: "ld16 ?m tmp = ld16 m arg" using arg_cong [OF st(1), of location] by (simp add: added_def)
  obtain j where j: "j < 2000" "j \<notin> set is" "mp1_malloc F ?m = slot F j" using malloc_finds [OF ok(1)] assms(2) i(2) by auto
  define n where "n = queued F tmp (slot F j) ?m"
  note q = queued_slots [OF ok(1) j(1,2) assms(3), unfolded l, OF assms(5,6), folded n_def]
  have it: "item_at n (slot F j) = added (item_at m arg)" using q(2) st(1) by simp
  have f: "ld16 n (slot F j + LOCATION) = ld16 m arg" "n (slot F j + ON_CHAR) = on_char (item_at m arg)"
    using arg_cong [OF it, of location] arg_cong [OF it, of on_char] by (simp_all add: added_def item_at_def blink_offsets)
  note p = poke_shows [OF q(1) assms(6), of "on_char (item_at m arg)"]
  let ?n = "mp1_poke F n (push_bit 1 (ucast (ld16 m arg))) (on_char (item_at m arg))"
  have "mp1_ioctl_add F tmp m arg = (0, ?n)"
    using loc assms(6) j(3) slot_nonzero [OF slots_okD(1) [OF i(1)] j(1)] f
    by (simp add: add_unfold Let_def n_def [symmetric] LOCATION_def)
  moreover have "blinking F vm ?n (added (item_at m arg) # es) (scr[unat (ld16 m arg) := on_char (item_at m arg)])"
    unfolding blinking_def using p(1-3) q(2,3) ok(2,3) i(2,3) st(1) by (metis (no_types, lifting))
  moreover have "same_but (region (blink_array F) 32000 \<union> region (mp1_list_head F) 4 \<union> region vm 4000 \<union> region tmp 16) m ?n"
    by (rule same_but_trans [OF same_but_mono [OF st(2)] same_but_trans [OF same_but_mono [OF q(4)] same_but_mono [OF p(4)]]]) auto
  ultimately show ?thesis by blast
qed

section \<open>Finding, removing and synchronising\<close>

text \<open>The first item at a location, replaced.\<close>

fun change_first :: "u16 \<Rightarrow> (mp1_blink_struct \<Rightarrow> mp1_blink_struct list) \<Rightarrow> mp1_blink_struct list \<Rightarrow> mp1_blink_struct list" where
  "change_first l f [] = []"
| "change_first l f (e # es) = (if location e = l then f e @ es else e # change_first l f es)"

lemma change_first_split:
  "\<forall>e\<in>set xs. location e \<noteq> l \<Longrightarrow> location e = l \<Longrightarrow> change_first l f (xs @ e # ys) = xs @ f e @ ys"
  by (induction xs) auto

text \<open>Part of the list: from \<open>p\<close> over the slots \<open>is\<close> to \<open>q\<close>.\<close>

fun segment :: "fish_symbols \<Rightarrow> mem \<Rightarrow> u32 \<Rightarrow> nat list \<Rightarrow> u32 \<Rightarrow> bool" where
  "segment F m p [] q \<longleftrightarrow> p = q"
| "segment F m p (i # is) q \<longleftrightarrow> p = slot F i \<and> segment F m (ld32 m (p + NEXT)) is q"

lemma segment_append: "segment F m p (xs @ ys) r \<longleftrightarrow> (\<exists>q. segment F m p xs q \<and> segment F m q ys r)"
  by (induction xs arbitrary: p) auto

lemma linked_segment: "linked F m p is \<longleftrightarrow> segment F m p is 0"
  by (induction "is" arbitrary: p) auto

lemma segment_cong: "(\<And>i. i \<in> set is \<Longrightarrow> ld32 m' (slot F i + NEXT) = ld32 m (slot F i + NEXT)) \<Longrightarrow> segment F m' p is q = segment F m p is q"
  by (induction "is" arbitrary: p) auto

lemma slot_inj: "i < 2000 \<Longrightarrow> j < 2000 \<Longrightarrow> slot F i = slot F j \<longleftrightarrow> i = j"
  using slot_byte(1) [of "slot F i" F i] slot_byte(1) [of "slot F i" F j] by (auto simp: region_def)

lemma find_split:
  assumes "find P xs = Some x"
  obtains ys zs where "xs = ys @ x # zs" "P x" "\<forall>y\<in>set ys. \<not> P y"
  using assms
proof (induction xs arbitrary: thesis)
  case (Cons a xs)
  show ?case
  proof (cases "P a")
    case True
    then show ?thesis using Cons.prems(1) [of "[]" xs] Cons.prems(2) by simp
  next
    case False
    with Cons.prems(2) have "find P xs = Some x" by simp
    then show ?thesis using Cons.IH [OF _ \<open>find P xs = Some x\<close>] Cons.prems(1) [of "a # _"] False by (metis append_Cons set_ConsD)
  qed
qed simp

text \<open>The loop finds the first slot with the location, and answers 0 when there is none.\<close>

lemma find_loop_finds:
  assumes "layout F vm" "segment F m p xs q" "\<forall>i\<in>set xs. i < 2000 \<and> ld16 m (slot F i) \<noteq> l"
  shows "find_loop m l p = find_loop m l q"
  using assms(2,3)
proof (induction xs arbitrary: p)
  case (Cons i xs)
  then have p: "p = slot F i" "p \<noteq> 0" "ld16 m p \<noteq> l" using slot_nonzero [OF assms(1)] by auto
  have "find_loop m l p = find_loop m l (ld32 m (p + NEXT))" using p by (subst find_loop.simps) (simp add: LOCATION_def)
  then show ?case using Cons p(1) by auto
qed simp

lemma find_helper_finds:
  assumes "slots_ok F vm m is"
  shows "mp1_find_helper F m arg = Some (case find (\<lambda>i. ld16 m (slot F i) = ucast arg) is of Some i \<Rightarrow> slot F i | None \<Rightarrow> 0)"
proof -
  note h = slots_okD [OF assms(1)]
  let ?l = "ucast arg :: u16" and ?p = "ld32 m (mp1_list_head F)"
  show ?thesis
  proof (cases "find (\<lambda>i. ld16 m (slot F i) = ?l) is")
    case None
    then have "find_loop m ?l ?p = find_loop m ?l 0"
      using find_loop_finds [OF h(1), of m ?p "is" 0 ?l] h(3,5) by (auto simp: linked_segment find_None_iff)
    then show ?thesis using None by (simp add: mp1_find_helper_def find_loop.simps)
  next
    case (Some i)
    then obtain xs ys where s: "is = xs @ i # ys" "ld16 m (slot F i) = ?l" "\<forall>j\<in>set xs. ld16 m (slot F j) \<noteq> ?l"
      by (rule find_split)
    then have "segment F m ?p xs (slot F i)" using h(3) by (auto simp: linked_segment segment_append)
    moreover have "\<forall>j\<in>set xs. j < 2000 \<and> ld16 m (slot F j) \<noteq> ?l" using s(1,3) h(5) by fastforce
    ultimately have "find_loop m ?l ?p = find_loop m ?l (slot F i)" by (rule find_loop_finds [OF h(1)])
    moreover have "find_loop m ?l (slot F i) = Some (slot F i)"
      using s(2) slot_nonzero [OF h(1)] h(5) [of i] s(1) by (subst find_loop.simps) (simp add: LOCATION_def)
    ultimately show ?thesis using Some by (simp add: mp1_find_helper_def)
  qed
qed

text \<open>The pointer that leads to the slot after \<open>xs\<close>.\<close>

definition pointer_to :: "fish_symbols \<Rightarrow> nat list \<Rightarrow> u32" where
  "pointer_to F xs = (if xs = [] then mp1_list_head F else slot F (last xs) + NEXT)"

lemma find_prev_finds:
  assumes "segment F m (ld32 m a) xs (slot F i)" "i \<notin> set xs" "i < 2000" "\<forall>j\<in>set xs. j < 2000"
  shows "find_prev m (slot F i) a = Some (if xs = [] then a else slot F (last xs) + NEXT)"
  using assms
proof (induction xs arbitrary: a)
  case Nil
  then show ?case by (simp add: find_prev.simps)
next
  case (Cons j xs)
  then have j: "ld32 m a = slot F j" "slot F j \<noteq> slot F i" using slot_inj [of j i F] by auto
  then have "find_prev m (slot F i) a = find_prev m (slot F i) (slot F j + NEXT)" by (subst find_prev.simps) simp
  then show ?case using Cons j(1) by simp
qed

text \<open>The list without the slot \<open>i\<close>, once that pointer has been redirected.\<close>

lemma unlinked:
  assumes "slots_ok F vm m (xs @ i # ys)"
  defines "m1 \<equiv> st32 m (pointer_to F xs) (ld32 m (slot F i + NEXT))"
  shows "segment F m1 (ld32 m1 (mp1_list_head F)) (xs @ ys) 0"
    "same_but (region (pointer_to F xs) 4) m m1"
proof -
  note h = slots_okD [OF assms(1)]
  have b: "j < 2000" if "j \<in> set (xs @ i # ys)" for j using h(5) that by blast
  show out: "same_but (region (pointer_to F xs) 4) m m1" by (rule same_butI) (simp add: m1_def st32_out)
  have p: "segment F m (ld32 m (mp1_list_head F)) xs (slot F i)" "segment F m (ld32 m (slot F i + NEXT)) ys 0"
    using h(3) by (auto simp: linked_segment segment_append)
  have ap: "region (slot F j + NEXT) 4 \<inter> region (slot F k + NEXT) 4 = {}" if "j < 2000" "k < 2000" "j \<noteq> k" for j k
    using slots_apart [OF that, of F] next_region(2) by blast
  show "segment F m1 (ld32 m1 (mp1_list_head F)) (xs @ ys) 0"
  proof (cases xs rule: rev_cases)
    case Nil
    then have a: "pointer_to F xs = mp1_list_head F" by (simp add: pointer_to_def)
    have "ld32 m1 (slot F j + NEXT) = ld32 m (slot F j + NEXT)" if "j \<in> set ys" for j
      using slot_far(2) [OF h(1) b] next_region(2) [of "slot F j"] that by (intro ld32_rd same_but_rd [OF out [unfolded a]]) auto
    moreover have "ld32 m1 (mp1_list_head F) = ld32 m (slot F i + NEXT)" by (simp add: m1_def a ld32_st32)
    ultimately show ?thesis using p(2) Nil segment_cong [of ys m1 F m] by simp
  next
    case (snoc zs k)
    then have a: "pointer_to F xs = slot F k + NEXT" by (simp add: pointer_to_def)
    have k: "k < 2000" "k \<notin> set zs" "k \<notin> set ys" "k \<noteq> i" using b h(4) snoc by auto
    have keep: "ld32 m1 (slot F j + NEXT) = ld32 m (slot F j + NEXT)" if "j \<in> set zs \<union> set ys" for j
      using ap [of j k] b [of j] that k snoc by (intro ld32_rd same_but_rd [OF out [unfolded a]]) auto
    have "region (mp1_list_head F) 4 \<inter> region (slot F k + NEXT) 4 = {}" using slot_far(2) [OF h(1) k(1)] next_region(2) by blast
    then have hd: "ld32 m1 (mp1_list_head F) = ld32 m (mp1_list_head F)" by (intro ld32_rd same_but_rd [OF out [unfolded a]]) auto
    have "ld32 m1 (slot F k + NEXT) = ld32 m (slot F i + NEXT)" by (simp add: m1_def a ld32_st32)
    then show ?thesis using p snoc hd keep segment_cong [of zs m1 F m] segment_cong [of ys m1 F m] by (auto simp: segment_append)
  qed
qed

text \<open>Freeing a slot clears it and nothing else.\<close>

lemma free_clears:
  assumes "i < 2000"
  shows "same_but (region (slot F i) 16) m (mp1_free m (slot F i))" "ld16 (mp1_free m (slot F i)) (slot F i) = 0"
    "j < 2000 \<Longrightarrow> j \<noteq> i \<Longrightarrow> rd (mp1_free m (slot F i)) (slot F j) 16 = rd m (slot F j) 16"
proof -
  have f: "mp1_free m (slot F i) = wr m (slot F i) (replicate 16 0)"
    by (simp add: mp1_free_def ece391_memset_eq STRUCT_SIZE_def)
  then show out: "same_but (region (slot F i) 16) m (mp1_free m (slot F i))" by (intro same_butI) (simp add: wr_out)
  have "rd (mp1_free m (slot F i)) (slot F i) 16 = replicate 16 0" by (simp add: f rd_wr_same)
  then have "mp1_free m (slot F i) (slot F i + of_nat k) = 0" if "k < 16" for k
    using rd_nth [of k 16 "mp1_free m (slot F i)" "slot F i"] that by simp
  from this [of 0] this [of 1] show "ld16 (mp1_free m (slot F i)) (slot F i) = 0" by (simp add: ld16_def)
  show "rd (mp1_free m (slot F i)) (slot F j) 16 = rd m (slot F j) 16" if "j < 2000" "j \<noteq> i"
    using slots_apart [OF that(1) assms that(2), of F] by (intro same_but_rd [OF out]) auto
qed

lemma pointer_region:
  assumes "layout F vm" "\<forall>j\<in>set xs. j < 2000"
  shows "region (pointer_to F xs) 4 \<subseteq> region (blink_array F) 32000 \<union> region (mp1_list_head F) 4"
    "j < 2000 \<Longrightarrow> region (slot F j) 12 \<inter> region (pointer_to F xs) 4 = {}"
proof -
  show "region (pointer_to F xs) 4 \<subseteq> region (blink_array F) 32000 \<union> region (mp1_list_head F) 4"
  proof (cases "xs = []")
    case False
    then have "last xs < 2000" using assms(2) by simp
    then have "region (slot F (last xs)) 16 \<subseteq> region (blink_array F) 32000" using slot_byte(2) by blast
    then show ?thesis using next_region(2) [of "slot F (last xs)"] False by (auto simp: pointer_to_def)
  qed (simp add: pointer_to_def)
  show "region (slot F j) 12 \<inter> region (pointer_to F xs) 4 = {}" if "j < 2000"
    using next_far [of "last xs" j F] assms(2) that last_in_set [of xs] slot_far(2) [OF assms(1) that] slot_12 [of "slot F j"]
    by (auto simp: pointer_to_def)
qed

lemma removes:
  assumes "slots_ok F vm m (xs @ i # ys)"
  defines "m1 \<equiv> st32 m (pointer_to F xs) (ld32 m (slot F i + NEXT))"
  defines "m2 \<equiv> mp1_free m1 (slot F i)"
  shows "slots_ok F vm m2 (xs @ ys)" "items F m2 (xs @ ys) = items F m xs @ items F m ys" "screen_cells m2 vm = screen_cells m vm"
    "same_but (region (blink_array F) 32000 \<union> region (mp1_list_head F) 4) m m2"
proof -
  note h = slots_okD [OF assms(1)] and l = layoutD [OF slots_okD(1) [OF assms(1)]]
  note u = unlinked [OF assms(1), folded m1_def]
  have i: "i < 2000" "i \<notin> set xs" "i \<notin> set ys" using h(4,5) by auto
  have b: "\<forall>j\<in>set xs. j < 2000" "\<forall>j\<in>set ys. j < 2000" using h(5) by fastforce+
  note f = free_clears [OF i(1), where m = m1 and F = F, folded m2_def] and ptr = pointer_region [OF h(1) b(1)]
  show out: "same_but (region (blink_array F) 32000 \<union> region (mp1_list_head F) 4) m m2"
    by (rule same_but_trans [OF same_but_mono [OF u(2) ptr(1)] same_but_mono [OF f(1)]]) (use slot_byte(2) i(1) in auto)
  show "screen_cells m2 vm = screen_cells m vm" using l by (intro same_but_cells [OF out]) auto
  have it: "item_at m2 (slot F j) = item_at m (slot F j)" if "j < 2000" "j \<noteq> i" for j
  proof -
    have "rd m1 (slot F j) 12 = rd m (slot F j) 12" using ptr(2) [OF that(1)] by (intro same_but_rd [OF u(2)]) auto
    then show ?thesis using f(3) [OF that] item_at_rd(1) item_at_12 by metis
  qed
  then show "items F m2 (xs @ ys) = items F m xs @ items F m ys" using b i by auto
  have loc: "ld16 m2 (slot F j) = (if j = i then 0 else ld16 m (slot F j))" if "j < 2000" for j
    using f(2) it [OF that] location_item by metis
  then have "j \<in> set (xs @ ys) \<longleftrightarrow> j < 2000 \<and> ld16 m2 (slot F j) \<noteq> 0" for j using h(5) [of j] i by (cases "j = i") auto
  moreover have "\<forall>j\<in>set (xs @ ys). ld16 m2 (slot F j) < 2000" using loc h(6) b i by (auto split: if_splits)
  moreover have "rd m2 (vmem_base_addr F) 4 = rd m (vmem_base_addr F) 4" using l by (intro same_but_rd [OF out]) auto
  then have "ld32 m2 (vmem_base_addr F) = vm" using ld32_rd h(2) by metis
  moreover have "ld32 m2 (slot F j + NEXT) = ld32 m1 (slot F j + NEXT)" if "j \<in> set (xs @ ys)" for j
    using item_at_rd(2) [OF f(3)] b i that by auto
  then have "segment F m2 p (xs @ ys) 0 = segment F m1 p (xs @ ys) 0" for p by (rule segment_cong)
  moreover have "rd m2 (mp1_list_head F) 4 = rd m1 (mp1_list_head F) 4" using slot_far(2) [OF h(1) i(1)] by (intro same_but_rd [OF f(1)]) auto
  then have "ld32 m2 (mp1_list_head F) = ld32 m1 (mp1_list_head F)" by (rule ld32_rd)
  ultimately show "slots_ok F vm m2 (xs @ ys)" using h(1,4) u(1) unfolding slots_ok_def linked_segment by (simp add: set_eq_iff)
qed

text \<open>The search of the list is the search of the items.\<close>

lemma find_items: "find (\<lambda>e. location e = l) (items F m is) = map_option (\<lambda>i. item_at m (slot F i)) (find (\<lambda>i. ld16 m (slot F i) = l) is)"
  by (induction "is") auto

lemma split_items:
  assumes "find (\<lambda>i. ld16 m (slot F i) = l) is = Some i"
  obtains xs ys where "is = xs @ i # ys" "\<And>f. change_first l f (items F m is) = items F m xs @ f (item_at m (slot F i)) @ items F m ys"
proof -
  obtain xs ys where s: "is = xs @ i # ys" "ld16 m (slot F i) = l" "\<forall>j\<in>set xs. ld16 m (slot F j) \<noteq> l"
    using find_split [OF assms] .
  then have "change_first l f (items F m is) = items F m xs @ f (item_at m (slot F i)) @ items F m ys" for f
    using change_first_split [of "items F m xs" l "item_at m (slot F i)" f "items F m ys"] by simp
  with s(1) show thesis by (rule that)
qed

lemma remove_removes:
  assumes "blinking F vm m es scr"
  shows "if find (\<lambda>e. location e = ucast arg) es = None then mp1_ioctl_remove F m arg = Some (-1, m)
    else \<exists>m'. mp1_ioctl_remove F m arg = Some (0, m') \<and> blinking F vm m' (change_first (ucast arg) (\<lambda>_. []) es) scr
      \<and> same_but (region (blink_array F) 32000 \<union> region (mp1_list_head F) 4) m m'"
proof -
  obtain "is" where i: "slots_ok F vm m is" "es = items F m is" "scr = screen_cells m vm" using assms by (auto simp: blinking_def)
  note h = slots_okD [OF i(1)] and find = find_helper_finds [OF i(1), of arg]
  show ?thesis
  proof (cases "find (\<lambda>i. ld16 m (slot F i) = ucast arg) is")
    case None
    then show ?thesis using find i(2) by (simp add: find_items mp1_ioctl_remove_def)
  next
    case (Some k)
    obtain xs ys where s: "is = xs @ k # ys" "\<And>f. change_first (ucast arg) f (items F m is) = items F m xs @ f (item_at m (slot F k)) @ items F m ys"
      using split_items [OF Some] by metis
    have b: "k < 2000" "k \<notin> set xs" "\<forall>j\<in>set xs. j < 2000" using h(4) h(5) s(1) by fastforce+
    have "segment F m (ld32 m (mp1_list_head F)) xs (slot F k)" using h(3) s(1) by (auto simp: linked_segment segment_append)
    then have prev: "find_prev m (slot F k) (mp1_list_head F) = Some (pointer_to F xs)"
      using find_prev_finds b by (simp add: pointer_to_def)
    note r = removes [OF i(1) [unfolded s(1)]]
    have "mp1_ioctl_remove F m arg = Some (0, mp1_free (st32 m (pointer_to F xs) (ld32 m (slot F k + NEXT))) (slot F k))"
      using find Some prev slot_nonzero [OF h(1) b(1)] by (simp add: mp1_ioctl_remove_def)
    moreover have "find (\<lambda>e. location e = ucast arg) es \<noteq> None" using Some i(2) by (simp add: find_items)
    ultimately show ?thesis using r i(2,3) s(2) [of "\<lambda>_. []"] by (auto simp: blinking_def intro!: exI [of _ "xs @ ys"])
  qed
qed

definition synced :: "mp1_blink_struct \<Rightarrow> mp1_blink_struct \<Rightarrow> mp1_blink_struct" where
  "synced a e = e\<lparr>on_length := on_length a, off_length := off_length a, countdown := countdown a, status := status a\<rparr>"

text \<open>The four copies of \<open>sync\<close>.\<close>

definition copy_lengths :: "mem \<Rightarrow> u32 \<Rightarrow> u32 \<Rightarrow> mem" where
  "copy_lengths m esi edi =
     (let m = st16 m (edi + ON_LENGTH) (ld16 m (esi + ON_LENGTH));
          m = st16 m (edi + OFF_LENGTH) (ld16 m (esi + OFF_LENGTH));
          m = st16 m (edi + COUNTDOWN) (ld16 m (esi + COUNTDOWN))
      in st16 m (edi + STATUS) (ld16 m (esi + STATUS)))"

lemma copy_lengths_item:
  assumes "i < 2000" "j < 2000"
  shows "item_at (copy_lengths m (slot F i) (slot F j)) (slot F j) = synced (item_at m (slot F i)) (item_at m (slot F j))"
    "same_but (region (slot F j) 12) m (copy_lengths m (slot F i) (slot F j))"
proof -
  let ?p = "slot F j" and ?q = "slot F i"
  have sub: "region (?p + 4) 2 \<subseteq> region ?p 12" "region (?p + 6) 2 \<subseteq> region ?p 12" "region (?p + 8) 2 \<subseteq> region ?p 12"
      "region (?p + 10) 2 \<subseteq> region ?p 12"
    using region_sub [of 4 2 12 ?p] region_sub [of 6 2 12 ?p] region_sub [of 8 2 12 ?p] region_sub [of 10 2 12 ?p] by simp_all
  have st: "st16 n (?p + ON_LENGTH) v x = n x" "st16 n (?p + OFF_LENGTH) v x = n x" "st16 n (?p + COUNTDOWN) v x = n x"
      "st16 n (?p + STATUS) v x = n x" if "x \<notin> region ?p 12" for n v x
    using that sub by (auto simp: blink_offsets intro!: st16_out)
  then show "same_but (region ?p 12) m (copy_lengths m ?q ?p)" by (intro same_butI) (simp add: copy_lengths_def Let_def)
  show "item_at (copy_lengths m ?q ?p) ?p = synced (item_at m ?q) (item_at m ?p)"
  proof (cases "i = j")
    case True
    then show ?thesis by (simp add: copy_lengths_def Let_def item_at_def synced_def blink_offsets field_simps16)
  next
    case False
    have q: "ld16 n (?q + OFF_LENGTH) = ld16 m (?q + OFF_LENGTH)" "ld16 n (?q + COUNTDOWN) = ld16 m (?q + COUNTDOWN)"
        "ld16 n (?q + STATUS) = ld16 m (?q + STATUS)" if "same_but (region ?p 12) m n" for n
    proof -
      have "rd n ?q 16 = rd m ?q 16"
        using slots_apart [OF assms False, of F] slot_12 [of ?p] by (intro same_but_rd [OF that]) auto
      from item_at_rd(1) [OF this] show "ld16 n (?q + OFF_LENGTH) = ld16 m (?q + OFF_LENGTH)"
        "ld16 n (?q + COUNTDOWN) = ld16 m (?q + COUNTDOWN)" "ld16 n (?q + STATUS) = ld16 m (?q + STATUS)" by (simp_all add: item_at_def)
    qed
    let ?m1 = "st16 m (?p + ON_LENGTH) (ld16 m (?q + ON_LENGTH))"
    let ?m2 = "st16 ?m1 (?p + OFF_LENGTH) (ld16 m (?q + OFF_LENGTH))"
    let ?m3 = "st16 ?m2 (?p + COUNTDOWN) (ld16 m (?q + COUNTDOWN))"
    have "same_but (region ?p 12) m ?m1" "same_but (region ?p 12) m ?m2" "same_but (region ?p 12) m ?m3"
      by (intro same_butI; simp add: st)+
    then have "copy_lengths m ?q ?p = st16 ?m3 (?p + STATUS) (ld16 m (?q + STATUS))" by (simp add: copy_lengths_def Let_def q)
    then show ?thesis by (simp add: item_at_def synced_def blink_offsets field_simps16)
  qed
qed

lemma bit_not_negative: "\<not> sint (1 AND (b :: u8)) < 0"
  by (cases "odd b") (simp_all add: one_and_eq mod_2_eq_odd)

lemma copy_lengths_slots:
  assumes "slots_ok F vm m (xs @ k # ys)" "a < 2000"
  defines "m' \<equiv> copy_lengths m (slot F a) (slot F k)"
  shows "slots_ok F vm m' (xs @ k # ys)" "items F m' (xs @ k # ys) = items F m xs @ synced (item_at m (slot F a)) (item_at m (slot F k)) # items F m ys"
    "screen_cells m' vm = screen_cells m vm" "same_but (region (blink_array F) 32000) m m'"
proof -
  note h = slots_okD [OF assms(1)]
  have k: "k < 2000" "k \<notin> set xs" "k \<notin> set ys" using h(4) h(5) by auto
  have b: "\<forall>j\<in>set xs. j < 2000" "\<forall>j\<in>set ys. j < 2000" using h(5) by fastforce+
  note c = copy_lengths_item [OF assms(2) k(1), where F = F and m = m, folded m'_def]
  show out: "same_but (region (blink_array F) 32000) m m'" using slot_byte(2) [OF _ k(1)] slot_12 by (intro same_but_mono [OF c(2)]) blast
  show "screen_cells m' vm = screen_cells m vm" using layoutD(3) [OF h(1)] by (intro same_but_cells [OF out]) auto
  have "rd m' (slot F j) 16 = rd m (slot F j) 16" if "j < 2000" "j \<noteq> k" for j
    using slots_apart [OF that(1) k(1) that(2), of F] slot_12 [of "slot F k"] by (intro same_but_rd [OF c(2)]) auto
  note same = item_at_rd [OF this]
  show "items F m' (xs @ k # ys) = items F m xs @ synced (item_at m (slot F a)) (item_at m (slot F k)) # items F m ys"
    using same(1) c(1) b k by auto
  have "location (item_at m' (slot F k)) = location (item_at m (slot F k))" unfolding c(1) by (simp add: synced_def)
  then have "ld16 m' (slot F j) = ld16 m (slot F j)" if "j < 2000" for j using same(3) that by (cases "j = k") simp_all
  moreover have "ld32 m' (slot F k + NEXT) = ld32 m (slot F k + NEXT)"
    using next_region(1) [of "slot F k"] by (intro ld32_rd same_but_rd [OF c(2)]) auto
  then have "ld32 m' (slot F j + NEXT) = ld32 m (slot F j + NEXT)" if "j \<in> set (xs @ k # ys)" for j
    using same(2) b that by (cases "j = k") auto
  ultimately show "slots_ok F vm m' (xs @ k # ys)" by (intro slots_ok_kept [OF assms(1)] same_but_mono [OF out]) auto
qed

lemma low_half: "ucast (arg AND 0xFFFF :: u32) = (ucast arg :: u16)"
proof -
  have "arg AND 0xFFFF = take_bit 16 arg" by (simp add: take_bit_eq_mask mask_eq_exp_minus_1)
  then show ?thesis by (simp, intro bit_word_eqI) (auto simp: bit_simps)
qed

lemma sync_copies:
  assumes "blinking F vm m es scr" "find (\<lambda>e. location e = ucast (drop_bit 16 arg)) es = Some a" "find (\<lambda>e. location e = ucast arg) es = Some e"
  shows "\<exists>m'. mp1_ioctl_sync F m arg = Some (0, m')
    \<and> blinking F vm m' (change_first (ucast arg) (\<lambda>e. [synced a e]) es) (scr[unat (location e) := off_char e])
    \<and> same_but (region (blink_array F) 32000 \<union> region vm 4000) m m'"
proof -
  obtain "is" where i: "slots_ok F vm m is" "es = items F m is" "scr = screen_cells m vm" using assms(1) by (auto simp: blinking_def)
  note h = slots_okD [OF i(1)]
  let ?s = "ucast (drop_bit 16 arg) :: u16" and ?d = "ucast arg :: u16"
  obtain j k where f: "find (\<lambda>i. ld16 m (slot F i) = ?s) is = Some j" "find (\<lambda>i. ld16 m (slot F i) = ?d) is = Some k"
      "a = item_at m (slot F j)" "e = item_at m (slot F k)"
    using assms(2,3) i(2) by (auto simp: find_items)
  obtain xs ys where s: "is = xs @ k # ys" "\<And>f. change_first ?d f (items F m is) = items F m xs @ f (item_at m (slot F k)) @ items F m ys"
    using split_items [OF f(2)] by metis
  have mem: "j \<in> set is" "k \<in> set is" using f(1,2) by (auto simp: find_Some_iff)
  then have b: "j < 2000" "k < 2000" "ld16 m (slot F k) < 2000" using h(5,6) by auto
  define n where "n = copy_lengths m (slot F j) (slot F k)"
  note c = copy_lengths_slots [OF i(1) [unfolded s(1)] b(1), folded n_def]
  have "item_at n (slot F k) = synced a e" using copy_lengths_item(1) [OF b(1,2), where F = F and m = m] f(3,4) by (simp add: n_def)
  from arg_cong [OF this, of location] arg_cong [OF this, of off_char]
  have v: "ld16 n (slot F k + LOCATION) = location e" "n (slot F k + OFF_CHAR) = off_char e"
    by (simp_all add: synced_def item_at_def blink_offsets)
  let ?n = "mp1_poke F n (push_bit 1 (ucast (location e))) (off_char e)"
  note p = poke_shows [OF c(1), of "location e" "off_char e", unfolded f(4) location_item, OF b(3), folded location_item, folded f(4)]
  have "mp1_ioctl_sync F m arg = Some (0, ?n)"
    using find_helper_finds [OF i(1), of "drop_bit 16 arg"] find_helper_finds [OF i(1), of "arg AND 0xFFFF", unfolded low_half]
      f(1,2) slot_nonzero [OF h(1) b(1)] slot_nonzero [OF h(1) b(2)] v
    by (simp add: mp1_ioctl_sync_def Let_def n_def copy_lengths_def bit_not_negative)
  moreover have "same_but (region (blink_array F) 32000 \<union> region vm 4000) m ?n"
    by (rule same_but_trans [OF same_but_mono [OF c(4)] same_but_mono [OF p(4)]]) auto
  moreover have "blinking F vm ?n (change_first ?d (\<lambda>e. [synced a e]) es) (scr[unat (location e) := off_char e])"
    unfolding blinking_def using p(1-3) c(2,3) i(2,3) s(2) [of "\<lambda>e. [synced a e]"] f(3) by (auto intro!: exI [of _ "xs @ k # ys"])
  ultimately show ?thesis by blast
qed

lemma sync_refuses:
  assumes "blinking F vm m es scr" "find (\<lambda>e. location e = ucast (drop_bit 16 arg)) es = None \<or> find (\<lambda>e. location e = ucast arg) es = None"
  shows "mp1_ioctl_sync F m arg = Some (-1, m)"
proof -
  obtain "is" where i: "slots_ok F vm m is" "es = items F m is" using assms(1) by (auto simp: blinking_def)
  show ?thesis
    using assms(2) i(2) find_helper_finds [OF i(1), of "drop_bit 16 arg"] find_helper_finds [OF i(1), of "arg AND 0xFFFF", unfolded low_half]
    by (auto simp: mp1_ioctl_sync_def find_items split: option.splits)
qed

lemma half_again: "ucast (ucast (l :: u16) :: u32) = l"
  by (rule bit_word_eqI) (auto simp: bit_simps)

lemma find_copies:
  assumes "blinking F vm m es scr" "stack_at F vm arg" "stack_at F vm tmp" "apart tmp 16 arg 16" "find (\<lambda>e. location e = ld16 m arg) es = Some e"
  shows "\<exists>m'. mp1_ioctl_find F tmp m arg = Some (0, m') \<and> item_at m' arg = e \<and> blinking F vm m' es scr"
proof -
  obtain "is" where i: "slots_ok F vm m is" "es = items F m is" "scr = screen_cells m vm" using assms(1) by (auto simp: blinking_def)
  let ?m = "ece391_memcpy m tmp arg 2"
  have r2: "region tmp 2 \<subseteq> region tmp 16" "region arg 2 \<subseteq> region arg 16" by (auto simp: region_def)
  then have "region tmp 2 \<inter> region arg 2 = {}" using apart_region [OF assms(4)] by blast
  then have m: "?m = wr m tmp (rd m arg 2)" using fold_copy_eq [of tmp 2 arg m] by (simp add: ece391_memcpy_def)
  then have out: "same_but (region tmp 16) m ?m" using r2(1) wr_out [of _ tmp "rd m arg 2"] by (intro same_butI) auto
  have "rd ?m tmp 2 = rd m arg 2" by (simp add: m rd_wr_same)
  then have l: "ld16 ?m tmp = ld16 m arg" by (simp add: rd_2 ld16_def)
  note ok = slots_ok_elsewhere [OF i(1) out stack_atD [OF assms(3)]]
  obtain k where k: "find (\<lambda>i. ld16 ?m (slot F i) = ld16 m arg) is = Some k" "e = item_at ?m (slot F k)"
    using assms(5) unfolding i(2) ok(2) [symmetric] find_items by auto
  then have b: "k < 2000" using slots_okD(5) [OF ok(1), of k] by (auto simp: find_Some_iff)
  let ?n = "ece391_memcpy ?m arg (slot F k) STRUCT_SIZE"
  have "region arg 16 \<inter> region (slot F k) 16 = {}" using stack_atD [OF assms(2)] slot_byte(2) [OF _ b] by blast
  then have n: "?n = wr ?m arg (rd ?m (slot F k) 16)" by (rule copy_struct)
  have "mp1_ioctl_find F tmp m arg = Some (0, ?n)"
    using find_helper_finds [OF ok(1), of "ucast (ld16 m arg)", unfolded half_again] k(1) l slot_nonzero [OF slots_okD(1) [OF i(1)] b]
    by (simp add: mp1_ioctl_find_def Let_def)
  moreover have "item_at ?n arg = e" unfolding n k(2) by (rule item_at_rd(1)) (simp add: rd_wr_same)
  moreover have "same_but (region arg 16) ?m ?n" by (rule same_butI) (simp add: n wr_out)
  from slots_ok_elsewhere [OF ok(1) this stack_atD [OF assms(2)]] have "blinking F vm ?n es scr"
    unfolding blinking_def using ok(2,3) i(2,3) by auto
  ultimately show ?thesis by blast
qed

section \<open>Many ticks\<close>

text \<open>A step that implements an abstract one can be repeated.\<close>

locale ticker =
  fixes holds :: "'m \<Rightarrow> 'a \<Rightarrow> bool"
    and step :: "'m \<Rightarrow> 'm option"
    and spec :: "'a \<Rightarrow> 'a"
  assumes step_refines: "holds m a \<Longrightarrow> \<exists>m'. step m = Some m' \<and> holds m' (spec a)"
begin

lemma steps_refine: "holds m a \<Longrightarrow> \<exists>m'. ((\<lambda>x. Option.bind x step) ^^ n) (Some m) = Some m' \<and> holds m' ((spec ^^ n) a)"
proof (induction n)
  case (Suc n)
  then obtain m' where "((\<lambda>x. Option.bind x step) ^^ n) (Some m) = Some m'" "holds m' ((spec ^^ n) a)" by blast
  then show ?case using step_refines [of m' "(spec ^^ n) a"] by auto
qed simp

end

text \<open>The abstract device: the items and the screen.\<close>

definition device_tick :: "mp1_blink_struct list \<times> u8 list \<Rightarrow> mp1_blink_struct list \<times> u8 list" where
  "device_tick = (\<lambda>(es, scr). (map tick es, fold show_tick es scr))"

interpretation tasklet: ticker "\<lambda>m (es, scr). blinking F vm m es scr" "mp1_rtc_tasklet F" device_tick for F vm
proof
  fix m :: mem and a :: "mp1_blink_struct list \<times> u8 list" assume "case a of (es, scr) \<Rightarrow> blinking F vm m es scr"
  then show "\<exists>m'. mp1_rtc_tasklet F m = Some m' \<and> (case device_tick a of (es, scr) \<Rightarrow> blinking F vm m' es scr)"
    using tasklet_ticks by (auto simp: device_tick_def split: prod.splits) blast
qed

text \<open>The character that an item shows, and a screen that shows it for every item.\<close>

definition face :: "mp1_blink_struct \<Rightarrow> u8" where
  "face e = (if status e AND 1 \<noteq> 0 then on_char e else off_char e)"

definition showing :: "mp1_blink_struct list \<Rightarrow> u8 list \<Rightarrow> bool" where
  "showing es scr \<longleftrightarrow> (\<forall>e\<in>set es. scr ! unat (location e) = face e)"

lemma odd_flip: "((v :: u16) XOR 1) AND 1 \<noteq> 0 \<longleftrightarrow> v AND 1 = 0"
  by (simp add: and_one_eq mod_2_eq_odd even_xor_iff)

lemma length_show_tick [simp]: "length (show_tick e scr) = length scr"
  by (simp add: show_tick_def)

lemma show_tick_at: "unat (location e) < length scr \<Longrightarrow> scr ! unat (location e) = face e
    \<Longrightarrow> show_tick e scr ! unat (location e) = face (tick e)"
  using odd_flip [of "status e"] by (auto simp: show_tick_def tick_def face_def)

lemma show_tick_other: "l \<noteq> unat (location e) \<Longrightarrow> show_tick e scr ! l = scr ! l"
  by (simp add: show_tick_def)

lemma ticks_elsewhere: "l \<notin> (\<lambda>e. unat (location e)) ` set es \<Longrightarrow> fold show_tick es scr ! l = scr ! l"
  by (induction es arbitrary: scr) (auto simp: show_tick_other)

lemma showing_tick:
  assumes "showing es scr" "distinct (map location es)" "\<forall>e\<in>set es. unat (location e) < length scr"
  shows "showing (map tick es) (fold show_tick es scr)"
  using assms
proof (induction es arbitrary: scr)
  case (Cons e es)
  have d: "location x \<noteq> location e" if "x \<in> set es" for x using Cons.prems(2) imageI [OF that, of location] by auto
  have "showing es (show_tick e scr)"
    unfolding showing_def
  proof
    fix x assume x: "x \<in> set es"
    then have "unat (location x) \<noteq> unat (location e)" using d by (simp add: word_unat_eq_iff)
    then show "show_tick e scr ! unat (location x) = face x" using Cons.prems(1) x by (simp add: show_tick_other showing_def)
  qed
  then have "showing (map tick es) (fold show_tick es (show_tick e scr))" using Cons by simp
  moreover have "unat (location e) \<notin> (\<lambda>e. unat (location e)) ` set es" using d by (force simp: word_unat_eq_iff)
  then have "fold show_tick es (show_tick e scr) ! unat (location e) = face (tick e)"
    using show_tick_at [of e scr] Cons.prems(1,3) by (simp add: ticks_elsewhere showing_def)
  ultimately show ?case by (simp add: showing_def)
qed (simp add: showing_def)

lemma ticks_location [simp]: "location ((tick ^^ n) e) = location e"
  by (induction n) simp_all

lemma length_ticks [simp]: "length (fold show_tick es scr) = length scr"
  by (induction es arbitrary: scr) simp_all

text \<open>After \<open>n\<close> ticks every item has ticked \<open>n\<close> times, its cell shows it, and the other cells are as before.\<close>

lemma device_ticks:
  assumes "showing es scr" "distinct (map location es)" "\<forall>e\<in>set es. unat (location e) < length scr"
  shows "\<exists>scr'. (device_tick ^^ n) (es, scr) = (map (tick ^^ n) es, scr') \<and> length scr' = length scr
    \<and> showing (map (tick ^^ n) es) scr' \<and> (\<forall>l. l \<notin> (\<lambda>e. unat (location e)) ` set es \<longrightarrow> scr' ! l = scr ! l)"
proof (induction n)
  case 0
  then show ?case using assms(1) by simp
next
  case (Suc n)
  then obtain scr' where s: "(device_tick ^^ n) (es, scr) = (map (tick ^^ n) es, scr')" "length scr' = length scr"
      "showing (map (tick ^^ n) es) scr'" "\<forall>l. l \<notin> (\<lambda>e. unat (location e)) ` set es \<longrightarrow> scr' ! l = scr ! l" by blast
  let ?es = "map (tick ^^ n) es"
  have "distinct (map location ?es)" "\<forall>e\<in>set ?es. unat (location e) < length scr'" using assms(2,3) s(2) by (simp_all add: comp_def)
  from showing_tick [OF s(3) this] have "showing (map tick ?es) (fold show_tick ?es scr')" .
  moreover have "(\<lambda>e. unat (location e)) ` set ?es = (\<lambda>e. unat (location e)) ` set es" by (auto simp: image_image)
  then have "\<forall>l. l \<notin> (\<lambda>e. unat (location e)) ` set es \<longrightarrow> fold show_tick ?es scr' ! l = scr ! l"
    using ticks_elsewhere [of _ ?es scr'] s(4) by simp
  ultimately show ?case using s(1,2) by (simp add: device_tick_def comp_def)
qed

text \<open>The life of an item: on for its first length, off for its second, over and over.\<close>

lemma sint_countdown: "n \<le> 32767 \<Longrightarrow> 0 < sint (of_nat (Suc n) - 1 :: u16) \<longleftrightarrow> 0 < n"
proof -
  assume n: "n \<le> 32767"
  have "sint (of_nat n :: u16) = int n"
    using n by (simp add: signed_of_nat signed_take_bit_int_eq_self)
  then show ?thesis by simp
qed

lemma schedule:
  assumes "unat (on_length e) = a" "unat (off_length e) = b" "0 < a" "a < 2 ^ 15" "0 < b" "b < 2 ^ 15"
  shows "(tick ^^ n) (added e) = (if n mod (a + b) < a then e\<lparr>countdown := of_nat (a - n mod (a + b)), status := 1\<rparr>
    else e\<lparr>countdown := of_nat (a + b - n mod (a + b)), status := 0\<rparr>)"
proof (induction n)
  case 0
  then show ?case using assms(1,3) by (auto simp: added_def)
next
  case (Suc n)
  let ?r = "n mod (a + b)"
  have len: "on_length e = of_nat a" "off_length e = of_nat b" using assms(1,2) by auto
  have r: "?r < a + b" using assms(3) by simp
  have on: "tick (e\<lparr>countdown := of_nat (Suc k), status := 1\<rparr>)
      = (if 0 < k then e\<lparr>countdown := of_nat k, status := 1\<rparr> else e\<lparr>countdown := of_nat b, status := 0\<rparr>)" if "k < a" for k
    using sint_countdown [of k] that assms(4) len(2) by (simp add: tick_def)
  have off: "tick (e\<lparr>countdown := of_nat (Suc k), status := 0\<rparr>)
      = (if 0 < k then e\<lparr>countdown := of_nat k, status := 0\<rparr> else e\<lparr>countdown := of_nat a, status := 1\<rparr>)" if "k < b" for k
    using sint_countdown [of k] that assms(6) len(1) by (simp add: tick_def)
  show ?case
  proof (cases "?r < a")
    case True
    then have k: "a - ?r = Suc (a - Suc ?r)" "Suc n mod (a + b) = Suc ?r" using assms(5) by (simp_all add: mod_Suc)
    have "(tick ^^ Suc n) (added e) = tick (e\<lparr>countdown := of_nat (Suc (a - Suc ?r)), status := 1\<rparr>)"
      using Suc True k(1) by (simp del: of_nat_diff of_nat_Suc)
    moreover have "a + b - Suc ?r = b" if "\<not> Suc ?r < a" using that True by simp
    ultimately show ?thesis
      using on [of "a - Suc ?r"] True k(2) by (cases "Suc ?r < a") (simp_all del: of_nat_diff of_nat_Suc funpow.simps add: not_less)
  next
    case False
    then have k: "a + b - ?r = Suc (a + b - Suc ?r)" "a + b - Suc ?r < b" using r by simp_all
    have "(tick ^^ Suc n) (added e) = tick (e\<lparr>countdown := of_nat (Suc (a + b - Suc ?r)), status := 0\<rparr>)"
      using Suc False k(1) by (simp del: of_nat_diff of_nat_Suc)
    moreover have "Suc n mod (a + b) = (if Suc ?r < a + b then Suc ?r else 0)" using r by (simp add: mod_Suc)
    ultimately show ?thesis
      using off [OF k(2)] False assms(3) by (cases "Suc ?r < a + b") (simp_all del: of_nat_diff of_nat_Suc funpow.simps)
  qed
qed

section \<open>Location 0\<close>

text \<open>An item at location 0 is in the list while its slot counts as free.\<close>

lemma malloc_depends: "(\<And>i. i < 2000 \<Longrightarrow> ld16 m' (slot F i) = ld16 m (slot F i)) \<Longrightarrow> mp1_malloc F m' = mp1_malloc F m"
proof -
  assume h: "\<And>i. i < 2000 \<Longrightarrow> ld16 m' (slot F i) = ld16 m (slot F i)"
  have "find (\<lambda>i. ld16 m' (blink_array F + STRUCT_SIZE * of_nat i + LOCATION) = 0) [0..<80 * 25]
      = find (\<lambda>i. ld16 m (blink_array F + STRUCT_SIZE * of_nat i + LOCATION) = 0) [0..<80 * 25]"
    using h by (intro find_cong) (simp_all add: slot_def blink_offsets del: upt_rec_numeral)
  then show ?thesis by (simp add: mp1_malloc_def)
qed

definition stuck_at :: "fish_symbols \<Rightarrow> u32 \<Rightarrow> mem \<Rightarrow> u32 \<Rightarrow> bool" where
  "stuck_at F vm m p \<longleftrightarrow> layout F vm \<and> (\<exists>i<2000. p = slot F i) \<and> ld32 m (vmem_base_addr F) = vm \<and> ld16 m p < 2000 \<and> ld32 m (p + NEXT) = p"

lemma stuck_tick:
  assumes "stuck_at F vm m p"
  shows "stuck_at F vm (tick_item F m p) p" "ld32 (tick_item F m p) (p + NEXT) = p" "p \<noteq> 0"
proof -
  obtain i where i: "layout F vm" "i < 2000" "p = slot F i" "ld32 m (vmem_base_addr F) = vm" "ld16 m p < 2000" "ld32 m (p + NEXT) = p"
    using assms by (auto simp: stuck_at_def)
  let ?m = "tick_item F m p"
  note far = slot_far [OF i(1,2), folded i(3)]
  note t = tick_item_at [OF far(1,3) i(4,5)]
  show n: "ld32 ?m (p + NEXT) = p" using next_kept [OF t(3) [unfolded i(3)] i(1,2)] i(3,6) by simp
  have "ld16 ?m p < 2000" using arg_cong [OF t(1), of location] i(5) by simp
  moreover have "rd ?m (vmem_base_addr F) 4 = rd m (vmem_base_addr F) 4"
    using far(3) layoutD(7) [OF i(1)] slot_12 [of p] by (intro same_but_rd [OF t(3)]) auto
  then have "ld32 ?m (vmem_base_addr F) = vm" using ld32_rd i(4) by metis
  ultimately show "stuck_at F vm ?m p" using n i(1-3) by (auto simp: stuck_at_def)
  show "p \<noteq> 0" using slot_nonzero [OF i(1,2)] i(3) by simp
qed

lemma tasklet_loop_stuck: "stuck_at F vm m p \<Longrightarrow> tasklet_loop F m p = None"
proof (rule ccontr)
  assume "stuck_at F vm m p" "tasklet_loop F m p \<noteq> None"
  then obtain r where r: "tasklet_loop F m p = Some r" "stuck_at F vm m p" by auto
  have "\<not> stuck_at F vm m p"
  proof (rule tasklet_loop.raw_induct [OF _ r(1), where P = "\<lambda>F m p r. \<not> stuck_at F vm m p"])
    fix loop F m p r
    assume ih: "\<And>F m p r. loop F m p = Some r \<Longrightarrow> \<not> stuck_at F vm m p"
      and run: "(if p = 0 then Some m else let m = tick_item F m p in loop F m (ld32 m (p + NEXT))) = Some (r :: mem)"
    show "\<not> stuck_at F vm m p"
    proof
      assume s: "stuck_at F vm m p"
      with run stuck_tick [OF s] have "loop F (tick_item F m p) p = Some r" by (simp add: Let_def)
      then show False using ih stuck_tick(1) [OF s] by blast
    qed
  qed
  then show False using r(2) by blast
qed

text \<open>The second item at location 0 takes the slot of the first, which then links to itself.\<close>

lemma add_zero:
  assumes "layout F vm" "ld32 m (vmem_base_addr F) = vm" "mp1_malloc F m = slot F i" "i < 2000" "ld16 m (slot F i) = 0"
    "stack_at F vm tmp" "stack_at F vm arg" "apart tmp 16 arg 16" "ld16 m arg = 0"
  obtains m' where "mp1_ioctl_add F tmp m arg = (0, m')" "ld32 m' (mp1_list_head F) = slot F i"
    "ld32 m' (slot F i + NEXT) = ld32 m (mp1_list_head F)" "ld32 m' (vmem_base_addr F) = vm" "ld16 m' arg = 0"
    "\<And>j. j < 2000 \<Longrightarrow> ld16 m' (slot F j) = ld16 m (slot F j)"
proof -
  let ?p = "slot F i" and ?s = "staged tmp m arg"
  define n where "n = queued F tmp ?p ?s"
  define m' where "m' = n(vm := on_char (item_at m arg))"
  note l = layoutD [OF assms(1)] and far = slot_far [OF assms(1,4)]
  note st = staged_item [OF assms(8), of m] and q = queued_steps [OF assms(1,4,6), of ?s, folded n_def]
  have arr: "region ?p 16 \<subseteq> region (blink_array F) 32000" using slot_byte(2) [OF _ assms(4)] by blast
  note dt = stack_atD [OF assms(6)] and da = stack_atD [OF assms(7)]
  have v: "vm \<in> region vm 4000" using in_region [of 0 4000 vm] by simp
  have sm: "same_but (region vm 4000) n m'" using v by (intro same_butI) (auto simp: m'_def)
  have s3: "same_but (region ?p 16 \<union> region (mp1_list_head F) 4 \<union> region tmp 16 \<union> region vm 4000) m m'"
    by (rule same_but_trans [OF same_but_mono [OF st(2)] same_but_trans [OF same_but_mono [OF q(4)] same_but_mono [OF sm]]]) auto
  have it: "item_at n ?p = added (item_at m arg)" using q(1) st(1) by simp
  have f: "ld16 n ?p = 0" "n (?p + ON_CHAR) = on_char (item_at m arg)"
    using arg_cong [OF it, of location] arg_cong [OF it, of on_char] assms(9) by (simp_all add: added_def item_at_def blink_offsets)
  have "ld16 ?s (slot F j) = ld16 m (slot F j)" if "j < 2000" for j
    using dt slot_byte(2) [OF _ that] by (intro item_at_rd(3) same_but_rd [OF st(2)]) auto
  then have malloc: "mp1_malloc F ?s = ?p" using malloc_depends assms(3) by metis
  have "rd n (vmem_base_addr F) 4 = rd ?s (vmem_base_addr F) 4" "rd ?s (vmem_base_addr F) 4 = rd m (vmem_base_addr F) 4"
    using l arr dt by (auto intro!: same_but_rd [OF q(4)] same_but_rd [OF st(2)])
  then have vm: "ld32 n (vmem_base_addr F) = vm" using ld32_rd [of n "vmem_base_addr F" m] assms(2) by simp
  show thesis
  proof
    show "mp1_ioctl_add F tmp m arg = (0, m')"
      using copied_location [OF apart_region [OF assms(8)], of m] assms(9) malloc slot_nonzero [OF assms(1,4)] f vm
      by (simp add: add_unfold Let_def n_def [symmetric] m'_def mp1_poke_def LOCATION_def)
    show "ld32 m' (mp1_list_head F) = ?p" using q(3) l(6) ld32_rd [OF same_but_rd [OF sm]] by auto
    have "rd m' (?p + NEXT) 4 = rd n (?p + NEXT) 4" "rd ?s (mp1_list_head F) 4 = rd m (mp1_list_head F) 4"
      using next_region(2) [of ?p] far(1) dt by (auto intro!: same_but_rd [OF sm] same_but_rd [OF st(2)])
    then show "ld32 m' (?p + NEXT) = ld32 m (mp1_list_head F)" using q(2) ld32_rd by metis
    show "ld32 m' (vmem_base_addr F) = vm" using vm l(7) ld32_rd [OF same_but_rd [OF sm]] by auto
    have "rd m' arg 16 = rd m arg 16" using da arr apart_region [OF assms(8)] by (intro same_but_rd [OF s3]) auto
    then show "ld16 m' arg = 0" using item_at_rd(3) assms(9) by metis
    have "rd m' ?p 16 = rd n ?p 16" using far(1) by (intro same_but_rd [OF sm]) auto
    then have p: "ld16 m' ?p = ld16 m ?p" using item_at_rd(3) f(1) assms(5) by metis
    show "ld16 m' (slot F j) = ld16 m (slot F j)" if "j < 2000" for j
    proof (cases "j = i")
      case False
      have "rd m' (slot F j) 16 = rd m (slot F j) 16"
        using slots_apart [OF that assms(4) False, of F] slot_far(1,2) [OF assms(1) that] dt slot_byte(2) [OF _ that]
        by (intro same_but_rd [OF s3]) auto
      then show ?thesis by (rule item_at_rd(3))
    qed (use p in simp)
  qed
qed

section \<open>Properties\<close>

text \<open>C19: adding an item. The device blinks some items; adding one with a location from 1 to 1999, while fewer than
  2000 are blinking, answers 0, puts it in front of the list with its first length as the countdown, and
  shows its first character at its place of the screen. A location past the screen or a full array is
  answered -1 and changes only the call's own stack.\<close>

theorem ioctl_adds:
  assumes "blinking F vm m es scr" "stack_at F vm tmp" "apart tmp 16 arg 16" "ld16 m arg \<noteq> 0"
  shows "if ld16 m arg < 2000 \<and> length es < 2000 then
      \<exists>m'. mp1_ioctl F tmp m arg RTC_ADD = Some (0, m')
        \<and> blinking F vm m' (added (item_at m arg) # es) (scr[unat (ld16 m arg) := on_char (item_at m arg)])
        \<and> same_but (region (blink_array F) 32000 \<union> region (mp1_list_head F) 4 \<union> region vm 4000 \<union> region tmp 16) m m'
    else \<exists>m'. mp1_ioctl F tmp m arg RTC_ADD = Some (-1, m') \<and> blinking F vm m' es scr \<and> same_but (region tmp 16) m m'"
proof (cases "ld16 m arg < 2000 \<and> length es < 2000")
  case True
  then show ?thesis using add_adds [OF assms(1) _ assms(2-4)] by (auto simp: mp1_ioctl_def blink_commands)
next
  case False
  obtain "is" where i: "slots_ok F vm m is" "es = items F m is" "scr = screen_cells m vm" using assms(1) by (auto simp: blinking_def)
  have "length is \<le> 2000"
    using card_mono [of "{..<2000}" "set is"] slots_okD(4,5) [OF i(1)] by (force simp: distinct_card)
  with False i have "ld16 m arg \<ge> 2000 \<or> slots_ok F vm m is \<and> length is = 2000 \<and> stack_at F vm tmp"
    using assms(2) by auto
  then obtain m' where m': "mp1_ioctl_add F tmp m arg = (-1, m')" "same_but (region tmp 16) m m'"
    using add_refuses [OF assms(3)] by blast
  then have "blinking F vm m' es scr" using slots_ok_elsewhere [OF i(1) m'(2) stack_atD [OF assms(2)]] i(2,3) by (auto simp: blinking_def)
  then show ?thesis using False m' by (auto simp: mp1_ioctl_def blink_commands)
qed

text \<open>An empty device on the screen at \<open>0xB8000\<close>, and an item to add.\<close>

definition fish_example :: fish_symbols where
  "fish_example = \<lparr>blink_array = 0x8100000, mp1_list_head = 0x8120000, vmem_base_addr = 0x8120010\<rparr>"

definition item_example :: "u8 \<Rightarrow> mem" where
  "item_example l = wr (wr (\<lambda>_. 0) 0x8120010 (le_bytes 0xB8000)) 0x8130000 [l, 0, 0x49, 0x4D, 7, 0, 6, 0, 0, 0, 0, 0]"

lemma item_example_values:
  "item_at (item_example l) 0x8130000
    = \<lparr>location = ucast l, on_char = 0x49, off_char = 0x4D, on_length = 7, off_length = 6, countdown = 0, status = 0\<rparr>"
  "ld16 (item_example l) 0x8130000 = ucast l" "ld32 (item_example l) 0x8120010 = 0xB8000" "ld32 (item_example l) 0x8120000 = 0"
  by (simp_all add: item_example_def item_at_def blink_offsets ld16_def ld32_def le_bytes_def wr_def Let_def)

lemma example_places:
  "layout fish_example 0xB8000" "stack_at fish_example 0xB8000 0x8140000" "stack_at fish_example 0xB8000 0x8130000" "apart 0x8140000 16 0x8130000 16"
  by (simp_all add: layout_def stack_at_def fish_example_def apart_def)

lemma item_example_blinking: "blinking fish_example 0xB8000 (item_example l) [] (replicate 2000 0)"
proof -
  let ?m = "item_example l" and ?X = "region 0x8120010 4 \<union> region 0x8130000 12"
  have out: "same_but ?X (\<lambda>_. 0) ?m" by (rule same_butI) (simp add: item_example_def wr_def region_def le_bytes_def Let_def)
  have ap: "region 0x8100000 32000 \<inter> region 0x8120010 4 = {}" "region 0x8100000 32000 \<inter> region 0x8130000 12 = {}"
      "region 0xB8000 4000 \<inter> region 0x8120010 4 = {}" "region 0xB8000 4000 \<inter> region 0x8130000 12 = {}"
    by (intro apart_region; simp add: apart_def)+
  have "rd ?m (slot fish_example i) 16 = rd (\<lambda>_. 0) (slot fish_example i) 16" if "i < 2000" for i
    using slot_byte(2) [OF _ that, of _ fish_example] ap(1,2) by (intro same_but_rd [OF out]) (auto simp: fish_example_def)
  then have "ld16 ?m (slot fish_example i) = ld16 (\<lambda>_. 0) (slot fish_example i)" if "i < 2000" for i using item_at_rd(3) that by blast
  then have "{i. i < 2000 \<and> ld16 ?m (slot fish_example i) \<noteq> 0} = {}" by (auto simp: ld16_def)
  then have "slots_ok fish_example 0xB8000 ?m []"
    using example_places(1) item_example_values(3,4) by (simp add: slots_ok_def fish_example_def)
  moreover have "screen_cells ?m 0xB8000 = screen_cells (\<lambda>_. 0) 0xB8000" using ap(3,4) by (intro same_but_cells [OF out]) auto
  then have "screen_cells ?m 0xB8000 = replicate 2000 0" by (simp add: screen_cells_def map_replicate_const del: upt_rec_numeral)
  ultimately show ?thesis by (auto simp: blinking_def intro!: exI [of _ "[]"])
qed

lemma example_added:
  obtains m where "mp1_ioctl_add fish_example 0x8140000 (item_example 60) 0x8130000 = (0, m)"
    "blinking fish_example 0xB8000 m (map added [item_at (item_example 60) 0x8130000]) ((replicate 2000 0)[60 := 0x49])"
  using add_adds [OF item_example_blinking [of 60] _ example_places(2,4)] item_example_values(1,2) [of 60] by auto

theorem ioctl_adds_witness:
  "\<exists>m'. mp1_ioctl fish_example 0x8140000 (item_example 60) 0x8130000 RTC_ADD = Some (0, m')
    \<and> blinking fish_example 0xB8000 m' [added (item_at (item_example 60) 0x8130000)] ((replicate 2000 0)[60 := 0x49])"
  using ioctl_adds [OF item_example_blinking [of 60] example_places(2,4)] item_example_values(1,2) [of 60] by auto

text \<open>C21: removing and synchronising items. \<open>RTC_REMOVE\<close> takes the first item at the location out of the list and
  frees its slot; \<open>RTC_SYNC\<close> gives the first item at one location the lengths, countdown and status of
  the first at another, and always shows its second character, even when the status says the first:
  the conditional move tests the sign and not the bit. What is not found is answered -1 and changes
  nothing.\<close>

theorem ioctl_changes:
  assumes "blinking F vm m es scr"
  shows "case find (\<lambda>e. location e = ucast arg) es of
      None \<Rightarrow> mp1_ioctl F tmp m arg RTC_REMOVE = Some (-1, m) \<and> mp1_ioctl F tmp m arg RTC_SYNC = Some (-1, m)
    | Some e \<Rightarrow>
        (\<exists>m'. mp1_ioctl F tmp m arg RTC_REMOVE = Some (0, m') \<and> blinking F vm m' (change_first (ucast arg) (\<lambda>_. []) es) scr)
      \<and> (case find (\<lambda>e. location e = ucast (drop_bit 16 arg)) es of
          None \<Rightarrow> mp1_ioctl F tmp m arg RTC_SYNC = Some (-1, m)
        | Some a \<Rightarrow> \<exists>m'. mp1_ioctl F tmp m arg RTC_SYNC = Some (0, m')
            \<and> blinking F vm m' (change_first (ucast arg) (\<lambda>e. [synced a e]) es) (scr[unat (location e) := off_char e]))"
proof -
  have cmd: "mp1_ioctl F tmp m arg RTC_REMOVE = mp1_ioctl_remove F m arg" "mp1_ioctl F tmp m arg RTC_SYNC = mp1_ioctl_sync F m arg"
    by (simp_all add: mp1_ioctl_def blink_commands)
  show ?thesis
  proof (cases "find (\<lambda>e. location e = ucast arg) es")
    case None
    then show ?thesis using remove_removes [OF assms, of arg] sync_refuses [OF assms, of arg] by (simp add: cmd)
  next
    case (Some e)
    then have "\<exists>m'. mp1_ioctl_remove F m arg = Some (0, m') \<and> blinking F vm m' (change_first (ucast arg) (\<lambda>_. []) es) scr"
      using remove_removes [OF assms, of arg] by auto
    moreover have "case find (\<lambda>e. location e = ucast (drop_bit 16 arg)) es of
          None \<Rightarrow> mp1_ioctl_sync F m arg = Some (-1, m)
        | Some a \<Rightarrow> \<exists>m'. mp1_ioctl_sync F m arg = Some (0, m')
            \<and> blinking F vm m' (change_first (ucast arg) (\<lambda>e. [synced a e]) es) (scr[unat (location e) := off_char e])"
      using sync_refuses [OF assms, of arg] sync_copies [OF assms _ Some] by (cases "find (\<lambda>e. location e = ucast (drop_bit 16 arg)) es") auto
    ultimately show ?thesis unfolding cmd Some option.case by (rule conjI)
  qed
qed

theorem ioctl_changes_witness:
  "\<exists>m m'. blinking fish_example 0xB8000 m (map added [item_at (item_example 60) 0x8130000]) ((replicate 2000 0)[60 := 0x49])
    \<and> mp1_ioctl fish_example 0x8140000 m 60 RTC_REMOVE = Some (0, m') \<and> blinking fish_example 0xB8000 m' [] ((replicate 2000 0)[60 := 0x49])"
proof -
  obtain m where m: "blinking fish_example 0xB8000 m (map added [item_at (item_example 60) 0x8130000]) ((replicate 2000 0)[60 := 0x49])"
    using example_added by blast
  show ?thesis using m ioctl_changes [OF m, of "0x8140000" 60] by (auto simp: item_example_values(1) added_def)
qed

text \<open>C20: the schedule. When the device blinks freshly added items at distinct places, with both lengths from 1
  to 32767, every number of ticks is completed, and after \<open>n\<close> of them each place shows the item's first
  character while \<open>n\<close> modulo the sum of its lengths is below the first and its second character
  otherwise; all other places are as they were.\<close>

theorem tasklet_schedule:
  assumes "blinking F vm m (map added es) scr" "distinct (map location es)"
    "\<forall>e\<in>set es. 0 < on_length e \<and> on_length e < 0x8000 \<and> 0 < off_length e \<and> off_length e < 0x8000
       \<and> scr ! unat (location e) = on_char e"
  shows "\<exists>m' scr'. ((\<lambda>x. Option.bind x (mp1_rtc_tasklet F)) ^^ n) (Some m) = Some m'
    \<and> blinking F vm m' (map (tick ^^ n) (map added es)) scr'
    \<and> (\<forall>e\<in>set es. scr' ! unat (location e)
         = (if n mod (unat (on_length e) + unat (off_length e)) < unat (on_length e) then on_char e else off_char e))
    \<and> (\<forall>l. l \<notin> (\<lambda>e. unat (location e)) ` set es \<longrightarrow> scr' ! l = scr ! l)"
proof -
  let ?es = "map added es"
  have loc: "location (added e) = location e" for e by (simp add: added_def)
  have "showing ?es scr" using assms(3) by (auto simp: showing_def added_def face_def)
  moreover have "distinct (map location ?es)" using assms(2) by (simp add: comp_def loc)
  moreover have "\<forall>e\<in>set ?es. unat (location e) < length scr"
    using blinking_places [OF assms(1)] by blast
  ultimately obtain scr' where s: "(device_tick ^^ n) (?es, scr) = (map (tick ^^ n) ?es, scr')" "showing (map (tick ^^ n) ?es) scr'"
      "\<forall>l. l \<notin> (\<lambda>e. unat (location e)) ` set ?es \<longrightarrow> scr' ! l = scr ! l"
    using device_ticks by blast
  obtain m' where m': "((\<lambda>x. Option.bind x (mp1_rtc_tasklet F)) ^^ n) (Some m) = Some m'" "blinking F vm m' (map (tick ^^ n) ?es) scr'"
    using tasklet.steps_refine [of F vm m "(?es, scr)" n] assms(1) s(1) by auto
  have "scr' ! unat (location e) = (if n mod (unat (on_length e) + unat (off_length e)) < unat (on_length e) then on_char e else off_char e)"
    if "e \<in> set es" for e
  proof -
    have "0 < unat (on_length e)" "unat (on_length e) < 2 ^ 15" "0 < unat (off_length e)" "unat (off_length e) < 2 ^ 15"
      using assms(3) that by (auto simp: word_less_nat_alt)
    from schedule [OF refl refl this, of n] have "face ((tick ^^ n) (added e))
        = (if n mod (unat (on_length e) + unat (off_length e)) < unat (on_length e) then on_char e else off_char e)"
      by (simp add: face_def)
    then show ?thesis using s(2) that by (simp add: showing_def loc)
  qed
  then show ?thesis using m' s(3) by (auto simp: image_image loc)
qed

theorem tasklet_schedule_witness:
  "\<exists>m m' scr'. blinking fish_example 0xB8000 m (map added [item_at (item_example 60) 0x8130000]) ((replicate 2000 0)[60 := 0x49])
    \<and> ((\<lambda>x. Option.bind x (mp1_rtc_tasklet fish_example)) ^^ 10) (Some m) = Some m'
    \<and> blinking fish_example 0xB8000 m' (map (tick ^^ 10) (map added [item_at (item_example 60) 0x8130000])) scr' \<and> scr' ! 60 = 0x4D"
proof -
  let ?e = "item_at (item_example 60) 0x8130000"
  obtain m where m: "blinking fish_example 0xB8000 m (map added [?e]) ((replicate 2000 0)[60 := 0x49])" using example_added by blast
  have "distinct (map location [?e])" "\<forall>e\<in>set [?e]. 0 < on_length e \<and> on_length e < 0x8000 \<and> 0 < off_length e \<and> off_length e < 0x8000
      \<and> (replicate 2000 (0 :: u8))[60 := 0x49] ! unat (location e) = on_char e"
    by (simp_all add: item_example_values(1))
  from tasklet_schedule [OF m this, of 10] show ?thesis using m unfolding item_example_values(1) by auto
qed

text \<open>C35: an item at location 0, which \<open>RTC_ADD\<close> accepts, keeps its slot marked as free. Adding a second one takes the
  same slot and links it to itself: the next tick never ends.\<close>

theorem location_zero_hangs:
  assumes "blinking F vm m es scr" "length es < 2000" "stack_at F vm tmp" "stack_at F vm arg" "apart tmp 16 arg 16" "ld16 m arg = 0"
  shows "\<exists>m1 m2. mp1_ioctl F tmp m arg RTC_ADD = Some (0, m1) \<and> mp1_ioctl F tmp m1 arg RTC_ADD = Some (0, m2)
    \<and> mp1_rtc_tasklet F m2 = None"
proof -
  obtain "is" where i: "slots_ok F vm m is" "es = items F m is" using assms(1) by (auto simp: blinking_def)
  note h = slots_okD [OF i(1)]
  obtain k where k: "k < 2000" "k \<notin> set is" "mp1_malloc F m = slot F k" using malloc_finds [OF i(1)] assms(2) i(2) by auto
  then have z: "ld16 m (slot F k) = 0" using h(5) by blast
  obtain m1 where m1: "mp1_ioctl_add F tmp m arg = (0, m1)" "ld32 m1 (mp1_list_head F) = slot F k" "ld32 m1 (vmem_base_addr F) = vm"
      "ld16 m1 arg = 0" "\<And>j. j < 2000 \<Longrightarrow> ld16 m1 (slot F j) = ld16 m (slot F j)"
    using add_zero [OF h(1,2) k(3,1) z assms(3-6)] by metis
  have "mp1_malloc F m1 = slot F k" "ld16 m1 (slot F k) = 0" using malloc_depends m1(5) k z by metis+
  then obtain m2 where m2: "mp1_ioctl_add F tmp m1 arg = (0, m2)" "ld32 m2 (mp1_list_head F) = slot F k"
      "ld32 m2 (slot F k + NEXT) = slot F k" "ld32 m2 (vmem_base_addr F) = vm" "ld16 m2 (slot F k) = 0"
    using add_zero [OF h(1) m1(3) _ k(1) _ assms(3-5) m1(4)] m1(2) k(1) by metis
  then have "stuck_at F vm m2 (slot F k)" using h(1) k(1) by (auto simp: stuck_at_def)
  then have "mp1_rtc_tasklet F m2 = None" using m2(2) by (simp add: mp1_rtc_tasklet_def tasklet_loop_stuck)
  then show ?thesis using m1(1) m2(1) by (auto simp: mp1_ioctl_def blink_commands)
qed

theorem location_zero_hangs_witness:
  "\<exists>m1 m2. mp1_ioctl fish_example 0x8140000 (item_example 0) 0x8130000 RTC_ADD = Some (0, m1)
    \<and> mp1_ioctl fish_example 0x8140000 m1 0x8130000 RTC_ADD = Some (0, m2) \<and> mp1_rtc_tasklet fish_example m2 = None"
  using location_zero_hangs [OF item_example_blinking [of 0] _ example_places(2-4)] item_example_values(2) [of 0] by simp

end
