(* ===== verification/Fish.thy ===== *)
theory Fish
  imports Pingpong Blink
begin

text \<open>
  The fish program of \<^verbatim>\<open>fish/fish.c\<close>: it clears its array of items, has the video memory mapped, reads the
  two pictures from the files \<open>frame0.txt\<close> and \<open>frame1.txt\<close> into blinking items, and lets them
  blink with the ticks of the clock. Its local variables whose address is taken (the two characters,
  the structures that \<open>add_frames\<close> and \<open>main\<close> pass to \<open>mp1_ioctl\<close>, \<open>ret_val\<close> and \<open>garbage\<close>) are at addresses of the stack; \<open>tmp\<close>
  is the stack of the calls into \<^verbatim>\<open>blink.S\<close>. The result \<open>Inl\<close> is a call of \<open>halt\<close>.
\<close>

section \<open>The model\<close>

text \<open>Where the variables on the stack are.\<close>

record fish_stack =
  c0_at :: u32
  c1_at :: u32
  struct_at :: u32
  main_at :: u32
  tmp_at :: u32
  ret_at :: u32
  garbage_at :: u32

definition WAIT :: nat where "WAIT = 200"

definition mp1_set_video_mode :: "fish_symbols \<Rightarrow> 'a machine_scheme \<Rightarrow> u32 \<times> 'a machine_scheme" where
  "mp1_set_video_mode F s =
     (let (r, s) = vidmap (vmem_base_addr F) s
      in if r = -1 then (0, s) else (ld32 (ram s) (vmem_base_addr F), s))"

text \<open>The next character of a frame, unless its line has ended: whether the end of the file was met, and the
  state.\<close>

definition frame_char :: "int \<Rightarrow> 'a sys_state_scheme handler list \<Rightarrow> int \<Rightarrow> u32 \<Rightarrow> int \<Rightarrow> 'a sys_state_scheme
    \<Rightarrow> (int \<times> 'a sys_state_scheme) option" where
  "frame_char junk irqs fd c eof s =
     (if ram s c \<noteq> 0x0A then
        Option.bind (sys_read junk irqs fd c 1 s) (\<lambda>(num_bytes, s).
          if num_bytes = 0 then Some (1, s\<lparr>ram := (ram s)(c := 0x0A)\<rparr>) else Some (eof, s))
      else Some (eof, s))"

text \<open>The item for a place where one of the characters is not blank.\<close>

definition add_place :: "fish_symbols \<Rightarrow> fish_stack \<Rightarrow> int \<Rightarrow> int \<Rightarrow> mem \<Rightarrow> mem option" where
  "add_place F L row col m =
     (let c0 = m (c0_at L); c1 = m (c1_at L)
      in if c0 \<noteq> 0x20 \<and> c0 \<noteq> 0x0A \<or> c1 \<noteq> 0x20 \<and> c1 \<noteq> 0x0A then
           let m = m(struct_at L + ON_CHAR := if c0 = 0x0A then 0x20 else c0);
               m = m(struct_at L + OFF_CHAR := if c1 = 0x0A then 0x20 else c1);
               m = st16 m (struct_at L + LOCATION) (of_int (row * 80 + col + 40))
           in map_option snd (mp1_ioctl F (tmp_at L) m (struct_at L) RTC_ADD)
         else Some m)"

partial_function (option) frame_row :: "'a world \<Rightarrow> fish_symbols \<Rightarrow> fish_stack \<Rightarrow> int \<Rightarrow> int \<Rightarrow> int \<Rightarrow> int \<Rightarrow> int \<Rightarrow> int \<Rightarrow> nat
    \<Rightarrow> 'a sys_state_scheme \<Rightarrow> (int \<times> int \<times> nat \<times> 'a sys_state_scheme) option" where
  "frame_row w F L fd0 fd1 row col eof0 eof1 k s =
     Option.bind (frame_char (fst (w k)) (snd (w k)) fd0 (c0_at L) eof0 s) (\<lambda>(eof0, s).
     Option.bind (frame_char (fst (w (k + 1))) (snd (w (k + 1))) fd1 (c1_at L) eof1 s) (\<lambda>(eof1, s).
       if ram s (c0_at L) = 0x0A \<and> ram s (c1_at L) = 0x0A then Some (eof0, eof1, k + 2, s)
       else Option.bind (add_place F L row col (ram s)) (\<lambda>m.
              frame_row w F L fd0 fd1 row (col + 1) eof0 eof1 (k + 2) (s\<lparr>ram := m\<rparr>))))"

text \<open>The end of a row for one of the files.\<close>

definition row_end :: "int \<Rightarrow> u32 \<Rightarrow> int \<Rightarrow> 'a sys_state_scheme \<Rightarrow> 'a sys_state_scheme" where
  "row_end fd c eof s =
     (if eof \<noteq> 0 then snd (sys_close fd (s\<lparr>ram := (ram s)(c := 0x0A)\<rparr>))
      else s\<lparr>ram := (ram s)(c := 0x30)\<rparr>)"

partial_function (option) frame_rows :: "'a world \<Rightarrow> fish_symbols \<Rightarrow> fish_stack \<Rightarrow> int \<Rightarrow> int \<Rightarrow> int \<Rightarrow> int \<Rightarrow> int \<Rightarrow> nat
    \<Rightarrow> 'a sys_state_scheme \<Rightarrow> (nat \<times> 'a sys_state_scheme) option" where
  "frame_rows w F L fd0 fd1 row eof0 eof1 k s =
     (if eof0 = 0 \<or> eof1 = 0 then
        Option.bind (frame_row w F L fd0 fd1 row 0 eof0 eof1 k s) (\<lambda>(eof0, eof1, k, s).
          let s = row_end fd0 (c0_at L) eof0 s; s = row_end fd1 (c1_at L) eof1 s
          in frame_rows w F L fd0 fd1 (row + 1) eof0 eof1 k s)
      else Some (k, s))"

definition add_frames :: "'a world \<Rightarrow> device \<Rightarrow> fish_symbols \<Rightarrow> fish_stack \<Rightarrow> u32 \<Rightarrow> u32 \<Rightarrow> nat \<Rightarrow> 'a sys_state_scheme
    \<Rightarrow> ('a sys_state_scheme + nat \<times> 'a sys_state_scheme) option" where
  "add_frames w dev F L f0 f1 k s =
     (let m = (ram s)(c0_at L := 0x30, c1_at L := 0x30);
          m = st16 m (struct_at L + ON_LENGTH) 15;
          m = st16 m (struct_at L + OFF_LENGTH) 15;
          s = s\<lparr>ram := m\<rparr>
      in Option.bind (sys_open dev (ram s) f0 s) (\<lambda>(fd0, s).
           if fd0 < 0 then Some (Inl s)
           else Option.bind (sys_open dev (ram s) f1 s) (\<lambda>(fd1, s).
             if fd1 < 0 then Some (Inl s)
             else map_option Inr (frame_rows w F L fd0 fd1 0 0 0 k s))))"

text \<open>\<open>n\<close> times: wait for the clock, then tick.\<close>

primrec fish_ticks :: "nat \<Rightarrow> 'a world \<Rightarrow> fish_symbols \<Rightarrow> u32 \<Rightarrow> int \<Rightarrow> nat \<Rightarrow> 'a sys_state_scheme \<Rightarrow> 'a sys_state_scheme option" where
  "fish_ticks 0 w F garbage rtc_fd k s = Some s"
| "fish_ticks (Suc n) w F garbage rtc_fd k s =
     Option.bind (sys_read (fst (w k)) (snd (w k)) rtc_fd garbage 4 s) (\<lambda>(_, s).
     Option.bind (mp1_rtc_tasklet F (ram s)) (\<lambda>m.
       fish_ticks n w F garbage rtc_fd (k + 1) (s\<lparr>ram := m\<rparr>)))"

definition fish_ioctl :: "fish_symbols \<Rightarrow> u32 \<Rightarrow> u32 \<Rightarrow> u32 \<Rightarrow> 'a machine_scheme \<Rightarrow> 'a machine_scheme option" where
  "fish_ioctl F tmp arg cmd s = map_option (\<lambda>(_, m). s\<lparr>ram := m\<rparr>) (mp1_ioctl F tmp (ram s) arg cmd)"

text \<open>The animation after the frames have been read: \<open>i\<close> is 200 where it is passed to \<open>RTC_REMOVE\<close>.\<close>

definition fish_show :: "'a world \<Rightarrow> fish_symbols \<Rightarrow> fish_stack \<Rightarrow> int \<Rightarrow> nat \<Rightarrow> 'a sys_state_scheme \<Rightarrow> 'a sys_state_scheme option" where
  "fish_show w F L rtc_fd k s =
     Option.bind (fish_ticks WAIT w F (garbage_at L) rtc_fd k s) (\<lambda>s.
     let m = (ram s)(main_at L + ON_CHAR := 0x49, main_at L + OFF_CHAR := 0x4D);
         m = st16 m (main_at L + ON_LENGTH) 7;
         m = st16 m (main_at L + OFF_LENGTH) 6;
         m = st16 m (main_at L + LOCATION) (6 * 80 + 60)
     in Option.bind (fish_ioctl F (tmp_at L) (main_at L) RTC_ADD (s\<lparr>ram := m\<rparr>)) (\<lambda>s.
     Option.bind (fish_ticks WAIT w F (garbage_at L) rtc_fd (k + WAIT) s) (\<lambda>s.
     Option.bind (fish_ioctl F (tmp_at L) (push_bit 16 40 OR (6 * 80 + 60)) RTC_SYNC s) (\<lambda>s.
     Option.bind (fish_ticks WAIT w F (garbage_at L) rtc_fd (k + 2 * WAIT) s) (\<lambda>s.
     let s = s\<lparr>ram := st16 (ram s) (main_at L + LOCATION) 60\<rparr>
     in Option.bind (fish_ioctl F (tmp_at L) (of_nat WAIT) RTC_REMOVE s) (\<lambda>s.
     fish_ticks (80 * 25) w F (garbage_at L) rtc_fd (k + 3 * WAIT) s))))))"

definition fish_main :: "'a world \<Rightarrow> device \<Rightarrow> fish_symbols \<Rightarrow> fish_stack \<Rightarrow> u32 \<Rightarrow> u32 \<Rightarrow> 'a sys_state_scheme
    \<Rightarrow> ('a sys_state_scheme + int \<times> 'a sys_state_scheme) option" where
  "fish_main w dev F L file0 file1 s =
     (let s = s\<lparr>ram := ece391_memset (ram s) (blink_array F) 0 (STRUCT_SIZE * 80 * 25)\<rparr>;
          (v, s) = mp1_set_video_mode F s
      in if v = 0 then Some (Inr (-1, s))
         else
           Option.bind (sys_open dev (wr (\<lambda>_. 0) 4 (str ''rtc'')) 4 s) (\<lambda>(rtc_fd, s).
           Option.bind (add_frames w dev F L file0 file1 1 s) (\<lambda>r. case r of
             Inl s \<Rightarrow> Some (Inl s)
           | Inr (k, s) \<Rightarrow>
               let s = s\<lparr>ram := wr (ram s) (ret_at L) (le_bytes 32)\<rparr>
               in Option.bind (sys_write (fst (w 0)) ram dev rtc_fd (ret_at L) 4 s) (\<lambda>(ret_val, s).
                  let s = s\<lparr>ram := wr (ram s) (ret_at L) (le_bytes (of_int ret_val))\<rparr>
                  in Option.bind (fish_show w F L rtc_fd k s) (\<lambda>s.
                     Some (Inr (0, snd (sys_close rtc_fd s))))))))"

section \<open>Reading a frame\<close>

text \<open>The data file \<open>inode\<close> is open under \<open>fd\<close> with the bytes \<open>xs\<close> left.\<close>

definition data_open :: "nat \<Rightarrow> u32 \<Rightarrow> u8 list \<Rightarrow> 'a fs_state_scheme \<Rightarrow> bool" where
  "data_open fd inode xs s \<longleftrightarrow> 2 \<le> fd \<and> fd < 8 \<and> file_ok s inode \<and> inode < num_inodes (filesystem s) - 1
     \<and> flags (file_struct (pcblock s) ! fd) = 1 \<and> fops_ptr (file_struct (pcblock s) ! fd) = filesystem_fops
     \<and> (\<exists>off \<le> file_size s inode. open_at s fd inode off \<and> xs = file_bytes s inode off (file_size s inode - off))"

text \<open>What a state keeps of another one for the descriptor \<open>fd\<close>.\<close>

definition keeps_file :: "nat \<Rightarrow> 'a fs_state_scheme \<Rightarrow> 'a fs_state_scheme \<Rightarrow> bool" where
  "keeps_file fd s t \<longleftrightarrow> length (file_struct (pcblock t)) = length (file_struct (pcblock s))
     \<and> file_struct (pcblock t) ! fd = file_struct (pcblock s) ! fd
     \<and> file_type (dentries (pcblock t) ! fd) = file_type (dentries (pcblock s) ! fd)
     \<and> inode_number (dentries (pcblock t) ! fd) = inode_number (dentries (pcblock s) ! fd)
     \<and> filesystem t = filesystem s \<and> BOOT_BLOCK_PTR t = BOOT_BLOCK_PTR s"

text \<open>What the descriptors are open for.\<close>

definition kinds :: "'a fs_state_scheme \<Rightarrow> (fops_t \<times> u32) list" where
  "kinds s = map fd_kind (file_struct (pcblock s))"

lemma data_open_kept:
  assumes "data_open fd inode xs s" "keeps_file fd s t" "same_image s (ram t)"
  shows "data_open fd inode xs t"
proof -
  obtain off where o: "off \<le> file_size s inode" "open_at s fd inode off" "xs = file_bytes s inode off (file_size s inode - off)"
      "file_ok s inode"
    using assms(1) by (auto simp: data_open_def)
  have k: "filesystem t = filesystem s" "BOOT_BLOCK_PTR t = BOOT_BLOCK_PTR s" using assms(2) by (simp_all add: keeps_file_def)
  note sf = same_files [OF o(4) assms(3) k]
  have "open_at t fd inode off" using o(2) assms(2) by (simp add: open_at_def keeps_file_def)
  moreover have "xs = file_bytes t inode off (file_size t inode - off)" using sf(1,4) o(1,3) by simp
  ultimately show ?thesis using assms(1,2) sf(1,2) o(1) unfolding data_open_def keeps_file_def by auto
qed

lemma read_next:
  assumes "data_open fd inode xs s" "c \<noteq> 0" "apart c 1 (BOOT_BLOCK_PTR s) (image_len s)"
  obtains t where "sys_read junk irqs (int fd) c 1 s = Some (if xs = [] then 0 else 1, t)"
    "ram t = (ram s)(c := case xs of [] \<Rightarrow> 0 | x # _ \<Rightarrow> x)" "data_open fd inode (tl xs) t"
    "\<And>j. j \<noteq> fd \<Longrightarrow> keeps_file j s t" "same_image s (ram t)" "fd_index t = fd_index s" "kinds t = kinds s"
proof -
  obtain off where o: "off \<le> file_size s inode" "open_at s fd inode off" "xs = file_bytes s inode off (file_size s inode - off)"
      "file_ok s inode" "inode < num_inodes (filesystem s) - 1" "2 \<le> fd" "fd < 8" "flags (file_struct (pcblock s) ! fd) = 1"
      "fops_ptr (file_struct (pcblock s) ! fd) = filesystem_fops"
    using assms(1) by (auto simp: data_open_def)
  define k where "k = available s inode off 1"
  have k: "k = (if off < file_size s inode then 1 else 0)" using o(1) by (auto simp: k_def available_def)
  have f: "flags (file_struct (pcblock s) ! fd) \<noteq> 0" using o(8) by simp
  obtain t where t: "sys_read junk irqs (int fd) c 1 s = Some (int k, t)"
      "ram t = wr (ram s) c (file_bytes s inode off k @ replicate (1 - k) 0)"
      "file_struct (pcblock t) = (file_struct (pcblock s))[fd := (file_struct (pcblock s) ! fd)\<lparr>fpos := of_nat (off + k)\<rparr>]"
      "dentries (pcblock t) = dentries (pcblock s)" "filesystem t = filesystem s" "BOOT_BLOCK_PTR t = BOOT_BLOCK_PTR s"
      "fd_index t = fd_index s"
    using read_file_step [OF o(2,7,4,5,1) _ _ assms(2,3) f o(9) k_def, of junk irqs] by auto
  have len: "fd < length (file_struct (pcblock s))" using o(2) by (simp add: open_at_def)
  have split: "xs = file_bytes s inode off k @ file_bytes s inode (off + k) (file_size s inode - (off + k))"
    using file_bytes_add [of s inode off k "file_size s inode - (off + k)"] o(1,3) k by (auto split: if_splits)
  have b: "length (file_bytes s inode off k @ replicate (1 - k) 0) = 1" using k by simp
  have im: "same_image s (ram t)" unfolding t(2) using assms(3) b by (intro same_image_wr) simp_all
  note sf = same_files [OF o(4) im t(5,6)]
  have xs: "xs = [] \<longleftrightarrow> k = 0" using o(1,3) k by (auto simp: file_bytes_def)
  have one: "file_bytes s inode off k = (case xs of [] \<Rightarrow> [] | x # _ \<Rightarrow> [x])"
  proof (cases "k = 0")
    case False
    then have "\<exists>x. file_bytes s inode off k = [x]" using k by (simp add: file_bytes_def split: if_splits)
    then show ?thesis using split by auto
  qed (use xs in simp)
  have rest: "tl xs = file_bytes s inode (off + k) (file_size s inode - (off + k))" using split one xs by (cases xs) auto
  show thesis
  proof (rule that [of t])
    show "sys_read junk irqs (int fd) c 1 s = Some (if xs = [] then 0 else 1, t)" using t(1) k xs by auto
    show "ram t = (ram s)(c := case xs of [] \<Rightarrow> 0 | x # _ \<Rightarrow> x)" unfolding t(2) one using xs k by (cases xs) (auto simp: wr_one)
    have "open_at t fd inode (off + k)" using o(2) len by (simp add: open_at_def t(3,4))
    moreover have "off + k \<le> file_size t inode" using k o(1) sf(1) by auto
    ultimately show "data_open fd inode (tl xs) t"
      unfolding data_open_def using o len sf t(3,5) rest by auto
    show "keeps_file j s t" if "j \<noteq> fd" for j using that t(3-7) by (simp add: keeps_file_def)
    show "same_image s (ram t)" by (rule im)
    show "fd_index t = fd_index s" by (rule t(7))
    show "kinds t = kinds s" using len by (intro nth_equalityI) (auto simp: kinds_def t(3) nth_list_update fd_kind_def)
  qed
qed

text \<open>
  A file in the middle of a line: \<open>l\<close> is left of the line and \<open>r\<close> follows its line break; the line ends
  with the file when \<open>fin\<close> is 1. Once the character is a line break the line is over.
\<close>

definition stream :: "nat \<Rightarrow> u32 \<Rightarrow> u32 \<Rightarrow> int \<Rightarrow> u8 list \<Rightarrow> u8 list \<Rightarrow> int \<Rightarrow> 'a fs_state_scheme \<Rightarrow> bool" where
  "stream fd inode c eof l r fin s \<longleftrightarrow> 0x0A \<notin> set l \<and> fin \<in> {0, 1} \<and>
     (if ram s c = 0x0A then l = [] \<and> eof = fin \<and> (fin = 0 \<longrightarrow> data_open fd inode r s)
      else eof = 0 \<and> (if fin = 0 then data_open fd inode (l @ 0x0A # r) s else data_open fd inode l s))"

definition next_char_of :: "u8 list \<Rightarrow> u8" where
  "next_char_of l = (case l of [] \<Rightarrow> 0x0A | x # _ \<Rightarrow> x)"

lemma region_1: "region a (Suc 0) = {a}"
  by (auto simp: region_def unat_eq_zero)

lemma stream_kept:
  assumes "stream fd inode c eof l r fin s" "keeps_file fd s t" "same_image s (ram t)" "ram t c = ram s c"
  shows "stream fd inode c eof l r fin t"
  using assms(1) data_open_kept [OF _ assms(2,3)] unfolding stream_def assms(4) by (simp split: if_splits)

lemma stream_next:
  assumes "stream fd inode c eof l r fin s" "c \<noteq> 0" "apart c 1 (BOOT_BLOCK_PTR s) (image_len s)"
  obtains eof' t where "frame_char junk irqs (int fd) c eof s = Some (eof', t)" "stream fd inode c eof' (tl l) r fin t"
    "ram t c = next_char_of l" "same_but {c} (ram s) (ram t)" "same_image s (ram t)" "\<And>j. j \<noteq> fd \<Longrightarrow> keeps_file j s t"
    "fd_index t = fd_index s" "kinds t = kinds s"
proof (cases "ram s c = 0x0A")
  case True
  then have "l = []" using assms(1) by (simp add: stream_def)
  then show thesis using that [of eof s] assms(1) True
    by (simp add: frame_char_def next_char_of_def same_but_def keeps_file_def)
next
  case False
  define xs where "xs = (if fin = 0 then l @ 0x0A # r else l)"
  have o: "data_open fd inode xs s" "eof = 0" using assms(1) False by (auto simp: stream_def xs_def)
  obtain t where t: "sys_read junk irqs (int fd) c 1 s = Some (if xs = [] then 0 else 1, t)"
      "ram t = (ram s)(c := case xs of [] \<Rightarrow> 0 | x # _ \<Rightarrow> x)" "data_open fd inode (tl xs) t"
      "\<And>j. j \<noteq> fd \<Longrightarrow> keeps_file j s t" "same_image s (ram t)" "fd_index t = fd_index s" "kinds t = kinds s"
    using read_next [OF o(1) assms(2,3)] by metis
  show thesis
  proof (cases "xs = []")
    case True
    let ?t = "t\<lparr>ram := (ram t)(c := 0x0A)\<rparr>"
    have fin: "fin = 1" "l = []" using True assms(1) by (auto simp: xs_def stream_def split: if_splits)
    have "c \<notin> region (BOOT_BLOCK_PTR s) (image_len s)" using apart_region [OF assms(3)] by (simp add: region_1)
    then have "same_image s (ram ?t)" using t(5) by (simp add: same_image_def)
    then show thesis using that [of 1 ?t] False True t(1,2,4,6,7) fin
      by (simp add: kinds_def frame_char_def stream_def next_char_of_def same_but_def keeps_file_def)
  next
    case nonempty: False
    then have "ram t c = next_char_of l" "stream fd inode c 0 (tl l) r fin t"
      using t(2,3) assms(1) by (cases l; auto simp: xs_def next_char_of_def stream_def split: if_splits)+
    then show thesis using that [of 0 t] False nonempty t o(2) by (simp add: frame_char_def same_but_def)
  qed
qed

section \<open>Placing the items\<close>

text \<open>The memory the program writes to: its items, the screen, and its variables.\<close>

definition fish_regions :: "fish_symbols \<Rightarrow> fish_stack \<Rightarrow> (u32 \<times> nat) list" where
  "fish_regions F L = [(blink_array F, 32000), (VIDEO, 4000), (mp1_list_head F, 4), (vmem_base_addr F, 4), (c0_at L, 1), (c1_at L, 1),
     (struct_at L, 16), (main_at L, 16), (tmp_at L, 16), (ret_at L, 4)]"

text \<open>These regions are apart from each other and from the file system image.\<close>

definition fish_places :: "fish_symbols \<Rightarrow> fish_stack \<Rightarrow> 'a fs_state_scheme \<Rightarrow> bool" where
  "fish_places F L s \<longleftrightarrow> blink_array F \<noteq> 0 \<and> unat (blink_array F) + 32000 \<le> 2 ^ 32 \<and> c0_at L \<noteq> 0 \<and> c1_at L \<noteq> 0
     \<and> ret_at L \<noteq> 0 \<and> garbage_at L \<noteq> 0 \<and> vmem_base_addr F \<noteq> 0 \<and> vmem_base_addr F \<noteq> FOUR_MB
     \<and> sorted_wrt (\<lambda>(a, n) (b, k). apart a n b k) (fish_regions F L)
     \<and> (\<forall>(a, n)\<in>set (fish_regions F L). apart a n (BOOT_BLOCK_PTR s) (image_len s))"

definition fish_area :: "fish_symbols \<Rightarrow> fish_stack \<Rightarrow> u32 set" where
  "fish_area F L = (\<Union>(a, n)\<in>set (fish_regions F L). region a n)"

text \<open>What adding an item writes to.\<close>

definition add_area :: "fish_symbols \<Rightarrow> fish_stack \<Rightarrow> u32 set" where
  "add_area F L = region (blink_array F) 32000 \<union> region (mp1_list_head F) 4 \<union> region VIDEO 4000 \<union> region (tmp_at L) 16
     \<union> region (struct_at L) 16"

text \<open>What the device is in.\<close>

definition device_area :: "fish_symbols \<Rightarrow> u32 set" where
  "device_area F = region (blink_array F) 32000 \<union> region VIDEO 4000 \<union> region (mp1_list_head F) 4 \<union> region (vmem_base_addr F) 4"

lemma fish_placesD:
  assumes "fish_places F L s"
  shows "layout F VIDEO" "stack_at F VIDEO (tmp_at L)" "stack_at F VIDEO (struct_at L)" "stack_at F VIDEO (main_at L)"
    "apart (tmp_at L) 16 (struct_at L) 16" "apart (tmp_at L) 16 (main_at L) 16"
    "c0_at L \<noteq> 0" "c1_at L \<noteq> 0" "c0_at L \<noteq> c1_at L"
    "apart (c0_at L) 1 (BOOT_BLOCK_PTR s) (image_len s)" "apart (c1_at L) 1 (BOOT_BLOCK_PTR s) (image_len s)"
    "fish_area F L \<inter> region (BOOT_BLOCK_PTR s) (image_len s) = {}"
    "{c0_at L, c1_at L} \<inter> (add_area F L \<union> region (vmem_base_addr F) 4) = {}" "region (ret_at L) 4 \<inter> device_area F = {}"
proof -
  have ap: "sorted_wrt (\<lambda>(a, n) (b, k). apart a n b k) (fish_regions F L)" "c0_at L \<noteq> 0" "c1_at L \<noteq> 0" "blink_array F \<noteq> 0"
      "unat (blink_array F) + 32000 \<le> 2 ^ 32" and im: "\<forall>(a, n)\<in>set (fish_regions F L). apart a n (BOOT_BLOCK_PTR s) (image_len s)"
    using assms by (simp_all add: fish_places_def)
  show "layout F VIDEO" "stack_at F VIDEO (tmp_at L)" "stack_at F VIDEO (struct_at L)" "stack_at F VIDEO (main_at L)"
      "apart (tmp_at L) 16 (struct_at L) 16" "apart (tmp_at L) 16 (main_at L) 16" "c0_at L \<noteq> 0" "c1_at L \<noteq> 0"
    using ap by (simp_all add: fish_regions_def layout_def stack_at_def apart_sym)
  have "apart (c0_at L) 1 (c1_at L) 1" using ap(1) by (simp add: fish_regions_def)
  then show "c0_at L \<noteq> c1_at L" using apart_region region_1 by force
  show "apart (c0_at L) 1 (BOOT_BLOCK_PTR s) (image_len s)" "apart (c1_at L) 1 (BOOT_BLOCK_PTR s) (image_len s)"
    using im by (simp_all add: fish_regions_def)
  show "fish_area F L \<inter> region (BOOT_BLOCK_PTR s) (image_len s) = {}"
    using im apart_region unfolding fish_area_def by fastforce
  have "\<forall>(a, n)\<in>{(blink_array F, 32000), (mp1_list_head F, 4), (VIDEO, 4000), (tmp_at L, 16), (struct_at L, 16),
      (vmem_base_addr F, 4)}. apart a n (c0_at L) 1 \<and> apart a n (c1_at L) 1"
    using ap(1) by (simp add: fish_regions_def apart_sym)
  then show "{c0_at L, c1_at L} \<inter> (add_area F L \<union> region (vmem_base_addr F) 4) = {}"
    using apart_region [of _ _ _ 1] by (force simp: add_area_def region_1)
  have "\<forall>(a, n)\<in>{(blink_array F, 32000), (VIDEO, 4000), (mp1_list_head F, 4), (vmem_base_addr F, 4)}. apart (ret_at L) 4 a n"
    using ap(1) by (simp add: fish_regions_def apart_sym)
  then show "region (ret_at L) 4 \<inter> device_area F = {}" using apart_region unfolding device_area_def by blast
qed

lemma add_area_sub: "add_area F L \<subseteq> fish_area F L"
  by (auto simp: add_area_def fish_area_def fish_regions_def)

text \<open>The lengths in the structure that \<open>add_frames\<close> passes.\<close>

definition lengths_15 :: "fish_stack \<Rightarrow> mem \<Rightarrow> bool" where
  "lengths_15 L m \<longleftrightarrow> ld16 m (struct_at L + ON_LENGTH) = 15 \<and> ld16 m (struct_at L + OFF_LENGTH) = 15"

text \<open>The item for a place of the frames, if one of them is not blank there, and what adding it does.\<close>

definition visible :: "u8 \<Rightarrow> u8" where
  "visible c = (if c = 0x0A then 0x20 else c)"

definition frame_item :: "nat \<Rightarrow> nat \<Rightarrow> u8 \<Rightarrow> u8 \<Rightarrow> mp1_blink_struct list" where
  "frame_item row col x y = (if visible x = 0x20 \<and> visible y = 0x20 then []
     else [\<lparr>location = of_nat (row * 80 + col + 40), on_char = visible x, off_char = visible y, on_length = 15, off_length = 15,
            countdown = 15, status = 1\<rparr>])"

definition place :: "mp1_blink_struct \<Rightarrow> mp1_blink_struct list \<times> u8 list \<Rightarrow> mp1_blink_struct list \<times> u8 list" where
  "place e d = (e # fst d, (snd d)[unat (location e) := on_char e])"

text \<open>Memory that changes outside the device.\<close>

lemma blinking_same:
  assumes "blinking F VIDEO m es scr" "same_but X m m'" "X \<inter> device_area F = {}"
  shows "blinking F VIDEO m' es scr"
proof -
  obtain "is" where i: "slots_ok F VIDEO m is" "es = items F m is" "scr = screen_cells m VIDEO" using assms(1) by (auto simp: blinking_def)
  show ?thesis using slots_ok_elsewhere [OF i(1) assms(2) assms(3) [unfolded device_area_def]] i(2,3) by (auto simp: blinking_def)
qed

lemma stack_device: "stack_at F VIDEO a \<Longrightarrow> region a 16 \<inter> device_area F = {}"
  unfolding device_area_def by (rule stack_atD)

text \<open>Filling in a structure and adding it.\<close>

definition filled :: "u32 \<Rightarrow> u8 \<Rightarrow> u8 \<Rightarrow> u16 \<Rightarrow> mem \<Rightarrow> mem" where
  "filled p x y l m = st16 (m(p + ON_CHAR := x, p + OFF_CHAR := y)) (p + LOCATION) l"

lemma filled_values:
  "item_at (filled p x y l m) p = (item_at m p)\<lparr>location := l, on_char := x, off_char := y\<rparr>"
  "same_but (region p 16) m (filled p x y l m)"
proof -
  show "item_at (filled p x y l m) p = (item_at m p)\<lparr>location := l, on_char := x, off_char := y\<rparr>"
    by (simp add: filled_def item_at_def blink_offsets field_simps16)
  show "same_but (region p 16) m (filled p x y l m)"
  proof (rule same_butI)
    fix a assume a: "a \<notin> region p 16"
    have "a \<noteq> p + of_nat i" if "i < 16" for i using a in_region [of i 16 p] that by auto
    from this [of 0] this [of 1] this [of 2] this [of 3] show "filled p x y l m a = m a"
      by (simp add: filled_def blink_offsets st16_other)
  qed
qed

lemma fill_adds:
  assumes "blinking F VIDEO m es scr" "length es < 2000" "stack_at F VIDEO tmp" "stack_at F VIDEO p" "apart tmp 16 p 16" "l \<noteq> 0" "l < 2000"
    and e: "e = added ((item_at m p)\<lparr>location := l, on_char := x, off_char := y\<rparr>)"
  shows "\<exists>m'. mp1_ioctl F tmp (filled p x y l m) p RTC_ADD = Some (0, m')
    \<and> blinking F VIDEO m' (fst (place e (es, scr))) (snd (place e (es, scr)))
    \<and> item_at m' p = (item_at m p)\<lparr>location := l, on_char := x, off_char := y\<rparr>
    \<and> same_but (region (blink_array F) 32000 \<union> region (mp1_list_head F) 4 \<union> region VIDEO 4000 \<union> region tmp 16 \<union> region p 16) m m'"
proof -
  let ?m = "filled p x y l m"
  have b: "blinking F VIDEO ?m es scr" using blinking_same [OF assms(1) filled_values(2) stack_device [OF assms(4)]] .
  have l: "ld16 ?m p = l" using arg_cong [OF filled_values(1), of location] by simp
  let ?X = "region (blink_array F) 32000 \<union> region (mp1_list_head F) 4 \<union> region VIDEO 4000 \<union> region tmp 16"
  obtain m' where m': "mp1_ioctl_add F tmp ?m p = (0, m')"
      "blinking F VIDEO m' (added (item_at ?m p) # es) (scr[unat l := on_char (item_at ?m p)])" "same_but ?X ?m m'"
    using add_adds [OF b assms(2,3,5)] assms(6,7) l by auto
  have "region p 16 \<inter> ?X = {}" using stack_atD [OF assms(4)] apart_region [OF assms(5)] by blast
  then have "rd m' p 16 = rd ?m p 16" by (rule same_but_rd [OF m'(3)]) simp
  then have "item_at m' p = item_at ?m p" by (rule item_at_rd(1))
  moreover have "same_but (?X \<union> region p 16) m m'"
    by (rule same_but_trans [OF same_but_mono [OF filled_values(2)] same_but_mono [OF m'(3)]]) blast+
  moreover have "place e (es, scr) = (added (item_at ?m p) # es, scr[unat l := on_char (item_at ?m p)])"
    by (simp add: e place_def filled_values(1) added_def)
  moreover have "mp1_ioctl F tmp ?m p RTC_ADD = Some (0, m')" using m'(1) by (simp add: mp1_ioctl_def blink_commands)
  ultimately show ?thesis using m'(2) filled_values(1) [of p x y l m] by (intro exI [of _ m']) simp
qed

lemma place_adds:
  assumes "fish_places F L s" "blinking F VIDEO m (fst d) (snd d)" "lengths_15 L m" "row * 80 + col + 40 < 2000"
    "length (fst d) + length (frame_item row col (m (c0_at L)) (m (c1_at L))) \<le> 2000"
  obtains m' where "add_place F L (int row) (int col) m = Some m'" "lengths_15 L m'"
    "(let d' = fold place (frame_item row col (m (c0_at L)) (m (c1_at L))) d in blinking F VIDEO m' (fst d') (snd d'))"
    "m' (c0_at L) = m (c0_at L)" "m' (c1_at L) = m (c1_at L)" "same_but (fish_area F L) m m'"
proof (cases "frame_item row col (m (c0_at L)) (m (c1_at L)) = []")
  case True
  then have "add_place F L (int row) (int col) m = Some m"
    by (auto simp: add_place_def frame_item_def visible_def split: if_splits)
  then show thesis using that [of m] True assms(2,3) by (simp add: same_but_def)
next
  case False
  note h = fish_placesD [OF assms(1)]
  let ?x = "visible (m (c0_at L))" and ?y = "visible (m (c1_at L))" and ?l = "of_nat (row * 80 + col + 40) :: u16"
  have u: "unat ?l = row * 80 + col + 40" using assms(4) by (subst unat_of_nat) simp
  have l: "?l \<noteq> 0" "?l < 2000" using u assms(4) by (auto simp: word_less_nat_alt unat_eq_zero [symmetric])
  have i: "frame_item row col (m (c0_at L)) (m (c1_at L)) = [added ((item_at m (struct_at L))\<lparr>location := ?l, on_char := ?x, off_char := ?y\<rparr>)]"
    using False assms(3) by (simp add: frame_item_def added_def item_at_def lengths_15_def split: if_splits)
  have run: "add_place F L (int row) (int col) m = map_option snd (mp1_ioctl F (tmp_at L) (filled (struct_at L) ?x ?y ?l m) (struct_at L) RTC_ADD)"
    using False by (auto simp: add_place_def frame_item_def visible_def filled_def split: if_splits)
  obtain m' where m': "mp1_ioctl F (tmp_at L) (filled (struct_at L) ?x ?y ?l m) (struct_at L) RTC_ADD = Some (0, m')"
      "let d' = fold place (frame_item row col (m (c0_at L)) (m (c1_at L))) d in blinking F VIDEO m' (fst d') (snd d')"
      "item_at m' (struct_at L) = (item_at m (struct_at L))\<lparr>location := ?l, on_char := ?x, off_char := ?y\<rparr>"
      "same_but (add_area F L) m m'"
    using fill_adds [OF assms(2) _ h(2,3,5) l refl, of ?x ?y] assms(5) i by (auto simp: add_area_def)
  have "lengths_15 L m'" using arg_cong [OF m'(3), of on_length] arg_cong [OF m'(3), of off_length] assms(3)
    by (simp add: lengths_15_def item_at_def)
  then show thesis using that m'(1,2) run same_butD [OF m'(4)] h(13) same_but_mono [OF m'(4) add_area_sub] by simp
qed

section \<open>A row\<close>

text \<open>What reading the frames keeps: the file system and the descriptors outside \<open>X\<close>.\<close>

definition carries :: "nat set \<Rightarrow> 'a fs_state_scheme \<Rightarrow> 'a fs_state_scheme \<Rightarrow> bool" where
  "carries X s t \<longleftrightarrow> filesystem t = filesystem s \<and> BOOT_BLOCK_PTR t = BOOT_BLOCK_PTR s \<and> same_image s (ram t) \<and> fd_index t = fd_index s
     \<and> (\<forall>j. j \<notin> X \<longrightarrow> keeps_file j s t)"

lemma carries_trans: "carries X s t \<Longrightarrow> carries X t u \<Longrightarrow> carries X s u"
  by (auto simp: carries_def keeps_file_def same_image_def image_len_def)

lemma carries_mono: "carries X s t \<Longrightarrow> X \<subseteq> Y \<Longrightarrow> carries Y s t"
  by (auto simp: carries_def)

lemma carriesI:
  assumes "\<And>j. j \<notin> X \<Longrightarrow> keeps_file j s t" "finite X" "same_image s (ram t)" "fd_index t = fd_index s"
  shows "carries X s t"
proof -
  obtain j where "j \<notin> X" using ex_new_if_finite [OF infinite_UNIV_nat assms(2)] by blast
  then show ?thesis using assms by (auto simp: carries_def keeps_file_def)
qed

lemma carriesD: "carries X s t \<Longrightarrow> j \<notin> X \<Longrightarrow> keeps_file j s t" "carries X s t \<Longrightarrow> same_image s (ram t)"
  by (simp_all add: carries_def)

lemma carries_index: "carries X s t \<Longrightarrow> fd_index t = fd_index s"
  by (simp add: carries_def)

lemma carries_length:
  assumes "carries X s t" "finite X"
  shows "length (kinds t) = length (kinds s)"
proof -
  obtain j where "j \<notin> X" using ex_new_if_finite [OF infinite_UNIV_nat assms(2)] by blast
  then show ?thesis using assms(1) by (simp add: carries_def keeps_file_def kinds_def)
qed

lemma carries_ram: "same_image s m \<Longrightarrow> carries {} s (s\<lparr>ram := m\<rparr>)"
  by (simp add: carries_def keeps_file_def)

lemma fish_places_same: "carries X s t \<Longrightarrow> fish_places F L t = fish_places F L s"
  by (simp add: carries_def fish_places_def image_len_def)

lemma area_image:
  assumes "fish_places F L s" "same_but (fish_area F L) (ram s) m"
  shows "same_image s m"
  using fish_placesD(12) [OF assms(1)] assms(2) unfolding same_image_def same_but_def by blast

text \<open>The device of the program, with the list and the screen \<open>d\<close>.\<close>

definition fishing :: "fish_symbols \<Rightarrow> fish_stack \<Rightarrow> mp1_blink_struct list \<times> u8 list \<Rightarrow> 'a fs_state_scheme \<Rightarrow> bool" where
  "fishing F L d s \<longleftrightarrow> fish_places F L s \<and> blinking F VIDEO (ram s) (fst d) (snd d) \<and> lengths_15 L (ram s)"

lemma fishing_chars:
  assumes "fishing F L d s" "carries X s t" "same_but {c0_at L, c1_at L} (ram s) (ram t)"
  shows "fishing F L d t"
proof -
  have p: "fish_places F L s" "lengths_15 L (ram s)" using assms(1) by (simp_all add: fishing_def)
  have ap: "{c0_at L, c1_at L} \<inter> (add_area F L \<union> region (vmem_base_addr F) 4) = {}" by (rule fish_placesD(13) [OF p(1)])
  have "{c0_at L, c1_at L} \<inter> device_area F = {}" using ap by (auto simp: add_area_def device_area_def)
  then have e: "blinking F VIDEO (ram t) (fst d) (snd d)"
    using blinking_same [OF _ assms(3)] assms(1) by (simp add: fishing_def)
  have "rd (ram t) (struct_at L) 16 = rd (ram s) (struct_at L) 16"
    by (rule same_but_rd [OF assms(3)]) (use ap in \<open>auto simp: add_area_def\<close>)
  then have "item_at (ram t) (struct_at L) = item_at (ram s) (struct_at L)" by (rule item_at_rd(1))
  then have "lengths_15 L (ram t)" using p(2) by (simp add: lengths_15_def item_at_def)
  then show ?thesis using e p(1) fish_places_same [OF assms(2)] by (simp add: fishing_def)
qed

text \<open>The items of a row, from a column on; a line that has ended is blank.\<close>

function row_items :: "nat \<Rightarrow> nat \<Rightarrow> u8 list \<Rightarrow> u8 list \<Rightarrow> mp1_blink_struct list" where
  "row_items row col l0 l1 = (if l0 = [] \<and> l1 = [] then []
     else frame_item row col (next_char_of l0) (next_char_of l1) @ row_items row (Suc col) (tl l0) (tl l1))"
  by pat_completeness auto
termination by (relation "measure (\<lambda>(_, _, l0, l1). length l0 + length l1)") (auto simp: neq_Nil_conv)

declare row_items.simps [simp del]

lemma next_char_end: "0x0A \<notin> set l \<Longrightarrow> next_char_of l = 0x0A \<longleftrightarrow> l = []"
  by (cases l) (auto simp: next_char_of_def)

lemma stream_char: "stream fd inode c eof l r fin s \<Longrightarrow> 0x0A \<notin> set l"
  by (simp add: stream_def)

lemma stream_over: "stream fd inode c eof l r fin s \<Longrightarrow> ram s c = 0x0A \<Longrightarrow> eof = fin"
  by (simp add: stream_def)

text \<open>Both characters of a column.\<close>

lemma column_read:
  assumes "fishing F L d s" "stream fd0 i0 (c0_at L) eof0 l0 r0 fin0 s" "stream fd1 i1 (c1_at L) eof1 l1 r1 fin1 s" "fd0 \<noteq> fd1"
  obtains e0 e1 s1 t where "frame_char j0 q0 (int fd0) (c0_at L) eof0 s = Some (e0, s1)"
    "frame_char j1 q1 (int fd1) (c1_at L) eof1 s1 = Some (e1, t)" "fishing F L d t"
    "stream fd0 i0 (c0_at L) e0 (tl l0) r0 fin0 t" "stream fd1 i1 (c1_at L) e1 (tl l1) r1 fin1 t"
    "ram t (c0_at L) = next_char_of l0" "ram t (c1_at L) = next_char_of l1" "carries {fd0, fd1} s t"
    "kinds t = kinds s"
proof -
  have p: "fish_places F L s" using assms(1) by (simp add: fishing_def)
  note h = fish_placesD [OF p]
  obtain e0 s1 where a: "frame_char j0 q0 (int fd0) (c0_at L) eof0 s = Some (e0, s1)" "stream fd0 i0 (c0_at L) e0 (tl l0) r0 fin0 s1"
      "ram s1 (c0_at L) = next_char_of l0" "same_but {c0_at L} (ram s) (ram s1)" "same_image s (ram s1)" "\<And>j. j \<noteq> fd0 \<Longrightarrow> keeps_file j s s1"
      "fd_index s1 = fd_index s" "kinds s1 = kinds s"
    using stream_next [OF assms(2) h(7,10)] by metis
  have ca: "carries {fd0} s s1" by (rule carriesI) (use a in auto)
  have "stream fd1 i1 (c1_at L) eof1 l1 r1 fin1 s1"
    using stream_kept [OF assms(3) a(6) a(5)] same_butD [OF a(4)] assms(4) h(9) by auto
  moreover have "apart (c1_at L) 1 (BOOT_BLOCK_PTR s1) (image_len s1)"
    using fish_placesD(11) fish_places_same [OF ca] p by blast
  ultimately obtain e1 t where b: "frame_char j1 q1 (int fd1) (c1_at L) eof1 s1 = Some (e1, t)"
      "stream fd1 i1 (c1_at L) e1 (tl l1) r1 fin1 t" "ram t (c1_at L) = next_char_of l1" "same_but {c1_at L} (ram s1) (ram t)"
      "same_image s1 (ram t)" "\<And>j. j \<noteq> fd1 \<Longrightarrow> keeps_file j s1 t" "fd_index t = fd_index s1" "kinds t = kinds s1"
    using stream_next [OF _ h(8)] by metis
  have cb: "carries {fd1} s1 t" by (rule carriesI) (use b in auto)
  have c0: "ram t (c0_at L) = ram s1 (c0_at L)" using same_butD [OF b(4)] h(9) by auto
  have s0: "stream fd0 i0 (c0_at L) e0 (tl l0) r0 fin0 t" by (rule stream_kept [OF a(2) b(6) b(5) c0]) (use assms(4) in simp)
  have c: "carries {fd0, fd1} s t" by (rule carries_trans [OF carries_mono [OF ca] carries_mono [OF cb]]) auto
  have "same_but {c0_at L, c1_at L} (ram s) (ram t)"
    by (rule same_but_trans [OF same_but_mono [OF a(4)] same_but_mono [OF b(4)]]) auto
  then have "fishing F L d t" by (rule fishing_chars [OF assms(1) c])
  then show thesis using that a(1,3,8) b(1-3,8) s0 c c0 by simp
qed

lemma row_drawn:
  assumes "fishing F L d s" "stream fd0 i0 (c0_at L) eof0 l0 r0 fin0 s" "stream fd1 i1 (c1_at L) eof1 l1 r1 fin1 s" "fd0 \<noteq> fd1"
    "row * 80 + col + 40 + max (length l0) (length l1) \<le> 2000" "length (fst d) + length (row_items row col l0 l1) \<le> 2000"
  shows "\<exists>k' t. frame_row w F L (int fd0) (int fd1) (int row) (int col) eof0 eof1 k s = Some (fin0, fin1, k', t)
    \<and> fishing F L (fold place (row_items row col l0 l1) d) t \<and> carries {fd0, fd1} s t \<and> kinds t = kinds s
    \<and> ram t (c0_at L) = 0x0A \<and> stream fd0 i0 (c0_at L) fin0 [] r0 fin0 t
    \<and> ram t (c1_at L) = 0x0A \<and> stream fd1 i1 (c1_at L) fin1 [] r1 fin1 t"
  using assms(1-3,5,6)
proof (induction "length l0 + length l1" arbitrary: d s eof0 eof1 l0 l1 col k rule: less_induct)
  case less
  obtain e0 e1 s1 u where u: "frame_char (fst (w k)) (snd (w k)) (int fd0) (c0_at L) eof0 s = Some (e0, s1)"
    "frame_char (fst (w (k + 1))) (snd (w (k + 1))) (int fd1) (c1_at L) eof1 s1 = Some (e1, u)" "fishing F L d u"
    "stream fd0 i0 (c0_at L) e0 (tl l0) r0 fin0 u" "stream fd1 i1 (c1_at L) e1 (tl l1) r1 fin1 u"
    "ram u (c0_at L) = next_char_of l0" "ram u (c1_at L) = next_char_of l1" "carries {fd0, fd1} s u" "kinds u = kinds s"
    using column_read [OF less.prems(1-3) assms(4)] by metis
  note nl = next_char_end [OF stream_char [OF less.prems(2)]] next_char_end [OF stream_char [OF less.prems(3)]]
  show ?case
  proof (cases "l0 = [] \<and> l1 = []")
    case True
    then have c: "ram u (c0_at L) = 0x0A" "ram u (c1_at L) = 0x0A" using u(6,7) nl by simp_all
    have "e0 = fin0" "e1 = fin1" using stream_over [OF u(4) c(1)] stream_over [OF u(5) c(2)] by simp_all
    then have "frame_row w F L (int fd0) (int fd1) (int row) (int col) eof0 eof1 k s = Some (fin0, fin1, k + 2, u)"
      using u(1,2) c by (subst frame_row.simps) simp
    then show ?thesis using True u c \<open>e0 = fin0\<close> \<open>e1 = fin1\<close> by (auto simp: row_items.simps)
  next
    case False
    let ?i = "frame_item row col (next_char_of l0) (next_char_of l1)"
    have items: "row_items row col l0 l1 = ?i @ row_items row (Suc col) (tl l0) (tl l1)" using False by (subst row_items.simps) auto
    have p: "fish_places F L u" "blinking F VIDEO (ram u) (fst d) (snd d)" "lengths_15 L (ram u)" using u(3) by (simp_all add: fishing_def)
    have "0 < max (length l0) (length l1)" using False by (auto simp: less_max_iff_disj)
    then have col: "row * 80 + col + 40 < 2000" "length (fst d) + length ?i \<le> 2000" using less.prems(4,5) items by simp_all
    define d' where "d' = fold place ?i d"
    obtain m where m: "add_place F L (int row) (int col) (ram u) = Some m" "lengths_15 L m" "blinking F VIDEO m (fst d') (snd d')"
        "m (c0_at L) = ram u (c0_at L)" "m (c1_at L) = ram u (c1_at L)" "same_but (fish_area F L) (ram u) m"
      using place_adds [OF p col(1)] col(2) unfolding u(6,7) d'_def Let_def by metis
    let ?u = "u\<lparr>ram := m\<rparr>"
    have cu: "carries {} u ?u" using area_image [OF p(1) m(6)] by (rule carries_ram)
    have f: "fishing F L d' ?u" using m(2,3) p(1) fish_places_same [OF cu] by (simp add: fishing_def)
    have st: "stream fd0 i0 (c0_at L) e0 (tl l0) r0 fin0 ?u" "stream fd1 i1 (c1_at L) e1 (tl l1) r1 fin1 ?u"
      using stream_kept [OF u(4) carriesD(1) [OF cu] carriesD(2) [OF cu]] stream_kept [OF u(5) carriesD(1) [OF cu] carriesD(2) [OF cu]] m(4,5)
      by simp_all
    have less1: "length (tl l0) + length (tl l1) < length l0 + length l1" using False by (auto simp: neq_Nil_conv)
    have "length (fst d') = length (fst d) + length ?i" by (simp add: d'_def frame_item_def place_def)
    then have fits: "row * 80 + Suc col + 40 + max (length (tl l0)) (length (tl l1)) \<le> 2000"
        "length (fst d') + length (row_items row (Suc col) (tl l0) (tl l1)) \<le> 2000"
      using less.prems(4,5) items False by (auto simp: neq_Nil_conv max_def split: if_splits)
    obtain k' t where t: "frame_row w F L (int fd0) (int fd1) (int row) (int (Suc col)) e0 e1 (k + 2) ?u = Some (fin0, fin1, k', t)"
        "fishing F L (fold place (row_items row (Suc col) (tl l0) (tl l1)) d') t" "carries {fd0, fd1} ?u t"
        "ram t (c0_at L) = 0x0A" "stream fd0 i0 (c0_at L) fin0 [] r0 fin0 t"
        "ram t (c1_at L) = 0x0A" "stream fd1 i1 (c1_at L) fin1 [] r1 fin1 t" "kinds t = kinds ?u"
      using less.hyps [OF less1 f st fits] by blast
    have "frame_row w F L (int fd0) (int fd1) (int row) (int col) eof0 eof1 k s
        = frame_row w F L (int fd0) (int fd1) (int row) (int (Suc col)) e0 e1 (k + 2) ?u"
      using u(1,2) m(1) False nl unfolding u(6,7) by (subst frame_row.simps) (auto simp: u(6,7) add.commute)
    moreover have "carries {fd0, fd1} s t"
      using carries_trans [OF u(8) carries_trans [OF carries_mono [OF cu] t(3)]] by simp
    moreover have "kinds t = kinds s" using t(8) u(9) by (simp add: kinds_def)
    ultimately show ?thesis using t(1,2,4-7) items by (auto simp: d'_def)
  qed
qed

section \<open>All rows\<close>

text \<open>Closing a descriptor changes it and the one that was opened last.\<close>

lemma close_carries:
  assumes "fd_index s < 8"
  shows "carries {fd, fd_index s} s (snd (sys_close (int fd) s))"
proof (rule carriesI)
  show "keeps_file j s (snd (sys_close (int fd) s))" if j: "j \<notin> {fd, fd_index s}" for j
    unfolding keeps_file_def using j assms
    by (simp add: sys_close_screen) (auto simp: sys_close_def Let_def rtc_close_def filesystem_close_def null_fops_def upd_file_def
      upd_dentry_def FILE_ARRAY_SIZE_def)
  show "same_image s (ram (snd (sys_close (int fd) s)))" by (simp add: sys_close_screen same_image_def)
  show "fd_index (snd (sys_close (int fd) s)) = fd_index s" by (rule sys_close_screen)
qed simp

text \<open>A frame as its lines, with line breaks between them; its first line.\<close>

fun unlines :: "u8 list list \<Rightarrow> u8 list" where
  "unlines [] = []"
| "unlines [l] = l"
| "unlines (l # ls) = l @ 0x0A # unlines ls"

definition first :: "'b list list \<Rightarrow> 'b list" where
  "first ls = (case ls of [] \<Rightarrow> [] | l # _ \<Rightarrow> l)"

lemma first_simps [simp]: "first [] = []" "first (l # ls) = l"
  by (simp_all add: first_def)

text \<open>The file at the start of a row, with the lines \<open>ls\<close> left.\<close>

definition frame_left :: "nat \<Rightarrow> u32 \<Rightarrow> u32 \<Rightarrow> int \<Rightarrow> u8 list list \<Rightarrow> 'a fs_state_scheme \<Rightarrow> bool" where
  "frame_left fd inode c eof ls s \<longleftrightarrow> (\<forall>l\<in>set ls. 0x0A \<notin> set l) \<and>
     (if ls = [] then eof = 1 \<and> ram s c = 0x0A else eof = 0 \<and> ram s c \<noteq> 0x0A \<and> data_open fd inode (unlines ls) s)"

definition final :: "'b list \<Rightarrow> int" where
  "final ls = (if length ls \<le> 1 then 1 else 0)"

lemma frame_stream:
  assumes "frame_left fd inode c eof ls s"
  shows "stream fd inode c eof (first ls) (unlines (tl ls)) (final ls) s"
  using assms by (cases ls rule: unlines.cases) (auto simp: frame_left_def stream_def first_def final_def)

lemma row_ended:
  assumes "stream fd inode c (final ls) [] (unlines (tl ls)) (final ls) s" "ram s c = 0x0A" "\<forall>l\<in>set ls. 0x0A \<notin> set l"
    "apart c 1 (BOOT_BLOCK_PTR s) (image_len s)" "fd_index s < 8"
  shows "frame_left fd inode c (final ls) (tl ls) (row_end (int fd) c (final ls) s)"
    "carries (if length ls \<le> 1 then {fd, fd_index s} else {}) s (row_end (int fd) c (final ls) s)"
    "same_but {c} (ram s) (ram (row_end (int fd) c (final ls) s))"
proof -
  have im: "same_image s ((ram s)(c := x))" for x
    using apart_region [OF assms(4)] by (auto simp: same_image_def region_1)
  show "same_but {c} (ram s) (ram (row_end (int fd) c (final ls) s))"
    by (simp add: row_end_def sys_close_screen same_but_def)
  show ca: "carries (if length ls \<le> 1 then {fd, fd_index s} else {}) s (row_end (int fd) c (final ls) s)"
  proof (cases "length ls \<le> 1")
    case True
    have "carries {fd, fd_index s} s (s\<lparr>ram := (ram s)(c := 0x0A)\<rparr>)" using carries_mono [OF carries_ram [OF im]] by blast
    from carries_trans [OF this] close_carries [of "s\<lparr>ram := (ram s)(c := 0x0A)\<rparr>" fd] True assms(5)
    show ?thesis by (simp add: row_end_def final_def)
  next
    case False
    then show ?thesis using carries_ram [OF im] by (simp add: row_end_def final_def)
  qed
  show "frame_left fd inode c (final ls) (tl ls) (row_end (int fd) c (final ls) s)"
  proof (cases "length ls \<le> 1")
    case True
    then have "tl ls = []" by (cases ls) auto
    then show ?thesis using True by (simp add: frame_left_def row_end_def final_def sys_close_screen)
  next
    case False
    then obtain l l' ls' where ls: "ls = l # l' # ls'" by (cases ls rule: unlines.cases) auto
    have "data_open fd inode (unlines (tl ls)) s" using assms(1,2) False by (simp add: stream_def final_def)
    then have "data_open fd inode (unlines (tl ls)) (row_end (int fd) c (final ls) s)"
      using data_open_kept [OF _ carriesD [OF ca]] False by simp
    then show ?thesis using ls assms(3) by (simp add: frame_left_def final_def) (simp add: row_end_def)
  qed
qed

text \<open>The items of all rows, and that their places are on the screen.\<close>

primrec picture :: "nat \<Rightarrow> u8 list list \<Rightarrow> u8 list list \<Rightarrow> mp1_blink_struct list" where
  "picture row [] ls1 = []"
| "picture row (l0 # ls0) ls1 = row_items row 0 l0 (first ls1) @ picture (Suc row) ls0 (tl ls1)"

primrec fits :: "nat \<Rightarrow> u8 list list \<Rightarrow> u8 list list \<Rightarrow> bool" where
  "fits row [] ls1 \<longleftrightarrow> True"
| "fits row (l0 # ls0) ls1 \<longleftrightarrow> row * 80 + 40 + max (length l0) (length (first ls1)) \<le> 2000 \<and> fits (Suc row) ls0 (tl ls1)"

lemma fold_place_length [simp]: "length (fst (fold place es d)) = length es + length (fst d)"
  by (induction es arbitrary: d) (simp_all add: place_def)

text \<open>One row: unless the first file ends before the second.\<close>

lemma row_step:
  assumes "fishing F L d s" "frame_left fd0 i0 (c0_at L) e0 (l0 # ls0) s" "frame_left fd1 i1 (c1_at L) e1 ls1 s" "fd0 \<noteq> fd1"
    "fd_index s \<noteq> fd0" "fd_index s < 8" "ls0 \<noteq> [] \<or> length ls1 \<le> 1" "row * 80 + 40 + max (length l0) (length (first ls1)) \<le> 2000"
    "length (fst d) + length (row_items row 0 l0 (first ls1)) \<le> 2000"
  shows "\<exists>k' v. frame_rows w F L (int fd0) (int fd1) (int row) e0 e1 k s
      = frame_rows w F L (int fd0) (int fd1) (int (Suc row)) (final (l0 # ls0)) (final ls1) k' v
    \<and> fishing F L (fold place (row_items row 0 l0 (first ls1)) d) v \<and> frame_left fd0 i0 (c0_at L) (final (l0 # ls0)) ls0 v
    \<and> frame_left fd1 i1 (c1_at L) (final ls1) (tl ls1) v \<and> carries {fd0, fd1, fd_index s} s v"
proof -
  let ?f0 = "final (l0 # ls0)" and ?f1 = "final ls1" and ?d = "fold place (row_items row 0 l0 (first ls1)) d"
  have st: "stream fd0 i0 (c0_at L) e0 l0 (unlines ls0) ?f0 s" "stream fd1 i1 (c1_at L) e1 (first ls1) (unlines (tl ls1)) ?f1 s"
    using frame_stream [OF assms(2)] frame_stream [OF assms(3)] by (simp_all add: first_def)
  obtain k1 t where t: "frame_row w F L (int fd0) (int fd1) (int row) 0 e0 e1 k s = Some (?f0, ?f1, k1, t)"
      "fishing F L ?d t" "carries {fd0, fd1} s t" "ram t (c0_at L) = 0x0A" "stream fd0 i0 (c0_at L) ?f0 [] (unlines ls0) ?f0 t"
      "ram t (c1_at L) = 0x0A" "stream fd1 i1 (c1_at L) ?f1 [] (unlines (tl ls1)) ?f1 t"
    using row_drawn [OF assms(1) st assms(4), of row 0 w k] assms(8,9) by auto
  have h: "c0_at L \<noteq> c1_at L" "apart (c0_at L) 1 (BOOT_BLOCK_PTR t) (image_len t)"
    using t(2) fish_placesD(9,10) unfolding fishing_def by blast+
  have nl: "\<forall>l\<in>set (l0 # ls0). 0x0A \<notin> set l" "\<forall>l\<in>set ls1. 0x0A \<notin> set l"
    using assms(2,3) unfolding frame_left_def by blast+
  have ix: "fd_index t = fd_index s" "fd_index t < 8" using carries_index [OF t(3)] assms(6) by simp_all
  define u where "u = row_end (int fd0) (c0_at L) ?f0 t"
  note r0 = row_ended [of fd0 i0 "c0_at L" "l0 # ls0" t, unfolded list.sel, OF t(5,4) nl(1) h(2) ix(2), folded u_def]
  have cu: "carries {fd0, fd1, fd_index s} t u" by (rule carries_mono [OF r0(2)]) (auto simp: ix)
  have fu: "fishing F L ?d u" by (rule fishing_chars [OF t(2) r0(2) same_but_mono [OF r0(3)]]) simp
  have c1: "ram u (c1_at L) = 0x0A" using t(6) same_butD [OF r0(3)] h(1) by auto
  have "stream fd1 i1 (c1_at L) ?f1 [] (unlines (tl ls1)) ?f1 u"
  proof (cases "length ls1 \<le> 1")
    case True
    then show ?thesis using t(6,7) c1 by (simp add: stream_def final_def)
  next
    case False
    then have "\<not> length (l0 # ls0) \<le> 1" using assms(7) by (cases ls0) auto
    then show ?thesis using stream_kept [OF t(7) carriesD [OF r0(2)]] t(6) c1 by simp
  qed
  moreover have "apart (c1_at L) 1 (BOOT_BLOCK_PTR u) (image_len u)" using fu fish_placesD(11) unfolding fishing_def by blast
  moreover have iu: "fd_index u = fd_index s" using carries_index [OF cu] ix by simp
  moreover define v where "v = row_end (int fd1) (c1_at L) ?f1 u"
  ultimately have r1: "frame_left fd1 i1 (c1_at L) ?f1 (tl ls1) v" "carries (if length ls1 \<le> 1 then {fd1, fd_index u} else {}) u v"
      "same_but {c1_at L} (ram u) (ram v)"
    using row_ended [OF _ c1 nl(2)] assms(6) by simp_all
  have cv: "carries {fd0, fd1, fd_index s} u v" by (rule carries_mono [OF r1(2)]) (auto simp: iu)
  have fv: "fishing F L ?d v" by (rule fishing_chars [OF fu r1(2) same_but_mono [OF r1(3)]]) simp
  have "keeps_file fd0 u v" using carriesD(1) [OF r1(2), of fd0] assms(4,5) by (auto simp: iu)
  moreover have "ram v (c0_at L) = ram u (c0_at L)" using same_butD [OF r1(3)] h(1) by auto
  ultimately have l0: "frame_left fd0 i0 (c0_at L) ?f0 ls0 v"
    using r0(1) data_open_kept [OF _ _ carriesD(2) [OF r1(2)]] unfolding frame_left_def by (cases "ls0 = []") simp_all
  have "e0 = 0" using assms(2) by (simp add: frame_left_def)
  then have "frame_rows w F L (int fd0) (int fd1) (int row) e0 e1 k s = frame_rows w F L (int fd0) (int fd1) (int (Suc row)) ?f0 ?f1 k1 v"
    using t(1) by (subst frame_rows.simps) (simp add: u_def v_def add.commute)
  moreover have "carries {fd0, fd1, fd_index s} s v" using carries_trans [OF carries_mono [OF t(3)] carries_trans [OF cu cv]] by blast
  ultimately show ?thesis using fv l0 r1(1) by blast
qed

lemma rows_drawn:
  assumes "fishing F L d s" "frame_left fd0 i0 (c0_at L) e0 ls0 s" "frame_left fd1 i1 (c1_at L) e1 ls1 s" "fd0 \<noteq> fd1" "fd_index s \<noteq> fd0" "fd_index s < 8"
    "length ls1 \<le> length ls0" "fits row ls0 ls1" "length (fst d) + length (picture row ls0 ls1) \<le> 2000"
  shows "\<exists>k' t. frame_rows w F L (int fd0) (int fd1) (int row) e0 e1 k s = Some (k', t)
    \<and> fishing F L (fold place (picture row ls0 ls1) d) t \<and> carries {fd0, fd1, fd_index s} s t"
  using assms
proof (induction ls0 arbitrary: d s e0 e1 ls1 row k)
  case Nil
  then have "e0 = 1" "e1 = 1" by (simp_all add: frame_left_def)
  then show ?case using Nil.prems(1) by (subst frame_rows.simps) (simp add: carries_def keeps_file_def same_image_def)
next
  case (Cons l0 ls0)
  have c: "ls0 \<noteq> [] \<or> length ls1 \<le> 1" "row * 80 + 40 + max (length l0) (length (first ls1)) \<le> 2000"
      "length (fst d) + length (row_items row 0 l0 (first ls1)) \<le> 2000"
    using Cons.prems(7-9) by auto
  obtain k1 v where v: "frame_rows w F L (int fd0) (int fd1) (int row) e0 e1 k s
        = frame_rows w F L (int fd0) (int fd1) (int (Suc row)) (final (l0 # ls0)) (final ls1) k1 v"
      "fishing F L (fold place (row_items row 0 l0 (first ls1)) d) v" "frame_left fd0 i0 (c0_at L) (final (l0 # ls0)) ls0 v"
      "frame_left fd1 i1 (c1_at L) (final ls1) (tl ls1) v" "carries {fd0, fd1, fd_index s} s v"
    using row_step [OF Cons.prems(1-6) c] by blast
  have iv: "fd_index v = fd_index s" using carries_index [OF v(5)] .
  from Cons.IH [OF v(2-4) Cons.prems(4), of "Suc row" k1] Cons.prems(5-9) iv
  have "\<exists>k' t. frame_rows w F L (int fd0) (int fd1) (int (Suc row)) (final (l0 # ls0)) (final ls1) k1 v = Some (k', t)
      \<and> fishing F L (fold place (picture row (l0 # ls0) ls1) d) t \<and> carries {fd0, fd1, fd_index s} v t"
    by (cases ls1) auto
  then show ?case using v(1) carries_trans [OF v(5)] by auto
qed

text \<open>Once the first file has been closed, a read of the second finds no operations.\<close>

lemma closed_first:
  assumes "kinds s ! fd0 = (f, 1)" "kinds s ! fd1 = (g, 1)" "length (kinds s) = 8" "fd_index s = fd1" "fd0 \<noteq> fd1"
    "2 \<le> fd0" "fd0 < 8" "fd1 < 8"
  shows "kinds (snd (sys_close (int fd0) s)) ! fd1 = (NULL_fops, 1)"
proof -
  let ?fs = "file_struct (pcblock s)"
  have h: "length ?fs = 8" "flags (?fs ! fd0) = 1" "flags (?fs ! fd1) = 1" using assms by (simp_all add: kinds_def fd_kind_def)
  obtain t where t: "sys_close (int fd0) s = (0, t)" "file_struct (pcblock t) = closed_files fd1 fd0 ?fs"
    using sys_close_files [OF h(1) assms(6,7) h(2)] assms(4) by auto
  then have "length (file_struct (pcblock t)) = 8" using h(1) by (simp add: closed_files_def Let_def)
  then show ?thesis using t closed_files_nth [of fd1 ?fs fd1 fd0] assms(5,8) h by (simp add: kinds_def fd_kind_def)
qed

lemma null_row:
  assumes "ram s (c0_at L) = 0x0A" "ram s (c1_at L) \<noteq> 0x0A" "kinds s ! fd1 = (NULL_fops, 1)" "length (kinds s) = 8" "fd1 < 8" "c1_at L \<noteq> 0"
  shows "frame_row w F L fd0 (int fd1) row col e0 e1 k s = None"
proof -
  have "flags (file_struct (pcblock s) ! fd1) = 1" "fops_ptr (file_struct (pcblock s) ! fd1) = NULL_fops"
    using assms(3-5) by (simp_all add: kinds_def fd_kind_def)
  then have "sys_read junk irqs (int fd1) (c1_at L) 1 s = None" for junk irqs
    using assms(5,6) by (simp add: sys_read_def fops_read_def FD_MAX_def)
  then show ?thesis using assms(1,2) by (subst frame_row.simps) (simp add: frame_char_def)
qed

lemma rows_crash:
  assumes "fishing F L d s" "frame_left fd0 i0 (c0_at L) e0 (l0 # ls0) s" "frame_left fd1 i1 (c1_at L) e1 ls1 s" "fd0 \<noteq> fd1"
    "fd_index s = fd1" "length (kinds s) = 8" "length (l0 # ls0) < length ls1" "fits row (l0 # ls0) ls1" "length (fst d) + length (picture row (l0 # ls0) ls1) \<le> 2000"
  shows "frame_rows w F L (int fd0) (int fd1) (int row) e0 e1 k s = None"
  using assms
proof (induction ls0 arbitrary: d s e0 e1 l0 ls1 row k)
  case Nil
  have st: "stream fd0 i0 (c0_at L) e0 l0 [] 1 s" "stream fd1 i1 (c1_at L) e1 (first ls1) (unlines (tl ls1)) 0 s"
    using frame_stream [OF Nil.prems(2)] frame_stream [OF Nil.prems(3)] Nil.prems(7) by (simp_all add: first_def final_def)
  have e: "e0 = 0" "data_open fd0 i0 l0 s" "data_open fd1 i1 (unlines ls1) s"
    using Nil.prems(2,3,7) by (auto simp: frame_left_def split: if_splits)
  obtain k1 t where t: "frame_row w F L (int fd0) (int fd1) (int row) 0 e0 e1 k s = Some (1, 0, k1, t)"
      "fishing F L (fold place (row_items row 0 l0 (first ls1)) d) t" "carries {fd0, fd1} s t" "kinds t = kinds s"
    using row_drawn [OF Nil.prems(1) st Nil.prems(4), of row 0 w k] Nil.prems(8,9) by auto
  define u where "u = row_end (int fd0) (c0_at L) 1 t"
  define v where "v = row_end (int fd1) (c1_at L) 0 u"
  let ?t = "t\<lparr>ram := (ram t)(c0_at L := 0x0A)\<rparr>"
  have fd: "2 \<le> fd0" "fd0 < 8" "fd1 < 8" "kinds s ! fd0 = (filesystem_fops, 1)" "kinds s ! fd1 = (filesystem_fops, 1)"
    using e(2,3) Nil.prems(6) by (simp_all add: data_open_def kinds_def fd_kind_def)
  have i: "fd_index ?t = fd1" "kinds ?t = kinds s" using carries_index [OF t(3)] Nil.prems(5) t(4) by (simp_all add: kinds_def)
  have u: "u = snd (sys_close (int fd0) ?t)" by (simp add: u_def row_end_def)
  have "kinds u ! fd1 = (NULL_fops, 1)"
    unfolding u by (rule closed_first) (use fd i Nil.prems(4,6) in simp_all)
  moreover have "length (kinds u) = 8"
    using carries_length [OF close_carries [of ?t fd0]] fd(3) i Nil.prems(6) unfolding u by simp
  moreover have "v = u\<lparr>ram := (ram u)(c1_at L := 0x30)\<rparr>" by (simp add: v_def row_end_def)
  moreover have "c0_at L \<noteq> c1_at L" "c1_at L \<noteq> 0" using Nil.prems(1) fish_placesD(8,9) unfolding fishing_def by blast+
  moreover have "ram u (c0_at L) = 0x0A" unfolding u by (simp add: sys_close_screen)
  ultimately have "frame_row w F L (int fd0) (int fd1) (int row + 1) 0 1 0 k1 v = None"
    using fd(3) by (intro null_row) (simp_all add: kinds_def)
  then have "frame_rows w F L (int fd0) (int fd1) (int row + 1) 1 0 k1 v = None" by (subst frame_rows.simps) simp
  then show ?case using t(1) e(1) by (subst frame_rows.simps) (simp add: u_def v_def)
next
  case (Cons l0' ls0)
  have c: "fd_index s \<noteq> fd0" "fd_index s < 8" "l0' # ls0 \<noteq> [] \<or> length ls1 \<le> 1"
      "row * 80 + 40 + max (length l0) (length (first ls1)) \<le> 2000" "length (fst d) + length (row_items row 0 l0 (first ls1)) \<le> 2000"
    using Cons.prems by (auto simp: frame_left_def data_open_def split: if_splits)
  obtain k1 v where v: "frame_rows w F L (int fd0) (int fd1) (int row) e0 e1 k s
        = frame_rows w F L (int fd0) (int fd1) (int (Suc row)) (final (l0 # l0' # ls0)) (final ls1) k1 v"
      "fishing F L (fold place (row_items row 0 l0 (first ls1)) d) v" "frame_left fd0 i0 (c0_at L) (final (l0 # l0' # ls0)) (l0' # ls0) v"
      "frame_left fd1 i1 (c1_at L) (final ls1) (tl ls1) v" "carries {fd0, fd1, fd_index s} s v"
    using row_step [OF Cons.prems(1-4) c] by blast
  have "fd_index v = fd1" "length (kinds v) = 8" using carries_index [OF v(5)] carries_length [OF v(5)] Cons.prems(5,6) by simp_all
  then show ?case unfolding v(1) using Cons.IH [OF v(2-4) Cons.prems(4), of "Suc row" k1] Cons.prems(7-9) by (cases ls1) auto
qed

section \<open>The two files\<close>

text \<open>The file of this name, at \<open>f\<close> in memory, has the lines \<open>ls\<close>.\<close>

definition frame_at :: "u32 \<Rightarrow> u8 list \<Rightarrow> u8 list list \<Rightarrow> 'a fs_state_scheme \<Rightarrow> bool" where
  "frame_at f name ls s \<longleftrightarrow> f \<noteq> 0 \<and> ls \<noteq> [] \<and> (\<forall>l\<in>set ls. 0x0A \<notin> set l) \<and> name \<noteq> [] \<and> cstring (ram s) f name
     \<and> (\<exists>i. entry_of s name i \<and> entry_type s i = 2 \<and> file_ok s (entry_inode s i) \<and> entry_inode s i < num_inodes (filesystem s) - 1
          \<and> file_bytes s (entry_inode s i) 0 (file_size s (entry_inode s i)) = unlines ls)"

lemma frame_at_kept:
  assumes "frame_at f name ls s" "rd (ram t) f (length name + 1) = rd (ram s) f (length name + 1)" "same_image s (ram t)"
    "filesystem t = filesystem s" "BOOT_BLOCK_PTR t = BOOT_BLOCK_PTR s"
  shows "frame_at f name ls t"
proof -
  obtain i where i: "entry_of s name i" "entry_type s i = 2" "file_ok s (entry_inode s i)"
      "entry_inode s i < num_inodes (filesystem s) - 1" "file_bytes s (entry_inode s i) 0 (file_size s (entry_inode s i)) = unlines ls"
    using assms(1) by (auto simp: frame_at_def)
  have dir: "directory_ok s" "i < 62" using i(1) by (simp_all add: entry_of_def)
  note en = same_entries [OF dir(1) assms(3-5)] and fi = same_files [OF i(3) assms(3-5)]
  have "entry_of t name i" using i(1) en(1,3) by (auto simp: entry_of_def)
  moreover have "cstring (ram t) f name" using assms(1,2) by (simp add: frame_at_def cstring_alt)
  ultimately show ?thesis using assms(1,4) i en(4,5) [of i] fi dir(2) unfolding frame_at_def by auto
qed

text \<open>What opening keeps.\<close>

lemma open_kept:
  assumes "sys_open dev fm a s = Some (int fd, t)" "free_fd (pcblock s) = Some fd" "fd < 8" "a \<noteq> 0"
  shows "filesystem t = filesystem s" "BOOT_BLOCK_PTR t = BOOT_BLOCK_PTR s" "fd_val t = fd_val s" "fd_index t = fd"
proof -
  let ?u = "open_entry dev fm a (pcb_at (of_int (find_pid s))) fd (s\<lparr>fd_index := fd\<rparr>)"
  have t: "t = snd ?u" using assms(1) sys_open_slot [OF assms(4,2,3), of dev fm] by simp
  show "filesystem t = filesystem s" "BOOT_BLOCK_PTR t = BOOT_BLOCK_PTR s" "fd_val t = fd_val s" "fd_index t = fd"
    unfolding t by (simp_all add: open_entry_def Let_def split_beta save_pcb_def upd_file_def upd_dentry_def filesystem_open_def rtc_open_def rtc_init_run)
qed

lemma open_frame:
  assumes "sys_ok s" "free_fd (pcblock s) = Some fd" "fd < 8" "frame_at f name ls s"
  shows "\<exists>t inode. sys_open dev (ram s) f s = Some (int fd, t) \<and> sys_ok t \<and> ram t = ram s \<and> data_open fd inode (unlines ls) t
    \<and> filesystem t = filesystem s \<and> BOOT_BLOCK_PTR t = BOOT_BLOCK_PTR s \<and> fd_val t = fd_val s \<and> fd_index t = fd
    \<and> file_struct (pcblock t) = (file_struct (pcblock s))
       [fd := (file_struct (pcblock s) ! fd)\<lparr>flags := 1, fpos := 0, fops_ptr := filesystem_fops\<rparr>]
    \<and> (\<forall>j. j \<noteq> fd \<and> j \<noteq> fd_val s \<longrightarrow> dentries (pcblock t) ! j = dentries (pcblock s) ! j)"
proof -
  obtain i where i: "entry_of s name i" "entry_type s i = 2" "file_ok s (entry_inode s i)"
      "entry_inode s i < num_inodes (filesystem s) - 1" "file_bytes s (entry_inode s i) 0 (file_size s (entry_inode s i)) = unlines ls"
      and n: "f \<noteq> 0" "name \<noteq> []" "cstring (ram s) f name"
    using assms(4) by (auto simp: frame_at_def)
  let ?e = "load_dentry (ram s) (entry_at s i) empty_dentry" and ?n = "entry_inode s i"
  have e: "i < 62" "entry_name s i = cbytes (ram s) f 32" "\<forall>j<i. entry_name s j \<noteq> cbytes (ram s) f 32"
    using i(1) n(3) by (simp_all add: entry_of_def cbytes_cstring)
  have a: "ram s f \<noteq> 0" using n(2,3) by (cases name) (auto simp: cstring_Cons)
  have ty: "file_type ?e = 2" "inode_number ?e = ?n" using i(2) by (simp_all add: load_dentry_def entry_type_def entry_inode_def)
  have ne: "file_type ?e \<noteq> 0" using ty(1) by simp
  obtain t where t: "sys_open dev (ram s) f s = Some (int fd, t)"
      "file_struct (pcblock t) = (file_struct (pcblock s))
         [fd := (file_struct (pcblock s) ! fd)\<lparr>flags := 1, fpos := 0, fops_ptr := filesystem_fops\<rparr>]"
      "dentries (pcblock t) = (let ds = (dentries (pcblock s))[fd := over_entry ?e (dentries (pcblock s) ! fd)]
         in ds[fd_val s := over_entry ?e (ds ! fd_val s)])"
      "ram t = ram s" "dentries (pcblock t) ! fd = over_entry ?e (dentries (pcblock s) ! fd)"
    using sys_open_file [OF assms(1) n(1) a assms(2,3) lookup_found [OF e] ne, of dev] by metis
  note k = open_kept [OF t(1) assms(2,3) n(1)]
  have im: "same_image s (ram t)" by (simp add: t(4) same_image_def)
  note fi = same_files [OF i(3) im k(1,2)]
  have len: "length (file_struct (pcblock s)) = 8" using assms(1) by (simp add: sys_ok_def pcb_ok_def)
  have "open_at t fd ?n 0" using t(2,5) ty len assms(3) by (simp add: open_at_def)
  then have "data_open fd ?n (unlines ls) t"
    unfolding data_open_def using fi i(4,5) k(1) t(2) len assms(3) free_fd_first(1) [OF assms(2,3)] by auto
  moreover have "dentries (pcblock t) ! j = dentries (pcblock s) ! j" if "j \<noteq> fd" "j \<noteq> fd_val s" for j
    using that by (simp add: t(3) Let_def)
  ultimately show ?thesis using ok_sys_open [OF assms(1) t(1)] t(1,2,4) k by blast
qed

text \<open>What \<open>add_frames\<close> writes before it opens the files.\<close>

definition frames_init :: "fish_stack \<Rightarrow> mem \<Rightarrow> mem" where
  "frames_init L m = st16 (st16 (m(c0_at L := 0x30, c1_at L := 0x30)) (struct_at L + ON_LENGTH) 15) (struct_at L + OFF_LENGTH) 15"

lemma frames_init_values:
  assumes "fish_places F L s"
  shows "lengths_15 L (frames_init L m)" "frames_init L m (c0_at L) = 0x30" "frames_init L m (c1_at L) = 0x30"
    "same_but ({c0_at L, c1_at L} \<union> region (struct_at L) 16) m (frames_init L m)"
proof -
  let ?p = "struct_at L"
  show "lengths_15 L (frames_init L m)" by (simp add: lengths_15_def frames_init_def blink_offsets field_simps16)
  have out: "st16 (st16 n (?p + ON_LENGTH) 15) (?p + OFF_LENGTH) 15 a = n a" if "a \<notin> region ?p 16" for n a
  proof -
    have "a \<noteq> ?p + of_nat i" if "i < 16" for i using \<open>a \<notin> region ?p 16\<close> in_region [of i 16 ?p] that by auto
    from this [of 4] this [of 5] this [of 6] this [of 7] show ?thesis by (simp add: blink_offsets st16_other add.assoc)
  qed
  have "c0_at L \<notin> region ?p 16" "c1_at L \<notin> region ?p 16" using fish_placesD(13) [OF assms] by (auto simp: add_area_def)
  then show "frames_init L m (c0_at L) = 0x30" "frames_init L m (c1_at L) = 0x30"
    unfolding frames_init_def using out fish_placesD(9) [OF assms] by simp_all
  show "same_but ({c0_at L, c1_at L} \<union> region ?p 16) m (frames_init L m)"
    unfolding frames_init_def same_but_def using out by simp
qed

lemma next_free:
  "flags (file_struct p ! 2) = 0 \<Longrightarrow> free_fd p = Some 2"
  "flags (file_struct p ! 2) \<noteq> 0 \<Longrightarrow> flags (file_struct p ! 3) = 0 \<Longrightarrow> free_fd p = Some 3"
  "flags (file_struct p ! 2) \<noteq> 0 \<Longrightarrow> flags (file_struct p ! 3) \<noteq> 0 \<Longrightarrow> flags (file_struct p ! 4) = 0 \<Longrightarrow> free_fd p = Some 4"
  by (simp_all add: free_fd_def FD_MIN_def FILE_ARRAY_SIZE_def flags_at_def)

lemma frame_at_area:
  assumes "frame_at f name ls s" "same_but (fish_area F L) (ram s) (ram t)" "region f (length name + 1) \<inter> fish_area F L = {}"
    "fish_places F L s" "filesystem t = filesystem s" "BOOT_BLOCK_PTR t = BOOT_BLOCK_PTR s"
  shows "frame_at f name ls t"
proof -
  have "length name < 2 ^ 31" using assms(1) by (simp add: frame_at_def cstring_alt)
  then have "rd (ram t) f (length name + 1) = rd (ram s) f (length name + 1)" by (intro same_but_rd [OF assms(2,3)]) simp
  then show ?thesis using frame_at_kept [OF assms(1) _ area_image [OF assms(4,2)] assms(5,6)] by simp
qed

text \<open>The program before \<open>add_frames\<close>: the clock is open, and the two pictures fit.\<close>

definition frames_there :: "fish_symbols \<Rightarrow> fish_stack \<Rightarrow> mp1_blink_struct list \<times> u8 list \<Rightarrow> u32 \<Rightarrow> u8 list \<Rightarrow> u8 list list
    \<Rightarrow> u32 \<Rightarrow> u8 list \<Rightarrow> u8 list list \<Rightarrow> 'a sys_state_scheme \<Rightarrow> bool" where
  "frames_there F L d f0 n0 ls0 f1 n1 ls1 s \<longleftrightarrow> sys_ok s \<and> fish_places F L s \<and> blinking F VIDEO (ram s) (fst d) (snd d)
     \<and> frame_at f0 n0 ls0 s \<and> frame_at f1 n1 ls1 s
     \<and> region f0 (length n0 + 1) \<inter> fish_area F L = {} \<and> region f1 (length n1 + 1) \<inter> fish_area F L = {} \<and> fd_val s < 2
     \<and> flags (file_struct (pcblock s) ! 2) \<noteq> 0 \<and> flags (file_struct (pcblock s) ! 3) = 0 \<and> flags (file_struct (pcblock s) ! 4) = 0
     \<and> fits 0 ls0 ls1 \<and> length (fst d) + length (picture 0 ls0 ls1) \<le> 2000"

lemma frames_opened:
  assumes "frames_there F L d f0 n0 ls0 f1 n1 ls1 s"
  obtains u i0 i1 where "add_frames w dev F L f0 f1 k s = map_option Inr (frame_rows w F L 3 4 0 0 0 k u)"
    "fishing F L d u" "frame_left 3 i0 (c0_at L) 0 ls0 u" "frame_left 4 i1 (c1_at L) 0 ls1 u" "fd_index u = 4"
    "length (kinds u) = 8" "file_struct (pcblock u) ! 2 = file_struct (pcblock s) ! 2" "ls0 \<noteq> []"
proof -
  have as: "sys_ok s" "fish_places F L s" "blinking F VIDEO (ram s) (fst d) (snd d)" "frame_at f0 n0 ls0 s" "frame_at f1 n1 ls1 s"
    "region f0 (length n0 + 1) \<inter> fish_area F L = {}" "region f1 (length n1 + 1) \<inter> fish_area F L = {}" "fd_val s < 2"
    "flags (file_struct (pcblock s) ! 2) \<noteq> 0" "flags (file_struct (pcblock s) ! 3) = 0" "flags (file_struct (pcblock s) ! 4) = 0"
    using assms unfolding frames_there_def by blast+
  note h = fish_placesD [OF as(2)] and v = frames_init_values [OF as(2), of "ram s"]
  let ?s = "s\<lparr>ram := frames_init L (ram s)\<rparr>" and ?X = "{c0_at L, c1_at L} \<union> region (struct_at L) 16"
  have X: "?X \<subseteq> fish_area F L" "?X \<inter> device_area F = {}"
    using h(13) stack_device [OF h(3)] by (auto simp: fish_area_def fish_regions_def add_area_def device_area_def region_1)
  have ok: "sys_ok ?s" using as(1) by (simp add: sys_ok_def)
  have fr: "frame_at f0 n0 ls0 ?s" "frame_at f1 n1 ls1 ?s"
    using frame_at_area [OF as(4) _ as(6,2), of ?s] frame_at_area [OF as(5) _ as(7,2), of ?s] same_but_mono [OF v(4) X(1)]
    by simp_all
  have len: "length (file_struct (pcblock s)) = 8" using as(1) by (simp add: sys_ok_def pcb_ok_def)
  have fd: "free_fd (pcblock ?s) = Some 3" "(3 :: nat) < 8" "(4 :: nat) < 8" using next_free(2) [OF as(9,10)] by simp_all
  obtain t i0 where t: "sys_open dev (ram ?s) f0 ?s = Some (int 3, t)" "sys_ok t" "ram t = ram ?s" "data_open 3 i0 (unlines ls0) t"
      "filesystem t = filesystem ?s" "BOOT_BLOCK_PTR t = BOOT_BLOCK_PTR ?s" "fd_val t = fd_val ?s"
      "file_struct (pcblock t) = (file_struct (pcblock ?s))
         [3 := (file_struct (pcblock ?s) ! 3)\<lparr>flags := 1, fpos := 0, fops_ptr := filesystem_fops\<rparr>]"
    using open_frame [OF ok fd(1,2) fr(1)] by blast
  have ft: "frame_at f1 n1 ls1 t" using frame_at_kept [OF fr(2), of t] t(3,5,6) by (simp add: same_image_def)
  have ff: "free_fd (pcblock t) = Some 4" using next_free(3) [of "pcblock t"] as(9,11) len t(8) by simp
  obtain u i1 where u: "sys_open dev (ram t) f1 t = Some (int 4, u)" "ram u = ram t" "data_open 4 i1 (unlines ls1) u"
      "filesystem u = filesystem t" "BOOT_BLOCK_PTR u = BOOT_BLOCK_PTR t" "fd_index u = 4"
      "file_struct (pcblock u) = (file_struct (pcblock t))
         [4 := (file_struct (pcblock t) ! 4)\<lparr>flags := 1, fpos := 0, fops_ptr := filesystem_fops\<rparr>]"
      "\<forall>j. j \<noteq> 4 \<and> j \<noteq> fd_val t \<longrightarrow> dentries (pcblock u) ! j = dentries (pcblock t) ! j"
    using open_frame [OF t(2) ff fd(3) ft] by blast
  have "keeps_file 3 t u" using u(4,5,7,8) t(7) as(8) by (simp add: keeps_file_def)
  then have o: "data_open 3 i0 (unlines ls0) u" using data_open_kept [OF t(4)] u(2) by (simp add: same_image_def)
  have ru: "ram u = frames_init L (ram s)" using u(2) t(3) by simp
  have nl: "\<forall>l\<in>set ls0. 0x0A \<notin> set l" "\<forall>l\<in>set ls1. 0x0A \<notin> set l" "ls0 \<noteq> []" "ls1 \<noteq> []"
    using as(4,5) unfolding frame_at_def by blast+
  have left: "frame_left 3 i0 (c0_at L) 0 ls0 u" "frame_left 4 i1 (c1_at L) 0 ls1 u"
    using nl o u(3) v(2,3) by (simp_all add: frame_left_def ru)
  have "fish_places F L u" using as(2) u(4,5) t(5,6) by (simp add: fish_places_def image_len_def)
  then have "fishing F L d u" using blinking_same [OF as(3) v(4) X(2)] v(1) by (simp add: fishing_def ru)
  moreover have "add_frames w dev F L f0 f1 k s = map_option Inr (frame_rows w F L 3 4 0 0 0 k u)"
    using t(1) u(1) by (simp add: add_frames_def frames_init_def)
  moreover have "length (kinds u) = 8" "file_struct (pcblock u) ! 2 = file_struct (pcblock s) ! 2" using len u(7) t(8) by (simp_all add: kinds_def)
  ultimately show thesis using that left u(6) nl(3) by blast
qed

lemma frames_added:
  assumes "frames_there F L d f0 n0 ls0 f1 n1 ls1 s" "length ls1 \<le> length ls0"
  obtains k' t where "add_frames w dev F L f0 f1 k s = Some (Inr (k', t))" "fishing F L (fold place (picture 0 ls0 ls1) d) t"
    "file_struct (pcblock t) ! 2 = file_struct (pcblock s) ! 2"
proof -
  obtain u i0 i1 where u: "add_frames w dev F L f0 f1 k s = map_option Inr (frame_rows w F L 3 4 0 0 0 k u)"
    "fishing F L d u" "frame_left 3 i0 (c0_at L) 0 ls0 u" "frame_left 4 i1 (c1_at L) 0 ls1 u" "fd_index u = 4"
    "file_struct (pcblock u) ! 2 = file_struct (pcblock s) ! 2"
    using frames_opened [OF assms(1)] by metis
  from rows_drawn [OF u(2-4), of 0 w k] assms u(5) obtain k' r where
    r: "frame_rows w F L 3 4 0 0 0 k u = Some (k', r)" "fishing F L (fold place (picture 0 ls0 ls1) d) r" "carries {3, 4} u r"
    by (auto simp: frames_there_def)
  then show thesis using that u(1,6) carriesD(1) [OF r(3), of 2] by (simp add: keeps_file_def)
qed

section \<open>The animation\<close>

text \<open>The clock is open under \<open>fd\<close>, and the device is blinking.\<close>

definition running :: "fish_symbols \<Rightarrow> fish_stack \<Rightarrow> nat \<Rightarrow> mp1_blink_struct list \<times> u8 list \<Rightarrow> 'a fs_state_scheme \<Rightarrow> bool" where
  "running F L fd d s \<longleftrightarrow> fish_places F L s \<and> blinking F VIDEO (ram s) (fst d) (snd d) \<and> int_on s \<and> fd < 8
     \<and> flags (file_struct (pcblock s) ! fd) = 1 \<and> fops_ptr (file_struct (pcblock s) ! fd) = rtc_fops"

lemma runningD:
  assumes "running F L fd d s"
  shows "fish_places F L s" "blinking F VIDEO (ram s) (fst d) (snd d)" "int_on s" "fd < 8" "flags (file_struct (pcblock s) ! fd) = 1"
    "fops_ptr (file_struct (pcblock s) ! fd) = rtc_fops"
  using assms by (simp_all add: running_def)

lemma running_ram:
  assumes "running F L fd d s" "blinking F VIDEO m (fst d') (snd d')"
  shows "running F L fd d' (s\<lparr>ram := m\<rparr>)"
  using assms by (simp add: running_def fish_places_def image_len_def)

lemma ticks_run:
  assumes "running F L fd d s" "ticking dev w"
  shows "\<exists>t. fish_ticks n w F (garbage_at L) (int fd) k s = Some t \<and> running F L fd ((device_tick ^^ n) d) t"
  using assms(1)
proof (induction n arbitrary: d s k)
  case (Suc n)
  note h = runningD [OF Suc.prems]
  have g: "garbage_at L \<noteq> 0" "flags (file_struct (pcblock s) ! fd) \<noteq> 0" using h(1,5) by (simp_all add: fish_places_def)
  obtain irqs where irqs: "snd (w k) = (\<lambda>t. Some (rtc_interrupt dev t)) # irqs" using assms(2) unfolding ticking_def by blast
  obtain t where t: "sys_read (fst (w k)) (snd (w k)) (int fd) (garbage_at L) 4 s = Some (0, t)" "int_on t" "ram t = ram s"
      "pcblock t = pcblock s" "filesystem t = filesystem s" "BOOT_BLOCK_PTR t = BOOT_BLOCK_PTR s"
    using clock_read [OF h(4) g(2) h(6) g(1) h(3) irqs] by metis
  obtain m where m: "mp1_rtc_tasklet F (ram t) = Some m" "blinking F VIDEO m (fst (device_tick d)) (snd (device_tick d))"
    using tasklet_ticks [OF h(2)] t(3) by (auto simp: device_tick_def split_beta)
  have "running F L fd d t" using h t by (simp add: running_def fish_places_def image_len_def)
  then have "running F L fd (device_tick d) (t\<lparr>ram := m\<rparr>)" using m(2) by (rule running_ram)
  from Suc.IH [OF this] obtain u where "fish_ticks n w F (garbage_at L) (int fd) (k + 1) (t\<lparr>ram := m\<rparr>) = Some u"
      "running F L fd ((device_tick ^^ n) (device_tick d)) u" by blast
  then show ?case using t(1) m(1) by (auto simp: funpow_swap1)
qed simp

text \<open>What the program asks of the device after the frames.\<close>

definition banner :: mp1_blink_struct where
  "banner = \<lparr>location = 540, on_char = 0x49, off_char = 0x4D, on_length = 7, off_length = 6, countdown = 7, status = 1\<rparr>"

definition sync_items :: "u16 \<Rightarrow> u16 \<Rightarrow> mp1_blink_struct list \<times> u8 list \<Rightarrow> mp1_blink_struct list \<times> u8 list" where
  "sync_items a b d =
     (case (find (\<lambda>e. location e = a) (fst d), find (\<lambda>e. location e = b) (fst d)) of
        (Some x, Some e) \<Rightarrow> (change_first b (\<lambda>e. [synced x e]) (fst d), (snd d)[unat b := off_char e])
      | _ \<Rightarrow> d)"

definition remove_item :: "u16 \<Rightarrow> mp1_blink_struct list \<times> u8 list \<Rightarrow> mp1_blink_struct list \<times> u8 list" where
  "remove_item a d = (change_first a (\<lambda>_. []) (fst d), snd d)"

definition fish_film :: "mp1_blink_struct list \<times> u8 list \<Rightarrow> mp1_blink_struct list \<times> u8 list" where
  "fish_film d = (device_tick ^^ 2000) (remove_item 200 ((device_tick ^^ 200) (sync_items 40 540
     ((device_tick ^^ 200) (place banner ((device_tick ^^ 200) d))))))"

lemma ticks_length: "length (fst ((device_tick ^^ n) d)) = length (fst d)"
  by (induction n) (simp_all add: device_tick_def split_beta)

lemma change_none: "find (\<lambda>e. location e = l) es = None \<Longrightarrow> change_first l f es = es"
  by (induction es) (auto split: if_splits)

lemma find_location: "find (\<lambda>e. location e = l) es = Some e \<Longrightarrow> location e = l"
  by (auto simp: find_Some_iff)

lemma ioctl_run:
  assumes "running F L fd d s" "mp1_ioctl F tmp (ram s) arg cmd = Some (r, m)" "blinking F VIDEO m (fst d') (snd d')"
  shows "fish_ioctl F tmp arg cmd s = Some (s\<lparr>ram := m\<rparr>)" "running F L fd d' (s\<lparr>ram := m\<rparr>)"
  using assms(2) running_ram [OF assms(1,3)] by (simp_all add: fish_ioctl_def)

lemma sync_run:
  assumes "running F L fd d s"
  obtains t where "fish_ioctl F tmp (push_bit 16 40 OR (6 * 80 + 60)) RTC_SYNC s = Some t" "running F L fd (sync_items 40 540 d) t"
proof -
  define a :: u32 where "a = push_bit 16 40 OR (6 * 80 + 60)"
  have arg: "ucast (drop_bit 16 a) = (40 :: u16)" "ucast a = (540 :: u16)" by (simp_all add: a_def)
  note h = runningD [OF assms]
  have "\<exists>r m. mp1_ioctl_sync F (ram s) a = Some (r, m) \<and> blinking F VIDEO m (fst (sync_items 40 540 d)) (snd (sync_items 40 540 d))"
  proof (cases "find (\<lambda>e. location e = 40) (fst d) = None \<or> find (\<lambda>e. location e = 540) (fst d) = None")
    case True
    then have "sync_items 40 540 d = d" by (auto simp: sync_items_def split: option.splits)
    then show ?thesis using sync_refuses [OF h(2), of a] True h(2) arg by auto
  next
    case False
    then obtain x e where f: "find (\<lambda>e. location e = 40) (fst d) = Some x" "find (\<lambda>e. location e = 540) (fst d) = Some e" by auto
    then show ?thesis using sync_copies [OF h(2), of a x e] find_location [OF f(2)] arg by (auto simp: sync_items_def)
  qed
  then obtain r m where m: "mp1_ioctl_sync F (ram s) a = Some (r, m)" "blinking F VIDEO m (fst (sync_items 40 540 d)) (snd (sync_items 40 540 d))" by blast
  have "mp1_ioctl F tmp (ram s) a RTC_SYNC = Some (r, m)" using m(1) by (simp add: mp1_ioctl_def blink_commands)
  from that [OF ioctl_run [OF assms this [unfolded a_def] m(2)]] show thesis .
qed

lemma remove_run:
  assumes "running F L fd d s"
  obtains t where "fish_ioctl F tmp (of_nat WAIT) RTC_REMOVE s = Some t" "running F L fd (remove_item 200 d) t"
proof -
  note h = runningD [OF assms]
  have arg: "ucast (of_nat WAIT :: u32) = (200 :: u16)" by (simp add: WAIT_def)
  obtain r m where m: "mp1_ioctl_remove F (ram s) (of_nat WAIT) = Some (r, m)" "blinking F VIDEO m (fst (remove_item 200 d)) (snd (remove_item 200 d))"
    using remove_removes [OF h(2), of "of_nat WAIT"] h(2) change_none [of 200 "fst d"] unfolding arg
    by (auto simp: remove_item_def split: if_splits)
  have "mp1_ioctl F tmp (ram s) (of_nat WAIT) RTC_REMOVE = Some (r, m)" using m(1) by (simp add: mp1_ioctl_def blink_commands)
  from that [OF ioctl_run [OF assms this m(2)]] show thesis .
qed

text \<open>The structure that \<open>main\<close> fills in.\<close>

definition banner_mem :: "u32 \<Rightarrow> mem \<Rightarrow> mem" where
  "banner_mem p m = st16 (st16 (st16 (m(p + ON_CHAR := 0x49, p + OFF_CHAR := 0x4D)) (p + ON_LENGTH) 7) (p + OFF_LENGTH) 6) (p + LOCATION) (6 * 80 + 60)"

lemma banner_values: "added (item_at (banner_mem p m) p) = banner" "ld16 (banner_mem p m) p = 540" "same_but (region p 16) m (banner_mem p m)"
proof -
  have i: "item_at (banner_mem p m) p = \<lparr>location = 540, on_char = 0x49, off_char = 0x4D, on_length = 7, off_length = 6,
      countdown = ld16 m (p + COUNTDOWN), status = ld16 m (p + STATUS)\<rparr>"
    by (simp add: banner_mem_def item_at_def blink_offsets field_simps16)
  then show "added (item_at (banner_mem p m) p) = banner" by (simp add: added_def banner_def)
  show "ld16 (banner_mem p m) p = 540" using arg_cong [OF i, of location] by simp
  show "same_but (region p 16) m (banner_mem p m)"
  proof (rule same_butI)
    fix a assume a: "a \<notin> region p 16"
    have "a \<noteq> p + of_nat i" if "i < 16" for i using a in_region [of i 16 p] that by auto
    from this [of 0] this [of 1] this [of 2] this [of 3] this [of 4] this [of 5] this [of 6] this [of 7] show "banner_mem p m a = m a"
      by (simp add: banner_mem_def blink_offsets st16_other add.assoc)
  qed
qed

lemma banner_run:
  assumes "running F L fd d s" "length (fst d) < 2000"
  obtains t where "fish_ioctl F (tmp_at L) (main_at L) RTC_ADD (s\<lparr>ram := banner_mem (main_at L) (ram s)\<rparr>) = Some t"
    "running F L fd (place banner d) t"
proof -
  note h = runningD [OF assms(1)] and b = banner_values [of "main_at L" "ram s"]
  note p = fish_placesD [OF h(1)]
  let ?m = "banner_mem (main_at L) (ram s)"
  have bl: "blinking F VIDEO ?m (fst d) (snd d)" using blinking_same [OF h(2) b(3) stack_device [OF p(4)]] .
  obtain m where m: "mp1_ioctl_add F (tmp_at L) ?m (main_at L) = (0, m)" "blinking F VIDEO m (added (item_at ?m (main_at L)) # fst d)
      ((snd d)[unat (ld16 ?m (main_at L)) := on_char (item_at ?m (main_at L))])"
    using add_adds [OF bl assms(2) p(2,6)] b(2) by auto
  have "on_char (item_at ?m (main_at L)) = 0x49" using arg_cong [OF b(1), of on_char] by (simp add: added_def banner_def)
  then have "blinking F VIDEO m (fst (place banner d)) (snd (place banner d))" using m(2) unfolding b(1,2) by (simp add: place_def banner_def)
  moreover have "mp1_ioctl F (tmp_at L) (ram (s\<lparr>ram := ?m\<rparr>)) (main_at L) RTC_ADD = Some (0, m)" using m(1) by (simp add: mp1_ioctl_def blink_commands)
  ultimately show thesis using that ioctl_run [OF running_ram [OF assms(1) bl]] by blast
qed

lemma show_runs:
  assumes "running F L fd d s" "length (fst d) < 2000" "ticking dev w"
  shows "\<exists>t. fish_show w F L (int fd) k s = Some t \<and> running F L fd (fish_film d) t"
proof -
  let ?g = "garbage_at L"
  note ticks = ticks_run [OF _ assms(3), of F L fd]
  obtain s1 where s1: "fish_ticks 200 w F ?g (int fd) k s = Some s1" "running F L fd ((device_tick ^^ 200) d) s1"
    using ticks [OF assms(1)] by blast
  have "length (fst ((device_tick ^^ 200) d)) < 2000" using assms(2) by (simp only: ticks_length)
  then obtain s2 where s2: "fish_ioctl F (tmp_at L) (main_at L) RTC_ADD (s1\<lparr>ram := banner_mem (main_at L) (ram s1)\<rparr>) = Some s2"
      "running F L fd (place banner ((device_tick ^^ 200) d)) s2"
    using banner_run [OF s1(2)] by blast
  obtain s3 where s3: "fish_ticks 200 w F ?g (int fd) (k + 200) s2 = Some s3" "running F L fd ((device_tick ^^ 200) (place banner ((device_tick ^^ 200) d))) s3"
    using ticks [OF s2(2)] by blast
  obtain s4 where s4: "fish_ioctl F (tmp_at L) (push_bit 16 40 OR (6 * 80 + 60)) RTC_SYNC s3 = Some s4"
      "running F L fd (sync_items 40 540 ((device_tick ^^ 200) (place banner ((device_tick ^^ 200) d)))) s4"
    using sync_run [OF s3(2)] by blast
  obtain s5 where s5: "fish_ticks 200 w F ?g (int fd) (k + 400) s4 = Some s5"
      "running F L fd ((device_tick ^^ 200) (sync_items 40 540 ((device_tick ^^ 200) (place banner ((device_tick ^^ 200) d))))) s5"
    using ticks [OF s4(2)] by blast
  let ?m = "st16 (ram s5) (main_at L + LOCATION) 60"
  note h = runningD [OF s5(2)]
  have "same_but (region (main_at L) 16) (ram s5) ?m"
  proof (rule same_butI)
    fix a assume a: "a \<notin> region (main_at L) 16"
    then show "?m a = ram s5 a" using in_region [of 0 16 "main_at L"] in_region [of 1 16 "main_at L"] by (auto simp: blink_offsets intro!: st16_other)
  qed
  from running_ram [OF s5(2) blinking_same [OF h(2) this stack_device [OF fish_placesD(4) [OF h(1)]]]]
  obtain s6 where s6: "fish_ioctl F (tmp_at L) (of_nat WAIT) RTC_REMOVE (s5\<lparr>ram := ?m\<rparr>) = Some s6"
      "running F L fd (remove_item 200 ((device_tick ^^ 200) (sync_items 40 540 ((device_tick ^^ 200) (place banner ((device_tick ^^ 200) d)))))) s6"
    using remove_run by blast
  obtain s7 where s7: "fish_ticks 2000 w F ?g (int fd) (k + 600) s6 = Some s7" "running F L fd (fish_film d) s7"
    using ticks [OF s6(2)] unfolding fish_film_def by blast
  have nums: "2 * 200 = (400 :: nat)" "3 * 200 = (600 :: nat)" "80 * 25 = (2000 :: nat)" by simp_all
  have "fish_show w F L (int fd) k s = Some s7"
    unfolding fish_show_def using s1(1) s2(1) s3(1) s4(1) s5(1) s6(1) s7(1)
    by (simp only: WAIT_def Let_def bind.bind_lunit banner_mem_def nums)
  then show ?thesis using s7(2) by blast
qed

section \<open>The start\<close>

text \<open>The array cleared and the video memory mapped.\<close>

definition fish_init :: "fish_symbols \<Rightarrow> mem \<Rightarrow> mem" where
  "fish_init F m = wr (ece391_memset m (blink_array F) 0 (STRUCT_SIZE * 80 * 25)) (vmem_base_addr F) (le_bytes video_mem)"

lemma fish_init_blinking:
  assumes "fish_places F L s" "ld32 (ram s) (mp1_list_head F) = 0"
  shows "blinking F VIDEO (fish_init F (ram s)) [] (screen_cells (ram s) VIDEO)" "same_but (fish_area F L) (ram s) (fish_init F (ram s))"
    "ld32 (fish_init F (ram s)) (vmem_base_addr F) = VIDEO"
proof -
  let ?b = "region (blink_array F) 32000" and ?v = "region (vmem_base_addr F) 4"
  define m where "m = wr (ram s) (blink_array F) (replicate 32000 0)"
  have "sint (STRUCT_SIZE * 80 * 25) = 32000" by (simp add: STRUCT_SIZE_def)
  then have init: "fish_init F (ram s) = wr m (vmem_base_addr F) (le_bytes VIDEO)"
    unfolding fish_init_def ece391_memset_eq m_def by (simp add: video_mem_def VIDEO_def)
  have sb: "same_but ?v m (wr m (vmem_base_addr F) (le_bytes VIDEO))" "same_but ?b (ram s) m"
    by (auto simp: same_but_def m_def wr_out)
  have sa: "same_but (?b \<union> ?v) (ram s) (fish_init F (ram s))"
    unfolding init by (rule same_but_trans [OF same_but_mono [OF sb(2)] same_but_mono [OF sb(1)]]) blast+
  then show "same_but (fish_area F L) (ram s) (fish_init F (ram s))"
    by (rule same_but_mono) (auto simp: fish_area_def fish_regions_def)
  have "rd (fish_init F (ram s)) (vmem_base_addr F) 4 = le_bytes VIDEO" unfolding init by (rule rd_wr_same) simp_all
  then show vm: "ld32 (fish_init F (ram s)) (vmem_base_addr F) = VIDEO" by (rule ld32_le_bytes)
  note lay = fish_placesD(1) [OF assms(1)]
  note la = layoutD [OF lay]
  have "rd (fish_init F (ram s)) (mp1_list_head F) 4 = rd (ram s) (mp1_list_head F) 4"
    by (rule same_but_rd [OF sa]) (use la(4,8) in auto)
  then have hd: "ld32 (fish_init F (ram s)) (mp1_list_head F) = 0" using ld32_rd assms(2) by metis
  have free: "ld16 (fish_init F (ram s)) (slot F i) = 0" if "i < 2000" for i
  proof -
    have "rd (fish_init F (ram s)) (slot F i) 16 = rd m (slot F i) 16"
      unfolding init by (rule same_but_rd [OF sb(1)]) (use slot_far(3) [OF lay that] in auto)
    then have "ld16 (fish_init F (ram s)) (slot F i) = ld16 m (slot F i)" by (rule item_at_rd(3))
    moreover have "m (slot F i + of_nat j) = 0" if "j < 16" for j
    proof -
      have "slot F i + of_nat j = blink_array F + of_nat (16 * i + j)" by (simp add: slot_def add.assoc)
      then show ?thesis unfolding m_def using wr_in [of "16 * i + j" "replicate 32000 0" "ram s" "blink_array F"] that \<open>i < 2000\<close>
        by (simp del: of_nat_add of_nat_mult)
    qed
    from this [of 0] this [of 1] have "ld16 m (slot F i) = 0" by (simp add: ld16_def)
    ultimately show ?thesis by simp
  qed
  have "slots_ok F VIDEO (fish_init F (ram s)) []" using lay vm hd free by (auto simp: slots_ok_def)
  moreover have "screen_cells (fish_init F (ram s)) VIDEO = screen_cells (ram s) VIDEO"
    by (rule same_but_cells [OF sa]) (use la(3,7) in auto)
  ultimately show "blinking F VIDEO (fish_init F (ram s)) [] (screen_cells (ram s) VIDEO)"
    by (auto simp: blinking_def intro!: exI [of _ "[]"])
qed

lemma video_mode_set:
  assumes "fish_places F L s" "ld32 (ram s) (mp1_list_head F) = 0"
  shows "mp1_set_video_mode F (s\<lparr>ram := ece391_memset (ram s) (blink_array F) 0 (STRUCT_SIZE * 80 * 25)\<rparr>) = (VIDEO, s\<lparr>ram := fish_init F (ram s)\<rparr>)"
  using assms(1) fish_init_blinking(3) [OF assms] by (simp add: mp1_set_video_mode_def vidmap_def fish_init_def fish_places_def)

text \<open>The clock set to 32 ticks in a second, and the rest of the program.\<close>

lemma main_rest:
  assumes "fishing F L d s" "flags (file_struct (pcblock s) ! fd) = 1" "fops_ptr (file_struct (pcblock s) ! fd) = rtc_fops" "fd < 8"
    "length (fst d) < 2000" "ticking dev w"
  obtains r t u where "sys_write (fst (w 0)) ram dev (int fd) (ret_at L) 4 (s\<lparr>ram := wr (ram s) (ret_at L) (le_bytes 32)\<rparr>) = Some (r, t)"
    "fish_show w F L (int fd) k (t\<lparr>ram := wr (ram t) (ret_at L) (le_bytes (of_int r))\<rparr>) = Some u" "running F L fd (fish_film d) u"
proof -
  have p: "fish_places F L s" "blinking F VIDEO (ram s) (fst d) (snd d)" using assms(1) by (simp_all add: fishing_def)
  let ?s = "s\<lparr>ram := wr (ram s) (ret_at L) (le_bytes 32)\<rparr>"
  have f: "flags (file_struct (pcblock ?s) ! fd) \<noteq> 0" "fops_ptr (file_struct (pcblock ?s) ! fd) = rtc_fops" "ret_at L \<noteq> 0"
      "rd (ram ?s) (ret_at L) 4 = le_bytes 32"
    using assms(2,3) p(1) by (simp_all add: fish_places_def rd_wr_same)
  obtain log where c: "sys_write (fst (w 0)) ram dev (int fd) (ret_at L) 4 ?s = Some (0, ?s\<lparr>int_on := True, out_log := log\<rparr>)"
    using clock_32 [OF assms(4) f] by metis
  let ?t = "?s\<lparr>int_on := True, out_log := log\<rparr>"
  let ?u = "?t\<lparr>ram := wr (ram ?t) (ret_at L) (le_bytes (of_int 0))\<rparr>"
  have "same_but (region (ret_at L) 4) (ram s) (ram ?u)" by (auto simp: same_but_def wr_out)
  then have "blinking F VIDEO (ram ?u) (fst d) (snd d)" by (rule blinking_same [OF p(2)]) (rule fish_placesD(14) [OF p(1)])
  then have "running F L fd d ?u" using p(1) assms(2-4) by (simp add: running_def fish_places_def image_len_def)
  then show thesis using that [OF c] show_runs [OF _ assms(5,6)] by blast
qed

section \<open>What the screen shows\<close>

text \<open>A line and a picture as characters, blank where they have none.\<close>

definition line_char :: "u8 list \<Rightarrow> nat \<Rightarrow> u8" where
  "line_char l i = (if i < length l then l ! i else 0x20)"

definition cell_of :: "u8 list list \<Rightarrow> nat \<Rightarrow> nat \<Rightarrow> u8" where
  "cell_of ls row col = line_char (if row < length ls then ls ! row else []) col"

definition place_item :: "nat \<Rightarrow> u8 list list \<Rightarrow> u8 list list \<Rightarrow> nat \<Rightarrow> mp1_blink_struct list" where
  "place_item row ls0 ls1 j = frame_item (row + j div 80) (j mod 80) (cell_of ls0 (j div 80) (j mod 80)) (cell_of ls1 (j div 80) (j mod 80))"

lemma line_char_tl [simp]: "line_char (tl l) i = line_char l (Suc i)"
  by (cases l) (auto simp: line_char_def)

lemma frame_item_chars: "frame_item row col (next_char_of l0) (next_char_of l1) = frame_item row col (line_char l0 0) (line_char l1 0)"
  by (cases l0; cases l1) (simp_all add: frame_item_def next_char_of_def line_char_def visible_def)

lemma upt_shift: "[0..<Suc n] = 0 # map Suc [0..<n]"
  by (simp add: upt_conv_Cons map_Suc_upt del: upt_Suc)

lemma row_items_chars:
  assumes "length l0 \<le> n" "length l1 \<le> n"
  shows "row_items row col l0 l1 = concat (map (\<lambda>j. frame_item row (col + j) (line_char l0 j) (line_char l1 j)) [0..<n])"
  using assms
proof (induction n arbitrary: col l0 l1)
  case 0
  then show ?case by (simp add: row_items.simps)
next
  case (Suc n)
  show ?case
  proof (cases "l0 = [] \<and> l1 = []")
    case True
    then show ?thesis by (simp add: row_items.simps line_char_def frame_item_def visible_def del: upt_Suc)
  next
    case False
    then have "row_items row col l0 l1 = frame_item row col (next_char_of l0) (next_char_of l1) @ row_items row (Suc col) (tl l0) (tl l1)"
      by (subst row_items.simps) auto
    also have "row_items row (Suc col) (tl l0) (tl l1)
        = concat (map (\<lambda>j. frame_item row (Suc col + j) (line_char (tl l0) j) (line_char (tl l1) j)) [0..<n])"
      using Suc.prems by (intro Suc.IH) simp_all
    finally show ?thesis by (simp add: upt_shift frame_item_chars comp_def del: upt_Suc)
  qed
qed

lemma cell_of_tl: "cell_of (tl ls) r c = cell_of ls (Suc r) c"
  by (cases ls) (auto simp: cell_of_def)

lemma cell_of_Cons: "cell_of (l # ls) (Suc r) c = cell_of ls r c" "cell_of (l # ls) 0 c = line_char l c" "cell_of ls 0 c = line_char (first ls) c"
  by (cases ls; auto simp: cell_of_def first_def)+

lemma picture_places:
  assumes "\<forall>l\<in>set ls0 \<union> set ls1. length l \<le> 80"
  shows "picture row ls0 ls1 = concat (map (place_item row ls0 ls1) [0..<80 * length ls0])"
  using assms
proof (induction ls0 arbitrary: row ls1)
  case (Cons l0 ls0)
  have up: "[0..<80 * length (l0 # ls0)] = [0..<80] @ map (\<lambda>j. j + 80) [0..<80 * length ls0]"
    using upt_add_eq_append [of 0 80 "80 * length ls0"] map_add_upt [of 80 "80 * length ls0"] by (simp add: add.commute del: upt_rec_numeral)
  have "length l0 \<le> 80" "length (first ls1) \<le> 80" using Cons.prems by (auto simp: first_def split: list.splits)
  from row_items_chars [OF this, of row 0]
  have "row_items row 0 l0 (first ls1) = concat (map (\<lambda>j. frame_item row j (line_char l0 j) (line_char (first ls1) j)) [0..<80])"
    by (simp del: upt_rec_numeral)
  moreover have "map (\<lambda>j. frame_item row j (line_char l0 j) (line_char (first ls1) j)) [0..<80] = map (place_item row (l0 # ls0) ls1) [0..<80]"
    by (rule map_cong) (auto simp: place_item_def cell_of_Cons simp del: upt_rec_numeral)
  moreover have "\<forall>l\<in>set ls0 \<union> set (tl ls1). length l \<le> 80" using Cons.prems by (cases ls1) auto
  then have "picture (Suc row) ls0 (tl ls1) = concat (map (place_item (Suc row) ls0 (tl ls1)) [0..<80 * length ls0])" by (rule Cons.IH)
  moreover have "place_item (Suc row) ls0 (tl ls1) = (\<lambda>j. place_item row (l0 # ls0) ls1 (j + 80))"
  proof
    fix j
    show "place_item (Suc row) ls0 (tl ls1) j = place_item row (l0 # ls0) ls1 (j + 80)"
      using div_add_self2 [of 80 j] by (simp add: place_item_def cell_of_tl cell_of_Cons)
  qed
  ultimately show ?case unfolding up by (simp add: comp_def del: upt_rec_numeral)
qed simp

lemma place_item_one:
  assumes "e \<in> set (place_item 0 ls0 ls1 j)" "j + 40 < 65536"
  shows "unat (location e) = j + 40" "place_item 0 ls0 ls1 j = [e]" "on_char e = visible (cell_of ls0 (j div 80) (j mod 80))"
    "off_char e = visible (cell_of ls1 (j div 80) (j mod 80))" "added e = e" "on_length e = 15" "off_length e = 15" "status e = 1"
proof -
  have "location e = of_nat (j + 40)" using assms(1) by (auto simp: place_item_def frame_item_def split: if_splits)
  then show "unat (location e) = j + 40" using assms(2) by (simp only:) (subst unat_of_nat, simp)
qed (use assms(1) in \<open>auto simp: place_item_def frame_item_def added_def split: if_splits\<close>)

text \<open>Every place has its own item.\<close>

lemma places_distinct:
  assumes "\<forall>j\<in>set js. j + 40 < 65536" "distinct js"
  shows "distinct (map location (concat (map (place_item 0 ls0 ls1) js)))"
  using assms
proof (induction js)
  case (Cons j js)
  have "location e \<noteq> location e'" if "e \<in> set (place_item 0 ls0 ls1 j)" "j' \<in> set js" "e' \<in> set (place_item 0 ls0 ls1 j')" for e e' j'
    using place_item_one(1) [OF that(1)] place_item_one(1) [OF that(3)] Cons.prems that(2) by auto
  moreover have "distinct (map location (place_item 0 ls0 ls1 j))" by (simp add: place_item_def frame_item_def)
  ultimately show ?case using Cons by fastforce
qed simp

text \<open>The screen after the items have been placed.\<close>

lemma placed:
  assumes "distinct (map location es)" "\<forall>e\<in>set es. unat (location e) < length scr"
  shows "fst (fold place es (xs, scr)) = rev es @ xs"
    "e \<in> set es \<Longrightarrow> snd (fold place es (xs, scr)) ! unat (location e) = on_char e"
    "l \<notin> (\<lambda>e. unat (location e)) ` set es \<Longrightarrow> snd (fold place es (xs, scr)) ! l = scr ! l"
    "length (snd (fold place es (xs, scr))) = length scr"
proof -
  have "fst (fold place es (xs, scr)) = rev es @ xs \<and> length (snd (fold place es (xs, scr))) = length scr
      \<and> (\<forall>e\<in>set es. snd (fold place es (xs, scr)) ! unat (location e) = on_char e)
      \<and> (\<forall>l. l \<notin> (\<lambda>e. unat (location e)) ` set es \<longrightarrow> snd (fold place es (xs, scr)) ! l = scr ! l)"
    using assms
  proof (induction es arbitrary: xs scr)
    case (Cons e es)
    then have "unat (location e) \<notin> (\<lambda>e. unat (location e)) ` set es" by (force simp: word_unat_eq_iff)
    then show ?case using Cons.IH [of "scr[unat (location e) := on_char e]" "e # xs"] Cons.prems by (simp add: place_def)
  qed simp
  then show "fst (fold place es (xs, scr)) = rev es @ xs" "length (snd (fold place es (xs, scr))) = length scr"
    "e \<in> set es \<Longrightarrow> snd (fold place es (xs, scr)) ! unat (location e) = on_char e"
    "l \<notin> (\<lambda>e. unat (location e)) ` set es \<Longrightarrow> snd (fold place es (xs, scr)) ! l = scr ! l"
    by blast+
qed

lemma fits_rows: "fits row ls0 ls1 \<Longrightarrow> ls0 \<noteq> [] \<Longrightarrow> (row + length ls0) * 80 \<le> 2040"
proof (induction ls0 arbitrary: row ls1)
  case (Cons l0 ls0)
  then show ?case using Cons.IH [of "Suc row" "tl ls1"] by (cases "ls0 = []") auto
qed simp

text \<open>What a place shows after \<open>n\<close> ticks.\<close>

definition shown_cell :: "nat \<Rightarrow> u8 list list \<Rightarrow> u8 list list \<Rightarrow> u8 list \<Rightarrow> nat \<Rightarrow> u8" where
  "shown_cell n ls0 ls1 scr l =
     (let x = cell_of ls0 ((l - 40) div 80) ((l - 40) mod 80); y = cell_of ls1 ((l - 40) div 80) ((l - 40) mod 80)
      in if l < 40 \<or> x = 0x20 \<and> y = 0x20 then scr ! l else if n mod 30 < 15 then x else y)"

lemma picture_ticks:
  assumes "\<forall>l\<in>set ls0 \<union> set ls1. length l \<le> 80 \<and> 0x0A \<notin> set l" "length ls1 \<le> length ls0" "fits 0 ls0 ls1" "l < length scr"
    "\<forall>e\<in>set (picture 0 ls0 ls1). unat (location e) < length scr"
  shows "snd ((device_tick ^^ n) (fold place (picture 0 ls0 ls1) ([], scr))) ! l = shown_cell n ls0 ls1 scr l"
proof -
  let ?es = "picture 0 ls0 ls1" and ?js = "[0..<80 * length ls0]"
  define d where "d = fold place ?es ([], scr)"
  have es: "?es = concat (map (place_item 0 ls0 ls1) ?js)" using picture_places assms(1) by blast
  have j: "j + 40 < 65536" if "j \<in> set ?js" for j using that fits_rows [OF assms(3)] by (cases "ls0 = []") auto
  have di: "distinct (map location ?es)" unfolding es using j by (intro places_distinct) simp_all
  note p = placed [OF di assms(5), where xs = "[]"]
  have st: "status e = 1" if "e \<in> set ?es" for e using that place_item_one(8) j unfolding es by auto
  have "showing (fst d) (snd d)" using p(1,2) st by (simp add: showing_def face_def d_def)
  moreover have "distinct (map location (fst d))" "\<forall>e\<in>set (fst d). unat (location e) < length (snd d)"
    using di assms(5) p(1,4) by (simp_all add: d_def rev_map [symmetric])
  ultimately obtain scr' where s: "(device_tick ^^ n) d = (map (tick ^^ n) (fst d), scr')" "showing (map (tick ^^ n) (fst d)) scr'"
      "\<forall>l. l \<notin> (\<lambda>e. unat (location e)) ` set (fst d) \<longrightarrow> scr' ! l = snd d ! l"
    using device_ticks [of "fst d" "snd d" n] by auto
  have vis: "visible (cell_of ls r c) = cell_of ls r c" if "ls = ls0 \<or> ls = ls1" for ls r c
  proof -
    have "cell_of ls r c \<in> insert 0x20 (\<Union>(set ` set ls))"
      using nth_mem [of r ls] nth_mem [of c "ls ! r"] by (auto simp: cell_of_def line_char_def simp del: nth_mem)
    then have "cell_of ls r c \<noteq> 0x0A" using assms(1) that by auto
    then show ?thesis by (simp add: visible_def)
  qed
  show ?thesis
  proof (cases "l < 40 \<or> place_item 0 ls0 ls1 (l - 40) = [] \<or> l - 40 \<ge> 80 * length ls0")
    case True
    have "l \<noteq> unat (location e)" if e: "e \<in> set ?es" for e
    proof -
      obtain j' where j': "j' \<in> set ?js" "e \<in> set (place_item 0 ls0 ls1 j')" using e unfolding es by auto
      then have "unat (location e) = j' + 40" using place_item_one(1) j by blast
      then show ?thesis using True j' by auto
    qed
    then have "scr' ! l = scr ! l" using s(3) p(1,3) by (auto simp: d_def)
    moreover have "shown_cell n ls0 ls1 scr l = scr ! l"
    proof (cases "l < 40 \<or> place_item 0 ls0 ls1 (l - 40) = []")
      case True
      then show ?thesis using vis by (auto simp: shown_cell_def place_item_def frame_item_def split: if_splits)
    next
      case False
      then have "length ls0 \<le> (l - 40) div 80" "length ls1 \<le> (l - 40) div 80"
        using \<open>l < 40 \<or> place_item 0 ls0 ls1 (l - 40) = [] \<or> l - 40 \<ge> 80 * length ls0\<close> assms(2) by auto
      then show ?thesis by (simp add: shown_cell_def cell_of_def line_char_def)
    qed
    ultimately show ?thesis using s(1) by (simp add: d_def)
  next
    case False
    then obtain e where e: "e \<in> set (place_item 0 ls0 ls1 (l - 40))" "l - 40 \<in> set ?js" by (cases "place_item 0 ls0 ls1 (l - 40)") auto
    note i = place_item_one [OF e(1) j [OF e(2)]]
    have "e \<in> set (fst d)" using e p(1) unfolding d_def es by auto
    then have "scr' ! l = face ((tick ^^ n) e)" using s(2) i(1) False by (auto simp: showing_def)
    moreover have "face ((tick ^^ n) (added e)) = (if n mod 30 < 15 then on_char e else off_char e)"
      using schedule [of e 15 15 n] i(6,7) by (simp add: face_def)
    moreover have "shown_cell n ls0 ls1 scr l = (if n mod 30 < 15 then on_char e else off_char e)"
      using False e(1) i(3,4) vis by (auto simp: shown_cell_def place_item_def frame_item_def Let_def split: if_splits)
    ultimately show ?thesis using s(1) i(5) by (simp add: d_def)
  qed
qed

lemma frame_names: "length (str ''frame0.txt'') = 10" "length (str ''frame1.txt'') = 10"
  by (simp_all add: str_def)

section \<open>Properties\<close>

text \<open>C17: the fish. When the clock and both pictures are in the directory and the pictures fit on the screen, with the
  first having at least as many lines as the second, \<open>fish\<close> comes to its end and returns 0: it has put an
  item on the device for every place of the pictures that is not blank in both, in reading order, let
  them blink for 200 ticks, added its own item at location 540, synchronised it with the item at
  40 after 200 more, removed the first item at location 200, if there is one, after 200 more, and
  ticked 2000 times again.\<close>

theorem fish_plays:
  assumes "sys_ok s" "fish_places F L s" "ld32 (ram s) (mp1_list_head F) = 0" "entry_of s (str ''rtc'') i" "entry_type s i = 0"
    "frame_at file0 (str ''frame0.txt'') ls0 s" "frame_at file1 (str ''frame1.txt'') ls1 s"
    "region file0 11 \<inter> fish_area F L = {}" "region file1 11 \<inter> fish_area F L = {}" "fd_val s < 2"
    "\<forall>j\<in>{2, 3, 4}. flags (file_struct (pcblock s) ! j) = 0" "length ls1 \<le> length ls0" "fits 0 ls0 ls1"
    "length (picture 0 ls0 ls1) < 2000" "ticking dev w"
    and d: "d = fold place (picture 0 ls0 ls1) ([], screen_cells (ram s) VIDEO)"
  shows "\<exists>t. fish_main w dev F L file0 file1 s = Some (Inr (0, t))
    \<and> blinking F VIDEO (ram t) (fst (fish_film d)) (snd (fish_film d))"
proof -
  let ?s = "s\<lparr>ram := fish_init F (ram s)\<rparr>"
  note b = fish_init_blinking [OF assms(2,3)]
  have im: "same_image s (ram ?s)" using area_image [OF assms(2) b(2)] by simp
  have dir: "directory_ok s" "i < 62" using assms(4) by (simp_all add: entry_of_def)
  note en = same_entries [OF dir(1) im, simplified]
  have ok: "sys_ok ?s" "entry_of ?s (str ''rtc'') i" "entry_type ?s i = 0" "free_fd (pcblock ?s) = Some 2" "(2 :: nat) < 8"
    using assms(1,4,5,11) en dir(2) next_free(1) by (simp_all add: sys_ok_def entry_of_def)
  obtain t where t: "sys_open dev (wr (\<lambda>_. 0) 4 (str ''rtc'')) 4 ?s = Some (int 2, t)" "ram t = ram ?s"
      "file_struct (pcblock t) = (file_struct (pcblock ?s))[2 := (file_struct (pcblock ?s) ! 2)\<lparr>flags := 1, fops_ptr := rtc_fops\<rparr>]"
    using open_clock_files [OF ok(1,4,5,2,3)] by metis
  note k = open_kept [OF t(1) ok(4,5)]
  have len: "length (file_struct (pcblock s)) = 8" using assms(1) by (simp add: sys_ok_def pcb_ok_def)
  have fr: "frame_at file0 (str ''frame0.txt'') ls0 t" "frame_at file1 (str ''frame1.txt'') ls1 t"
    using frame_at_area [OF assms(6) _ _ assms(2), of t] frame_at_area [OF assms(7) _ _ assms(2), of t] b(2) t(2) k(1,2) assms(8,9)
    by (simp_all add: frame_names)
  have pl: "fish_places F L t" using assms(2) k(1,2) by (simp add: fish_places_def image_len_def)
  have there: "frames_there F L ([], screen_cells (ram s) VIDEO) file0 (str ''frame0.txt'') ls0 file1 (str ''frame1.txt'') ls1 t"
    unfolding frames_there_def using ok_sys_open [OF ok(1) t(1)] pl b(1) t(2,3) k(3) fr assms(8-14) len by (simp add: frame_names)
  obtain k' u where u: "add_frames w dev F L file0 file1 1 t = Some (Inr (k', u))" "fishing F L d u"
      "file_struct (pcblock u) ! 2 = file_struct (pcblock t) ! 2"
    using frames_added [OF there assms(12)] unfolding d by metis
  have "length (fst d) < 2000" using assms(14) by (simp add: d)
  then obtain r v x where v: "sys_write (fst (w 0)) ram dev (int 2) (ret_at L) 4 (u\<lparr>ram := wr (ram u) (ret_at L) (le_bytes 32)\<rparr>) = Some (r, v)"
      "fish_show w F L (int 2) k' (v\<lparr>ram := wr (ram v) (ret_at L) (le_bytes (of_int r))\<rparr>) = Some x" "running F L 2 (fish_film d) x"
    using main_rest [OF u(2), of 2 dev w k'] u(3) t(3) len assms(15) by auto
  have "VIDEO \<noteq> 0" by (simp add: VIDEO_def)
  then have "fish_main w dev F L file0 file1 s = Some (Inr (0, snd (sys_close 2 x)))"
    using video_mode_set [OF assms(2,3)] t(1) u(1) v(1,2) by (simp add: fish_main_def)
  then show ?thesis using runningD(2) [OF v(3)] by (simp add: sys_close_screen)
qed

text \<open>An example: the clock and the two pictures in a directory, the first with the lines \<open>a\<close> and \<open>b\<close>, the second with
  the line \<open>xy\<close>, and the program's variables.\<close>

definition fish_image :: mem where
  "fish_image = fold (\<lambda>(a, bs) m. wr m a bs)
     [(0x410040, str ''rtc''), (0x410080, str ''frame0.txt''), (0x4100A0, [2]), (0x4100C0, str ''frame1.txt''), (0x4100E0, [2, 0, 0, 0, 1]),
      (0x411000, [3]), (0x412000, [2, 0, 0, 0, 1]), (0x414000, [0x61, 0x0A, 0x62]), (0x415000, [0x78, 0x79]),
      (0x8150000, str ''frame0.txt''), (0x8150010, str ''frame1.txt'')] (\<lambda>_. 0)"

definition fish_start :: sys_state where
  "fish_start = user_example\<lparr>ram := fish_image\<rparr>"

definition stack_example :: fish_stack where
  "stack_example = \<lparr>c0_at = 0x8130000, c1_at = 0x8130001, struct_at = 0x8130010, main_at = 0x8130020, tmp_at = 0x8130030,
     ret_at = 0x8130040, garbage_at = 0x8130044\<rparr>"

lemma fish_start_simps [simp]:
  "ram fish_start = fish_image" "filesystem fish_start = filesystem fs_example" "BOOT_BLOCK_PTR fish_start = 0x410000"
  "pcblock fish_start = pcblock user_example" "fd_val fish_start = 0"
  by (simp_all add: fish_start_def) (simp add: user_example_def sys_example_def)

lemma fish_start_ok: "sys_ok fish_start" "fish_places fish_example stack_example fish_start" "ld32 fish_image (mp1_list_head fish_example) = 0"
proof -
  show "sys_ok fish_start" using user_example_ok(1) by (simp add: fish_start_def sys_ok_def)
  show "fish_places fish_example stack_example fish_start"
    by (simp add: fish_places_def fish_regions_def fish_example_def stack_example_def image_len_def apart_def VIDEO_def FOUR_MB_def)
  show "ld32 fish_image (mp1_list_head fish_example) = 0"
    by (simp add: ld32_def fish_example_def fish_image_def wr_def Let_def str_def)
qed

lemma fish_start_names: "entry_name fish_start 0 = str ''rtc''" "entry_name fish_start 1 = str ''frame0.txt''" "entry_name fish_start 2 = str ''frame1.txt''"
proof -
  have n: "entry_name s i = name" if "cstring (ram s) (entry_at s i) name" "take 32 name = name" for s :: sys_state and i name
    unfolding entry_name_def using that by (metis cbytes_cstring)
  show "entry_name fish_start 0 = str ''rtc''" "entry_name fish_start 1 = str ''frame0.txt''" "entry_name fish_start 2 = str ''frame1.txt''"
    by (rule n; simp add: cstring_Cons cstring_Nil str_def entry_at_def fish_image_def wr_def Let_def)+
qed

lemma fish_start_files:
  "file_ok fish_start 0" "file_size fish_start 0 = 3" "file_bytes fish_start 0 0 3 = [0x61, 0x0A, 0x62]"
  "file_ok fish_start 1" "file_size fish_start 1 = 2" "file_bytes fish_start 1 0 2 = [0x78, 0x79]"
proof -
  have b: "ld32 fish_image 0x411004 = 0" "ld32 fish_image 0x412004 = 1" by (simp_all add: ld32_def fish_image_def wr_def Let_def str_def)
  show n: "file_size fish_start 0 = 3" "file_size fish_start 1 = 2"
    by (simp_all add: file_size_def inode_at_def ld32_def fish_image_def wr_def Let_def str_def)
  have z: "k = 0" if "k * 4096 < 3" for k :: nat using that by arith
  have "block_no fish_start 0 k < 3" "block_no fish_start 1 k < 3" if "k * 4096 < 3" for k
    using z [OF that] b by (auto simp: block_no_def inode_at_def)
  then show "file_ok fish_start 0" "file_ok fish_start 1" by (simp_all add: file_ok_def n image_len_def)
  show "file_bytes fish_start 0 0 3 = [0x61, 0x0A, 0x62]" "file_bytes fish_start 1 0 2 = [0x78, 0x79]"
    by (simp_all add: file_bytes_def upt_rec block_at_def block_no_def inode_at_def b) (simp_all add: fish_image_def wr_def Let_def str_def)
qed

lemma fish_start_frames:
  "frame_at 0x8150000 (str ''frame0.txt'') [[0x61], [0x62]] fish_start" "frame_at 0x8150010 (str ''frame1.txt'') [[0x78, 0x79]] fish_start"
  "entry_of fish_start (str ''rtc'') 0" "entry_type fish_start 0 = 0"
proof -
  have d: "directory_ok fish_start" by (simp add: directory_ok_def image_len_def)
  have e: "entry_of fish_start (str ''rtc'') 0" "entry_of fish_start (str ''frame0.txt'') 1" "entry_of fish_start (str ''frame1.txt'') 2"
    using d fish_start_names by (simp_all add: entry_of_def less_2_cases_iff str_def)
  have ty: "entry_type fish_start 0 = 0" "entry_type fish_start 1 = 2" "entry_type fish_start 2 = 2" "entry_inode fish_start 1 = 0" "entry_inode fish_start 2 = 1"
    by (simp_all add: entry_type_def entry_inode_def entry_at_def ld32_def fish_image_def wr_def Let_def str_def)
  have c: "cstring fish_image 0x8150000 (str ''frame0.txt'')" "cstring fish_image 0x8150010 (str ''frame1.txt'')"
    by (simp_all add: cstring_Cons cstring_Nil str_def fish_image_def wr_def Let_def)
  show "frame_at 0x8150000 (str ''frame0.txt'') [[0x61], [0x62]] fish_start"
    unfolding frame_at_def using e(2) ty(2,4) c(1) fish_start_files(1-3) by (auto simp: str_def intro!: exI [of _ "1 :: nat"])
  show "frame_at 0x8150010 (str ''frame1.txt'') [[0x78, 0x79]] fish_start"
    unfolding frame_at_def using e(3) ty(3,5) c(2) fish_start_files(4-6) by (auto simp: str_def intro!: exI [of _ "2 :: nat"])
  show "entry_of fish_start (str ''rtc'') 0" "entry_type fish_start 0 = 0" by (rule e(1), rule ty(1))
qed

lemma example_area: "region 0x8150000 11 \<inter> fish_area fish_example stack_example = {}" "region 0x8150010 11 \<inter> fish_area fish_example stack_example = {}"
proof -
  have "\<forall>(a, n)\<in>set (fish_regions fish_example stack_example). apart 0x8150000 11 a n \<and> apart 0x8150010 11 a n"
    by (simp add: fish_regions_def fish_example_def stack_example_def apart_def VIDEO_def)
  then show "region 0x8150000 11 \<inter> fish_area fish_example stack_example = {}" "region 0x8150010 11 \<inter> fish_area fish_example stack_example = {}"
    using apart_region unfolding fish_area_def by fastforce+
qed

lemma example_picture: "fits 0 [[0x61], [0x62]] [[0x78, 0x79]]" "fits 0 [[0x78, 0x79]] [[0x61], [0x62]]"
  "length (picture 0 [[0x61], [0x62]] [[0x78, 0x79]]) = 3" "length (picture 0 [[0x78, 0x79]] [[0x61], [0x62]]) = 2"
  by (simp_all add: row_items.simps frame_item_def next_char_of_def visible_def)

lemma shell_files_free: "flags (shell_files ! j) = 0" if "j \<in> {2, 3, 4}"
  using that by (auto simp: shell_files_def start_files_def empty_file_def numeral_eq_Suc)

theorem fish_plays_witness:
  "\<exists>t. fish_main (\<lambda>_. (0, [\<lambda>t. Some (rtc_interrupt (\<lambda>_ _. 0) t)])) (\<lambda>_ _. 0) fish_example stack_example 0x8150000 0x8150010 fish_start
      = Some (Inr (0, t))
    \<and> (let d = fish_film (fold place (picture 0 [[0x61], [0x62]] [[0x78, 0x79]]) ([], screen_cells fish_image VIDEO))
       in blinking fish_example VIDEO (ram t) (fst d) (snd d))"
proof -
  have w: "ticking (\<lambda>_ _. 0) ((\<lambda>_. (0, [\<lambda>t. Some (rtc_interrupt (\<lambda>_ _. 0) t)])) :: nat \<Rightarrow> int \<times> sys_state handler list)"
    by (simp add: ticking_def)
  have c: "\<forall>j\<in>{2, 3, 4}. flags (file_struct (pcblock fish_start) ! j) = 0" "length [[0x78, 0x79 :: u8]] \<le> length [[0x61], [0x62 :: u8]]"
      "length (picture 0 [[0x61], [0x62]] [[0x78, 0x79]]) < 2000" "ld32 (ram fish_start) (mp1_list_head fish_example) = 0" "fd_val fish_start < 2"
    using shell_files_free fish_start_ok(3) example_picture(3) by (simp_all del: picture.simps)
  from fish_plays [OF fish_start_ok(1,2) c(4) fish_start_frames(3,4,1,2) example_area c(5,1,2) example_picture(1) c(3) w refl]
  show ?thesis by (simp only: Let_def fish_start_simps(1))
qed

text \<open>C18: the pictures. When \<open>add_frames\<close> has read pictures with lines of at most 80 characters into a device without
  items and the tasklet has run \<open>n\<close> times, every place of the screen that is not blank in both pictures, the first line starting at
  location 40, shows its character of the first picture while \<open>n\<close> modulo 30 is below 15 and that
  of the second otherwise, and every other place is as it was.\<close>

theorem frames_blink:
  assumes "frames_there F L ([], scr) f0 n0 ls0 f1 n1 ls1 s" "length ls1 \<le> length ls0" "\<forall>l\<in>set ls0 \<union> set ls1. length l \<le> 80"
  shows "\<exists>k' t m. add_frames w dev F L f0 f1 k s = Some (Inr (k', t))
    \<and> ((\<lambda>x. Option.bind x (mp1_rtc_tasklet F)) ^^ n) (Some (ram t)) = Some m
    \<and> (\<forall>l<2000. m (VIDEO + of_nat (2 * l)) = shown_cell n ls0 ls1 scr l)"
proof -
  let ?d = "fold place (picture 0 ls0 ls1) ([], scr)"
  obtain k' t where t: "add_frames w dev F L f0 f1 k s = Some (Inr (k', t))" "fishing F L ?d t"
    using frames_added [OF assms(1,2)] by metis
  have b: "blinking F VIDEO (ram t) (fst ?d) (snd ?d)" "blinking F VIDEO (ram s) [] scr"
    using t(2) assms(1) by (simp_all add: fishing_def frames_there_def)
  obtain m where m: "((\<lambda>x. Option.bind x (mp1_rtc_tasklet F)) ^^ n) (Some (ram t)) = Some m"
      "blinking F VIDEO m (fst ((device_tick ^^ n) ?d)) (snd ((device_tick ^^ n) ?d))"
    using tasklet.steps_refine [of F VIDEO "ram t" ?d n] b(1) by (auto simp: split_beta)
  have len: "length scr = 2000" using blinking_places(1) [OF b(2)] .
  have "set (fst (fold place es (xs, scr))) = set es \<union> set xs" for es xs and scr :: "u8 list"
    by (induction es arbitrary: xs scr) (auto simp: place_def)
  then have places: "\<forall>e\<in>set (picture 0 ls0 ls1). unat (location e) < length scr"
    using blinking_places(1,2) [OF b(1)] len by auto
  have lines: "\<forall>l\<in>set ls0 \<union> set ls1. length l \<le> 80 \<and> 0x0A \<notin> set l" "fits 0 ls0 ls1"
    using assms(1,3) unfolding frames_there_def frame_at_def by blast+
  have "m (VIDEO + of_nat (2 * l)) = shown_cell n ls0 ls1 scr l" if "l < 2000" for l
  proof -
    have "snd ((device_tick ^^ n) ?d) = screen_cells m VIDEO" using m(2) by (simp add: blinking_def)
    moreover have "screen_cells m VIDEO ! l = m (VIDEO + of_nat (2 * l))" using that by (simp add: screen_cells_def)
    ultimately show ?thesis using picture_ticks [OF lines(1) assms(2) lines(2) _ places, of l n] that len by simp
  qed
  then show ?thesis using t(1) m(1) by blast
qed

text \<open>The example with the clock open and the device ready.\<close>

definition fish_open :: sys_state where
  "fish_open = fish_start\<lparr>ram := fish_init fish_example fish_image,
     pcblock := (pcblock user_example)\<lparr>file_struct := shell_files[2 := empty_file\<lparr>flags := 1, fops_ptr := rtc_fops\<rparr>]\<rparr>\<rparr>"

lemma fish_open_there:
  assumes "frame_at f0 n0 ls0 fish_start" "frame_at f1 n1 ls1 fish_start" "fits 0 ls0 ls1" "length (picture 0 ls0 ls1) \<le> 2000"
    "region f0 (length n0 + 1) \<inter> fish_area fish_example stack_example = {}" "region f1 (length n1 + 1) \<inter> fish_area fish_example stack_example = {}"
  shows "frames_there fish_example stack_example ([], screen_cells fish_image VIDEO) f0 n0 ls0 f1 n1 ls1 fish_open"
proof -
  note b = fish_init_blinking [OF fish_start_ok(2), simplified, OF fish_start_ok(3)]
  have s: "filesystem fish_open = filesystem fish_start" "BOOT_BLOCK_PTR fish_open = BOOT_BLOCK_PTR fish_start"
      "ram fish_open = fish_init fish_example fish_image" "fd_val fish_open = 0"
      "file_struct (pcblock fish_open) = shell_files[2 := empty_file\<lparr>flags := 1, fops_ptr := rtc_fops\<rparr>]"
    using fish_start_simps(5) by (simp_all add: fish_open_def)
  have "sys_ok fish_open" using fish_start_ok(1) shell_files_nth(3) by (simp add: fish_open_def sys_ok_def pcb_ok_def)
  moreover have "fish_places fish_example stack_example fish_open" using fish_start_ok(2) s(1,2) by (simp add: fish_places_def image_len_def)
  moreover have "frame_at f0 n0 ls0 fish_open" "frame_at f1 n1 ls1 fish_open"
    using frame_at_area [OF assms(1) _ assms(5) fish_start_ok(2) s(1,2)] frame_at_area [OF assms(2) _ assms(6) fish_start_ok(2) s(1,2)] b(2) s(3)
    by simp_all
  ultimately show ?thesis
    unfolding frames_there_def using b(1) s(3-5) assms(3-6) shell_files_free [of 3] shell_files_free [of 4] shell_files_nth(3) by simp
qed

theorem frames_blink_witness:
  "\<exists>k' t m. add_frames calm (\<lambda>_ _. 0) fish_example stack_example 0x8150000 0x8150010 1 fish_open = Some (Inr (k', t))
    \<and> ((\<lambda>x. Option.bind x (mp1_rtc_tasklet fish_example)) ^^ 20) (Some (ram t)) = Some m \<and> m (VIDEO + 82) = 0x79 \<and> m (VIDEO + 240) = 0x20"
proof -
  have "frames_there fish_example stack_example ([], screen_cells fish_image VIDEO) 0x8150000 (str ''frame0.txt'') [[0x61], [0x62]]
      0x8150010 (str ''frame1.txt'') [[0x78, 0x79]] fish_open"
    by (rule fish_open_there) (use fish_start_frames(1,2) example_picture(1,3) example_area in \<open>simp_all add: frame_names del: picture.simps fits.simps\<close>)
  from frames_blink [OF this, of calm "\<lambda>_ _. 0" 1 20] obtain k' t m where
    m: "add_frames calm (\<lambda>_ _. 0) fish_example stack_example 0x8150000 0x8150010 1 fish_open = Some (Inr (k', t))"
      "((\<lambda>x. Option.bind x (mp1_rtc_tasklet fish_example)) ^^ 20) (Some (ram t)) = Some m"
      "\<forall>l<2000. m (VIDEO + of_nat (2 * l)) = shown_cell 20 [[0x61], [0x62]] [[0x78, 0x79]] (screen_cells fish_image VIDEO) l" by auto
  have "m (VIDEO + 82) = 0x79" "m (VIDEO + 240) = 0x20"
    using m(3) [rule_format, of 41] m(3) [rule_format, of 120] by (simp_all add: shown_cell_def cell_of_def line_char_def)
  then show ?thesis using m(1,2) by blast
qed

text \<open>C36: when the second picture has more lines than the first, \<open>fish\<close> fails while it reads: closing the first file
  clears the operations of the descriptor that was opened last, which is the second file's, and the next read
  of it calls through a null pointer.\<close>

theorem short_frame_fails:
  assumes "frames_there F L d f0 n0 ls0 f1 n1 ls1 s" "length ls0 < length ls1"
  shows "add_frames w dev F L f0 f1 k s = None"
proof -
  obtain u i0 i1 where u: "add_frames w dev F L f0 f1 k s = map_option Inr (frame_rows w F L 3 4 0 0 0 k u)"
    "fishing F L d u" "frame_left 3 i0 (c0_at L) 0 ls0 u" "frame_left 4 i1 (c1_at L) 0 ls1 u" "fd_index u = 4" "length (kinds u) = 8" "ls0 \<noteq> []"
    using frames_opened [OF assms(1)] by metis
  obtain l0 ls0' where l: "ls0 = l0 # ls0'" using u(7) by (cases ls0) auto
  have "frame_rows w F L 3 4 0 0 0 k u = None"
    using rows_crash [OF u(2) u(3) [unfolded l] u(4) _ u(5,6), of 0 w k] assms unfolding frames_there_def l by simp
  then show ?thesis using u(1) by simp
qed

theorem short_frame_fails_witness:
  "add_frames calm (\<lambda>_ _. 0) fish_example stack_example 0x8150010 0x8150000 1 fish_open = None"
proof -
  have "frames_there fish_example stack_example ([], screen_cells fish_image VIDEO) 0x8150010 (str ''frame1.txt'') [[0x78, 0x79]]
      0x8150000 (str ''frame0.txt'') [[0x61], [0x62]] fish_open"
    by (rule fish_open_there) (use fish_start_frames(1,2) example_picture(2,4) example_area in \<open>simp_all add: frame_names del: picture.simps fits.simps\<close>)
  from short_frame_fails [OF this] show ?thesis by simp
qed

end
