(* ===== verification/Spec2Isabelle.thy ===== *)
theory Spec2Isabelle
  imports Stdio Syserr Kernel Shell Pingpong Grep Sigtest Blink Fish
begin

text \<open>
  Verification of the ECE391 operating system under \<^verbatim>\<open>src/\<close>: the kernel in
  \<^verbatim>\<open>src/student-distrib/\<close> and the user programs in \<^verbatim>\<open>src/syscalls/\<close> and
  \<^verbatim>\<open>src/fish/\<close>.

  \<^bold>\<open>The program.\<close> The kernel boots, sets up the descriptor table, the interrupt controllers, paging
  and the devices, and starts a shell. It runs up to six tasks, each with a page directory that maps
  its own 4 MB window, on three terminals that share one display. Programs enter it through
  \<^verbatim>\<open>int 0x80\<close>: \<^verbatim>\<open>syscall_table.S\<close> dispatches to the ten calls of \<^verbatim>\<open>systemcalls.c\<close>, which reach the
  devices through tables of file operations (clock, terminal, file system). The file system is an
  image in memory that the boot loader leaves there. The keyboard interrupt decodes a scan code and
  hands the character to the line editor of the current terminal, or switches terminals.

  \<^bold>\<open>Conventions of the model.\<close> An operation is a function on the kernel's state. The state is a record
  that the components extend one after the other: \<open>machine\<close> (memory as the running address space sees
  it, interrupt flag, page directory register, log of port writes), then the console's cursor, the
  interrupt masks, the clock's flag, the keyboard's flags, the paging tables, the file system with the
  control block \<open>pcblock\<close>, the terminal, and the system calls. Every operation is polymorphic in the
  rest of the record, so it visibly leaves that rest alone. C integers are unbounded \<open>int\<close>s where
  overflow would be undefined and 32- or 8-bit words where the source has unsigned types. Memory is a
  function from 32-bit addresses to bytes; objects that only one function can reach (string literals,
  local arrays) are memories of their own. What the program does not determine is a parameter:
  \<open>dev\<close>, the answers of the devices to port reads; \<open>irqs\<close>, the interrupts that arrive while a call waits;
  \<open>junk\<close>, the value of a local variable that is read before it is assigned; \<open>esp\<close> and \<open>ebp\<close>, the stack at a
  call of \<open>execute\<close>; \<open>addr\<close>, where the linker puts a handler; \<open>past\<close>, the byte behind the scan-code table.
  The result \<open>None\<close> means that a call does not return or that C gives it no meaning (a jump through a null
  pointer, a write past the control block). Waiting loops end or not with the interrupts they are given; all other loops have
  termination proofs or are \<open>partial_function\<close>s whose result is proved to exist where a property needs it.
  No fuel is used outside \<open>drain\<close>, a client, and the rounds of \<open>pingpong\<close>, which the properties
  quantify over.

  \<^bold>\<open>Theories.\<close>
  \<^item> \<open>Prelude\<close>: runs of bytes in memory, regions that are apart, NUL-terminated strings, little-endian words.
  \<^item> \<open>Lib_Mem\<close>, \<open>Lib_String\<close>: the memory and string routines of \<^verbatim>\<open>lib.c\<close>, of \<^verbatim>\<open>ece391support.c\<close> and of
    \<^verbatim>\<open>fish.c\<close>, with their inline assembly as loops. The locales \<open>byte_copy\<close> and \<open>c_strings\<close> are contracts
    that the kernel's and the users' versions meet; the copies are bytewise copies at any alignment,
    and \<open>itoa\<close> reads back.
  \<^item> \<open>Machine\<close>: ports, interrupt flag, waiting for interrupts (\<^verbatim>\<open>lib.h\<close>).
  \<^item> \<open>Screen\<close>: cursor, cells, \<open>putc\<close>, \<open>puts\<close>, \<open>printf\<close> (\<^verbatim>\<open>lib.c\<close>).
  \<^item> \<open>PIC\<close>, \<open>RTC\<close>, \<open>Keyboard\<close>, \<open>IDT\<close>: \<^verbatim>\<open>i8259.c\<close>, \<^verbatim>\<open>rtc.c\<close>, the decoding half of \<^verbatim>\<open>keyboard.c\<close>, \<^verbatim>\<open>idt.c\<close>. The
    masks refine a set of masked lines and the controllers mirror them; the clock accepts exactly the
    powers of two and a read waits for exactly the next interrupt; the modifier flags are those of the
    keys held down, whatever lies behind the scan-code table; every vector has its gate.
  \<^item> \<open>Paging\<close>: \<^verbatim>\<open>pagefile.c\<close> and the layout of \<^verbatim>\<open>x86_desc.S\<close>. After \<open>paging_init\<close> the tables translate as
    intended, tasks are isolated, and exchanging the user window on a reload of the directory register
    refines one physical memory.
  \<^item> \<open>FileSys\<close> (model), \<open>FileRead\<close>, \<open>Loader\<close> (properties): \<^verbatim>\<open>filesystem.c\<close>. Reads return the file's bytes
    where the code's block loop is right, and what it returns where it is not; lookup, directory reads,
    and the loader, which leaves the program's image in the window of the task it was started for.
  \<^item> \<open>Terminal\<close>: \<^verbatim>\<open>terminal.c\<close> but for the keyboard. Writing refines an abstract display of 25 rows that
    scrolls (\<open>emit\<close>); reading copies the line that was entered.
  \<^item> \<open>Syscalls\<close> (model and type invariant), \<open>Descriptors\<close>, \<open>Process\<close> (properties): \<^verbatim>\<open>systemcalls.c\<close>. The
    locale \<open>file_operations\<close> is the contract of a table of file operations, met by the three tables.
    \<open>sys_ok\<close> is kept by every call whose interrupts leave the descriptors alone; \<open>open\<close>, \<open>read\<close>, \<open>close\<close> on descriptors; the command line; \<open>execute\<close>
    enters a program and \<open>halt\<close> returns into its caller. A control block saved on the kernel stacks'
    page is an entry of \<open>pcbs\<close>, by its address.
  \<^item> \<open>Switch\<close>: the keyboard's side of \<^verbatim>\<open>terminal.c\<close> and the interrupt handler of \<^verbatim>\<open>keyboard.c\<close>. Keys act on the
    line as an abstract line editor does, over all sequences of keys (the inductive relation \<open>keys\<close>) the
    line stays inside its buffer, a terminal switched away from and back comes back.
  \<^item> \<open>Stdio\<close>: the standard descriptors. Over all sequences of calls of the four operations on files (the inductive
    relation \<open>file_calls\<close>), with the clock and the keyboard as the interrupts, a program keeps its terminal.
  \<^item> \<open>Boot\<close>, \<open>Kernel\<close>: \<open>entry\<close> in \<^verbatim>\<open>kernel.c\<close> with \<^verbatim>\<open>multiboot.h\<close> and the segment descriptors of \<^verbatim>\<open>x86_desc.h\<close>.
    \<open>prints\<close> is a total-correctness triple for the steps of the report on the boot loader's data; the
    report ends with exactly its text printed. The start of the kernel leaves the gates, masks, page
    tables and system segments as intended and runs the shell of the image as the first task.
  \<^item> \<open>Programs\<close>: \<^verbatim>\<open>ece391cat.c\<close>, \<^verbatim>\<open>ece391ls.c\<close>, \<^verbatim>\<open>ece391hello.c\<close>, \<^verbatim>\<open>ece391counter.c\<close>,
    \<^verbatim>\<open>ece391testprint.c\<close> on the system calls above. The locale \<open>print_loop\<close> is the contract of a loop that
    prints what is left piece by piece, met by the loops of \<open>cat\<close>, \<open>ls\<close> and \<open>counter\<close>.
  \<^item> \<open>Syserr\<close>: \<^verbatim>\<open>ece391syserr.c\<close>, the programs' own tests of refused calls. A row of calls that are each
    answered -1 (\<open>refuses\<close>) passes its test (\<open>passes\<close>) and leaves the next one ready (\<open>test_ready\<close>).
  \<^item> \<open>Shell\<close>: \<^verbatim>\<open>ece391shell.c\<close>. The program that \<open>execute\<close> enters is a parameter, from its entry point to
    its \<open>halt\<close>, whose \<open>outcome\<close> carries the value that the call returns; a round of the shell, a command that
    runs and comes back, a command that does not exist.
  \<^item> \<open>Pingpong\<close>: \<^verbatim>\<open>ece391pingpong.c\<close>. Its endless loop is cut after \<open>n\<close> rounds, for all \<open>n\<close>.
  \<^item> \<open>Grep\<close>: \<^verbatim>\<open>ece391grep.c\<close>. The buffer of lines implements the search of the lines of the file.
  \<^item> \<open>Sigtest\<close>: \<^verbatim>\<open>ece391sigtest.c\<close>. Its store through a null pointer is translated by the directory in \<open>cr3\<close>, and the
    fault goes through the gate that \<open>init_idt\<close> set.
  \<^item> \<open>Blink\<close>: the blinking characters of \<^verbatim>\<open>blink.S\<close> with the allocator of \<^verbatim>\<open>fish.c\<close>. The linked list in memory
    implements a list of items and a screen (\<open>blinking\<close>); the locale \<open>ticker\<close> repeats a step that implements
    an abstract one, and the schedule of an item is a closed form.
  \<^item> \<open>Fish\<close>: \<open>main\<close> and \<open>add_frames\<close> of \<^verbatim>\<open>fish.c\<close> on the system calls and the blinking characters. The two files, read
    character by character (\<open>stream\<close>, \<open>frame_left\<close>), become the items of \<open>picture\<close>; the whole program implements
    \<open>fish_film\<close> on the list of items and the screen.

  Several properties state what the code does where it differs from what its comments or its clients
  expect: the tail of a long read, the directory entry that \<open>open\<close> overwrites, the operations that
  \<open>close\<close> takes from another descriptor, the slot a failed \<open>execute\<close> keeps, the slots it never uses, the
  shell that restarts in another's slot, the line count that a terminal switch loses, the pictures that
  \<open>fish\<close> cannot read.

  \<^bold>\<open>Not modelled.\<close> \<^verbatim>\<open>ece391emulate.c\<close> replaces the kernel's system calls by those of Linux, which are not in the repository;
  \<^verbatim>\<open>boot.S\<close> only calls \<open>entry\<close>, and \<^verbatim>\<open>debug.h\<close> and \<^verbatim>\<open>types.h\<close> have no operations of the kernel's own. The entry stubs
  of \<^verbatim>\<open>interrupt_handler.S\<close> save and restore registers around the handlers and are taken as calls of them.
  Interrupts arrive where the code waits; between the other steps of an operation they are not
  considered. The processor's caches of translations are not part of the machine.
\<close>

end
